(* ===== verification/Btree.thy ===== *)
theory Btree
  imports Prelude
begin

text \<open>
  The binary tree behind the Kademlia routing table
  (\<open>internal/protocol/dht/ktable/btree/btree.go\<close> and \<open>node.go\<close>).

  A \<open>NodeID\<close> is a byte slice; the tree stores the XOR of each id with the table's origin and
  branches on one bit per level. The three Go node types (\<open>emptyNode\<close>, \<open>leafNode\<close>,
  \<open>branchNode\<close>) are the constructors of \<open>inode\<close>, the two-key maps of a branch
  (\<open>branches\<close>, \<open>counts\<close>) are two constructor arguments each, and the interface methods of
  \<open>iNode\<close> are functions by cases on the constructor. A branch is mutated in place by the
  code; every node has one parent, so the model returns the new node. \<open>None\<close> is a Go panic
  (an index out of range, a length mismatch in \<open>MustXor\<close>, or an explicit \<open>panic\<close>).
\<close>

section \<open>Identifiers and bit strings (btree.go)\<close>

type_synonym node_id = bytes

datatype put_result = PutRejected | PutAccepted | PutAlreadyExists

definition nodeid_GetBit :: "node_id \<Rightarrow> nat \<Rightarrow> bool option" where
  "nodeid_GetBit nid n =
     (if n div 8 < length nid
      then Some (drop_bit (7 - n mod 8) (nid ! (n div 8)) AND 1 = 1) else None)"

definition nodeid_Xor :: "node_id \<Rightarrow> node_id \<Rightarrow> string + node_id" where
  "nodeid_Xor nid other =
     (if length nid \<noteq> length other then Inl ''length mismatch''
      else Inr (map2 (\<lambda>a b. a XOR b) nid other))"

definition nodeid_MustXor :: "node_id \<Rightarrow> node_id \<Rightarrow> node_id option" where
  "nodeid_MustXor nid other = (case nodeid_Xor nid other of Inl _ \<Rightarrow> None | Inr r \<Rightarrow> Some r)"

fun nodeid_equals_from :: "node_id \<Rightarrow> node_id \<Rightarrow> nat \<Rightarrow> bool" where
  "nodeid_equals_from nid [] i = True"
| "nodeid_equals_from nid (b # other) i =
     (if b \<noteq> nid ! i then False else nodeid_equals_from nid other (Suc i))"

definition nodeid_Equals :: "node_id \<Rightarrow> node_id \<Rightarrow> bool" where
  "nodeid_Equals nid other =
     (if length other \<noteq> length nid then False else nodeid_equals_from nid other 0)"

definition nodeid_Bits :: "node_id \<Rightarrow> bool list" where
  "nodeid_Bits nid = map (\<lambda>i. nodeid_GetBit nid i = Some True) [0..<length nid * 8]"

fun bits_LeadingZeros :: "bool list \<Rightarrow> nat" where
  "bits_LeadingZeros [] = 0"
| "bits_LeadingZeros (b # bs) = (if b then 0 else Suc (bits_LeadingZeros bs))"

text \<open>
  \<open>Bits.Cmp\<close>: slicing past the end of \<open>b\<close> or \<open>other\<close> panics. The recursion
  drops at least one element of \<open>b\<close>.
\<close>

fun bits_Cmp :: "bool list \<Rightarrow> bool list \<Rightarrow> int option" where
  "bits_Cmp b other =
     (let thisPos = bits_LeadingZeros b + 1; otherPos = bits_LeadingZeros other + 1 in
      if thisPos < otherPos then Some 1
      else if thisPos > otherPos then Some (- 1)
      else if thisPos = length b then Some 0
      else if thisPos > length b \<or> thisPos > length other then None
      else bits_Cmp (drop thisPos b) (drop thisPos other))"

declare bits_Cmp.simps [simp del]

definition bits_String :: "bool list \<Rightarrow> string" where
  "bits_String b = map (\<lambda>bt. if bt then CHR ''1'' else CHR ''0'') b"

definition nodeid_String :: "node_id \<Rightarrow> string" where
  "nodeid_String nid = hex_encode nid"

definition nodeid_BinaryString :: "node_id \<Rightarrow> string" where
  "nodeid_BinaryString nid = bits_String (nodeid_Bits nid)"

fun put_result_String :: "put_result \<Rightarrow> string" where
  "put_result_String PutRejected = ''rejected''"
| "put_result_String PutAccepted = ''accepted''"
| "put_result_String PutAlreadyExists = ''already exists''"

section \<open>Nodes (node.go)\<close>

record base_node =
  bn_origin :: node_id
  bn_bit :: bool
  bn_path :: "bool list"

datatype inode =
    EmptyNode base_node
  | LeafNode base_node node_id
  | BranchNode base_node inode inode int int

definition appendToPath :: "bool list \<Rightarrow> bool \<Rightarrow> bool list" where
  "appendToPath path bt = path @ [bt]"

definition child_base :: "base_node \<Rightarrow> bool \<Rightarrow> base_node" where
  "child_base b bt =
     \<lparr>bn_origin = bn_origin b, bn_bit = bt, bn_path = appendToPath (bn_path b) bt\<rparr>"

text \<open>The branch node that \<open>leafNode.put\<close> starts from: two empty children.\<close>

definition init_branch :: "base_node \<Rightarrow> inode" where
  "init_branch b =
     BranchNode b (EmptyNode (child_base b False)) (EmptyNode (child_base b True)) 0 0"

fun inode_base :: "inode \<Rightarrow> base_node" where
  "inode_base (EmptyNode b) = b"
| "inode_base (LeafNode b x) = b"
| "inode_base (BranchNode b l r cl cr) = b"

fun inode_count :: "inode \<Rightarrow> int" where
  "inode_count (EmptyNode b) = 0"
| "inode_count (LeafNode b x) = 1"
| "inode_count (BranchNode b l r cl cr) = cl + cr"

fun allXors :: "inode \<Rightarrow> node_id list" where
  "allXors (EmptyNode b) = []"
| "allXors (LeafNode b x) = [x]"
| "allXors (BranchNode b l r cl cr) = allXors l @ allXors r"

fun inode_has :: "inode \<Rightarrow> node_id \<Rightarrow> bool option" where
  "inode_has (EmptyNode b) xr = Some False"
| "inode_has (LeafNode b x) xr = Some (nodeid_Equals x xr)"
| "inode_has (BranchNode b l r cl cr) xr =
     (case nodeid_GetBit xr (length (bn_path b)) of
        None \<Rightarrow> None
      | Some bt \<Rightarrow> inode_has (if bt then r else l) xr)"

text \<open>
  \<open>branchNode.put\<close>, given the result of the selected child's \<open>put\<close>.
\<close>

definition branch_set :: "base_node \<Rightarrow> inode \<Rightarrow> inode \<Rightarrow> int \<Rightarrow> int \<Rightarrow> bool \<Rightarrow> inode \<Rightarrow> inode" where
  "branch_set b l r cl cr bt c =
     (if bt then BranchNode b l c cl (inode_count c) else BranchNode b c r (inode_count c) cr)"

definition branch_put ::
  "base_node \<Rightarrow> inode \<Rightarrow> inode \<Rightarrow> int \<Rightarrow> int \<Rightarrow> bool \<Rightarrow> (inode \<times> put_result) option
     \<Rightarrow> (inode \<times> put_result) option" where
  "branch_put b l r cl cr bt res =
     (case res of
        None \<Rightarrow> None
      | Some (c, PutAccepted) \<Rightarrow> Some (branch_set b l r cl cr bt c, PutAccepted)
      | Some (c, result) \<Rightarrow> Some (BranchNode b l r cl cr, result))"

text \<open>
  \<open>put\<close>. For a leaf holding another key the code builds \<open>init_branch\<close>, puts the leaf's
  own key into it (which lands in one of the two empty children) and then puts the new key
  into the result; the equation below is those two puts with the first one evaluated, and
  lemma \<open>inode_put_leaf_as_written\<close> gives the code's own composition back.
\<close>

function inode_put :: "inode \<Rightarrow> node_id \<Rightarrow> (inode \<times> put_result) option" where
  "inode_put (EmptyNode b) xr = Some (LeafNode b xr, PutAccepted)"
| "inode_put (LeafNode b x) xr =
     (if nodeid_Equals x xr then Some (LeafNode b x, PutAlreadyExists)
      else (case nodeid_GetBit x (length (bn_path b)) of
         None \<Rightarrow> None
       | Some xbit \<Rightarrow>
           (let leaf = LeafNode (child_base b xbit) x;
                l = (if xbit then EmptyNode (child_base b False) else leaf);
                r = (if xbit then leaf else EmptyNode (child_base b True));
                cl = (if xbit then 0 else 1); cr = (if xbit then 1 else 0) in
            case nodeid_GetBit xr (length (bn_path b)) of
              None \<Rightarrow> None
            | Some bt \<Rightarrow>
                (if bt = xbit then branch_put b l r cl cr bt (inode_put leaf xr)
                 else branch_put b l r cl cr bt
                        (Some (LeafNode (child_base b bt) xr, PutAccepted))))))"
| "inode_put (BranchNode b l r cl cr) xr =
     (case nodeid_GetBit xr (length (bn_path b)) of
        None \<Rightarrow> None
      | Some bt \<Rightarrow> branch_put b l r cl cr bt (inode_put (if bt then r else l) xr))"
  by pat_completeness auto

fun inode_nodes :: "inode \<Rightarrow> nat" where
  "inode_nodes (EmptyNode b) = 1"
| "inode_nodes (LeafNode b x) = 1"
| "inode_nodes (BranchNode b l r cl cr) = Suc (inode_nodes l + inode_nodes r)"

termination inode_put
  by (relation "measures [\<lambda>(t, x). inode_nodes t,
                 \<lambda>(t, x). 8 * length x + 1 - length (bn_path (inode_base t))]")
     (auto simp: nodeid_GetBit_def child_base_def appendToPath_def Let_def split: if_splits)

fun inode_drop :: "inode \<Rightarrow> node_id \<Rightarrow> (inode \<times> bool) option" where
  "inode_drop (EmptyNode b) xr = Some (EmptyNode b, False)"
| "inode_drop (LeafNode b x) xr =
     (if nodeid_Equals x xr then Some (EmptyNode b, True) else Some (LeafNode b x, False))"
| "inode_drop (BranchNode b l r cl cr) xr =
     (case nodeid_GetBit xr (length (bn_path b)) of
        None \<Rightarrow> None
      | Some bt \<Rightarrow>
          (case inode_drop (if bt then r else l) xr of
             None \<Rightarrow> None
           | Some (newBranch, ok) \<Rightarrow>
               (if \<not> ok then Some (BranchNode b l r cl cr, False)
                else
                  (let newCount = inode_count newBranch;
                       otherCount = (if bt then cl else cr);
                       other = (if bt then l else r) in
                   if newCount = 0 \<and> otherCount = 0 then Some (EmptyNode b, True)
                   else if newCount = 0 \<and> otherCount = 1 then
                     (case allXors other of
                        [x] \<Rightarrow> Some (LeafNode b x, True)
                      | _ \<Rightarrow> None)
                   else Some (branch_set b l r cl cr bt newBranch, True)))))"

fun leaf_closer :: "node_id \<Rightarrow> nat \<Rightarrow> nat \<Rightarrow> bool list \<Rightarrow> int option" where
  "leaf_closer x depth i [] = Some 1"
| "leaf_closer x depth i (bt # path) =
     (if bt then
        (case nodeid_GetBit x (i + depth) of
           None \<Rightarrow> None
         | Some xb \<Rightarrow> if \<not> xb then Some 0 else leaf_closer x depth (Suc i) path)
      else leaf_closer x depth (Suc i) path)"

fun countCloserThanSubpath :: "inode \<Rightarrow> bool list \<Rightarrow> int option" where
  "countCloserThanSubpath (EmptyNode b) path = Some 0"
| "countCloserThanSubpath (LeafNode b x) path = leaf_closer x (length (bn_path b)) 0 path"
| "countCloserThanSubpath (BranchNode b l r cl cr) path =
     (case path of
        [] \<Rightarrow> Some 0
      | [bt] \<Rightarrow> Some (if bt then cl + cr else cl)
      | bt # rest \<Rightarrow>
          (if \<not> bt then countCloserThanSubpath l rest
           else map_option (\<lambda>n. cl + n) (countCloserThanSubpath r rest)))"

fun xorsClosestToSubpath :: "inode \<Rightarrow> bool list \<Rightarrow> int \<Rightarrow> node_id list" where
  "xorsClosestToSubpath (EmptyNode b) path count = []"
| "xorsClosestToSubpath (LeafNode b x) path count = (if count < 1 then [] else [x])"
| "xorsClosestToSubpath (BranchNode b l r cl cr) path count =
     (let path' = (if path = [] then appendToPath path False else path);
          closest = xorsClosestToSubpath (if hd path' then r else l) (tl path') count in
      if int (length closest) < count
      then closest @ xorsClosestToSubpath (if hd path' then l else r) []
                       (count - int (length closest))
      else closest)"

section \<open>The root (node.go)\<close>

record root_node =
  rn_origin :: node_id
  rn_k :: int
  rn_node :: inode
  rn_splitting :: bool
  rn_buckets :: "nat \<rightharpoonup> int"

definition btree_New :: "node_id \<Rightarrow> int \<Rightarrow> bool \<Rightarrow> root_node" where
  "btree_New origin k splitting =
     \<lparr>rn_origin = origin, rn_k = k,
      rn_node = EmptyNode \<lparr>bn_origin = origin, bn_bit = False, bn_path = []\<rparr>,
      rn_splitting = splitting, rn_buckets = Map.empty\<rparr>"

definition btree_N :: "root_node \<Rightarrow> nat" where
  "btree_N n = length (rn_origin n) * 8"

definition btree_Has :: "root_node \<Rightarrow> node_id \<Rightarrow> bool option" where
  "btree_Has n nid =
     (case nodeid_MustXor nid (rn_origin n) of
        None \<Rightarrow> None
      | Some xr \<Rightarrow> inode_has (rn_node n) xr)"

definition getBucketCount :: "root_node \<Rightarrow> node_id \<Rightarrow> int" where
  "getBucketCount n xr =
     (case rn_buckets n (bits_LeadingZeros (nodeid_Bits xr)) of None \<Rightarrow> 0 | Some c \<Rightarrow> c)"

definition addBucketCount :: "root_node \<Rightarrow> node_id \<Rightarrow> int \<Rightarrow> root_node" where
  "addBucketCount n xr d =
     n\<lparr>rn_buckets := (rn_buckets n)
         (bits_LeadingZeros (nodeid_Bits xr) \<mapsto> getBucketCount n xr + d)\<rparr>"

definition putBucketCount :: "root_node \<Rightarrow> node_id \<Rightarrow> root_node" where
  "putBucketCount n xr = addBucketCount n xr 1"

definition dropBucketCount :: "root_node \<Rightarrow> node_id \<Rightarrow> root_node" where
  "dropBucketCount n xr = addBucketCount n xr (- 1)"

definition btree_admit :: "root_node \<Rightarrow> node_id \<Rightarrow> bool option" where
  "btree_admit n xr =
     (if getBucketCount n xr \<ge> rn_k n then
        (if \<not> rn_splitting n then Some False
         else map_option (\<lambda>c. \<not> c \<ge> rn_k n)
                (countCloserThanSubpath (rn_node n) (nodeid_Bits xr)))
      else Some True)"

definition btree_Put :: "root_node \<Rightarrow> node_id \<Rightarrow> (root_node \<times> put_result) option" where
  "btree_Put n nid =
     (if nodeid_Equals nid (rn_origin n) then Some (n, PutRejected)
      else (case nodeid_MustXor nid (rn_origin n) of
         None \<Rightarrow> None
       | Some xr \<Rightarrow>
           (case inode_has (rn_node n) xr of
              None \<Rightarrow> None
            | Some True \<Rightarrow> Some (n, PutAlreadyExists)
            | Some False \<Rightarrow>
                (case btree_admit n xr of
                   None \<Rightarrow> None
                 | Some False \<Rightarrow> Some (n, PutRejected)
                 | Some True \<Rightarrow>
                     (case inode_put (rn_node n) xr of
                        None \<Rightarrow> None
                      | Some (newNode, result) \<Rightarrow>
                          (if result = PutAccepted
                           then Some (putBucketCount (n\<lparr>rn_node := newNode\<rparr>) xr, result)
                           else Some (n, result)))))))"

definition btree_Drop :: "root_node \<Rightarrow> node_id \<Rightarrow> (root_node \<times> bool) option" where
  "btree_Drop n nid =
     (case nodeid_MustXor nid (rn_origin n) of
        None \<Rightarrow> None
      | Some xr \<Rightarrow>
          (case inode_drop (rn_node n) xr of
             None \<Rightarrow> None
           | Some (newNode, ok) \<Rightarrow>
               (if ok then Some (dropBucketCount (n\<lparr>rn_node := newNode\<rparr>) xr, True)
                else Some (n, False))))"

definition btree_Count :: "root_node \<Rightarrow> int" where
  "btree_Count n = inode_count (rn_node n)"

fun must_xor_all :: "node_id \<Rightarrow> node_id list \<Rightarrow> node_id list option" where
  "must_xor_all origin [] = Some []"
| "must_xor_all origin (x # xs) =
     (case nodeid_MustXor x origin of
        None \<Rightarrow> None
      | Some i \<Rightarrow> map_option (\<lambda>is. i # is) (must_xor_all origin xs))"

definition btree_Closest :: "root_node \<Rightarrow> node_id \<Rightarrow> int \<Rightarrow> node_id list option" where
  "btree_Closest n nid count =
     (case nodeid_MustXor nid (rn_origin n) of
        None \<Rightarrow> None
      | Some xr \<Rightarrow>
          must_xor_all (rn_origin n) (xorsClosestToSubpath (rn_node n) (nodeid_Bits xr) count))"

section \<open>Bits and XOR\<close>

lemma nodeid_Bits_length [simp]: "length (nodeid_Bits x) = 8 * length x"
  by (simp add: nodeid_Bits_def)

lemma nodeid_GetBit_bit:
  "nodeid_GetBit x n = (if n < 8 * length x then Some (bit (x ! (n div 8)) (7 - n mod 8)) else None)"
  by (auto simp: nodeid_GetBit_def bit_iff_and_drop_bit_eq_1)

lemma nodeid_Bits_nth:
  "n < 8 * length x \<Longrightarrow> nodeid_Bits x ! n = bit (x ! (n div 8)) (7 - n mod 8)"
  by (simp add: nodeid_Bits_def nodeid_GetBit_bit)

lemma nodeid_GetBit_Bits:
  "nodeid_GetBit x n = (if n < 8 * length x then Some (nodeid_Bits x ! n) else None)"
  by (simp add: nodeid_GetBit_bit nodeid_Bits_nth)

lemma nodeid_Bits_inject:
  assumes "length x = length y" and "nodeid_Bits x = nodeid_Bits y"
  shows "x = y"
proof (rule nth_equalityI)
  fix i assume i: "i < length x"
  show "x ! i = y ! i"
  proof (rule bit_eqI)
    fix k assume "possible_bit TYPE(8 word) k"
    then have k: "k < 8" by simp
    let ?n = "8 * i + (7 - k)"
    have "7 - k < 8" by simp
    then have "(8 * i + (7 - k)) mod 8 = 7 - k" "(8 * i + (7 - k)) div 8 = i"
      by (simp_all only: mod_mult_self4 mod_less div_mult_self4 div_less)
    then have n: "?n < 8 * length x" "?n div 8 = i" "7 - ?n mod 8 = k" using i k by auto
    have "nodeid_Bits x ! ?n = nodeid_Bits y ! ?n" using assms by simp
    then show "bit (x ! i) k = bit (y ! i) k"
      using n assms(1) by (metis nodeid_Bits_nth)
  qed
qed (rule assms(1))

lemma nodeid_equals_from_iff:
  "i + length other = length nid \<Longrightarrow> nodeid_equals_from nid other i \<longleftrightarrow> other = drop i nid"
proof (induction nid other i rule: nodeid_equals_from.induct)
  case (2 nid b other i)
  then have "drop i nid = nid ! i # drop (Suc i) nid"
    by (metis Cons_nth_drop_Suc length_Cons less_add_same_cancel1 zero_less_Suc)
  with 2 show ?case by auto
qed auto

lemma nodeid_Equals_iff [simp]: "nodeid_Equals x y \<longleftrightarrow> x = y"
  by (auto simp: nodeid_Equals_def nodeid_equals_from_iff)

lemma nodeid_MustXor_eq:
  "nodeid_MustXor x y = (if length x = length y then Some (map2 (\<lambda>a b. a XOR b) x y) else None)"
  by (simp add: nodeid_MustXor_def nodeid_Xor_def)

lemma map2_xor_cancel:
  "length x = length y \<Longrightarrow> map2 (\<lambda>a b. a XOR b) (map2 (\<lambda>a b. a XOR b) x y) y = (x :: bytes)"
  by (induction x y rule: list_induct2) (auto simp: xor.assoc)

lemma map2_xor_inject:
  "length x = length o' \<Longrightarrow> length y = length o' \<Longrightarrow>
     map2 (\<lambda>a b. a XOR b) x o' = map2 (\<lambda>a b. a XOR b) y o' \<longleftrightarrow> x = (y :: bytes)"
  by (metis map2_xor_cancel)

section \<open>The shape invariant of the tree\<close>

text \<open>
  Every key below a node has the length \<open>n\<close> of the origin and starts with the node's path;
  the children of a branch continue its path with 0 and 1; the counters of a branch are the
  numbers of keys below each child.
\<close>

definition below :: "bool list \<Rightarrow> node_id \<Rightarrow> bool" where
  "below p x \<longleftrightarrow> take (length p) (nodeid_Bits x) = p"

fun node_ok :: "nat \<Rightarrow> inode \<Rightarrow> bool" where
  "node_ok n (EmptyNode b) = True"
| "node_ok n (LeafNode b x) =
     (length x = n \<and> below (bn_path b) x)"
| "node_ok n (BranchNode b l r cl cr) =
     (length (bn_path b) < 8 * n \<and>
      bn_path (inode_base l) = bn_path b @ [False] \<and>
      bn_path (inode_base r) = bn_path b @ [True] \<and>
      node_ok n l \<and> node_ok n r \<and>
      cl = int (length (allXors l)) \<and> cr = int (length (allXors r)))"

lemma below_snoc:
  "length p < 8 * length x \<Longrightarrow> below (p @ [c]) x \<longleftrightarrow> below p x \<and> nodeid_Bits x ! length p = c"
  by (auto simp: below_def take_Suc_conv_app_nth)

lemma below_GetBit:
  "length p < 8 * length x \<Longrightarrow> nodeid_GetBit x (length p) = Some (nodeid_Bits x ! length p)"
  by (simp add: nodeid_GetBit_Bits)

lemma below_length: "below p x \<Longrightarrow> length p \<le> 8 * length x"
  unfolding below_def by (metis length_take min.cobounded1 nodeid_Bits_length)

lemma below_full:
  assumes "below p x" "below p y" "length x = length y" "8 * length x \<le> length p"
  shows "x = y"
  using assms by (intro nodeid_Bits_inject) (simp_all add: below_def)

lemma node_ok_allXors:
  "node_ok n t \<Longrightarrow> x \<in> set (allXors t) \<Longrightarrow> length x = n \<and> below (bn_path (inode_base t)) x"
proof (induction t)
  case (BranchNode b l r cl cr)
  then show ?case by (auto simp: below_snoc)
qed auto

lemma node_ok_count: "node_ok n t \<Longrightarrow> inode_count t = int (length (allXors t))"
  by (cases t) auto

lemma node_ok_disjoint:
  assumes "node_ok n (BranchNode b l r cl cr)"
  shows "set (allXors l) \<inter> set (allXors r) = {}"
proof -
  have "\<not> nodeid_Bits x ! length (bn_path b)" if "x \<in> set (allXors l)" for x
    using node_ok_allXors [of n l x] that assms by (auto simp: below_snoc)
  moreover have "nodeid_Bits x ! length (bn_path b)" if "x \<in> set (allXors r)" for x
    using node_ok_allXors [of n r x] that assms by (auto simp: below_snoc)
  ultimately show ?thesis by blast
qed

lemma node_ok_distinct: "node_ok n t \<Longrightarrow> distinct (allXors t)"
proof (induction t)
  case (BranchNode b l r cl cr)
  then show ?case using node_ok_disjoint [OF BranchNode.prems] by simp
qed auto

text \<open>The child a key belongs to.\<close>

lemma branch_mem:
  assumes ok: "node_ok n (BranchNode b l r cl cr)" and x: "length x = n"
  shows "x \<in> set (allXors l) \<union> set (allXors r) \<longleftrightarrow>
           x \<in> set (allXors (if nodeid_Bits x ! length (bn_path b) then r else l))"
proof -
  have "\<not> nodeid_Bits x ! length (bn_path b)" if "x \<in> set (allXors l)"
    using node_ok_allXors [of n l x] that ok by (auto simp: below_snoc)
  moreover have "nodeid_Bits x ! length (bn_path b)" if "x \<in> set (allXors r)"
    using node_ok_allXors [of n r x] that ok by (auto simp: below_snoc)
  ultimately show ?thesis by auto
qed

lemma inode_has_mem:
  "node_ok n t \<Longrightarrow> length x = n \<Longrightarrow> inode_has t x = Some (x \<in> set (allXors t))"
proof (induction t)
  case (BranchNode b l r cl cr)
  then show ?case
    using branch_mem [OF BranchNode.prems] by (auto simp: nodeid_GetBit_Bits)
qed auto

section \<open>Insertion and removal\<close>

text \<open>
  The first put of \<open>leafNode.put\<close> as the code writes it: into the freshly made branch.
\<close>

declare inode_put.simps(2) [simp del]

lemma inode_put_init_branch:
  "inode_put (init_branch b) x =
     (case nodeid_GetBit x (length (bn_path b)) of
        None \<Rightarrow> None
      | Some xbit \<Rightarrow>
          (let leaf = LeafNode (child_base b xbit) x in
           Some (BranchNode b (if xbit then EmptyNode (child_base b False) else leaf)
                   (if xbit then leaf else EmptyNode (child_base b True))
                   (if xbit then 0 else 1) (if xbit then 1 else 0), PutAccepted)))"
  by (auto simp: init_branch_def branch_put_def branch_set_def Let_def split: option.splits)

lemma inode_put_leaf_as_written:
  "inode_put (LeafNode b x) y =
     (if nodeid_Equals x y then Some (LeafNode b x, PutAlreadyExists)
      else (case inode_put (init_branch b) x of
         None \<Rightarrow> None
       | Some (newNode, r) \<Rightarrow> (if r \<noteq> PutAccepted then None else inode_put newNode y)))"
  by (subst inode_put.simps(2)) (auto simp: inode_put_init_branch Let_def split: option.splits)

definition put_spec :: "nat \<Rightarrow> inode \<Rightarrow> node_id \<Rightarrow> (inode \<times> put_result) option \<Rightarrow> bool" where
  "put_spec n t x res \<longleftrightarrow>
     (\<exists>t'. res = Some (t', if x \<in> set (allXors t) then PutAlreadyExists else PutAccepted) \<and>
           node_ok n t' \<and> inode_base t' = inode_base t \<and>
           set (allXors t') = insert x (set (allXors t)) \<and>
           (x \<in> set (allXors t) \<longrightarrow> t' = t))"

lemma branch_put_spec:
  assumes ok: "node_ok n (BranchNode b l r cl cr)" and x: "length x = n"
    and bt: "bt = nodeid_Bits x ! length (bn_path b)"
    and child: "put_spec n (if bt then r else l) x res"
  shows "put_spec n (BranchNode b l r cl cr) x (branch_put b l r cl cr bt res)"
proof -
  have mem: "x \<in> set (allXors (BranchNode b l r cl cr)) \<longleftrightarrow>
               x \<in> set (allXors (if bt then r else l))"
    using branch_mem [OF ok x] bt by simp
  show ?thesis
    using child ok mem
    by (cases bt) (auto simp: put_spec_def branch_put_def branch_set_def node_ok_count)
qed

lemma put_spec_leaf:
  "put_spec n (BranchNode b l r cl cr) x res \<Longrightarrow>
     set (allXors (BranchNode b l r cl cr)) = {y} \<Longrightarrow> y \<noteq> x \<Longrightarrow> put_spec n (LeafNode b y) x res"
  by (auto simp: put_spec_def)

lemma inode_put_spec:
  "node_ok n t \<Longrightarrow> length x = n \<Longrightarrow> below (bn_path (inode_base t)) x \<Longrightarrow>
     put_spec n t x (inode_put t x)"
proof (induction t x rule: inode_put.induct)
  case (1 b x)
  then show ?case by (simp add: put_spec_def)
next
  case (2 b y x)
  show ?case
  proof (cases "y = x")
    case True
    with "2.prems" show ?thesis by (auto simp: put_spec_def inode_put.simps(2))
  next
    case False
    let ?d = "length (bn_path b)"
    have d: "?d < 8 * n"
      using False "2.prems" below_full [of "bn_path b" y x] by (force simp: not_less)
    let ?ybit = "nodeid_Bits y ! ?d" and ?xbit = "nodeid_Bits x ! ?d"
    have gy: "nodeid_GetBit y ?d = Some ?ybit" and gx: "nodeid_GetBit x ?d = Some ?xbit"
      using d "2.prems" by (simp_all add: below_GetBit)
    define leaf where "leaf = LeafNode (child_base b ?ybit) y"
    define l where "l = (if ?ybit then EmptyNode (child_base b False) else leaf)"
    define r where "r = (if ?ybit then leaf else EmptyNode (child_base b True))"
    define cl cr :: int where "cl = (if ?ybit then 0 else 1)" and "cr = (if ?ybit then 1 else 0)"
    have ok: "node_ok n (BranchNode b l r cl cr)"
      using "2.prems" d by (auto simp: l_def r_def cl_def cr_def leaf_def child_base_def
        appendToPath_def below_snoc)
    have xs: "set (allXors (BranchNode b l r cl cr)) = {y}"
      by (simp add: l_def r_def leaf_def)
    have child: "put_spec n (if ?xbit then r else l) x
        (if ?xbit = ?ybit then inode_put leaf x
         else Some (LeafNode (child_base b ?xbit) x, PutAccepted))"
    proof (cases "?xbit = ?ybit")
      case True
      have "put_spec n leaf x (inode_put leaf x)"
        unfolding leaf_def using True "2.prems" False d
        by (intro "2.IH" [OF _ gy refl refl refl refl refl gx]) (auto simp: leaf_def
          child_base_def appendToPath_def below_snoc)
      with True show ?thesis by (simp add: l_def r_def)
    next
      case neq: False
      then show ?thesis
        using "2.prems" d by (auto simp: put_spec_def l_def r_def child_base_def appendToPath_def
          below_snoc)
    qed
    have "inode_put (LeafNode b y) x = branch_put b l r cl cr ?xbit
        (if ?xbit = ?ybit then inode_put leaf x
         else Some (LeafNode (child_base b ?xbit) x, PutAccepted))"
      using False
      by (subst inode_put.simps(2)) (simp add: gx gy l_def r_def cl_def cr_def leaf_def Let_def)
    moreover have "put_spec n (BranchNode b l r cl cr) x \<dots>"
      by (rule branch_put_spec [OF ok _ refl child]) (use "2.prems" in simp)
    ultimately have "put_spec n (BranchNode b l r cl cr) x (inode_put (LeafNode b y) x)"
      by (simp only:)
    then show ?thesis using xs False by (rule put_spec_leaf) 
  qed
next
  case (3 b l r cl cr x)
  let ?d = "length (bn_path b)"
  let ?bt = "nodeid_Bits x ! ?d"
  have g: "nodeid_GetBit x ?d = Some ?bt" using "3.prems" by (simp add: below_GetBit)
  have "put_spec n (if ?bt then r else l) x (inode_put (if ?bt then r else l) x)"
    using "3.prems" by (intro "3.IH" [OF g]) (auto simp: below_snoc)
  from branch_put_spec [OF "3.prems"(1,2) refl this] show ?case by (simp add: g)
qed

definition drop_spec :: "nat \<Rightarrow> inode \<Rightarrow> node_id \<Rightarrow> (inode \<times> bool) option \<Rightarrow> bool" where
  "drop_spec n t x res \<longleftrightarrow>
     (\<exists>t'. res = Some (t', x \<in> set (allXors t)) \<and>
           node_ok n t' \<and> inode_base t' = inode_base t \<and>
           set (allXors t') = set (allXors t) - {x} \<and>
           (x \<notin> set (allXors t) \<longrightarrow> t' = t))"

lemma inode_drop_spec:
  "node_ok n t \<Longrightarrow> length x = n \<Longrightarrow> drop_spec n t x (inode_drop t x)"
proof (induction t)
  case (BranchNode b l r cl cr)
  let ?d = "length (bn_path b)"
  let ?bt = "nodeid_Bits x ! ?d"
  have g: "nodeid_GetBit x ?d = Some ?bt" using BranchNode.prems by (simp add: below_GetBit)
  have mem: "x \<in> set (allXors (BranchNode b l r cl cr)) \<longleftrightarrow>
               x \<in> set (allXors (if ?bt then r else l))"
    using branch_mem [OF BranchNode.prems] by simp
  have disj: "set (allXors l) \<inter> set (allXors r) = {}"
    by (rule node_ok_disjoint [OF BranchNode.prems(1)])
  have notin: "x \<notin> set (allXors (if ?bt then l else r))"
    using branch_mem [OF BranchNode.prems] disj by auto
  have "drop_spec n (if ?bt then r else l) x (inode_drop (if ?bt then r else l) x)"
    using BranchNode by auto
  then obtain c where c: "inode_drop (if ?bt then r else l) x =
        Some (c, x \<in> set (allXors (if ?bt then r else l)))"
    and cok: "node_ok n c" "inode_base c = inode_base (if ?bt then r else l)"
    and cset: "set (allXors c) = set (allXors (if ?bt then r else l)) - {x}"
    by (auto simp: drop_spec_def)
  have cc: "inode_count c = int (length (allXors c))" using cok by (simp add: node_ok_count)
  let ?other = "if ?bt then l else r"
  have oc: "(if ?bt then cl else cr) = int (length (allXors ?other))"
    using BranchNode.prems by auto
  show ?case
  proof (cases "x \<in> set (allXors (if ?bt then r else l))")
    case False
    with mem g c BranchNode.prems show ?thesis by (auto simp: drop_spec_def)
  next
    case True
    consider "inode_count c = 0" "allXors ?other = []"
      | y where "inode_count c = 0" "allXors ?other = [y]"
      | "\<not> (inode_count c = 0 \<and> length (allXors ?other) \<le> 1)"
      by (cases "allXors ?other"; cases "tl (allXors ?other)") auto
    then show ?thesis
    proof cases
      case 1
      then show ?thesis using True g c oc cc cset notin
        by (cases ?bt) (auto simp: drop_spec_def)
    next
      case 2
      have "node_ok n ?other" using BranchNode.prems by simp
      then have "length y = n" "below (bn_path (inode_base ?other)) y"
        using node_ok_allXors [of n ?other y] 2(2) by auto
      then have "length y = n \<and> below (bn_path b) y"
        using BranchNode.prems by (auto simp: below_snoc split: if_splits)
      then show ?thesis using True g c oc cc cset notin 2
        by (cases ?bt) (auto simp: drop_spec_def)
    next
      case 3
      then have "inode_drop (BranchNode b l r cl cr) x =
          Some (branch_set b l r cl cr ?bt c, True)"
        using True g c oc cc by (auto simp: Let_def)
      moreover have "node_ok n (branch_set b l r cl cr ?bt c)"
        using BranchNode.prems cok cc by (auto simp: branch_set_def)
      ultimately show ?thesis
        using True mem cset notin by (auto simp: drop_spec_def branch_set_def split: if_splits)
    qed
  qed
qed (auto simp: drop_spec_def)

section \<open>Distance: common prefixes and the XOR metric\<close>

fun common_prefix :: "bool list \<Rightarrow> bool list \<Rightarrow> nat" where
  "common_prefix (a # as) (b # bs) = (if a = b then Suc (common_prefix as bs) else 0)"
| "common_prefix as bs = 0"

lemma common_prefix_le: "common_prefix p q \<le> length p \<and> common_prefix p q \<le> length q"
  by (induction p q rule: common_prefix.induct) auto

lemma common_prefix_append [simp]:
  "common_prefix (p @ as) (p @ bs) = length p + common_prefix as bs"
  by (induction p) auto

definition bits_xor :: "bool list \<Rightarrow> bool list \<Rightarrow> bool list" where
  "bits_xor p q = map2 (\<lambda>a b. a \<noteq> b) p q"

lemma bits_xor_length [simp]: "length (bits_xor p q) = min (length p) (length q)"
  by (simp add: bits_xor_def)

lemma LeadingZeros_xor:
  "length p = length q \<Longrightarrow> bits_LeadingZeros (bits_xor p q) = common_prefix p q"
  by (induction p q rule: list_induct2) (auto simp: bits_xor_def)

lemma nodeid_Bits_xor:
  assumes "length x = length y"
  shows "nodeid_Bits (map2 (\<lambda>a b. a XOR b) x y) = bits_xor (nodeid_Bits x) (nodeid_Bits y)"
proof (rule nth_equalityI)
  fix i assume "i < length (nodeid_Bits (map2 (\<lambda>a b. a XOR b) x y))"
  then have i: "i < 8 * length x" "i < 8 * length y" "i div 8 < length x" using assms by auto
  then show "nodeid_Bits (map2 (\<lambda>a b. a XOR b) x y) ! i =
               bits_xor (nodeid_Bits x) (nodeid_Bits y) ! i"
    using assms by (simp add: nodeid_Bits_nth bit_xor_iff bits_xor_def)
qed (use assms in simp)

lemma xor_assoc_map2:
  "length x = length o' \<Longrightarrow> length i = length o' \<Longrightarrow>
     map2 (\<lambda>a b. a XOR b) (map2 (\<lambda>a b. a XOR b) x o') i =
     map2 (\<lambda>a b. a XOR b) x (map2 (\<lambda>a b. a XOR b) i (o' :: bytes))"
proof -
  assume "length x = length o'" "length i = length o'"
  then have "length x = length o'" "length o' = length i" by simp_all
  then show ?thesis
    by (induction x o' i rule: list_induct3) (auto simp: xor.assoc xor.left_commute xor.commute)
qed

lemma below_split: "below p x \<Longrightarrow> nodeid_Bits x = p @ drop (length p) (nodeid_Bits x)"
  unfolding below_def by (metis append_take_drop_id)

lemma below_common_ge: "below p x \<Longrightarrow> length p \<le> common_prefix (nodeid_Bits x) (p @ q)"
  by (subst below_split, assumption) simp

lemma below_common_eq:
  assumes "below (p @ [c]) x" "c \<noteq> d"
  shows "common_prefix (nodeid_Bits x) (p @ d # q) = length p"
  using below_split [OF assms(1)] assms(2) by (metis append_Cons append_Nil append_assoc
    common_prefix.simps(1) common_prefix_append add_0_right)

section \<open>Closest keys\<close>

lemma closest_basic:
  "node_ok n t \<Longrightarrow>
     set (xorsClosestToSubpath t path count) \<subseteq> set (allXors t) \<and>
     distinct (xorsClosestToSubpath t path count) \<and>
     int (length (xorsClosestToSubpath t path count)) =
       min (max count 0) (int (length (allXors t)))"
proof (induction t path count rule: xorsClosestToSubpath.induct)
  case (3 b l r cl cr path count)
  let ?p = "if path = [] then appendToPath path False else path"
  define t1 t2 where "t1 = (if hd ?p then r else l)" and "t2 = (if hd ?p then l else r)"
  define c1 where "c1 = xorsClosestToSubpath t1 (tl ?p) count"
  define c2 where "c2 = xorsClosestToSubpath t2 [] (count - int (length c1))"
  have ok: "node_ok n t1" "node_ok n t2" using "3.prems" by (auto simp: t1_def t2_def)
  have disj: "set (allXors t1) \<inter> set (allXors t2) = {}"
    using node_ok_disjoint [OF "3.prems"] by (auto simp: t1_def t2_def)
  have xs: "set (allXors (BranchNode b l r cl cr)) = set (allXors t1) \<union> set (allXors t2)"
    "length (allXors (BranchNode b l r cl cr)) = length (allXors t1) + length (allXors t2)"
    by (auto simp: t1_def t2_def)
  have eq: "xorsClosestToSubpath (BranchNode b l r cl cr) path count =
      (if int (length c1) < count then c1 @ c2 else c1)"
    by (simp add: Let_def c1_def c2_def t1_def t2_def)
  have IH1: "set c1 \<subseteq> set (allXors t1)" "distinct c1"
    "int (length c1) = min (max count 0) (int (length (allXors t1)))"
    using "3.IH"(1) [OF refl] ok by (simp_all add: c1_def t1_def)
  show ?case
  proof (cases "int (length c1) < count")
    case True
    have IH2: "set c2 \<subseteq> set (allXors t2)" "distinct c2"
      "int (length c2) = min (max (count - int (length c1)) 0) (int (length (allXors t2)))"
      using "3.IH"(2) [OF refl refl] ok True by (simp_all add: c2_def c1_def t1_def t2_def)
    have "set c1 \<inter> set c2 = {}" using IH1(1) IH2(1) disj by blast
    then show ?thesis unfolding eq xs using True IH1 IH2 by auto
  next
    case False
    then show ?thesis unfolding eq xs using IH1 by auto
  qed
qed auto

lemma closest_all:
  "node_ok n t \<Longrightarrow> int (length (xorsClosestToSubpath t path count)) < count \<Longrightarrow>
     set (xorsClosestToSubpath t path count) = set (allXors t)"
proof -
  assume ok: "node_ok n t" and less: "int (length (xorsClosestToSubpath t path count)) < count"
  have "card (set (xorsClosestToSubpath t path count)) = card (set (allXors t))"
    using closest_basic [OF ok, of path count] less node_ok_distinct [OF ok]
    by (simp add: distinct_card)
  then show ?thesis
    using closest_basic [OF ok, of path count] by (intro card_subset_eq) auto
qed

lemma closest_branch_Cons:
  "xorsClosestToSubpath (BranchNode b l r cl cr) (c # rest) count =
     (let c1 = xorsClosestToSubpath (if c then r else l) rest count in
      if int (length c1) < count
      then c1 @ xorsClosestToSubpath (if c then l else r) [] (count - int (length c1))
      else c1)"
  by (simp add: Let_def)

text \<open>Below a node, sharing more bits with the target comes first.\<close>

lemma closest_prefix_optimal:
  "node_ok n t \<Longrightarrow> a \<in> set (xorsClosestToSubpath t path count) \<Longrightarrow>
     y \<in> set (allXors t) \<Longrightarrow> y \<notin> set (xorsClosestToSubpath t path count) \<Longrightarrow>
     common_prefix (nodeid_Bits y) (bn_path (inode_base t) @ path)
       \<le> common_prefix (nodeid_Bits a) (bn_path (inode_base t) @ path)"
proof (induction t arbitrary: path count)
  case (BranchNode b l r cl cr)
  note ok = BranchNode.prems(1)
  have a: "a \<in> set (allXors (BranchNode b l r cl cr))"
    using closest_basic [OF ok, of path count] BranchNode.prems(2) by blast
  show ?case
  proof (cases path)
    case Nil
    have "common_prefix (nodeid_Bits z) (bn_path b) = length (bn_path b)"
      if "z \<in> set (allXors (BranchNode b l r cl cr))" for z
      using node_ok_allXors [OF ok that] below_common_ge [of "bn_path b" z "[]"]
        common_prefix_le [of "nodeid_Bits z" "bn_path b"] by simp
    then show ?thesis using Nil a BranchNode.prems(3) by simp
  next
    case (Cons c rest)
    let ?t1 = "if c then r else l" and ?t2 = "if c then l else r"
    let ?c1 = "xorsClosestToSubpath ?t1 rest count"
    have ok1: "node_ok n ?t1" and ok2: "node_ok n ?t2"
      and p1: "bn_path (inode_base ?t1) = bn_path b @ [c]"
      and p2: "bn_path (inode_base ?t2) = bn_path b @ [\<not> c]" using ok by auto
    have far: "common_prefix (nodeid_Bits z) (bn_path b @ path) = length (bn_path b)"
      if "z \<in> set (allXors ?t2)" for z
      using node_ok_allXors [OF ok2 that] p2 Cons by (auto intro: below_common_eq)
    have near: "length (bn_path b) < common_prefix (nodeid_Bits z) (bn_path b @ path)"
      if "z \<in> set (allXors ?t1)" for z
      using node_ok_allXors [OF ok1 that] p1 Cons below_common_ge [of "bn_path b @ [c]" z rest]
      by simp
    have y12: "y \<in> set (allXors ?t1) \<or> y \<in> set (allXors ?t2)"
      using BranchNode.prems(3) by (auto split: if_splits)
    show ?thesis
    proof (cases "a \<in> set ?c1")
      case True
      then have a1: "a \<in> set (allXors ?t1)" using closest_basic [OF ok1] by blast
      from y12 show ?thesis
      proof
        assume y1: "y \<in> set (allXors ?t1)"
        moreover have "y \<notin> set ?c1" using BranchNode.prems(4)
          unfolding Cons closest_branch_Cons by (auto simp: Let_def split: if_splits)
        ultimately have "common_prefix (nodeid_Bits y) (bn_path (inode_base ?t1) @ rest)
            \<le> common_prefix (nodeid_Bits a) (bn_path (inode_base ?t1) @ rest)"
          using True ok1 BranchNode.IH by (cases c) auto
        then show ?thesis using p1 Cons by simp
      qed (use a1 near [of a] far [of y] in simp)
    next
      case False
      then have short: "int (length ?c1) < count" and a2: "a \<in> set (allXors ?t2)"
        using BranchNode.prems(2) closest_basic [OF ok2]
        unfolding Cons closest_branch_Cons by (auto simp: Let_def split: if_splits)
      have "y \<notin> set (allXors ?t1)"
        using closest_all [OF ok1 short] BranchNode.prems(4) short
        unfolding Cons closest_branch_Cons by (auto simp: Let_def)
      then show ?thesis using y12 far a2 by simp
    qed
  qed
qed (auto split: if_splits)

section \<open>Counting the keys closer to the origin\<close>

text \<open>
  \<open>bits_less\<close> is the order of the XOR distances as unsigned numbers, most significant bit
  first: \<open>y\<close> is closer to the origin than \<open>x\<close> when the bits of \<open>y\<close>'s XOR are less.
\<close>

fun bits_less :: "bool list \<Rightarrow> bool list \<Rightarrow> bool" where
  "bits_less (a # as) (b # bs) = (if a = b then bits_less as bs else \<not> a \<and> b)"
| "bits_less as bs = False"

lemma bits_less_append [simp]: "bits_less (p @ as) (p @ bs) = bits_less as bs"
  by (induction p) auto

definition closer_count :: "bool list \<Rightarrow> node_id list \<Rightarrow> int" where
  "closer_count target ys = int (length (filter (\<lambda>y. bits_less (nodeid_Bits y) target) ys))"

lemma closer_count_append [simp]:
  "closer_count T (xs @ ys) = closer_count T xs + closer_count T ys"
  by (simp add: closer_count_def)

lemma closer_count_bounds: "0 \<le> closer_count T ys \<and> closer_count T ys \<le> int (length ys)"
  by (simp add: closer_count_def)

lemma below_less:
  assumes "below (p @ [c]) y" "c \<noteq> d"
  shows "bits_less (nodeid_Bits y) (p @ d # q) \<longleftrightarrow> d"
  using assms(2) below_split [OF assms(1)]
  by (metis append.assoc append_Cons append_Nil bits_less.simps(1) bits_less_append)

lemma closer_count_all:
  assumes "\<And>y. y \<in> set ys \<Longrightarrow> below (p @ [c]) y" "c \<noteq> d"
  shows "closer_count (p @ d # q) ys = (if d then int (length ys) else 0)"
proof -
  have "filter (\<lambda>y. bits_less (nodeid_Bits y) (p @ d # q)) ys = (if d then ys else [])"
    using below_less [OF assms(1) assms(2)] by (auto intro!: filter_True filter_False)
  then show ?thesis by (simp add: closer_count_def)
qed

text \<open>
  What \<open>leafNode.countCloserThanSubpath\<close> computes: 1 when every 1 of the remaining path is
  a 1 of the leaf's key, and 0 otherwise.
\<close>

lemma leaf_closer_eq:
  "depth + i + length path \<le> 8 * length x \<Longrightarrow>
     leaf_closer x depth i path =
       Some (if \<forall>j < length path. path ! j \<longrightarrow> nodeid_Bits x ! (depth + i + j) then 1 else 0)"
proof (induction path arbitrary: i)
  case (Cons c path)
  have "(\<forall>j < length (c # path). (c # path) ! j \<longrightarrow> nodeid_Bits x ! (depth + i + j)) \<longleftrightarrow>
        (c \<longrightarrow> nodeid_Bits x ! (depth + i)) \<and>
        (\<forall>j < length path. path ! j \<longrightarrow> nodeid_Bits x ! (depth + Suc i + j))"
    by (auto simp: All_less_Suc2)
  then show ?case
    using Cons by (simp add: nodeid_GetBit_Bits add.commute)
qed simp

lemma full_depth_single:
  assumes "node_ok n t" "length (bn_path (inode_base t)) = 8 * n"
  shows "length (allXors t) \<le> 1"
proof (rule ccontr)
  assume "\<not> ?thesis"
  then obtain x y zs where xs: "allXors t = x # y # zs"
    by (cases "allXors t"; cases "tl (allXors t)") auto
  then have "x = y"
    using node_ok_allXors [OF assms(1), of x] node_ok_allXors [OF assms(1), of y] assms(2)
    by (intro below_full [of "bn_path (inode_base t)"]) auto
  with xs node_ok_distinct [OF assms(1)] show False by simp
qed

lemma countCloser_near:
  "node_ok n t \<Longrightarrow> length (bn_path (inode_base t)) + length path = 8 * n \<Longrightarrow>
     \<exists>c. countCloserThanSubpath t path = Some c \<and> 0 \<le> c \<and>
         \<bar>c - closer_count (bn_path (inode_base t) @ path) (allXors t)\<bar> \<le> 1"
proof (induction t path rule: countCloserThanSubpath.induct)
  case (1 b path)
  then show ?case by (simp add: closer_count_def)
next
  case (2 b x path)
  then show ?case using closer_count_bounds [of "bn_path b @ path" "[x]"]
    by (auto simp: leaf_closer_eq)
next
  case (3 b l r cl cr path)
  let ?p = "bn_path b"
  have okl: "node_ok n l" and okr: "node_ok n r" and cl: "cl = int (length (allXors l))"
    and cr: "cr = int (length (allXors r))"
    and pl: "bn_path (inode_base l) = ?p @ [False]" and pr: "bn_path (inode_base r) = ?p @ [True]"
    and d: "length ?p < 8 * n"
    using "3.prems" by auto
  have bl: "\<And>y. y \<in> set (allXors l) \<Longrightarrow> below (?p @ [False]) y"
    and br: "\<And>y. y \<in> set (allXors r) \<Longrightarrow> below (?p @ [True]) y"
    using node_ok_allXors [OF okl] node_ok_allXors [OF okr] pl pr by auto
  have L: "closer_count (?p @ True # q) (allXors l) = cl" for q
    using closer_count_all [OF bl, where d = True and q = q] cl by simp
  have R: "closer_count (?p @ False # q) (allXors r) = 0" for q
    using closer_count_all [OF br, where d = False and q = q] by simp
  from "3.prems" d obtain c rest where path: "path = c # rest" by (cases path) auto
  show ?case
  proof (cases rest)
    case Nil
    have "length (allXors l) \<le> 1" "length (allXors r) \<le> 1"
      using full_depth_single [OF okl] full_depth_single [OF okr] pl pr "3.prems" path Nil by auto
    then show ?thesis
      using path Nil L [of "[]"] R [of "[]"] cl cr closer_count_bounds [of "?p @ [c]" "allXors l"]
        closer_count_bounds [of "?p @ [c]" "allXors r"]
      by (cases c) auto
  next
    case (Cons d rest')
    show ?thesis
    proof (cases c)
      case True
      then obtain k where "countCloserThanSubpath r rest = Some k" "0 \<le> k"
        "\<bar>k - closer_count (?p @ True # rest) (allXors r)\<bar> \<le> 1"
        using "3.IH"(2) [of c rest d rest'] path Cons okr pr "3.prems" by auto
      then show ?thesis using path Cons True L [of rest] cl by auto
    next
      case False
      then obtain k where "countCloserThanSubpath l rest = Some k" "0 \<le> k"
        "\<bar>k - closer_count (?p @ False # rest) (allXors l)\<bar> \<le> 1"
        using "3.IH"(1) [of c rest d rest'] path Cons okl pl "3.prems" by auto
      then show ?thesis using path Cons False R [of rest] by auto
    qed
  qed
qed

section \<open>The root as a set of identifiers\<close>

definition root_ids :: "root_node \<Rightarrow> node_id set" where
  "root_ids n = (\<lambda>x. map2 (\<lambda>a b. a XOR b) x (rn_origin n)) ` set (allXors (rn_node n))"

definition bucket_of :: "node_id \<Rightarrow> nat" where
  "bucket_of x = bits_LeadingZeros (nodeid_Bits x)"

definition root_ok :: "root_node \<Rightarrow> bool" where
  "root_ok n \<longleftrightarrow>
     node_ok (length (rn_origin n)) (rn_node n) \<and> bn_path (inode_base (rn_node n)) = [] \<and>
     rn_origin n \<notin> root_ids n \<and>
     (\<forall>i. (case rn_buckets n i of None \<Rightarrow> 0 | Some c \<Rightarrow> c) =
            int (card {x \<in> set (allXors (rn_node n)). bucket_of x = i}))"

lemma root_ok_New [intro, simp]: "root_ok (btree_New origin k s)"
  by (simp add: root_ok_def btree_New_def root_ids_def)

lemma btree_New_sel [simp]:
  "rn_origin (btree_New origin k s) = origin" "rn_k (btree_New origin k s) = k"
  "rn_splitting (btree_New origin k s) = s"
  by (simp_all add: btree_New_def)

lemma root_ids_New [simp]: "root_ids (btree_New origin k s) = {}"
  by (simp add: root_ids_def btree_New_def)

lemma root_ok_len: "root_ok n \<Longrightarrow> x \<in> set (allXors (rn_node n)) \<Longrightarrow> length x = length (rn_origin n)"
  unfolding root_ok_def using node_ok_allXors by blast

lemma root_ids_mem:
  assumes "root_ok n" "length i = length (rn_origin n)"
  shows "i \<in> root_ids n \<longleftrightarrow> map2 (\<lambda>a b. a XOR b) i (rn_origin n) \<in> set (allXors (rn_node n))"
    (is "?L \<longleftrightarrow> ?x \<in> _")
proof
  assume ?L
  then obtain x where "x \<in> set (allXors (rn_node n))" "i = map2 (\<lambda>a b. a XOR b) x (rn_origin n)"
    by (auto simp: root_ids_def)
  then show "?x \<in> set (allXors (rn_node n))"
    using root_ok_len [OF assms(1)] by (simp add: map2_xor_cancel)
next
  assume "?x \<in> set (allXors (rn_node n))"
  then show ?L using assms(2)
    by (auto simp: root_ids_def map2_xor_cancel intro!: image_eqI [of _ _ ?x])
qed

lemma btree_Has_mem:
  "root_ok n \<Longrightarrow> length i = length (rn_origin n) \<Longrightarrow> btree_Has n i = Some (i \<in> root_ids n)"
  by (simp add: btree_Has_def nodeid_MustXor_eq root_ids_mem)
     (rule inode_has_mem, auto simp: root_ok_def)

lemma admit_Some:
  assumes "root_ok n" "length x = length (rn_origin n)"
  shows "\<exists>a. btree_admit n x = Some a"
  using assms countCloser_near [of "length (rn_origin n)" "rn_node n" "nodeid_Bits x"]
  by (auto simp: btree_admit_def root_ok_def)

lemma getBucketCount_card:
  "root_ok n \<Longrightarrow>
     getBucketCount n x = int (card {y \<in> set (allXors (rn_node n)). bucket_of y = bucket_of x})"
  by (simp add: getBucketCount_def root_ok_def bucket_of_def)

lemma bucket_card_insert:
  "x \<notin> A \<Longrightarrow> finite A \<Longrightarrow>
     int (card {y \<in> insert x A. bucket_of y = i}) =
       int (card {y \<in> A. bucket_of y = i}) + (if bucket_of x = i then 1 else 0)"
proof -
  assume "x \<notin> A" "finite A"
  moreover have "{y \<in> insert x A. bucket_of y = i} =
      (if bucket_of x = i then insert x {y \<in> A. bucket_of y = i} else {y \<in> A. bucket_of y = i})"
    by auto
  ultimately show ?thesis by simp
qed

lemma bucket_card_remove:
  assumes "x \<in> A" "finite A"
  shows "int (card {y \<in> A - {x}. bucket_of y = i}) =
       int (card {y \<in> A. bucket_of y = i}) - (if bucket_of x = i then 1 else 0)"
proof -
  have "A = insert x (A - {x})" using assms by blast
  then show ?thesis
    using bucket_card_insert [of x "A - {x}" i] assms by simp
qed

lemma bucket_after:
  "(case rn_buckets (addBucketCount n x d) i of None \<Rightarrow> 0 | Some c \<Rightarrow> c) =
     (case rn_buckets n i of None \<Rightarrow> 0 | Some c \<Rightarrow> c) + (if bucket_of x = i then d else 0)"
  by (auto simp: addBucketCount_def getBucketCount_def bucket_of_def)

lemma addBucketCount_sel [simp]:
  "rn_origin (addBucketCount n x d) = rn_origin n" "rn_node (addBucketCount n x d) = rn_node n"
  "rn_k (addBucketCount n x d) = rn_k n" "rn_splitting (addBucketCount n x d) = rn_splitting n"
  by (simp_all add: addBucketCount_def)

abbreviation same_config :: "root_node \<Rightarrow> root_node \<Rightarrow> bool" where
  "same_config n n' \<equiv>
     rn_origin n' = rn_origin n \<and> rn_k n' = rn_k n \<and> rn_splitting n' = rn_splitting n"

text \<open>Every branch of \<open>rootNode.Put\<close>, with the state it leaves.\<close>

lemma btree_Put_cases:
  assumes ok: "root_ok n" and len: "length i = length (rn_origin n)"
  obtains
    (origin) "i = rn_origin n" "btree_Put n i = Some (n, PutRejected)"
  | (present) "i \<noteq> rn_origin n" "i \<in> root_ids n" "btree_Put n i = Some (n, PutAlreadyExists)"
  | (refused) "i \<noteq> rn_origin n" "i \<notin> root_ids n" "btree_Put n i = Some (n, PutRejected)"
      "btree_admit n (map2 (\<lambda>a b. a XOR b) i (rn_origin n)) = Some False"
  | (accepted) n' where "i \<noteq> rn_origin n" "i \<notin> root_ids n"
      "btree_Put n i = Some (n', PutAccepted)" "root_ok n'" "same_config n n'"
      "root_ids n' = insert i (root_ids n)"
      "btree_admit n (map2 (\<lambda>a b. a XOR b) i (rn_origin n)) = Some True"
      "set (allXors (rn_node n')) =
         insert (map2 (\<lambda>a b. a XOR b) i (rn_origin n)) (set (allXors (rn_node n)))"
proof -
  let ?x = "map2 (\<lambda>a b. a XOR b) i (rn_origin n)"
  have nok: "node_ok (length (rn_origin n)) (rn_node n)"
    and path: "bn_path (inode_base (rn_node n)) = []" using ok by (auto simp: root_ok_def)
  have lx: "length ?x = length (rn_origin n)" using len by simp
  have mx: "nodeid_MustXor i (rn_origin n) = Some ?x" using len by (simp add: nodeid_MustXor_eq)
  have has: "inode_has (rn_node n) ?x = Some (i \<in> root_ids n)"
    using inode_has_mem [OF nok lx] root_ids_mem [OF ok len] by simp
  obtain a where a: "btree_admit n ?x = Some a" using admit_Some [OF ok lx] by blast
  show thesis
  proof (cases "i = rn_origin n \<or> i \<in> root_ids n \<or> \<not> a")
    case True
    then show thesis
      using mx has a ok origin present refused by (force simp: btree_Put_def root_ok_def)
  next
    case False
    then have xn: "?x \<notin> set (allXors (rn_node n))" using root_ids_mem [OF ok len] by simp
    have "put_spec (length (rn_origin n)) (rn_node n) ?x (inode_put (rn_node n) ?x)"
      by (rule inode_put_spec [OF nok lx]) (simp add: path below_def)
    then obtain t where t: "inode_put (rn_node n) ?x = Some (t, PutAccepted)"
      "node_ok (length (rn_origin n)) t" "inode_base t = inode_base (rn_node n)"
      "set (allXors t) = insert ?x (set (allXors (rn_node n)))"
      using xn by (auto simp: put_spec_def)
    let ?n' = "putBucketCount (n\<lparr>rn_node := t\<rparr>) ?x"
    have ids: "root_ids ?n' = insert i (root_ids n)"
      using t(4) len by (simp add: root_ids_def putBucketCount_def map2_xor_cancel)
    have "root_ok ?n'"
      using ok t False ids path xn bucket_card_insert [OF xn]
      by (auto simp: root_ok_def putBucketCount_def bucket_after)
    then show thesis
      using accepted [of ?n'] False mx has a t ids
      by (simp add: btree_Put_def putBucketCount_def)
  qed
qed

lemma btree_Put_new:
  assumes "root_ok n" "length i = length (rn_origin n)" "i \<noteq> rn_origin n" "i \<notin> root_ids n"
    and "btree_Put n i = Some (n', r)"
  shows "(r = PutRejected \<and> n' = n \<and>
            btree_admit n (map2 (\<lambda>a b. a XOR b) i (rn_origin n)) = Some False) \<or>
         (r = PutAccepted \<and> root_ids n' = insert i (root_ids n) \<and> rn_origin n' = rn_origin n \<and>
            btree_admit n (map2 (\<lambda>a b. a XOR b) i (rn_origin n)) = Some True)"
  by (rule btree_Put_cases [OF assms(1,2)]) (use assms(3-5) in simp_all)

lemma root_xor_inj:
  "root_ok n \<Longrightarrow> inj_on (\<lambda>x. map2 (\<lambda>a b. a XOR b) x (rn_origin n)) (set (allXors (rn_node n)))"
  using root_ok_len by (auto simp: inj_on_def map2_xor_inject)

lemma btree_Drop_eq:
  assumes ok: "root_ok n" and len: "length i = length (rn_origin n)"
  obtains n' where "btree_Drop n i = Some (n', i \<in> root_ids n)" "root_ok n'" "same_config n n'"
    "root_ids n' = root_ids n - {i}" "i \<notin> root_ids n \<longrightarrow> n' = n"
proof -
  let ?x = "map2 (\<lambda>a b. a XOR b) i (rn_origin n)"
  have nok: "node_ok (length (rn_origin n)) (rn_node n)"
    and path: "bn_path (inode_base (rn_node n)) = []" using ok by (auto simp: root_ok_def)
  have lx: "length ?x = length (rn_origin n)" using len by simp
  have mx: "nodeid_MustXor i (rn_origin n) = Some ?x" using len by (simp add: nodeid_MustXor_eq)
  have "drop_spec (length (rn_origin n)) (rn_node n) ?x (inode_drop (rn_node n) ?x)"
    by (rule inode_drop_spec [OF nok lx])
  then obtain t where t: "inode_drop (rn_node n) ?x = Some (t, i \<in> root_ids n)"
      "node_ok (length (rn_origin n)) t" "inode_base t = inode_base (rn_node n)"
      "set (allXors t) = set (allXors (rn_node n)) - {?x}"
    using root_ids_mem [OF ok len] by (auto simp: drop_spec_def)
  show thesis
  proof (cases "i \<in> root_ids n")
    case False
    then show thesis using that [of n] mx t ok by (simp add: btree_Drop_def)
  next
    case True
    then have xin: "?x \<in> set (allXors (rn_node n))" using root_ids_mem [OF ok len] by simp
    let ?n' = "dropBucketCount (n\<lparr>rn_node := t\<rparr>) ?x"
    note inj = root_xor_inj [OF ok]
    have ids: "root_ids ?n' = root_ids n - {i}"
      using inj_on_image_set_diff [OF inj, of "set (allXors (rn_node n))" "{?x}"] xin len t(4)
      by (simp add: root_ids_def dropBucketCount_def map2_xor_cancel)
    have "root_ok ?n'"
      using ok t ids path bucket_card_remove [OF xin]
      by (auto simp: root_ok_def dropBucketCount_def bucket_after)
    then show thesis
      using that [of ?n'] True mx t ids by (simp add: btree_Drop_def dropBucketCount_def)
  qed
qed

lemma must_xor_all_eq:
  "(\<forall>x \<in> set xs. length x = length origin) \<Longrightarrow>
     must_xor_all origin xs = Some (map (\<lambda>x. map2 (\<lambda>a b. a XOR b) x origin) xs)"
  by (induction xs) (auto simp: nodeid_MustXor_eq)

section \<open>The interface the keyspaces rely on\<close>

text \<open>
  The Go interface \<open>btree.Btree\<close> as its client (\<open>ktable.keyspace\<close>) uses it: a set of
  identifiers of the origin's length, with \<open>Put\<close>, \<open>Drop\<close> and \<open>Closest\<close>.
\<close>

locale node_set =
  fixes nok :: "'t \<Rightarrow> bool"
    and nids :: "'t \<Rightarrow> node_id set"
    and norigin :: "'t \<Rightarrow> node_id"
    and nput :: "'t \<Rightarrow> node_id \<Rightarrow> ('t \<times> put_result) option"
    and ndrop :: "'t \<Rightarrow> node_id \<Rightarrow> ('t \<times> bool) option"
    and nclosest :: "'t \<Rightarrow> node_id \<Rightarrow> int \<Rightarrow> node_id list option"
  assumes nids_finite: "finite (nids t)"
    and nids_length: "nok t \<Longrightarrow> i \<in> nids t \<Longrightarrow> length i = length (norigin t)"
    and put_law: "nok t \<Longrightarrow> length i = length (norigin t) \<Longrightarrow>
      \<exists>t' r. nput t i = Some (t', r) \<and> nok t' \<and> norigin t' = norigin t \<and>
        (case r of
           PutAccepted \<Rightarrow> i \<notin> nids t \<and> nids t' = insert i (nids t)
         | PutAlreadyExists \<Rightarrow> i \<in> nids t \<and> t' = t
         | PutRejected \<Rightarrow> i \<notin> nids t \<and> t' = t)"
    and drop_law: "nok t \<Longrightarrow> length i = length (norigin t) \<Longrightarrow>
      \<exists>t'. ndrop t i = Some (t', i \<in> nids t) \<and> nok t' \<and> norigin t' = norigin t \<and>
           nids t' = nids t - {i}"
    and closest_law: "nok t \<Longrightarrow> length i = length (norigin t) \<Longrightarrow>
      \<exists>xs. nclosest t i c = Some xs \<and> set xs \<subseteq> nids t \<and> distinct xs \<and>
           int (length xs) = min (max c 0) (int (card (nids t)))"
begin

lemma put_never_panics:
  "nok t \<Longrightarrow> length i = length (norigin t) \<Longrightarrow> nput t i \<noteq> None"
  using put_law by fastforce

lemma put_ids:
  "nok t \<Longrightarrow> length i = length (norigin t) \<Longrightarrow> nput t i = Some (t', r) \<Longrightarrow>
     nok t' \<and> norigin t' = norigin t \<and>
     nids t' = (if r = PutAccepted then insert i (nids t) else nids t) \<and>
     (r = PutAlreadyExists \<longleftrightarrow> i \<in> nids t)"
  using put_law [of t i] by (auto split: put_result.splits)

lemma drop_ids:
  "nok t \<Longrightarrow> length i = length (norigin t) \<Longrightarrow> ndrop t i = Some (t', b) \<Longrightarrow>
     nok t' \<and> norigin t' = norigin t \<and> nids t' = nids t - {i} \<and> (b \<longleftrightarrow> i \<in> nids t)"
  using drop_law [of t i] by auto

lemma closest_covers:
  assumes "nok t" "length i = length (norigin t)" "nclosest t i c = Some xs"
    "int (card (nids t)) \<le> c"
  shows "set xs = nids t"
proof -
  have "set xs \<subseteq> nids t" "card (set xs) = card (nids t)"
    using closest_law [OF assms(1,2), of c] assms(3,4) by (auto simp: distinct_card)
  then show ?thesis using nids_finite by (intro card_subset_eq) auto
qed

end

lemma root_ids_finite [simp]: "finite (root_ids n)"
  by (simp add: root_ids_def)

lemma root_ids_length: "root_ok n \<Longrightarrow> i \<in> root_ids n \<Longrightarrow> length i = length (rn_origin n)"
  using root_ok_len by (fastforce simp: root_ids_def)

lemma root_distinct: "root_ok n \<Longrightarrow> distinct (allXors (rn_node n))"
  using node_ok_distinct by (auto simp: root_ok_def)

lemma card_root_ids: "root_ok n \<Longrightarrow> card (root_ids n) = length (allXors (rn_node n))"
  using root_xor_inj root_distinct by (simp add: root_ids_def card_image distinct_card)

lemma btree_Closest_eq:
  assumes ok: "root_ok n" and len: "length i = length (rn_origin n)"
  shows "btree_Closest n i c =
    Some (map (\<lambda>x. map2 (\<lambda>a b. a XOR b) x (rn_origin n))
      (xorsClosestToSubpath (rn_node n) (nodeid_Bits (map2 (\<lambda>a b. a XOR b) i (rn_origin n))) c))"
proof -
  have "\<forall>x \<in> set (xorsClosestToSubpath (rn_node n) p c). length x = length (rn_origin n)" for p
    using closest_basic root_ok_len [OF ok] ok unfolding root_ok_def by blast
  then show ?thesis
    using len by (simp add: btree_Closest_def nodeid_MustXor_eq must_xor_all_eq)
qed

lemma btree_Closest_set:
  assumes ok: "root_ok n" and len: "length i = length (rn_origin n)"
  obtains xs where "btree_Closest n i c = Some xs" "set xs \<subseteq> root_ids n" "distinct xs"
    "int (length xs) = min (max c 0) (int (card (root_ids n)))"
proof -
  let ?p = "nodeid_Bits (map2 (\<lambda>a b. a XOR b) i (rn_origin n))"
  let ?xs = "xorsClosestToSubpath (rn_node n) ?p c"
  have b: "set ?xs \<subseteq> set (allXors (rn_node n))" "distinct ?xs"
    "int (length ?xs) = min (max c 0) (int (length (allXors (rn_node n))))"
    using closest_basic ok unfolding root_ok_def by blast+
  then have "inj_on (\<lambda>x. map2 (\<lambda>a b. a XOR b) x (rn_origin n)) (set ?xs)"
    using root_xor_inj [OF ok] by (auto intro: inj_on_subset)
  then show thesis
    using that [OF btree_Closest_eq [OF ok len]] b card_root_ids [OF ok]
    by (simp add: distinct_map root_ids_def image_mono)
qed

interpretation bt: node_set root_ok root_ids rn_origin btree_Put btree_Drop btree_Closest
proof unfold_locales
  fix t :: root_node and i and c :: int
  show "finite (root_ids t)" by simp
  assume ok: "root_ok t"
  show "i \<in> root_ids t \<Longrightarrow> length i = length (rn_origin t)" by (rule root_ids_length [OF ok])
  assume len: "length i = length (rn_origin t)"
  show "\<exists>t' r. btree_Put t i = Some (t', r) \<and> root_ok t' \<and> rn_origin t' = rn_origin t \<and>
        (case r of
           PutAccepted \<Rightarrow> i \<notin> root_ids t \<and> root_ids t' = insert i (root_ids t)
         | PutAlreadyExists \<Rightarrow> i \<in> root_ids t \<and> t' = t
         | PutRejected \<Rightarrow> i \<notin> root_ids t \<and> t' = t)"
    by (rule btree_Put_cases [OF ok len]) (use ok in \<open>auto simp: root_ok_def\<close>)
  show "\<exists>t'. btree_Drop t i = Some (t', i \<in> root_ids t) \<and> root_ok t' \<and>
          rn_origin t' = rn_origin t \<and> root_ids t' = root_ids t - {i}"
    by (rule btree_Drop_eq [OF ok len]) auto
  show "\<exists>xs. btree_Closest t i c = Some xs \<and> set xs \<subseteq> root_ids t \<and> distinct xs \<and>
           int (length xs) = min (max c 0) (int (card (root_ids t)))"
    by (rule btree_Closest_set [OF ok len, of c]) auto
qed

section \<open>Runs of the tree\<close>

inductive reachable_root :: "node_id \<Rightarrow> int \<Rightarrow> bool \<Rightarrow> root_node \<Rightarrow> bool"
  for origin k s where
  new: "reachable_root origin k s (btree_New origin k s)"
| put: "reachable_root origin k s n \<Longrightarrow> btree_Put n i = Some (n', r) \<Longrightarrow>
    reachable_root origin k s n'"
| remove: "reachable_root origin k s n \<Longrightarrow> btree_Drop n i = Some (n', b) \<Longrightarrow>
    reachable_root origin k s n'"

lemma btree_Put_len: "btree_Put n i = Some (n', r) \<Longrightarrow> length i = length (rn_origin n)"
  by (auto simp: btree_Put_def nodeid_MustXor_eq split: if_splits)

lemma btree_Drop_len: "btree_Drop n i = Some (n', b) \<Longrightarrow> length i = length (rn_origin n)"
  by (auto simp: btree_Drop_def nodeid_MustXor_eq split: if_splits)

lemma reachable_root_ok:
  "reachable_root origin k s n \<Longrightarrow>
     root_ok n \<and> rn_origin n = origin \<and> rn_k n = k \<and> rn_splitting n = s"
proof (induction rule: reachable_root.induct)
  case new
  then show ?case by simp
next
  case (put n i n' r)
  then have "root_ok n" "length i = length (rn_origin n)" using btree_Put_len by auto
  then show ?case using put by (cases rule: btree_Put_cases) auto
next
  case (remove n i n' b)
  then have "root_ok n" "length i = length (rn_origin n)" using btree_Drop_len by auto
  from btree_Drop_eq [OF this] show ?case using remove by (metis Pair_inject option.inject)
qed

definition bucket_ids :: "root_node \<Rightarrow> nat \<Rightarrow> node_id set" where
  "bucket_ids n i =
     {j \<in> root_ids n. bucket_of (map2 (\<lambda>a b. a XOR b) j (rn_origin n)) = i}"

lemma bucket_ids_image:
  assumes "root_ok n"
  shows "bucket_ids n i = (\<lambda>x. map2 (\<lambda>a b. a XOR b) x (rn_origin n)) `
           {x \<in> set (allXors (rn_node n)). bucket_of x = i}"
  using root_ok_len [OF assms] by (auto simp: bucket_ids_def root_ids_def map2_xor_cancel)

lemma card_bucket_ids:
  assumes "root_ok n"
  shows "card (bucket_ids n i) = card {x \<in> set (allXors (rn_node n)). bucket_of x = i}"
  unfolding bucket_ids_image [OF assms]
  by (rule card_image) (use root_xor_inj [OF assms] in \<open>auto simp: inj_on_def\<close>)

lemma bucket_ids_finite [simp]: "finite (bucket_ids n i)"
  by (simp add: bucket_ids_def)

definition closer_ids :: "root_node \<Rightarrow> node_id \<Rightarrow> node_id set" where
  "closer_ids n i = {j \<in> root_ids n.
     bits_less (nodeid_Bits (map2 (\<lambda>a b. a XOR b) j (rn_origin n)))
               (nodeid_Bits (map2 (\<lambda>a b. a XOR b) i (rn_origin n)))}"

lemma card_closer_ids:
  assumes "root_ok n"
  shows "int (card (closer_ids n i)) =
           closer_count (nodeid_Bits (map2 (\<lambda>a b. a XOR b) i (rn_origin n))) (allXors (rn_node n))"
proof -
  let ?f = "\<lambda>x. map2 (\<lambda>a b. a XOR b) x (rn_origin n)"
  let ?P = "\<lambda>y. bits_less (nodeid_Bits y) (nodeid_Bits (?f i))"
  have "closer_ids n i = ?f ` set (filter ?P (allXors (rn_node n)))"
    using root_ok_len [OF assms] by (auto simp: closer_ids_def root_ids_def map2_xor_cancel)
  moreover have "inj_on ?f (set (filter ?P (allXors (rn_node n))))"
    using root_xor_inj [OF assms] by (auto simp: inj_on_def)
  ultimately have "card (closer_ids n i) = card (set (filter ?P (allXors (rn_node n))))"
    by (simp add: card_image)
  also have "\<dots> = length (filter ?P (allXors (rn_node n)))"
    using root_distinct [OF assms] by (intro distinct_card) simp
  finally show ?thesis by (simp add: closer_count_def)
qed

section \<open>Properties\<close>

lemma btree_Closest_nearest:
  assumes "root_ok n" "length i = length (rn_origin n)"
  shows "\<exists>xs. btree_Closest n i c = Some xs \<and> distinct xs \<and> set xs \<subseteq> root_ids n \<and>
    int (length xs) = min (max c 0) (int (card (root_ids n))) \<and>
    (\<forall>a \<in> set xs. \<forall>b \<in> root_ids n - set xs.
       bucket_of (map2 (\<lambda>a b. a XOR b) b i) \<le> bucket_of (map2 (\<lambda>a b. a XOR b) a i))"
proof -
  let ?f = "\<lambda>x. map2 (\<lambda>a b. a XOR b) x (rn_origin n)"
  let ?T = "nodeid_Bits (?f i)"
  let ?xs = "xorsClosestToSubpath (rn_node n) ?T c"
  have sub: "set ?xs \<subseteq> set (allXors (rn_node n))"
    using closest_basic assms(1) unfolding root_ok_def by blast
  have dist: "bucket_of (map2 (\<lambda>a b. a XOR b) (?f x) i) = common_prefix (nodeid_Bits x) ?T"
    if "x \<in> set (allXors (rn_node n))" for x
    using root_ok_len [OF assms(1) that] assms(2)
    by (simp add: bucket_of_def xor_assoc_map2 nodeid_Bits_xor [of x] LeadingZeros_xor)
  obtain xs where xs: "btree_Closest n i c = Some xs" "set xs \<subseteq> root_ids n" "distinct xs"
    "int (length xs) = min (max c 0) (int (card (root_ids n)))"
    by (rule btree_Closest_set [OF assms])
  then have eq: "xs = map ?f ?xs" using btree_Closest_eq [OF assms] by simp
  have "bucket_of (map2 (\<lambda>a b. a XOR b) b i) \<le> bucket_of (map2 (\<lambda>a b. a XOR b) a i)"
    if a: "a \<in> set xs" and b: "b \<in> root_ids n - set xs" for a b
  proof -
    from a obtain x where x: "a = ?f x" "x \<in> set ?xs" by (auto simp: eq)
    from b obtain y where y: "b = ?f y" "y \<in> set (allXors (rn_node n))" "y \<notin> set ?xs"
      by (auto simp: eq root_ids_def)
    have "common_prefix (nodeid_Bits y) ?T \<le> common_prefix (nodeid_Bits x) ?T"
      using closest_prefix_optimal [OF _ x(2) y(2,3)] assms(1) by (auto simp: root_ok_def)
    then show ?thesis using x y sub dist by auto
  qed
  with xs show ?thesis by blast
qed

text \<open>C1. \<open>Put\<close> never panics on an identifier of the origin's length, keeps the tree's
invariant, and is set insertion: it accepts only new identifiers, answers "already exists"
exactly for stored ones, changes nothing otherwise, and never stores the origin.\<close>

theorem btree_Put_refines_insert:
  assumes "root_ok n" "length i = length (rn_origin n)"
  shows "\<exists>n' r. btree_Put n i = Some (n', r) \<and> root_ok n' \<and>
    root_ids n' = (if r = PutAccepted then insert i (root_ids n) else root_ids n) \<and>
    (r = PutAlreadyExists \<longleftrightarrow> i \<in> root_ids n) \<and> (r \<noteq> PutAccepted \<longrightarrow> n' = n) \<and>
    (i = rn_origin n \<longrightarrow> r = PutRejected)"
proof (rule btree_Put_cases [OF assms], goal_cases)
  case 1
  then show ?case using assms by (simp add: root_ok_def)
next
  case (4 n')
  then show ?case by simp
qed (use assms in simp_all)

theorem btree_Put_refines_insert_witness:
  "map_option (\<lambda>(n, r). (root_ids n, r)) (btree_Put (btree_New [0] 4 True) [5]) =
     Some ({[5]}, PutAccepted)"
proof -
  have h: "root_ok (btree_New [0] 4 True)" "length [5::byte] = length (rn_origin (btree_New [0] 4 True))"
    by simp_all
  have "map_option snd (btree_Put (btree_New [0] 4 True) [5]) = Some PutAccepted" by code_simp
  then show ?thesis using btree_Put_refines_insert [OF h] by auto
qed

text \<open>C2. \<open>Drop\<close> never panics on an identifier of the origin's length, keeps the tree's
invariant, reports whether the identifier was stored, and removes exactly that identifier.\<close>

theorem btree_Drop_refines_delete:
  assumes "root_ok n" "length i = length (rn_origin n)"
  shows "\<exists>n'. btree_Drop n i = Some (n', i \<in> root_ids n) \<and> root_ok n' \<and>
    root_ids n' = root_ids n - {i} \<and> btree_Count n' = int (card (root_ids n - {i}))"
proof -
  obtain n' where "btree_Drop n i = Some (n', i \<in> root_ids n)" "root_ok n'"
    "root_ids n' = root_ids n - {i}"
    by (rule btree_Drop_eq [OF assms])
  moreover from this have "btree_Count n' = int (card (root_ids n'))"
    using card_root_ids [of n'] node_ok_count [of _ "rn_node n'"]
    by (auto simp: btree_Count_def root_ok_def)
  ultimately show ?thesis by simp
qed

text \<open>A run of insertions, and the three-node tree it gives: 4 and 5 share seven bits with
each other, 200 is on the other side of the first branch.\<close>

fun btree_put_all :: "root_node \<Rightarrow> node_id list \<Rightarrow> root_node option" where
  "btree_put_all n [] = Some n"
| "btree_put_all n (i # is) =
     (case btree_Put n i of None \<Rightarrow> None | Some (n', _) \<Rightarrow> btree_put_all n' is)"

lemma btree_put_all_reachable:
  "reachable_root origin k s n \<Longrightarrow> btree_put_all n is = Some n' \<Longrightarrow> reachable_root origin k s n'"
  by (induction "is" arbitrary: n)
     (auto split: option.splits intro: reachable_root.put)

lemma btree_put_all_total:
  "reachable_root origin k s n \<Longrightarrow> \<forall>i \<in> set is. length i = length origin \<Longrightarrow>
     \<exists>n'. btree_put_all n is = Some n'"
proof (induction "is" arbitrary: n)
  case (Cons i "is")
  then have ok: "root_ok n" "length i = length (rn_origin n)" using reachable_root_ok by force+
  then obtain n' r where "btree_Put n i = Some (n', r)" using bt.put_law by blast
  with Cons show ?case by (auto intro: reachable_root.put)
qed simp

definition sample_tree :: root_node where
  "sample_tree = the (btree_put_all (btree_New [0] 4 True) [[5], [4], [200]])"

lemma sample_tree_reachable: "reachable_root [0] 4 True sample_tree"
proof -
  obtain n where "btree_put_all (btree_New [0] 4 True) [[5], [4], [200]] = Some n"
    using btree_put_all_total [OF reachable_root.new, of "[[5], [4], [200]]" "[0]"] by auto
  then show ?thesis
    using btree_put_all_reachable [OF reachable_root.new] unfolding sample_tree_def by fastforce
qed

lemma sample_tree_ok: "root_ok sample_tree" "rn_origin sample_tree = [0]" "rn_k sample_tree = 4"
  using reachable_root_ok [OF sample_tree_reachable] by auto

lemma sample_tree_xors: "allXors (rn_node sample_tree) = [[4], [5], [200]]"
  unfolding sample_tree_def by code_simp

lemma sample_tree_ids: "root_ids sample_tree = {[4], [5], [200]}"
  by (simp add: root_ids_def sample_tree_xors sample_tree_ok)

theorem btree_Drop_refines_delete_witness:
  "map_option (\<lambda>(n, b). (root_ids n, b, btree_Count n)) (btree_Drop sample_tree [4]) =
     Some ({[5], [200]}, True, 2)"
proof -
  have "length [4::byte] = length (rn_origin sample_tree)" by (simp add: sample_tree_ok)
  from btree_Drop_refines_delete [OF sample_tree_ok(1) this]
  show ?thesis by (auto simp: sample_tree_ids insert_Diff_if)
qed

text \<open>C3. \<open>Closest\<close> never panics; it returns \<open>min count size\<close> different stored
identifiers; and no stored identifier it leaves out shares a longer prefix with the target
(fewer leading zeros of the XOR distance) than one it returns.\<close>

theorem btree_Closest_by_prefix:
  assumes "root_ok n" "length i = length (rn_origin n)"
  shows "\<exists>xs. btree_Closest n i c = Some xs \<and> distinct xs \<and> set xs \<subseteq> root_ids n \<and>
    int (length xs) = min (max c 0) (int (card (root_ids n))) \<and>
    (\<forall>a \<in> set xs. \<forall>b \<in> root_ids n - set xs.
       bucket_of (map2 (\<lambda>a b. a XOR b) b i) \<le> bucket_of (map2 (\<lambda>a b. a XOR b) a i))"
  by (rule btree_Closest_nearest [OF assms])

theorem btree_Closest_by_prefix_witness:
  "btree_Closest sample_tree [7] 2 = Some [[4], [5]]"
proof -
  have "length [7::byte] = length (rn_origin sample_tree)" by (simp add: sample_tree_ok)
  from btree_Closest_by_prefix [OF sample_tree_ok(1) this, of 2]
  have "btree_Closest sample_tree [7] 2 \<noteq> None" by auto
  moreover have "btree_Closest sample_tree [7] 2 \<in> {None, Some [[4], [5]]}"
    unfolding sample_tree_def by code_simp
  ultimately show ?thesis by auto
qed

text \<open>When \<open>Put\<close> turns a new identifier away, its bucket already holds \<open>k\<close>
identifiers and, with splitting, at least \<open>k - 1\<close> stored identifiers are closer to the
origin; when \<open>Put\<close> lets one into a full bucket, splitting is on and at most \<open>k\<close>
stored identifiers are closer.\<close>

theorem btree_Put_admission:
  assumes "root_ok n" "length i = length (rn_origin n)" "i \<noteq> rn_origin n" "i \<notin> root_ids n"
    and "btree_Put n i = Some (n', r)"
  defines "bucket \<equiv> bucket_ids n (bucket_of (map2 (\<lambda>a b. a XOR b) i (rn_origin n)))"
  shows "(r = PutRejected \<longrightarrow> rn_k n \<le> int (card bucket) \<and>
            (rn_splitting n \<longrightarrow> rn_k n \<le> int (card (closer_ids n i)) + 1)) \<and>
         (r = PutAccepted \<longrightarrow> rn_k n \<le> int (card bucket) \<longrightarrow>
            rn_splitting n \<and> int (card (closer_ids n i)) \<le> rn_k n)"
proof -
  let ?x = "map2 (\<lambda>a b. a XOR b) i (rn_origin n)"
  have adm: "btree_admit n ?x = Some (r = PutAccepted)" "r = PutRejected \<or> r = PutAccepted"
    using btree_Put_new [OF assms(1-5)] by auto
  have cnt: "getBucketCount n ?x = int (card bucket)"
    using getBucketCount_card [OF assms(1)] card_bucket_ids [OF assms(1)] by (simp add: bucket_def)
  obtain c where c: "countCloserThanSubpath (rn_node n) (nodeid_Bits ?x) = Some c"
    "\<bar>c - int (card (closer_ids n i))\<bar> \<le> 1"
    using countCloser_near [of "length (rn_origin n)" "rn_node n" "nodeid_Bits ?x"] assms(1,2)
    by (auto simp: root_ok_def card_closer_ids [OF assms(1)])
  show ?thesis using adm c cnt by (auto simp: btree_admit_def split: if_splits)
qed

theorem btree_Put_admission_witness:
  "map_option snd (btree_Put (btree_New [0] 0 False) [5]) = Some PutRejected \<and>
   rn_k (btree_New [0] 0 False) \<le> int (card (bucket_ids (btree_New [0] 0 False) 5))"
proof -
  have h: "root_ok (btree_New [0] 0 False)" "length [5::byte] = length (rn_origin (btree_New [0] 0 False))"
    "[5] \<noteq> rn_origin (btree_New [0] 0 False)" "[5] \<notin> root_ids (btree_New [0] 0 False)"
    by simp_all
  have e: "map_option snd (btree_Put (btree_New [0] 0 False) [5]) = Some PutRejected" by code_simp
  then obtain n' where p: "btree_Put (btree_New [0] 0 False) [5] = Some (n', PutRejected)" by auto
  have "bucket_of (map2 (\<lambda>a b. a XOR b) [5::byte] [0]) = 5" unfolding bucket_of_def by code_simp
  with e btree_Put_admission [OF h p] show ?thesis by simp
qed

text \<open>C4. Without splitting, no bucket ever holds more than \<open>k\<close> identifiers.\<close>

theorem reachable_bucket_bound:
  assumes "reachable_root origin k False n" "0 \<le> k"
  shows "int (card (bucket_ids n b)) \<le> k"
  using assms(1)
proof (induction rule: reachable_root.induct)
  case new
  then show ?case using assms(2) by (simp add: bucket_ids_def)
next
  case (put n i n' r)
  then have ok: "root_ok n" "length i = length (rn_origin n)" and kn: "rn_k n = k" "\<not> rn_splitting n"
    using btree_Put_len reachable_root_ok by auto
  let ?bi = "bucket_of (map2 (\<lambda>a b. a XOR b) i (rn_origin n))"
  show ?case
  proof (rule btree_Put_cases [OF ok], goal_cases)
    case (4 m)
    then have m: "n' = m" using put by simp
    have b: "bucket_ids m b = (if ?bi = b then insert i (bucket_ids n b) else bucket_ids n b)"
      using 4 by (auto simp: bucket_ids_def)
    have lt: "int (card (bucket_ids n ?bi)) < k"
      using 4(7) kn getBucketCount_card [OF ok(1)] card_bucket_ids [OF ok(1)]
      by (simp add: btree_admit_def split: if_splits)
    show ?thesis
    proof (cases "?bi = b")
      case True
      have "card (insert i (bucket_ids n b)) \<le> Suc (card (bucket_ids n b))"
        by (simp add: card_insert_if)
      with True b lt m show ?thesis by simp
    next
      case False
      with b m put.IH show ?thesis by simp
    qed
  qed (use put in simp_all)
next
  case (remove n i n' r)
  then have ok: "root_ok n" "length i = length (rn_origin n)"
    using btree_Drop_len reachable_root_ok by auto
  show ?case
  proof (rule btree_Drop_eq [OF ok], goal_cases)
    case (1 m)
    then have "n' = m" using remove by simp
    with 1 have "bucket_ids n' b \<subseteq> bucket_ids n b" by (auto simp: bucket_ids_def)
    then have "card (bucket_ids n' b) \<le> card (bucket_ids n b)"
      by (rule card_mono [OF bucket_ids_finite])
    with remove.IH show ?case by simp
  qed
qed

theorem reachable_bucket_bound_witness:
  "int (card (bucket_ids (btree_New [0] 2 False) 7)) \<le> 2"
  by (rule reachable_bucket_bound [OF reachable_root.new]) simp

text \<open>With one stored node and a full bucket of size 1, \<open>Put\<close> decides the wrong way
round: it refuses 128, which is closer to the origin 0 than the stored 192, and accepts 192,
which is further than the stored 128. \<open>leafNode.countCloserThanSubpath\<close> counts the leaf
when the path's ones are all ones of the leaf's key, which holds for keys that are further
away.\<close>

theorem btree_Put_prefers_further_node:
  "(let n = the (btree_put_all (btree_New [0] 1 True) [[192]]) in
     closer_ids n [128] = {} \<and> map_option snd (btree_Put n [128]) = Some PutRejected) \<and>
   (let n = the (btree_put_all (btree_New [0] 1 True) [[128]]) in
     closer_ids n [192] = {[128]} \<and> map_option snd (btree_Put n [192]) = Some PutAccepted)"
proof -
  let ?n = "the (btree_put_all (btree_New [0] 1 True) [[192]])"
  let ?m = "the (btree_put_all (btree_New [0] 1 True) [[128]])"
  have x: "allXors (rn_node ?n) = [[192]]" "allXors (rn_node ?m) = [[128]]"
    "rn_origin ?n = [0]" "rn_origin ?m = [0]"
    "map_option snd (btree_Put ?n [128]) = Some PutRejected"
    "map_option snd (btree_Put ?m [192]) = Some PutAccepted"
    "bits_less (nodeid_Bits [192]) (nodeid_Bits [128]) = False"
    "bits_less (nodeid_Bits [128]) (nodeid_Bits [192]) = True"
    by (code_simp)+
  then show ?thesis by (auto simp: closer_ids_def root_ids_def Let_def)
qed

text \<open>\<open>Bits.Cmp\<close> on two equal bit strings returns 0 when they end in a one and panics
(slice bounds out of range) when they end in a zero or are empty.\<close>

theorem bits_Cmp_refl:
  "bits_Cmp b b = (if b \<noteq> [] \<and> last b then Some 0 else None)"
proof (induction b rule: length_induct)
  case (1 b)
  have lz: "bits_LeadingZeros b \<le> length b" for b by (induction b) auto
  let ?k = "bits_LeadingZeros b + 1"
  show ?case
  proof (cases "?k < length b")
    case True
    then have "bits_Cmp (drop ?k b) (drop ?k b) = (if last (drop ?k b) then Some 0 else None)"
      using 1 by simp
    with True show ?thesis by (subst bits_Cmp.simps) (auto simp: Let_def last_drop)
  next
    case False
    have "bits_LeadingZeros b = length b \<longleftrightarrow> \<not> (\<exists>x \<in> set b. x)" for b
      by (induction b) auto
    moreover have "Suc (bits_LeadingZeros b) = length b \<Longrightarrow> last b" for b
      by (induction b) (auto split: if_splits)
    ultimately show ?thesis using False lz [of b] last_in_set [of b]
      by (subst bits_Cmp.simps) (fastforce simp: Let_def)
  qed
qed

end
