(* ===== verification/ProtocolId.thy ===== *)
theory ProtocolId
  imports Btree
begin

text \<open>
  The 160-bit identifiers of the DHT (\<open>internal/protocol/int160.go\<close>,
  \<open>internal/protocol/id.go\<close>): Go's \<open>[20]uint8\<close> is a byte list of length 20
  (\<open>wf_id\<close>); the XOR distance, the comparison, bit access, and the hexadecimal, binary and
  bencode forms. Indices are natural numbers; an index of 160 or more panics (\<open>None\<close>).
  \<open>crypto/rand\<close> is the list of bytes it returned.
\<close>

section \<open>int160.go\<close>

type_synonym ID = bytes

definition wf_id :: "ID \<Rightarrow> bool" where
  "wf_id i \<longleftrightarrow> length i = 20"

definition zero_id :: ID where
  "zero_id = replicate 20 0"

definition int160_String :: "ID \<Rightarrow> string" where
  "int160_String i = hex_encode i"

definition int160_ByteString :: "ID \<Rightarrow> string" where
  "int160_ByteString i = string_of_bytes i"

text \<open>\<open>big.Int.SetBytes\<close> reads big-endian; \<open>BitLen\<close> is the length of the binary numeral.\<close>

fun be_nat :: "bytes \<Rightarrow> nat" where
  "be_nat [] = 0"
| "be_nat (b # bs) = unat b * 256 ^ length bs + be_nat bs"

fun nat_bit_len :: "nat \<Rightarrow> nat" where
  "nat_bit_len n = (if n = 0 then 0 else Suc (nat_bit_len (n div 2)))"

declare nat_bit_len.simps [simp del]

definition int160_BitLen :: "ID \<Rightarrow> nat" where
  "int160_BitLen i = nat_bit_len (be_nat i)"

definition int160_WithBit :: "ID \<Rightarrow> nat \<Rightarrow> bool \<Rightarrow> ID option" where
  "int160_WithBit i index v =
     (let orVal = (if v then push_bit (7 - index mod 8) 1 else 0);
          mask = NOT (push_bit (7 - index mod 8) 1) in
      if index div 8 < length i
      then Some (i[index div 8 := ((i ! (index div 8)) AND mask) OR orVal]) else None)"

definition int160_GetBit :: "ID \<Rightarrow> nat \<Rightarrow> bool option" where
  "int160_GetBit i index =
     (if index div 8 < length i
      then Some (drop_bit (7 - index mod 8) (i ! (index div 8)) AND 1 = 1) else None)"

fun int160_Cmp :: "ID \<Rightarrow> ID \<Rightarrow> int" where
  "int160_Cmp (a # l) (b # r) = (if a < b then - 1 else if a > b then 1 else int160_Cmp l r)"
| "int160_Cmp l r = 0"

definition int160_WithMax :: "ID \<Rightarrow> ID" where
  "int160_WithMax i = map (\<lambda>_. 255) i"

definition int160_Xor :: "ID \<Rightarrow> ID \<Rightarrow> ID" where
  "int160_Xor b1 b2 = map2 (\<lambda>a b. a XOR b) b1 b2"

fun int160_IsZero :: "ID \<Rightarrow> bool" where
  "int160_IsZero [] = True"
| "int160_IsZero (b # bs) = (if b \<noteq> 0 then False else int160_IsZero bs)"

definition int160_Distance :: "ID \<Rightarrow> ID \<Rightarrow> ID" where
  "int160_Distance i b = int160_Xor i b"

section \<open>id.go\<close>

definition idClientPart :: string where
  "idClientPart = ''-BM0001-''"

definition RandomNodeIDWithClientSuffix :: "bytes \<Rightarrow> ID" where
  "RandomNodeIDWithClientSuffix rnd = take 12 rnd @ bytes_of_string idClientPart"

definition RandomPeerID :: "bytes \<Rightarrow> ID" where
  "RandomPeerID rnd = bytes_of_string idClientPart @ drop 8 rnd"

definition hex_value :: "char \<Rightarrow> nat option" where
  "hex_value c =
     (let n = (of_char c :: nat) in
      if 48 \<le> n \<and> n \<le> 57 then Some (n - 48)
      else if 97 \<le> n \<and> n \<le> 102 then Some (n - 87)
      else if 65 \<le> n \<and> n \<le> 70 then Some (n - 55)
      else None)"

datatype id_error = HexError | HashStringLength | SliceLength | InvalidIDLength | InvalidBytesType
  | WrongStringLength nat

fun hex_decode :: "string \<Rightarrow> id_error + bytes" where
  "hex_decode [] = Inr []"
| "hex_decode [c] = Inl HexError"
| "hex_decode (c # d # s) =
     (case (hex_value c, hex_value d) of
        (Some a, Some b) \<Rightarrow>
          (case hex_decode s of
             Inl e \<Rightarrow> Inl e
           | Inr bs \<Rightarrow> Inr (word_of_nat (16 * a + b) # bs))
      | _ \<Rightarrow> Inl HexError)"

definition trim_prefix :: "string \<Rightarrow> string \<Rightarrow> string" where
  "trim_prefix s p = (if take (length p) s = p then drop (length p) s else s)"

definition ParseID :: "string \<Rightarrow> id_error + ID" where
  "ParseID str =
     (case hex_decode (trim_prefix str ''0x'') of
        Inl e \<Rightarrow> Inl e
      | Inr b \<Rightarrow> if length b \<noteq> 20 then Inl HashStringLength else Inr b)"

text \<open>Go's \<open>copy(id[:], b)\<close> into a fresh 20-byte array, and the number of bytes copied.\<close>

definition copy20 :: "bytes \<Rightarrow> ID \<times> nat" where
  "copy20 b = (take 20 b @ replicate (20 - length b) 0, min 20 (length b))"

definition NewIDFromByteSlice :: "bytes \<Rightarrow> id_error + ID" where
  "NewIDFromByteSlice b = (let (i, n) = copy20 b in if n \<noteq> 20 then Inl SliceLength else Inr i)"

definition MustNewIDFromByteSlice :: "bytes \<Rightarrow> ID option" where
  "MustNewIDFromByteSlice b = (case NewIDFromByteSlice b of Inl _ \<Rightarrow> None | Inr i \<Rightarrow> Some i)"

definition id_String :: "ID \<Rightarrow> string" where
  "id_String i = hex_encode i"

definition id_IsZero :: "ID \<Rightarrow> bool" where
  "id_IsZero i \<longleftrightarrow> i = zero_id"

definition id_GetBit :: "ID \<Rightarrow> nat \<Rightarrow> bool option" where
  "id_GetBit i n =
     (if n div 8 < length i
      then Some (drop_bit (7 - n mod 8) (i ! (n div 8)) AND 1 = 1) else None)"

text \<open>\<open>Scan\<close> overwrites a prefix of the receiver and accepts any length.\<close>

definition id_Scan :: "ID \<Rightarrow> bytes option \<Rightarrow> id_error + ID" where
  "id_Scan i value =
     (case value of
        None \<Rightarrow> Inl InvalidBytesType
      | Some v \<Rightarrow> Inr (take 20 v @ drop (length (take 20 v)) i))"

definition id_MarshalBinary :: "ID \<Rightarrow> bytes" where
  "id_MarshalBinary i = i"

definition id_UnmarshalBinary :: "ID \<Rightarrow> bytes \<Rightarrow> id_error + ID" where
  "id_UnmarshalBinary i data = (if length data \<noteq> 20 then Inl InvalidIDLength else Inr data)"

definition id_MarshalBencode :: "ID \<Rightarrow> bytes" where
  "id_MarshalBencode i = bytes_of_string ''20:'' @ i"

text \<open>\<open>UnmarshalBencode\<close> after \<open>bencode.Unmarshal\<close> (a parameter) gave the string \<open>s\<close>.\<close>

definition id_UnmarshalBencode :: "(bytes \<Rightarrow> id_error + bytes) \<Rightarrow> bytes \<Rightarrow> id_error + ID" where
  "id_UnmarshalBencode unmarshal b =
     (case unmarshal b of
        Inl e \<Rightarrow> Inl e
      | Inr s \<Rightarrow> (let (i, n) = copy20 s in if n \<noteq> 20 then Inl (WrongStringLength n) else Inr i))"

definition id_MarshalGQL :: "ID \<Rightarrow> string" where
  "id_MarshalGQL i = CHR 0x22 # id_String i @ [CHR 0x22]"

definition id_UnmarshalGQL :: "string option \<Rightarrow> id_error + ID" where
  "id_UnmarshalGQL input = (case input of None \<Rightarrow> Inl InvalidBytesType | Some s \<Rightarrow> ParseID s)"

section \<open>Hexadecimal round trip\<close>

lemma hex_value_digit: "n < 16 \<Longrightarrow> hex_value (hex_digit n) = Some n"
proof -
  have "\<forall>n \<in> set [0..<16]. hex_value (hex_digit n) = Some n" by code_simp
  then show "n < 16 \<Longrightarrow> hex_value (hex_digit n) = Some n" by simp
qed

lemma hex_encode_Cons:
  "hex_encode (b # bs) = hex_digit (unat b div 16) # hex_digit (unat b mod 16) # hex_encode bs"
  by (simp add: hex_encode_def)

lemma hex_decode_encode: "hex_decode (hex_encode bs) = Inr bs"
proof (induction bs)
  case (Cons b bs)
  have "unat b div 16 < 16" using unat_byte_less [of b] by linarith
  then show ?case using Cons by (simp add: hex_encode_Cons hex_value_digit)
qed (simp add: hex_encode_def)

lemma hex_encode_no_prefix: "trim_prefix (hex_encode bs) ''0x'' = hex_encode bs"
proof (cases bs)
  case (Cons b bs')
  have "\<forall>n \<in> set [0..<16]. hex_digit n \<noteq> CHR ''x''" by code_simp
  then have "hex_digit (unat b mod 16) \<noteq> CHR ''x''" by simp
  with Cons show ?thesis by (simp add: trim_prefix_def hex_encode_Cons)
qed (simp add: trim_prefix_def hex_encode_def)

lemma hex_encode_inject: "hex_encode a = hex_encode b \<longleftrightarrow> a = b"
  using hex_decode_encode by (metis sum.inject(2))

lemma id_String_inject [simp]: "id_String a = id_String b \<longleftrightarrow> a = b"
  by (simp add: id_String_def int160_String_def hex_encode_inject)

lemma hex_decode_length: "hex_decode s = Inr b \<Longrightarrow> length s = 2 * length b"
  by (induction s arbitrary: b rule: hex_decode.induct)
     (auto split: option.splits sum.splits)

lemma ParseID_wf: "ParseID s = Inr i \<Longrightarrow> wf_id i"
  by (auto simp: ParseID_def wf_id_def split: sum.splits if_splits)

section \<open>The XOR metric and the order\<close>

lemma int160_Xor_length [simp]: "length (int160_Xor a b) = min (length a) (length b)"
  by (simp add: int160_Xor_def)

lemma be_nat_less: "be_nat bs < 256 ^ length bs"
proof (induction bs)
  case (Cons b bs)
  have "unat b * 256 ^ length bs \<le> 255 * 256 ^ length bs"
    using unat_byte_less [of b] by (intro mult_le_mono1) linarith
  then show ?case using Cons by (simp only: be_nat.simps length_Cons power_Suc)
qed simp

lemma be_nat_inject: "length a = length b \<Longrightarrow> be_nat a = be_nat b \<Longrightarrow> a = b"
proof (induction a b rule: list_induct2)
  case (Cons x xs y ys)
  let ?m = "256 ^ length xs :: nat"
  have "(unat x * ?m + be_nat xs) div ?m = (unat y * ?m + be_nat ys) div ?m"
    and "(unat x * ?m + be_nat xs) mod ?m = (unat y * ?m + be_nat ys) mod ?m"
    using Cons by simp_all
  then show ?case using Cons be_nat_less [of xs] be_nat_less [of ys] by (simp add: word_unat_eq_iff)
qed simp

lemma be_nat_less_head:
  assumes "u < v" "length us = length vs"
  shows "be_nat (u # us) < be_nat (v # vs)"
proof -
  have "Suc (unat u) * 256 ^ length vs \<le> unat v * 256 ^ length vs"
    using assms(1) by (intro mult_le_mono1) (simp add: word_less_nat_alt)
  moreover have "be_nat us < 256 ^ length vs" using be_nat_less [of us] assms(2) by simp
  ultimately show ?thesis by (simp only: be_nat.simps mult_Suc assms(2))
qed

lemma int160_Cmp_sgn: "length a = length b \<Longrightarrow> int160_Cmp a b = sgn (int (be_nat a) - int (be_nat b))"
proof (induction a b rule: list_induct2)
  case (Cons x xs y ys)
  consider "x < y" | "y < x" | "x = y" by (rule linorder_cases)
  then show ?case
  proof cases
    case 1
    have "sgn (int (be_nat (x # xs)) - int (be_nat (y # ys))) = - 1"
      using be_nat_less_head [OF 1 Cons.hyps] by (simp add: sgn_if del: be_nat.simps)
    then show ?thesis using 1 by (simp del: be_nat.simps)
  next
    case 2
    have "sgn (int (be_nat (x # xs)) - int (be_nat (y # ys))) = 1"
      using be_nat_less_head [OF 2 Cons.hyps [symmetric]] by (simp add: sgn_if del: be_nat.simps)
    moreover have "\<not> x < y" using 2 by simp
    ultimately show ?thesis using 2 by (simp del: be_nat.simps)
  next
    case 3
    then have "int160_Cmp (x # xs) (y # ys) = int160_Cmp xs ys" by simp
    moreover have "int (be_nat (x # xs)) - int (be_nat (y # ys)) = int (be_nat xs) - int (be_nat ys)"
      using 3 Cons.hyps by simp
    ultimately show ?thesis using Cons.IH by simp
  qed
qed simp

lemma nat_xor_le_add: "(a XOR b :: nat) \<le> a + b"
proof (induction a arbitrary: b rule: less_induct)
  case (less a)
  show ?case
  proof (cases "a = 0")
    case False
    then have "(a div 2) XOR (b div 2) \<le> a div 2 + b div 2" using less [of "a div 2"] by simp
    moreover have "a XOR b = of_bool (odd a \<noteq> odd b) + 2 * ((a div 2) XOR (b div 2))"
      by (rule xor_rec)
    moreover have "a = a mod 2 + 2 * (a div 2)" "b = b mod 2 + 2 * (b div 2)" by simp_all
    moreover have "of_bool (odd a \<noteq> odd b) \<le> a mod 2 + b mod 2"
      by (auto simp: odd_iff_mod_2_eq_one even_iff_mod_2_eq_zero)
    ultimately show ?thesis by linarith
  qed simp
qed

lemma be_nat_xor_le:
  "length a = length b \<Longrightarrow> be_nat (int160_Xor a b) \<le> be_nat a + be_nat b"
proof (induction a b rule: list_induct2)
  case (Cons x xs y ys)
  have "unat (x XOR y) \<le> unat x + unat y"
    using nat_xor_le_add [of "unat x" "unat y"] by (simp add: unsigned_xor_eq)
  then have "unat (x XOR y) * 256 ^ length xs \<le> (unat x + unat y) * 256 ^ length xs"
    by (rule mult_le_mono1)
  then show ?case using Cons by (simp add: int160_Xor_def algebra_simps)
qed (simp add: int160_Xor_def)

lemma int160_Xor_via:
  "length a = length b \<Longrightarrow> length b = length c \<Longrightarrow>
     int160_Xor a c = int160_Xor (int160_Xor a b) (int160_Xor b c)"
  by (induction a b c rule: list_induct3)
     (auto simp: int160_Xor_def xor.assoc xor.left_commute)

lemma be_nat_zero_iff: "be_nat x = 0 \<longleftrightarrow> int160_IsZero x"
  by (induction x) (auto simp: unat_eq_zero)

lemma word_xor_eq_0: "x XOR y = 0 \<longleftrightarrow> x = (y :: 'a :: len word)"
  by (metis xor.assoc xor.right_neutral xor_self_eq)

lemma int160_IsZero_Xor: "length a = length b \<Longrightarrow> int160_IsZero (int160_Xor a b) \<longleftrightarrow> a = b"
  by (induction a b rule: list_induct2) (auto simp: int160_Xor_def word_xor_eq_0)

lemma int160_Xor_comm: "int160_Xor a b = int160_Xor b a"
  by (induction a b rule: list_induct2')
     (auto simp: int160_Xor_def xor.commute)

section \<open>Single bits\<close>

definition set_bit_of :: "byte \<Rightarrow> nat \<Rightarrow> bool \<Rightarrow> byte" where
  "set_bit_of b k v = (b AND NOT (push_bit k 1)) OR (if v then push_bit k 1 else 0)"

lemma bit_set_bit_of: "k < 8 \<Longrightarrow> bit (set_bit_of b k v) l = (if l = k then v else bit b l)"
  by (auto simp: set_bit_of_def bit_simps dest: bit_imp_le_length)

lemma int160_GetBit_iff:
  "int160_GetBit i n = (if n div 8 < length i then Some (bit (i ! (n div 8)) (7 - n mod 8)) else None)"
  by (simp add: int160_GetBit_def bit_iff_and_drop_bit_eq_1 del: One_nat_def)

section \<open>Properties\<close>

text \<open>The XOR distance is a metric on identifiers of the same length, read as big-endian
numbers: zero exactly between equal identifiers, symmetric, and subject to the triangle
inequality.\<close>

theorem Distance_metric:
  assumes "length a = length b" "length b = length c"
  shows "(int160_IsZero (int160_Distance a b) \<longleftrightarrow> a = b) \<and>
    int160_Distance a b = int160_Distance b a \<and>
    be_nat (int160_Distance a c) \<le> be_nat (int160_Distance a b) + be_nat (int160_Distance b c)"
  using be_nat_xor_le [of "int160_Xor a b" "int160_Xor b c"] int160_Xor_via [OF assms]
    int160_IsZero_Xor [OF assms(1)] int160_Xor_comm assms
  by (simp add: int160_Distance_def)

theorem Distance_metric_witness:
  "be_nat (int160_Distance [1, 0] [0, 7]) \<le>
     be_nat (int160_Distance [1, 0] [3, 3]) + be_nat (int160_Distance [3, 3] [0, 7])"
  using Distance_metric [of "[1, 0]" "[3, 3]" "[0, 7]"] by (auto simp del: be_nat.simps)

text \<open>\<open>Cmp\<close> compares identifiers as big-endian unsigned numbers, so it is 0 only on
equal identifiers.\<close>

theorem Cmp_is_numeric:
  assumes "length a = length b"
  shows "int160_Cmp a b = sgn (int (be_nat a) - int (be_nat b)) \<and>
         (int160_Cmp a b = 0 \<longleftrightarrow> a = b)"
  using int160_Cmp_sgn [OF assms] be_nat_inject [OF assms] by (auto simp: sgn_if)

theorem Cmp_is_numeric_witness: "int160_Cmp [1, 255] [2, 0] = - 1"
  using Cmp_is_numeric [of "[1, 255]" "[2, 0]"] by simp

text \<open>Printing an identifier as hexadecimal and parsing it back gives the identifier, with
or without the 0x prefix, and \<open>ParseID\<close> only returns 20-byte identifiers.\<close>

theorem ParseID_roundtrip:
  "(wf_id i \<longrightarrow> ParseID (id_String i) = Inr i \<and> ParseID (''0x'' @ id_String i) = Inr i) \<and>
   (ParseID s = Inr j \<longrightarrow> wf_id j)"
proof -
  have "trim_prefix (''0x'' @ hex_encode i) ''0x'' = hex_encode i" by (simp add: trim_prefix_def)
  then show ?thesis
    using ParseID_wf
    by (auto simp: ParseID_def id_String_def hex_encode_no_prefix hex_decode_encode wf_id_def)
qed

theorem ParseID_roundtrip_witness: "ParseID (id_String zero_id) = Inr zero_id"
  using ParseID_roundtrip [of zero_id] by (simp add: wf_id_def zero_id_def)

text \<open>\<open>NewIDFromByteSlice\<close> rejects slices shorter than 20 bytes only: a longer slice
is cut to its first 20 bytes and accepted.\<close>

theorem NewIDFromByteSlice_accepts:
  "NewIDFromByteSlice b = (if length b < 20 then Inl SliceLength else Inr (take 20 b))"
  by (auto simp: NewIDFromByteSlice_def copy20_def)

text \<open>Setting a bit of an identifier and reading bits back: the written bit has the written
value, every other bit is unchanged.\<close>

theorem WithBit_GetBit:
  assumes "int160_WithBit i n v = Some j"
  shows "int160_GetBit j m = (if m = n then Some v else int160_GetBit i m)"
proof -
  from assms have n: "n div 8 < length i"
    and j: "j = i[n div 8 := set_bit_of (i ! (n div 8)) (7 - n mod 8) v]"
    by (auto simp: int160_WithBit_def set_bit_of_def Let_def split: if_splits)
  show ?thesis
  proof (cases "n div 8 = m div 8")
    case True
    then have "m mod 8 = n mod 8 \<longleftrightarrow> m = n" by (metis div_mult_mod_eq)
    moreover have "m mod 8 < 8" "n mod 8 < 8" by simp_all
    ultimately have "7 - m mod 8 = 7 - n mod 8 \<longleftrightarrow> m = n" by linarith
    then show ?thesis
      using n True by (simp add: int160_GetBit_iff j bit_set_bit_of)
  next
    case False
    then have "m \<noteq> n" by blast
    then show ?thesis using False by (simp add: int160_GetBit_iff j)
  qed
qed

theorem WithBit_GetBit_witness:
  "int160_GetBit (the (int160_WithBit [0, 0, 5] 11 True)) 11 = Some True"
proof -
  have "int160_WithBit [0, 0, 5] 11 True = Some [0, 16, 5]" by (simp add: int160_WithBit_def)
  from WithBit_GetBit [OF this, of 11] this show ?thesis by simp
qed

end
