(* ===== verification/KTable.thy ===== *)
theory KTable
  imports ProtocolId "HOL-Library.AList" "HOL-Library.Multiset"
begin

text \<open>
  The Kademlia routing table (\<open>internal/protocol/dht/ktable\<close>): the generic keyspace
  (\<open>keyspace.go\<close>) over the binary tree of theory \<open>Btree\<close>, its two instances for nodes
  (\<open>node.go\<close>) and info hashes (\<open>hash.go\<close>), the reverse map from addresses to
  what is known at them (\<open>reverse_map.go\<close>), and the table's commands and queries
  (\<open>command.go\<close>, \<open>query.go\<close>, \<open>table.go\<close>, \<open>factory.go\<close>).

  A Go map is an association list with distinct keys. Go iterates over a map in an arbitrary
  order, so every operation that ranges over one takes the order as an argument \<open>ord\<close>, a
  function that permutes the entries. Items hold a pointer to the shared reverse map; the model
  threads the reverse map through every operation instead. Maps keyed by the text of an
  address are keyed by the address itself (the text determines it). Times are integers (nanoseconds since Go's zero
  time, which is 0); the current time is an argument. The mutex makes each operation of the
  table atomic, so an interleaving of calls is a list of commands. \<open>None\<close> is a panic.
\<close>

section \<open>Addresses (net/netip)\<close>

datatype ip_addr = NoIP | IP4 bytes | IP6 bytes string

record addr_port =
  ap_ip :: ip_addr
  ap_port :: int

definition addr_port_IsValid :: "addr_port \<Rightarrow> bool" where
  "addr_port_IsValid a \<longleftrightarrow> ap_ip a \<noteq> NoIP"

section \<open>reverse\_map.go\<close>

record infoForAddr =
  ia_peerID :: ID
  ia_hashes :: "ID set"

type_synonym reverse_map = "ip_addr \<rightharpoonup> infoForAddr"

definition addHashes :: "infoForAddr \<Rightarrow> ID list \<Rightarrow> infoForAddr" where
  "addHashes i hs = i\<lparr>ia_hashes := ia_hashes i \<union> set hs\<rparr>"

definition dropHashes :: "infoForAddr \<Rightarrow> ID list \<Rightarrow> infoForAddr" where
  "dropHashes i hs = i\<lparr>ia_hashes := ia_hashes i - set hs\<rparr>"

definition newInfoForAddr :: "ID \<Rightarrow> ID list \<Rightarrow> infoForAddr" where
  "newInfoForAddr peerID hs = addHashes \<lparr>ia_peerID = peerID, ia_hashes = {}\<rparr> hs"

definition putAddrPeerID :: "reverse_map \<Rightarrow> ip_addr \<Rightarrow> ID \<Rightarrow> reverse_map" where
  "putAddrPeerID m a i =
     (case m a of
        Some info \<Rightarrow> m(a \<mapsto> info\<lparr>ia_peerID := i\<rparr>)
      | None \<Rightarrow> m(a \<mapsto> newInfoForAddr i []))"

definition putAddrHashes :: "reverse_map \<Rightarrow> ip_addr \<Rightarrow> ID list \<Rightarrow> reverse_map" where
  "putAddrHashes m a hs =
     (case m a of
        Some info \<Rightarrow> m(a \<mapsto> addHashes info hs)
      | None \<Rightarrow> m(a \<mapsto> newInfoForAddr zero_id hs))"

definition dropAddr :: "reverse_map \<Rightarrow> ip_addr \<Rightarrow> reverse_map \<times> bool" where
  "dropAddr m a = (case m a of Some _ \<Rightarrow> (m(a := None), True) | None \<Rightarrow> (m, False))"

fun dropHashForAddrs :: "reverse_map \<Rightarrow> ID \<Rightarrow> ip_addr list \<Rightarrow> reverse_map" where
  "dropHashForAddrs m h [] = m"
| "dropHashForAddrs m h (a # addrs) =
     (case m a of
        Some info \<Rightarrow>
          (let info' = dropHashes info [h] in
           if ia_hashes info' = {} \<and> id_IsZero (ia_peerID info')
           then dropHashForAddrs (m(a := None)) h addrs
           else dropHashForAddrs (m(a \<mapsto> info')) h addrs)
      | None \<Rightarrow> dropHashForAddrs m h addrs)"

section \<open>keyspace.go\<close>

record 'it keyspace =
  ks_origin :: ID
  ks_k :: int
  ks_btree :: root_node
  ks_items :: "(ID \<times> 'it) list"

definition newKeyspace :: "ID \<Rightarrow> int \<Rightarrow> 'it keyspace" where
  "newKeyspace origin k =
     \<lparr>ks_origin = origin, ks_k = k, ks_btree = btree_New origin k True, ks_items = []\<rparr>"

definition keyspace_count :: "'it keyspace \<Rightarrow> nat" where
  "keyspace_count ks = length (ks_items ks)"

definition keyspace_get :: "'it keyspace \<Rightarrow> ID \<Rightarrow> 'it option" where
  "keyspace_get ks i = map_of (ks_items ks) i"

text \<open>
  \<open>put\<close>: \<open>mk\<close> is the factory, \<open>upd\<close> and \<open>app\<close> the item's \<open>update\<close>
  and \<open>apply\<close>. An existing identifier without an item is a nil receiver, which panics.
\<close>

definition keyspace_put ::
  "(ID \<Rightarrow> 'inp \<Rightarrow> reverse_map \<Rightarrow> 'it \<times> reverse_map) \<Rightarrow>
   ('it \<Rightarrow> 'inp \<Rightarrow> reverse_map \<Rightarrow> 'it \<times> reverse_map) \<Rightarrow> ('opt \<Rightarrow> 'it \<Rightarrow> 'it) \<Rightarrow>
   'it keyspace \<Rightarrow> reverse_map \<Rightarrow> ID \<Rightarrow> 'inp \<Rightarrow> 'opt list \<Rightarrow>
   ('it keyspace \<times> reverse_map \<times> put_result) option" where
  "keyspace_put mk upd app ks rm i inp opts =
     (case btree_Put (ks_btree ks) i of
        None \<Rightarrow> None
      | Some (bt, PutAccepted) \<Rightarrow>
          (let (it, rm') = (case map_of (ks_items ks) i of Some it \<Rightarrow> (it, rm) | None \<Rightarrow> mk i inp rm) in
           Some (ks\<lparr>ks_btree := bt, ks_items := AList.update i (fold app opts it) (ks_items ks)\<rparr>,
                 rm', PutAccepted))
      | Some (bt, PutAlreadyExists) \<Rightarrow>
          (case map_of (ks_items ks) i of
             None \<Rightarrow> None
           | Some it \<Rightarrow>
               (let (it', rm') = upd it inp rm in
                Some (ks\<lparr>ks_btree := bt, ks_items := AList.update i (fold app opts it') (ks_items ks)\<rparr>,
                      rm', PutAlreadyExists)))
      | Some (bt, PutRejected) \<Rightarrow> Some (ks\<lparr>ks_btree := bt\<rparr>, rm, PutRejected))"

fun getRandom_loop :: "nat \<Rightarrow> (ID \<times> 'it) list \<Rightarrow> 'it list \<Rightarrow> 'it list" where
  "getRandom_loop n [] items = items"
| "getRandom_loop n (e # es) items =
     (if length items \<ge> n then items else getRandom_loop n es (items @ [snd e]))"

definition keyspace_getRandom ::
  "((ID \<times> 'it) list \<Rightarrow> (ID \<times> 'it) list) \<Rightarrow> 'it keyspace \<Rightarrow> nat \<Rightarrow> 'it list" where
  "keyspace_getRandom ord ks n =
     (let n' = (if n > length (ks_items ks) then length (ks_items ks) else n) in
      getRandom_loop n' (ord (ks_items ks)) [])"

definition ErrDropReasonNotProvided :: string where
  "ErrDropReasonNotProvided = ''drop reason not provided''"

definition keyspace_drop ::
  "('it \<Rightarrow> string \<Rightarrow> reverse_map \<Rightarrow> reverse_map) \<Rightarrow> 'it keyspace \<Rightarrow> reverse_map \<Rightarrow> ID \<Rightarrow>
   string option \<Rightarrow> ('it keyspace \<times> reverse_map \<times> bool) option" where
  "keyspace_drop drp ks rm i reason =
     (case map_of (ks_items ks) i of
        None \<Rightarrow> Some (ks, rm, False)
      | Some it \<Rightarrow>
          (let reason' = (case reason of None \<Rightarrow> ErrDropReasonNotProvided | Some r \<Rightarrow> r);
               rm' = drp it reason' rm;
               ks' = ks\<lparr>ks_items := AList.delete i (ks_items ks)\<rparr> in
           case btree_Drop (ks_btree ks') i of
             None \<Rightarrow> None
           | Some (bt, ok) \<Rightarrow> Some (ks'\<lparr>ks_btree := bt\<rparr>, rm', ok)))"

text \<open>\<open>getClosest\<close>: an identifier of the tree without an item gives a nil item
(\<open>None\<close> in the list).\<close>

fun closest_items :: "(ID \<times> 'it) list \<Rightarrow> node_id list \<Rightarrow> 'it option list option" where
  "closest_items items [] = Some []"
| "closest_items items (x # xs) =
     (case MustNewIDFromByteSlice x of
        None \<Rightarrow> None
      | Some i \<Rightarrow> map_option (\<lambda>rest. map_of items i # rest) (closest_items items xs))"

definition keyspace_getClosest :: "'it keyspace \<Rightarrow> ID \<Rightarrow> 'it option list option" where
  "keyspace_getClosest ks i =
     (case map_of (ks_items ks) i of
        Some it \<Rightarrow> Some [Some it]
      | None \<Rightarrow>
          (case btree_Closest (ks_btree ks) i 8 of
             None \<Rightarrow> None
           | Some ids \<Rightarrow> closest_items (ks_items ks) ids))"

section \<open>node.go\<close>

datatype protocolSupport = protocolSupportUnknown | protocolSupportYes | protocolSupportNo

record node =
  nd_id :: ID
  nd_addr :: addr_port
  nd_discoveredAt :: int
  nd_lastRespondedAt :: int
  nd_dropReason :: "string option"
  nd_bep51Support :: protocolSupport
  nd_sampledNum :: int
  nd_lastDiscoveredNum :: int
  nd_totalNum :: int
  nd_nextSampleTime :: int

definition second :: int where "second = 1000000000"

definition node_update :: "node \<Rightarrow> addr_port \<Rightarrow> reverse_map \<Rightarrow> node \<times> reverse_map" where
  "node_update n addr rm =
     (let rm' = (if nd_addr n \<noteq> addr then fst (dropAddr rm (ap_ip (nd_addr n))) else rm) in
      (n\<lparr>nd_addr := addr\<rparr>, putAddrPeerID rm' (ap_ip addr) (nd_id n)))"

definition node_drop :: "node \<Rightarrow> string \<Rightarrow> reverse_map \<Rightarrow> node \<times> reverse_map" where
  "node_drop n reason rm = (n\<lparr>nd_dropReason := Some reason\<rparr>, fst (dropAddr rm (ap_ip (nd_addr n))))"

definition node_Dropped :: "node \<Rightarrow> bool" where
  "node_Dropped n \<longleftrightarrow> nd_dropReason n \<noteq> None"

definition IsSampleInfoHashesCandidate :: "int \<Rightarrow> node \<Rightarrow> bool" where
  "IsSampleInfoHashesCandidate now n \<longleftrightarrow>
     (let threshold = now - 5 * second in
      nd_bep51Support n \<noteq> protocolSupportNo \<and> nd_nextSampleTime n < now \<and>
      nd_lastRespondedAt n < threshold)"

datatype NodeOption = NodeResponded | NodeBep51Support bool | NodeSampleInfoHashesRes int int int

fun node_apply :: "int \<Rightarrow> NodeOption \<Rightarrow> node \<Rightarrow> node" where
  "node_apply now NodeResponded n = n\<lparr>nd_lastRespondedAt := now\<rparr>"
| "node_apply now (NodeBep51Support supported) n =
     (let s = (if supported then protocolSupportYes else protocolSupportNo) in
      n\<lparr>nd_bep51Support := s\<rparr>)"
| "node_apply now (NodeSampleInfoHashesRes discoveredNum totalNum nextSampleTime) n =
     (let next = (if discoveredNum = 0
                  then (if nextSampleTime < now then now else nextSampleTime) + 5 * 60 * second
                  else nextSampleTime) in
      n\<lparr>nd_sampledNum := nd_sampledNum n + discoveredNum,
        nd_lastDiscoveredNum := discoveredNum,
        nd_totalNum := nd_totalNum n + totalNum,
        nd_nextSampleTime := next\<rparr>)"

definition getLastRespondedBefore ::
  "((ID \<times> node) list \<Rightarrow> (ID \<times> node) list) \<Rightarrow> node keyspace \<Rightarrow> int \<Rightarrow> node list" where
  "getLastRespondedBefore ord ks t =
     filter (\<lambda>n. nd_lastRespondedAt n < t) (map snd (ord (ks_items ks)))"

fun candidates_loop :: "int \<Rightarrow> int \<Rightarrow> (ID \<times> node) list \<Rightarrow> node list \<Rightarrow> node list" where
  "candidates_loop now n [] candidates = candidates"
| "candidates_loop now n (e # es) candidates =
     (if \<not> IsSampleInfoHashesCandidate now (snd e) then candidates_loop now n es candidates
      else (let candidates' = candidates @ [snd e] in
            if int (length candidates') = n then candidates' else candidates_loop now n es candidates'))"

definition getCandidatesForSampleInfoHashes ::
  "((ID \<times> node) list \<Rightarrow> (ID \<times> node) list) \<Rightarrow> int \<Rightarrow> node keyspace \<Rightarrow> int \<Rightarrow> node list" where
  "getCandidatesForSampleInfoHashes ord now ks n = candidates_loop now n (ord (ks_items ks)) []"

section \<open>hash.go\<close>

definition maxPeersPerHash :: nat where "maxPeersPerHash = 30"

type_synonym HashPeer = addr_port

record hash =
  hs_id :: ID
  hs_peers :: "(ip_addr \<times> HashPeer) list"
  hs_discoveredAt :: int

fun hash_put_peers ::
  "ID \<Rightarrow> (ip_addr \<times> HashPeer) list \<Rightarrow> reverse_map \<Rightarrow> HashPeer list \<Rightarrow>
   (ip_addr \<times> HashPeer) list \<times> reverse_map" where
  "hash_put_peers i peers rm [] = (peers, rm)"
| "hash_put_peers i peers rm (p # ps) =
     hash_put_peers i (AList.update (ap_ip p) p peers) (putAddrHashes rm (ap_ip p) [i]) ps"

fun hash_evict ::
  "ID \<Rightarrow> int \<Rightarrow> (ip_addr \<times> HashPeer) list \<Rightarrow> (ip_addr \<times> HashPeer) list \<Rightarrow> reverse_map \<Rightarrow>
   (ip_addr \<times> HashPeer) list \<times> reverse_map" where
  "hash_evict i excess [] peers rm = (peers, rm)"
| "hash_evict i excess ((k, p) # es) peers rm =
     (if excess \<le> 0 then (peers, rm)
      else hash_evict i (excess - 1) es (AList.delete k peers) (dropHashForAddrs rm i [ap_ip p]))"

definition hash_update ::
  "((ip_addr \<times> HashPeer) list \<Rightarrow> (ip_addr \<times> HashPeer) list) \<Rightarrow> hash \<Rightarrow> HashPeer list \<Rightarrow>
   reverse_map \<Rightarrow> hash \<times> reverse_map" where
  "hash_update pord h peers rm =
     (let (peers1, rm1) = hash_put_peers (hs_id h) (hs_peers h) rm peers;
          excess = int (length peers1) - int maxPeersPerHash;
          (peers2, rm2) = hash_evict (hs_id h) excess (pord peers1) peers1 rm1 in
      (h\<lparr>hs_peers := peers2\<rparr>, rm2))"

definition hash_Peers ::
  "((ip_addr \<times> HashPeer) list \<Rightarrow> (ip_addr \<times> HashPeer) list) \<Rightarrow> hash \<Rightarrow> HashPeer list" where
  "hash_Peers pord h = map snd (pord (hs_peers h))"

section \<open>factory.go and table.go\<close>

record table =
  tb_origin :: ID
  tb_nodes :: "node keyspace"
  tb_hashes :: "hash keyspace"
  tb_addrs :: reverse_map

definition new_node :: "int \<Rightarrow> ID \<Rightarrow> addr_port \<Rightarrow> reverse_map \<Rightarrow> node \<times> reverse_map" where
  "new_node now i addr rm =
     (\<lparr>nd_id = i, nd_addr = addr, nd_discoveredAt = now, nd_lastRespondedAt = 0,
       nd_dropReason = None, nd_bep51Support = protocolSupportUnknown, nd_sampledNum = 0,
       nd_lastDiscoveredNum = 0, nd_totalNum = 0, nd_nextSampleTime = 0\<rparr>, rm)"

definition new_hash :: "int \<Rightarrow> ID \<Rightarrow> HashPeer list \<Rightarrow> reverse_map \<Rightarrow> hash \<times> reverse_map" where
  "new_hash now i peers rm =
     (let (peersMap, rm') = hash_put_peers i [] rm peers in
      (\<lparr>hs_id = i, hs_peers = peersMap, hs_discoveredAt = now\<rparr>, rm'))"

definition nodesK :: int where "nodesK = 80"
definition hashesK :: int where "hashesK = 80"

definition ktable_New :: "ID \<Rightarrow> table" where
  "ktable_New nodeID =
     \<lparr>tb_origin = nodeID, tb_nodes = newKeyspace nodeID nodesK,
      tb_hashes = newKeyspace nodeID hashesK, tb_addrs = Map.empty\<rparr>"

section \<open>command.go\<close>

text \<open>No code makes a \<open>HashOption\<close>, so a hash has no options to apply. A command comes
with what the run time chooses for it: the current time and the order in which it ranges over
the peers of a hash.\<close>

datatype command =
    PutNode ID addr_port "NodeOption list"
  | DropNode ID "string option"
  | PutHash ID "HashPeer list"

type_synonym env = "int \<times> ((ip_addr \<times> HashPeer) list \<Rightarrow> (ip_addr \<times> HashPeer) list)"

definition PutNode_exec ::
  "env \<Rightarrow> ID \<Rightarrow> addr_port \<Rightarrow> NodeOption list \<Rightarrow> table \<Rightarrow> (table \<times> put_result) option" where
  "PutNode_exec e i addr opts t =
     (if \<not> addr_port_IsValid addr then Some (t, PutRejected)
      else map_option (\<lambda>(ks, rm, r). (t\<lparr>tb_nodes := ks, tb_addrs := rm\<rparr>, r))
             (keyspace_put (new_node (fst e)) node_update (node_apply (fst e))
                (tb_nodes t) (tb_addrs t) i addr opts))"

definition DropNode_exec :: "ID \<Rightarrow> string option \<Rightarrow> table \<Rightarrow> (table \<times> bool) option" where
  "DropNode_exec i reason t =
     map_option (\<lambda>(ks, rm, ok). (t\<lparr>tb_nodes := ks, tb_addrs := rm\<rparr>, ok))
       (keyspace_drop (\<lambda>n r rm. snd (node_drop n r rm)) (tb_nodes t) (tb_addrs t) i reason)"

definition PutHash_exec :: "env \<Rightarrow> ID \<Rightarrow> HashPeer list \<Rightarrow> table \<Rightarrow> (table \<times> put_result) option" where
  "PutHash_exec e i peers t =
     map_option (\<lambda>(ks, rm, r). (t\<lparr>tb_hashes := ks, tb_addrs := rm\<rparr>, r))
       (keyspace_put (new_hash (fst e)) (hash_update (snd e)) (\<lambda>(_ :: unit) h. h)
          (tb_hashes t) (tb_addrs t) i peers [])"

fun command_exec :: "env \<Rightarrow> command \<Rightarrow> table \<Rightarrow> table option" where
  "command_exec e (PutNode i addr opts) t = map_option fst (PutNode_exec e i addr opts t)"
| "command_exec e (DropNode i reason) t = map_option fst (DropNode_exec i reason t)"
| "command_exec e (PutHash i peers) t = map_option fst (PutHash_exec e i peers t)"

fun BatchCommand :: "(env \<times> command) list \<Rightarrow> table \<Rightarrow> table option" where
  "BatchCommand [] t = Some t"
| "BatchCommand ((e, c) # cs) t =
     (case command_exec e c t of None \<Rightarrow> None | Some t' \<Rightarrow> BatchCommand cs t')"

section \<open>query.go\<close>

definition GetClosestNodes :: "ID \<Rightarrow> table \<Rightarrow> node option list option" where
  "GetClosestNodes i t = keyspace_getClosest (tb_nodes t) i"

text \<open>\<open>sort.Slice\<close> is not stable; a stable sort of an arbitrary iteration order has the
same set of possible results.\<close>

definition GetOldestNodes ::
  "((ID \<times> node) list \<Rightarrow> (ID \<times> node) list) \<Rightarrow> int \<Rightarrow> int \<Rightarrow> table \<Rightarrow> node list" where
  "GetOldestNodes ord cutoff n t =
     (let peers = sort_key nd_lastRespondedAt (getLastRespondedBefore ord (tb_nodes t) cutoff) in
      if n > 0 \<and> int (length peers) > n then take (nat n) peers else peers)"

fun FilterKnownAddrs :: "ip_addr list \<Rightarrow> table \<Rightarrow> ip_addr list" where
  "FilterKnownAddrs [] t = []"
| "FilterKnownAddrs (a # addrs) t =
     (if tb_addrs t a = None then a # FilterKnownAddrs addrs t else FilterKnownAddrs addrs t)"

fun sample_nodes_loop :: "int \<Rightarrow> node list \<Rightarrow> node list \<Rightarrow> node list" where
  "sample_nodes_loop n [] peers = peers"
| "sample_nodes_loop n (p # ps) peers =
     (let peers' = peers @ [p] in
      if int (length peers') \<ge> n then peers' else sample_nodes_loop n ps peers')"

text \<open>A negative \<open>N\<close> is a negative capacity of \<open>make\<close>, which panics.\<close>

definition GetNodesForSampleInfoHashes ::
  "((ID \<times> node) list \<Rightarrow> (ID \<times> node) list) \<Rightarrow> int \<Rightarrow> int \<Rightarrow> table \<Rightarrow> node list option" where
  "GetNodesForSampleInfoHashes ord now n t =
     (if n < 0 then None
      else Some (sample_nodes_loop n (getCandidatesForSampleInfoHashes ord now (tb_nodes t) n) []))"

record hash_or_nodes =
  hn_hash :: "hash option"
  hn_closestNodes :: "node option list"
  hn_found :: bool

definition GetHashOrClosestNodes :: "ID \<Rightarrow> table \<Rightarrow> hash_or_nodes option" where
  "GetHashOrClosestNodes i t =
     (case keyspace_get (tb_hashes t) i of
        Some h \<Rightarrow> Some \<lparr>hn_hash = Some h, hn_closestNodes = [], hn_found = True\<rparr>
      | None \<Rightarrow>
          map_option (\<lambda>ns. \<lparr>hn_hash = None, hn_closestNodes = ns, hn_found = False\<rparr>)
            (keyspace_getClosest (tb_nodes t) i))"

record sample_result =
  sr_hashes :: "hash list"
  sr_nodes :: "node list"
  sr_totalHashes :: nat

definition SampleHashesAndNodes ::
  "((ID \<times> hash) list \<Rightarrow> (ID \<times> hash) list) \<Rightarrow> ((ID \<times> node) list \<Rightarrow> (ID \<times> node) list) \<Rightarrow>
   table \<Rightarrow> sample_result" where
  "SampleHashesAndNodes hord nord t =
     (let nHashes = 20;
          hashes = keyspace_getRandom hord (tb_hashes t) nHashes;
          nNodes = 20 + (nHashes - length hashes);
          nodes = keyspace_getRandom nord (tb_nodes t) nNodes;
          totalHashes = keyspace_count (tb_hashes t) in
      \<lparr>sr_hashes = hashes, sr_nodes = nodes, sr_totalHashes = totalHashes\<rparr>)"

section \<open>Keyspaces: the items follow the tree\<close>

definition ks_ok :: "('it \<Rightarrow> ID) \<Rightarrow> ('it \<Rightarrow> bool) \<Rightarrow> 'it keyspace \<Rightarrow> bool" where
  "ks_ok iid iok ks \<longleftrightarrow> wf_id (ks_origin ks) \<and> root_ok (ks_btree ks) \<and>
     rn_origin (ks_btree ks) = ks_origin ks \<and> distinct (map fst (ks_items ks)) \<and>
     fst ` set (ks_items ks) = root_ids (ks_btree ks) \<and>
     (\<forall>(i, it) \<in> set (ks_items ks). iid it = i \<and> iok it)"

lemma ks_ok_dom: "ks_ok iid iok ks \<Longrightarrow> map_of (ks_items ks) i = None \<longleftrightarrow> i \<notin> root_ids (ks_btree ks)"
  by (simp add: ks_ok_def map_of_eq_None_iff)

lemma ks_ok_item: "ks_ok iid iok ks \<Longrightarrow> map_of (ks_items ks) i = Some it \<Longrightarrow> iid it = i \<and> iok it"
  by (auto simp: ks_ok_def dest: map_of_SomeD)

lemma ks_get_items:
  assumes "ks_ok iid iok ks"
  shows "keyspace_get ks (iid it) = Some it \<longleftrightarrow> it \<in> snd ` set (ks_items ks)"
proof
  assume "keyspace_get ks (iid it) = Some it"
  then have "(iid it, it) \<in> set (ks_items ks)" by (simp add: keyspace_get_def map_of_SomeD)
  then show "it \<in> snd ` set (ks_items ks)" by force
next
  assume "it \<in> snd ` set (ks_items ks)"
  then obtain i where "(i, it) \<in> set (ks_items ks)" by auto
  moreover from this have "iid it = i" using assms by (auto simp: ks_ok_def)
  ultimately show "keyspace_get ks (iid it) = Some it" using assms by (simp add: ks_ok_def keyspace_get_def)
qed

lemma ks_ok_wf_key: "ks_ok iid iok ks \<Longrightarrow> map_of (ks_items ks) i = Some it \<Longrightarrow> wf_id i"
  using bt.nids_length [of "ks_btree ks" i] ks_ok_dom [of iid iok ks i]
  by (simp add: ks_ok_def wf_id_def)

lemma ks_ok_update:
  assumes ok: "ks_ok iid iok ks" and it: "iid it = i" "iok it"
    and bt: "root_ok b" "rn_origin b = rn_origin (ks_btree ks)" "root_ids b = insert i (root_ids (ks_btree ks))"
  shows "ks_ok iid iok (ks\<lparr>ks_btree := b, ks_items := AList.update i it (ks_items ks)\<rparr>)"
proof -
  have "(j, x) \<in> set (AList.update i it (ks_items ks)) \<Longrightarrow> iid x = j \<and> iok x" for j x
    using ok it map_of_is_SomeI [of "AList.update i it (ks_items ks)" j x]
    by (auto simp: ks_ok_def distinct_update update_conv' split: if_splits dest: map_of_SomeD)
  then show ?thesis
    using ok bt by (auto simp: ks_ok_def distinct_update dom_update)
qed

lemma delete_keys: "fst ` set (AList.delete k al) = fst ` set al - {k}"
  by (auto simp: AList.delete_eq image_iff)

lemma ks_ok_New: "wf_id origin \<Longrightarrow> ks_ok iid iok (newKeyspace origin k)"
  by (simp add: ks_ok_def newKeyspace_def wf_id_def)

text \<open>
  The items of a keyspace, as the Go interface \<open>keyspaceItemPrivate\<close> and the factory: every
  operation keeps the item's identifier and well-formedness.
\<close>

locale keyed_items =
  fixes mk :: "ID \<Rightarrow> 'inp \<Rightarrow> reverse_map \<Rightarrow> 'it \<times> reverse_map"
    and upd :: "'it \<Rightarrow> 'inp \<Rightarrow> reverse_map \<Rightarrow> 'it \<times> reverse_map"
    and app :: "'opt \<Rightarrow> 'it \<Rightarrow> 'it"
    and iid :: "'it \<Rightarrow> ID"
    and iok :: "'it \<Rightarrow> bool"
  assumes mk_law: "iid (fst (mk i inp rm)) = i" "iok (fst (mk i inp rm))"
    and upd_law: "iid (fst (upd it inp rm)) = iid it" "iok it \<Longrightarrow> iok (fst (upd it inp rm))"
    and app_law: "iid (app opt it) = iid it" "iok it \<Longrightarrow> iok (app opt it)"
begin

lemma fold_app_law: "iid (fold app opts it) = iid it" "iok it \<Longrightarrow> iok (fold app opts it)"
  by (induction opts arbitrary: it) (simp_all add: app_law)

lemma put_cases:
  assumes ok: "ks_ok iid iok ks" and i: "wf_id i"
  obtains
    (rejected) "keyspace_put mk upd app ks rm i inp opts = Some (ks, rm, PutRejected)"
      "map_of (ks_items ks) i = None"
  | (accepted) ks' where
      "keyspace_put mk upd app ks rm i inp opts = Some (ks', snd (mk i inp rm), PutAccepted)"
      "map_of (ks_items ks) i = None" "ks_ok iid iok ks'"
      "map_of (ks_items ks') = (map_of (ks_items ks))(i \<mapsto> fold app opts (fst (mk i inp rm)))"
  | (exists) ks' it where
      "map_of (ks_items ks) i = Some it" "ks_ok iid iok ks'"
      "keyspace_put mk upd app ks rm i inp opts = Some (ks', snd (upd it inp rm), PutAlreadyExists)"
      "map_of (ks_items ks') = (map_of (ks_items ks))(i \<mapsto> fold app opts (fst (upd it inp rm)))"
proof -
  let ?b = "ks_btree ks"
  have root: "root_ok ?b" "length i = length (rn_origin ?b)"
    using ok i by (auto simp: ks_ok_def wf_id_def)
  from bt.put_law [OF this] obtain b r where
    b: "btree_Put ?b i = Some (b, r)" "root_ok b" "rn_origin b = rn_origin ?b"
      "case r of PutAccepted \<Rightarrow> i \<notin> root_ids ?b \<and> root_ids b = insert i (root_ids ?b)
         | PutAlreadyExists \<Rightarrow> i \<in> root_ids ?b \<and> b = ?b
         | PutRejected \<Rightarrow> i \<notin> root_ids ?b \<and> b = ?b" by blast
  show thesis
  proof (cases r)
    case PutRejected
    with b ks_ok_dom [OF ok, of i] show thesis by (intro rejected) (simp_all add: keyspace_put_def)
  next
    case PutAccepted
    with b ks_ok_dom [OF ok, of i] have none: "map_of (ks_items ks) i = None" by simp
    let ?ks = "ks\<lparr>ks_btree := b,
        ks_items := AList.update i (fold app opts (fst (mk i inp rm))) (ks_items ks)\<rparr>"
    show thesis
    proof (rule accepted [of ?ks])
      show "keyspace_put mk upd app ks rm i inp opts = Some (?ks, snd (mk i inp rm), PutAccepted)"
        using none b(1) PutAccepted by (simp add: keyspace_put_def split: prod.split)
      show "ks_ok iid iok ?ks"
        using b PutAccepted by (intro ks_ok_update [OF ok]) (simp_all add: fold_app_law mk_law)
    qed (simp_all add: none update_conv')
  next
    case PutAlreadyExists
    with b ks_ok_dom [OF ok, of i] obtain it where it: "map_of (ks_items ks) i = Some it" by auto
    note item = ks_ok_item [OF ok it]
    let ?ks = "ks\<lparr>ks_btree := b,
        ks_items := AList.update i (fold app opts (fst (upd it inp rm))) (ks_items ks)\<rparr>"
    show thesis
    proof (rule exists [of it ?ks])
      show "keyspace_put mk upd app ks rm i inp opts =
          Some (?ks, snd (upd it inp rm), PutAlreadyExists)"
        using it b(1) PutAlreadyExists by (simp add: keyspace_put_def split: prod.split)
      show "ks_ok iid iok ?ks"
        using b PutAlreadyExists item
        by (intro ks_ok_update [OF ok]) (auto simp: fold_app_law upd_law)
    qed (simp_all add: it update_conv')
  qed
qed

lemma drop_cases:
  assumes ok: "ks_ok iid iok ks" and i: "wf_id i"
  obtains
    (absent) "keyspace_drop drp ks rm i reason = Some (ks, rm, False)" "map_of (ks_items ks) i = None"
  | (dropped) ks' it r where
      "keyspace_drop drp ks rm i reason = Some (ks', drp it r rm, True)"
      "map_of (ks_items ks) i = Some it" "ks_ok iid iok ks'"
      "map_of (ks_items ks') = (map_of (ks_items ks))(i := None)"
proof (cases "map_of (ks_items ks) i")
  case None
  then show thesis by (intro absent) (simp_all add: keyspace_drop_def)
next
  case (Some it)
  let ?b = "ks_btree ks"
  have root: "root_ok ?b" "length i = length (rn_origin ?b)" "i \<in> root_ids ?b"
    using ok i Some ks_ok_dom [OF ok, of i] by (auto simp: ks_ok_def wf_id_def)
  from bt.drop_law [OF root(1,2)] root(3) obtain b where
    b: "btree_Drop ?b i = Some (b, True)" "root_ok b" "rn_origin b = rn_origin ?b"
      "root_ids b = root_ids ?b - {i}" by auto
  have "ks_ok iid iok (ks\<lparr>ks_items := AList.delete i (ks_items ks), ks_btree := b\<rparr>)"
    using ok b by (auto simp: ks_ok_def distinct_delete delete_keys) (auto simp: AList.delete_eq)
  with Some b show thesis
    by (intro dropped [of "ks\<lparr>ks_items := AList.delete i (ks_items ks), ks_btree := b\<rparr>"])
       (simp_all add: keyspace_drop_def delete_conv' Let_def)
qed

end

section \<open>The items: nodes and hashes\<close>

definition peers_ok :: "(ip_addr \<times> HashPeer) list \<Rightarrow> bool" where
  "peers_ok ps \<longleftrightarrow> distinct (map fst ps) \<and> (\<forall>(k, p) \<in> set ps. k = ap_ip p)"

definition hash_ok :: "hash \<Rightarrow> bool" where
  "hash_ok h \<longleftrightarrow> peers_ok (hs_peers h)"

lemma peers_ok_update: "peers_ok ps \<Longrightarrow> peers_ok (AList.update (ap_ip p) p ps)"
proof -
  assume ok: "peers_ok ps"
  then have "distinct (map fst (AList.update (ap_ip p) p ps))" by (simp add: peers_ok_def distinct_update)
  moreover have "(k, q) \<in> set (AList.update (ap_ip p) p ps) \<Longrightarrow> k = ap_ip q" for k q
    using ok map_of_is_SomeI [of "AList.update (ap_ip p) p ps" k q]
    by (auto simp: peers_ok_def distinct_update update_conv' split: if_splits dest: map_of_SomeD)
  ultimately show ?thesis by (auto simp: peers_ok_def)
qed

lemma peers_ok_delete: "peers_ok ps \<Longrightarrow> peers_ok (AList.delete k ps)"
  by (auto simp: peers_ok_def distinct_delete) (auto simp: AList.delete_eq)

lemma hash_put_peers_ok: "peers_ok ps \<Longrightarrow> peers_ok (fst (hash_put_peers i ps rm qs))"
  by (induction i ps rm qs rule: hash_put_peers.induct) (simp_all add: peers_ok_update)

lemma hash_put_peers_keys:
  "fst ` set (fst (hash_put_peers i ps rm qs)) = fst ` set ps \<union> ap_ip ` set qs"
  by (induction i ps rm qs rule: hash_put_peers.induct) (auto simp: dom_update)

lemma hash_evict_ok: "peers_ok ps \<Longrightarrow> peers_ok (fst (hash_evict i ex es ps rm))"
  by (induction i ex es ps rm rule: hash_evict.induct) (simp_all add: peers_ok_delete)

lemma hash_update_eq:
  "hash_update pord h peers rm =
     (let a = hash_put_peers (hs_id h) (hs_peers h) rm peers;
          e = hash_evict (hs_id h) (int (length (fst a)) - int maxPeersPerHash) (pord (fst a)) (fst a) (snd a)
      in (h\<lparr>hs_peers := fst e\<rparr>, snd e))"
  by (simp add: hash_update_def Let_def split: prod.split)

lemma node_apply_id [simp]:
  "nd_id (node_apply now opt n) = nd_id n" "nd_addr (node_apply now opt n) = nd_addr n"
  by (cases opt; simp add: Let_def)+

lemma node_fold_addr: "nd_addr (fold (node_apply now) opts n) = nd_addr n"
  by (induction opts arbitrary: n) simp_all

interpretation nodes: keyed_items "new_node now" node_update "node_apply now'" nd_id "\<lambda>_. True"
  for now now'
  by unfold_locales (simp_all add: new_node_def node_update_def)

interpretation hashes: keyed_items "new_hash now" "hash_update pord" "\<lambda>(_ :: unit) h. h" hs_id hash_ok
  for now pord
proof unfold_locales
  fix i inp rm and it :: hash
  have "peers_ok []" by (simp add: peers_ok_def)
  then show "hs_id (fst (new_hash now i inp rm)) = i" "hash_ok (fst (new_hash now i inp rm))"
    using hash_put_peers_ok [of "[]" i rm inp]
    by (auto simp: new_hash_def hash_ok_def split: prod.splits)
  show "hs_id (fst (hash_update pord it inp rm)) = hs_id it"
    by (simp add: hash_update_def Let_def split: prod.split)
  show "hash_ok it \<Longrightarrow> hash_ok (fst (hash_update pord it inp rm))"
    by (simp add: hash_update_eq hash_ok_def Let_def hash_evict_ok hash_put_peers_ok)
qed simp_all

section \<open>The reverse map only knows stored addresses\<close>

text \<open>
  \<open>rm_sound P H rm\<close>: what the reverse map says is true, where \<open>P i a\<close> is that node
  \<open>i\<close> is stored with address \<open>a\<close> and \<open>H h a\<close> that hash \<open>h\<close> has a peer at
  \<open>a\<close>; an entry with neither belongs to a stored node whose identifier is zero.
\<close>

definition rm_sound :: "(ID \<Rightarrow> ip_addr \<Rightarrow> bool) \<Rightarrow> (ID \<Rightarrow> ip_addr \<Rightarrow> bool) \<Rightarrow> reverse_map \<Rightarrow> bool" where
  "rm_sound P H rm \<longleftrightarrow> (\<forall>a info. rm a = Some info \<longrightarrow>
     (ia_peerID info \<noteq> zero_id \<or> ia_hashes info = {} \<longrightarrow> P (ia_peerID info) a) \<and>
     (\<forall>h \<in> ia_hashes info. H h a))"

lemma rm_soundD:
  assumes "rm_sound P H rm" "rm a = Some info"
  shows "(\<exists>i. P i a) \<or> (\<exists>h. H h a)"
  using assms unfolding rm_sound_def by blast

lemma rm_sound_weaken:
  assumes "rm_sound P H rm"
    and "\<And>a i. rm a \<noteq> None \<Longrightarrow> P i a \<Longrightarrow> P' i a" "\<And>a h. rm a \<noteq> None \<Longrightarrow> H h a \<Longrightarrow> H' h a"
  shows "rm_sound P' H' rm"
  using assms unfolding rm_sound_def by (metis option.distinct(1))

lemma rm_sound_putAddrPeerID:
  "rm_sound P H rm \<Longrightarrow> P i a \<Longrightarrow> rm_sound P H (putAddrPeerID rm a i)"
  by (auto simp: rm_sound_def putAddrPeerID_def newInfoForAddr_def addHashes_def split: option.split)

lemma rm_sound_putAddrHashes:
  "rm_sound P H rm \<Longrightarrow> H h a \<Longrightarrow> rm_sound P H (putAddrHashes rm a [h])"
  by (auto simp: rm_sound_def putAddrHashes_def newInfoForAddr_def addHashes_def split: option.split)

lemma rm_sound_dropAddr:
  "rm_sound P H rm \<Longrightarrow> rm_sound P H (fst (dropAddr rm a))" "fst (dropAddr rm a) a = None"
  by (auto simp: rm_sound_def dropAddr_def split: option.split)

lemma rm_sound_dropHash:
  assumes "rm_sound P H rm"
  shows "rm_sound P (\<lambda>h a. H h a \<and> \<not> (h = g \<and> a = b)) (dropHashForAddrs rm g [b])"
  using assms
  by (auto simp: rm_sound_def Let_def dropHashes_def id_IsZero_def split: option.split)

lemma rm_sound_put_peers:
  assumes "rm_sound P H rm"
  shows "rm_sound P (\<lambda>h a. H h a \<or> h = i \<and> a \<in> ap_ip ` set qs) (snd (hash_put_peers i ps rm qs))"
  using assms
proof (induction i ps rm qs arbitrary: H rule: hash_put_peers.induct)
  case (2 i peers rm p ps)
  let ?H = "\<lambda>h a. H h a \<or> h = i \<and> a = ap_ip p"
  have "rm_sound P ?H rm" by (rule rm_sound_weaken [OF "2.prems"]) auto
  then have "rm_sound P ?H (putAddrHashes rm (ap_ip p) [i])" by (rule rm_sound_putAddrHashes) simp
  from "2.IH" [OF this] show ?case unfolding hash_put_peers.simps by (rule rm_sound_weaken) auto
qed simp

text \<open>Eviction deletes the first \<open>excess\<close> peers of the iteration.\<close>

definition evicted :: "int \<Rightarrow> (ip_addr \<times> HashPeer) list \<Rightarrow> ip_addr set" where
  "evicted ex es = fst ` set (take (nat ex) es)"

lemma evicted_Cons: "0 < ex \<Longrightarrow> evicted ex (e # es) = insert (fst e) (evicted (ex - 1) es)"
  by (cases "nat ex") (auto simp: evicted_def nat_diff_distrib)

lemma hash_evict_peers:
  "fst (hash_evict i ex es ps rm) = filter (\<lambda>(k, p). k \<notin> evicted ex es) ps"
proof (induction i ex es ps rm rule: hash_evict.induct)
  case (2 i excess k p es peers rm)
  show ?case
  proof (cases "excess \<le> 0")
    case False
    then have "0 < excess" by simp
    with 2 show ?thesis
      by (auto simp: evicted_Cons AList.delete_eq intro!: filter_cong)
  qed (simp add: evicted_def)
qed (simp add: evicted_def)

lemma rm_sound_evict:
  assumes "rm_sound P H rm" "\<forall>(k, p) \<in> set es. k = ap_ip p"
  shows "rm_sound P (\<lambda>h a. H h a \<and> \<not> (h = i \<and> a \<in> evicted ex es)) (snd (hash_evict i ex es ps rm))"
  using assms
proof (induction i ex es ps rm arbitrary: H rule: hash_evict.induct)
  case (2 i excess k p es peers rm)
  show ?case
  proof (cases "excess \<le> 0")
    case True
    with "2.prems" show ?thesis by (simp add: evicted_def)
  next
    case False
    let ?H = "\<lambda>h a. H h a \<and> \<not> (h = i \<and> a = ap_ip p)"
    have "rm_sound P ?H (dropHashForAddrs rm i [ap_ip p])" by (rule rm_sound_dropHash) (rule 2)
    from "2.IH" [OF False this] "2.prems"(2)
    have "rm_sound P (\<lambda>h a. ?H h a \<and> \<not> (h = i \<and> a \<in> evicted (excess - 1) es))
        (snd (hash_evict i excess ((k, p) # es) peers rm))" using False by simp
    then show ?thesis
      by (rule rm_sound_weaken) (use False "2.prems"(2) in \<open>auto simp: evicted_Cons\<close>)
  qed
qed (simp add: evicted_def)

section \<open>The table\<close>

definition node_at :: "table \<Rightarrow> ID \<Rightarrow> ip_addr \<Rightarrow> bool" where
  "node_at t i a \<longleftrightarrow> (\<exists>n. map_of (ks_items (tb_nodes t)) i = Some n \<and> ap_ip (nd_addr n) = a)"

definition hash_at :: "table \<Rightarrow> ID \<Rightarrow> ip_addr \<Rightarrow> bool" where
  "hash_at t h a \<longleftrightarrow> (\<exists>x. map_of (ks_items (tb_hashes t)) h = Some x \<and> a \<in> fst ` set (hs_peers x))"

definition table_ok :: "table \<Rightarrow> bool" where
  "table_ok t \<longleftrightarrow> ks_ok nd_id (\<lambda>_. True) (tb_nodes t) \<and> ks_ok hs_id hash_ok (tb_hashes t) \<and>
     rm_sound (node_at t) (hash_at t) (tb_addrs t)"

fun command_id :: "command \<Rightarrow> ID" where
  "command_id (PutNode i _ _) = i"
| "command_id (DropNode i _) = i"
| "command_id (PutHash i _) = i"

definition env_ok :: "env \<Rightarrow> bool" where
  "env_ok e \<longleftrightarrow> (\<forall>xs. mset (snd e xs) = mset xs)"

lemma table_ok_New: "wf_id i \<Longrightarrow> table_ok (ktable_New i)"
  by (simp add: table_ok_def ktable_New_def ks_ok_New rm_sound_def)

lemma rm_sound_node_update:
  assumes s: "rm_sound P H rm" and P: "\<And>a. P (nd_id n) a \<longleftrightarrow> a = ap_ip (nd_addr n)"
  shows "rm_sound (P(nd_id n := (\<lambda>a. a = ap_ip addr))) H (snd (node_update n addr rm))"
proof -
  let ?P = "P(nd_id n := (\<lambda>a. a = ap_ip addr))"
  let ?rm = "if nd_addr n \<noteq> addr then fst (dropAddr rm (ap_ip (nd_addr n))) else rm"
  have "rm_sound P H ?rm" using s rm_sound_dropAddr(1) by simp
  then have "rm_sound ?P H ?rm"
    by (rule rm_sound_weaken) (auto simp: P rm_sound_dropAddr(2) split: if_splits)
  then show ?thesis by (simp add: node_update_def rm_sound_putAddrPeerID)
qed

lemma rm_sound_node_drop:
  assumes s: "rm_sound P H rm" and P: "\<And>a. P i a \<longleftrightarrow> a = ap_ip (nd_addr n)"
  shows "rm_sound (P(i := (\<lambda>a. False))) H (snd (node_drop n r rm))"
proof -
  have "rm_sound (P(i := (\<lambda>a. False))) H (fst (dropAddr rm (ap_ip (nd_addr n))))"
    by (rule rm_sound_weaken [OF rm_sound_dropAddr(1) [OF s, of "ap_ip (nd_addr n)"]])
       (auto simp: P rm_sound_dropAddr(2))
  then show ?thesis by (simp add: node_drop_def)
qed

lemma rm_sound_hash_update:
  assumes s: "rm_sound P H rm" and h: "hash_ok h" and H: "\<And>a. H (hs_id h) a \<longleftrightarrow> a \<in> fst ` set (hs_peers h)"
    and pord: "\<And>xs. set (pord xs) = set xs"
  shows "rm_sound P (H(hs_id h := (\<lambda>a. a \<in> fst ` set (hs_peers (fst (hash_update pord h peers rm))))))
    (snd (hash_update pord h peers rm))"
proof -
  let ?a = "hash_put_peers (hs_id h) (hs_peers h) rm peers"
  let ?ex = "int (length (fst ?a)) - int maxPeersPerHash"
  let ?H1 = "\<lambda>g a. H g a \<or> g = hs_id h \<and> a \<in> ap_ip ` set peers"
  have ok: "peers_ok (fst ?a)" using h by (simp add: hash_ok_def hash_put_peers_ok)
  have "rm_sound P ?H1 (snd ?a)" by (rule rm_sound_put_peers [OF s])
  then have "rm_sound P (\<lambda>g a. ?H1 g a \<and> \<not> (g = hs_id h \<and> a \<in> evicted ?ex (pord (fst ?a))))
      (snd (hash_evict (hs_id h) ?ex (pord (fst ?a)) (fst ?a) (snd ?a)))"
    by (rule rm_sound_evict) (use ok in \<open>auto simp: peers_ok_def pord\<close>)
  then have "rm_sound P (\<lambda>g a. ?H1 g a \<and> \<not> (g = hs_id h \<and> a \<in> evicted ?ex (pord (fst ?a))))
      (snd (hash_update pord h peers rm))"
    by (simp only: hash_update_eq Let_def snd_conv)
  then show ?thesis
  proof (rule rm_sound_weaken)
    fix a g assume "?H1 g a \<and> \<not> (g = hs_id h \<and> a \<in> evicted ?ex (pord (fst ?a)))"
    moreover have "a \<in> fst ` set (fst ?a) \<longleftrightarrow> H (hs_id h) a \<or> a \<in> ap_ip ` set peers"
      by (simp add: hash_put_peers_keys H)
    ultimately show "(H(hs_id h := (\<lambda>a. a \<in> fst ` set (hs_peers (fst (hash_update pord h peers rm)))))) g a"
      by (auto simp: hash_update_eq Let_def hash_evict_peers image_iff)
  qed
qed

text \<open>Every command, on any table the invariant holds of, returns and keeps the invariant.\<close>

lemma PutNode_ok:
  assumes ok: "table_ok t" and i: "wf_id i"
  shows "\<exists>t' r. PutNode_exec e i addr opts t = Some (t', r) \<and> table_ok t'"
proof (cases "addr_port_IsValid addr")
  case False
  with ok show ?thesis by (simp add: PutNode_exec_def)
next
  case True
  have ks: "ks_ok nd_id (\<lambda>_. True) (tb_nodes t)" and hs: "ks_ok hs_id hash_ok (tb_hashes t)"
    and rm: "rm_sound (node_at t) (hash_at t) (tb_addrs t)" using ok by (auto simp: table_ok_def)
  show ?thesis
  proof (cases rule: nodes.put_cases [OF ks i, of "fst e" "fst e" "tb_addrs t" addr opts])
    case 1
    with ok True show ?thesis by (simp add: PutNode_exec_def)
  next
    case (2 ks')
    let ?t = "t\<lparr>tb_nodes := ks'\<rparr>"
    have "rm_sound (node_at ?t) (hash_at ?t) (tb_addrs t)"
      by (rule rm_sound_weaken [OF rm]) (use 2 in \<open>auto simp: node_at_def hash_at_def\<close>)
    with 2 hs True show ?thesis by (simp add: PutNode_exec_def table_ok_def new_node_def node_at_def hash_at_def)
  next
    case (3 ks' n)
    let ?t = "t\<lparr>tb_nodes := ks', tb_addrs := snd (node_update n addr (tb_addrs t))\<rparr>"
    have n: "nd_id n = i" using ks_ok_item [OF ks 3(1)] by simp
    have "rm_sound ((node_at t)(nd_id n := (\<lambda>a. a = ap_ip addr))) (hash_at t) (tb_addrs ?t)"
      using rm_sound_node_update [OF rm, of n addr] 3(1) n by (auto simp: node_at_def)
    then have "rm_sound (node_at ?t) (hash_at ?t) (tb_addrs ?t)"
      by (rule rm_sound_weaken)
         (use 3 n in \<open>auto simp: node_at_def hash_at_def node_fold_addr node_update_def split: if_splits\<close>)
    with 3 hs True show ?thesis by (simp add: PutNode_exec_def table_ok_def)
  qed
qed

lemma DropNode_ok:
  assumes ok: "table_ok t" and i: "wf_id i"
  shows "\<exists>t' r. DropNode_exec i reason t = Some (t', r) \<and> table_ok t'"
proof -
  have ks: "ks_ok nd_id (\<lambda>_. True) (tb_nodes t)" and hs: "ks_ok hs_id hash_ok (tb_hashes t)"
    and rm: "rm_sound (node_at t) (hash_at t) (tb_addrs t)" using ok by (auto simp: table_ok_def)
  show ?thesis
  proof (cases rule: nodes.drop_cases [OF ks i, of "\<lambda>n r rm. snd (node_drop n r rm)" "tb_addrs t" reason])
    case 1
    with ok show ?thesis by (intro exI [of _ t] exI [of _ False]) (simp add: DropNode_exec_def)
  next
    case (2 ks' n r)
    let ?t = "t\<lparr>tb_nodes := ks', tb_addrs := snd (node_drop n r (tb_addrs t))\<rparr>"
    have "rm_sound ((node_at t)(i := (\<lambda>a. False))) (hash_at t) (tb_addrs ?t)"
      using rm_sound_node_drop [OF rm, of i n r] 2(2) by (auto simp: node_at_def)
    then have "rm_sound (node_at ?t) (hash_at ?t) (tb_addrs ?t)"
      by (rule rm_sound_weaken) (use 2 in \<open>auto simp: node_at_def hash_at_def split: if_splits\<close>)
    with 2 hs show ?thesis
      by (intro exI [of _ ?t] exI [of _ True]) (simp add: DropNode_exec_def table_ok_def)
  qed
qed

lemma PutHash_ok:
  assumes ok: "table_ok t" and i: "wf_id i" and e: "env_ok e"
  shows "\<exists>t' r. PutHash_exec e i peers t = Some (t', r) \<and> table_ok t'"
proof -
  have ks: "ks_ok nd_id (\<lambda>_. True) (tb_nodes t)" and hs: "ks_ok hs_id hash_ok (tb_hashes t)"
    and rm: "rm_sound (node_at t) (hash_at t) (tb_addrs t)" using ok by (auto simp: table_ok_def)
  have pord: "set (snd e xs) = set xs" for xs using e by (metis env_ok_def set_mset_mset)
  show ?thesis
  proof (cases rule: hashes.put_cases [OF hs i, of "fst e" "snd e" "tb_addrs t" peers "[]"])
    case 1
    with ok show ?thesis by (simp add: PutHash_exec_def)
  next
    case (2 ks')
    let ?p = "hash_put_peers i [] (tb_addrs t) peers"
    let ?t = "t\<lparr>tb_hashes := ks', tb_addrs := snd ?p\<rparr>"
    have new: "new_hash (fst e) i peers (tb_addrs t) =
        (\<lparr>hs_id = i, hs_peers = fst ?p, hs_discoveredAt = fst e\<rparr>, snd ?p)"
      by (simp add: new_hash_def split: prod.split)
    have "rm_sound (node_at ?t) (hash_at ?t) (snd ?p)"
      by (rule rm_sound_weaken [OF rm_sound_put_peers [OF rm]])
         (use 2 new hash_put_peers_keys [of i "[]"] in \<open>auto simp: node_at_def hash_at_def\<close>)
    with 2 ks new show ?thesis by (simp add: PutHash_exec_def table_ok_def)
  next
    case (3 ks' h)
    let ?u = "hash_update (snd e) h peers (tb_addrs t)"
    let ?t = "t\<lparr>tb_hashes := ks', tb_addrs := snd ?u\<rparr>"
    have h: "hs_id h = i" "hash_ok h" using ks_ok_item [OF hs 3(1)] by simp_all
    have "rm_sound (node_at t) ((hash_at t)(hs_id h := (\<lambda>a. a \<in> fst ` set (hs_peers (fst ?u))))) (snd ?u)"
      using 3(1) h by (intro rm_sound_hash_update [OF rm] pord) (auto simp: hash_at_def)
    then have "rm_sound (node_at ?t) (hash_at ?t) (snd ?u)"
      by (rule rm_sound_weaken) (use 3 h in \<open>auto simp: node_at_def hash_at_def split: if_splits\<close>)
    with 3 ks show ?thesis by (simp add: PutHash_exec_def table_ok_def)
  qed
qed

lemma command_ok:
  assumes "table_ok t" "wf_id (command_id c)" "env_ok e"
  shows "\<exists>t'. command_exec e c t = Some t' \<and> table_ok t'"
proof (cases c)
  case (PutNode i addr opts)
  then show ?thesis using PutNode_ok [OF assms(1), of i e addr opts] assms(2) by auto
next
  case (DropNode i reason)
  then show ?thesis using DropNode_ok [OF assms(1), of i reason] assms(2) by auto
next
  case (PutHash i peers)
  then show ?thesis using PutHash_ok [OF assms(1) _ assms(3), of i peers] assms(2) by auto
qed

lemma BatchCommand_ok:
  assumes "table_ok t" "\<forall>(e, c) \<in> set cs. env_ok e \<and> wf_id (command_id c)"
  shows "\<exists>t'. BatchCommand cs t = Some t' \<and> table_ok t'"
  using assms
proof (induction cs t rule: BatchCommand.induct)
  case (2 e c cs t)
  have "env_ok e" "wf_id (command_id c)" using 2(3) by auto
  from command_ok [OF 2(2) this(2,1)] obtain t' where t': "command_exec e c t = Some t'" "table_ok t'"
    by blast
  moreover have "\<forall>(e, c) \<in> set cs. env_ok e \<and> wf_id (command_id c)" using 2(3) by simp
  ultimately show ?case using 2(1) [OF t'(1,2)] by simp
qed simp

section \<open>Queries\<close>

lemma getRandom_loop_eq: "getRandom_loop n es items = items @ map snd (take (n - length items) es)"
  by (induction n es items rule: getRandom_loop.induct) (auto simp: Suc_diff_le take_Cons')

lemma getRandom_eq:
  "keyspace_getRandom ord ks n = map snd (take (min n (length (ks_items ks))) (ord (ks_items ks)))"
  by (auto simp: keyspace_getRandom_def getRandom_loop_eq Let_def)

lemma getRandom_sample:
  assumes ok: "ks_ok iid iok ks" and ord: "mset (ord (ks_items ks)) = mset (ks_items ks)"
  shows "length (keyspace_getRandom ord ks n) = min n (keyspace_count ks)"
    "distinct (map iid (keyspace_getRandom ord ks n))"
    "it \<in> set (keyspace_getRandom ord ks n) \<Longrightarrow> keyspace_get ks (iid it) = Some it"
proof -
  let ?m = "min n (length (ks_items ks))"
  have set: "set (ord (ks_items ks)) = set (ks_items ks)" using ord by (metis set_mset_mset)
  have d: "distinct (map fst (ks_items ks))" using ok by (simp add: ks_ok_def)
  have "length (ord (ks_items ks)) = length (ks_items ks)" using ord by (metis size_mset)
  then show "length (keyspace_getRandom ord ks n) = min n (keyspace_count ks)"
    by (simp add: getRandom_eq keyspace_count_def)
  have id: "iid (snd e) = fst e" if "e \<in> set (ord (ks_items ks))" for e
    using that ok unfolding set ks_ok_def by auto
  have "mset (map fst (ord (ks_items ks))) = mset (map fst (ks_items ks))" using ord by simp
  then have "distinct (map fst (ord (ks_items ks)))" using d mset_eq_imp_distinct_iff by blast
  then have "distinct (map fst (take ?m (ord (ks_items ks))))" by (simp flip: take_map)
  moreover have "map iid (keyspace_getRandom ord ks n) = map fst (take ?m (ord (ks_items ks)))"
    using id by (auto simp: getRandom_eq dest!: in_set_takeD)
  ultimately show "distinct (map iid (keyspace_getRandom ord ks n))" by simp
  show "keyspace_get ks (iid it) = Some it" if "it \<in> set (keyspace_getRandom ord ks n)"
  proof -
    from that obtain e where e: "e \<in> set (ord (ks_items ks))" "it = snd e"
      by (auto simp: getRandom_eq dest!: in_set_takeD)
    then have "(iid it, it) \<in> set (ks_items ks)" using id [of e] set by (metis prod.collapse)
    then show ?thesis using d by (simp add: keyspace_get_def)
  qed
qed

lemma closest_items_eq:
  "\<forall>x \<in> set xs. wf_id x \<Longrightarrow> closest_items items xs = Some (map (map_of items) xs)"
  by (induction xs)
     (auto simp: MustNewIDFromByteSlice_def NewIDFromByteSlice_def copy20_def wf_id_def)

lemma getClosest_stored:
  "map_of (ks_items ks) i = Some it \<Longrightarrow> keyspace_getClosest ks i = Some [Some it]"
  by (simp add: keyspace_getClosest_def)

lemma getClosest_other:
  assumes ok: "ks_ok iid iok ks" and i: "wf_id i" and none: "map_of (ks_items ks) i = None"
  obtains xs where "keyspace_getClosest ks i = Some (map (map_of (ks_items ks)) xs)" "distinct xs"
    "set xs \<subseteq> dom (map_of (ks_items ks))" "length xs = min 8 (keyspace_count ks)"
    "\<And>a b. a \<in> set xs \<Longrightarrow> b \<in> dom (map_of (ks_items ks)) - set xs \<Longrightarrow>
       bucket_of (int160_Xor b i) \<le> bucket_of (int160_Xor a i)"
proof -
  let ?b = "ks_btree ks"
  have root: "root_ok ?b" "length i = length (rn_origin ?b)"
    using ok i by (auto simp: ks_ok_def wf_id_def)
  have dom: "dom (map_of (ks_items ks)) = root_ids ?b" using ok by (simp add: ks_ok_def dom_map_of_conv_image_fst)
  from btree_Closest_nearest [OF root, of 8] obtain xs where
    xs: "btree_Closest ?b i 8 = Some xs" "distinct xs" "set xs \<subseteq> root_ids ?b"
      "int (length xs) = min 8 (int (card (root_ids ?b)))"
      "\<forall>a \<in> set xs. \<forall>b \<in> root_ids ?b - set xs. bucket_of (int160_Xor b i) \<le> bucket_of (int160_Xor a i)"
    by (auto simp: int160_Xor_def)
  have "card (root_ids ?b) = keyspace_count ks"
    using ok by (simp add: ks_ok_def keyspace_count_def flip: distinct_card) (metis distinct_card length_map list.set_map)
  moreover have "\<forall>x \<in> set xs. wf_id x"
    using xs(3) bt.nids_length [OF root(1)] root(2) i by (auto simp: wf_id_def)
  ultimately show thesis
    using xs none dom by (intro that [of xs]) (auto simp: keyspace_getClosest_def closest_items_eq)
qed

lemma FilterKnownAddrs_eq: "FilterKnownAddrs addrs t = filter (\<lambda>a. tb_addrs t a = None) addrs"
  by (induction addrs) auto

lemma hash_evict_length:
  assumes ok: "peers_ok ps" and ord: "mset (pord ps) = mset ps"
  shows "length (fst (hash_evict i (int (length ps) - int m) (pord ps) ps rm)) = min (length ps) m"
proof -
  let ?d = "length ps - m" and ?E = "take (length ps - m) (pord ps)"
  have "distinct (map fst (pord ps))"
    using ok ord by (metis mset_eq_imp_distinct_iff mset_map peers_ok_def)
  then have dE: "distinct (map fst ?E)" by (simp flip: take_map)
  have sub: "fst ` set ?E \<subseteq> fst ` set ps" using ord by (metis image_mono set_mset_mset set_take_subset)
  have nat: "nat (int (length ps) - int m) = ?d" by linarith
  let ?F = "filter (\<lambda>(k, p). k \<notin> evicted (int (length ps) - int m) (pord ps)) ps"
  have "fst ` set ?F = fst ` set ps - fst ` set ?E" by (force simp: evicted_def nat)
  moreover have "card (fst ` set ?F) = length ?F"
    using ok distinct_card [of "map fst ?F"] by (simp add: peers_ok_def distinct_map_filter)
  moreover have "card (fst ` set ps) = length ps"
    using ok distinct_card [of "map fst ps"] by (simp add: peers_ok_def)
  moreover have "card (fst ` set ?E) = length ?E" using distinct_card [OF dE] by simp
  moreover have "length (pord ps) = length ps" using ord by (metis size_mset)
  ultimately have "length ?F = length ps - min ?d (length ps)"
    using sub by (simp add: card_Diff_subset)
  then show ?thesis by (simp add: hash_evict_peers min_def)
qed

lemma hash_update_length:
  assumes "hash_ok h" and ord: "\<And>xs. mset (pord xs) = mset xs"
  shows "length (hs_peers (fst (hash_update pord h peers rm))) =
    min maxPeersPerHash (card (fst ` set (hs_peers h) \<union> ap_ip ` set peers))"
proof -
  let ?a = "hash_put_peers (hs_id h) (hs_peers h) rm peers"
  have ok: "peers_ok (fst ?a)" using assms(1) by (simp add: hash_ok_def hash_put_peers_ok)
  then have "card (fst ` set (fst ?a)) = length (fst ?a)"
    using distinct_card [of "map fst (fst ?a)"] by (simp add: peers_ok_def)
  then show ?thesis
    using hash_evict_length [of "fst ?a" pord "hs_id h" maxPeersPerHash "snd ?a", OF ok ord]
    by (simp add: hash_update_eq Let_def hash_put_peers_keys)
qed

lemma hash_update_keys:
  "fst ` set (hs_peers (fst (hash_update pord h peers rm))) \<subseteq> fst ` set (hs_peers h) \<union> ap_ip ` set peers"
  using hash_put_peers_keys [of "hs_id h" "hs_peers h" rm peers]
  by (auto simp: hash_update_eq Let_def hash_evict_peers)

lemma new_hash_keys:
  "fst ` set (hs_peers (fst (new_hash now i peers rm))) = ap_ip ` set peers"
  using hash_put_peers_keys [of i "[]" rm peers]
  by (cases "hash_put_peers i [] rm peers") (simp add: new_hash_def)

lemma oldest_not_older:
  assumes "sorted (map f xs)" "x \<in> set (take k xs)" "y \<in> set (drop k xs)"
  shows "f x \<le> f y"
proof -
  have "sorted (map f (take k xs) @ map f (drop k xs))"
    using assms(1) by (simp flip: map_append)
  then show ?thesis using assms(2,3) by (auto simp: sorted_append)
qed

text \<open>What \<open>PutNode\<close> does to the stored nodes.\<close>

lemma PutNode_cases:
  assumes ok: "table_ok t" and i: "wf_id i" and addr: "addr_port_IsValid addr"
  obtains
    (rejected) "PutNode_exec e i addr opts t = Some (t, PutRejected)" "keyspace_get (tb_nodes t) i = None"
  | (accepted) ks' where "PutNode_exec e i addr opts t = Some (t\<lparr>tb_nodes := ks'\<rparr>, PutAccepted)"
      "keyspace_get (tb_nodes t) i = None"
      "keyspace_get ks' = (keyspace_get (tb_nodes t))
         (i \<mapsto> fold (node_apply (fst e)) opts (fst (new_node (fst e) i addr (tb_addrs t))))"
  | (exists) ks' n where "keyspace_get (tb_nodes t) i = Some n" "nd_id n = i"
      "PutNode_exec e i addr opts t =
         Some (t\<lparr>tb_nodes := ks', tb_addrs := snd (node_update n addr (tb_addrs t))\<rparr>, PutAlreadyExists)"
      "keyspace_get ks' = (keyspace_get (tb_nodes t))
         (i \<mapsto> fold (node_apply (fst e)) opts (n\<lparr>nd_addr := addr\<rparr>))"
proof -
  have ks: "ks_ok nd_id (\<lambda>_. True) (tb_nodes t)" using ok by (simp add: table_ok_def)
  show thesis
  proof (cases rule: nodes.put_cases [OF ks i, of "fst e" "fst e" "tb_addrs t" addr opts])
    case 1
    with addr show thesis by (intro rejected) (simp_all add: PutNode_exec_def keyspace_get_def)
  next
    case (2 ks')
    show thesis
      by (rule accepted [of ks'])
         (use 2 addr in \<open>simp_all add: PutNode_exec_def keyspace_get_def [abs_def] new_node_def\<close>)
  next
    case (3 ks' n)
    show thesis
      by (rule exists [of n ks'])
         (use 3 addr ks_ok_item [OF ks 3(1)] in
           \<open>simp_all add: PutNode_exec_def keyspace_get_def [abs_def] node_update_def\<close>)
  qed
qed

text \<open>A table with one node, for the witnesses.\<close>

lemma DropNode_find:
  assumes ok: "table_ok t" and i: "wf_id i"
  shows "\<exists>t' ok. DropNode_exec i reason t = Some (t', ok) \<and> (ok \<longleftrightarrow> keyspace_get (tb_nodes t) i \<noteq> None) \<and>
    keyspace_get (tb_nodes t') = (keyspace_get (tb_nodes t))(i := None)"
proof -
  have ks: "ks_ok nd_id (\<lambda>_. True) (tb_nodes t)" using ok by (simp add: table_ok_def)
  show ?thesis
    by (cases rule: nodes.drop_cases [OF ks i, of "\<lambda>n r rm. snd (node_drop n r rm)" "tb_addrs t" reason])
       (simp_all add: DropNode_exec_def keyspace_get_def [abs_def] ex_bool_eq fun_upd_idem)
qed

lemma btree_Put_first:
  assumes "length i = length origin" "i \<noteq> origin" "0 < k"
  shows "\<exists>n'. btree_Put (btree_New origin k s) i = Some (n', PutAccepted)"
  using assms
  by (auto simp: btree_Put_def btree_New_def nodeid_MustXor_eq nodeid_Equals_iff btree_admit_def
      getBucketCount_def)

definition sample_id :: "nat \<Rightarrow> ID" where
  "sample_id n = replicate 19 0 @ [word_of_nat n]"

definition sample_addr :: "nat \<Rightarrow> addr_port" where
  "sample_addr n = \<lparr>ap_ip = IP4 [10, 0, 0, word_of_nat n], ap_port = 6881\<rparr>"

lemma sample_wf [simp]: "wf_id (sample_id n)" "wf_id zero_id" "addr_port_IsValid (sample_addr n)"
  by (simp_all add: wf_id_def sample_id_def zero_id_def addr_port_IsValid_def sample_addr_def)

lemma env_ok_id [simp]: "env_ok (now, \<lambda>xs. xs)"
  by (simp add: env_ok_def)

lemma sample_table:
  obtains t n where "table_ok t" "keyspace_get (tb_nodes t) = [sample_id 1 \<mapsto> n]"
    "nd_addr n = sample_addr 1" "nd_lastRespondedAt n = 7" "nd_id n = sample_id 1"
    "PutNode_exec (7, \<lambda>xs. xs) (sample_id 1) (sample_addr 1) [NodeResponded] (ktable_New zero_id) =
       Some (t, PutAccepted)"
proof -
  let ?t = "ktable_New zero_id" and ?i = "sample_id 1" and ?e = "(7, \<lambda>xs. xs) :: env"
  let ?put = "PutNode_exec ?e ?i (sample_addr 1) [NodeResponded] ?t"
  note ok = table_ok_New [OF sample_wf(2)]
  have "last ?i \<noteq> last zero_id" by (simp add: sample_id_def zero_id_def)
  then have new: "?i \<noteq> zero_id" "length ?i = length zero_id"
    by metis (simp add: sample_id_def zero_id_def)
  have none: "keyspace_get (tb_nodes ?t) = Map.empty"
    by (simp add: keyspace_get_def [abs_def] ktable_New_def newKeyspace_def)
  from PutNode_ok [OF ok sample_wf(1)] obtain t r where t: "?put = Some (t, r)" "table_ok t" by blast
  from btree_Put_first [OF new(2,1), of nodesK True] have "r \<noteq> PutRejected"
    using t(1) by (auto simp: PutNode_exec_def ktable_New_def newKeyspace_def nodesK_def keyspace_put_def
        new_node_def split: prod.splits)
  with t none have r: "r = PutAccepted"
    by (cases rule: PutNode_cases [OF ok sample_wf(1) [of 1] sample_wf(3) [of 1], of ?e "[NodeResponded]"]) auto
  show thesis
  proof (cases rule: PutNode_cases [OF ok sample_wf(1) [of 1] sample_wf(3) [of 1], of ?e "[NodeResponded]"])
    case (2 ks')
    with t r none show thesis
      by (intro that [of t "fst (new_node 7 ?i (sample_addr 1) (tb_addrs ?t))\<lparr>nd_lastRespondedAt := 7\<rparr>"])
         (auto simp: new_node_def)
  qed (use t r none in auto)
qed

section \<open>Properties\<close>

text \<open>C5. Whatever commands arrive in whatever order, with whatever times and map iteration
orders, no command on the table panics: the tree and the items always hold the same
identifiers, every item carries its own identifier, and the reverse map only says what is
true.\<close>

theorem BatchCommand_safe:
  assumes "wf_id origin" "\<forall>(e, c) \<in> set cs. env_ok e \<and> wf_id (command_id c)"
  shows "\<exists>t. BatchCommand cs (ktable_New origin) = Some t \<and> table_ok t"
  by (rule BatchCommand_ok [OF table_ok_New [OF assms(1)] assms(2)])

theorem BatchCommand_safe_witness:
  "\<exists>t. BatchCommand [((1, \<lambda>xs. xs), PutNode (sample_id 1) (sample_addr 1) [NodeResponded]),
                   ((2, \<lambda>xs. xs), PutHash (sample_id 2) [sample_addr 1]),
                   ((3, \<lambda>xs. xs), DropNode (sample_id 1) None)] (ktable_New zero_id) = Some t \<and>
       table_ok t"
  by (rule BatchCommand_safe) auto

text \<open>\<open>FilterKnownAddrs\<close> keeps the unknown addresses in their order, and an address it
leaves out is the address of a stored node or of a peer of a stored hash.\<close>

theorem FilterKnownAddrs_sound:
  assumes "table_ok t"
  shows "FilterKnownAddrs addrs t = filter (\<lambda>a. a \<in> set (FilterKnownAddrs addrs t)) addrs \<and>
    (\<forall>a \<in> set addrs - set (FilterKnownAddrs addrs t). (\<exists>i. node_at t i a) \<or> (\<exists>h. hash_at t h a))"
proof -
  have "filter (\<lambda>a. a \<in> set (FilterKnownAddrs addrs t)) addrs = filter (\<lambda>a. tb_addrs t a = None) addrs"
    by (rule filter_cong) (auto simp: FilterKnownAddrs_eq)
  moreover have "(\<exists>i. node_at t i a) \<or> (\<exists>h. hash_at t h a)" if "tb_addrs t a = Some info" for a info
    using assms rm_soundD [of "node_at t" "hash_at t" "tb_addrs t", OF _ that]
    by (simp add: table_ok_def)
  moreover have "\<exists>info. tb_addrs t a = Some info" if "a \<in> set addrs - set (FilterKnownAddrs addrs t)" for a
    using that by (simp add: FilterKnownAddrs_eq)
  ultimately show ?thesis by (metis FilterKnownAddrs_eq)
qed

theorem FilterKnownAddrs_sound_witness:
  "filter (\<lambda>a. a \<in> set (FilterKnownAddrs [IP4 [1, 2, 3, 4]] (ktable_New zero_id))) [IP4 [1, 2, 3, 4]] =
     FilterKnownAddrs [IP4 [1, 2, 3, 4]] (ktable_New zero_id)"
  using FilterKnownAddrs_sound [OF table_ok_New [of zero_id], of "[IP4 [1, 2, 3, 4]]"] by simp

text \<open>A node the table takes or already has is found under its identifier afterwards with
the new address, other nodes stay as they are; a rejected node leaves the table unchanged. A
node that is dropped is gone and the others stay.\<close>

theorem PutNode_then_find:
  assumes "table_ok t" "wf_id i" "addr_port_IsValid addr"
  shows "\<exists>t' r. PutNode_exec e i addr opts t = Some (t', r) \<and>
    (if r = PutRejected then t' = t \<and> keyspace_get (tb_nodes t) i = None
     else \<exists>n. GetClosestNodes i t' = Some [Some n] \<and> nd_id n = i \<and> nd_addr n = addr \<and>
          keyspace_get (tb_nodes t') = (keyspace_get (tb_nodes t))(i \<mapsto> n) \<and>
          (r = PutAccepted \<longleftrightarrow> keyspace_get (tb_nodes t) i = None)) \<and>
    (\<exists>t'' ok. DropNode_exec i reason t' = Some (t'', ok) \<and>
       (ok \<longleftrightarrow> r \<noteq> PutRejected) \<and>
       keyspace_get (tb_nodes t'') = (keyspace_get (tb_nodes t'))(i := None))"
proof -
  obtain t' r where put: "PutNode_exec e i addr opts t = Some (t', r)" and ok': "table_ok t'"
    using PutNode_ok [OF assms(1,2)] by blast
  let ?find = "\<lambda>n. nd_id n = i \<and> nd_addr n = addr \<and>
          keyspace_get (tb_nodes t') = (keyspace_get (tb_nodes t))(i \<mapsto> n) \<and>
          (r = PutAccepted \<longleftrightarrow> keyspace_get (tb_nodes t) i = None)"
  have find: "if r = PutRejected then t' = t \<and> keyspace_get (tb_nodes t) i = None else \<exists>n. ?find n"
  proof (cases rule: PutNode_cases [OF assms, of e opts])
    case 1
    with put show ?thesis by simp
  next
    case (2 ks'')
    let ?n = "fold (node_apply (fst e)) opts (fst (new_node (fst e) i addr (tb_addrs t)))"
    have "?find ?n" using 2 put by (simp add: node_fold_addr nodes.fold_app_law) (simp add: new_node_def)
    with 2 put show ?thesis by auto
  next
    case (3 ks'' n)
    let ?n = "fold (node_apply (fst e)) opts (n\<lparr>nd_addr := addr\<rparr>)"
    have "?find ?n" using 3 put by (simp add: node_fold_addr nodes.fold_app_law)
    with 3 put show ?thesis by auto
  qed
  have closest: "GetClosestNodes i t' = Some [Some n]" if "keyspace_get (tb_nodes t') i = Some n" for n
    using that by (simp add: GetClosestNodes_def keyspace_get_def getClosest_stored)
  have "\<exists>t'' ok. DropNode_exec i reason t' = Some (t'', ok) \<and>
      (ok \<longleftrightarrow> keyspace_get (tb_nodes t') i \<noteq> None) \<and>
      keyspace_get (tb_nodes t'') = (keyspace_get (tb_nodes t'))(i := None)"
    by (rule DropNode_find [OF ok' assms(2)])
  moreover have "keyspace_get (tb_nodes t') i \<noteq> None \<longleftrightarrow> r \<noteq> PutRejected"
    using find by (cases "r = PutRejected") auto
  ultimately have drop: "\<exists>t'' ok. DropNode_exec i reason t' = Some (t'', ok) \<and> (ok \<longleftrightarrow> r \<noteq> PutRejected) \<and>
      keyspace_get (tb_nodes t'') = (keyspace_get (tb_nodes t'))(i := None)" by simp
  have "if r = PutRejected then t' = t \<and> keyspace_get (tb_nodes t) i = None
      else \<exists>n. GetClosestNodes i t' = Some [Some n] \<and> ?find n"
  proof (cases "r = PutRejected")
    case False
    then obtain n where "?find n" using find by auto
    moreover from this have "GetClosestNodes i t' = Some [Some n]" by (intro closest) simp
    ultimately show ?thesis using False by auto
  qed (use find in simp)
  then show ?thesis by (intro exI [of _ t', OF exI [of _ r]] conjI put drop)
qed

theorem PutNode_then_find_witness:
  "\<exists>t' r. PutNode_exec (5, \<lambda>xs. xs) (sample_id 1) (sample_addr 1) [NodeResponded] (ktable_New zero_id) =
     Some (t', r) \<and> (\<exists>t'' ok. DropNode_exec (sample_id 1) None t' = Some (t'', ok))"
proof -
  note ok = table_ok_New [OF sample_wf(2)]
  from PutNode_then_find [OF ok sample_wf(1,3), of "(5, \<lambda>xs. xs)" 1 1 "[NodeResponded]" None]
  show ?thesis by blast
qed

text \<open>For an identifier that is not stored, \<open>GetClosestNodes\<close> returns eight different
stored nodes, or all of them if there are fewer, and no stored node left out shares a longer
prefix with the identifier than one returned.\<close>

theorem GetClosestNodes_nearest:
  assumes "table_ok t" "wf_id i" "keyspace_get (tb_nodes t) i = None"
  shows "\<exists>ns. GetClosestNodes i t = Some (map Some ns) \<and> distinct (map nd_id ns) \<and>
    length ns = min 8 (keyspace_count (tb_nodes t)) \<and>
    (\<forall>n \<in> set ns. keyspace_get (tb_nodes t) (nd_id n) = Some n) \<and>
    (\<forall>n \<in> set ns. \<forall>j. j \<notin> nd_id ` set ns \<longrightarrow> keyspace_get (tb_nodes t) j \<noteq> None \<longrightarrow>
       bucket_of (int160_Xor j i) \<le> bucket_of (int160_Xor (nd_id n) i))"
proof -
  have ks: "ks_ok nd_id (\<lambda>_. True) (tb_nodes t)" using assms(1) by (simp add: table_ok_def)
  let ?m = "map_of (ks_items (tb_nodes t))"
  obtain xs where xs: "keyspace_getClosest (tb_nodes t) i = Some (map ?m xs)" "distinct xs"
    "set xs \<subseteq> dom ?m" "length xs = min 8 (keyspace_count (tb_nodes t))"
    "\<And>a b. a \<in> set xs \<Longrightarrow> b \<in> dom ?m - set xs \<Longrightarrow> bucket_of (int160_Xor b i) \<le> bucket_of (int160_Xor a i)"
    using getClosest_other [OF ks assms(2)] assms(3) by (auto simp: keyspace_get_def)
  let ?ns = "map (\<lambda>x. the (?m x)) xs"
  have item: "?m x = Some (the (?m x)) \<and> nd_id (the (?m x)) = x" if "x \<in> set xs" for x
    using that xs(3) ks_ok_item [OF ks, of x] by auto
  then have ids: "map nd_id ?ns = xs" by (simp add: map_idI)
  have "map ?m xs = map Some ?ns" using item by simp
  with xs item ids show ?thesis
    by (intro exI [of _ ?ns]) (auto simp: GetClosestNodes_def keyspace_get_def image_image)
qed

theorem GetClosestNodes_nearest_witness:
  "\<exists>t n. keyspace_get (tb_nodes t) (sample_id 1) = Some n \<and>
     (\<exists>ns. GetClosestNodes (sample_id 3) t = Some (map Some ns) \<and> set ns \<subseteq> {n})"
proof -
  obtain t n where t: "table_ok t" "keyspace_get (tb_nodes t) = [sample_id 1 \<mapsto> n]" by (rule sample_table)
  then have "keyspace_get (tb_nodes t) (sample_id 3) = None" by (simp add: sample_id_def)
  from GetClosestNodes_nearest [OF t(1) sample_wf(1) this] obtain ns where
    "GetClosestNodes (sample_id 3) t = Some (map Some ns)"
    "\<forall>n \<in> set ns. keyspace_get (tb_nodes t) (nd_id n) = Some n" by blast
  with t show ?thesis by (intro exI [of _ t] exI [of _ n]) (auto split: if_splits)
qed

text \<open>\<open>GetOldestNodes\<close> returns stored nodes that last responded before the cutoff, oldest
first, all of them or \<open>n\<close>; a node that qualifies and is left out is not older than one
returned.\<close>

theorem GetOldestNodes_oldest:
  fixes cutoff k :: int
  assumes "table_ok t" "mset (ord (ks_items (tb_nodes t))) = mset (ks_items (tb_nodes t))"
  defines "old \<equiv> {n. keyspace_get (tb_nodes t) (nd_id n) = Some n \<and> nd_lastRespondedAt n < cutoff}"
    and "ns \<equiv> GetOldestNodes ord cutoff k t"
  shows "set ns \<subseteq> old \<and> sorted (map nd_lastRespondedAt ns) \<and>
    length ns = (if 0 < k then min (nat k) (card old) else card old) \<and>
    (\<forall>n \<in> old - set ns. \<forall>m \<in> set ns. nd_lastRespondedAt m \<le> nd_lastRespondedAt n)"
proof -
  let ?items = "ks_items (tb_nodes t)"
  let ?l = "sort_key nd_lastRespondedAt (getLastRespondedBefore ord (tb_nodes t) cutoff)"
  have ks: "ks_ok nd_id (\<lambda>_. True) (tb_nodes t)" using assms(1) by (simp add: table_ok_def)
  have set: "set (ord ?items) = set ?items" using assms(2) by (metis set_mset_mset)
  have sl: "set ?l = old"
    by (auto simp: old_def getLastRespondedBefore_def set ks_get_items [OF ks])
  have "map fst ?items = map nd_id (map snd ?items)" using ks by (auto simp: ks_ok_def)
  moreover have "distinct (map fst ?items)" using ks by (simp add: ks_ok_def)
  ultimately have "distinct (map nd_id (map snd ?items))" by (rule subst)
  then have "distinct (map snd ?items)" by (simp only: distinct_map)
  then have "distinct (map snd (ord ?items))"
    using assms(2) by (metis mset_eq_imp_distinct_iff mset_map)
  then have dl: "distinct ?l" by (simp add: getLastRespondedBefore_def)
  then have len: "length ?l = card old" using distinct_card [OF dl] sl by simp
  have ns: "ns = (if 0 < k then take (nat k) ?l else ?l)"
    using take_all [of ?l "nat k"] by (auto simp: ns_def GetOldestNodes_def Let_def)
  have sorted: "sorted (map nd_lastRespondedAt ?l)" by simp
  have split: "set ?l = set (take (nat k) ?l) \<union> set (drop (nat k) ?l)"
    by (metis append_take_drop_id set_append)
  have "nd_lastRespondedAt m \<le> nd_lastRespondedAt n" if "n \<in> old - set ns" "m \<in> set ns" for n m
    using oldest_not_older [OF sorted, of m "nat k" n] that split sl by (auto simp: ns split: if_splits)
  moreover have "sorted (map nd_lastRespondedAt ns)" using sorted by (simp add: ns flip: take_map)
  moreover have "set ns \<subseteq> old" using sl by (auto simp: ns dest: in_set_takeD)
  ultimately show ?thesis using len by (auto simp: ns)
qed

theorem GetOldestNodes_oldest_witness:
  "\<exists>t n. keyspace_get (tb_nodes t) (sample_id 1) = Some n \<and> length (GetOldestNodes (\<lambda>xs. xs) 9 5 t) = 1"
proof -
  obtain t n where t: "table_ok t" "keyspace_get (tb_nodes t) = [sample_id 1 \<mapsto> n]"
    "nd_lastRespondedAt n = 7" "nd_id n = sample_id 1" by (rule sample_table)
  have "{m. keyspace_get (tb_nodes t) (nd_id m) = Some m \<and> nd_lastRespondedAt m < 9} = {n}"
    using t by (auto split: if_splits)
  then have "length (GetOldestNodes (\<lambda>xs. xs) 9 5 t) = 1"
    using GetOldestNodes_oldest [OF t(1), of "\<lambda>xs. xs" 9 5] by simp
  then show ?thesis using t(2) by (intro exI [of _ t, OF exI [of _ n]]) simp
qed

text \<open>Putting a hash: a rejected one changes nothing, a stored one keeps at most 30 peers
(all of the old and new ones up to that, no other), but a new hash keeps every address it came
with, with no bound.\<close>

theorem PutHash_peers:
  assumes "table_ok t" "wf_id i" "env_ok e"
  shows "\<exists>t' r. PutHash_exec e i peers t = Some (t', r) \<and>
    (case r of
       PutRejected \<Rightarrow> t' = t
     | PutAccepted \<Rightarrow> keyspace_get (tb_hashes t) i = None \<and>
         (\<exists>h. keyspace_get (tb_hashes t') i = Some h \<and> fst ` set (hs_peers h) = ap_ip ` set peers)
     | PutAlreadyExists \<Rightarrow> (\<exists>h h'. keyspace_get (tb_hashes t) i = Some h \<and>
         keyspace_get (tb_hashes t') i = Some h' \<and>
         fst ` set (hs_peers h') \<subseteq> fst ` set (hs_peers h) \<union> ap_ip ` set peers \<and>
         length (hs_peers h') = min 30 (card (fst ` set (hs_peers h) \<union> ap_ip ` set peers))))"
proof -
  have hs: "ks_ok hs_id hash_ok (tb_hashes t)" using assms(1) by (simp add: table_ok_def)
  show ?thesis
  proof (cases rule: hashes.put_cases [OF hs assms(2), of "fst e" "snd e" "tb_addrs t" peers "[]"])
    case 1
    then show ?thesis
      by (intro exI [of _ t, OF exI [of _ PutRejected]]) (simp add: PutHash_exec_def)
  next
    case (2 ks')
    let ?t = "t\<lparr>tb_hashes := ks', tb_addrs := snd (new_hash (fst e) i peers (tb_addrs t))\<rparr>"
    from 2 show ?thesis
      by (intro exI [of _ ?t, OF exI [of _ PutAccepted]])
         (simp add: PutHash_exec_def keyspace_get_def new_hash_keys)
  next
    case (3 ks' h)
    let ?t = "t\<lparr>tb_hashes := ks', tb_addrs := snd (hash_update (snd e) h peers (tb_addrs t))\<rparr>"
    have "hash_ok h" using ks_ok_item [OF hs 3(1)] by simp
    then have "length (hs_peers (fst (hash_update (snd e) h peers (tb_addrs t)))) =
        min 30 (card (fst ` set (hs_peers h) \<union> ap_ip ` set peers))"
      using hash_update_length [of h "snd e" peers "tb_addrs t"] assms(3)
      by (simp add: env_ok_def maxPeersPerHash_def)
    with 3 hash_update_keys [of "snd e" h peers "tb_addrs t"] show ?thesis
      by (intro exI [of _ ?t, OF exI [of _ PutAlreadyExists]])
         (simp add: PutHash_exec_def keyspace_get_def)
  qed
qed

theorem PutHash_peers_witness:
  "\<exists>t' r. PutHash_exec (7, rev) (sample_id 1) [sample_addr 1] (ktable_New zero_id) = Some (t', r)"
proof -
  have "env_ok (7, rev)" by (simp add: env_ok_def)
  from PutHash_peers [OF table_ok_New [OF sample_wf(2)] sample_wf(1) this, of 1 "[sample_addr 1]"]
  show ?thesis by blast
qed

text \<open>\<open>SampleHashesAndNodes\<close> returns up to 20 different stored hashes, fills up with
different stored nodes to at most 40 items, and reports the number of stored hashes.\<close>

theorem SampleHashesAndNodes_sizes:
  assumes "table_ok t" "mset (hord (ks_items (tb_hashes t))) = mset (ks_items (tb_hashes t))"
    "mset (nord (ks_items (tb_nodes t))) = mset (ks_items (tb_nodes t))"
  defines "s \<equiv> SampleHashesAndNodes hord nord t"
  shows "length (sr_hashes s) = min 20 (sr_totalHashes s) \<and>
    length (sr_nodes s) = min (40 - length (sr_hashes s)) (keyspace_count (tb_nodes t)) \<and>
    sr_totalHashes s = card (dom (keyspace_get (tb_hashes t))) \<and>
    distinct (map hs_id (sr_hashes s)) \<and> distinct (map nd_id (sr_nodes s)) \<and>
    (\<forall>h \<in> set (sr_hashes s). keyspace_get (tb_hashes t) (hs_id h) = Some h) \<and>
    (\<forall>n \<in> set (sr_nodes s). keyspace_get (tb_nodes t) (nd_id n) = Some n)"
proof -
  have ks: "ks_ok nd_id (\<lambda>_. True) (tb_nodes t)" "ks_ok hs_id hash_ok (tb_hashes t)"
    using assms(1) by (simp_all add: table_ok_def)
  have "card (fst ` set (ks_items (tb_hashes t))) = keyspace_count (tb_hashes t)"
    using ks(2) by (simp add: ks_ok_def keyspace_count_def) (metis distinct_card length_map list.set_map)
  then have tot: "keyspace_count (tb_hashes t) = card (dom (keyspace_get (tb_hashes t)))"
    by (simp add: keyspace_get_def [abs_def] dom_map_of_conv_image_fst)
  show ?thesis
    using tot getRandom_sample [OF ks(2), where ord = hord and n = 20, OF assms(2)]
      getRandom_sample [OF ks(1), where ord = nord and n = "40 - length (sr_hashes s)", OF assms(3)]
    by (simp add: s_def SampleHashesAndNodes_def Let_def)
qed

theorem SampleHashesAndNodes_sizes_witness:
  "\<exists>t n. keyspace_get (tb_nodes t) (sample_id 1) = Some n \<and>
     set (sr_nodes (SampleHashesAndNodes rev rev t)) \<subseteq> {n}"
proof -
  obtain t n where t: "table_ok t" "keyspace_get (tb_nodes t) = [sample_id 1 \<mapsto> n]" by (rule sample_table)
  with SampleHashesAndNodes_sizes [OF t(1), of rev rev]
  have "m = n" if "m \<in> set (sr_nodes (SampleHashesAndNodes rev rev t))" for m
    using that by (auto split: if_splits)
  then show ?thesis using t(2) by (intro exI [of _ t, OF exI [of _ n]]) auto
qed

text \<open>The address of a node the table has just accepted is not recorded: a filter for known
addresses answers as before. Only a second \<open>PutNode\<close> of the same node records it.\<close>

theorem PutNode_new_address_unknown:
  assumes "table_ok t" "wf_id i" "addr_port_IsValid addr"
    and "PutNode_exec e i addr opts t = Some (t', r)"
  shows "(r = PutAccepted \<longrightarrow> FilterKnownAddrs addrs t' = FilterKnownAddrs addrs t) \<and>
    (r = PutAlreadyExists \<longrightarrow> FilterKnownAddrs [ap_ip addr] t' = [])"
  by (cases rule: PutNode_cases [OF assms(1-3), of e opts])
     (use assms(4) in \<open>auto simp: FilterKnownAddrs_eq node_update_def putAddrPeerID_def Let_def
       split: option.splits\<close>)

theorem PutNode_new_address_unknown_witness:
  "\<exists>t n. keyspace_get (tb_nodes t) (sample_id 1) = Some n \<and> nd_addr n = sample_addr 1 \<and>
     FilterKnownAddrs [ap_ip (sample_addr 1)] t = [ap_ip (sample_addr 1)]"
proof -
  obtain t n where t: "keyspace_get (tb_nodes t) = [sample_id 1 \<mapsto> n]" "nd_addr n = sample_addr 1"
    "PutNode_exec (7, \<lambda>xs. xs) (sample_id 1) (sample_addr 1) [NodeResponded] (ktable_New zero_id) =
       Some (t, PutAccepted)" by (rule sample_table)
  have "FilterKnownAddrs [ap_ip (sample_addr 1)] t = [ap_ip (sample_addr 1)]"
    using PutNode_new_address_unknown [OF table_ok_New [OF sample_wf(2)] sample_wf(1,3) t(3)]
    by (simp add: ktable_New_def)
  with t show ?thesis by (intro exI [of _ t, OF exI [of _ n]]) simp
qed

end
