(* ===== verification/DhtMsg.thy ===== *)
theory DhtMsg
  imports KTable
begin

text \<open>
  DHT messages (\<open>internal/protocol/dht\<close>): node addresses and node infos with their compact
  binary forms (\<open>nodeaddr.go\<close>, \<open>nodeinfo.go\<close>), the compact lists of a response
  (\<open>msg.go\<close>), the announced port (\<open>dht.go\<close>), KRPC errors (\<open>error.go\<close>) and the scrape
  bloom filter (\<open>scrape.go\<close>).

  A \<open>net.IP\<close> is its byte slice. The reflection in \<open>unmarshalBinarySlice\<close> and
  \<open>marshalBinarySlice\<close> picks the element's own methods, which are the arguments \<open>dec\<close> and
  \<open>enc\<close> of the model. The bencode library is a parameter. A decoder returns an \<open>outcome\<close>:
  a value, an error or a panic.
\<close>

section \<open>Clamping (utils/clamp.go)\<close>

definition ClampUint16 :: "int \<Rightarrow> 16 word" where
  "ClampUint16 v = (if v > 65535 then 65535 else if v < 0 then 0 else word_of_int v)"

definition ClampUint8 :: "int \<Rightarrow> 8 word" where
  "ClampUint8 v = (if v > 255 then 255 else if v < 0 then 0 else word_of_int v)"

lemma ClampUint16_uint: "uint (ClampUint16 v) = max 0 (min 65535 v)"
  by (auto simp: ClampUint16_def max_def min_def unsigned_of_int take_bit_int_eq_self)

section \<open>nodeaddr.go\<close>

record node_addr =
  na_IP :: bytes
  na_Port :: int

definition addr_from_slice :: "bytes \<Rightarrow> ip_addr" where
  "addr_from_slice b = (if length b = 4 then IP4 b else if length b = 16 then IP6 b [] else NoIP)"

fun addr_as_slice :: "ip_addr \<Rightarrow> bytes" where
  "addr_as_slice NoIP = []"
| "addr_as_slice (IP4 b) = b"
| "addr_as_slice (IP6 b zone) = b"

definition ToAddrPort :: "node_addr \<Rightarrow> addr_port" where
  "ToAddrPort a = \<lparr>ap_ip = addr_from_slice (na_IP a), ap_port = uint (ClampUint16 (na_Port a))\<rparr>"

definition NewNodeAddrFromAddrPort :: "addr_port \<Rightarrow> node_addr" where
  "NewNodeAddrFromAddrPort f = \<lparr>na_IP = addr_as_slice (ap_ip f), na_Port = ap_port f\<rparr>"

text \<open>Big-endian 16 bit numbers, as \<open>encoding/binary\<close> writes and reads them.\<close>

definition put_uint16 :: "16 word \<Rightarrow> bytes" where
  "put_uint16 w = [word_of_nat (unat w div 256), word_of_nat (unat w mod 256)]"

definition get_uint16 :: "bytes \<Rightarrow> nat" where
  "get_uint16 b = unat (b ! 0) * 256 + unat (b ! 1)"

definition NodeAddr_UnmarshalBinary :: "bytes \<Rightarrow> node_addr option" where
  "NodeAddr_UnmarshalBinary b =
     (if length b < 2 then None
      else Some \<lparr>na_IP = take (length b - 2) b, na_Port = int (get_uint16 (drop (length b - 2) b))\<rparr>)"

definition NodeAddr_MarshalBinary :: "node_addr \<Rightarrow> bytes" where
  "NodeAddr_MarshalBinary a = na_IP a @ put_uint16 (word_of_int (na_Port a))"

text \<open>\<open>net.IP.To4\<close>: nil (no bytes) unless the address is IPv4 or IPv4 mapped into IPv6.\<close>

definition ip_To4 :: "bytes \<Rightarrow> bytes" where
  "ip_To4 ip =
     (if length ip = 4 then ip
      else if length ip = 16 \<and> take 12 ip = replicate 10 0 @ [255, 255] then drop 12 ip else [])"

section \<open>nodeinfo.go\<close>

record node_info =
  ni_ID :: ID
  ni_Addr :: node_addr

definition NodeInfo_MarshalBinary :: "node_info \<Rightarrow> bytes" where
  "NodeInfo_MarshalBinary ni =
     ni_ID ni @ na_IP (ni_Addr ni) @ put_uint16 (word_of_int (na_Port (ni_Addr ni)))"

definition NodeInfo_UnmarshalBinary :: "bytes \<Rightarrow> (string, node_info) outcome" where
  "NodeInfo_UnmarshalBinary b =
     (if length b < 20 then Panic
      else (case NodeAddr_UnmarshalBinary (drop 20 b) of
              None \<Rightarrow> Panic
            | Some a \<Rightarrow> Ret \<lparr>ni_ID = take 20 b, ni_Addr = a\<rparr>))"

datatype elem_kind = CompactIPv4NodeInfo | CompactIPv6NodeInfo | CompactInfohashes

fun ElemSize :: "elem_kind \<Rightarrow> nat" where
  "ElemSize CompactIPv4NodeInfo = 26"
| "ElemSize CompactIPv6NodeInfo = 38"
| "ElemSize CompactInfohashes = 20"

lemma ElemSize_pos [simp]: "0 < ElemSize k"
  by (cases k) simp_all

text \<open>
  \<open>unmarshalBinarySlice\<close> appends to the receiver's slice, so on an error the elements read so
  far stay: the result is the slice and the error.
\<close>

datatype codec_error = TrailingBytes nat nat | ElemError string

function unmarshalBinarySlice ::
  "elem_kind \<Rightarrow> (bytes \<Rightarrow> (string, 'a) outcome) \<Rightarrow> 'a list \<Rightarrow> bytes \<Rightarrow> ('a list \<times> codec_error option) option" where
  "unmarshalBinarySlice k dec acc b =
     (if b = [] then Some (acc, None)
      else if length b < ElemSize k then Some (acc, Some (TrailingBytes (length b) (ElemSize k)))
      else (case dec (take (ElemSize k) b) of
              Panic \<Rightarrow> None
            | Fail e \<Rightarrow> Some (acc, Some (ElemError e))
            | Ret x \<Rightarrow> unmarshalBinarySlice k dec (acc @ [x]) (drop (ElemSize k) b)))"
  by pat_completeness auto
termination by (relation "measure (\<lambda>(k, dec, acc, b). length b)") auto

declare unmarshalBinarySlice.simps [simp del]

fun marshalBinarySlice :: "elem_kind \<Rightarrow> ('a \<Rightarrow> bytes) \<Rightarrow> 'a list \<Rightarrow> bytes option" where
  "marshalBinarySlice k enc [] = Some []"
| "marshalBinarySlice k enc (e # es) =
     (let b = enc e in
      if length b \<noteq> ElemSize k then None
      else map_option (\<lambda>ret. b @ ret) (marshalBinarySlice k enc es))"

definition with_To4 :: "node_info \<Rightarrow> node_info" where
  "with_To4 ni = ni\<lparr>ni_Addr := (ni_Addr ni)\<lparr>na_IP := ip_To4 (na_IP (ni_Addr ni))\<rparr>\<rparr>"

definition CompactIPv4_MarshalBinary :: "node_info list \<Rightarrow> bytes option" where
  "CompactIPv4_MarshalBinary nis =
     marshalBinarySlice CompactIPv4NodeInfo NodeInfo_MarshalBinary (map with_To4 nis)"

definition CompactIPv4_UnmarshalBinary :: "bytes \<Rightarrow> (node_info list \<times> codec_error option) option" where
  "CompactIPv4_UnmarshalBinary b = unmarshalBinarySlice CompactIPv4NodeInfo NodeInfo_UnmarshalBinary [] b"

definition CompactIPv6_MarshalBinary :: "node_info list \<Rightarrow> bytes option" where
  "CompactIPv6_MarshalBinary nis = marshalBinarySlice CompactIPv6NodeInfo NodeInfo_MarshalBinary nis"

definition CompactIPv6_UnmarshalBinary :: "bytes \<Rightarrow> (node_info list \<times> codec_error option) option" where
  "CompactIPv6_UnmarshalBinary b = unmarshalBinarySlice CompactIPv6NodeInfo NodeInfo_UnmarshalBinary [] b"

text \<open>The elements of \<open>CompactInfohashes\<close> are identifiers, which check their own length.\<close>

definition ID_decode :: "bytes \<Rightarrow> (string, ID) outcome" where
  "ID_decode b = (case id_UnmarshalBinary zero_id b of Inl e \<Rightarrow> Fail ''invalid ID length'' | Inr i \<Rightarrow> Ret i)"

definition Infohashes_MarshalBinary :: "ID list \<Rightarrow> bytes option" where
  "Infohashes_MarshalBinary hs = marshalBinarySlice CompactInfohashes id_MarshalBinary hs"

definition Infohashes_UnmarshalBinary :: "bytes \<Rightarrow> (ID list \<times> codec_error option) option" where
  "Infohashes_UnmarshalBinary b = unmarshalBinarySlice CompactInfohashes ID_decode [] b"

section \<open>msg.go and dht.go\<close>

definition QPing :: string where "QPing = ''ping''"
definition QFindNode :: string where "QFindNode = ''find_node''"
definition QGetPeers :: string where "QGetPeers = ''get_peers''"
definition QAnnouncePeer :: string where "QAnnouncePeer = ''announce_peer''"
definition QSampleInfohashes :: string where "QSampleInfohashes = ''sample_infohashes''"

lemmas query_names = QPing_def QFindNode_def QGetPeers_def QAnnouncePeer_def QSampleInfohashes_def

definition YQuery :: string where "YQuery = ''q''"
definition YResponse :: string where "YResponse = ''r''"
definition YError :: string where "YError = ''e''"

text \<open>The BEP 44 fields of arguments and returns are never read or set by the code and are left
out.\<close>

record msg_args =
  ma_ID :: ID
  ma_InfoHash :: ID
  ma_Target :: ID
  ma_Token :: string
  ma_Port :: "int option"
  ma_ImpliedPort :: bool
  ma_Scrape :: int

record krpc_error =
  ke_Code :: int
  ke_Msg :: string

record return_msg =
  rt_ID :: ID
  rt_Nodes :: "node_info list"
  rt_Token :: "string option"
  rt_Values :: "node_addr list"
  rt_BFsd :: "bytes option"
  rt_BFpe :: "bytes option"
  rt_Interval :: "int option"
  rt_Num :: "int option"
  rt_Samples :: "ID list option"

record msg =
  m_Q :: string
  m_A :: "msg_args option"
  m_T :: string
  m_Y :: string
  m_R :: "return_msg option"
  m_E :: "krpc_error option"

record recv_msg =
  rm_Msg :: msg
  rm_From :: addr_port

definition AnnouncePort :: "recv_msg \<Rightarrow> int" where
  "AnnouncePort m =
     (let port = ap_port (rm_From m) in
      case m_A (rm_Msg m) of
        None \<Rightarrow> port
      | Some args \<Rightarrow>
          (if \<not> ma_ImpliedPort args then
             (case ma_Port args of None \<Rightarrow> port | Some argsPort \<Rightarrow> uint (ClampUint16 argsPort))
           else port))"

section \<open>error.go\<close>

text \<open>The values \<open>bencode.Unmarshal\<close> makes for an \<open>any\<close>.\<close>

datatype bvalue = BInt int | BStr string | BList "bvalue list" | BDict "(string \<times> bvalue) list"

text \<open>A panic while the list is unpacked is recovered into an error; the code that was set
before it stays set. The result is the receiver and the error.\<close>

definition Error_unpack :: "krpc_error \<Rightarrow> bvalue \<Rightarrow> krpc_error \<times> string option" where
  "Error_unpack e v =
     (case v of
        BList (BInt c # rest) \<Rightarrow>
          (case rest of
             BStr m # _ \<Rightarrow> (e\<lparr>ke_Code := c, ke_Msg := m\<rparr>, None)
           | _ \<Rightarrow> (e\<lparr>ke_Code := c\<rparr>, Some ''unpacking''))
      | BList _ \<Rightarrow> (e, Some ''unpacking'')
      | BStr s \<Rightarrow> (e\<lparr>ke_Msg := s\<rparr>, None)
      | _ \<Rightarrow> (e, Some ''KRPC error bencode value has unexpected type''))"

definition Error_marshal :: "krpc_error \<Rightarrow> bvalue" where
  "Error_marshal e = BList [BInt (ke_Code e), BStr (ke_Msg e)]"

section \<open>scrape.go\<close>

text \<open>The filter is 256 bytes; \<open>addK\<close> gets a non-negative index, and \<open>index % m\<close> is in range.\<close>

definition bloom_m :: nat where "bloom_m = 256 * 8"

definition addK :: "bytes \<Rightarrow> nat \<Rightarrow> bytes" where
  "addK f index =
     (let i = index mod bloom_m in f[i div 8 := (f ! (i div 8)) OR push_bit (i mod 8) 1])"

definition AddIP :: "(bytes \<Rightarrow> bytes) \<Rightarrow> bytes \<Rightarrow> bytes \<Rightarrow> bytes" where
  "AddIP sha1 f ip =
     (let sum = sha1 ip;
          i1 = unat (sum ! 0) OR push_bit 8 (unat (sum ! 1));
          i2 = unat (sum ! 2) OR push_bit 8 (unat (sum ! 3)) in
      addK (addK f i1) i2)"

definition ones8 :: "byte \<Rightarrow> nat" where
  "ones8 b = length (filter (\<lambda>i. bit b i) [0..<8])"

fun countZeroes :: "bytes \<Rightarrow> nat" where
  "countZeroes [] = 0"
| "countZeroes (b # bs) = (8 - ones8 b) + countZeroes bs"

definition bloom_bit :: "bytes \<Rightarrow> nat \<Rightarrow> bool" where
  "bloom_bit f i = bit (f ! (i div 8)) (i mod 8)"

section \<open>Compact lists: a codec of fixed-size chunks\<close>

lemma get_put_uint16: "get_uint16 (put_uint16 w) = unat w"
proof -
  have "unat w < 65536" using unsigned_less [of w, where ?'a = nat] by simp
  then have "unat w div 256 < 256" "unat w mod 256 < 256" by simp_all
  then show ?thesis by (simp add: get_uint16_def put_uint16_def unat_of_nat)
qed

lemma put_uint16_length [simp]: "length (put_uint16 w) = 2"
  by (simp add: put_uint16_def)

lemma port_roundtrip:
  "0 \<le> p \<Longrightarrow> p < 65536 \<Longrightarrow> int (get_uint16 (put_uint16 (word_of_int p))) = p"
  by (simp add: get_put_uint16 unsigned_of_int take_bit_int_eq_self)

text \<open>
  The contract of an element type with its two methods (Go's \<open>encoding.BinaryMarshaler\<close> and
  \<open>BinaryUnmarshaler\<close> together with \<open>elemSizer\<close>): well-formed elements take exactly
  \<open>ElemSize\<close> bytes and decode to themselves, and decoding a chunk of that size returns.
\<close>

locale chunk_codec =
  fixes k :: elem_kind
    and enc :: "'a \<Rightarrow> bytes"
    and dec :: "bytes \<Rightarrow> (string, 'a) outcome"
    and ok :: "'a \<Rightarrow> bool"
  assumes enc_length: "ok x \<Longrightarrow> length (enc x) = ElemSize k"
    and dec_enc: "ok x \<Longrightarrow> dec (enc x) = Ret x"
    and dec_total: "length b = ElemSize k \<Longrightarrow> \<exists>x. dec b = Ret x"
begin

lemma marshal_ok:
  "\<forall>x \<in> set xs. ok x \<Longrightarrow>
     marshalBinarySlice k enc xs = Some (concat (map enc xs)) \<and>
     length (concat (map enc xs)) = ElemSize k * length xs"
  by (induction xs) (simp_all add: enc_length)

lemma unmarshal_prefix:
  "\<forall>x \<in> set xs. ok x \<Longrightarrow>
     unmarshalBinarySlice k dec acc (concat (map enc xs) @ rest) =
     unmarshalBinarySlice k dec (acc @ xs) rest"
proof (induction xs arbitrary: acc)
  case (Cons x xs)
  have len: "length (enc x) = ElemSize k" using Cons.prems by (simp add: enc_length)
  then have "enc x \<noteq> []" using ElemSize_pos [of k] by (metis less_irrefl list.size(3))
  then show ?case
    using Cons len by (subst unmarshalBinarySlice.simps) (simp add: dec_enc)
qed simp

lemma unmarshal_total:
  "\<exists>xs e. unmarshalBinarySlice k dec acc b = Some (acc @ xs, e) \<and>
     length xs = length b div ElemSize k \<and>
     e = (if length b mod ElemSize k = 0 then None
          else Some (TrailingBytes (length b mod ElemSize k) (ElemSize k)))"
proof (induction "length b" arbitrary: b acc rule: less_induct)
  case less
  consider "b = []" | "b \<noteq> []" "length b < ElemSize k" | "b \<noteq> []" "ElemSize k \<le> length b" by linarith
  then show ?case
  proof cases
    case 3
    from dec_total [of "take (ElemSize k) b"] 3 obtain x where x: "dec (take (ElemSize k) b) = Ret x"
      by auto
    have "length (drop (ElemSize k) b) < length b" using 3 by simp
    from less [OF this, of "acc @ [x]"] obtain xs e where
      xs: "unmarshalBinarySlice k dec (acc @ [x]) (drop (ElemSize k) b) = Some ((acc @ [x]) @ xs, e)"
        "length xs = length (drop (ElemSize k) b) div ElemSize k"
        "e = (if length (drop (ElemSize k) b) mod ElemSize k = 0 then None
              else Some (TrailingBytes (length (drop (ElemSize k) b) mod ElemSize k) (ElemSize k)))"
      by blast
    have "unmarshalBinarySlice k dec acc b = Some (acc @ x # xs, e)"
      using 3 x xs(1) by (subst unmarshalBinarySlice.simps) simp
    moreover have "length b mod ElemSize k = length (drop (ElemSize k) b) mod ElemSize k"
      using 3 by (simp add: le_mod_geq)
    moreover have "length b div ElemSize k = Suc (length (drop (ElemSize k) b) div ElemSize k)"
      using 3 by (simp add: le_div_geq)
    ultimately show ?thesis using xs(2,3) by (intro exI [of _ "x # xs"] exI [of _ e]) simp
  qed (subst unmarshalBinarySlice.simps; simp)+
qed

lemma roundtrip:
  assumes "\<forall>x \<in> set xs. ok x"
  shows "\<exists>b. marshalBinarySlice k enc xs = Some b \<and> length b = ElemSize k * length xs \<and>
    unmarshalBinarySlice k dec [] b = Some (xs, None)"
  using marshal_ok [OF assms] unmarshal_prefix [OF assms, of "[]" "[]"]
  by (auto simp: unmarshalBinarySlice.simps [of _ _ _ "[]"])

end

definition node_info_ok :: "nat \<Rightarrow> node_info \<Rightarrow> bool" where
  "node_info_ok n ni \<longleftrightarrow> wf_id (ni_ID ni) \<and> length (na_IP (ni_Addr ni)) = n \<and>
     0 \<le> na_Port (ni_Addr ni) \<and> na_Port (ni_Addr ni) < 65536"

lemma NodeInfo_codec:
  assumes "node_info_ok n ni"
  shows "length (NodeInfo_MarshalBinary ni) = 22 + n"
    "NodeInfo_UnmarshalBinary (NodeInfo_MarshalBinary ni) = Ret ni"
  using assms
  by (simp_all add: node_info_ok_def wf_id_def NodeInfo_MarshalBinary_def NodeInfo_UnmarshalBinary_def
      NodeAddr_UnmarshalBinary_def port_roundtrip)

lemma NodeInfo_total: "22 \<le> length b \<Longrightarrow> \<exists>x. NodeInfo_UnmarshalBinary b = Ret x"
  by (simp add: NodeInfo_UnmarshalBinary_def NodeAddr_UnmarshalBinary_def)

interpretation v4: chunk_codec CompactIPv4NodeInfo NodeInfo_MarshalBinary NodeInfo_UnmarshalBinary
    "node_info_ok 4"
  by unfold_locales (use NodeInfo_codec [of 4] NodeInfo_total in auto)

interpretation v6: chunk_codec CompactIPv6NodeInfo NodeInfo_MarshalBinary NodeInfo_UnmarshalBinary
    "node_info_ok 16"
  by unfold_locales (use NodeInfo_codec [of 16] NodeInfo_total in auto)

interpretation ih: chunk_codec CompactInfohashes id_MarshalBinary ID_decode wf_id
  by unfold_locales
     (auto simp: wf_id_def id_MarshalBinary_def ID_decode_def id_UnmarshalBinary_def)

lemma To4_length: "length (ip_To4 ip) = 4 \<or> ip_To4 ip = []"
  by (auto simp: ip_To4_def)

lemma To4_ok: "length ip = 4 \<Longrightarrow> ip_To4 ip = ip"
  by (simp add: ip_To4_def)

lemma To4_v6: "length ip = 16 \<Longrightarrow> hd ip \<noteq> 0 \<Longrightarrow> ip_To4 ip = []"
proof -
  assume ip: "length ip = 16" "hd ip \<noteq> 0"
  have "hd (take 12 ip) = hd ip" by (simp add: hd_take)
  moreover have "hd (replicate 10 0 @ [255, 255 :: byte]) = 0" by (simp add: hd_append)
  ultimately have "take 12 ip \<noteq> replicate 10 0 @ [255, 255]" using ip(2) by metis
  then show ?thesis using ip(1) by (simp add: ip_To4_def)
qed

lemma marshal_None_iff:
  "marshalBinarySlice k enc xs = None \<longleftrightarrow> (\<exists>x \<in> set xs. length (enc x) \<noteq> ElemSize k)"
  by (induction xs) (auto simp: Let_def)

section \<open>The bloom filter\<close>

lemma addK_bit:
  assumes "length f = 256" "i < bloom_m"
  shows "bloom_bit (addK f index) i \<longleftrightarrow> bloom_bit f i \<or> i = index mod bloom_m"
proof -
  let ?j = "index mod bloom_m"
  have j: "?j < 2048" by (simp add: bloom_m_def)
  then have lt: "?j div 8 < length f" using assms(1) by simp
  show ?thesis
  proof (cases "i div 8 = ?j div 8")
    case True
    then have "i mod 8 = ?j mod 8 \<longleftrightarrow> i = ?j" by (metis div_mult_mod_eq)
    moreover have "i mod 8 < 8" by simp
    ultimately show ?thesis
      using True lt by (auto simp: addK_def bloom_bit_def Let_def bit_simps)
  next
    case False
    then have "i \<noteq> ?j" by auto
    then show ?thesis using False lt by (simp add: addK_def bloom_bit_def Let_def)
  qed
qed

lemma addK_length [simp]: "length (addK f i) = length f"
  by (simp add: addK_def Let_def)

section \<open>Properties\<close>

text \<open>Compact lists of IPv4 nodes, IPv6 nodes and info hashes survive encoding and decoding,
and the encoding is exactly 26, 38 or 20 bytes per element.\<close>

theorem Compact_roundtrip:
  "((\<forall>ni \<in> set v4. node_info_ok 4 ni) \<longrightarrow> (\<exists>b. CompactIPv4_MarshalBinary v4 = Some b \<and>
      length b = 26 * length v4 \<and> CompactIPv4_UnmarshalBinary b = Some (v4, None))) \<and>
   ((\<forall>ni \<in> set v6. node_info_ok 16 ni) \<longrightarrow> (\<exists>b. CompactIPv6_MarshalBinary v6 = Some b \<and>
      length b = 38 * length v6 \<and> CompactIPv6_UnmarshalBinary b = Some (v6, None))) \<and>
   ((\<forall>h \<in> set hs. wf_id h) \<longrightarrow> (\<exists>b. Infohashes_MarshalBinary hs = Some b \<and>
      length b = 20 * length hs \<and> Infohashes_UnmarshalBinary b = Some (hs, None)))"
proof -
  have "map with_To4 v4 = v4" if "\<forall>ni \<in> set v4. node_info_ok 4 ni"
    using that by (intro map_idI) (simp add: with_To4_def To4_ok node_info_ok_def)
  then show ?thesis
    using v4.roundtrip [of v4] v6.roundtrip [of v6] ih.roundtrip [of hs]
    by (simp add: CompactIPv4_MarshalBinary_def CompactIPv4_UnmarshalBinary_def
        CompactIPv6_MarshalBinary_def CompactIPv6_UnmarshalBinary_def
        Infohashes_MarshalBinary_def Infohashes_UnmarshalBinary_def)
qed

definition sample_node_info :: node_info where
  "sample_node_info = \<lparr>ni_ID = sample_id 1, ni_Addr = \<lparr>na_IP = [10, 0, 0, 1], na_Port = 6881\<rparr>\<rparr>"

theorem Compact_roundtrip_witness:
  "\<exists>b. CompactIPv4_MarshalBinary [sample_node_info] = Some b \<and> length b = 26 \<and>
     CompactIPv4_UnmarshalBinary b = Some ([sample_node_info], None)"
  using Compact_roundtrip [of "[sample_node_info]" "[]" "[]"]
  by (simp add: node_info_ok_def sample_node_info_def)

text \<open>Decoding any bytes returns: one element per full chunk, in order, and an error exactly when
bytes are left over. Encoding nodes as IPv4 panics exactly when one of them has no IPv4
address.\<close>

theorem Compact_decode_total:
  "(\<exists>nis. CompactIPv4_UnmarshalBinary b = Some (nis,
       if length b mod 26 = 0 then None else Some (TrailingBytes (length b mod 26) 26)) \<and>
     length nis = length b div 26) \<and>
   (\<exists>hs. Infohashes_UnmarshalBinary b = Some (hs,
       if length b mod 20 = 0 then None else Some (TrailingBytes (length b mod 20) 20)) \<and>
     length hs = length b div 20) \<and>
   ((\<forall>ni \<in> set nis. wf_id (ni_ID ni)) \<longrightarrow>
     (CompactIPv4_MarshalBinary nis = None \<longleftrightarrow> (\<exists>ni \<in> set nis. ip_To4 (na_IP (ni_Addr ni)) = [])))"
proof -
  have "length (NodeInfo_MarshalBinary (with_To4 ni)) \<noteq> 26 \<longleftrightarrow> ip_To4 (na_IP (ni_Addr ni)) = []"
    if "wf_id (ni_ID ni)" for ni
    using that To4_length [of "na_IP (ni_Addr ni)"]
    by (auto simp: NodeInfo_MarshalBinary_def with_To4_def wf_id_def)
  then show ?thesis
    using v4.unmarshal_total [of "[]" b] ih.unmarshal_total [of "[]" b]
    by (auto simp: CompactIPv4_UnmarshalBinary_def Infohashes_UnmarshalBinary_def
        CompactIPv4_MarshalBinary_def marshal_None_iff)
qed

theorem Compact_decode_total_witness:
  "CompactIPv4_MarshalBinary [sample_node_info] \<noteq> None \<and>
   CompactIPv4_MarshalBinary [sample_node_info\<lparr>ni_Addr := \<lparr>na_IP = replicate 16 32, na_Port = 1\<rparr>\<rparr>] = None"
  using Compact_decode_total [where b = "[]" and nis = "[sample_node_info]"]
    Compact_decode_total [where b = "[]" and
      nis = "[sample_node_info\<lparr>ni_Addr := \<lparr>na_IP = replicate 16 32, na_Port = 1\<rparr>\<rparr>]"]
  by (simp add: sample_node_info_def To4_ok To4_v6)

end
