(* ===== verification/DhtServer.thy ===== *)
theory DhtServer
  imports DhtMsg
begin

text \<open>
  The DHT node on the network: the responder to queries with its rate limiter and node discovery
  (\<open>internal/protocol/dht/responder\<close>), the server with its table of pending queries
  (\<open>internal/protocol/dht/server\<close>) and the client on top of it
  (\<open>internal/protocol/dht/client/server_adapter.go\<close>).

  MD5, the text form of an address, the token buckets of \<open>golang.org/x/time/rate\<close> and the
  socket are parameters. A query is a goroutine with a phase; the steps of \<open>server_step\<close> are
  its blocking points and the delivery of a response, in any order.
\<close>

section \<open>responder.go\<close>

record responder =
  rs_nodeID :: ID
  rs_tokenSecret :: bytes
  rs_sampleInterval :: int

record orders =
  or_env :: env
  or_hashes :: "(ID \<times> hash) list \<Rightarrow> (ID \<times> hash) list"
  or_nodes :: "(ID \<times> node) list \<Rightarrow> (ID \<times> node) list"

definition ErrMissingArguments :: krpc_error where
  "ErrMissingArguments = \<lparr>ke_Code = 203, ke_Msg = ''missing arguments''\<rparr>"
definition ErrInvalidToken :: krpc_error where
  "ErrInvalidToken = \<lparr>ke_Code = 203, ke_Msg = ''invalid token''\<rparr>"
definition ErrMethodUnknown :: krpc_error where
  "ErrMethodUnknown = \<lparr>ke_Code = 204, ke_Msg = ''method Unknown''\<rparr>"
definition ErrTooManyRequests :: krpc_error where
  "ErrTooManyRequests = \<lparr>ke_Code = 201, ke_Msg = ''too many requests''\<rparr>"

lemmas responder_errors = ErrMissingArguments_def ErrInvalidToken_def ErrMethodUnknown_def
  ErrTooManyRequests_def

definition announceToken ::
  "(bytes \<Rightarrow> bytes) \<Rightarrow> (ip_addr \<Rightarrow> string) \<Rightarrow> responder \<Rightarrow> ID \<Rightarrow> ID \<Rightarrow> ip_addr \<Rightarrow> string" where
  "announceToken md5 addr_text r infoHash nodeID nodeAddr =
     hex_encode (md5 (rs_tokenSecret r @ rs_nodeID r @ infoHash @ nodeID @
                      bytes_of_string (addr_text nodeAddr)))"

definition nodeInfoFromNode :: "node \<Rightarrow> node_info" where
  "nodeInfoFromNode n = \<lparr>ni_ID = nd_id n, ni_Addr = NewNodeAddrFromAddrPort (nd_addr n)\<rparr>"

text \<open>A nil node is a nil receiver, which panics.\<close>

fun nodeInfosFromNodes :: "node option list \<Rightarrow> node_info list option" where
  "nodeInfosFromNodes [] = Some []"
| "nodeInfosFromNodes (None # ns) = None"
| "nodeInfosFromNodes (Some n # ns) = map_option (\<lambda>r. nodeInfoFromNode n # r) (nodeInfosFromNodes ns)"

definition zero_return :: return_msg where
  "zero_return = \<lparr>rt_ID = zero_id, rt_Nodes = [], rt_Token = None, rt_Values = [], rt_BFsd = None,
     rt_BFpe = None, rt_Interval = None, rt_Num = None, rt_Samples = None\<rparr>"

definition Respond ::
  "(bytes \<Rightarrow> bytes) \<Rightarrow> (ip_addr \<Rightarrow> string) \<Rightarrow> orders \<Rightarrow> responder \<Rightarrow> recv_msg \<Rightarrow> table \<Rightarrow>
   (table \<times> return_msg \<times> krpc_error option) option" where
  "Respond md5 addr_text ord r msg t =
     (case m_A (rm_Msg msg) of
        None \<Rightarrow> Some (t, zero_return, Some ErrMissingArguments)
      | Some args \<Rightarrow>
          (let ret = zero_return\<lparr>rt_ID := rs_nodeID r\<rparr>; q = m_Q (rm_Msg msg) in
           if q = QPing then Some (t, ret, None)
           else if q = QFindNode then
             (if ma_Target args = zero_id then Some (t, ret, Some ErrMissingArguments)
              else (case GetClosestNodes (ma_Target args) t of
                      None \<Rightarrow> None
                    | Some closestNodes \<Rightarrow>
                        (case nodeInfosFromNodes closestNodes of
                           None \<Rightarrow> None
                         | Some nodes \<Rightarrow> Some (t, ret\<lparr>rt_Nodes := nodes\<rparr>, None))))
           else if q = QGetPeers then
             (if ma_InfoHash args = zero_id then Some (t, ret, Some ErrMissingArguments)
              else (case GetHashOrClosestNodes (ma_InfoHash args) t of
                      None \<Rightarrow> None
                    | Some result \<Rightarrow>
                        (let values = (case hn_hash result of
                               Some h \<Rightarrow> (if hn_found result
                                  then map NewNodeAddrFromAddrPort (hash_Peers (snd (or_env ord)) h) else [])
                             | None \<Rightarrow> []) in
                         case nodeInfosFromNodes (hn_closestNodes result) of
                           None \<Rightarrow> None
                         | Some nodes \<Rightarrow>
                             Some (t, ret\<lparr>rt_Values := values, rt_Nodes := nodes,
                               rt_Token := Some (announceToken md5 addr_text r (ma_InfoHash args)
                                 (ma_ID args) (ap_ip (rm_From msg)))\<rparr>, None))))
           else if q = QAnnouncePeer then
             (if ma_InfoHash args = zero_id then Some (t, ret, Some ErrMissingArguments)
              else if ma_Token args \<noteq> announceToken md5 addr_text r (ma_InfoHash args) (ma_ID args)
                        (ap_ip (rm_From msg))
              then Some (t, ret, Some ErrInvalidToken)
              else (case BatchCommand [(or_env ord, PutHash (ma_InfoHash args)
                        [\<lparr>ap_ip = ap_ip (rm_From msg), ap_port = AnnouncePort msg\<rparr>])] t of
                      None \<Rightarrow> None
                    | Some t' \<Rightarrow> Some (t', ret, None)))
           else if q = QSampleInfohashes then
             (let result = SampleHashesAndNodes (or_hashes ord) (or_nodes ord) t;
                  samples = map hs_id (sr_hashes result) in
              case nodeInfosFromNodes (map Some (sr_nodes result)) of
                None \<Rightarrow> None
              | Some nodes \<Rightarrow>
                  Some (t, ret\<lparr>rt_Samples := Some samples, rt_Nodes := nodes,
                    rt_Num := Some (int (sr_totalHashes result)),
                    rt_Interval := Some (rs_sampleInterval r)\<rparr>, None))
           else Some (t, ret, Some ErrMethodUnknown)))"

section \<open>limiter.go, factory.go and node\_discovery.go\<close>

text \<open>A rate is \<open>None\<close> for \<open>rate.Inf\<close>. The limiter's settings; the token buckets are the
parameters \<open>allow_key\<close> and \<open>allow\<close>, which return their verdict and their new state.\<close>

record limiter =
  lm_rate :: "int option"
  lm_burst :: int
  lm_keyRate :: "int option"
  lm_keyBurst :: int

definition limiter_New :: "int \<Rightarrow> int \<Rightarrow> limiter" where
  "limiter_New globalLimit perIPLimit =
     (let globalRate = (if globalLimit > 0 then Some globalLimit else None);
          perIPRate = (if perIPLimit > 0 then Some perIPLimit else None);
          globalBurst = (if globalLimit \<le> 0 then 20 else globalLimit);
          perIPBurst = (if perIPLimit \<le> 0 then 10 else perIPLimit) in
      \<lparr>lm_rate = globalRate, lm_burst = globalBurst, lm_keyRate = perIPRate, lm_keyBurst = perIPBurst\<rparr>)"

definition SetGlobalRateLimit :: "int \<Rightarrow> limiter \<Rightarrow> limiter" where
  "SetGlobalRateLimit n l =
     (if n \<le> 0 then l\<lparr>lm_rate := None, lm_burst := 20\<rparr> else l\<lparr>lm_rate := Some n, lm_burst := n\<rparr>)"

definition SetPerIPRateLimit :: "int \<Rightarrow> limiter \<Rightarrow> limiter" where
  "SetPerIPRateLimit n l =
     (let rl = 0; burst = 10 in
      if n > 0 then l\<lparr>lm_keyRate := Some n, lm_keyBurst := n\<rparr>
      else l\<lparr>lm_keyRate := Some rl, lm_keyBurst := burst\<rparr>)"

definition limiter_Allow ::
  "('s \<Rightarrow> ip_addr \<Rightarrow> bool \<times> 's) \<Rightarrow> ('s \<Rightarrow> bool \<times> 's) \<Rightarrow> 's \<Rightarrow> ip_addr \<Rightarrow> bool \<times> 's" where
  "limiter_Allow allow_key allow s addr =
     (let (ok, s') = allow_key s addr in if ok then allow s' else (False, s'))"

definition limiter_Respond ::
  "bool \<Rightarrow> (table \<Rightarrow> (table \<times> return_msg \<times> krpc_error option) option) \<Rightarrow> table \<Rightarrow>
   (table \<times> return_msg \<times> krpc_error option) option" where
  "limiter_Respond allowed inner t =
     (if \<not> allowed then Some (t, zero_return, Some ErrTooManyRequests) else inner t)"

text \<open>The node that \<open>responderNodeDiscovery\<close> offers to the crawler, if any.\<close>

definition discovered_node :: "recv_msg \<Rightarrow> krpc_error option \<Rightarrow> (ID \<times> addr_port) option" where
  "discovered_node msg err =
     (if err = None then map_option (\<lambda>a. (ma_ID a, rm_From msg)) (m_A (rm_Msg msg)) else None)"

section \<open>server.go\<close>

text \<open>An \<open>error\<close> interface value: nil is \<open>None\<close>, and a nil \<open>*dht.Error\<close> stored in the
interface is \<open>NilDhtErr\<close>, which is not nil.\<close>

datatype go_error = DhtErr krpc_error | NilDhtErr | OtherErr string

definition error_of_ptr :: "krpc_error option \<Rightarrow> go_error option" where
  "error_of_ptr p = Some (case p of Some e \<Rightarrow> DhtErr e | None \<Rightarrow> NilDhtErr)"

text \<open>\<open>Error()\<close> has a value receiver, so calling it through a nil pointer panics.\<close>

fun error_text :: "go_error \<Rightarrow> string option" where
  "error_text (DhtErr e) = Some (''KRPC error '' @ ke_Msg e)"
| "error_text NilDhtErr = None"
| "error_text (OtherErr s) = Some s"

definition ErrorCodeServerError :: int where "ErrorCodeServerError = 202"

text \<open>\<open>handleQuery\<close>: the reply, if one is sent. A panic of the responder is recovered.\<close>

definition handleQuery :: "bool \<Rightarrow> (return_msg \<times> go_error option) option \<Rightarrow> recv_msg \<Rightarrow> msg option" where
  "handleQuery responderEnabled respond m =
     (if \<not> responderEnabled then None
      else (case respond of
              None \<Rightarrow> None
            | Some (ret, retErr) \<Rightarrow>
                (let res = \<lparr>m_Q = [], m_A = None, m_T = m_T (rm_Msg m), m_Y = YResponse,
                            m_R = None, m_E = None\<rparr> in
                 case retErr of
                   Some (DhtErr e) \<Rightarrow> Some (res\<lparr>m_E := Some e\<rparr>)
                 | Some NilDhtErr \<Rightarrow> Some (res\<lparr>m_E := None\<rparr>)
                 | Some (OtherErr _) \<Rightarrow>
                     Some (res\<lparr>m_E := Some \<lparr>ke_Code = ErrorCodeServerError, ke_Msg = ''server error''\<rparr>\<rparr>)
                 | None \<Rightarrow> Some (res\<lparr>m_R := Some ret\<rparr>))))"

text \<open>\<open>binary.PutUvarint\<close>.\<close>

fun put_uvarint :: "nat \<Rightarrow> bytes" where
  "put_uvarint n =
     (if n \<ge> 128 then (word_of_nat n OR 128) # put_uvarint (n div 128) else [word_of_nat n])"

declare put_uvarint.simps [simp del]

definition Issue :: "64 word \<Rightarrow> string \<times> 64 word" where
  "Issue nxt = (string_of_bytes (put_uvarint (unat nxt)), nxt + 1)"

type_synonym query_result = "recv_msg option \<times> go_error option"

datatype query_phase = Waiting | Returning query_result

record server =
  sv_next :: "64 word"
  sv_queries :: "string \<rightharpoonup> recv_msg list"
  sv_phase :: "string \<rightharpoonup> query_phase"

definition server_init :: server where
  "server_init = \<lparr>sv_next = 0, sv_queries = Map.empty, sv_phase = Map.empty\<rparr>"

text \<open>A query registers a channel with room for one message under a fresh transaction id and
sends; \<open>send_err\<close> is what \<open>send\<close> returned.\<close>

definition query_start :: "go_error option \<Rightarrow> server \<Rightarrow> string \<times> server" where
  "query_start send_err s =
     (let (transactionID, nxt) = Issue (sv_next s) in
      (transactionID,
       s\<lparr>sv_next := nxt, sv_queries := (sv_queries s)(transactionID \<mapsto> []),
         sv_phase := (sv_phase s)(transactionID \<mapsto>
           (case send_err of None \<Rightarrow> Waiting | Some e \<Rightarrow> Returning (None, Some e)))\<rparr>))"

text \<open>\<open>handleResponse\<close>: \<open>None\<close> while the channel is full (the goroutine blocks).\<close>

definition handleResponse :: "recv_msg \<Rightarrow> server \<Rightarrow> server option" where
  "handleResponse m s =
     (case sv_queries s (m_T (rm_Msg m)) of
        None \<Rightarrow> Some s
      | Some ch \<Rightarrow>
          (if length ch < 1 then Some (s\<lparr>sv_queries := (sv_queries s)(m_T (rm_Msg m) \<mapsto> ch @ [m])\<rparr>)
           else None))"

definition query_result_of :: "recv_msg \<Rightarrow> query_result" where
  "query_result_of res =
     (if m_Y (rm_Msg res) = YError then
        (let err = error_of_ptr (m_E (rm_Msg res)) in
         if err = None then (Some res, Some (OtherErr ''error missing from response''))
         else (Some res, err))
      else if m_R (rm_Msg res) = None then (Some res, Some (OtherErr ''return data missing from response''))
      else (Some res, None))"

definition query_receive :: "string \<Rightarrow> server \<Rightarrow> server option" where
  "query_receive tid s =
     (case (sv_phase s tid, sv_queries s tid) of
        (Some Waiting, Some (res # ch)) \<Rightarrow>
          Some (s\<lparr>sv_queries := (sv_queries s)(tid \<mapsto> ch),
                  sv_phase := (sv_phase s)(tid \<mapsto> Returning (query_result_of res))\<rparr>)
      | _ \<Rightarrow> None)"

definition query_timeout :: "string \<Rightarrow> server \<Rightarrow> server option" where
  "query_timeout tid s =
     (if sv_phase s tid = Some Waiting
      then Some (s\<lparr>sv_phase := (sv_phase s)(tid \<mapsto>
                   Returning (None, Some (OtherErr ''context deadline exceeded'')))\<rparr>)
      else None)"

text \<open>The deferred function: the entry is removed and the query returns its result.\<close>

definition query_end :: "string \<Rightarrow> server \<Rightarrow> (query_result \<times> server) option" where
  "query_end tid s =
     (case sv_phase s tid of
        Some (Returning r) \<Rightarrow>
          Some (r, s\<lparr>sv_queries := (sv_queries s)(tid := None), sv_phase := (sv_phase s)(tid := None)\<rparr>)
      | _ \<Rightarrow> None)"

datatype server_event =
    QStart string | QResponse recv_msg | QReceive string | QTimeout string | QEnd string query_result

inductive server_step :: "server \<Rightarrow> server_event \<Rightarrow> server \<Rightarrow> bool" where
  start: "query_start e s = (tid, s') \<Longrightarrow> server_step s (QStart tid) s'"
| response: "handleResponse m s = Some s' \<Longrightarrow> server_step s (QResponse m) s'"
| receive: "query_receive tid s = Some s' \<Longrightarrow> server_step s (QReceive tid) s'"
| timeout: "query_timeout tid s = Some s' \<Longrightarrow> server_step s (QTimeout tid) s'"
| finish: "query_end tid s = Some (r, s') \<Longrightarrow> server_step s (QEnd tid r) s'"

inductive_cases server_stepE: "server_step s ev s'"

inductive server_run :: "server_event list \<Rightarrow> server \<Rightarrow> bool" where
  init: "server_run [] server_init"
| step: "server_run evs s \<Longrightarrow> server_step s ev s' \<Longrightarrow> server_run (evs @ [ev]) s'"

section \<open>server\_adapter.go\<close>

text \<open>A client operation on what \<open>Query\<close> returned; \<open>None\<close> is a nil dereference.\<close>

record client_result =
  cr_ID :: ID
  cr_Values :: "addr_port list"
  cr_Nodes :: "(ID \<times> addr_port) list"
  cr_Samples :: "ID list"
  cr_Num :: int
  cr_Interval :: int

definition zero_result :: client_result where
  "zero_result = \<lparr>cr_ID = zero_id, cr_Values = [], cr_Nodes = [], cr_Samples = [], cr_Num = 0,
     cr_Interval = 0\<rparr>"

definition extractNodes :: "return_msg \<Rightarrow> (ID \<times> addr_port) list" where
  "extractNodes r = map (\<lambda>n. (ni_ID n, ToAddrPort (ni_Addr n))) (rt_Nodes r)"

definition extractValues :: "return_msg \<Rightarrow> addr_port list" where
  "extractValues r = map ToAddrPort (rt_Values r)"

definition with_return ::
  "query_result \<Rightarrow> (return_msg \<Rightarrow> client_result \<times> go_error option) \<Rightarrow>
   (client_result \<times> go_error option) option" where
  "with_return qr f =
     (case qr of
        (_, Some err) \<Rightarrow> Some (zero_result, Some err)
      | (Some res, None) \<Rightarrow> (case m_R (rm_Msg res) of None \<Rightarrow> None | Some r \<Rightarrow> Some (f r))
      | (None, None) \<Rightarrow> None)"

definition client_Ping :: "query_result \<Rightarrow> (client_result \<times> go_error option) option" where
  "client_Ping qr = with_return qr (\<lambda>r. (zero_result\<lparr>cr_ID := rt_ID r\<rparr>, None))"

definition client_FindNode :: "query_result \<Rightarrow> (client_result \<times> go_error option) option" where
  "client_FindNode qr = with_return qr
     (\<lambda>r. (zero_result\<lparr>cr_ID := rt_ID r, cr_Nodes := extractNodes r\<rparr>, None))"

definition client_GetPeers :: "query_result \<Rightarrow> (client_result \<times> go_error option) option" where
  "client_GetPeers qr = with_return qr
     (\<lambda>r. (zero_result\<lparr>cr_ID := rt_ID r, cr_Values := extractValues r, cr_Nodes := extractNodes r\<rparr>, None))"

definition client_GetPeersScrape :: "query_result \<Rightarrow> (client_result \<times> go_error option) option" where
  "client_GetPeersScrape qr = with_return qr
     (\<lambda>r. if rt_BFpe r = None \<or> rt_BFsd r = None
           then (zero_result, Some (OtherErr ''missing bloom filter in scrape response''))
           else (zero_result\<lparr>cr_ID := rt_ID r, cr_Values := extractValues r,
                   cr_Nodes := extractNodes r\<rparr>, None))"

definition client_SampleInfoHashes :: "query_result \<Rightarrow> (client_result \<times> go_error option) option" where
  "client_SampleInfoHashes qr = with_return qr
     (\<lambda>r. (let samples = (case rt_Samples r of None \<Rightarrow> [] | Some s \<Rightarrow> s);
               totalNum = (case rt_Num r of None \<Rightarrow> 0 | Some n \<Rightarrow> n);
               interval = (case rt_Interval r of None \<Rightarrow> 0 | Some n \<Rightarrow> n) in
           (zero_result\<lparr>cr_ID := rt_ID r, cr_Samples := samples, cr_Nodes := extractNodes r,
              cr_Num := totalNum, cr_Interval := interval\<rparr>, None)))"

section \<open>The responder\<close>

lemma nodeInfosFromNodes_Some: "nodeInfosFromNodes (map Some ns) = Some (map nodeInfoFromNode ns)"
  by (induction ns) simp_all

lemma GetClosestNodes_items:
  assumes "table_ok t" "wf_id i"
  obtains ns where "GetClosestNodes i t = Some (map Some ns)"
proof -
  have ks: "ks_ok nd_id (\<lambda>_. True) (tb_nodes t)" using assms(1) by (simp add: table_ok_def)
  show thesis
  proof (cases "map_of (ks_items (tb_nodes t)) i")
    case None
    show thesis
    proof (rule getClosest_other [OF ks assms(2) None], goal_cases)
      case (1 xs)
      let ?m = "map_of (ks_items (tb_nodes t))"
      have "?m x = Some (the (?m x))" if "x \<in> set xs" for x
        using that 1(3) by (metis domD option.sel subsetD)
      then have "map ?m xs = map (\<lambda>x. Some (the (?m x))) xs" by (rule map_cong [OF refl])
      then have eq: "map ?m xs = map Some (map (\<lambda>x. the (?m x)) xs)" by (simp only: map_map comp_def)
      show thesis by (rule that) (simp only: GetClosestNodes_def 1(1) eq)
    qed
  next
    case (Some n)
    then show thesis using that [of "[n]"] by (simp add: GetClosestNodes_def getClosest_stored)
  qed
qed

lemma GetHashOrClosestNodes_items:
  assumes "table_ok t" "wf_id i"
  obtains r ns where "GetHashOrClosestNodes i t = Some r" "hn_closestNodes r = map Some ns"
proof (cases "keyspace_get (tb_hashes t) i")
  case None
  from GetClosestNodes_items [OF assms] obtain ns where "GetClosestNodes i t = Some (map Some ns)" .
  with None show thesis
    by (intro that [of "\<lparr>hn_hash = None, hn_closestNodes = map Some ns, hn_found = False\<rparr>" ns])
       (simp_all add: GetHashOrClosestNodes_def GetClosestNodes_def)
next
  case (Some h)
  then show thesis
    by (intro that [of "\<lparr>hn_hash = Some h, hn_closestNodes = [], hn_found = True\<rparr>" "[]"])
       (simp_all add: GetHashOrClosestNodes_def)
qed

definition args_ok :: "recv_msg \<Rightarrow> bool" where
  "args_ok m \<longleftrightarrow> (\<forall>a. m_A (rm_Msg m) = Some a \<longrightarrow> wf_id (ma_Target a) \<and> wf_id (ma_InfoHash a))"

text \<open>The one query that may change the table.\<close>

definition announce_accepted ::
  "(bytes \<Rightarrow> bytes) \<Rightarrow> (ip_addr \<Rightarrow> string) \<Rightarrow> responder \<Rightarrow> recv_msg \<Rightarrow> bool" where
  "announce_accepted md5 addr_text r m =
     (case m_A (rm_Msg m) of
        None \<Rightarrow> False
      | Some a \<Rightarrow> m_Q (rm_Msg m) = QAnnouncePeer \<and> ma_InfoHash a \<noteq> zero_id \<and>
          ma_Token a = announceToken md5 addr_text r (ma_InfoHash a) (ma_ID a) (ap_ip (rm_From m)))"

lemma Respond_read_only:
  assumes ok: "table_ok t" and a: "args_ok m" and no: "\<not> announce_accepted md5 addr_text r m"
  shows "\<exists>ret err. Respond md5 addr_text ord r m t = Some (t, ret, err)"
proof (cases "m_A (rm_Msg m)")
  case None
  then show ?thesis by (simp add: Respond_def)
next
  case (Some args)
  then have wf: "wf_id (ma_Target args)" "wf_id (ma_InfoHash args)" using a by (auto simp: args_ok_def)
  obtain ns where ns: "GetClosestNodes (ma_Target args) t = Some (map Some ns)"
    by (rule GetClosestNodes_items [OF ok wf(1)])
  obtain h hs where h: "GetHashOrClosestNodes (ma_InfoHash args) t = Some h" "hn_closestNodes h = map Some hs"
    by (rule GetHashOrClosestNodes_items [OF ok wf(2)])
  show ?thesis
    using no by (auto simp: Respond_def Some announce_accepted_def ns h nodeInfosFromNodes_Some Let_def
        query_names)
qed

lemma Respond_announce:
  assumes "announce_accepted md5 addr_text r m" "m_A (rm_Msg m) = Some a"
  shows "Respond md5 addr_text ord r m t =
    map_option (\<lambda>t'. (t', zero_return\<lparr>rt_ID := rs_nodeID r\<rparr>, None))
      (BatchCommand [(or_env ord, PutHash (ma_InfoHash a)
         [\<lparr>ap_ip = ap_ip (rm_From m), ap_port = AnnouncePort m\<rparr>])] t)"
  using assms
  by (simp add: Respond_def announce_accepted_def query_names Let_def split: option.splits)

section \<open>The server\<close>

lemma or_128: "unat (b OR (128 :: byte)) = unat b mod 128 + 128"
proof -
  have bit128: "bit (128 :: nat) i \<longleftrightarrow> i = 7" for i
  proof -
    have "(128 :: nat) = 2 ^ 7" by simp
    then show ?thesis by (simp only: bit_exp_iff possible_bit_nat) auto
  qed
  have "\<not> bit (unat b) i" if "7 < i" for i
    using bit_imp_le_length [of b i] that by (auto simp: bit_unsigned_iff)
  then have "unat b OR 128 = take_bit 7 (unat b) OR 128"
    by (intro bit_eqI) (auto simp: bit_or_iff bit_take_bit_iff bit128 dest: linorder_neqE_nat)
  also have "\<dots> = take_bit 7 (unat b) + 128"
    by (rule disjunctive_add [symmetric]) (auto simp: bit_take_bit_iff bit128)
  finally have "unat b OR 128 = unat b mod 128 + (128 :: nat)" by (simp add: take_bit_eq_mod)
  then show ?thesis by (simp add: unsigned_or_eq)
qed

lemma put_uvarint_inject: "put_uvarint m = put_uvarint n \<Longrightarrow> m = n"
proof (induction m arbitrary: n rule: put_uvarint.induct)
  case (1 m)
  have hd: "unat (hd (put_uvarint k)) = (if k \<ge> 128 then k mod 128 + 128 else k)" for k
  proof (cases "k \<ge> 128")
    case True
    have "unat (word_of_nat k :: byte) mod 128 = k mod 128" by (simp add: unat_of_nat mod_mod_cancel)
    then show ?thesis using True by (simp add: put_uvarint.simps [of k] or_128)
  next
    case False
    then show ?thesis by (simp add: put_uvarint.simps [of k] unat_of_nat)
  qed
  from 1(2) have "unat (hd (put_uvarint m)) = unat (hd (put_uvarint n))" by simp
  then have same: "m \<ge> 128 \<longleftrightarrow> n \<ge> 128" "m \<ge> 128 \<Longrightarrow> m mod 128 = n mod 128" "\<not> m \<ge> 128 \<Longrightarrow> m = n"
    unfolding hd by (auto split: if_splits)
  show ?case
  proof (cases "m \<ge> 128")
    case True
    then have "put_uvarint (m div 128) = put_uvarint (n div 128)"
      using 1(2) same(1) by (simp add: put_uvarint.simps [of m] put_uvarint.simps [of n])
    with 1(1) True have "m div 128 = n div 128" by blast
    with same(2) True show ?thesis by (metis div_mult_mod_eq)
  qed (rule same(3))
qed

definition tid_of :: "nat \<Rightarrow> string" where
  "tid_of n = string_of_bytes (put_uvarint n)"

lemma tid_of_inject: "tid_of m = tid_of n \<longleftrightarrow> m = n"
  using put_uvarint_inject by (metis bytes_of_string_of_bytes tid_of_def)

definition started :: "server_event list \<Rightarrow> string list" where
  "started evs = concat (map (\<lambda>e. case e of QStart tid \<Rightarrow> [tid] | _ \<Rightarrow> []) evs)"

lemma started_snoc: "started (evs @ [ev]) = started evs @ (case ev of QStart tid \<Rightarrow> [tid] | _ \<Rightarrow> [])"
  by (simp add: started_def)

text \<open>A phase that returns success carries a response with the query's own transaction id.\<close>

definition phase_ok :: "string \<Rightarrow> query_phase \<Rightarrow> bool" where
  "phase_ok tid p = (case p of Waiting \<Rightarrow> True | Returning r \<Rightarrow>
     (\<forall>m. fst r = Some m \<longrightarrow> m_T (rm_Msg m) = tid \<and> r = query_result_of m) \<and>
     (fst r = None \<longrightarrow> snd r \<noteq> None))"

definition entry_ok :: "string set \<Rightarrow> string \<Rightarrow> recv_msg list option \<Rightarrow> query_phase option \<Rightarrow> bool" where
  "entry_ok S tid q p = (case (q, p) of
     (None, None) \<Rightarrow> True
   | (Some ch, Some ph) \<Rightarrow>
       tid \<in> S \<and> length ch \<le> 1 \<and> (\<forall>m \<in> set ch. m_T (rm_Msg m) = tid) \<and> phase_ok tid ph
   | _ \<Rightarrow> False)"

lemma entry_ok_simps [simp]:
  "entry_ok S tid None None"
  "entry_ok S tid (Some ch) (Some ph) \<longleftrightarrow>
     tid \<in> S \<and> length ch \<le> 1 \<and> (\<forall>m \<in> set ch. m_T (rm_Msg m) = tid) \<and> phase_ok tid ph"
  "\<not> entry_ok S tid None (Some ph)" "\<not> entry_ok S tid (Some ch) None"
  by (simp_all add: entry_ok_def)

lemma entry_ok_mono: "entry_ok S tid q p \<Longrightarrow> S \<subseteq> S' \<Longrightarrow> entry_ok S' tid q p"
  by (auto simp: entry_ok_def split: option.splits)

definition counter_ok :: "string list \<Rightarrow> 64 word \<Rightarrow> bool" where
  "counter_ok ids nxt \<longleftrightarrow> ids = map tid_of [0..<length ids] \<and> unat nxt = length ids mod 2 ^ 64"

definition server_inv :: "server_event list \<Rightarrow> server \<Rightarrow> bool" where
  "server_inv evs s \<longleftrightarrow> counter_ok (started evs) (sv_next s) \<and>
     (\<forall>tid. entry_ok (set (started evs)) tid (sv_queries s tid) (sv_phase s tid))"

lemma server_inv_init: "server_inv [] server_init"
  by (simp add: server_inv_def server_init_def started_def counter_ok_def)

text \<open>A step that starts no query and changes the entry of one transaction id.\<close>

lemma server_inv_entry:
  assumes "server_inv evs s" "started (evs @ [ev]) = started evs" "sv_next s' = sv_next s"
    and "sv_queries s' = (sv_queries s)(tid := q)" "sv_phase s' = (sv_phase s)(tid := p)"
    and "entry_ok (set (started evs)) tid q p"
  shows "server_inv (evs @ [ev]) s'"
  using assms by (simp add: server_inv_def)

lemma counter_ok_start:
  assumes "counter_ok ids nxt" "length ids < 2 ^ 64" "Issue nxt = (tid, nxt')"
  shows "tid = tid_of (length ids) \<and> counter_ok (ids @ [tid]) nxt'"
proof -
  have nxt: "unat nxt = length ids" using assms(1,2) by (simp add: counter_ok_def)
  then have tid: "tid = tid_of (length ids)" "nxt' = nxt + 1"
    using assms(3) by (simp_all add: Issue_def tid_of_def)
  have "unat (nxt + 1) = Suc (length ids) mod 2 ^ 64" using nxt by (simp add: unat_word_ariths)
  moreover have "ids @ [tid] = map tid_of [0..<Suc (length ids)]"
    using assms(1) tid by (simp add: counter_ok_def)
  ultimately show ?thesis using tid by (simp add: counter_ok_def)
qed

lemma server_inv_start:
  assumes inv: "server_inv evs s" and st: "query_start e s = (tid, s')"
    and n: "length (started evs) < 2 ^ 64"
  shows "server_inv (evs @ [QStart tid]) s'"
proof -
  obtain nxt where iss: "Issue (sv_next s) = (tid, nxt)"
    using st by (auto simp: query_start_def split: prod.splits)
  then have s': "s' = s\<lparr>sv_next := nxt, sv_queries := (sv_queries s)(tid \<mapsto> []),
      sv_phase := (sv_phase s)(tid \<mapsto> (case e of None \<Rightarrow> Waiting | Some e \<Rightarrow> Returning (None, Some e)))\<rparr>"
    using st by (simp add: query_start_def)
  have c: "counter_ok (started evs @ [tid]) nxt"
    using inv unfolding server_inv_def by (intro counter_ok_start [OF _ n iss, THEN conjunct2]) blast
  have "entry_ok (set (started evs @ [tid])) t (sv_queries s' t) (sv_phase s' t)" for t
  proof (cases "t = tid")
    case True
    then show ?thesis by (simp add: s' phase_ok_def split: option.split)
  next
    case False
    have "entry_ok (set (started evs)) t (sv_queries s t) (sv_phase s t)"
      using inv by (simp add: server_inv_def)
    with False show ?thesis using entry_ok_mono by (simp add: s') blast
  qed
  with c show ?thesis by (simp add: server_inv_def started_snoc s')
qed

lemma server_inv_get:
  "server_inv evs s \<Longrightarrow> entry_ok (set (started evs)) tid (sv_queries s tid) (sv_phase s tid)"
  by (simp add: server_inv_def)

lemma server_inv_response:
  assumes inv: "server_inv evs s" and st: "handleResponse m s = Some s'"
  shows "server_inv (evs @ [QResponse m]) s'"
proof (cases "sv_queries s (m_T (rm_Msg m))")
  case None
  then show ?thesis using inv st by (simp add: handleResponse_def server_inv_def started_snoc)
next
  case (Some ch)
  let ?tid = "m_T (rm_Msg m)"
  have ch: "length ch < 1" "s' = s\<lparr>sv_queries := (sv_queries s)(?tid \<mapsto> ch @ [m])\<rparr>"
    using st Some by (auto simp: handleResponse_def split: if_splits)
  obtain ph where ph: "sv_phase s ?tid = Some ph"
    using server_inv_get [OF inv, of ?tid] Some by (cases "sv_phase s ?tid") auto
  show ?thesis
    by (rule server_inv_entry [OF inv, of _ _ ?tid "Some (ch @ [m])" "Some ph"])
       (use ch ph Some server_inv_get [OF inv, of ?tid] in \<open>auto simp: started_snoc fun_upd_idem\<close>)
qed

lemma query_result_of_fst: "fst (query_result_of m) = Some m"
  by (simp add: query_result_of_def error_of_ptr_def)

lemma server_inv_receive:
  assumes inv: "server_inv evs s" and st: "query_receive tid s = Some s'"
  shows "server_inv (evs @ [QReceive tid]) s'"
proof -
  obtain res ch where p: "sv_phase s tid = Some Waiting" "sv_queries s tid = Some (res # ch)"
    and s': "s' = s\<lparr>sv_queries := (sv_queries s)(tid \<mapsto> ch),
                    sv_phase := (sv_phase s)(tid \<mapsto> Returning (query_result_of res))\<rparr>"
    using st by (auto simp: query_receive_def split: option.splits query_phase.splits list.splits)
  have ch: "tid \<in> set (started evs)" "ch = []" "m_T (rm_Msg res) = tid"
    using server_inv_get [OF inv, of tid] p by auto
  then have "phase_ok tid (Returning (query_result_of res))"
    by (simp add: phase_ok_def query_result_of_fst)
  then show ?thesis
    by (intro server_inv_entry [OF inv, of _ _ tid "Some ch" "Some (Returning (query_result_of res))"])
       (use ch in \<open>simp_all add: started_snoc s'\<close>)
qed

lemma server_inv_timeout:
  assumes inv: "server_inv evs s" and st: "query_timeout tid s = Some s'"
  shows "server_inv (evs @ [QTimeout tid]) s'"
proof -
  let ?p = "Returning (None, Some (OtherErr ''context deadline exceeded''))"
  have p: "sv_phase s tid = Some Waiting" and s': "s' = s\<lparr>sv_phase := (sv_phase s)(tid \<mapsto> ?p)\<rparr>"
    using st by (auto simp: query_timeout_def split: if_splits)
  obtain ch where ch: "sv_queries s tid = Some ch"
    using server_inv_get [OF inv, of tid] p by (cases "sv_queries s tid") auto
  show ?thesis
    by (rule server_inv_entry [OF inv, of _ _ tid "Some ch" "Some ?p"])
       (use ch p server_inv_get [OF inv, of tid] in
         \<open>simp_all add: started_snoc s' phase_ok_def fun_upd_idem\<close>)
qed

lemma server_inv_end:
  assumes inv: "server_inv evs s" and st: "query_end tid s = Some (r, s')"
  shows "server_inv (evs @ [QEnd tid r]) s' \<and> phase_ok tid (Returning r)"
proof -
  have p: "sv_phase s tid = Some (Returning r)"
    and s': "s' = s\<lparr>sv_queries := (sv_queries s)(tid := None), sv_phase := (sv_phase s)(tid := None)\<rparr>"
    using st by (auto simp: query_end_def split: option.splits query_phase.splits)
  have "phase_ok tid (Returning r)"
    using server_inv_get [OF inv, of tid] p by (cases "sv_queries s tid") auto
  moreover have "server_inv (evs @ [QEnd tid r]) s'"
    by (rule server_inv_entry [OF inv, of _ _ tid None None]) (simp_all add: started_snoc s')
  ultimately show ?thesis by blast
qed

lemma server_run_inv:
  "server_run evs s \<Longrightarrow> length (started evs) \<le> 2 ^ 64 \<Longrightarrow> server_inv evs s"
proof (induction rule: server_run.induct)
  case init
  show ?case by (rule server_inv_init)
next
  case (step evs s ev s')
  have le: "length (started evs) \<le> 2 ^ 64" using step.prems by (simp add: started_snoc)
  note inv = step.IH [OF le]
  from step.hyps(2) show ?case
  proof (cases rule: server_step.cases)
    case (start e tid)
    then have "length (started evs) < 2 ^ 64" using step.prems by (simp add: started_snoc)
    then show ?thesis using server_inv_start [OF inv] start by blast
  qed (use inv server_inv_response server_inv_receive server_inv_timeout server_inv_end in blast)+
qed

text \<open>No response is made up: what a query holds or returns was received.\<close>

definition received_inv :: "server_event list \<Rightarrow> server \<Rightarrow> bool" where
  "received_inv evs s \<longleftrightarrow>
     (\<forall>tid ch m. sv_queries s tid = Some ch \<longrightarrow> m \<in> set ch \<longrightarrow> QResponse m \<in> set evs) \<and>
     (\<forall>tid r m. sv_phase s tid = Some (Returning r) \<longrightarrow> fst r = Some m \<longrightarrow> QResponse m \<in> set evs) \<and>
     (\<forall>tid r m. QEnd tid r \<in> set evs \<longrightarrow> fst r = Some m \<longrightarrow> QResponse m \<in> set evs)"

lemma query_result_of_eq: "query_result_of res = (Some m, e) \<Longrightarrow> m = res"
  using query_result_of_fst [of res] by simp

lemma server_run_received: "server_run evs s \<Longrightarrow> received_inv evs s"
proof (induction rule: server_run.induct)
  case init
  show ?case by (simp add: received_inv_def server_init_def)
next
  case (step evs s ev s')
  from step.hyps(2) step.IH show ?case
  proof (cases rule: server_step.cases)
    case (start e tid)
    with step.IH show ?thesis
      by (auto simp: received_inv_def query_start_def simp del: split_paired_All
          split: prod.splits option.splits if_splits)
  next
    case (response m)
    with step.IH show ?thesis
      by (auto simp: received_inv_def handleResponse_def simp del: split_paired_All split: option.splits if_splits)
  next
    case (receive tid)
    with step.IH show ?thesis
      by (auto simp: received_inv_def query_receive_def query_result_of_fst dest!: query_result_of_eq
          simp del: split_paired_All split: option.splits query_phase.splits list.splits if_splits)
  next
    case (timeout tid)
    with step.IH show ?thesis
      by (auto simp: received_inv_def query_timeout_def simp del: split_paired_All split: if_splits)
  next
    case (finish tid r)
    with step.IH show ?thesis
      by (auto simp: received_inv_def query_end_def simp del: split_paired_All split: option.splits query_phase.splits if_splits)
  qed
qed

text \<open>Every query that ended was started and returned a good phase.\<close>

lemma server_run_ends:
  "server_run evs s \<Longrightarrow> length (started evs) \<le> 2 ^ 64 \<Longrightarrow> QEnd tid r \<in> set evs \<Longrightarrow>
     tid \<in> set (started evs) \<and> phase_ok tid (Returning r)"
proof (induction rule: server_run.induct)
  case (step evs s ev s')
  have le: "length (started evs) \<le> 2 ^ 64" using step.prems(1) by (simp add: started_snoc)
  show ?case
  proof (cases "QEnd tid r \<in> set evs")
    case True
    with step.IH [OF le] show ?thesis by (auto simp: started_snoc)
  next
    case False
    then have ev: "ev = QEnd tid r" using step.prems(2) by simp
    with step.hyps(2) have "query_end tid s = Some (r, s')" by (auto elim: server_step.cases)
    with server_inv_end [OF server_run_inv [OF step.hyps(1) le] this]
      server_inv_get [OF server_run_inv [OF step.hyps(1) le], of tid]
    show ?thesis
      by (auto simp: started_snoc ev query_end_def entry_ok_def split: option.splits query_phase.splits)
  qed
qed simp

text \<open>The typed nil and the dereference of the return data in the client.\<close>

lemma with_return_total:
  assumes "phase_ok tid (Returning r)"
  shows "with_return r f \<noteq> None"
proof (cases r)
  case (Pair mo e)
  show ?thesis
  proof (cases mo)
    case None
    then show ?thesis using assms Pair by (auto simp: phase_ok_def with_return_def split: option.splits)
  next
    case (Some m)
    then have "query_result_of m = (Some m, e)" using assms Pair by (simp add: phase_ok_def)
    then show ?thesis
      using Pair Some
      by (auto simp: with_return_def query_result_of_def error_of_ptr_def Let_def
          split: option.splits if_splits)
  qed
qed

section \<open>Properties\<close>

text \<open>C39. Answering a query never panics and keeps the routing table consistent, and the only query
that changes the table is an \<open>announce_peer\<close> with an info hash and the token of that hash,
node and IP address; any other one gets a reply or an error and leaves the table as it is.\<close>

theorem Respond_safe:
  assumes "table_ok t" "args_ok m" "env_ok (or_env ord)"
  shows "\<exists>t' ret err. Respond md5 addr_text ord r m t = Some (t', ret, err) \<and> table_ok t' \<and>
    (\<not> announce_accepted md5 addr_text r m \<longrightarrow> t' = t) \<and>
    (m_Q (rm_Msg m) = QAnnouncePeer \<longrightarrow> (err = None \<longleftrightarrow> announce_accepted md5 addr_text r m))"
proof (cases "announce_accepted md5 addr_text r m")
  case False
  from Respond_read_only [OF assms(1,2) False] obtain ret err where
    res: "Respond md5 addr_text ord r m t = Some (t, ret, err)" by blast
  have "err \<noteq> None" if "m_Q (rm_Msg m) = QAnnouncePeer"
    using that False res
    by (auto simp: Respond_def announce_accepted_def query_names Let_def split: option.splits if_splits)
  with res False assms(1) show ?thesis by auto
next
  case True
  then obtain a where a: "m_A (rm_Msg m) = Some a" by (auto simp: announce_accepted_def split: option.splits)
  then have "wf_id (ma_InfoHash a)" using assms(2) by (simp add: args_ok_def)
  then have "\<forall>(e, c) \<in> set [(or_env ord, PutHash (ma_InfoHash a)
      [\<lparr>ap_ip = ap_ip (rm_From m), ap_port = AnnouncePort m\<rparr>])]. env_ok e \<and> wf_id (command_id c)"
    using assms(3) by simp
  from BatchCommand_ok [OF assms(1) this] obtain t' where "BatchCommand [(or_env ord, PutHash (ma_InfoHash a)
      [\<lparr>ap_ip = ap_ip (rm_From m), ap_port = AnnouncePort m\<rparr>])] t = Some t'" "table_ok t'" by blast
  with Respond_announce [OF True a] True show ?thesis by auto
qed

text \<open>A token given out in reply to \<open>get_peers\<close> lets the same node announce itself for
that hash from the same IP address, from any port: the hash is put with the announced port.
From another address it is accepted only when MD5 collides.\<close>

theorem token_roundtrip:
  assumes "table_ok t" "wf_id (ma_InfoHash a)" "ma_InfoHash a \<noteq> zero_id"
    and "m_A (rm_Msg m) = Some a" "m_Q (rm_Msg m) = QGetPeers"
    and "m_A (rm_Msg m') = Some (a\<lparr>ma_Token := the (rt_Token ret), ma_Port := p, ma_ImpliedPort := imp\<rparr>)"
    and "m_Q (rm_Msg m') = QAnnouncePeer"
    and "Respond md5 addr_text ord r m t = Some (t, ret, None)"
  shows "(ap_ip (rm_From m') = ap_ip (rm_From m) \<longrightarrow>
      announce_accepted md5 addr_text r m' \<and>
      AnnouncePort m' = (if imp \<or> p = None then ap_port (rm_From m') else max 0 (min 65535 (the p)))) \<and>
    (announce_accepted md5 addr_text r m' \<longrightarrow>
      (let pre = rs_tokenSecret r @ rs_nodeID r @ ma_InfoHash a @ ma_ID a in
       md5 (pre @ bytes_of_string (addr_text (ap_ip (rm_From m')))) =
       md5 (pre @ bytes_of_string (addr_text (ap_ip (rm_From m))))))"
proof -
  obtain h hs where h: "GetHashOrClosestNodes (ma_InfoHash a) t = Some h" "hn_closestNodes h = map Some hs"
    by (rule GetHashOrClosestNodes_items [OF assms(1,2)])
  then have tok: "the (rt_Token ret) = announceToken md5 addr_text r (ma_InfoHash a) (ma_ID a) (ap_ip (rm_From m))"
    using assms(3-5,8) by (auto simp: Respond_def query_names Let_def nodeInfosFromNodes_Some)
  show ?thesis
    using assms(3,6,7)
    by (auto simp: announce_accepted_def tok announceToken_def hex_encode_inject AnnouncePort_def
        ClampUint16_uint Let_def split: option.split)
qed

definition sample_recv :: "string \<Rightarrow> recv_msg" where
  "sample_recv q =
     \<lparr>rm_Msg = \<lparr>m_Q = q,
        m_A = Some \<lparr>ma_ID = sample_id 9, ma_InfoHash = sample_id 2, ma_Target = sample_id 3,
                    ma_Token = [], ma_Port = None, ma_ImpliedPort = False, ma_Scrape = 0\<rparr>,
        m_T = ''aa'', m_Y = YQuery, m_R = None, m_E = None\<rparr>,
      rm_From = sample_addr 4\<rparr>"

definition sample_responder :: responder where
  "sample_responder = \<lparr>rs_nodeID = zero_id, rs_tokenSecret = [7], rs_sampleInterval = 10\<rparr>"

definition sample_orders :: orders where
  "sample_orders = \<lparr>or_env = (0, \<lambda>xs. xs), or_hashes = (\<lambda>xs. xs), or_nodes = (\<lambda>xs. xs)\<rparr>"

theorem Respond_safe_witness:
  "\<exists>t' ret err. Respond (\<lambda>b. take 16 b) (\<lambda>a. ''x'') sample_orders sample_responder (sample_recv QAnnouncePeer)
     (ktable_New zero_id) = Some (t', ret, Some err) \<and> t' = ktable_New zero_id"
proof -
  have "args_ok (sample_recv QAnnouncePeer)" by (simp add: args_ok_def sample_recv_def)
  moreover have "env_ok (or_env sample_orders)" by (simp add: sample_orders_def)
  ultimately obtain t' ret err where res:
    "Respond (\<lambda>b. take 16 b) (\<lambda>a. ''x'') sample_orders sample_responder (sample_recv QAnnouncePeer)
       (ktable_New zero_id) = Some (t', ret, err)"
    "\<not> announce_accepted (\<lambda>b. take 16 b) (\<lambda>a. ''x'') sample_responder (sample_recv QAnnouncePeer) \<Longrightarrow>
       t' = ktable_New zero_id"
    "m_Q (rm_Msg (sample_recv QAnnouncePeer)) = QAnnouncePeer \<Longrightarrow> (err = None \<longleftrightarrow>
       announce_accepted (\<lambda>b. take 16 b) (\<lambda>a. ''x'') sample_responder (sample_recv QAnnouncePeer))"
    using Respond_safe [OF table_ok_New [OF sample_wf(2)], of "sample_recv QAnnouncePeer" sample_orders
        "\<lambda>b. take 16 b" "\<lambda>a. ''x''" sample_responder] by blast
  have "\<not> announce_accepted (\<lambda>b. take 16 b) (\<lambda>a. ''x'') sample_responder (sample_recv QAnnouncePeer)"
    by (simp add: announce_accepted_def sample_recv_def announceToken_def sample_responder_def
        hex_encode_def)
  with res show ?thesis by (cases err) (auto simp: sample_recv_def)
qed

theorem token_roundtrip_witness:
  "\<exists>tok. announce_accepted (\<lambda>b. take 16 b) (\<lambda>a. ''x'') sample_responder
     ((sample_recv QAnnouncePeer)\<lparr>rm_Msg := (rm_Msg (sample_recv QAnnouncePeer))
        \<lparr>m_A := Some ((the (m_A (rm_Msg (sample_recv QGetPeers))))
           \<lparr>ma_Token := tok, ma_Port := Some 70000, ma_ImpliedPort := False\<rparr>)\<rparr>\<rparr>)"
proof -
  let ?g = "sample_recv QGetPeers" and ?t = "ktable_New zero_id"
  let ?a = "the (m_A (rm_Msg ?g))"
  have "last (sample_id 2) \<noteq> last zero_id" by (simp add: sample_id_def zero_id_def)
  then have nz: "sample_id 2 \<noteq> zero_id" by metis
  have none: "\<not> announce_accepted (\<lambda>b. take 16 b) (\<lambda>a. ''x'') sample_responder ?g"
    by (simp add: announce_accepted_def sample_recv_def query_names)
  have ok: "args_ok ?g" by (simp add: args_ok_def sample_recv_def)
  obtain ret err where ret:
    "Respond (\<lambda>b. take 16 b) (\<lambda>a. ''x'') sample_orders sample_responder ?g ?t = Some (?t, ret, err)"
    using Respond_read_only [OF table_ok_New [OF sample_wf(2)] ok none] by blast
  then have "err = None"
    using nz by (auto simp: Respond_def sample_recv_def query_names Let_def split: option.splits)
  note ret = ret [unfolded this]
  let ?m = "(sample_recv QAnnouncePeer)\<lparr>rm_Msg := (rm_Msg (sample_recv QAnnouncePeer))
        \<lparr>m_A := Some (?a\<lparr>ma_Token := the (rt_Token ret), ma_Port := Some 70000, ma_ImpliedPort := False\<rparr>)\<rparr>\<rparr>"
  have "announce_accepted (\<lambda>b. take 16 b) (\<lambda>a. ''x'') sample_responder ?m"
    using token_roundtrip [OF table_ok_New [OF sample_wf(2)], where a = ?a and m = ?g and m' = ?m and
        ret = ret and p = "Some 70000" and imp = False and ?md5.0 = "\<lambda>b. take 16 b" and
        addr_text = "\<lambda>a. ''x''" and ord = sample_orders and r = sample_responder] nz ret
    by (simp add: sample_recv_def)
  then show ?thesis by blast
qed

text \<open>However queries, responses and timeouts interleave, transaction ids of up to
18446744073709551616 queries are different, a query that ends was started, and the response it
returns was received and carries its own transaction id.\<close>

theorem Query_own_response:
  assumes "server_run evs s" "length (started evs) \<le> 2 ^ 64"
  shows "distinct (started evs) \<and>
    (\<forall>tid r. QEnd tid r \<in> set evs \<longrightarrow> tid \<in> set (started evs) \<and>
       (\<forall>m. fst r = Some m \<longrightarrow> m_T (rm_Msg m) = tid \<and> QResponse m \<in> set evs) \<and>
       (fst r = None \<longrightarrow> snd r \<noteq> None))"
proof -
  have "started evs = map tid_of [0..<length (started evs)]"
    using server_run_inv [OF assms] unfolding server_inv_def counter_ok_def by blast
  then have "distinct (started evs)"
    by (metis distinct_map distinct_upt inj_onI tid_of_inject)
  moreover have "m_T (rm_Msg m) = tid \<and> QResponse m \<in> set evs"
    if "QEnd tid r \<in> set evs" "fst r = Some m" for tid r m
    using server_run_ends [OF assms that(1)] server_run_received [OF assms(1)] that
    unfolding received_inv_def phase_ok_def by fastforce
  ultimately show ?thesis
    using server_run_ends [OF assms] by (auto simp: phase_ok_def)
qed

lemma server_run_start:
  "server_run [QStart (fst (query_start None server_init))] (snd (query_start None server_init))"
  using server_run.step [OF server_run.init server_step.start [of None server_init]] by simp

theorem Query_own_response_witness:
  "\<exists>evs s. server_run evs s \<and> started evs \<noteq> [] \<and> distinct (started evs)"
proof -
  have "length (started [QStart (fst (query_start None server_init))]) \<le> 2 ^ 64"
    by (simp add: started_def)
  from Query_own_response [OF server_run_start this] server_run_start show ?thesis
    by (intro exI [of _ "[QStart (fst (query_start None server_init))]"]
          exI [of _ "snd (query_start None server_init)"]) (simp add: started_def)
qed

text \<open>The reply to a query has its transaction id and always the type of a response, also when
it carries an error; a node that gets such an error reply reports missing return data instead
of the error.\<close>

theorem handleQuery_reply:
  "handleQuery True (Some (ret, Some (DhtErr e))) m = Some reply \<longrightarrow>
     m_T reply = m_T (rm_Msg m) \<and> m_Y reply = YResponse \<and> m_E reply = Some e \<and>
     query_result_of \<lparr>rm_Msg = reply, rm_From = from\<rparr> =
       (Some \<lparr>rm_Msg = reply, rm_From = from\<rparr>, Some (OtherErr ''return data missing from response''))"
  by (auto simp: handleQuery_def Let_def query_result_of_def YResponse_def YError_def)

theorem handleQuery_reply_witness:
  "\<exists>reply. handleQuery True (Some (zero_return, Some (DhtErr ErrInvalidToken))) (sample_recv QPing) = Some reply \<and>
     m_Y reply = YResponse"
proof -
  let ?h = "handleQuery True (Some (zero_return, Some (DhtErr ErrInvalidToken))) (sample_recv QPing)"
  have "?h = Some (the ?h)" by (simp add: handleQuery_def Let_def)
  from handleQuery_reply [of _ _ _ "the ?h" "sample_addr 1", THEN mp, OF this] this show ?thesis by metis
qed

text \<open>No client operation dereferences missing return data, whatever a query returned; but a
response of type error without an error gives an error value that is not nil and panics when
its text is read, never the intended one.\<close>

theorem client_results:
  assumes "server_run evs s" "length (started evs) \<le> 2 ^ 64" "QEnd tid r \<in> set evs"
  shows "client_Ping r \<noteq> None \<and> client_FindNode r \<noteq> None \<and> client_GetPeers r \<noteq> None \<and>
    client_GetPeersScrape r \<noteq> None \<and> client_SampleInfoHashes r \<noteq> None \<and>
    (\<forall>m. fst r = Some m \<longrightarrow> m_Y (rm_Msg m) = YError \<longrightarrow> m_E (rm_Msg m) = None \<longrightarrow>
       (\<exists>e. snd r = Some e \<and> error_text e = None))"
proof -
  have ok: "phase_ok tid (Returning r)" using server_run_ends [OF assms] by simp
  have "\<exists>e. snd r = Some e \<and> error_text e = None"
    if "fst r = Some m" "m_Y (rm_Msg m) = YError" "m_E (rm_Msg m) = None" for m
  proof -
    have "r = query_result_of m" using ok that(1) by (simp add: phase_ok_def)
    with that show ?thesis by (simp add: query_result_of_def error_of_ptr_def)
  qed
  moreover have "with_return r f \<noteq> None" for f by (rule with_return_total [OF ok])
  ultimately show ?thesis
    unfolding client_Ping_def client_FindNode_def client_GetPeers_def client_GetPeersScrape_def
      client_SampleInfoHashes_def by blast
qed

definition sample_error_reply :: recv_msg where
  "sample_error_reply =
     \<lparr>rm_Msg = \<lparr>m_Q = [], m_A = None, m_T = tid_of 0, m_Y = YError, m_R = None, m_E = None\<rparr>,
      rm_From = sample_addr 4\<rparr>"

theorem client_results_witness:
  "\<exists>evs tid r. QEnd tid r \<in> set evs \<and> client_Ping r \<noteq> None \<and> (\<exists>e. snd r = Some e \<and> error_text e = None)"
proof -
  let ?t = "tid_of 0" and ?m = sample_error_reply
  let ?s1 = "\<lparr>sv_next = 1, sv_queries = [?t \<mapsto> []], sv_phase = [?t \<mapsto> Waiting]\<rparr>"
  let ?s2 = "\<lparr>sv_next = 1, sv_queries = [?t \<mapsto> [?m]], sv_phase = [?t \<mapsto> Waiting]\<rparr>"
  let ?r = "query_result_of ?m"
  let ?s3 = "\<lparr>sv_next = 1, sv_queries = [?t \<mapsto> []], sv_phase = [?t \<mapsto> Returning ?r]\<rparr>"
  let ?evs = "[QStart ?t, QResponse ?m, QReceive ?t, QEnd ?t ?r]"
  have s1: "server_run [QStart ?t] ?s1"
    using server_run.step [OF server_run.init, of "QStart ?t" ?s1]
    by (simp add: server_step.start [of None] query_start_def Issue_def server_init_def tid_of_def)
  have s2: "server_run [QStart ?t, QResponse ?m] ?s2"
    using server_run.step [OF s1, of "QResponse ?m" ?s2]
    by (simp add: server_step.response handleResponse_def sample_error_reply_def)
  have s3: "server_run [QStart ?t, QResponse ?m, QReceive ?t] ?s3"
    using server_run.step [OF s2, of "QReceive ?t" ?s3]
    by (simp add: server_step.receive query_receive_def)
  have run: "server_run ?evs (\<lparr>sv_next = 1, sv_queries = Map.empty, sv_phase = Map.empty\<rparr>)"
    using server_run.step [OF s3, of "QEnd ?t ?r" "\<lparr>sv_next = 1, sv_queries = Map.empty, sv_phase = Map.empty\<rparr>"]
    by (simp add: server_step.finish query_end_def)
  have "length (started ?evs) \<le> 2 ^ 64" by (simp add: started_def)
  from client_results [OF run this, of ?t ?r] query_result_of_fst [of ?m]
  have "client_Ping ?r \<noteq> None" "\<exists>e. snd ?r = Some e \<and> error_text e = None"
    by (simp_all add: sample_error_reply_def)
  then show ?thesis by (intro exI [of _ ?evs] exI [of _ ?t] exI [of _ ?r]) simp
qed

end
