(* ===== verification/MetainfoRequester.thy ===== *)
theory MetainfoRequester
  imports ProtocolId
begin

text \<open>
  Fetching a torrent's metadata from a peer
  (\<open>internal/protocol/metainfo/metainforequester/requester.go\<close> and
  \<open>internal/protocol/metainfo/parse.go\<close>): the extension bits, the BitTorrent handshake, the
  extension handshake of BEP 10 and the piece exchange of BEP 9.

  A connection is the bytes the peer will send before it stops (a read past them is the read
  error or the deadline), the bytes written so far, and the number of writes that still succeed
  (\<open>None\<close>: all of them). The protocol string of the third-party package
  \<open>peer_protocol\<close>, the bencode library, SHA-1 and the normalisation of the info are
  parameters. The number of pieces is computed by the code in floating point, exactly for the
  sizes it accepts (below 10 MiB).
\<close>

section \<open>Extension bits\<close>

type_synonym ex_bits = bytes

definition zero_ex_bits :: ex_bits where "zero_ex_bits = replicate 8 0"

definition ExtensionBitDht :: nat where "ExtensionBitDht = 0"
definition ExtensionBitLtep :: nat where "ExtensionBitLtep = 20"

text \<open>\<open>7 - bit/8\<close> is unsigned, so a bit above 63 is an index out of range (\<open>None\<close>).\<close>

definition ex_WithBit :: "ex_bits \<Rightarrow> nat \<Rightarrow> bool \<Rightarrow> ex_bits option" where
  "ex_WithBit pex b on =
     (if b div 8 > 7 then None
      else (let i = 7 - b div 8; m = push_bit (b mod 8) 1 in
            Some (pex[i := (if on then (pex ! i) OR m else (pex ! i) AND NOT m)])))"

definition ex_GetBit :: "ex_bits \<Rightarrow> nat \<Rightarrow> bool option" where
  "ex_GetBit pex b =
     (if b div 8 > 7 then None
      else Some ((pex ! (7 - b div 8)) AND push_bit (b mod 8) 1 \<noteq> 0))"

fun ex_with_bits :: "ex_bits \<Rightarrow> nat list \<Rightarrow> ex_bits option" where
  "ex_with_bits pex [] = Some pex"
| "ex_with_bits pex (b # bs) =
     (case ex_WithBit pex b True of None \<Rightarrow> None | Some pex' \<Rightarrow> ex_with_bits pex' bs)"

definition NewPeerExtensionBits :: "nat list \<Rightarrow> ex_bits option" where
  "NewPeerExtensionBits bs = ex_with_bits zero_ex_bits bs"

definition myExBits :: ex_bits where
  "myExBits = the (NewPeerExtensionBits [ExtensionBitDht, ExtensionBitLtep])"

section \<open>The connection\<close>

datatype req_error =
    DialError | WriteError | ReadError | InvalidHandshake | NoExtensionProtocol | InfohashMismatch
  | MessageTooLong | NotExHandshake | BencodeError string | BadMetadataSize | BadUTMetadata
  | PieceRejected | PieceTooLong | PieceTooShort | TooMuchReceived | WrongInfoHash | BadInfo string

record conn =
  cn_in :: bytes
  cn_out :: bytes
  cn_writes :: "nat option"

definition conn_write :: "bytes \<Rightarrow> conn \<Rightarrow> req_error + conn" where
  "conn_write b c =
     (case cn_writes c of
        None \<Rightarrow> Inr (c\<lparr>cn_out := cn_out c @ b\<rparr>)
      | Some 0 \<Rightarrow> Inl WriteError
      | Some (Suc n) \<Rightarrow> Inr (c\<lparr>cn_out := cn_out c @ b, cn_writes := Some n\<rparr>))"

text \<open>\<open>io.ReadFull\<close>.\<close>

definition read_full :: "nat \<Rightarrow> bytes \<Rightarrow> req_error + bytes \<times> bytes" where
  "read_full n s = (if length s < n then Inl ReadError else Inr (take n s, drop n s))"

section \<open>Messages\<close>

definition maxMetadataSize :: nat where "maxMetadataSize = 10 * 1024 * 1024"

definition uintToBigEndian4 :: "nat \<Rightarrow> bytes" where
  "uintToBigEndian4 i =
     [word_of_nat (i div 2 ^ 24), word_of_nat (i div 2 ^ 16), word_of_nat (i div 2 ^ 8), word_of_nat i]"

definition readMessage :: "bytes \<Rightarrow> req_error + bytes \<times> bytes" where
  "readMessage s =
     bind_sum (read_full 4 s) (\<lambda>(lengthBytes, s1).
       (let len = be_nat lengthBytes in
        if len > maxMetadataSize then Inl MessageTooLong else read_full len s1))"

lemma readMessage_shorter: "readMessage s = Inr (m, s') \<Longrightarrow> length s' < length s"
  by (auto simp: readMessage_def read_full_def bind_sum_Inr_iff Let_def split: if_splits)

text \<open>Extension messages have at least two bytes, the first of which is 20.\<close>

function readExMessage :: "bytes \<Rightarrow> req_error + bytes \<times> bytes" where
  "readExMessage s =
     (case readMessage s of
        Inl e \<Rightarrow> Inl e
      | Inr (m, s') \<Rightarrow>
          (if length m < 2 then readExMessage s'
           else if m ! 0 = 20 then Inr (m, s') else readExMessage s'))"
  by pat_completeness auto
termination by (relation "measure length") (auto simp: readMessage_shorter)

declare readExMessage.simps [simp del]

lemma readExMessage_shorter: "readExMessage s = Inr (m, s') \<Longrightarrow> length s' < length s \<and> 2 \<le> length m"
proof (induction s rule: readExMessage.induct)
  case (1 s)
  show ?case
  proof (cases "readMessage s")
    case (Inl e)
    then show ?thesis using 1(3) by (simp add: readExMessage.simps [of s])
  next
    case (Inr p)
    obtain m1 s1 where p: "p = (m1, s1)" by (cases p)
    have "length s1 < length s" using Inr p readMessage_shorter by blast
    then show ?thesis
      using 1(1) [OF Inr p [symmetric]] 1(2) [OF Inr p [symmetric]] 1(3) Inr p
      by (auto simp: readExMessage.simps [of s] split: if_splits)
  qed
qed

function readUmMessage :: "bytes \<Rightarrow> req_error + bytes \<times> bytes" where
  "readUmMessage s =
     (case readExMessage s of
        Inl e \<Rightarrow> Inl e
      | Inr (m, s') \<Rightarrow> (if m ! 1 = 1 then Inr (m, s') else readUmMessage s'))"
  by pat_completeness auto
termination by (relation "measure length") (auto simp: readExMessage_shorter)

declare readUmMessage.simps [simp del]

section \<open>Handshakes\<close>

record handshake_info =
  hi_PeerID :: ID
  hi_ExBits :: ex_bits

text \<open>A handshake of another length than 68 bytes panics.\<close>

definition btHandshake ::
  "bytes \<Rightarrow> ID \<Rightarrow> ID \<Rightarrow> conn \<Rightarrow> (req_error, handshake_info \<times> conn) outcome" where
  "btHandshake proto infoHash clientID c =
     (let handshakeBytes = proto @ myExBits @ infoHash @ clientID in
      case conn_write handshakeBytes c of
        Inl e \<Rightarrow> Fail e
      | Inr c1 \<Rightarrow>
          (if length handshakeBytes \<noteq> 68 then Panic
           else (case read_full 68 (cn_in c1) of
                   Inl e \<Rightarrow> Fail e
                 | Inr (res, rest) \<Rightarrow>
                     (if take (length proto) res \<noteq> proto then Fail InvalidHandshake
                      else (let peerExBits = take 8 (drop 20 res) in
                            if ex_GetBit peerExBits ExtensionBitLtep \<noteq> Some True then Fail NoExtensionProtocol
                            else if take 20 (drop 28 res) \<noteq> infoHash then Fail InfohashMismatch
                            else Ret (\<lparr>hi_PeerID = take 20 (drop 48 res), hi_ExBits = peerExBits\<rparr>,
                                      c1\<lparr>cn_in := rest\<rparr>))))))"

definition exHandshakeMsg :: bytes where
  "exHandshakeMsg = [0, 0, 0, 26, 20, 0] @ bytes_of_string ''d1:md11:ut_metadatai1eee''"

text \<open>\<open>dec_root\<close> is \<open>bencode.Unmarshal\<close> into \<open>rootDict\<close>: the metadata size and the
peer's message id for the ut\_metadata extension.\<close>

definition exHandshake ::
  "(bytes \<Rightarrow> string + int \<times> int) \<Rightarrow> conn \<Rightarrow> req_error + (nat \<times> byte) \<times> conn" where
  "exHandshake dec_root c =
     bind_sum (conn_write exHandshakeMsg c) (\<lambda>c1.
     bind_sum (readExMessage (cn_in c1)) (\<lambda>(m, rest).
       if m ! 1 \<noteq> 0 then Inl NotExHandshake
       else (case dec_root (drop 2 m) of
               Inl e \<Rightarrow> Inl (BencodeError e)
             | Inr (sz, utMetadata) \<Rightarrow>
                 (if 0 \<ge> sz \<or> sz \<ge> int maxMetadataSize then Inl BadMetadataSize
                  else if 0 \<ge> utMetadata \<or> utMetadata \<ge> 255 then Inl BadUTMetadata
                  else Inr ((nat sz, word_of_int utMetadata), c1\<lparr>cn_in := rest\<rparr>)))))"

section \<open>Pieces\<close>

definition pieceSize :: nat where "pieceSize = 2 ^ 14"

definition nPieces :: "nat \<Rightarrow> nat" where
  "nPieces metadataSize = (metadataSize + (pieceSize - 1)) div pieceSize"

text \<open>\<open>enc_ext\<close> is \<open>bencode.Marshal\<close> of a message type and a piece.\<close>

definition pieceRequest :: "(int \<Rightarrow> int \<Rightarrow> bytes) \<Rightarrow> byte \<Rightarrow> nat \<Rightarrow> bytes" where
  "pieceRequest enc_ext utMetadata piece =
     (let extDictDump = enc_ext 0 (int piece) in
      uintToBigEndian4 (2 + length extDictDump) @ [20] @ [utMetadata] @ extDictDump)"

fun request_pieces :: "(int \<Rightarrow> int \<Rightarrow> bytes) \<Rightarrow> byte \<Rightarrow> nat list \<Rightarrow> conn \<Rightarrow> req_error + conn" where
  "request_pieces enc_ext utMetadata [] c = Inr c"
| "request_pieces enc_ext utMetadata (p # ps) c =
     bind_sum (conn_write (pieceRequest enc_ext utMetadata p) c) (request_pieces enc_ext utMetadata ps)"

definition requestAllPieces :: "(int \<Rightarrow> int \<Rightarrow> bytes) \<Rightarrow> nat \<Rightarrow> byte \<Rightarrow> conn \<Rightarrow> req_error + conn" where
  "requestAllPieces enc_ext metadataSize utMetadata c =
     request_pieces enc_ext utMetadata [0..<nPieces metadataSize] c"

text \<open>
  \<open>piece*int(math.Pow(2, 14))\<close> wraps at 64 bits. \<open>copy(b[lo:hi], p)\<close> panics unless
  \<open>0 \<le> lo \<le> hi \<le> cap(b)\<close>.
\<close>

definition int64 :: "int \<Rightarrow> int" where
  "int64 n = sint (word_of_int n :: 64 word)"

definition copy_piece :: "bytes \<Rightarrow> int \<Rightarrow> bytes \<Rightarrow> bytes option" where
  "copy_piece b piece p =
     (let lo = int64 (piece * 2 ^ 14); hi = int64 (lo + int (length p)) in
      if 0 \<le> lo \<and> lo \<le> hi \<and> hi \<le> int (length b)
      then Some (take (nat lo) b @ p @ drop (nat hi) b) else None)"

text \<open>
  One message of the loop. \<open>dec_ext\<close> decodes the dictionary at the front of a message: the
  message type and the piece, and the unread bytes.
\<close>

definition piece_step ::
  "(bytes \<Rightarrow> string + (int \<times> int) \<times> bytes) \<Rightarrow> nat \<Rightarrow> bytes \<Rightarrow> nat \<Rightarrow> bytes \<Rightarrow>
   (req_error, nat \<times> bytes) outcome" where
  "piece_step dec_ext metadataSize m receivedSize buf =
     (case dec_ext (drop 2 m) of
        Inl e \<Rightarrow> Fail (BencodeError e)
      | Inr ((msgType, piece), metadataPiece) \<Rightarrow>
          (if msgType = 2 then Fail PieceRejected
           else if msgType = 1 then
             (if length metadataPiece > 16 * 1024 then Fail PieceTooLong
              else (let receivedSize' = receivedSize + length metadataPiece in
                    if length metadataPiece < 16 * 1024 \<and> receivedSize' \<noteq> metadataSize then Fail PieceTooShort
                    else if receivedSize' > metadataSize then Fail TooMuchReceived
                    else (case copy_piece buf piece metadataPiece of
                            None \<Rightarrow> Panic
                          | Some buf' \<Rightarrow> Ret (receivedSize', buf'))))
           else Ret (receivedSize, buf)))"

lemma readUmMessage_shorter: "readUmMessage s = Inr (m, s') \<Longrightarrow> length s' < length s \<and> 2 \<le> length m"
proof (induction s rule: readUmMessage.induct)
  case (1 s)
  show ?case
  proof (cases "readExMessage s")
    case (Inl e)
    then show ?thesis using 1(2) by (simp add: readUmMessage.simps [of s])
  next
    case (Inr p)
    obtain m1 s1 where p: "p = (m1, s1)" by (cases p)
    have "length s1 < length s \<and> 2 \<le> length m1" using Inr p readExMessage_shorter by blast
    then show ?thesis
      using 1(1) [OF Inr p [symmetric]] 1(2) Inr p
      by (auto simp: readUmMessage.simps [of s] split: if_splits)
  qed
qed

function readPieces ::
  "(bytes \<Rightarrow> string + (int \<times> int) \<times> bytes) \<Rightarrow> nat \<Rightarrow> nat \<Rightarrow> bytes \<Rightarrow> bytes \<Rightarrow>
   (req_error, bytes \<times> bytes) outcome" where
  "readPieces dec_ext metadataSize receivedSize buf s =
     (if receivedSize < metadataSize then
        (case readUmMessage s of
           Inl e \<Rightarrow> Fail e
         | Inr (m, s') \<Rightarrow>
             (case piece_step dec_ext metadataSize m receivedSize buf of
                Panic \<Rightarrow> Panic
              | Fail e \<Rightarrow> Fail e
              | Ret (receivedSize', buf') \<Rightarrow> readPieces dec_ext metadataSize receivedSize' buf' s'))
      else Ret (buf, s))"
  by pat_completeness auto
termination by (relation "measure (\<lambda>(d, n, r, b, s). length s)") (auto simp: readUmMessage_shorter)

declare readPieces.simps [simp del]

definition readAllPieces ::
  "(bytes \<Rightarrow> string + (int \<times> int) \<times> bytes) \<Rightarrow> nat \<Rightarrow> bytes \<Rightarrow> (req_error, bytes \<times> bytes) outcome" where
  "readAllPieces dec_ext metadataSize s = readPieces dec_ext metadataSize 0 (replicate metadataSize 0) s"

section \<open>parse.go and Request\<close>

definition ParseMetaInfoBytes ::
  "(bytes \<Rightarrow> ID) \<Rightarrow> (bytes \<Rightarrow> string + 'i) \<Rightarrow> ('i \<Rightarrow> 'i) \<Rightarrow> ID \<Rightarrow> bytes \<Rightarrow> req_error + 'i" where
  "ParseMetaInfoBytes sha1 unmarshal norm_info infoHash b =
     (if sha1 b \<noteq> infoHash then Inl WrongInfoHash
      else (case unmarshal b of Inl e \<Rightarrow> Inl (BadInfo e) | Inr info \<Rightarrow> Inr (norm_info info)))"

record codec =
  cd_root :: "bytes \<Rightarrow> string + int \<times> int"
  cd_enc :: "int \<Rightarrow> int \<Rightarrow> bytes"
  cd_ext :: "bytes \<Rightarrow> string + (int \<times> int) \<times> bytes"

record 'i response =
  rs_handshake :: handshake_info
  rs_info :: 'i
  rs_raw :: bytes

text \<open>\<open>connect\<close> is the result of dialling.\<close>

definition Request ::
  "(bytes \<Rightarrow> ID) \<Rightarrow> (bytes \<Rightarrow> string + 'i) \<Rightarrow> ('i \<Rightarrow> 'i) \<Rightarrow> bytes \<Rightarrow> codec \<Rightarrow> ID \<Rightarrow>
   req_error + conn \<Rightarrow> ID \<Rightarrow> (req_error, 'i response) outcome" where
  "Request sha1 unmarshal norm_info proto cd clientID connect infoHash =
     (case connect of
        Inl e \<Rightarrow> Fail e
      | Inr c \<Rightarrow>
          (case btHandshake proto infoHash clientID c of
             Panic \<Rightarrow> Panic
           | Fail e \<Rightarrow> Fail e
           | Ret (hsInfo, c1) \<Rightarrow>
               (case exHandshake (cd_root cd) c1 of
                  Inl e \<Rightarrow> Fail e
                | Inr ((metadataSize, utMetadata), c2) \<Rightarrow>
                    (case requestAllPieces (cd_enc cd) metadataSize utMetadata c2 of
                       Inl e \<Rightarrow> Fail e
                     | Inr c3 \<Rightarrow>
                         (case readAllPieces (cd_ext cd) metadataSize (cn_in c3) of
                            Panic \<Rightarrow> Panic
                          | Fail e \<Rightarrow> Fail e
                          | Ret (pieces, _) \<Rightarrow>
                              (case ParseMetaInfoBytes sha1 unmarshal norm_info infoHash pieces of
                                 Inl e \<Rightarrow> Fail e
                               | Inr parsed \<Rightarrow>
                                   Ret \<lparr>rs_handshake = hsInfo, rs_info = parsed, rs_raw = pieces\<rparr>))))))"

section \<open>Framing\<close>

definition frame :: "bytes \<Rightarrow> bytes" where
  "frame m = uintToBigEndian4 (length m) @ m"

lemma be_nat_uint4: "i < 2 ^ 32 \<Longrightarrow> be_nat (uintToBigEndian4 i) = i"
proof -
  assume i: "i < 2 ^ 32"
  have u: "unat (word_of_nat k :: byte) = k mod 256" for k by (simp add: unat_of_nat)
  have "i div 2 ^ 24 < 256" using i by (simp add: less_mult_imp_div_less)
  then show ?thesis
    using mod_mult2_eq [of i 256 256] mod_mult2_eq [of i 65536 256] div_mult_mod_eq [of i 16777216]
    by (simp add: uintToBigEndian4_def u)
qed

lemma readMessage_frame: "length m \<le> maxMetadataSize \<Longrightarrow> readMessage (frame m @ s) = Inr (m, s)"
proof -
  assume m: "length m \<le> maxMetadataSize"
  have four: "length (uintToBigEndian4 i) = 4" for i by (simp add: uintToBigEndian4_def)
  have "be_nat (uintToBigEndian4 (length m)) = length m"
    using m by (intro be_nat_uint4) (simp add: maxMetadataSize_def)
  then show ?thesis
    using m by (simp add: readMessage_def read_full_def frame_def four Let_def)
qed

definition um_message :: "bytes \<Rightarrow> bool" where
  "um_message m \<longleftrightarrow> 2 \<le> length m \<and> m ! 0 = 20 \<and> m ! 1 = 1"

definition frames :: "bytes list \<Rightarrow> bytes" where
  "frames ms = concat (map frame ms)"

lemma frames_simps [simp]: "frames [] = []" "frames (m # ms) = frame m @ frames ms"
  by (simp_all add: frames_def)

lemma readExMessage_frame:
  "length m \<le> maxMetadataSize \<Longrightarrow> readExMessage (frame m @ s) =
     (if 2 \<le> length m \<and> m ! 0 = 20 then Inr (m, s) else readExMessage s)"
  by (subst readExMessage.simps) (simp add: readMessage_frame)

lemma readUmMessage_frame:
  "length m \<le> maxMetadataSize \<Longrightarrow> readUmMessage (frame m @ s) =
     (if um_message m then Inr (m, s) else readUmMessage s)"
  by (subst readUmMessage.simps)
     (simp add: readExMessage_frame um_message_def readUmMessage.simps [of s])

text \<open>Whatever else the peer sends in between is skipped.\<close>

lemma readUmMessage_noise:
  assumes "\<forall>m \<in> set noise. length m \<le> maxMetadataSize \<and> \<not> um_message m"
    and "length m \<le> maxMetadataSize" "um_message m"
  shows "readUmMessage (frames noise @ frame m @ s) = Inr (m, s)"
  using assms(1)
proof (induction noise)
  case Nil
  show ?case using assms(2,3) by (simp add: readUmMessage_frame)
next
  case (Cons x noise)
  then show ?case by (simp add: readUmMessage_frame)
qed

section \<open>An honest peer\<close>

definition chunk :: "bytes \<Rightarrow> nat \<Rightarrow> bytes" where
  "chunk md p = take pieceSize (drop (p * pieceSize) md)"

lemma pieceSize_pos [simp]: "0 < pieceSize"
  by (simp add: pieceSize_def)

lemma chunk_length: "length (chunk md p) = min pieceSize (length md - p * pieceSize)"
  by (simp add: chunk_def)

lemma nPieces_bounds:
  assumes "0 < n"
  shows "pieceSize * (nPieces n - 1) < n" "n \<le> pieceSize * nPieces n" "0 < nPieces n"
proof -
  have q: "nPieces n = (n - 1) div pieceSize + 1"
    using assms by (simp add: nPieces_def pieceSize_def)
  have e: "nPieces n - 1 = (n - 1) div pieceSize" using q by simp
  have "pieceSize * ((n - 1) div pieceSize) \<le> n - 1" by (rule times_div_less_eq_dividend)
  then show "pieceSize * (nPieces n - 1) < n" unfolding e using assms by linarith
  have "n - 1 < pieceSize * ((n - 1) div pieceSize + 1)"
    by (metis Suc_eq_plus1 dividend_less_times_div mult_Suc_right add.commute pieceSize_pos)
  then show "n \<le> pieceSize * nPieces n" using q by simp
  show "0 < nPieces n" using q by simp
qed

lemma int64_id: "- (2 ^ 63) \<le> x \<Longrightarrow> x < 2 ^ 63 \<Longrightarrow> int64 x = x"
  by (simp add: int64_def signed_of_int signed_take_bit_int_eq_self)

lemma copy_piece_in_range:
  assumes "p * pieceSize + length c \<le> length b" "length b < maxMetadataSize"
  shows "copy_piece b (int p) c = Some (take (p * pieceSize) b @ c @ drop (p * pieceSize + length c) b)"
proof -
  define lo hi where "lo = p * pieceSize" and "hi = p * pieceSize + length c"
  have lt: "lo < 10485760" "hi < 10485760" "lo \<le> hi" "hi \<le> length b"
    using assms by (simp_all add: lo_def hi_def maxMetadataSize_def)
  have "int p * 2 ^ 14 = int lo" by (simp add: lo_def pieceSize_def)
  then have l: "int64 (int p * 2 ^ 14) = int lo" using lt(1) by (simp add: int64_id)
  have "int lo + int (length c) = int hi" by (simp add: lo_def hi_def)
  then have h: "int64 (int lo + int (length c)) = int hi" using lt(2) by (simp add: int64_id)
  have "copy_piece b (int p) c = Some (take lo b @ c @ drop hi b)"
    unfolding copy_piece_def Let_def l h using lt(3,4) by simp
  then show ?thesis by (simp add: lo_def hi_def)
qed

definition done_ok :: "bytes \<Rightarrow> nat set \<Rightarrow> bytes \<Rightarrow> bool" where
  "done_ok md D b \<longleftrightarrow> length b = length md \<and> (\<forall>i < length md. i div pieceSize \<in> D \<longrightarrow> b ! i = md ! i)"

lemma done_ok_copy:
  assumes "done_ok md D b" "length md < maxMetadataSize" "p * pieceSize < length md"
  obtains b' where "copy_piece b (int p) (chunk md p) = Some b'" "done_ok md (insert p D) b'"
proof
  let ?lo = "p * pieceSize" and ?c = "chunk md p"
  let ?b' = "take ?lo b @ ?c @ drop (?lo + length ?c) b"
  have len: "length b = length md" using assms(1) by (simp add: done_ok_def)
  have fit: "?lo + length ?c \<le> length b" using assms(3) len by (simp add: chunk_length)
  then show "copy_piece b (int p) ?c = Some ?b'" using assms(2) len by (intro copy_piece_in_range) simp_all
  have "?b' ! i = md ! i" if i: "i < length md" "i div pieceSize \<in> insert p D" for i
  proof (cases "i div pieceSize = p")
    case True
    then have "?lo \<le> i" "i < ?lo + pieceSize"
      using div_times_less_eq_dividend [of i pieceSize] dividend_less_div_times [OF pieceSize_pos, of i]
      by (simp_all add: add.commute)
    moreover from this have "i - ?lo < length ?c" using i(1)
      unfolding chunk_length min_less_iff_conj by (intro conjI; linarith)
    ultimately show ?thesis using fit len i by (simp add: nth_append chunk_def)
  next
    case False
    then have "i < ?lo \<or> ?lo + pieceSize \<le> i"
      by (metis add.commute div_nat_eqI linorder_not_less mult.commute mult_Suc)
    then have "?b' ! i = b ! i"
      using fit len i(1) assms(3) by (auto simp: nth_append chunk_length min_def split: if_splits)
    then show ?thesis using assms(1) i False by (simp add: done_ok_def)
  qed
  moreover have "length ?b' = length md" using fit len by simp
  ultimately show "done_ok md (insert p D) ?b'" by (simp add: done_ok_def)
qed

text \<open>A peer's messages: \<open>msg p\<close> carries piece \<open>p\<close> of the metadata \<open>md\<close>, and before
it come messages the code ignores.\<close>

definition honest ::
  "(bytes \<Rightarrow> string + (int \<times> int) \<times> bytes) \<Rightarrow> bytes \<Rightarrow> (nat \<Rightarrow> bytes list) \<Rightarrow> (nat \<Rightarrow> bytes) \<Rightarrow> bool" where
  "honest dec_ext md noise msg \<longleftrightarrow> 0 < length md \<and> length md < maxMetadataSize \<and>
     (\<forall>p < nPieces (length md).
        (\<forall>m \<in> set (noise p). length m \<le> maxMetadataSize \<and> \<not> um_message m) \<and>
        length (msg p) \<le> maxMetadataSize \<and> um_message (msg p) \<and>
        dec_ext (drop 2 (msg p)) = Inr ((1, int p), chunk md p))"

definition peer_stream :: "(nat \<Rightarrow> bytes list) \<Rightarrow> (nat \<Rightarrow> bytes) \<Rightarrow> nat list \<Rightarrow> bytes" where
  "peer_stream noise msg order = concat (map (\<lambda>p. frames (noise p) @ frame (msg p)) order)"

lemma peer_stream_simps [simp]:
  "peer_stream noise msg [] = []"
  "peer_stream noise msg (p # ps) = frames (noise p) @ frame (msg p) @ peer_stream noise msg ps"
  by (simp_all add: peer_stream_def)

lemma peer_stream_append:
  "peer_stream noise msg (xs @ ys) = peer_stream noise msg xs @ peer_stream noise msg ys"
  by (simp add: peer_stream_def)

lemma readPieces_one:
  assumes h: "honest dec_ext md noise msg" and p: "p < nPieces (length md)"
    and r: "r < length md" "length (chunk md p) = pieceSize \<or> r + length (chunk md p) = length md"
      "r + length (chunk md p) \<le> length md"
    and b: "done_ok md D b"
  obtains b' where "readPieces dec_ext (length md) r b (frames (noise p) @ frame (msg p) @ s) =
      readPieces dec_ext (length md) (r + length (chunk md p)) b' s" "done_ok md (insert p D) b'"
proof -
  have md: "0 < length md" "length md < maxMetadataSize" using h by (simp_all add: honest_def)
  have "pieceSize * p \<le> pieceSize * (nPieces (length md) - 1)" using p by (intro mult_le_mono2) simp
  then have "p * pieceSize < length md"
    using nPieces_bounds(1) [OF md(1)] by (metis le_less_trans mult.commute)
  from done_ok_copy [OF b md(2) this] obtain b' where
    b': "copy_piece b (int p) (chunk md p) = Some b'" "done_ok md (insert p D) b'" .
  have "readUmMessage (frames (noise p) @ frame (msg p) @ s) = Inr (msg p, s)"
    using h p by (intro readUmMessage_noise) (auto simp: honest_def)
  moreover have "piece_step dec_ext (length md) (msg p) r b = Ret (r + length (chunk md p), b')"
    using h p r b'(1) chunk_length [of md p]
    by (auto simp: piece_step_def honest_def pieceSize_def Let_def)
  ultimately show thesis
    using r(1) b'(2) by (intro that) (subst readPieces.simps, simp)
qed

lemma readPieces_order:
  assumes h: "honest dec_ext md noise msg" and b: "done_ok md D b"
    and order: "\<forall>p \<in> set order. p < nPieces (length md) - 1" "k + length order \<le> nPieces (length md) - 1"
  shows "\<exists>b'. readPieces dec_ext (length md) (k * pieceSize) b (peer_stream noise msg order @ s) =
      readPieces dec_ext (length md) ((k + length order) * pieceSize) b' s \<and> done_ok md (D \<union> set order) b'"
  using b order
proof (induction order arbitrary: k b D)
  case Nil
  then show ?case by auto
next
  case (Cons p order)
  have md: "0 < length md" using h by (simp add: honest_def)
  have p: "p < nPieces (length md)" "p < nPieces (length md) - 1" using Cons.prems(2) by auto
  have "pieceSize * Suc p \<le> pieceSize * (nPieces (length md) - 1)" using p by (intro mult_le_mono2) simp
  then have full: "length (chunk md p) = pieceSize"
    using nPieces_bounds(1) [OF md] by (simp add: chunk_length mult.commute)
  have "pieceSize * Suc k \<le> pieceSize * (nPieces (length md) - 1)"
    using Cons.prems(3) by (intro mult_le_mono2) simp
  then have k: "k * pieceSize + pieceSize \<le> length md"
    using nPieces_bounds(1) [OF md] by (simp add: mult.commute)
  then have lt: "k * pieceSize < length md" using pieceSize_pos by linarith
  obtain b1 where
    step: "readPieces dec_ext (length md) (k * pieceSize) b
        (frames (noise p) @ frame (msg p) @ peer_stream noise msg order @ s) =
      readPieces dec_ext (length md) (k * pieceSize + length (chunk md p)) b1 (peer_stream noise msg order @ s)"
      and b1: "done_ok md (insert p D) b1"
    by (rule readPieces_one [OF h p(1) lt _ _ Cons.prems(1), of "peer_stream noise msg order @ s"])
       (use full k in auto)
  have "k * pieceSize + length (chunk md p) = Suc k * pieceSize" using full by simp
  moreover obtain b' where
    "readPieces dec_ext (length md) (Suc k * pieceSize) b1 (peer_stream noise msg order @ s) =
       readPieces dec_ext (length md) ((Suc k + length order) * pieceSize) b' s"
    "done_ok md (insert p D \<union> set order) b'"
    using Cons.IH [OF b1, of "Suc k"] Cons.prems(2,3) by auto
  ultimately show ?case using step by (intro exI [of _ b']) (simp add: add.commute)
qed

lemma btHandshake_ltep:
  "btHandshake proto infoHash clientID c = Ret (hs, c') \<Longrightarrow>
     ex_GetBit (hi_ExBits hs) ExtensionBitLtep = Some True"
  by (auto simp: btHandshake_def Let_def split: sum.splits prod.splits if_splits)

section \<open>Properties\<close>

text \<open>An honest peer's metadata arrives: whatever the order of the full pieces (the shorter last
one comes last, as the code demands) and whatever other messages come in between, reading all
pieces returns the metadata and leaves the rest of the stream.\<close>

theorem readAllPieces_honest:
  assumes "honest dec_ext md noise msg" "distinct order" "set order = {..< nPieces (length md) - 1}"
  shows "readAllPieces dec_ext (length md)
      (peer_stream noise msg (order @ [nPieces (length md) - 1]) @ s) = Ret (md, s)"
proof -
  let ?n = "nPieces (length md) - 1"
  have md: "0 < length md" using assms(1) by (simp add: honest_def)
  note b = nPieces_bounds [OF md]
  have "length order = ?n" using distinct_card [OF assms(2)] assms(3) by simp
  moreover have "done_ok md {} (replicate (length md) 0)" by (simp add: done_ok_def)
  ultimately obtain b1 where
    first: "readPieces dec_ext (length md) 0 (replicate (length md) 0)
        (peer_stream noise msg order @ (frames (noise ?n) @ frame (msg ?n) @ s)) =
      readPieces dec_ext (length md) (?n * pieceSize) b1 (frames (noise ?n) @ frame (msg ?n) @ s)"
    and b1: "done_ok md (set order) b1"
    using readPieces_order [OF assms(1), of "{}" "replicate (length md) 0" order 0
        "frames (noise ?n) @ frame (msg ?n) @ s"] assms(3) by auto
  have last: "?n < nPieces (length md)" using b(3) by simp
  have lt: "?n * pieceSize < length md" using b(1) by (simp add: mult.commute)
  have "length md \<le> ?n * pieceSize + pieceSize"
    using b(2,3) by (metis Suc_pred' add.commute mult.commute mult_Suc)
  then have len: "?n * pieceSize + length (chunk md ?n) = length md"
    using lt by (simp add: chunk_length)
  obtain b2 where
    "readPieces dec_ext (length md) (?n * pieceSize) b1 (frames (noise ?n) @ frame (msg ?n) @ s) =
       readPieces dec_ext (length md) (?n * pieceSize + length (chunk md ?n)) b2 s"
    and b2: "done_ok md (insert ?n (set order)) b2"
    by (rule readPieces_one [OF assms(1) last lt _ _ b1, of s]) (use len in auto)
  then have second: "readPieces dec_ext (length md) (?n * pieceSize) b1
      (frames (noise ?n) @ frame (msg ?n) @ s) = Ret (b2, s)" unfolding len by (simp add: readPieces.simps [of _ "length md" "length md"])
  have "b2 = md"
  proof (rule nth_equalityI)
    show "length b2 = length md" using b2 by (simp add: done_ok_def)
    fix i assume i: "i < length b2"
    then have "i < length md" using b2 by (simp add: done_ok_def)
    then have "i div pieceSize < nPieces (length md)"
      using b(2) by (metis le_trans less_mult_imp_div_less mult.commute not_le)
    then have "i div pieceSize = ?n \<or> i div pieceSize < ?n" by linarith
    then have "i div pieceSize \<in> insert ?n (set order)"
      using assms(3) by (metis insertI1 insertI2 lessThan_iff)
    with \<open>i < length md\<close> show "b2 ! i = md ! i" using b2 unfolding done_ok_def by blast
  qed
  have "readAllPieces dec_ext (length md) (peer_stream noise msg (order @ [?n]) @ s) =
      readPieces dec_ext (length md) 0 (replicate (length md) 0)
        (peer_stream noise msg order @ (frames (noise ?n) @ frame (msg ?n) @ s))"
    by (simp only: readAllPieces_def peer_stream_append peer_stream_simps append_assoc append_Nil2)
  also note first
  also note second
  finally show ?thesis by (simp only: \<open>b2 = md\<close>)
qed

definition sample_dec :: "bytes \<Rightarrow> string + (int \<times> int) \<times> bytes" where
  "sample_dec b = (case b of [] \<Rightarrow> Inl ''EOF'' | t # rest \<Rightarrow> Inr ((1, sint t), rest))"

theorem readAllPieces_honest_witness:
  "readAllPieces sample_dec 3 (frame [] @ frame [4, 9] @ frame [20, 1, 0, 7, 8, 9] @ [42]) = Ret ([7, 8, 9], [42])"
proof -
  have n: "nPieces (Suc (Suc (Suc 0))) = 1" by (simp add: nPieces_def pieceSize_def)
  then have "honest sample_dec [7, 8, 9] (\<lambda>p. [[], [4, 9]]) (\<lambda>p. [20, 1, 0, 7, 8, 9])"
    by (auto simp: honest_def maxMetadataSize_def um_message_def sample_dec_def chunk_def pieceSize_def)
  from readAllPieces_honest [OF this, of "[]" "[42]"] n show ?thesis by (simp add: numeral_3_eq_3)
qed

text \<open>C40. What a successful request returns has the SHA-1 of the info hash asked for, the size
announced in the extension handshake bounds it, and the peer proved to speak the extension
protocol; the handshake panics on no input.\<close>

theorem Request_authentic:
  assumes "length proto = 20" "wf_id infoHash" "wf_id clientID"
  shows "btHandshake proto infoHash clientID c \<noteq> Panic \<and>
    (Request sha1 unmarshal norm_info proto cd clientID connect infoHash = Ret r \<longrightarrow>
       sha1 (rs_raw r) = infoHash \<and>
       (\<exists>info. unmarshal (rs_raw r) = Inr info \<and> rs_info r = norm_info info) \<and>
       ex_GetBit (hi_ExBits (rs_handshake r)) ExtensionBitLtep = Some True)"
proof -
  have "length myExBits = 8"
    by (simp add: myExBits_def NewPeerExtensionBits_def ExtensionBitDht_def ExtensionBitLtep_def
        ex_WithBit_def zero_ex_bits_def Let_def)
  then have np: "btHandshake proto infoHash clientID c \<noteq> Panic"
    using assms by (simp add: btHandshake_def wf_id_def Let_def split: sum.split prod.split)
  show ?thesis
    using np
    by (auto simp: Request_def ParseMetaInfoBytes_def dest: btHandshake_ltep
        split: sum.splits outcome.splits prod.splits if_splits)
qed

text \<open>A peer of the protocol whose name is twenty ones, with one byte of metadata.\<close>

definition sample_conn :: conn where
  "sample_conn = \<lparr>cn_in = replicate 20 1 @ myExBits @ replicate 40 0 @ frame [20, 0] @ frame [20, 1, 0, 7],
     cn_out = [], cn_writes = None\<rparr>"

definition sample_codec :: codec where
  "sample_codec = \<lparr>cd_root = (\<lambda>_. Inr (1, 1)), cd_enc = (\<lambda>_ _. []), cd_ext = sample_dec\<rparr>"

theorem Request_authentic_witness:
  "\<exists>r. Request (\<lambda>_. zero_id) (\<lambda>b. Inr b) rev (replicate 20 1) sample_codec zero_id (Inr sample_conn) zero_id = Ret r \<and>
     ex_GetBit (hi_ExBits (rs_handshake r)) ExtensionBitLtep = Some True"
proof -
  let ?R = "Request (\<lambda>_. zero_id) (\<lambda>b. Inr b) rev (replicate 20 1) sample_codec zero_id (Inr sample_conn) zero_id"
  have bits: "myExBits = [0, 0, 0, 0, 0, 16, 0, 1]"
  proof -
    have z: "zero_ex_bits = [0, 0, 0, 0, 0, 0, 0, 0]" unfolding zero_ex_bits_def by code_simp
    have seven: "[0, 0, 0, 0, 0, 0, 0, 0 :: byte][7 := 1] = [0, 0, 0, 0, 0, 0, 0, 1]" by code_simp
    have five: "[0, 0, 0, 0, 0, 0, 0, 1 :: byte][5 := 16] = [0, 0, 0, 0, 0, 16, 0, 1]" by code_simp
    show ?thesis
      by (simp add: myExBits_def NewPeerExtensionBits_def ExtensionBitDht_def ExtensionBitLtep_def
          ex_WithBit_def z seven five)
  qed
  let ?rest = "frame [20, 0] @ frame [20, 1, 0, 7]"
  have ltep: "ex_GetBit myExBits ExtensionBitLtep = Some True"
    by (simp add: bits ex_GetBit_def ExtensionBitLtep_def)
  have z: "length zero_id = 20" "take 20 (replicate 40 (0 :: byte)) = zero_id"
    "take 20 (drop 20 (replicate 40 (0 :: byte))) = zero_id" "length myExBits = 8"
    by (simp_all add: zero_id_def bits)
  obtain c1 where hs: "btHandshake (replicate 20 1) zero_id zero_id sample_conn =
      Ret (\<lparr>hi_PeerID = zero_id, hi_ExBits = myExBits\<rparr>, c1)" and c1: "cn_in c1 = ?rest" "cn_writes c1 = None"
    using ltep z by (simp add: btHandshake_def conn_write_def read_full_def sample_conn_def Let_def)
  obtain c2 where ex: "exHandshake (cd_root sample_codec) c1 = Inr ((1, 1), c2)"
    and c2: "cn_in c2 = frame [20, 1, 0, 7]" "cn_writes c2 = None"
    using c1 by (simp add: exHandshake_def conn_write_def readExMessage_frame maxMetadataSize_def
        sample_codec_def)
  have one: "nPieces (Suc 0) = 1" by (simp add: nPieces_def pieceSize_def)
  obtain c3 where rq: "requestAllPieces (cd_enc sample_codec) 1 1 c2 = Inr c3"
    and c3: "cn_in c3 = frame [20, 1, 0, 7] @ []"
    using c2 by (simp add: requestAllPieces_def conn_write_def one)
  have "piece_step sample_dec 1 [20, 1, 0, 7] 0 [0] = Ret (1, [7])"
    by (simp add: piece_step_def sample_dec_def copy_piece_def int64_id Let_def)
  then have rd: "readAllPieces (cd_ext sample_codec) 1 (cn_in c3) = Ret ([7], [])"
    unfolding c3 using readUmMessage_frame [of "[20, 1, 0, 7]" "[]"]
    by (simp add: readAllPieces_def readPieces.simps maxMetadataSize_def um_message_def sample_codec_def)
  have run: "?R = Ret \<lparr>rs_handshake = \<lparr>hi_PeerID = zero_id, hi_ExBits = myExBits\<rparr>, rs_info = [7], rs_raw = [7]\<rparr>"
    using hs ex rq rd by (simp add: Request_def ParseMetaInfoBytes_def)
  from Request_authentic [of "replicate 20 1" zero_id zero_id, THEN conjunct2, rule_format, OF _ _ _ run]
  have "ex_GetBit myExBits ExtensionBitLtep = Some True" by (simp add: wf_id_def zero_id_def)
  with run show ?thesis by simp
qed

text \<open>A peer that labels its piece with an index beyond the metadata, or with a negative one,
makes the requester panic, although the message passes every check on its length.\<close>

theorem readAllPieces_bad_index_panics:
  assumes "length m \<le> maxMetadataSize" "um_message m" "0 < n" "n < maxMetadataSize"
    and "dec_ext (drop 2 m) = Inr ((1, p), c)" "length c = min n pieceSize"
    and "p < 0 \<or> int (nPieces n) \<le> p" "- (2 ^ 48) \<le> p" "p < 2 ^ 48"
  shows "readAllPieces dec_ext n (frame m @ s) = Panic"
proof -
  have range: "- (2 ^ 62) \<le> p * 2 ^ 14" "p * 2 ^ 14 < 2 ^ 62" using assms(8,9) by simp_all
  have small: "- (2 ^ 63) \<le> x \<and> x < 2 ^ 63" if "- (2 ^ 62) \<le> x" "x < 2 ^ 63" for x :: int
    using that by simp
  have lo: "int64 (p * 2 ^ 14) = p * 2 ^ 14"
    using small [of "p * 2 ^ 14"] range by (intro int64_id) auto
  have "length c \<le> pieceSize" "length c \<le> n" "0 < length c" using assms(3,6) pieceSize_pos by auto
  then have c: "0 < length c" "int (length c) < 2 ^ 62" by (simp_all add: pieceSize_def)
  have hi: "int64 (p * 2 ^ 14 + int (length c)) = p * 2 ^ 14 + int (length c)"
    using small [of "p * 2 ^ 14 + int (length c)"] range c by (intro int64_id) auto
  have big: "int n \<le> p * 2 ^ 14" if "int (nPieces n) \<le> p"
  proof -
    have "int n \<le> int (pieceSize * nPieces n)"
      using nPieces_bounds(2) [OF assms(3)] by (simp only: of_nat_le_iff)
    also have "\<dots> = int (nPieces n) * 2 ^ 14" by (simp add: pieceSize_def)
    also have "\<dots> \<le> p * 2 ^ 14" using that by (intro mult_right_mono) simp_all
    finally show ?thesis .
  qed
  have more: "x \<le> y \<Longrightarrow> x < y + int (length c)" for x y :: int using c(1) by linarith
  have "int n < p * 2 ^ 14 + int (length c)" if "int (nPieces n) \<le> p" by (rule more [OF big [OF that]])
  moreover have "p * 2 ^ 14 < 0" if "p < 0" using that by simp
  ultimately have "p * 2 ^ 14 < 0 \<or> int n < p * 2 ^ 14 + int (length c)" using assms(7) by blast
  then have "copy_piece (replicate n 0) p c = None"
    unfolding copy_piece_def Let_def lo hi by auto
  moreover have "length c < 16 * 1024 \<Longrightarrow> length c = n" "length c \<le> n" "length c \<le> 16 * 1024"
    using assms(6) by (auto simp: pieceSize_def)
  ultimately have "piece_step dec_ext n m 0 (replicate n 0) = Panic"
    using assms(5) by (cases "length c < 16384") (simp_all add: piece_step_def Let_def)
  then show ?thesis
    using assms(1-3) by (simp add: readAllPieces_def readPieces.simps readUmMessage_frame)
qed

theorem readAllPieces_bad_index_panics_witness:
  "readAllPieces sample_dec 3 (frame [20, 1, 255, 7, 8, 9] @ []) = Panic"
  by (rule readAllPieces_bad_index_panics [where p = "- 1" and c = "[7, 8, 9]"])
     (simp_all add: maxMetadataSize_def um_message_def sample_dec_def pieceSize_def)

end
