(* ===== verification/PgTypes.thy ===== *)
theory PgTypes
  imports Prelude
begin

text \<open>
  Times and timestamps as the database layer passes them.  A \<open>time.Time\<close> is an \<open>int\<close>, the
  nanoseconds since the Unix epoch, and so is a \<open>time.Duration\<close>; \<open>zeroTime\<close> is Go's zero
  time.  The rounding of a stored time to microseconds is not modelled.
\<close>

record timestamptz =
  ts_Time :: int
  ts_Valid :: bool

text \<open>\<open>time.Time{}\<close>: midnight of January 1 of the year 1, in nanoseconds.\<close>

definition zeroTime :: int where
  "zeroTime = - 62135596800000000000"

definition noTimestamp :: timestamptz where
  "noTimestamp = \<lparr>ts_Time = zeroTime, ts_Valid = False\<rparr>"

definition timeToPgtype :: "int \<Rightarrow> timestamptz" where
  "timeToPgtype t = (if t = zeroTime then noTimestamp else \<lparr>ts_Time = t, ts_Valid = True\<rparr>)"

text \<open>SQL comparisons: a comparison with \<open>NULL\<close> selects nothing.\<close>

definition ts_le :: "timestamptz \<Rightarrow> timestamptz \<Rightarrow> bool" where
  "ts_le a b \<longleftrightarrow> ts_Valid a \<and> ts_Valid b \<and> ts_Time a \<le> ts_Time b"

lemma timeToPgtype_none [simp]: "timeToPgtype (ts_Time noTimestamp) = noTimestamp"
  by (simp add: timeToPgtype_def noTimestamp_def)

end
