(* ===== verification/JobControl.thy ===== *)
theory JobControl
  imports PgTypes "HOL-Library.Multiset" "HOL-Library.Char_ord" "HOL-Library.List_Lexorder" "HOL-Library.Product_Lexorder"
begin

text \<open>
  The maintenance jobs of \<open>src/internal/jobcontrol\<close>: the single job slot
  (\<open>controller.go\<close>), the resumable keyset-paginated batch job (\<open>batch.go\<close>) and its
  persisted state (\<open>state.go\<close>), with the two SQL queries the job pages through
  (\<open>database/db/sqlc/torrents.sql.go\<close>).

  \<^item> Times are those of \<open>PgTypes\<close>.  A row keeps the two columns the job reads.
  \<^item> The mutexes make every operation on a tracker atomic, so the operations are functions.
    Everything outside (queries, the batch function, the clock, the context, the store) acts
    on a world of type \<open>'w\<close> and is given by the fields of \<open>start_options\<close> and \<open>tracker_env\<close>.
  \<^item> The loop over the pages need not end for an arbitrary page lister, so it is a
    \<open>partial_function (option)\<close>; with the SQL queries it is proved to end.
\<close>

section \<open>The job slot\<close>

type_synonym controller = "string set"

definition JobReindex :: string where "JobReindex = ''embedding reindex''"
definition JobReclassify :: string where "JobReclassify = ''classifier reclassify''"

definition NewController :: controller where
  "NewController = {}"

definition TryAcquire :: "string \<Rightarrow> controller \<Rightarrow> bool \<times> controller" where
  "TryAcquire name c = (if c \<noteq> {} then (False, c) else (True, insert name c))"

definition Release :: "string \<Rightarrow> controller \<Rightarrow> controller" where
  "Release name c = c - {name}"

definition Paused :: "controller \<Rightarrow> bool" where
  "Paused c \<longleftrightarrow> c \<noteq> {}"

fun join_names :: "string list \<Rightarrow> string" where
  "join_names [] = ''''"
| "join_names [x] = x"
| "join_names (x # xs) = x @ '', '' @ join_names xs"

definition Reason :: "controller \<Rightarrow> string" where
  "Reason c = join_names (sorted_list_of_set c)"

section \<open>Rows\<close>

definition cursorParam :: "timestamptz \<Rightarrow> timestamptz" where
  "cursorParam t = (if \<not> ts_Valid t \<or> ts_Time t = zeroTime
     then \<lparr>ts_Time = 0, ts_Valid = True\<rparr> else t)"

record torrent_row =
  row_CreatedAt :: timestamptz
  row_InfoHash :: string

record page_params =
  pp_BarrierTime :: timestamptz
  pp_CursorCreatedAt :: timestamptz
  pp_CursorInfoHash :: string
  pp_BatchSize :: int

definition batchPageSize :: int where
  "batchPageSize = 50"

definition row_key :: "torrent_row \<Rightarrow> int \<times> string" where
  "row_key r = (ts_Time (row_CreatedAt r), row_InfoHash r)"

definition CountTorrentsBefore :: "timestamptz \<Rightarrow> torrent_row list \<Rightarrow> int" where
  "CountTorrentsBefore b T = int (length (filter (\<lambda>r. ts_le (row_CreatedAt r) b) T))"

definition ListTorrentsPageAfter :: "page_params \<Rightarrow> torrent_row list \<Rightarrow> torrent_row list" where
  "ListTorrentsPageAfter pp T =
     take (nat (pp_BatchSize pp)) (sort_key row_key (filter (\<lambda>r.
       ts_le (row_CreatedAt r) (pp_BarrierTime pp) \<and>
       ts_Valid (pp_CursorCreatedAt pp) \<and>
       row_key r > (ts_Time (pp_CursorCreatedAt pp), pp_CursorInfoHash pp)) T))"

section \<open>Persisted state\<close>

record job_state =
  st_BarrierTime :: int
  st_CursorCreatedAt :: int
  st_CursorInfoHash :: string
  st_Total :: int
  st_Count :: int
  st_Done :: bool
  st_Fingerprint :: string
  st_UpdatedAt :: int

text \<open>
  The \<open>StateStore\<close> interface and the store on the \<open>key_value\<close> table.  The table and the JSON
  codec are parameters: \<open>get\<close>, \<open>put\<close> and \<open>del\<close> are the three queries on a database \<open>'d\<close>,
  \<open>lazyErr\<close> the error of opening the database, \<open>enc\<close> and \<open>dec\<close> the codec.
\<close>

record 'w state_store =
  ss_Load :: "string \<Rightarrow> 'w \<Rightarrow> string + job_state option"
  ss_Save :: "string \<Rightarrow> job_state \<Rightarrow> 'w \<Rightarrow> string option \<times> 'w"
  ss_Delete :: "string \<Rightarrow> 'w \<Rightarrow> string option \<times> 'w"

definition kvLoad :: "string option \<Rightarrow> (string \<Rightarrow> 'd \<Rightarrow> string + 'j option) \<Rightarrow> ('j \<Rightarrow> string + job_state) \<Rightarrow>
    string \<Rightarrow> 'd \<Rightarrow> string + job_state option" where
  "kvLoad lazyErr get dec key d = (case lazyErr of Some e \<Rightarrow> Inl e | None \<Rightarrow>
     (case get key d of Inl e \<Rightarrow> Inl e | Inr None \<Rightarrow> Inr None
      | Inr (Some j) \<Rightarrow> (case dec j of Inl e \<Rightarrow> Inl e | Inr s \<Rightarrow> Inr (Some s))))"

definition kvSave :: "string option \<Rightarrow> (string \<Rightarrow> 'j \<Rightarrow> 'd \<Rightarrow> string option \<times> 'd) \<Rightarrow> (job_state \<Rightarrow> string + 'j) \<Rightarrow>
    ('d \<Rightarrow> int) \<Rightarrow> string \<Rightarrow> job_state \<Rightarrow> 'd \<Rightarrow> string option \<times> 'd" where
  "kvSave lazyErr put enc now key s d = (case lazyErr of Some e \<Rightarrow> (Some e, d) | None \<Rightarrow>
     (case enc (s\<lparr>st_UpdatedAt := now d\<rparr>) of Inl e \<Rightarrow> (Some e, d) | Inr j \<Rightarrow> put key j d))"

definition kvDelete :: "string option \<Rightarrow> (string \<Rightarrow> 'd \<Rightarrow> string option \<times> 'd) \<Rightarrow>
    string \<Rightarrow> 'd \<Rightarrow> string option \<times> 'd" where
  "kvDelete lazyErr del key d = (case lazyErr of Some e \<Rightarrow> (Some e, d) | None \<Rightarrow> del key d)"

text \<open>\<open>Fingerprint\<close>, over the JSON encoding and SHA-256.\<close>

definition Fingerprint :: "('v \<Rightarrow> bytes option) \<Rightarrow> (bytes \<Rightarrow> bytes) \<Rightarrow> 'v \<Rightarrow> string" where
  "Fingerprint marshal sha256 v =
     (case marshal v of None \<Rightarrow> '''' | Some data \<Rightarrow> hex_encode (sha256 data))"

section \<open>Progress\<close>

record batch_status =
  bs_Total :: int
  bs_Count :: int
  bs_Done :: bool
  bs_Running :: bool
  bs_Resumable :: bool
  bs_ConfigChanged :: bool
  bs_Error :: string

record progress =
  p_total :: int
  p_count :: int
  p_done :: bool
  p_running :: bool
  p_resumable :: bool
  p_configChanged :: bool
  p_errMsg :: string
  p_barrierTime :: timestamptz
  p_cursorCreatedAt :: timestamptz
  p_cursorInfoHash :: string
  p_stateFingerprint :: string

definition zeroProgress :: progress where
  "zeroProgress = \<lparr>p_total = 0, p_count = 0, p_done = False, p_running = False,
     p_resumable = False, p_configChanged = False, p_errMsg = '''', p_barrierTime = noTimestamp,
     p_cursorCreatedAt = noTimestamp, p_cursorInfoHash = '''', p_stateFingerprint = ''''\<rparr>"

definition Snapshot :: "progress \<Rightarrow> batch_status" where
  "Snapshot p = \<lparr>bs_Total = p_total p, bs_Count = p_count p, bs_Done = p_done p,
     bs_Running = p_running p,
     bs_Resumable = (p_resumable p \<and> \<not> p_done p \<and> \<not> p_running p),
     bs_ConfigChanged = p_configChanged p, bs_Error = p_errMsg p\<rparr>"

definition hasBarrier :: "progress \<Rightarrow> bool" where
  "hasBarrier p \<longleftrightarrow> ts_Valid (p_barrierTime p) \<and> ts_Time (p_barrierTime p) \<noteq> zeroTime"

definition CanResume :: "progress \<Rightarrow> bool" where
  "CanResume p \<longleftrightarrow> \<not> p_done p \<and> hasBarrier p"

definition setRunning :: "progress \<Rightarrow> progress" where
  "setRunning p = p\<lparr>p_running := True\<rparr>"

definition fail_progress :: "string \<Rightarrow> progress \<Rightarrow> progress" where
  "fail_progress msg p = p\<lparr>p_done := False, p_running := False, p_errMsg := msg\<rparr>"

section \<open>The tracker\<close>

text \<open>
  A batch function processes a page: it counts items, fails, or panics.  \<open>te_Err\<close> is
  \<open>ctx.Err()\<close> and \<open>te_Now\<close> the clock.
\<close>

datatype batch_result = Processed int | BatchFailed string | BatchPanic string

record 'w start_options =
  so_Count :: "timestamptz \<Rightarrow> 'w \<Rightarrow> string + int"
  so_List :: "page_params \<Rightarrow> 'w \<Rightarrow> string + torrent_row list"
  so_Fingerprint :: string
  so_ForceFresh :: bool
  so_PrepareFresh :: "('w \<Rightarrow> string option \<times> 'w) option"
  so_Run :: "torrent_row list \<Rightarrow> 'w \<Rightarrow> batch_result \<times> 'w"
  so_OnFinish :: "('w \<Rightarrow> 'w) option"

record 'w tracker_env =
  te_Now :: "'w \<Rightarrow> int"
  te_Err :: "'w \<Rightarrow> string option"
  te_store :: "'w state_store option"

record batch_tracker =
  bt_progress :: "progress option"
  bt_name :: string
  bt_key :: string
  bt_job :: string
  bt_label :: string

definition NewBatchTracker :: "string \<Rightarrow> string \<Rightarrow> string \<Rightarrow> string \<Rightarrow> batch_tracker" where
  "NewBatchTracker name key job label =
     \<lparr>bt_progress = None, bt_name = name, bt_key = key, bt_job = job, bt_label = label\<rparr>"

definition restoreProgress :: "string \<Rightarrow> job_state \<Rightarrow> progress" where
  "restoreProgress currentFingerprint st = zeroProgress\<lparr>
     p_total := st_Total st, p_count := st_Count st, p_done := st_Done st,
     p_resumable := (\<not> st_Done st \<and> st_BarrierTime st \<noteq> zeroTime),
     p_configChanged := (st_Fingerprint st \<noteq> currentFingerprint),
     p_barrierTime := timeToPgtype (st_BarrierTime st),
     p_cursorCreatedAt := timeToPgtype (st_CursorCreatedAt st),
     p_cursorInfoHash := st_CursorInfoHash st,
     p_stateFingerprint := st_Fingerprint st\<rparr>"

definition Load :: "'w tracker_env \<Rightarrow> string \<Rightarrow> 'w \<Rightarrow> batch_tracker \<Rightarrow> string option \<times> batch_tracker" where
  "Load env currentFingerprint w t = (case te_store env of None \<Rightarrow> (None, t) | Some store \<Rightarrow>
     (case ss_Load store (bt_key t) w of
        Inl e \<Rightarrow> (Some e, t)
      | Inr None \<Rightarrow> (None, t)
      | Inr (Some st) \<Rightarrow> (None, t\<lparr>bt_progress := Some (restoreProgress currentFingerprint st)\<rparr>)))"

definition inProgress :: "batch_tracker \<Rightarrow> bool" where
  "inProgress t = (case bt_progress t of None \<Rightarrow> False
     | Some p \<Rightarrow> bs_Running (Snapshot p) \<and> \<not> bs_Done (Snapshot p))"

definition Progress :: "batch_tracker \<Rightarrow> batch_status" where
  "Progress t = (case bt_progress t of
     None \<Rightarrow> \<lparr>bs_Total = 0, bs_Count = 0, bs_Done = True, bs_Running = False, bs_Resumable = False,
              bs_ConfigChanged = False, bs_Error = []\<rparr>
   | Some p \<Rightarrow> Snapshot p)"

definition Running :: "batch_tracker \<Rightarrow> bool" where
  "Running t = (case bt_progress t of None \<Rightarrow> False
     | Some p \<Rightarrow> bs_Running (Snapshot p) \<and> \<not> bs_Done (Snapshot p))"

definition Discard :: "'w tracker_env \<Rightarrow> batch_tracker \<Rightarrow> 'w \<Rightarrow> string option \<times> batch_tracker \<times> 'w" where
  "Discard env t w =
     (if inProgress t then (Some (bt_name t @ '' in progress''), t, w)
      else let t' = t\<lparr>bt_progress := None\<rparr> in
        (case te_store env of None \<Rightarrow> (None, t', w)
         | Some store \<Rightarrow> (let (e, w') = ss_Delete store (bt_key t) w in (e, t', w'))))"

text \<open>The controller may be absent (\<open>nil\<close>): then nothing is acquired or released.\<close>

definition acquire :: "string \<Rightarrow> controller option \<Rightarrow> bool \<times> controller option" where
  "acquire job ctrl = (case ctrl of None \<Rightarrow> (True, None)
     | Some c \<Rightarrow> (let (ok, c') = TryAcquire job c in (ok, Some c')))"

definition release :: "string \<Rightarrow> controller option \<Rightarrow> controller option" where
  "release job ctrl = map_option (Release job) ctrl"

text \<open>
  \<open>Start\<close> returns the error, the tracker, the controller and the world; without an error the
  goroutine \<open>run\<close> has been launched on the progress of the tracker.
\<close>

definition startedProgress :: "progress \<Rightarrow> progress" where
  "startedProgress p = p\<lparr>p_running := True, p_errMsg := []\<rparr>"

definition freshProgress :: "string \<Rightarrow> progress" where
  "freshProgress fp = zeroProgress\<lparr>p_resumable := True, p_stateFingerprint := fp\<rparr>"

definition Start :: "'w start_options \<Rightarrow> batch_tracker \<Rightarrow> controller option \<Rightarrow> 'w \<Rightarrow>
    string option \<times> batch_tracker \<times> controller option \<times> 'w" where
  "Start opts t ctrl w =
     (if inProgress t then (Some (bt_name t @ '' already in progress''), t, ctrl, w)
      else case acquire (bt_job t) ctrl of
        (False, c) \<Rightarrow> (Some (''another operation in progress: '' @
             (case c of None \<Rightarrow> [] | Some c' \<Rightarrow> Reason c')), t, c, w)
      | (True, c) \<Rightarrow>
          (case (if so_ForceFresh opts then None
                 else case bt_progress t of None \<Rightarrow> None
                      | Some p \<Rightarrow> if CanResume p then Some p else None) of
             Some p \<Rightarrow> (None, t\<lparr>bt_progress := Some (startedProgress
                 (p\<lparr>p_configChanged := (p_stateFingerprint p \<noteq> so_Fingerprint opts)\<rparr>))\<rparr>, c, w)
           | None \<Rightarrow>
               (case so_PrepareFresh opts of
                  None \<Rightarrow> (None, t\<lparr>bt_progress :=
                      Some (startedProgress (freshProgress (so_Fingerprint opts)))\<rparr>, c, w)
                | Some prep \<Rightarrow> (case prep w of
                    (Some e, w') \<Rightarrow> (Some e, t, release (bt_job t) c, w')
                  | (None, w') \<Rightarrow> (None, t\<lparr>bt_progress :=
                      Some (startedProgress (freshProgress (so_Fingerprint opts)))\<rparr>, c, w')))))"

section \<open>The run\<close>

definition stateOf :: "progress \<Rightarrow> job_state" where
  "stateOf p = \<lparr>st_BarrierTime = ts_Time (p_barrierTime p),
     st_CursorCreatedAt = ts_Time (p_cursorCreatedAt p), st_CursorInfoHash = p_cursorInfoHash p,
     st_Total = p_total p, st_Count = p_count p, st_Done = p_done p,
     st_Fingerprint = p_stateFingerprint p, st_UpdatedAt = zeroTime\<rparr>"

text \<open>\<open>save\<close>: an error of the store is only logged.\<close>

definition save :: "'w tracker_env \<Rightarrow> batch_tracker \<Rightarrow> progress \<Rightarrow> 'w \<Rightarrow> 'w" where
  "save env t p w = (case te_store env of None \<Rightarrow> w
     | Some store \<Rightarrow> snd (ss_Save store (bt_key t) (stateOf p) w))"

definition failRun :: "'w tracker_env \<Rightarrow> batch_tracker \<Rightarrow> string \<Rightarrow> progress \<Rightarrow> 'w \<Rightarrow> progress \<times> 'w" where
  "failRun env t msg p w = (let p' = fail_progress msg p in (p', save env t p' w))"

text \<open>The barrier and the total; \<open>None\<close> is the early return.\<close>

definition barrierReset :: "timestamptz \<Rightarrow> progress \<Rightarrow> progress" where
  "barrierReset b p = p\<lparr>p_barrierTime := b, p_total := 0, p_count := 0,
     p_cursorCreatedAt := noTimestamp, p_cursorInfoHash := []\<rparr>"

definition runBegin :: "'w tracker_env \<Rightarrow> 'w start_options \<Rightarrow> batch_tracker \<Rightarrow> progress \<Rightarrow> 'w \<Rightarrow>
    timestamptz option \<times> progress \<times> 'w" where
  "runBegin env opts t p w =
     (if hasBarrier p then
        (Some (p_barrierTime p),
         (case so_Count opts (p_barrierTime p) w of Inl _ \<Rightarrow> p | Inr n \<Rightarrow> p\<lparr>p_total := n\<rparr>), w)
      else
        let b = \<lparr>ts_Time = te_Now env w, ts_Valid = True\<rparr>; p1 = barrierReset b p in
        (case so_Count opts b w of
           Inl e \<Rightarrow> (let (p2, w2) = failRun env t (''failed to count torrents: '' @ e) p1 w in (None, p2, w2))
         | Inr n \<Rightarrow> (Some b, p1\<lparr>p_total := n\<rparr>, w)))"

datatype page_outcome = NextPage | LastPage | RunFailed

definition pageParams :: "timestamptz \<Rightarrow> progress \<Rightarrow> page_params" where
  "pageParams b p = \<lparr>pp_BarrierTime = b, pp_CursorCreatedAt = cursorParam (p_cursorCreatedAt p),
     pp_CursorInfoHash = p_cursorInfoHash p, pp_BatchSize = batchPageSize\<rparr>"

definition advance :: "int \<Rightarrow> torrent_row \<Rightarrow> progress \<Rightarrow> progress" where
  "advance n r p = p\<lparr>p_count := p_count p + n, p_cursorCreatedAt := row_CreatedAt r,
     p_cursorInfoHash := row_InfoHash r\<rparr>"

definition runPage :: "'w tracker_env \<Rightarrow> 'w start_options \<Rightarrow> batch_tracker \<Rightarrow> timestamptz \<Rightarrow>
    progress \<Rightarrow> 'w \<Rightarrow> page_outcome \<times> progress \<times> 'w" where
  "runPage env opts t b p w =
     (case te_Err env w of
        Some e \<Rightarrow> (RunFailed, failRun env t (bt_name t @ '' canceled: '' @ e) p w)
      | None \<Rightarrow>
       (case so_List opts (pageParams b p) w of
          Inl e \<Rightarrow> (RunFailed, failRun env t (''failed to list torrents: '' @ e) p w)
        | Inr rows \<Rightarrow>
          if rows = [] then (LastPage, p, w)
          else (case so_Run opts rows w of
             (BatchFailed e, w1) \<Rightarrow> (RunFailed, failRun env t e p w1)
           | (BatchPanic e, w1) \<Rightarrow> (RunFailed, failRun env t (bt_name t @ '' panic: '' @ e) p w1)
           | (Processed n, w1) \<Rightarrow>
               (let p1 = advance n (last rows) p; w2 = save env t p1 w1 in
                (if int (length rows) < batchPageSize then LastPage else NextPage, p1, w2)))))"

partial_function (option) runPages :: "'w tracker_env \<Rightarrow> 'w start_options \<Rightarrow> batch_tracker \<Rightarrow>
    timestamptz \<Rightarrow> progress \<Rightarrow> 'w \<Rightarrow> (bool \<times> progress \<times> 'w) option" where
  "runPages env opts t b p w =
     (case runPage env opts t b p w of
        (oc, p1, w1) \<Rightarrow> (case oc of NextPage \<Rightarrow> runPages env opts t b p1 w1
          | LastPage \<Rightarrow> Some (True, p1, w1)
          | RunFailed \<Rightarrow> Some (False, p1, w1)))"

definition runEnd :: "'w tracker_env \<Rightarrow> batch_tracker \<Rightarrow> progress \<Rightarrow> 'w \<Rightarrow> progress \<times> 'w" where
  "runEnd env t p w = (let p' = p\<lparr>p_done := True, p_resumable := False\<rparr> in (p', save env t p' w))"

definition finish :: "'w start_options \<Rightarrow> 'w \<Rightarrow> 'w" where
  "finish opts w = (case so_OnFinish opts of None \<Rightarrow> w | Some f \<Rightarrow> f w)"

text \<open>The whole goroutine; the deferred calls run \<open>OnFinish\<close> and then release the slot.\<close>

definition run :: "'w tracker_env \<Rightarrow> 'w start_options \<Rightarrow> batch_tracker \<Rightarrow> progress \<Rightarrow>
    controller option \<Rightarrow> 'w \<Rightarrow> (progress \<times> controller option \<times> 'w) option" where
  "run env opts t p ctrl w =
     (case runBegin env opts t p w of
        (None, p1, w1) \<Rightarrow> Some (p1, release (bt_job t) ctrl, finish opts w1)
      | (Some b, p1, w1) \<Rightarrow>
         (case runPages env opts t b p1 w1 of
            None \<Rightarrow> None
          | Some (ok, p2, w2) \<Rightarrow>
              (let (p3, w3) = (if ok then runEnd env t p2 w2 else (p2, w2)) in
               Some (p3, release (bt_job t) ctrl, finish opts w3))))"

section \<open>Paging through the rows\<close>

text \<open>
  The rows that are still to be visited after a cursor, in the order of the pages.  A page
  lister is correct when every page is the next piece of that list.
\<close>

definition todo :: "timestamptz \<Rightarrow> int \<times> string \<Rightarrow> torrent_row list \<Rightarrow> torrent_row list" where
  "todo b k T = sort_key row_key (filter (\<lambda>r. ts_le (row_CreatedAt r) b \<and> row_key r > k) T)"

definition cursorKey :: "progress \<Rightarrow> int \<times> string" where
  "cursorKey p = (ts_Time (cursorParam (p_cursorCreatedAt p)), p_cursorInfoHash p)"

lemma cursorParam_valid [simp]: "ts_Valid (cursorParam c)"
  by (simp add: cursorParam_def)

lemma filter_todo: "k \<le> k' \<Longrightarrow> filter (\<lambda>r. row_key r > k') (todo b k T) = todo b k' T"
  unfolding todo_def filter_sort filter_filter
  by (intro arg_cong [where f = "sort_key row_key"] filter_cong) (auto intro: le_less_trans)

lemma sorted_todo: "sorted (map row_key (todo b k T))"
  by (simp add: todo_def)

lemma set_todo: "set (todo b k T) = {r \<in> set T. ts_le (row_CreatedAt r) b \<and> row_key r > k}"
  by (simp add: todo_def)

lemma distinct_todo:
  assumes "distinct (map row_key T)"
  shows "distinct (map row_key (todo b k T))"
proof -
  have "mset (map row_key (todo b k T)) = mset (map row_key
      (filter (\<lambda>r. ts_le (row_CreatedAt r) b \<and> row_key r > k) T))"
    by (simp add: todo_def)
  moreover have "distinct (map row_key (filter (\<lambda>r. ts_le (row_CreatedAt r) b \<and> row_key r > k) T))"
    using assms by (auto simp: distinct_map intro: inj_on_subset)
  ultimately show ?thesis by (metis mset_eq_imp_distinct_iff)
qed

text \<open>After a page that ends at \<open>last pg\<close> the rest of the list is what the moved cursor leaves.\<close>

lemma todo_after_page:
  assumes d: "distinct (map row_key T)" and e: "todo b k T = pg @ rest" and n: "pg \<noteq> []"
  shows "todo b (row_key (last pg)) T = rest"
proof -
  let ?k = "row_key (last pg)"
  have s: "sorted (map row_key pg @ map row_key rest)"
    and dd: "distinct (map row_key pg @ map row_key rest)"
    using sorted_todo [of b k T] distinct_todo [OF d, of b k] by (simp_all add: e)
  have l: "last pg \<in> set pg" using n by simp
  then have lt: "last pg \<in> set (todo b k T)" by (simp add: e)
  then have kl: "k \<le> ?k" by (auto simp: set_todo)
  have a: "\<not> ?k < row_key r" if "r \<in> set pg" for r
  proof -
    obtain i where i: "i < length pg" "r = pg ! i" using \<open>r \<in> set pg\<close> by (metis in_set_conv_nth)
    have "sorted (map row_key pg)" using s by (simp add: sorted_append)
    then have "map row_key pg ! i \<le> map row_key pg ! (length pg - 1)"
      by (rule sorted_nth_mono) (use i in auto)
    then have "row_key r \<le> ?k" using i n by (simp add: last_conv_nth)
    then show ?thesis by simp
  qed
  have c: "?k < row_key r" if r: "r \<in> set rest" for r
  proof -
    have "?k \<le> row_key r" using s l r by (auto simp: sorted_append)
    moreover have "?k \<noteq> row_key r" using dd l r by auto
    ultimately show ?thesis by simp
  qed
  have "todo b ?k T = filter (\<lambda>r. row_key r > ?k) (pg @ rest)"
    using filter_todo [OF kl, of b T] by (simp add: e)
  also have "\<dots> = rest" using a c by (simp add: filter_empty_conv filter_id_conv)
  finally show ?thesis .
qed

text \<open>
  The contract of \<open>PageLister.ListTorrentsPageAfter\<close>, on the rows \<open>T\<close> of the database: a page
  is the next piece of what is left after the cursor, it is not empty while something is left,
  and a page that is not full is the last.
\<close>

locale page_lister =
  fixes list_page :: "page_params \<Rightarrow> torrent_row list \<Rightarrow> torrent_row list"
  assumes page_prefix: "ts_Valid (pp_CursorCreatedAt pp) \<Longrightarrow>
      \<exists>rest. todo (pp_BarrierTime pp) (ts_Time (pp_CursorCreatedAt pp), pp_CursorInfoHash pp) T
        = list_page pp T @ rest \<and>
        (pp_BatchSize pp > 0 \<and> int (length (list_page pp T)) < pp_BatchSize pp \<longrightarrow> rest = [])"
begin

lemma page_cases:
  assumes "distinct (map row_key T)"
  obtains (empty) "list_page (pageParams b p) T = []" "todo b (cursorKey p) T = []"
  | (page) pg rest where "list_page (pageParams b p) T = pg" "pg \<noteq> []"
      "todo b (cursorKey p) T = pg @ rest" "todo b (row_key (last pg)) T = rest"
      "int (length pg) < batchPageSize \<Longrightarrow> rest = []"
proof -
  obtain rest where r: "todo b (cursorKey p) T = list_page (pageParams b p) T @ rest"
      "int (length (list_page (pageParams b p) T)) < batchPageSize \<longrightarrow> rest = []"
    using page_prefix [of "pageParams b p" T]
    by (auto simp: pageParams_def cursorKey_def batchPageSize_def)
  show ?thesis
  proof (cases "list_page (pageParams b p) T = []")
    case True
    then show ?thesis using r empty by (simp add: batchPageSize_def)
  next
    case False
    show ?thesis
      by (rule page [OF refl False r(1) todo_after_page [OF assms r(1) False]]) (use r(2) in blast)
  qed
qed

end

interpretation sql: page_lister ListTorrentsPageAfter
proof unfold_locales
  fix pp :: page_params and T assume "ts_Valid (pp_CursorCreatedAt pp)"
  let ?L = "todo (pp_BarrierTime pp) (ts_Time (pp_CursorCreatedAt pp), pp_CursorInfoHash pp) T"
  have p: "ListTorrentsPageAfter pp T = take (nat (pp_BatchSize pp)) ?L"
    using \<open>ts_Valid (pp_CursorCreatedAt pp)\<close> by (simp add: ListTorrentsPageAfter_def todo_def)
  show "\<exists>rest. ?L = ListTorrentsPageAfter pp T @ rest \<and>
      (pp_BatchSize pp > 0 \<and> int (length (ListTorrentsPageAfter pp T)) < pp_BatchSize pp \<longrightarrow> rest = [])"
    by (rule exI [of _ "drop (nat (pp_BatchSize pp)) ?L"]) (auto simp: p min_def split: if_splits)
qed

section \<open>A run visits the rows before its barrier once, in order\<close>

definition okrows :: "torrent_row list \<Rightarrow> bool" where
  "okrows T \<longleftrightarrow> distinct (map row_key T) \<and>
     (\<forall>r \<in> set T. ts_Valid (row_CreatedAt r) \<and> 0 < ts_Time (row_CreatedAt r))"

lemma cursorKey_advance: "ts_Valid (row_CreatedAt r) \<Longrightarrow> 0 < ts_Time (row_CreatedAt r) \<Longrightarrow>
    cursorKey (advance n r p) = row_key r"
  by (simp add: cursorKey_def advance_def cursorParam_def row_key_def zeroTime_def)

lemma cursorKey_updates [simp]:
  "cursorKey (fail_progress e p) = cursorKey p"
  "cursorKey (p\<lparr>p_total := n\<rparr>) = cursorKey p"
  "cursorKey (p\<lparr>p_done := d, p_resumable := s\<rparr>) = cursorKey p"
  "cursorKey (startedProgress p) = cursorKey p"
  "cursorKey (p\<lparr>p_configChanged := d\<rparr>) = cursorKey p"
  "cursorKey (barrierReset b p) = (0, [])"
  by (simp_all add: cursorKey_def fail_progress_def startedProgress_def barrierReset_def
      cursorParam_def noTimestamp_def)

lemma progress_updates [simp]:
  "p_barrierTime (fail_progress e p) = p_barrierTime p" "p_barrierTime (advance n r p) = p_barrierTime p"
  "p_cursorCreatedAt (fail_progress e p) = p_cursorCreatedAt p"
  "\<not> p_done (fail_progress e p)" "\<not> p_running (fail_progress e p)"
  "p_done (advance n r p) = p_done p" "p_running (advance n r p) = p_running p"
  "p_barrierTime (barrierReset b p) = b" "p_done (barrierReset b p) = p_done p"
  "p_barrierTime (startedProgress p) = p_barrierTime p" "p_done (startedProgress p) = p_done p"
  "p_running (startedProgress p)"
  by (simp_all add: fail_progress_def advance_def barrierReset_def startedProgress_def)

lemma timeToPgtype_row: "ts_Valid c \<Longrightarrow> 0 < ts_Time c \<Longrightarrow> timeToPgtype (ts_Time c) = c"
  by (cases c) (simp add: timeToPgtype_def zeroTime_def)

text \<open>The rows of a page are rows of the table.\<close>

lemma todo_row_ok: "okrows T \<Longrightarrow> todo b k T = pg @ rest \<Longrightarrow> r \<in> set pg \<Longrightarrow>
    ts_Valid (row_CreatedAt r) \<and> 0 < ts_Time (row_CreatedAt r)"
proof -
  assume "okrows T" "todo b k T = pg @ rest" "r \<in> set pg"
  then have "r \<in> set (todo b k T)" by simp
  then show ?thesis using \<open>okrows T\<close> by (auto simp: set_todo okrows_def)
qed

text \<open>
  What a run relies on: the pages come from a page lister over the table; a batch that is
  processed is logged and one that fails is not; while the job runs, rows may only appear with
  a creation time after the clock; the store does not touch the table.  In a \<open>calm\<close> world
  nothing fails.
\<close>

locale batch_world = page_lister list_page
  for list_page :: "page_params \<Rightarrow> torrent_row list \<Rightarrow> torrent_row list" +
  fixes env :: "'w tracker_env" and opts :: "'w start_options"
    and table :: "'w \<Rightarrow> torrent_row list" and logged :: "'w \<Rightarrow> torrent_row list"
    and calm :: "'w \<Rightarrow> bool"
  assumes list_rows: "so_List opts pp w = Inr rows \<Longrightarrow> rows = list_page pp (table w)"
    and run_table: "so_Run opts rows w = (res, w') \<Longrightarrow> 0 < te_Now env w \<Longrightarrow>
          okrows (table w) \<Longrightarrow> okrows (table w')"
    and run_todo: "so_Run opts rows w = (res, w') \<Longrightarrow> ts_Time b \<le> te_Now env w \<Longrightarrow>
          todo b k (table w') = todo b k (table w)"
    and run_clock: "so_Run opts rows w = (res, w') \<Longrightarrow> te_Now env w \<le> te_Now env w'"
    and run_log: "so_Run opts rows w = (res, w') \<Longrightarrow>
          logged w' = (case res of Processed n \<Rightarrow> logged w @ rows | _ \<Rightarrow> logged w)"
    and save_frame: "table (save env t p w) = table w" "logged (save env t p w) = logged w"
          "te_Now env (save env t p w) = te_Now env w" "calm (save env t p w) = calm w"
    and calm_count: "calm w \<Longrightarrow> \<exists>n. so_Count opts b w = Inr n"
    and calm_ok: "calm w \<Longrightarrow> te_Err env w = None" "calm w \<Longrightarrow> \<exists>rows. so_List opts pp w = Inr rows"
    and calm_run: "calm w \<Longrightarrow> so_Run opts rows w = (res, w') \<Longrightarrow> calm w' \<and> (\<exists>n. res = Processed n)"
begin

definition J :: "timestamptz \<Rightarrow> torrent_row list \<Rightarrow> progress \<Rightarrow> 'w \<Rightarrow> bool" where
  "J b E p w \<longleftrightarrow> okrows (table w) \<and> 0 < te_Now env w \<and> ts_Time b \<le> te_Now env w \<and>
     p_barrierTime p = b \<and> timeToPgtype (ts_Time (p_cursorCreatedAt p)) = p_cursorCreatedAt p \<and>
     logged w @ todo b (cursorKey p) (table w) = E"

lemma J_fail: "J b E p w \<Longrightarrow> failRun env t e p w = (p', w') \<Longrightarrow>
    J b E p' w' \<and> w' = save env t p' w \<and> \<not> p_done p' \<and> \<not> p_running p'"
  by (auto simp: J_def failRun_def save_frame Let_def)

lemma J_failed_batch:
  assumes j: "J b E p w" and r: "so_Run opts rows w = (res, w1)" "\<And>n. res \<noteq> Processed n"
  shows "J b E p w1"
proof -
  have "logged w1 = logged w" using run_log [OF r(1)] r(2) by (cases res) auto
  then show ?thesis
    using j run_table [OF r(1)] run_todo [OF r(1)] run_clock [OF r(1)]
    by (auto simp: J_def intro: order_trans)
qed

lemma J_page:
  assumes j: "J b E p w" and t: "todo b (cursorKey p) (table w) = pg @ rest" "pg \<noteq> []"
    and a: "todo b (row_key (last pg)) (table w) = rest"
    and r: "so_Run opts pg w = (Processed n, w1)"
  shows "J b E (advance n (last pg) p) w1"
    and "todo b (cursorKey (advance n (last pg) p)) (table w1) = rest"
proof -
  have b: "ts_Time b \<le> te_Now env w" and o: "okrows (table w)" "0 < te_Now env w"
    using j by (auto simp: J_def)
  have k: "cursorKey (advance n (last pg) p) = row_key (last pg)"
    using todo_row_ok [OF o(1) t(1)] t(2) by (simp add: cursorKey_advance)
  have v: "timeToPgtype (ts_Time (row_CreatedAt (last pg))) = row_CreatedAt (last pg)"
    using todo_row_ok [OF o(1) t(1), of "last pg"] t(2) by (simp add: timeToPgtype_row)
  show c: "todo b (cursorKey (advance n (last pg) p)) (table w1) = rest"
    using a by (simp add: k run_todo [OF r b])
  have "logged w1 = logged w @ pg" using run_log [OF r] by simp
  then show "J b E (advance n (last pg) p) w1"
    using j c t v run_table [OF r o(2) o(1)] run_clock [OF r] by (auto simp: J_def advance_def)
qed

text \<open>One iteration: it fails and saves, or it is the last, or less is left.\<close>

lemma runPage_spec:
  assumes j: "J b E p w"
  obtains (failed) p' w' w0 where "runPage env opts t b p w = (RunFailed, p', w')" "\<not> calm w"
      "J b E p' w'" "w' = save env t p' w0" "\<not> p_done p'" "\<not> p_running p'"
  | (lastpage) p' w' where "runPage env opts t b p w = (LastPage, p', w')" "J b E p' w'"
      "todo b (cursorKey p') (table w') = []" "p_running p' = p_running p"
  | (nextpage) p' w' where "runPage env opts t b p w = (NextPage, p', w')" "J b E p' w'"
      "length (todo b (cursorKey p') (table w')) < length (todo b (cursorKey p) (table w))"
      "calm w \<Longrightarrow> calm w'" "p_running p' = p_running p"
proof -
  have fail_case: thesis
    if "runPage env opts t b p w = (RunFailed, failRun env t e p w1)" "J b E p w1" "\<not> calm w" for e w1
  proof -
    obtain p' w' where f: "failRun env t e p w1 = (p', w')" by (cases "failRun env t e p w1")
    show thesis by (rule failed [of p' w' w1]) (use that f J_fail [OF that(2) f] in auto)
  qed
  show ?thesis
proof (cases "te_Err env w")
  case (Some e)
  show ?thesis
    by (rule fail_case [OF _ j])
       (use Some calm_ok(1) [of w] in \<open>auto simp: runPage_def\<close>)
next
  case None
  show ?thesis
  proof (cases "so_List opts (pageParams b p) w")
    case (Inl e)
    show ?thesis
      by (rule fail_case [OF _ j])
         (use None Inl calm_ok(2) [of w "pageParams b p"] in \<open>auto simp: runPage_def\<close>)
  next
    case (Inr rows)
    then have rows: "rows = list_page (pageParams b p) (table w)" by (rule list_rows)
    have d: "distinct (map row_key (table w))" using j by (simp add: J_def okrows_def)
    show ?thesis
    proof (cases rule: page_cases [OF d, of b p])
      case 1
      then show ?thesis using j None Inr rows lastpage [of p w] by (simp add: runPage_def)
    next
      case (2 pg rest)
      then have rp: "rows = pg" by (simp add: rows)
      obtain res w1 where run: "so_Run opts pg w = (res, w1)" by (cases "so_Run opts pg w")
      show ?thesis
      proof (cases "\<exists>n. res = Processed n")
        case False
        then have nf: "\<And>n. res \<noteq> Processed n" by auto
        have nc: "\<not> calm w" using calm_run [OF _ run] False by blast
        obtain e where e: "runPage env opts t b p w = (RunFailed, failRun env t e p w1)"
          using None Inr 2 rp run nf by (cases res) (auto simp: runPage_def)
        show ?thesis by (rule fail_case [OF e J_failed_batch [OF j run nf] nc])
      next
        case True
        then obtain n where n: "so_Run opts pg w = (Processed n, w1)" using run by auto
        let ?p = "advance n (last pg) p" and ?w = "save env t (advance n (last pg) p) w1"
        have J: "J b E ?p ?w" and rest: "todo b (cursorKey ?p) (table ?w) = rest"
          using J_page [OF j 2(3) 2(2) 2(4) n] by (simp_all add: J_def save_frame)
        have eq: "runPage env opts t b p w
            = (if int (length pg) < batchPageSize then LastPage else NextPage, ?p, ?w)"
          using None Inr 2 rp n by (simp add: runPage_def Let_def)
        show ?thesis
        proof (cases "int (length pg) < batchPageSize")
          case True
          then show ?thesis using lastpage [of ?p ?w] eq J rest 2(5) by simp
        next
          case False
          have "length rest < length (todo b (cursorKey p) (table w))" using 2 by simp
          then show ?thesis
            using nextpage [of ?p ?w] False eq J rest calm_run [OF _ n] by (simp add: save_frame)
        qed
      qed
    qed
  qed
qed
qed

lemma runPages_spec:
  "J b E p w \<Longrightarrow> \<exists>ok p' w'. runPages env opts t b p w = Some (ok, p', w') \<and> J b E p' w' \<and>
     (calm w \<longrightarrow> ok) \<and> (ok \<longrightarrow> todo b (cursorKey p') (table w') = []) \<and>
     (\<not> ok \<longrightarrow> \<not> p_done p' \<and> \<not> p_running p' \<and> (\<exists>w0. w' = save env t p' w0))"
proof (induction "length (todo b (cursorKey p) (table w))" arbitrary: p w rule: less_induct)
  case less
  show ?case
  proof (cases rule: runPage_spec [OF less.prems, of t])
    case (1 p' w' w0)
    then show ?thesis by (subst runPages.simps) auto
  next
    case (2 p' w')
    then show ?thesis by (subst runPages.simps) auto
  next
    case (3 p' w')
    have "runPages env opts t b p w = runPages env opts t b p' w'"
      by (subst runPages.simps) (simp add: 3)
    then show ?thesis using less.hyps [OF 3(3) 3(2)] 3(4) by auto
  qed
qed

lemma runBegin_spec:
  assumes pre: "(hasBarrier p \<and> J b E p w) \<or>
    (\<not> hasBarrier p \<and> okrows (table w) \<and> 0 < te_Now env w \<and>
     b = \<lparr>ts_Time = te_Now env w, ts_Valid = True\<rparr> \<and> E = logged w @ todo b (0, []) (table w))"
  obtains (begun) p' where "runBegin env opts t p w = (Some b, p', w)" "J b E p' w"
  | (failed) p' w' where "runBegin env opts t p w = (None, p', w')" "\<not> calm w" "J b E p' w'"
      "w' = save env t p' w" "\<not> p_done p'" "\<not> p_running p'"
proof (cases "hasBarrier p")
  case True
  then have j: "J b E p w" and b: "p_barrierTime p = b" using pre by (auto simp: J_def)
  show ?thesis
    by (cases "so_Count opts b w") (use True j b begun in \<open>auto simp: runBegin_def J_def\<close>)
next
  case False
  then have b: "b = \<lparr>ts_Time = te_Now env w, ts_Valid = True\<rparr>" and j: "J b E (barrierReset b p) w"
    using pre by (auto simp: J_def) (simp add: barrierReset_def)
  show ?thesis
  proof (cases "so_Count opts b w")
    case (Inl e)
    obtain p' w' where f: "failRun env t (''failed to count torrents: '' @ e) (barrierReset b p) w = (p', w')"
      by (cases "failRun env t (''failed to count torrents: '' @ e) (barrierReset b p) w")
    show ?thesis
      by (rule failed [of p' w'])
        (use Inl f J_fail [OF j f] calm_count [of w b] False b in \<open>auto simp: runBegin_def Let_def\<close>)
  next
    case (Inr n)
    show ?thesis
      by (rule begun [of "barrierReset b p\<lparr>p_total := n\<rparr>"])
        (use Inr j False b in \<open>auto simp: runBegin_def Let_def J_def\<close>)
  qed
qed

text \<open>
  A whole run returns.  It has visited a prefix of the rows that were left, all of them when it
  is done, and it is done when nothing fails; when it is not done its state was just saved.
\<close>

lemma run_spec:
  assumes pre: "(hasBarrier p \<and> J b E p w) \<or>
    (\<not> hasBarrier p \<and> okrows (table w) \<and> 0 < te_Now env w \<and>
     b = \<lparr>ts_Time = te_Now env w, ts_Valid = True\<rparr> \<and> E = logged w @ todo b (0, []) (table w))"
  shows "\<exists>p' w'. run env opts t p c w = Some (p', release (bt_job t) c, finish opts w') \<and>
     J b E p' w' \<and> (calm w \<longrightarrow> p_done p') \<and>
     (p_done p' \<longrightarrow> todo b (cursorKey p') (table w') = []) \<and>
     (\<not> p_done p' \<longrightarrow> \<not> p_running p' \<and> (\<exists>w0. w' = save env t p' w0))"
proof (cases rule: runBegin_spec [OF pre, of t])
  case (1 p1)
  obtain ok p2 w2 where l: "runPages env opts t b p1 w = Some (ok, p2, w2)" "J b E p2 w2"
      "calm w \<longrightarrow> ok" "ok \<longrightarrow> todo b (cursorKey p2) (table w2) = []"
      "\<not> ok \<longrightarrow> \<not> p_done p2 \<and> \<not> p_running p2 \<and> (\<exists>w0. w2 = save env t p2 w0)"
    using runPages_spec [OF 1(2), of t] by blast
  show ?thesis
  proof (cases ok)
    case True
    then show ?thesis using 1 l
      by (auto simp: run_def runEnd_def Let_def J_def save_frame)
  next
    case False
    then show ?thesis using 1 l by (auto simp: run_def Let_def)
  qed
next
  case (2 p' w')
  then show ?thesis by (auto simp: run_def)
qed

end

section \<open>The torrent table\<close>

text \<open>
  The world the maintenance jobs run in: the \<open>torrents\<close> and \<open>key_value\<close> tables, a clock, the
  rows whose processing was reported as successful, and a script of what happens next, one
  event per page: a batch that succeeds while torrents with new hashes arrive, a cancelled
  context, a query that fails, a batch function that fails or panics.
\<close>

datatype db_event = EvOk "string list" | EvCancel string | EvListErr string
  | EvRunErr string | EvRunPanic string | EvCountErr string

record db_world =
  dw_table :: "torrent_row list"
  dw_log :: "torrent_row list"
  dw_script :: "db_event list"
  dw_now :: int
  dw_kv :: "string \<rightharpoonup> job_state"

definition dbArrive :: "string list \<Rightarrow> db_world \<Rightarrow> db_world" where
  "dbArrive hs w = w\<lparr>dw_now := dw_now w + 1,
     dw_table := dw_table w @
       map (\<lambda>h. \<lparr>row_CreatedAt = \<lparr>ts_Time = dw_now w + 1, ts_Valid = True\<rparr>, row_InfoHash = h\<rparr>)
         (filter (\<lambda>h. h \<notin> row_InfoHash ` set (dw_table w)) (remdups hs))\<rparr>"

definition dbErr :: "db_world \<Rightarrow> string option" where
  "dbErr w = (case dw_script w of EvCancel e # _ \<Rightarrow> Some e | _ \<Rightarrow> None)"

definition dbCount :: "timestamptz \<Rightarrow> db_world \<Rightarrow> string + int" where
  "dbCount b w = (case dw_script w of EvCountErr e # _ \<Rightarrow> Inl e
     | _ \<Rightarrow> Inr (CountTorrentsBefore b (dw_table w)))"

definition dbList :: "page_params \<Rightarrow> db_world \<Rightarrow> string + torrent_row list" where
  "dbList pp w = (case dw_script w of EvListErr e # _ \<Rightarrow> Inl e
     | _ \<Rightarrow> Inr (ListTorrentsPageAfter pp (dw_table w)))"

definition dbRun :: "torrent_row list \<Rightarrow> db_world \<Rightarrow> batch_result \<times> db_world" where
  "dbRun rows w =
     (let w' = w\<lparr>dw_script := tl (dw_script w)\<rparr>;
          good = (\<lambda>hs. (Processed (int (length rows)), dbArrive hs (w'\<lparr>dw_log := dw_log w @ rows\<rparr>))) in
      case dw_script w of
        EvOk hs # _ \<Rightarrow> good hs
      | EvRunErr e # _ \<Rightarrow> (BatchFailed e, w')
      | EvRunPanic e # _ \<Rightarrow> (BatchPanic e, w')
      | _ \<Rightarrow> good [])"

definition dbEnv :: "db_world tracker_env" where
  "dbEnv = \<lparr>te_Now = dw_now, te_Err = dbErr, te_store = Some \<lparr>
     ss_Load = kvLoad None (\<lambda>k w. Inr (dw_kv w k)) Inr,
     ss_Save = kvSave None (\<lambda>k j w. (None, w\<lparr>dw_kv := (dw_kv w)(k \<mapsto> j)\<rparr>)) Inr dw_now,
     ss_Delete = kvDelete None (\<lambda>k w. (None, w\<lparr>dw_kv := (dw_kv w)(k := None)\<rparr>))\<rparr>\<rparr>"

definition dbOpts :: "string \<Rightarrow> db_world start_options" where
  "dbOpts fp = \<lparr>so_Count = dbCount, so_List = dbList, so_Fingerprint = fp, so_ForceFresh = False,
     so_PrepareFresh = None, so_Run = dbRun, so_OnFinish = None\<rparr>"

definition dbCalm :: "db_world \<Rightarrow> bool" where
  "dbCalm w \<longleftrightarrow> (\<forall>ev \<in> set (dw_script w). \<exists>hs. ev = EvOk hs)"

lemma save_dbEnv: "save dbEnv t p w =
    w\<lparr>dw_kv := (dw_kv w)(bt_key t \<mapsto> (stateOf p)\<lparr>st_UpdatedAt := dw_now w\<rparr>)\<rparr>"
  by (simp add: save_def dbEnv_def kvSave_def)

lemma dbArrive_simps [simp]:
  "dw_log (dbArrive hs w) = dw_log w" "dw_now (dbArrive hs w) = dw_now w + 1"
  "dw_script (dbArrive hs w) = dw_script w"
  by (simp_all add: dbArrive_def)

lemma okrows_dbArrive: "0 < dw_now w \<Longrightarrow> okrows (dw_table w) \<Longrightarrow> okrows (dw_table (dbArrive hs w))"
  by (auto simp: okrows_def dbArrive_def row_key_def distinct_map inj_on_def)

lemma todo_dbArrive: "ts_Time b \<le> dw_now w \<Longrightarrow> todo b k (dw_table (dbArrive hs w)) = todo b k (dw_table w)"
  by (auto simp: todo_def dbArrive_def ts_le_def comp_def filter_empty_conv)

lemma dbRun_cases:
  obtains (ok) hs where "dbRun rows w = (Processed (int (length rows)),
      dbArrive hs (w\<lparr>dw_script := tl (dw_script w), dw_log := dw_log w @ rows\<rparr>))"
  | (bad) res where "dbRun rows w = (res, w\<lparr>dw_script := tl (dw_script w)\<rparr>)" "\<And>n. res \<noteq> Processed n"
      "\<not> dbCalm w"
proof (cases "dw_script w")
  case Nil
  then show thesis by (intro ok) (simp add: dbRun_def)
next
  case (Cons ev es)
  then show thesis
    by (cases ev) (auto simp: dbRun_def dbCalm_def intro: ok bad)
qed

lemma dbCalm_tl: "dbCalm w \<Longrightarrow> dw_script w' = tl (dw_script w) \<Longrightarrow> dbCalm w'"
  by (cases "dw_script w") (auto simp: dbCalm_def)

interpretation db: batch_world ListTorrentsPageAfter dbEnv "dbOpts fp" dw_table dw_log dbCalm
  for fp
proof (unfold_locales, goal_cases)
  case (1 pp w rows)
  then show ?case by (auto simp: dbOpts_def dbList_def split: list.splits db_event.splits)
next
  case (2 rows w res w')
  then show ?case using okrows_dbArrive
    by (cases rule: dbRun_cases [of rows w]) (auto simp: dbOpts_def dbEnv_def)
next
  case (3 rows w res w' b k)
  then show ?case
    by (cases rule: dbRun_cases [of rows w]) (auto simp: dbOpts_def dbEnv_def todo_dbArrive)
next
  case (4 rows w res w')
  then show ?case by (cases rule: dbRun_cases [of rows w]) (auto simp: dbOpts_def dbEnv_def)
next
  case (5 rows w res w')
  then show ?case
    by (cases rule: dbRun_cases [of rows w]) (auto simp: dbOpts_def split: batch_result.splits)
next
  case (10 w b)
  then show ?case by (auto simp: dbCalm_def dbOpts_def dbCount_def split: list.splits db_event.splits)
next
  case (11 w)
  then show ?case by (auto simp: dbCalm_def dbEnv_def dbErr_def split: list.splits db_event.splits)
next
  case (12 w pp)
  then show ?case by (auto simp: dbCalm_def dbOpts_def dbList_def split: list.splits db_event.splits)
next
  case (13 w rows res w')
  then show ?case
    by (cases rule: dbRun_cases [of rows w]) (auto simp: dbOpts_def intro: dbCalm_tl)
qed (simp_all add: save_dbEnv dbCalm_def, simp add: dbEnv_def)

section \<open>Sessions: runs, failures and restarts\<close>

text \<open>
  A sequence of attempts at the same job, each with its script and each either resumed in
  memory or after a restart of the program, which starts with a new tracker and \<open>Load\<close>.  The
  attempts stop when one is done.
\<close>

definition restartTracker :: "string \<Rightarrow> db_world \<Rightarrow> batch_tracker \<Rightarrow> batch_tracker" where
  "restartTracker fp w t =
     snd (Load dbEnv fp w (NewBatchTracker (bt_name t) (bt_key t) (bt_job t) (bt_label t)))"

definition isDone :: "batch_tracker \<Rightarrow> bool" where
  "isDone t = (case bt_progress t of None \<Rightarrow> False | Some p \<Rightarrow> p_done p)"

lemma isDone_update [simp]: "isDone (t\<lparr>bt_progress := Some p\<rparr>) = p_done p"
  by (simp add: isDone_def)

fun sessions :: "string \<Rightarrow> (bool \<times> db_event list) list \<Rightarrow> batch_tracker \<Rightarrow> db_world \<Rightarrow>
    (batch_tracker \<times> db_world) option" where
  "sessions fp [] t w = Some (t, w)"
| "sessions fp ((restart, script) # ss) t w =
     (let w0 = w\<lparr>dw_script := script\<rparr>; t0 = (if restart then restartTracker fp w0 t else t) in
      case Start (dbOpts fp) t0 (Some NewController) w0 of
        (Some e, _) \<Rightarrow> None
      | (None, t1, c, w1) \<Rightarrow>
          (case bt_progress t1 of None \<Rightarrow> None | Some p \<Rightarrow>
            (case run dbEnv (dbOpts fp) t1 p c w1 of None \<Rightarrow> None
             | Some (p', c', w2) \<Rightarrow>
                 (let t2 = t1\<lparr>bt_progress := Some p'\<rparr> in
                  if p_done p' then Some (t2, w2) else sessions fp ss t2 w2))))"

lemma dbEnv_now: "te_Now dbEnv = dw_now"
  by (simp add: dbEnv_def)

text \<open>What an interrupted attempt leaves behind.\<close>

definition interrupted :: "timestamptz \<Rightarrow> torrent_row list \<Rightarrow> batch_tracker \<Rightarrow> db_world \<Rightarrow> bool" where
  "interrupted b E t w \<longleftrightarrow> (\<exists>p. bt_progress t = Some p \<and> hasBarrier p \<and> db.J b E p w \<and>
     \<not> p_done p \<and> \<not> p_running p \<and>
     (\<exists>u. dw_kv w (bt_key t) = Some ((stateOf p)\<lparr>st_UpdatedAt := u\<rparr>)))"

definition untouched :: "timestamptz \<Rightarrow> torrent_row list \<Rightarrow> batch_tracker \<Rightarrow> db_world \<Rightarrow> bool" where
  "untouched b E t w \<longleftrightarrow> bt_progress t = None \<and> dw_kv w (bt_key t) = None \<and>
     okrows (dw_table w) \<and> 0 < dw_now w \<and> b = \<lparr>ts_Time = dw_now w, ts_Valid = True\<rparr> \<and>
     E = dw_log w @ todo b (0, []) (dw_table w)"

lemma J_same:
  "db.J b E p w \<Longrightarrow> p_barrierTime p' = p_barrierTime p \<Longrightarrow> p_cursorCreatedAt p' = p_cursorCreatedAt p \<Longrightarrow>
   p_cursorInfoHash p' = p_cursorInfoHash p \<Longrightarrow> db.J b E p' (w\<lparr>dw_script := s\<rparr>)"
  by (simp add: db.J_def dbEnv_now cursorKey_def)

lemma restart_untouched: "untouched b E t w \<Longrightarrow> untouched b E (restartTracker fp (w\<lparr>dw_script := s\<rparr>) t) w"
  by (simp add: untouched_def restartTracker_def Load_def dbEnv_def kvLoad_def NewBatchTracker_def)

lemma hasBarrier_pgtype: "ts_Valid b \<Longrightarrow> ts_Time b \<noteq> zeroTime \<Longrightarrow> timeToPgtype (ts_Time b) = b"
  by (cases b) (simp add: timeToPgtype_def)

lemma restart_interrupted:
  assumes "interrupted b E t w"
  shows "interrupted b E (restartTracker fp (w\<lparr>dw_script := s\<rparr>) t) w"
proof -
  obtain p u where p: "bt_progress t = Some p" "hasBarrier p" "db.J b E p w" "\<not> p_done p"
      "dw_kv w (bt_key t) = Some ((stateOf p)\<lparr>st_UpdatedAt := u\<rparr>)"
    using assms by (auto simp: interrupted_def)
  let ?q = "restoreProgress fp ((stateOf p)\<lparr>st_UpdatedAt := u\<rparr>)"
  let ?t = "restartTracker fp (w\<lparr>dw_script := s\<rparr>) t"
  have t: "bt_progress ?t = Some ?q" "bt_key ?t = bt_key t"
    using p(5) by (simp_all add: restartTracker_def Load_def dbEnv_def kvLoad_def NewBatchTracker_def)
  have c: "timeToPgtype (ts_Time (p_cursorCreatedAt p)) = p_cursorCreatedAt p"
    using p(3) by (simp add: db.J_def)
  have bar: "timeToPgtype (ts_Time (p_barrierTime p)) = p_barrierTime p"
    using p(2) by (simp add: hasBarrier_def hasBarrier_pgtype)
  have q: "p_barrierTime ?q = p_barrierTime p" "p_cursorCreatedAt ?q = p_cursorCreatedAt p"
      "p_cursorInfoHash ?q = p_cursorInfoHash p" "\<not> p_done ?q" "\<not> p_running ?q"
      "stateOf ?q = stateOf p"
    using p(4) by (simp_all add: restoreProgress_def stateOf_def zeroProgress_def c bar)
  have "hasBarrier ?q" "db.J b E ?q w"
    using p(2) q(1) J_same [OF p(3) q(1-3), of "dw_script w"] by (simp_all add: hasBarrier_def)
  then show ?thesis using t q p(5) by (auto simp: interrupted_def)
qed

lemma Start_untouched: "untouched b E t w \<Longrightarrow> \<exists>p. Start (dbOpts fp) t (Some NewController) w
      = (None, t\<lparr>bt_progress := Some p\<rparr>, Some {bt_job t}, w) \<and> \<not> hasBarrier p"
  by (rule exI [of _ "startedProgress (freshProgress fp)"])
    (simp add: untouched_def Start_def inProgress_def acquire_def TryAcquire_def NewController_def
      dbOpts_def, simp add: startedProgress_def freshProgress_def zeroProgress_def hasBarrier_def noTimestamp_def)

lemma Start_interrupted: "interrupted b E t w \<Longrightarrow> \<exists>p. Start (dbOpts fp) t (Some NewController) w
      = (None, t\<lparr>bt_progress := Some p\<rparr>, Some {bt_job t}, w) \<and> hasBarrier p \<and> db.J b E p w"
proof -
  assume "interrupted b E t w"
  then obtain p where p: "bt_progress t = Some p" "hasBarrier p" "db.J b E p w" "\<not> p_done p" "\<not> p_running p"
    by (auto simp: interrupted_def)
  let ?p = "startedProgress (p\<lparr>p_configChanged := (p_stateFingerprint p \<noteq> fp)\<rparr>)"
  have "db.J b E ?p w" using J_same [OF p(3), of ?p "dw_script w"] by (simp add: startedProgress_def)
  then show ?thesis using p
    by (intro exI [of _ ?p]) (simp add: Start_def inProgress_def Snapshot_def acquire_def
        TryAcquire_def NewController_def dbOpts_def CanResume_def hasBarrier_def)
qed

text \<open>Both are what a run starts from.\<close>

lemma Start_session:
  assumes "untouched b E t w \<or> interrupted b E t w"
  obtains p where "Start (dbOpts fp) t (Some NewController) w
        = (None, t\<lparr>bt_progress := Some p\<rparr>, Some {bt_job t}, w)"
      "(hasBarrier p \<and> db.J b E p w) \<or>
        (\<not> hasBarrier p \<and> okrows (dw_table w) \<and> 0 < te_Now dbEnv w \<and>
         b = \<lparr>ts_Time = te_Now dbEnv w, ts_Valid = True\<rparr> \<and> E = dw_log w @ todo b (0, []) (dw_table w))"
proof (cases "untouched b E t w")
  case True
  obtain p where p: "Start (dbOpts fp) t (Some NewController) w
      = (None, t\<lparr>bt_progress := Some p\<rparr>, Some {bt_job t}, w) \<and> \<not> hasBarrier p"
    using Start_untouched [OF True, of fp] by (elim exE)
  show thesis by (rule that [of p]) (use p True in \<open>auto simp: untouched_def dbEnv_now\<close>)
next
  case False
  then have i: "interrupted b E t w" using assms by simp
  obtain p where p: "Start (dbOpts fp) t (Some NewController) w
      = (None, t\<lparr>bt_progress := Some p\<rparr>, Some {bt_job t}, w) \<and> hasBarrier p \<and> db.J b E p w"
    using Start_interrupted [OF i, of fp] by (elim exE)
  show thesis by (rule that [of p]) (use p in simp_all)
qed

lemma script_irrelevant:
  "untouched b E t (w\<lparr>dw_script := s\<rparr>) = untouched b E t w"
  "interrupted b E t (w\<lparr>dw_script := s\<rparr>) = interrupted b E t w"
  by (simp_all add: untouched_def interrupted_def db.J_def dbEnv_now)

text \<open>One attempt, from either state, with any script.\<close>

lemma session_step:
  assumes i: "untouched b E t w \<or> interrupted b E t w"
  shows "\<exists>t' w'. dw_log w' @ todo b (cursorKey (the (bt_progress t'))) (dw_table w') = E \<and>
    bt_progress t' \<noteq> None \<and>
    (isDone t' \<longrightarrow> todo b (cursorKey (the (bt_progress t'))) (dw_table w') = []) \<and>
    (\<not> isDone t' \<longrightarrow> interrupted b E t' w') \<and>
    ((\<forall>ev \<in> set script. \<exists>hs. ev = EvOk hs) \<longrightarrow> isDone t') \<and>
    sessions fp ((restart, script) # ss) t w = (if isDone t' then Some (t', w') else sessions fp ss t' w')"
proof -
  let ?w = "w\<lparr>dw_script := script\<rparr>"
  define t0 where "t0 = (if restart then restartTracker fp ?w t else t)"
  have i': "untouched b E t0 ?w \<or> interrupted b E t0 ?w"
    unfolding script_irrelevant
    using i restart_untouched [of b E t w fp script] restart_interrupted [of b E t w fp script]
    by (auto simp: t0_def)
  obtain p where s: "Start (dbOpts fp) t0 (Some NewController) ?w
        = (None, t0\<lparr>bt_progress := Some p\<rparr>, Some {bt_job t0}, ?w)"
      and pre: "(hasBarrier p \<and> db.J b E p ?w) \<or>
        (\<not> hasBarrier p \<and> okrows (dw_table ?w) \<and> 0 < te_Now dbEnv ?w \<and>
         b = \<lparr>ts_Time = te_Now dbEnv ?w, ts_Valid = True\<rparr> \<and> E = dw_log ?w @ todo b (0, []) (dw_table ?w))"
    by (rule Start_session [OF i', of fp])
  let ?t1 = "t0\<lparr>bt_progress := Some p\<rparr>"
  obtain p' w' where r: "run dbEnv (dbOpts fp) ?t1 p (Some {bt_job t0}) ?w
        = Some (p', release (bt_job ?t1) (Some {bt_job t0}), finish (dbOpts fp) w')"
      and j: "db.J b E p' w'" and calm: "dbCalm ?w \<longrightarrow> p_done p'"
      and fd: "p_done p' \<longrightarrow> todo b (cursorKey p') (dw_table w') = []"
      and nd: "\<not> p_done p' \<longrightarrow> \<not> p_running p' \<and> (\<exists>w0. w' = save dbEnv ?t1 p' w0)"
    using db.run_spec [OF pre, of fp ?t1 "Some {bt_job t0}"] by blast
  have b: "hasBarrier p'"
  proof -
    have "p_barrierTime p' = b" using j by (simp add: db.J_def)
    moreover have "ts_Valid b \<and> ts_Time b \<noteq> zeroTime"
      using pre by (auto simp: hasBarrier_def db.J_def zeroTime_def)
    ultimately show ?thesis by (simp add: hasBarrier_def)
  qed
  have fin: "finish (dbOpts fp) w' = w'" by (simp add: finish_def dbOpts_def)
  let ?t2 = "?t1\<lparr>bt_progress := Some p'\<rparr>"
  have sess: "sessions fp ((restart, script) # ss) t w
      = (if isDone ?t2 then Some (?t2, w') else sessions fp ss ?t2 w')"
    by (simp add: Let_def s r fin flip: t0_def)
  have int: "\<not> isDone ?t2 \<longrightarrow> interrupted b E ?t2 w'"
    using nd j b by (auto simp: interrupted_def save_dbEnv)
  have calm': "(\<forall>ev \<in> set script. \<exists>hs. ev = EvOk hs) \<longrightarrow> isDone ?t2"
    using calm by (simp add: dbCalm_def)
  have E: "dw_log w' @ todo b (cursorKey p') (dw_table w') = E" using j by (simp add: db.J_def)
  show ?thesis
    by (rule exI [of _ ?t2], rule exI [of _ w'])
      (intro conjI sess int calm', use E fd in simp_all)
qed


text \<open>A run that fails on its first page, then a restart while a torrent arrives.\<close>

definition sampleTorrents :: "torrent_row list" where
  "sampleTorrents = [\<lparr>row_CreatedAt = \<lparr>ts_Time = 7, ts_Valid = True\<rparr>, row_InfoHash = ''aa''\<rparr>,
     \<lparr>row_CreatedAt = \<lparr>ts_Time = 3, ts_Valid = True\<rparr>, row_InfoHash = ''bb''\<rparr>]"

definition sampleWorld :: db_world where
  "sampleWorld = \<lparr>dw_table = sampleTorrents, dw_log = [], dw_script = [], dw_now = 10,
     dw_kv = Map.empty\<rparr>"


section \<open>One job at a time\<close>

text \<open>
  The trackers of all jobs share one controller.  The goroutine of a job is not yet past its
  barrier, or in the loop, or returning; every step of any goroutine and every call of the API
  interleaves with the others, and the rest of the program changes the world.
\<close>

datatype job_phase = Starting | Looping timestamptz | Stopping

record 'w job_system =
  sy_ctrl :: controller
  sy_tr :: "string \<Rightarrow> batch_tracker"
  sy_ph :: "string \<Rightarrow> job_phase option"
  sy_world :: 'w

inductive job_step :: "'w tracker_env \<Rightarrow> (string \<Rightarrow> 'w start_options) \<Rightarrow>
    'w job_system \<Rightarrow> 'w job_system \<Rightarrow> bool" for env opts where
  start: "Start (opts j) (sy_tr s j) (Some (sy_ctrl s)) (sy_world s) = (e, t', Some c', w') \<Longrightarrow>
    job_step env opts s (s\<lparr>sy_tr := (sy_tr s)(j := t'), sy_ctrl := c', sy_world := w',
      sy_ph := (if e = None then (sy_ph s)(j \<mapsto> Starting) else sy_ph s)\<rparr>)"
| barrier: "sy_ph s j = Some Starting \<Longrightarrow> bt_progress (sy_tr s j) = Some p \<Longrightarrow>
    runBegin env (opts j) (sy_tr s j) p (sy_world s) = (r, p', w') \<Longrightarrow>
    job_step env opts s (s\<lparr>sy_tr := (sy_tr s)(j := (sy_tr s j)\<lparr>bt_progress := Some p'\<rparr>), sy_world := w',
      sy_ph := (sy_ph s)(j \<mapsto> (case r of Some b \<Rightarrow> Looping b | None \<Rightarrow> Stopping))\<rparr>)"
| page: "sy_ph s j = Some (Looping b) \<Longrightarrow> bt_progress (sy_tr s j) = Some p \<Longrightarrow>
    runPage env (opts j) (sy_tr s j) b p (sy_world s) = (oc, p1, w1) \<Longrightarrow>
    (p', w') = (if oc = LastPage then runEnd env (sy_tr s j) p1 w1 else (p1, w1)) \<Longrightarrow>
    job_step env opts s (s\<lparr>sy_tr := (sy_tr s)(j := (sy_tr s j)\<lparr>bt_progress := Some p'\<rparr>), sy_world := w',
      sy_ph := (sy_ph s)(j \<mapsto> (if oc = NextPage then Looping b else Stopping))\<rparr>)"
| stop: "sy_ph s j = Some Stopping \<Longrightarrow>
    job_step env opts s (s\<lparr>sy_ctrl := Release (bt_job (sy_tr s j)) (sy_ctrl s),
      sy_world := finish (opts j) (sy_world s), sy_ph := (sy_ph s)(j := None)\<rparr>)"
| discard: "Discard env (sy_tr s j) (sy_world s) = (e, t', w') \<Longrightarrow>
    job_step env opts s (s\<lparr>sy_tr := (sy_tr s)(j := t'), sy_world := w'\<rparr>)"
| other: "job_step env opts s (s\<lparr>sy_world := w'\<rparr>)"

inductive job_reachable :: "'w tracker_env \<Rightarrow> (string \<Rightarrow> 'w start_options) \<Rightarrow> 'w job_system \<Rightarrow> bool"
  for env opts where
  init: "sy_ctrl s = NewController \<Longrightarrow> sy_ph s = (\<lambda>_. None) \<Longrightarrow>
    (\<And>j. bt_job (sy_tr s j) = j) \<Longrightarrow> (\<And>j. \<not> inProgress (sy_tr s j)) \<Longrightarrow> job_reachable env opts s"
| step: "job_reachable env opts s \<Longrightarrow> job_step env opts s s' \<Longrightarrow> job_reachable env opts s'"

text \<open>What the steps of a goroutine do to the flags of its progress.\<close>

definition active :: "progress \<Rightarrow> bool" where
  "active p \<longleftrightarrow> p_running p \<and> \<not> p_done p"

lemma inProgress_active: "inProgress t \<longleftrightarrow> (\<exists>p. bt_progress t = Some p \<and> active p)"
  by (auto simp: inProgress_def Snapshot_def active_def split: option.splits)

lemma active_updates [simp]:
  "\<not> active (fail_progress e p)" "active (advance n r p) = active p" "active (barrierReset b p) = active p"
  "active (p\<lparr>p_total := n\<rparr>) = active p" "\<not> active (p\<lparr>p_done := True, p_resumable := q\<rparr>)"
  by (simp_all add: active_def fail_progress_def advance_def barrierReset_def)

lemma active_runBegin: "runBegin env opts t p w = (r, p', w') \<Longrightarrow> active p \<Longrightarrow>
    active p' \<longleftrightarrow> r \<noteq> None"
  by (auto simp: runBegin_def failRun_def Let_def split: if_splits sum.splits)

lemma active_runPage: "runPage env opts t b p w = (oc, p', w') \<Longrightarrow> active p \<Longrightarrow>
    active p' \<longleftrightarrow> oc \<noteq> RunFailed"
  by (auto simp: runPage_def failRun_def Let_def split: if_splits sum.splits option.splits
      prod.splits batch_result.splits)

lemma active_runEnd: "(p', w') = runEnd env t p w \<Longrightarrow> \<not> active p'"
  by (auto simp: runEnd_def Let_def)

lemma Start_fresh: "active (startedProgress (freshProgress fp))"
  by (simp add: active_def startedProgress_def freshProgress_def zeroProgress_def)

lemma Start_resumed: "CanResume p \<Longrightarrow> active (startedProgress (p\<lparr>p_configChanged := x\<rparr>))"
  by (simp add: active_def startedProgress_def CanResume_def)

lemma Start_idle:
  assumes "Start opts t (Some {}) w = (e, t', Some c', w')" and "\<not> inProgress t"
  shows "(e \<noteq> None \<and> t' = t \<and> c' = {}) \<or>
    (\<exists>p. e = None \<and> c' = {bt_job t} \<and> t' = t\<lparr>bt_progress := Some p\<rparr> \<and> active p)"
proof -
  let ?r = "if so_ForceFresh opts then None else case bt_progress t of None \<Rightarrow> None
    | Some p \<Rightarrow> if CanResume p then Some p else None"
  show ?thesis
  proof (cases ?r)
    case (Some p)
    then have "CanResume p" by (auto split: if_splits option.splits)
    then have "active (startedProgress (p\<lparr>p_configChanged := (p_stateFingerprint p \<noteq> so_Fingerprint opts)\<rparr>))"
      by (rule Start_resumed)
    then show ?thesis using assms unfolding Start_def Some
      by (auto simp: acquire_def TryAcquire_def)
  next
    case None
    show ?thesis using assms Start_fresh [of "so_Fingerprint opts"] unfolding Start_def None
      by (auto simp: acquire_def TryAcquire_def release_def Release_def split: option.splits prod.splits)
  qed
qed

lemma Start_cases:
  assumes "Start opts t (Some c) w = (e, t', Some c', w')"
  obtains (refused) "e \<noteq> None" "t' = t" "c' = c"
  | (started) p where "e = None" "c = {}" "c' = {bt_job t}" "\<not> inProgress t"
      "t' = t\<lparr>bt_progress := Some p\<rparr>" "active p"
proof (cases "inProgress t \<or> c \<noteq> {}")
  case True
  then have "e \<noteq> None \<and> t' = t \<and> c' = c"
    using assms by (auto simp: Start_def acquire_def TryAcquire_def split: if_splits)
  then show thesis by (intro refused) simp_all
next
  case False
  then show thesis using Start_idle [of opts t w e t' c' w'] assms refused started by blast
qed

text \<open>The invariant: the active slot is the live goroutine, and it is the only one.\<close>

definition slot_inv :: "'w job_system \<Rightarrow> bool" where
  "slot_inv s \<longleftrightarrow> (\<forall>j. bt_job (sy_tr s j) = j) \<and> sy_ctrl s = {j. sy_ph s j \<noteq> None} \<and>
     (\<forall>i j. sy_ph s i \<noteq> None \<longrightarrow> sy_ph s j \<noteq> None \<longrightarrow> i = j) \<and>
     (\<forall>j. inProgress (sy_tr s j) \<longleftrightarrow> (\<exists>ph. sy_ph s j = Some ph \<and> ph \<noteq> Stopping))"

lemma slot_inv_progress:
  assumes "slot_inv s" and "sy_ph s j = Some ph" and "(ph' \<noteq> Stopping) \<longleftrightarrow> active p'"
  shows "slot_inv (s\<lparr>sy_tr := (sy_tr s)(j := (sy_tr s j)\<lparr>bt_progress := Some p'\<rparr>), sy_world := w',
      sy_ph := (sy_ph s)(j \<mapsto> ph')\<rparr>)"
  using assms by (auto simp: slot_inv_def inProgress_active)

lemma slot_inv_active:
  "slot_inv s \<Longrightarrow> sy_ph s j = Some ph \<Longrightarrow> ph \<noteq> Stopping \<Longrightarrow> bt_progress (sy_tr s j) = Some p \<Longrightarrow> active p"
  unfolding slot_inv_def inProgress_active by (metis option.inject)

lemma slot_inv_step: "job_step env opts s s' \<Longrightarrow> slot_inv s \<Longrightarrow> slot_inv s'"
proof (induction rule: job_step.induct)
  case (start j s e t' c' w')
  from start(1) show ?case
  proof (cases rule: Start_cases)
    case refused
    then show ?thesis using start(2) by (auto simp: slot_inv_def)
  next
    case (started p)
    then show ?thesis using start(2) by (auto simp: slot_inv_def inProgress_active)
  qed
next
  case (barrier s j p r p' w')
  have "active p" using slot_inv_active barrier by blast
  then show ?case using active_runBegin [OF barrier(3)] barrier(1,4)
    by (intro slot_inv_progress) (auto split: option.splits)
next
  case (page s j b p oc p1 w1 p' w')
  have a: "active p" using slot_inv_active page by blast
  have "active p' \<longleftrightarrow> oc = NextPage"
    using active_runPage [OF page(3) a] active_runEnd [of p' w' env "sy_tr s j" p1 w1] page(4)
    by (cases oc) auto
  then show ?case using page(1,5) by (intro slot_inv_progress) auto
next
  case (stop s j)
  then show ?case by (auto simp: slot_inv_def Release_def)
next
  case (discard s j e t' w')
  then show ?case
    by (auto simp: slot_inv_def Discard_def inProgress_active Let_def split: if_splits option.splits prod.splits)
next
  case (other s w')
  then show ?case by (simp add: slot_inv_def)
qed

lemma job_reachable_inv: "job_reachable env opts s \<Longrightarrow> slot_inv s"
proof (induction rule: job_reachable.induct)
  case (init s)
  then show ?case by (simp add: slot_inv_def NewController_def)
qed (rule slot_inv_step)

text \<open>C9. At most one maintenance job is alive at any time, whatever the interleaving of starts,
  failures, discards and pages of all jobs; a job that reports running holds the slot, so the
  crawler is paused and the reason given is that job, and the slot is free exactly when no
  goroutine is left.
\<close>

theorem one_job_at_a_time:
  assumes "job_reachable env opts s"
  shows "(sy_ph s i \<noteq> None \<and> sy_ph s j \<noteq> None \<longrightarrow> i = j) \<and>
    (Running (sy_tr s j) \<longrightarrow> Paused (sy_ctrl s) \<and> Reason (sy_ctrl s) = j) \<and>
    (\<not> Paused (sy_ctrl s) \<longleftrightarrow> (\<forall>k. sy_ph s k = None))"
proof -
  have inv: "slot_inv s" by (rule job_reachable_inv [OF assms])
  have "Reason (sy_ctrl s) = j" if "sy_ph s j \<noteq> None"
  proof -
    have "sy_ctrl s = {j}" using inv that by (auto simp: slot_inv_def)
    then show ?thesis by (simp add: Reason_def)
  qed
  moreover have "Running t = inProgress t" for t by (simp add: Running_def inProgress_def)
  ultimately show ?thesis using inv by (auto simp: slot_inv_def Paused_def)
qed

text \<open>A reindex has been started; a reclassification is refused.\<close>

definition jobsIdle :: "db_world job_system" where
  "jobsIdle = \<lparr>sy_ctrl = NewController, sy_tr = (\<lambda>j. NewBatchTracker j j j j), sy_ph = (\<lambda>_. None),
     sy_world = sampleWorld\<rparr>"

definition jobsReindexing :: "db_world job_system" where
  "jobsReindexing = jobsIdle\<lparr>sy_tr := (sy_tr jobsIdle)(JobReindex := (sy_tr jobsIdle JobReindex)
       \<lparr>bt_progress := Some (startedProgress (freshProgress ''fp''))\<rparr>),
     sy_ctrl := {JobReindex}, sy_ph := [JobReindex \<mapsto> Starting]\<rparr>"

lemma jobsReindexing_reachable: "job_reachable dbEnv (\<lambda>_. dbOpts ''fp'') jobsReindexing"
proof (rule job_reachable.step)
  show "job_reachable dbEnv (\<lambda>_. dbOpts ''fp'') jobsIdle"
    by (rule job_reachable.init) (simp_all add: jobsIdle_def NewBatchTracker_def inProgress_def)
  have "Start (dbOpts ''fp'') (sy_tr jobsIdle JobReindex) (Some (sy_ctrl jobsIdle)) (sy_world jobsIdle)
      = (None, sy_tr jobsReindexing JobReindex, Some {JobReindex}, sampleWorld)"
    by (simp add: jobsReindexing_def jobsIdle_def Start_def NewBatchTracker_def inProgress_def acquire_def
        TryAcquire_def NewController_def dbOpts_def)
  from job_step.start [OF this, where env = dbEnv]
  show "job_step dbEnv (\<lambda>_. dbOpts ''fp'') jobsIdle jobsReindexing"
    by (simp add: jobsReindexing_def jobsIdle_def)
qed

theorem one_job_at_a_time_witness:
  "Running (sy_tr jobsReindexing JobReindex) \<and> Reason (sy_ctrl jobsReindexing) = JobReindex \<and>
   fst (Start (dbOpts ''fp'') (sy_tr jobsReindexing JobReclassify) (Some (sy_ctrl jobsReindexing)) sampleWorld)
     = Some (''another operation in progress: '' @ JobReindex)"
proof -
  have r: "Running (sy_tr jobsReindexing JobReindex)"
    by (simp add: jobsReindexing_def Running_def Snapshot_def startedProgress_def freshProgress_def
        zeroProgress_def)
  then have q: "Reason (sy_ctrl jobsReindexing) = JobReindex"
    using one_job_at_a_time [OF jobsReindexing_reachable, of JobReindex JobReindex] by simp
  have "Reason {JobReindex} = JobReindex" using q by (simp add: jobsReindexing_def)
  then show ?thesis using r q
    by (simp add: jobsReindexing_def jobsIdle_def Start_def NewBatchTracker_def inProgress_def acquire_def
        TryAcquire_def NewController_def JobReindex_def JobReclassify_def)
qed

end
