(* ===== verification/RetryQueue.thy ===== *)
theory RetryQueue
  imports PgTypes
begin

text \<open>
  The torrent retry queue: \<open>src/internal/retryqueue\<close> (\<open>queue.go\<close>, \<open>config.go\<close>), the delays of
  \<open>src/internal/backoff\<close>, and the queries on the \<open>torrent_retry_queue\<close> table
  (\<open>database/db/sqlc/torrent_retry_queue.sql.go\<close>), whose primary key is \<open>(info_hash, stage)\<close>.

  \<^item> The state \<open>retry_db\<close> holds the table, the hashes of the torrents table, the messages given
    to the producer, the clock, and a script of database faults: a store call fails exactly when
    the next fault is for that call.
  \<^item> Floating-point arithmetic is a parameter (\<open>float_ops\<close>): what is proved of the delays holds
    for every result of the multiplication.  The JSON encoding of a payload is a parameter.
  \<^item> \<open>fail_count\<close> is a 32-bit integer: the database rejects an update beyond its range and Go
    wraps, as written in \<open>int32\<close>.
\<close>

section \<open>Configuration and delays\<close>

definition int32 :: "int \<Rightarrow> int" where
  "int32 n = signed_take_bit 31 n"

lemma int32_id: "- (2 ^ 31) \<le> n \<Longrightarrow> n < 2 ^ 31 \<Longrightarrow> int32 n = n"
  by (simp add: int32_def signed_take_bit_int_eq_self)

definition Second :: int where "Second = 1000000000"
definition Minute :: int where "Minute = 60 * Second"
definition Hour :: int where "Hour = 60 * Minute"

text \<open>
  \<open>fo_scale base f n\<close> is \<open>time.Duration(float64(base) * math.Pow(f, float64(n)))\<close>.
\<close>

record 'f float_ops =
  fo_one :: 'f
  fo_two :: 'f
  fo_lt_one :: "'f \<Rightarrow> bool"
  fo_le_one :: "'f \<Rightarrow> bool"
  fo_scale :: "int \<Rightarrow> 'f \<Rightarrow> int \<Rightarrow> int"

record 'f backoff_config =
  bo_Base :: int
  bo_Factor :: 'f
  bo_Max :: int

definition DefaultBase :: int where "DefaultBase = Second"
definition DefaultFactor :: "'f float_ops \<Rightarrow> 'f" where "DefaultFactor fo = fo_two fo"
definition DefaultMax :: int where "DefaultMax = Minute"

definition Delay :: "'f float_ops \<Rightarrow> 'f backoff_config \<Rightarrow> int \<Rightarrow> int" where
  "Delay fo c attempt0 =
     (let attempt = (if attempt0 < 1 then 1 else attempt0);
          base = (if bo_Base c \<le> 0 then DefaultBase else bo_Base c);
          factor = (if fo_lt_one fo (bo_Factor c) then DefaultFactor fo else bo_Factor c);
          maxDelay = (if bo_Max c \<le> 0 then DefaultMax else bo_Max c);
          delay = fo_scale fo base factor (attempt - 1) in
      if delay \<le> 0 \<or> delay > maxDelay then maxDelay else delay)"

record 'f retry_config =
  rc_MaxRetries :: int
  rc_Interval :: int
  rc_BackoffFactor :: 'f
  rc_MaxInterval :: int
  rc_ScanInterval :: int
  rc_BatchSize :: int
  rc_DispatchLease :: int

definition NewDefaultConfig :: "'f float_ops \<Rightarrow> 'f retry_config" where
  "NewDefaultConfig fo = \<lparr>rc_MaxRetries = 3, rc_Interval = 5 * Minute, rc_BackoffFactor = fo_two fo,
     rc_MaxInterval = Hour, rc_ScanInterval = 30 * Second, rc_BatchSize = 100,
     rc_DispatchLease = 15 * Minute\<rparr>"

definition backoffDelay :: "'f float_ops \<Rightarrow> 'f retry_config \<Rightarrow> int \<Rightarrow> int" where
  "backoffDelay fo c failCount =
     (let interval = (if rc_Interval c \<le> 0 then 5 * Minute else rc_Interval c);
          factor = (if fo_le_one fo (rc_BackoffFactor c) then fo_one fo else rc_BackoffFactor c);
          maxInterval = (if rc_MaxInterval c \<le> 0 then Hour else rc_MaxInterval c) in
      Delay fo \<lparr>bo_Base = interval, bo_Factor = factor, bo_Max = maxInterval\<rparr> failCount)"

definition scanInterval :: "'f retry_config \<Rightarrow> int" where
  "scanInterval c = (if rc_ScanInterval c \<le> 0 then 30 * Second else rc_ScanInterval c)"

text \<open>\<open>int32(d.Seconds())\<close>, exact while the floating-point quotient is (below \<open>2 ^ 22\<close> seconds).\<close>

definition delaySecs :: "int \<Rightarrow> int" where
  "delaySecs d = int32 (d div Second)"

section \<open>The table\<close>

definition StageClassify :: string where "StageClassify = ''classify''"
definition StageEnrich :: string where "StageEnrich = ''enrich''"

definition TopicProcessTorrent :: string where "TopicProcessTorrent = ''torrents.process''"
definition TopicEnriched :: string where "TopicEnriched = ''torrents.enriched''"
definition TopicDeleteTorrent :: string where "TopicDeleteTorrent = ''torrents.delete''"

record 'j retry_row =
  rr_InfoHash :: string
  rr_Stage :: string
  rr_Payload :: 'j
  rr_FailCount :: int
  rr_LastError :: string
  rr_LastFailureAt :: timestamptz
  rr_NextRetryAt :: timestamptz
  rr_DispatchedAt :: timestamptz

type_synonym retry_key = "string \<times> string"

definition rr_key :: "'j retry_row \<Rightarrow> retry_key" where
  "rr_key r = (rr_InfoHash r, rr_Stage r)"

definition stamp :: "int \<Rightarrow> timestamptz" where
  "stamp t = \<lparr>ts_Time = t, ts_Valid = True\<rparr>"

text \<open>
  The upsert of one row; the statement affects each row once, so a duplicate key in its input is
  an error, and so is a count beyond the range of \<open>integer\<close>.
\<close>

definition newRow :: "int \<Rightarrow> retry_key \<Rightarrow> 'j \<Rightarrow> string \<Rightarrow> 'j retry_row" where
  "newRow now k pl e = \<lparr>rr_InfoHash = fst k, rr_Stage = snd k, rr_Payload = pl, rr_FailCount = 1,
     rr_LastError = e, rr_LastFailureAt = stamp now, rr_NextRetryAt = stamp now,
     rr_DispatchedAt = noTimestamp\<rparr>"

definition bumpRow :: "int \<Rightarrow> 'j \<Rightarrow> string \<Rightarrow> 'j retry_row \<Rightarrow> 'j retry_row" where
  "bumpRow now pl e r = r\<lparr>rr_Payload := pl, rr_FailCount := rr_FailCount r + 1, rr_LastError := e,
     rr_LastFailureAt := stamp now, rr_DispatchedAt := noTimestamp\<rparr>"

definition upsertRow :: "int \<Rightarrow> retry_key \<times> 'j \<times> string \<Rightarrow> 'j retry_row list \<Rightarrow> 'j retry_row list" where
  "upsertRow now = (\<lambda>(k, pl, e) T.
     if k \<in> rr_key ` set T then map (\<lambda>r. if rr_key r = k then bumpRow now pl e r else r) T
     else T @ [newRow now k pl e])"

definition countOf :: "retry_key \<Rightarrow> 'j retry_row list \<Rightarrow> int" where
  "countOf k T = (case filter (\<lambda>r. rr_key r = k) T of [] \<Rightarrow> 0 | r # _ \<Rightarrow> rr_FailCount r)"

definition UpsertTorrentRetryBatch :: "int \<Rightarrow> (retry_key \<times> 'j \<times> string) list \<Rightarrow> 'j retry_row list \<Rightarrow>
    string + (retry_key \<times> int) list \<times> 'j retry_row list" where
  "UpsertTorrentRetryBatch now xs T =
     (if \<not> distinct (map fst xs) then Inl ''cannot affect row a second time''
      else if \<exists>x \<in> set xs. countOf (fst x) T + 1 \<ge> 2 ^ 31 then Inl ''integer out of range''
      else let T' = fold (upsertRow now) xs T in
        Inr (map (\<lambda>x. (fst x, countOf (fst x) T')) xs, T'))"

definition BackoffTorrentRetryBatch :: "int \<Rightarrow> (retry_key \<times> int) list \<Rightarrow> 'j retry_row list \<Rightarrow> 'j retry_row list" where
  "BackoffTorrentRetryBatch now ds T = map (\<lambda>r. case map_of ds (rr_key r) of None \<Rightarrow> r
     | Some secs \<Rightarrow> r\<lparr>rr_NextRetryAt := stamp (now + secs * Second)\<rparr>) T"

definition DeleteTorrentRetry :: "string \<Rightarrow> 'j retry_row list \<Rightarrow> 'j retry_row list" where
  "DeleteTorrentRetry h T = filter (\<lambda>r. rr_InfoHash r \<noteq> h) T"

definition ListDueTorrentRetry :: "int \<Rightarrow> int \<Rightarrow> 'j retry_row list \<Rightarrow> 'j retry_row list" where
  "ListDueTorrentRetry now limit T = take (nat limit)
     (sort_key (\<lambda>r. ts_Time (rr_NextRetryAt r)) (filter (\<lambda>r. ts_le (rr_NextRetryAt r) (stamp now)) T))"

definition MarkTorrentRetryDispatched :: "int \<Rightarrow> retry_key \<Rightarrow> int \<Rightarrow> timestamptz \<Rightarrow> 'j retry_row list \<Rightarrow> 'j retry_row list" where
  "MarkTorrentRetryDispatched now k failCount next T = map (\<lambda>r. if rr_key r = k
     then r\<lparr>rr_NextRetryAt := next, rr_DispatchedAt := stamp now, rr_FailCount := failCount\<rparr> else r) T"

definition TouchTorrentRetry :: "int \<Rightarrow> string \<Rightarrow> 'j retry_row list \<Rightarrow> int \<times> 'j retry_row list" where
  "TouchTorrentRetry now h T = (int (length (filter (\<lambda>r. rr_InfoHash r = h) T)),
     map (\<lambda>r. if rr_InfoHash r = h
       then r\<lparr>rr_NextRetryAt := stamp now, rr_DispatchedAt := noTimestamp\<rparr> else r) T)"

definition ListTorrentRetryQueue :: "int \<Rightarrow> int \<Rightarrow> 'j retry_row list \<Rightarrow> 'j retry_row list" where
  "ListTorrentRetryQueue limit offset T =
     take (nat limit) (drop (nat offset) (sort_key (\<lambda>r. ts_Time (rr_NextRetryAt r)) T))"

definition CountTorrentRetryQueue :: "'j retry_row list \<Rightarrow> int" where
  "CountTorrentRetryQueue T = int (length T)"

section \<open>The queue\<close>

datatype store_call = CallStore | CallUpsert | CallBackoff | CallDelete | CallListDue | CallMark
  | CallTouch | CallList | CallCount | CallClear | CallDeleteTorrent

datatype 'j queue_msg = DeleteMsg string | RetryMsg string string 'j

record 'j retry_db =
  rd_queue :: "'j retry_row list"
  rd_torrents :: "string set"
  rd_out :: "'j queue_msg list"
  rd_now :: int
  rd_faults :: "(store_call \<times> string) list"

definition storeCall :: "store_call \<Rightarrow> 'j retry_db \<Rightarrow> string option \<times> 'j retry_db" where
  "storeCall c s = (case rd_faults s of (c', e) # fs \<Rightarrow>
       if c' = c then (Some e, s\<lparr>rd_faults := fs\<rparr>) else (None, s)
     | [] \<Rightarrow> (None, s))"

definition Produce :: "'j queue_msg \<Rightarrow> 'j retry_db \<Rightarrow> 'j retry_db" where
  "Produce m s = s\<lparr>rd_out := rd_out s @ [m]\<rparr>"

datatype retry_error = ErrStore string | ErrMarshal string | ErrUpsert string | ErrExceeded nat
  | ErrList string | ErrCount string | ErrNoRows | ErrOther string

record 'p retry_item =
  ri_Stage :: string
  ri_InfoHash :: string
  ri_Payload :: 'p

text \<open>\<open>evict\<close>: the torrent goes, a delete event is published, and all its entries go.\<close>

definition evict :: "string \<Rightarrow> 'j retry_db \<Rightarrow> 'j retry_db" where
  "evict h s =
     (let (e1, s1) = storeCall CallDeleteTorrent s;
          s2 = (if e1 = None then s1\<lparr>rd_torrents := rd_torrents s1 - {h}\<rparr> else s1);
          (e2, s3) = storeCall CallDelete (Produce (DeleteMsg h) s2) in
      if e2 = None then s3\<lparr>rd_queue := DeleteTorrentRetry h (rd_queue s3)\<rparr> else s3)"

definition overBudget :: "'f retry_config \<Rightarrow> int \<Rightarrow> bool" where
  "overBudget cfg failCount \<longleftrightarrow> rc_MaxRetries cfg \<ge> 0 \<and> failCount > int32 (rc_MaxRetries cfg)"

fun marshalItems :: "('p \<Rightarrow> string + 'j) \<Rightarrow> string \<Rightarrow> 'p retry_item list \<Rightarrow>
    string + (retry_key \<times> 'j \<times> string) list" where
  "marshalItems enc lastErr [] = Inr []"
| "marshalItems enc lastErr (it # items) = bind_sum (enc (ri_Payload it)) (\<lambda>data.
     bind_sum (marshalItems enc lastErr items) (\<lambda>xs.
       Inr (((ri_InfoHash it, ri_Stage it), data, lastErr) # xs)))"

text \<open>The rows the upsert returned: over budget they are evicted, else they get a delay.\<close>

fun enqueueRows :: "'f float_ops \<Rightarrow> 'f retry_config \<Rightarrow> (retry_key \<times> int) list \<Rightarrow> 'j retry_db \<Rightarrow>
    (retry_key \<times> int) list \<times> 'j retry_db" where
  "enqueueRows fo cfg [] s = ([], s)"
| "enqueueRows fo cfg ((k, failCount) # rows) s =
     (if overBudget cfg failCount then enqueueRows fo cfg rows (evict (fst k) s)
      else let (ds, s') = enqueueRows fo cfg rows s in
        ((k, delaySecs (backoffDelay fo cfg failCount)) # ds, s'))"

definition applyBackoff :: "(retry_key \<times> int) list \<Rightarrow> 'j retry_db \<Rightarrow> 'j retry_db" where
  "applyBackoff ds s = (if ds = [] then s else
     (case storeCall CallBackoff s of
        (Some e, s') \<Rightarrow> s'
      | (None, s') \<Rightarrow> s'\<lparr>rd_queue := BackoffTorrentRetryBatch (rd_now s') ds (rd_queue s')\<rparr>))"

definition EnqueueBatch :: "('p \<Rightarrow> string + 'j) \<Rightarrow> 'f float_ops \<Rightarrow> 'f retry_config \<Rightarrow>
    'p retry_item list \<Rightarrow> string option \<Rightarrow> 'j retry_db \<Rightarrow> retry_error option \<times> 'j retry_db" where
  "EnqueueBatch enc fo cfg items cause s =
     (if items = [] then (None, s)
      else case storeCall CallStore s of
        (Some e, s1) \<Rightarrow> (Some (ErrStore e), s1)
      | (None, s1) \<Rightarrow>
       (case marshalItems enc (case cause of None \<Rightarrow> [] | Some m \<Rightarrow> m) items of
          Inl e \<Rightarrow> (Some (ErrMarshal e), s1)
        | Inr xs \<Rightarrow>
         (case storeCall CallUpsert s1 of
            (Some e, s2) \<Rightarrow> (Some (ErrUpsert e), s2)
          | (None, s2) \<Rightarrow>
           (case UpsertTorrentRetryBatch (rd_now s2) xs (rd_queue s2) of
              Inl e \<Rightarrow> (Some (ErrUpsert e), s2)
            | Inr (rows, T) \<Rightarrow>
               (let (ds, s3) = enqueueRows fo cfg rows (s2\<lparr>rd_queue := T\<rparr>) in
                (if length ds < length rows then Some (ErrExceeded (length rows - length ds)) else None,
                 applyBackoff ds s3))))))"

definition Enqueue :: "('p \<Rightarrow> string + 'j) \<Rightarrow> 'f float_ops \<Rightarrow> 'f retry_config \<Rightarrow>
    string \<Rightarrow> string \<Rightarrow> 'p \<Rightarrow> string option \<Rightarrow> 'j retry_db \<Rightarrow> retry_error option \<times> 'j retry_db" where
  "Enqueue enc fo cfg stage h payload cause s = EnqueueBatch enc fo cfg
     [\<lparr>ri_Stage = stage, ri_InfoHash = h, ri_Payload = payload\<rparr>] cause s"

text \<open>\<open>Remove\<close>: errors are logged and swallowed.\<close>

fun removeHashes :: "string list \<Rightarrow> 'j retry_db \<Rightarrow> 'j retry_db" where
  "removeHashes [] s = s"
| "removeHashes (h # hs) s = removeHashes hs
     (case storeCall CallDelete s of (Some e, s') \<Rightarrow> s'
      | (None, s') \<Rightarrow> s'\<lparr>rd_queue := DeleteTorrentRetry h (rd_queue s')\<rparr>)"

definition Remove :: "string list \<Rightarrow> 'j retry_db \<Rightarrow> 'j retry_db" where
  "Remove hs s = (case storeCall CallStore s of (Some e, s') \<Rightarrow> s' | (None, s') \<Rightarrow> removeHashes hs s')"

text \<open>
  The scan.  \<open>verdict\<close> is the failure count a due row is dispatched with, or \<open>None\<close> when it is
  evicted: a row still leased counts its lost dispatch as a failure.
\<close>

definition leased :: "'j retry_row \<Rightarrow> bool" where
  "leased r \<longleftrightarrow> ts_Valid (rr_DispatchedAt r)"

definition verdict :: "'f retry_config \<Rightarrow> 'j retry_row \<Rightarrow> int option" where
  "verdict cfg r = (let failCount = (if leased r then int32 (rr_FailCount r + 1) else rr_FailCount r) in
     if overBudget cfg failCount then None else Some failCount)"

definition retryMsg :: "'j retry_row \<Rightarrow> 'j queue_msg" where
  "retryMsg r = RetryMsg (if rr_Stage r = StageEnrich then TopicEnriched else TopicProcessTorrent)
     (rr_InfoHash r) (rr_Payload r)"

definition leaseOf :: "'f retry_config \<Rightarrow> int" where
  "leaseOf cfg = (if rc_DispatchLease cfg \<le> 0 then 15 * Minute else rc_DispatchLease cfg)"

definition markRow :: "'f retry_config \<Rightarrow> int \<Rightarrow> retry_key \<Rightarrow> int \<Rightarrow> 'j retry_db \<Rightarrow> string option \<times> 'j retry_db" where
  "markRow cfg now k failCount s = (case storeCall CallMark s of
     (Some e, s') \<Rightarrow> (Some e, s')
   | (None, s') \<Rightarrow> (None, s'\<lparr>rd_queue := MarkTorrentRetryDispatched (rd_now s') k failCount
        (stamp (now + leaseOf cfg)) (rd_queue s')\<rparr>))"

definition dispatchRow :: "'f retry_config \<Rightarrow> int \<Rightarrow> 'j retry_row \<Rightarrow> 'j retry_db \<Rightarrow> 'j retry_db" where
  "dispatchRow cfg now r s = (case verdict cfg r of
     None \<Rightarrow> evict (rr_InfoHash r) s
   | Some failCount \<Rightarrow> snd (markRow cfg now (rr_key r) failCount (Produce (retryMsg r) s)))"

definition listDue :: "'f retry_config \<Rightarrow> 'j retry_db \<Rightarrow> 'j retry_row list \<times> 'j retry_db" where
  "listDue cfg s = (case storeCall CallStore s of
     (Some e, s1) \<Rightarrow> ([], s1)
   | (None, s1) \<Rightarrow>
      (let batchSize = (if rc_BatchSize cfg \<le> 0 then 100 else rc_BatchSize cfg) in
       case storeCall CallListDue s1 of
         (Some e, s2) \<Rightarrow> ([], s2)
       | (None, s2) \<Rightarrow> (ListDueTorrentRetry (rd_now s2) (int32 batchSize) (rd_queue s2), s2)))"

definition dispatchDue :: "'f retry_config \<Rightarrow> 'j retry_db \<Rightarrow> 'j retry_db" where
  "dispatchDue cfg s = (let (rows, s1) = listDue cfg s in fold (dispatchRow cfg (rd_now s1)) rows s1)"

record retry_entry =
  re_InfoHash :: string
  re_Stage :: string
  re_FailCount :: int
  re_LastError :: string
  re_LastFailureAt :: int
  re_NextRetryAt :: int

definition entryOf :: "'j retry_row \<Rightarrow> retry_entry" where
  "entryOf r = \<lparr>re_InfoHash = rr_InfoHash r, re_Stage = rr_Stage r, re_FailCount = rr_FailCount r,
     re_LastError = rr_LastError r,
     re_LastFailureAt = (if ts_Valid (rr_LastFailureAt r) then ts_Time (rr_LastFailureAt r) else zeroTime),
     re_NextRetryAt = (if ts_Valid (rr_NextRetryAt r) then ts_Time (rr_NextRetryAt r) else zeroTime)\<rparr>"

definition ClampInt32 :: "int \<Rightarrow> int" where
  "ClampInt32 n = (if n > 2 ^ 31 - 1 then 2 ^ 31 - 1 else if n < - (2 ^ 31) then - (2 ^ 31) else n)"

definition Entries :: "int \<Rightarrow> int \<Rightarrow> 'j retry_db \<Rightarrow> (retry_error + retry_entry list \<times> int) \<times> 'j retry_db" where
  "Entries limit0 offset0 s = (case storeCall CallStore s of
     (Some e, s1) \<Rightarrow> (Inl (ErrStore e), s1)
   | (None, s1) \<Rightarrow>
      (let limit = (if limit0 \<le> 0 then 50 else limit0); offset = (if offset0 < 0 then 0 else offset0) in
       case storeCall CallList s1 of
         (Some e, s2) \<Rightarrow> (Inl (ErrList e), s2)
       | (None, s2) \<Rightarrow>
          (let rows = ListTorrentRetryQueue (ClampInt32 limit) (ClampInt32 offset) (rd_queue s2) in
           case storeCall CallCount s2 of
             (Some e, s3) \<Rightarrow> (Inl (ErrCount e), s3)
           | (None, s3) \<Rightarrow> (Inr (map entryOf rows, CountTorrentRetryQueue (rd_queue s3)), s3))))"

definition RetryNow :: "string \<Rightarrow> 'j retry_db \<Rightarrow> retry_error option \<times> 'j retry_db" where
  "RetryNow h s = (case storeCall CallStore s of
     (Some e, s1) \<Rightarrow> (Some (ErrStore e), s1)
   | (None, s1) \<Rightarrow> (case storeCall CallTouch s1 of
       (Some e, s2) \<Rightarrow> (Some (ErrOther e), s2)
     | (None, s2) \<Rightarrow> (let (n, T) = TouchTorrentRetry (rd_now s2) h (rd_queue s2) in
         (if n = 0 then Some ErrNoRows else None, s2\<lparr>rd_queue := T\<rparr>))))"

definition Clear :: "'j retry_db \<Rightarrow> retry_error option \<times> 'j retry_db" where
  "Clear s = (case storeCall CallStore s of
     (Some e, s1) \<Rightarrow> (Some (ErrStore e), s1)
   | (None, s1) \<Rightarrow> (case storeCall CallClear s1 of
       (Some e, s2) \<Rightarrow> (Some (ErrOther e), s2)
     | (None, s2) \<Rightarrow> (None, s2\<lparr>rd_queue := []\<rparr>)))"

section \<open>What the operations do to the table\<close>

definition keysOf :: "'j retry_row list \<Rightarrow> retry_key set" where
  "keysOf T = rr_key ` set T"

definition keyed :: "'j retry_row list \<Rightarrow> bool" where
  "keyed T \<longleftrightarrow> distinct (map rr_key T)"

text \<open>The part of a row the budget depends on.\<close>

definition sig :: "'j retry_row \<Rightarrow> retry_key \<times> int \<times> bool" where
  "sig r = (rr_key r, rr_FailCount r, leased r)"

text \<open>Rows only disappear, or change in what does not matter to the budget.\<close>

definition shrinks :: "'j retry_row list \<Rightarrow> 'j retry_row list \<Rightarrow> bool" where
  "shrinks T T' \<longleftrightarrow> (keyed T \<longrightarrow> keyed T') \<and> sig ` set T' \<subseteq> sig ` set T"

text \<open>Besides, a row may have failed once more, and new rows may be there.\<close>

definition evolves :: "'j retry_row list \<Rightarrow> 'j retry_row list \<Rightarrow> bool" where
  "evolves T T' \<longleftrightarrow> (keyed T \<longrightarrow> keyed T') \<and>
     (\<forall>r' \<in> set T'. sig r' \<in> sig ` set T \<or>
        (\<exists>r \<in> set T. sig r' = (rr_key r, rr_FailCount r + 1, False)) \<or>
        (rr_key r' \<notin> keysOf T \<and> sig r' = (rr_key r', 1, False)))"

lemma shrinks_refl [simp]: "shrinks T T"
  by (simp add: shrinks_def)

lemma shrinks_trans: "shrinks T U \<Longrightarrow> shrinks U V \<Longrightarrow> shrinks T V"
  unfolding shrinks_def by blast

lemma evolves_refl [simp]: "evolves T T"
  by (simp add: evolves_def)

lemma evolves_shrinks:
  assumes e: "evolves T U" and sh: "shrinks U V"
  shows "evolves T V"
  unfolding evolves_def
proof (intro conjI ballI impI)
  show "keyed T \<Longrightarrow> keyed V" using e sh by (simp add: evolves_def shrinks_def)
  fix v assume v: "v \<in> set V"
  then have "sig v \<in> sig ` set U" using sh unfolding shrinks_def by blast
  then obtain u where u: "u \<in> set U" and eq: "sig u = sig v" by (metis imageE)
  have k: "rr_key u = rr_key v" using eq by (simp add: sig_def)
  have "sig u \<in> sig ` set T \<or> (\<exists>r \<in> set T. sig u = (rr_key r, rr_FailCount r + 1, False)) \<or>
      (rr_key u \<notin> keysOf T \<and> sig u = (rr_key u, 1, False))"
    by (rule bspec [OF conjunct2 [OF e [unfolded evolves_def]] u])
  then show "sig v \<in> sig ` set T \<or> (\<exists>r \<in> set T. sig v = (rr_key r, rr_FailCount r + 1, False)) \<or>
      (rr_key v \<notin> keysOf T \<and> sig v = (rr_key v, 1, False))"
    unfolding eq k .
qed

lemma shrinks_evolves: "shrinks T U \<Longrightarrow> evolves T U"
  by (auto simp: shrinks_def evolves_def)

lemma keyed_map: "(\<And>r. rr_key (f r) = rr_key r) \<Longrightarrow> keyed (map f T) = keyed T"
  by (simp add: keyed_def comp_def)

lemma shrinks_map: "(\<And>r. sig (f r) = sig r) \<Longrightarrow> shrinks T (map f T)"
  by (auto simp: shrinks_def keyed_map sig_def image_iff)

lemma shrinks_filter: "shrinks T (filter P T)"
  by (auto simp: shrinks_def keyed_def distinct_map_filter)

lemma storeCall_frame:
  "storeCall c s = (e, s') \<Longrightarrow> rd_queue s' = rd_queue s \<and> rd_out s' = rd_out s \<and>
     rd_now s' = rd_now s \<and> rd_torrents s' = rd_torrents s"
  by (auto simp: storeCall_def split: list.splits prod.splits if_splits)

lemma shrinks_DeleteTorrentRetry [simp]: "shrinks T (DeleteTorrentRetry h T)"
  by (simp add: DeleteTorrentRetry_def shrinks_filter)

lemma shrinks_Backoff: "shrinks T (BackoffTorrentRetryBatch now ds T)"
  unfolding BackoffTorrentRetryBatch_def
  by (rule shrinks_map) (simp add: sig_def rr_key_def leased_def split: option.splits)

lemma shrinks_evict: "shrinks (rd_queue s) (rd_queue (evict h s))"
  by (auto simp: evict_def Produce_def Let_def dest!: storeCall_frame split: prod.splits)

lemma shrinks_enqueueRows: "enqueueRows fo cfg rows s = (ds, s') \<Longrightarrow> shrinks (rd_queue s) (rd_queue s')"
proof (induction fo cfg rows s arbitrary: ds s' rule: enqueueRows.induct)
  case (2 fo cfg k failCount rows s)
  then show ?case
    by (auto split: if_splits prod.splits intro: shrinks_trans [OF shrinks_evict])
qed simp

lemma shrinks_applyBackoff: "shrinks (rd_queue s) (rd_queue (applyBackoff ds s))"
  by (auto simp: applyBackoff_def shrinks_Backoff dest!: storeCall_frame split: prod.splits option.splits)

lemma shrinks_removeHashes: "shrinks (rd_queue s) (rd_queue (removeHashes hs s))"
proof (induction hs s rule: removeHashes.induct)
  case (2 h hs s)
  obtain e s' where c: "storeCall CallDelete s = (e, s')" by (cases "storeCall CallDelete s")
  let ?t = "case e of Some e \<Rightarrow> s' | None \<Rightarrow> s'\<lparr>rd_queue := DeleteTorrentRetry h (rd_queue s')\<rparr>"
  have "shrinks (rd_queue s) (rd_queue ?t)"
    using storeCall_frame [OF c] by (cases e) simp_all
  moreover have "removeHashes (h # hs) s = removeHashes hs ?t" by (simp add: c split: option.splits)
  ultimately show ?case using "2.IH" c by (cases e) (auto intro: shrinks_trans)
qed simp

lemma shrinks_Remove: "shrinks (rd_queue s) (rd_queue (Remove hs s))"
proof (cases "storeCall CallStore s")
  case (Pair e s')
  then show ?thesis
    using storeCall_frame [OF Pair] shrinks_removeHashes [of s' hs] by (cases e) (auto simp: Remove_def)
qed

lemma shrinks_Clear: "Clear s = (e, s') \<Longrightarrow> shrinks (rd_queue s) (rd_queue s')"
  by (auto simp: Clear_def shrinks_def keyed_def dest!: storeCall_frame split: prod.splits option.splits)

text \<open>The upsert: exactly the rows of its input fail once more or are new.\<close>

lemma sig_bump [simp]: "rr_key (bumpRow now pl e r) = rr_key r"
    "rr_FailCount (bumpRow now pl e r) = rr_FailCount r + 1" "\<not> leased (bumpRow now pl e r)"
  and sig_new [simp]: "rr_key (newRow now k pl e) = k" "rr_FailCount (newRow now k pl e) = 1"
    "\<not> leased (newRow now k pl e)"
  by (simp_all add: bumpRow_def newRow_def rr_key_def leased_def noTimestamp_def)

lemma keysOf_map: "(\<And>r. rr_key (f r) = rr_key r) \<Longrightarrow> keysOf (map f T) = keysOf T"
  by (simp add: keysOf_def image_image)

lemma keysOf_upsertRow: "keysOf (upsertRow now (k, pl, e) T) = insert k (keysOf T)"
  using keysOf_map [of "\<lambda>r. if rr_key r = k then bumpRow now pl e r else r" T]
  by (auto simp: upsertRow_def) (auto simp: keysOf_def)

lemma keyed_upsertRow: "keyed T \<Longrightarrow> keyed (upsertRow now (k, pl, e) T)"
  by (auto simp: upsertRow_def keyed_map) (auto simp: keyed_def)

lemma upsert_rows:
  "distinct (map fst xs) \<Longrightarrow> keyed T \<Longrightarrow> keyed (fold (upsertRow now) xs T) \<and>
   keysOf (fold (upsertRow now) xs T) = keysOf T \<union> fst ` set xs \<and>
   (\<forall>r' \<in> set (fold (upsertRow now) xs T).
     (rr_key r' \<notin> fst ` set xs \<and> r' \<in> set T) \<or>
     (rr_key r' \<in> fst ` set xs \<and> (\<exists>r \<in> set T. sig r' = (rr_key r, rr_FailCount r + 1, False))) \<or>
     (rr_key r' \<in> fst ` set xs \<and> rr_key r' \<notin> keysOf T \<and> sig r' = (rr_key r', 1, False)))"
proof (induction xs rule: rev_induct)
  case (snoc x xs)
  obtain k pl e where x: "x = (k, pl, e)" by (cases x)
  let ?U = "fold (upsertRow now) xs T"
  have d: "distinct (map fst xs)" and k: "k \<notin> fst ` set xs" using snoc.prems by (auto simp: x)
  have IH: "keyed ?U" "keysOf ?U = keysOf T \<union> fst ` set xs" using snoc.IH [OF d snoc.prems(2)] by auto
  have rows: "r' \<in> set ?U \<Longrightarrow> (rr_key r' \<notin> fst ` set xs \<and> r' \<in> set T) \<or>
     (rr_key r' \<in> fst ` set xs \<and> (\<exists>r \<in> set T. sig r' = (rr_key r, rr_FailCount r + 1, False))) \<or>
     (rr_key r' \<in> fst ` set xs \<and> rr_key r' \<notin> keysOf T \<and> sig r' = (rr_key r', 1, False))" for r'
    using snoc.IH [OF d snoc.prems(2)] by blast
  have old: "r \<in> set T" if "r \<in> set ?U" "rr_key r = k" for r using rows [OF that(1)] that(2) k by auto
  have kU: "k \<in> rr_key ` set ?U \<longleftrightarrow> k \<in> keysOf T" using IH(2) k by (auto simp: keysOf_def)
  show ?case
  proof (intro conjI ballI)
    show "keyed (fold (upsertRow now) (xs @ [x]) T)" by (simp add: x keyed_upsertRow IH)
    show "keysOf (fold (upsertRow now) (xs @ [x]) T) = keysOf T \<union> fst ` set (xs @ [x])"
      by (auto simp: x keysOf_upsertRow IH)
    fix r' assume "r' \<in> set (fold (upsertRow now) (xs @ [x]) T)"
    then consider (same) "r' \<in> set ?U" "rr_key r' \<noteq> k"
      | (bump) r where "r \<in> set ?U" "rr_key r = k" "r' = bumpRow now pl e r"
      | (new) "r' = newRow now k pl e" "k \<notin> keysOf T"
      using kU by (auto simp: x upsertRow_def split: if_splits)
    then show "(rr_key r' \<notin> fst ` set (xs @ [x]) \<and> r' \<in> set T) \<or>
     (rr_key r' \<in> fst ` set (xs @ [x]) \<and> (\<exists>r \<in> set T. sig r' = (rr_key r, rr_FailCount r + 1, False))) \<or>
     (rr_key r' \<in> fst ` set (xs @ [x]) \<and> rr_key r' \<notin> keysOf T \<and> sig r' = (rr_key r', 1, False))"
    proof cases
      case same
      then show ?thesis using rows [of r'] by (auto simp: x)
    next
      case bump
      then show ?thesis using old [of r] by (auto simp: x sig_def)
    next
      case new
      then show ?thesis by (simp add: x sig_def)
    qed
  qed
qed simp

lemma evolves_upsert:
  "UpsertTorrentRetryBatch now xs T = Inr (rows, T') \<Longrightarrow> keyed T \<Longrightarrow> evolves T T'"
proof -
  assume "UpsertTorrentRetryBatch now xs T = Inr (rows, T')" "keyed T"
  then have "distinct (map fst xs)" "T' = fold (upsertRow now) xs T"
    by (auto simp: UpsertTorrentRetryBatch_def Let_def split: if_splits)
  then show ?thesis using upsert_rows [of xs T now] \<open>keyed T\<close> by (auto simp: evolves_def)
qed

lemma EnqueueBatch_cases:
  assumes "EnqueueBatch enc fo cfg items cause s = (e, s')"
  obtains (unchanged) "rd_queue s' = rd_queue s" "rd_out s' = rd_out s" "rd_torrents s' = rd_torrents s"
  | (upserted) xs rows T ds s2 s3 where
      "marshalItems enc (case cause of None \<Rightarrow> [] | Some m \<Rightarrow> m) items = Inr xs"
      "UpsertTorrentRetryBatch (rd_now s) xs (rd_queue s) = Inr (rows, T)"
      "rd_queue s2 = T" "rd_out s2 = rd_out s" "rd_torrents s2 = rd_torrents s" "rd_now s2 = rd_now s"
      "enqueueRows fo cfg rows s2 = (ds, s3)"
      "e = (if length ds < length rows then Some (ErrExceeded (length rows - length ds)) else None)"
      "s' = applyBackoff ds s3"
proof (cases "items = []")
  case True
  then have "s' = s" using assms by (simp add: EnqueueBatch_def)
  then show thesis by (intro unchanged) simp_all
next
  case False
  obtain e1 s1 where c1: "storeCall CallStore s = (e1, s1)" by (cases "storeCall CallStore s")
  obtain e2 s2 where c2: "storeCall CallUpsert s1 = (e2, s2)" by (cases "storeCall CallUpsert s1")
  note fr = storeCall_frame [OF c1] storeCall_frame [OF c2]
  show thesis
  proof (cases "e1 = None \<and> e2 = None")
    case True
    show thesis
    proof (cases "marshalItems enc (case cause of None \<Rightarrow> [] | Some m \<Rightarrow> m) items")
      case (Inl m)
      then show thesis using assms False True c1 fr unchanged by (simp add: EnqueueBatch_def)
    next
      case (Inr xs)
      show thesis
      proof (cases "UpsertTorrentRetryBatch (rd_now s2) xs (rd_queue s2)")
        case (Inl m)
        then show thesis using assms False True c1 c2 fr Inr unchanged by (simp add: EnqueueBatch_def)
      next
        case up: (Inr rT)
        obtain rows T where rT: "rT = (rows, T)" by (cases rT)
        obtain ds s3 where en: "enqueueRows fo cfg rows (s2\<lparr>rd_queue := T\<rparr>) = (ds, s3)"
          by (cases "enqueueRows fo cfg rows (s2\<lparr>rd_queue := T\<rparr>)")
        show thesis
          by (rule upserted [OF Inr _ _ _ _ _ en])
            (use assms False True c1 c2 fr Inr up rT en in \<open>auto simp: EnqueueBatch_def\<close>)
      qed
    qed
  next
    case fault: False
    then show thesis using assms False c1 c2 fr unchanged
      by (auto simp: EnqueueBatch_def split: option.splits sum.splits)
  qed
qed

lemma evolves_EnqueueBatch:
  assumes eq: "EnqueueBatch enc fo cfg items cause s = (e, s')" and k: "keyed (rd_queue s)"
  shows "evolves (rd_queue s) (rd_queue s')"
  using eq
proof (cases rule: EnqueueBatch_cases)
  case (upserted xs rows T ds s2 s3)
  have "evolves (rd_queue s) (rd_queue s2)" using evolves_upsert [OF upserted(2) k] upserted(3) by simp
  then show ?thesis
    using shrinks_enqueueRows [OF upserted(7)] shrinks_applyBackoff [of s3 ds] upserted(9)
    by (auto intro: evolves_shrinks)
qed simp

section \<open>The budget\<close>

text \<open>The keys are pairs; statements quantify over whole keys.\<close>

declare split_paired_All [simp del] split_paired_Ex [simp del]

text \<open>
  The scheduler's scan interleaves with every other operation between any two of its store
  calls: \<open>rq_scan\<close> holds the rows it has still to look at, as they were when they were listed,
  and \<open>rq_pend\<close> the entry it has published and not yet marked.  Two history variables count per
  entry: \<open>rq_att\<close> the times it was published since its row last disappeared, and \<open>rq_free\<close> what
  the table cannot account for, a manual \<open>RetryNow\<close>, a mark the database refused, and a
  publication after the row is gone.
\<close>

record 'j rq_sys =
  rq_db :: "'j retry_db"
  rq_scan :: "'j retry_row list"
  rq_now :: int
  rq_pend :: "(retry_key \<times> int) option"
  rq_att :: "retry_key \<Rightarrow> int"
  rq_free :: "retry_key \<Rightarrow> int"

definition forget :: "'j retry_row list \<Rightarrow> 'j retry_row list \<Rightarrow> (retry_key \<Rightarrow> int) \<Rightarrow> retry_key \<Rightarrow> int" where
  "forget T T' att k = (if k \<in> keysOf T \<and> k \<notin> keysOf T' then 0 else att k)"

definition withDb :: "'j retry_db \<Rightarrow> 'j rq_sys \<Rightarrow> 'j rq_sys" where
  "withDb d s = s\<lparr>rq_db := d, rq_att := forget (rd_queue (rq_db s)) (rd_queue d) (rq_att s)\<rparr>"

inductive rq_step :: "('p \<Rightarrow> string + 'j) \<Rightarrow> 'f float_ops \<Rightarrow> 'f retry_config \<Rightarrow>
    'j rq_sys \<Rightarrow> 'j rq_sys \<Rightarrow> bool" for enc fo cfg where
  enqueue: "EnqueueBatch enc fo cfg items cause (rq_db s) = (e, d) \<Longrightarrow> rq_step enc fo cfg s (withDb d s)"
| remove: "rq_step enc fo cfg s (withDb (Remove hs (rq_db s)) s)"
| clear: "Clear (rq_db s) = (e, d) \<Longrightarrow> rq_step enc fo cfg s (withDb d s)"
| retry: "RetryNow h (rq_db s) = (e, d) \<Longrightarrow> rq_step enc fo cfg s (s\<lparr>rq_db := d,
      rq_free := (\<lambda>k. if fst k = h then rq_free s k + 1 else rq_free s k)\<rparr>)"
| env: "rd_queue d = rd_queue (rq_db s) \<Longrightarrow> rd_out d = rd_out (rq_db s) \<Longrightarrow>
    rq_step enc fo cfg s (s\<lparr>rq_db := d\<rparr>)"
| list: "rq_scan s = [] \<Longrightarrow> rq_pend s = None \<Longrightarrow> listDue cfg (rq_db s) = (rows, d) \<Longrightarrow>
    rq_step enc fo cfg s (s\<lparr>rq_db := d, rq_scan := rows, rq_now := rd_now d\<rparr>)"
| evict: "rq_scan s = r # rs \<Longrightarrow> rq_pend s = None \<Longrightarrow> verdict cfg r = None \<Longrightarrow>
    rq_step enc fo cfg s ((withDb (evict (rr_InfoHash r) (rq_db s)) s)\<lparr>rq_scan := rs\<rparr>)"
| publish: "rq_scan s = r # rs \<Longrightarrow> rq_pend s = None \<Longrightarrow> verdict cfg r = Some fc \<Longrightarrow>
    rq_step enc fo cfg s (s\<lparr>rq_db := Produce (retryMsg r) (rq_db s), rq_scan := rs,
      rq_pend := Some (rr_key r, fc), rq_att := (rq_att s)(rr_key r := rq_att s (rr_key r) + 1),
      rq_free := (if rr_key r \<in> keysOf (rd_queue (rq_db s)) then rq_free s
                  else (rq_free s)(rr_key r := rq_free s (rr_key r) + 1))\<rparr>)"
| mark: "rq_pend s = Some (k, fc) \<Longrightarrow> markRow cfg (rq_now s) k fc (rq_db s) = (e, d) \<Longrightarrow>
    rq_step enc fo cfg s (s\<lparr>rq_db := d, rq_pend := None,
      rq_free := (if e = None then rq_free s else (rq_free s)(k := rq_free s k + 1))\<rparr>)"

inductive rq_reachable :: "('p \<Rightarrow> string + 'j) \<Rightarrow> 'f float_ops \<Rightarrow> 'f retry_config \<Rightarrow> 'j rq_sys \<Rightarrow> bool"
  for enc fo cfg where
  init: "rd_queue (rq_db s) = [] \<Longrightarrow> rq_scan s = [] \<Longrightarrow> rq_pend s = None \<Longrightarrow>
    rq_att s = (\<lambda>_. 0) \<Longrightarrow> rq_free s = (\<lambda>_. 0) \<Longrightarrow> rq_reachable enc fo cfg s"
| step: "rq_reachable enc fo cfg s \<Longrightarrow> rq_step enc fo cfg s s' \<Longrightarrow> rq_reachable enc fo cfg s'"

text \<open>How often a row in this state may have been published.\<close>

definition spent :: "'j retry_row \<Rightarrow> int" where
  "spent r = rr_FailCount r - (if leased r then 0 else 1)"

definition row_ok :: "int \<Rightarrow> 'j retry_row \<Rightarrow> bool" where
  "row_ok M r \<longleftrightarrow> 1 \<le> rr_FailCount r \<and> (leased r \<longrightarrow> rr_FailCount r \<le> M)"

definition pendKey :: "'j rq_sys \<Rightarrow> retry_key \<Rightarrow> bool" where
  "pendKey s k \<longleftrightarrow> (\<exists>fc. rq_pend s = Some (k, fc))"

definition rq_inv :: "int \<Rightarrow> 'j rq_sys \<Rightarrow> bool" where
  "rq_inv M s \<longleftrightarrow> keyed (rd_queue (rq_db s)) \<and> keyed (rq_scan s) \<and>
     (\<forall>k. 0 \<le> rq_free s k \<and> rq_att s k \<le> M + rq_free s k) \<and>
     (\<forall>k. k \<notin> keysOf (rd_queue (rq_db s)) \<longrightarrow> rq_att s k \<le> rq_free s k) \<and>
     (\<forall>r \<in> set (rd_queue (rq_db s)). row_ok M r \<and>
        rq_att s (rr_key r) \<le> spent r + rq_free s (rr_key r) + (if pendKey s (rr_key r) then 1 else 0)) \<and>
     (\<forall>r \<in> set (rq_scan s). row_ok M r \<and> rq_att s (rr_key r) \<le> spent r + rq_free s (rr_key r) \<and>
        \<not> pendKey s (rr_key r)) \<and>
     (\<forall>k fc. rq_pend s = Some (k, fc) \<longrightarrow> 1 \<le> fc \<and> fc \<le> M \<and> rq_att s k \<le> fc + rq_free s k)"

lemma sig_sameD: "sig r' = sig r \<Longrightarrow> row_ok M r' = row_ok M r \<and> spent r' = spent r \<and> rr_key r' = rr_key r"
  by (simp add: sig_def row_ok_def spent_def)

lemma row_ok_fail: "sig r' = (k, n, False) \<Longrightarrow> row_ok M r' \<longleftrightarrow> 1 \<le> n"
  and spent_fail: "sig r' = (k, n, False) \<Longrightarrow> spent r' = n - 1"
  and key_fail: "sig r' = (k, n, False) \<Longrightarrow> rr_key r' = k"
  by (auto simp: sig_def row_ok_def spent_def)

text \<open>Every operation that lets the table evolve keeps the invariant.\<close>

lemma rq_inv_withDb:
  assumes inv: "rq_inv M s" and ev: "evolves (rd_queue (rq_db s)) (rd_queue d)" and M: "0 \<le> M"
  shows "rq_inv M (withDb d s)"
proof -
  let ?T = "rd_queue (rq_db s)" and ?U = "rd_queue d"
  let ?a = "forget ?T ?U (rq_att s)"
  have free: "0 \<le> rq_free s k" and att: "rq_att s k \<le> M + rq_free s k" for k
    using inv by (auto simp: rq_inv_def)
  have le: "?a k \<le> rq_att s k \<or> ?a k = 0" for k by (simp add: forget_def)
  have gone: "?a k \<le> rq_free s k" if "k \<notin> keysOf ?U" for k
    using inv that free [of k] by (auto simp: forget_def rq_inv_def)
  have row: "row_ok M r \<and> ?a (rr_key r) \<le> spent r + rq_free s (rr_key r) + (if pendKey s (rr_key r) then 1 else 0)"
    if r: "r \<in> set ?U" for r
  proof -
    have k: "rr_key r \<in> keysOf ?U" using r by (simp add: keysOf_def)
    then have a: "?a (rr_key r) = rq_att s (rr_key r)" by (simp add: forget_def)
    have old: "row_ok M q \<and> rq_att s (rr_key q) \<le> spent q + rq_free s (rr_key q)
        + (if pendKey s (rr_key q) then 1 else 0)" if "q \<in> set ?T" for q
      using inv that by (simp add: rq_inv_def)
    consider (same) q where "q \<in> set ?T" "sig r = sig q"
      | (fail) q where "q \<in> set ?T" "sig r = (rr_key q, rr_FailCount q + 1, False)"
      | (new) "rr_key r \<notin> keysOf ?T" "sig r = (rr_key r, 1, False)"
      using ev r unfolding evolves_def by blast
    then show ?thesis
    proof cases
      case same
      then show ?thesis using old [OF same(1)] sig_sameD [OF same(2), of M] a by simp
    next
      case fail
      have "spent q \<le> rr_FailCount q" "1 \<le> rr_FailCount q"
        using old [OF fail(1)] by (simp_all add: spent_def row_ok_def)
      then show ?thesis
        using old [OF fail(1)] row_ok_fail [OF fail(2), of M] spent_fail [OF fail(2)] key_fail [OF fail(2)] a
        by auto
    next
      case new
      have "rq_att s (rr_key r) \<le> rq_free s (rr_key r)" using inv new(1) by (simp add: rq_inv_def)
      then show ?thesis using row_ok_fail [OF new(2), of M] spent_fail [OF new(2)] a by simp
    qed
  qed
  have scan: "row_ok M r \<and> ?a (rr_key r) \<le> spent r + rq_free s (rr_key r) \<and> \<not> pendKey s (rr_key r)"
    if "r \<in> set (rq_scan s)" for r
    using inv that le [of "rr_key r"] free [of "rr_key r"]
    by (auto simp: rq_inv_def row_ok_def spent_def forget_def)
  have pend: "1 \<le> fc \<and> fc \<le> M \<and> ?a k \<le> fc + rq_free s k" if "rq_pend s = Some (k, fc)" for k fc
    using inv that free [of k] by (auto simp: rq_inv_def forget_def)
  have max: "?a k \<le> M + rq_free s k" for k using att [of k] free [of k] M by (simp add: forget_def)
  have keyed: "keyed ?U" "keyed (rq_scan s)" using inv ev by (auto simp: rq_inv_def evolves_def)
  show ?thesis
    using keyed free max gone row scan pend by (simp add: rq_inv_def withDb_def pendKey_def)
qed

lemma touch_rows:
  assumes "RetryNow h s = (e, d)"
  shows "keyed (rd_queue d) = keyed (rd_queue s) \<and> keysOf (rd_queue d) = keysOf (rd_queue s) \<and>
    (\<forall>r' \<in> set (rd_queue d). \<exists>r \<in> set (rd_queue s). rr_key r' = rr_key r \<and>
       rr_FailCount r' = rr_FailCount r \<and> (leased r' = leased r \<or> fst (rr_key r) = h \<and> \<not> leased r'))"
proof -
  let ?f = "\<lambda>r. if rr_InfoHash r = h
    then r\<lparr>rr_NextRetryAt := stamp (rd_now s), rr_DispatchedAt := noTimestamp\<rparr> else r"
  have f: "rr_key (?f r) = rr_key r" for r by (simp add: rr_key_def)
  have "rd_queue d = rd_queue s \<or> rd_queue d = map ?f (rd_queue s)"
    using assms by (auto simp: RetryNow_def TouchTorrentRetry_def Let_def dest!: storeCall_frame
        split: prod.splits option.splits)
  then show ?thesis
  proof
    assume "rd_queue d = map ?f (rd_queue s)"
    then show ?thesis
      using keyed_map [of ?f, OF f] keysOf_map [of ?f, OF f]
      by (auto simp: rr_key_def leased_def noTimestamp_def)
  qed auto
qed

lemma ListDue_set: "set (ListDueTorrentRetry now n T) \<subseteq> set T"
  by (auto simp: ListDueTorrentRetry_def dest: in_set_takeD)

lemma ListDue_keyed: "keyed T \<Longrightarrow> keyed (ListDueTorrentRetry now n T)"
proof -
  assume "keyed T"
  then have "keyed (sort_key (\<lambda>r. ts_Time (rr_NextRetryAt r))
      (filter (\<lambda>r. ts_le (rr_NextRetryAt r) (stamp now)) T))"
    by (auto simp: keyed_def distinct_map intro: inj_on_subset)
  then show ?thesis by (simp add: keyed_def ListDueTorrentRetry_def take_map [symmetric] distinct_take)
qed

lemma listDue_cases:
  assumes "listDue cfg s = (rows, d)"
  obtains "rd_queue d = rd_queue s" "rd_out d = rd_out s" "rd_now d = rd_now s" "rows = []"
  | n where "rd_queue d = rd_queue s" "rd_out d = rd_out s" "rd_now d = rd_now s"
      "rows = ListDueTorrentRetry (rd_now s) n (rd_queue s)"
  using assms unfolding listDue_def Let_def
  by (auto dest!: storeCall_frame split: prod.splits option.splits)

lemma listDue_rows:
  assumes "listDue cfg s = (rows, d)"
  shows "rd_queue d = rd_queue s \<and> rd_out d = rd_out s \<and> (keyed (rd_queue s) \<longrightarrow> keyed rows) \<and>
    set rows \<subseteq> set (rd_queue s)"
  using assms
proof (cases rule: listDue_cases)
  case 1
  then show ?thesis by (simp add: keyed_def)
next
  case (2 n)
  then show ?thesis
    using ListDue_set [of "rd_now s" n "rd_queue s"] ListDue_keyed [of "rd_queue s" "rd_now s" n] by simp
qed

lemma verdict_bound:
  assumes "verdict cfg r = Some fc" and "row_ok M r" and "rc_MaxRetries cfg = M" "0 \<le> M" "M < 2 ^ 31 - 1"
  shows "fc = spent r + 1" and "fc \<le> M"
proof -
  have M: "int32 M = M" using assms(4,5) by (simp add: int32_id)
  show fc: "fc = spent r + 1"
  proof (cases "leased r")
    case True
    then have "int32 (rr_FailCount r + 1) = rr_FailCount r + 1"
      using assms(2,5) by (intro int32_id) (simp_all add: row_ok_def)
    then show ?thesis using assms(1) True by (simp add: verdict_def Let_def spent_def split: if_splits)
  next
    case False
    then show ?thesis using assms(1) by (simp add: verdict_def Let_def spent_def split: if_splits)
  qed
  show "fc \<le> M"
    using assms(1,3,4) M by (auto simp: verdict_def Let_def overBudget_def split: if_splits)
qed

lemma rq_inv_scan_tail: "rq_inv M s \<Longrightarrow> rq_scan s = r # rs \<Longrightarrow> rq_inv M (s\<lparr>rq_scan := rs\<rparr>)"
  by (simp add: rq_inv_def pendKey_def keyed_def)

lemma rq_inv_publish:
  assumes inv: "rq_inv M s" and sc: "rq_scan s = r # rs" and p: "rq_pend s = None"
    and v: "verdict cfg r = Some fc" and M: "rc_MaxRetries cfg = M" "0 \<le> M" "M < 2 ^ 31 - 1"
  shows "rq_inv M (s\<lparr>rq_db := Produce (retryMsg r) (rq_db s), rq_scan := rs,
      rq_pend := Some (rr_key r, fc), rq_att := (rq_att s)(rr_key r := rq_att s (rr_key r) + 1),
      rq_free := (if rr_key r \<in> keysOf (rd_queue (rq_db s)) then rq_free s
                  else (rq_free s)(rr_key r := rq_free s (rr_key r) + 1))\<rparr>)"
proof -
  let ?k = "rr_key r"
  have r: "row_ok M r" "rq_att s ?k \<le> spent r + rq_free s ?k" using inv sc by (auto simp: rq_inv_def)
  have fc: "fc = spent r + 1" "fc \<le> M" using verdict_bound [OF v r(1) M] by auto
  have one: "1 \<le> fc" using fc(1) r(1) by (simp add: spent_def row_ok_def split: if_splits)
  have free: "0 \<le> rq_free s k" for k using inv by (simp add: rq_inv_def)
  have np: "\<not> pendKey s k" for k using p by (simp add: pendKey_def)
  have rest: "rr_key q \<noteq> ?k" if "q \<in> set rs" for q
  proof -
    have "?k \<notin> rr_key ` set rs" using inv sc by (simp add: rq_inv_def keyed_def)
    then show ?thesis using that by (metis image_eqI)
  qed
  have nokey: "rq_att s k \<le> rq_free s k" if "k \<notin> keysOf (rd_queue (rq_db s))" for k
    using inv that by (simp add: rq_inv_def)
  have krow: "rr_key q \<in> keysOf (rd_queue (rq_db s))" if "q \<in> set (rd_queue (rq_db s))" for q
    using that by (simp add: keysOf_def)
  show ?thesis
    using inv sc r fc one free np rest nokey krow
    unfolding rq_inv_def pendKey_def
    by (auto simp: Produce_def keyed_def)
qed

lemma rq_inv_mark:
  assumes inv: "rq_inv M s" and p: "rq_pend s = Some (k, fc)"
    and m: "markRow cfg (rq_now s) k fc (rq_db s) = (e, d)"
  shows "rq_inv M (s\<lparr>rq_db := d, rq_pend := None,
      rq_free := (if e = None then rq_free s else (rq_free s)(k := rq_free s k + 1))\<rparr>)"
proof -
  let ?T = "rd_queue (rq_db s)"
  have pk: "pendKey s j \<longleftrightarrow> j = k" for j using p by (auto simp: pendKey_def)
  have P: "1 \<le> fc" "fc \<le> M" "rq_att s k \<le> fc + rq_free s k" using inv p by (auto simp: rq_inv_def)
  show ?thesis
  proof (cases e)
    case (Some x)
    then have "rd_queue d = ?T"
      using m by (auto simp: markRow_def dest!: storeCall_frame split: prod.splits option.splits)
    then show ?thesis using inv p pk Some unfolding rq_inv_def by (auto simp: pendKey_def)
  next
    case None
    define n where "n = rd_now (rq_db s)"
    have d: "rd_queue d = map (\<lambda>r. if rr_key r = k
        then r\<lparr>rr_NextRetryAt := stamp (rq_now s + leaseOf cfg), rr_DispatchedAt := stamp n, rr_FailCount := fc\<rparr>
        else r) ?T"
      using m None by (auto simp: markRow_def MarkTorrentRetryDispatched_def n_def dest!: storeCall_frame
          split: prod.splits option.splits)
    have key: "rr_key (if rr_key r = k then r\<lparr>rr_NextRetryAt := stamp (rq_now s + leaseOf cfg),
        rr_DispatchedAt := stamp n, rr_FailCount := fc\<rparr> else r) = rr_key r" for r :: "'a retry_row"
      by (simp add: rr_key_def)
    have ks: "keyed (rd_queue d) = keyed ?T" "keysOf (rd_queue d) = keysOf ?T"
      unfolding d by (rule keyed_map [OF key], rule keysOf_map [OF key])
    have row: "row_ok M r' \<and> rq_att s (rr_key r') \<le> spent r' + rq_free s (rr_key r')"
      if r'_in: "r' \<in> set (rd_queue d)" for r'
    proof -
      obtain r where r: "r \<in> set ?T" and r': "r' = (if rr_key r = k
          then r\<lparr>rr_NextRetryAt := stamp (rq_now s + leaseOf cfg), rr_DispatchedAt := stamp n, rr_FailCount := fc\<rparr>
          else r)" using r'_in by (auto simp: d)
      show ?thesis
      proof (cases "rr_key r = k")
        case True
        then have "rr_key r' = k" using key [of r] r' by simp
        moreover have "row_ok M r'" "spent r' = fc"
          using True r' P by (simp_all add: row_ok_def spent_def leased_def stamp_def)
        ultimately show ?thesis using P by simp
      next
        case False
        then show ?thesis using inv r r' pk by (auto simp: rq_inv_def)
      qed
    qed
    show ?thesis using inv p pk None ks row unfolding rq_inv_def by (auto simp: pendKey_def)
  qed
qed

lemma rq_inv_step:
  assumes "rq_step enc fo cfg s s'" and "rq_inv M s"
    and M: "rc_MaxRetries cfg = M" "0 \<le> M" "M < 2 ^ 31 - 1"
  shows "rq_inv M s'"
  using assms(1,2)
proof (induction rule: rq_step.induct)
  case (enqueue items cause s e d)
  then show ?case using evolves_EnqueueBatch M(2) by (intro rq_inv_withDb) (auto simp: rq_inv_def)
next
  case (remove s hs)
  then show ?case using M(2) by (intro rq_inv_withDb shrinks_evolves shrinks_Remove)
next
  case (clear s e d)
  then show ?case using M(2) shrinks_Clear by (intro rq_inv_withDb shrinks_evolves)
next
  case (retry h s e d)
  have t: "keyed (rd_queue d) = keyed (rd_queue (rq_db s))" "keysOf (rd_queue d) = keysOf (rd_queue (rq_db s))"
    using touch_rows [OF retry(1)] by simp_all
  have row: "row_ok M r' \<and> rq_att s (rr_key r') \<le> spent r'
      + (if fst (rr_key r') = h then rq_free s (rr_key r') + 1 else rq_free s (rr_key r'))
      + (if pendKey s (rr_key r') then 1 else 0)" if r': "r' \<in> set (rd_queue d)" for r'
  proof -
    obtain r where r: "r \<in> set (rd_queue (rq_db s))" "rr_key r' = rr_key r" "rr_FailCount r' = rr_FailCount r"
        "leased r' = leased r \<or> fst (rr_key r) = h \<and> \<not> leased r'"
      using touch_rows [OF retry(1)] r' by blast
    have old: "row_ok M r" "rq_att s (rr_key r) \<le> spent r + rq_free s (rr_key r)
        + (if pendKey s (rr_key r) then 1 else 0)" using retry(2) r(1) by (simp_all add: rq_inv_def)
    show ?thesis using old r(2-4) by (auto simp: row_ok_def spent_def split: if_splits)
  qed
  have "\<forall>k. rq_free s k \<le> (if fst k = h then rq_free s k + 1 else rq_free s k)" by simp
  then show ?case using retry(2) t row unfolding rq_inv_def pendKey_def
    by (auto intro: order_trans)
next
  case (env d s)
  then show ?case by (simp add: rq_inv_def pendKey_def)
next
  case (list s rows d)
  have "rd_queue d = rd_queue (rq_db s)" "keyed rows" "set rows \<subseteq> set (rd_queue (rq_db s))"
    using listDue_rows [OF list(3)] list(4) by (auto simp: rq_inv_def)
  then show ?case using list(2,4) by (auto simp: rq_inv_def pendKey_def)
next
  case (evict s r rs)
  have "rq_inv M (withDb (RetryQueue.evict (rr_InfoHash r) (rq_db s)) s)"
    using evict(4) M(2) by (intro rq_inv_withDb shrinks_evolves shrinks_evict)
  then show ?case using evict(1) by (intro rq_inv_scan_tail) (auto simp: withDb_def)
next
  case (publish s r rs fc)
  then show ?case using M by (intro rq_inv_publish)
next
  case (mark s k fc e d)
  then show ?case by (intro rq_inv_mark)
qed

lemma rq_reachable_inv:
  assumes "rq_reachable enc fo cfg s" and M: "rc_MaxRetries cfg = M" "0 \<le> M" "M < 2 ^ 31 - 1"
  shows "rq_inv M s"
  using assms(1)
proof (induction rule: rq_reachable.induct)
  case (init s)
  then show ?case using M by (simp add: rq_inv_def keyed_def keysOf_def)
next
  case (step s s')
  then show ?case using rq_inv_step M by blast
qed

text \<open>The scan as the scheduler runs it, without interference, is a sequence of these steps.\<close>

lemma dispatchRow_steps:
  assumes "rq_scan s = r # rs" and "rq_pend s = None"
  shows "\<exists>s'. (rq_step enc fo cfg)\<^sup>*\<^sup>* s s' \<and> rq_db s' = dispatchRow cfg (rq_now s) r (rq_db s) \<and>
    rq_scan s' = rs \<and> rq_pend s' = None \<and> rq_now s' = rq_now s"
proof (cases "verdict cfg r")
  case None
  show ?thesis
    by (rule exI, rule conjI, rule r_into_rtranclp, rule rq_step.evict [where fo = fo, OF assms None])
      (use assms None in \<open>simp add: withDb_def dispatchRow_def\<close>)
next
  case (Some fc)
  let ?p = "Produce (retryMsg r) (rq_db s)"
  obtain e d where m: "markRow cfg (rq_now s) (rr_key r) fc ?p = (e, d)"
    by (cases "markRow cfg (rq_now s) (rr_key r) fc ?p")
  note st = rq_step.publish [where enc = enc and fo = fo, OF assms Some]
  show ?thesis
    by (rule exI, rule conjI, rule converse_rtranclp_into_rtranclp, rule st, rule r_into_rtranclp,
        rule rq_step.mark [where fo = fo], simp, simp, rule m)
      (use m Some in \<open>simp add: dispatchRow_def\<close>)
qed

lemma dispatchRows_steps:
  "rq_scan s = rs \<Longrightarrow> rq_pend s = None \<Longrightarrow> \<exists>s'. (rq_step enc fo cfg)\<^sup>*\<^sup>* s s' \<and>
     rq_db s' = fold (dispatchRow cfg (rq_now s)) rs (rq_db s) \<and> rq_scan s' = [] \<and> rq_pend s' = None"
proof (induction rs arbitrary: s)
  case Nil
  then show ?case by auto
next
  case (Cons r rs)
  obtain s1 where s1: "(rq_step enc fo cfg)\<^sup>*\<^sup>* s s1" "rq_db s1 = dispatchRow cfg (rq_now s) r (rq_db s)"
      "rq_scan s1 = rs" "rq_pend s1 = None" "rq_now s1 = rq_now s"
    using dispatchRow_steps [OF Cons.prems] by blast
  obtain s2 where "(rq_step enc fo cfg)\<^sup>*\<^sup>* s1 s2"
      "rq_db s2 = fold (dispatchRow cfg (rq_now s1)) rs (rq_db s1)" "rq_scan s2 = []" "rq_pend s2 = None"
    using Cons.IH [OF s1(3,4)] by blast
  then show ?case using s1 by (intro exI [of _ s2]) (auto intro: rtranclp_trans)
qed

lemma dispatchDue_steps:
  assumes "rq_scan s = []" and "rq_pend s = None"
  shows "\<exists>s'. (rq_step enc fo cfg)\<^sup>*\<^sup>* s s' \<and> rq_db s' = dispatchDue cfg (rq_db s) \<and>
    rq_scan s' = [] \<and> rq_pend s' = None"
proof -
  obtain rows d where l: "listDue cfg (rq_db s) = (rows, d)" by (cases "listDue cfg (rq_db s)")
  let ?s = "s\<lparr>rq_db := d, rq_scan := rows, rq_now := rd_now d\<rparr>"
  have 1: "rq_step enc fo cfg s ?s" by (rule rq_step.list [OF assms l])
  obtain s' where s': "(rq_step enc fo cfg)\<^sup>*\<^sup>* ?s s'"
      "rq_db s' = fold (dispatchRow cfg (rd_now d)) rows d" "rq_scan s' = []" "rq_pend s' = None"
    using dispatchRows_steps [where s = ?s and rs = rows and enc = enc and fo = fo and cfg = cfg] assms
    by auto
  have "(rq_step enc fo cfg)\<^sup>*\<^sup>* s s'" using 1 s'(1) by (rule converse_rtranclp_into_rtranclp)
  then show ?thesis using s' by (intro exI [of _ s']) (simp add: dispatchDue_def l)
qed

lemma rq_reachable_steps:
  "(rq_step enc fo cfg)\<^sup>*\<^sup>* s s' \<Longrightarrow> rq_reachable enc fo cfg s \<Longrightarrow> rq_reachable enc fo cfg s'"
  by (induction rule: rtranclp_induct) (auto intro: rq_reachable.step)

text \<open>C6. The retry budget holds over every interleaving of failures, successes, scans, manual
  retries and database faults: from the moment an entry appears until it disappears it is
  published at most \<open>MaxRetries\<close> times, and once more for each manual retry and each mark the
  database refused; an entry whose retry is under way has not failed more often than allowed.\<close>

theorem retry_budget:
  assumes "rq_reachable enc fo cfg s" and "0 \<le> rc_MaxRetries cfg" and "rc_MaxRetries cfg < 2 ^ 31 - 1"
  shows "rq_att s k \<le> rc_MaxRetries cfg + rq_free s k \<and>
    (\<forall>r \<in> set (rd_queue (rq_db s)). leased r \<longrightarrow> rr_FailCount r \<le> rc_MaxRetries cfg)"
  using rq_reachable_inv [OF assms(1) refl assms(2,3)] by (auto simp: rq_inv_def row_ok_def)

text \<open>A queue with an integer factor, one failed torrent, and the scan after its delay.\<close>

definition intFloats :: "int float_ops" where
  "intFloats = \<lparr>fo_one = 1, fo_two = 2, fo_lt_one = (\<lambda>f. f < 1), fo_le_one = (\<lambda>f. f \<le> 1),
     fo_scale = (\<lambda>b f n. b * f ^ nat n)\<rparr>"

definition sampleDb :: "string retry_db" where
  "sampleDb = \<lparr>rd_queue = [], rd_torrents = {''aa'', ''bb''}, rd_out = [], rd_now = 1000, rd_faults = []\<rparr>"

definition sampleSys :: "string rq_sys" where
  "sampleSys = \<lparr>rq_db = sampleDb, rq_scan = [], rq_now = 0, rq_pend = None, rq_att = (\<lambda>_. 0), rq_free = (\<lambda>_. 0)\<rparr>"

definition sampleItem :: "string retry_item" where
  "sampleItem = \<lparr>ri_Stage = StageClassify, ri_InfoHash = ''aa'', ri_Payload = ''{}''\<rparr>"

definition failedDb :: "string retry_db" where
  "failedDb = snd (EnqueueBatch Inr intFloats (NewDefaultConfig intFloats) [sampleItem] (Some ''boom'') sampleDb)"

lemma failedDb_eq: "failedDb = sampleDb\<lparr>rd_queue := [(newRow 1000 (''aa'', StageClassify) ''{}'' ''boom'')
    \<lparr>rr_NextRetryAt := stamp (1000 + 5 * Minute)\<rparr>]\<rparr>"
proof -
  have d: "delaySecs (backoffDelay intFloats (NewDefaultConfig intFloats) 1) = 300"
    by (simp add: delaySecs_def int32_id backoffDelay_def Delay_def Let_def NewDefaultConfig_def
        intFloats_def Hour_def Minute_def Second_def)
  have i: "int32 3 = 3" by (simp add: int32_id)
  show ?thesis
    by (simp add: failedDb_def EnqueueBatch_def sampleItem_def sampleDb_def storeCall_def
        UpsertTorrentRetryBatch_def upsertRow_def countOf_def applyBackoff_def
        BackoffTorrentRetryBatch_def overBudget_def Let_def i d)
      (simp add: NewDefaultConfig_def i newRow_def Minute_def Second_def stamp_def)
qed

text \<open>After its delay the scheduler publishes it again.\<close>

definition dueDb :: "string retry_db" where
  "dueDb = failedDb\<lparr>rd_now := 1000 + 5 * Minute\<rparr>"

definition publishedSys :: "string rq_sys" where
  "publishedSys = sampleSys\<lparr>rq_db := Produce (RetryMsg TopicProcessTorrent ''aa'' ''{}'') dueDb,
     rq_now := 1000 + 5 * Minute, rq_pend := Some ((''aa'', StageClassify), 1),
     rq_att := (\<lambda>_. 0)((''aa'', StageClassify) := 1)\<rparr>"

lemma publishedSys_reachable: "rq_reachable Inr intFloats (NewDefaultConfig intFloats) publishedSys"
proof -
  let ?cfg = "NewDefaultConfig intFloats"
  let ?r = "(newRow 1000 (''aa'', StageClassify) ''{}'' ''boom'')\<lparr>rr_NextRetryAt := stamp (1000 + 5 * Minute)\<rparr>"
  let ?s1 = "sampleSys\<lparr>rq_db := failedDb\<rparr>" and ?s2 = "sampleSys\<lparr>rq_db := dueDb\<rparr>"
  let ?s3 = "?s2\<lparr>rq_scan := [?r], rq_now := 1000 + 5 * Minute\<rparr>"
  have q: "rd_queue dueDb = [?r]" "rd_out dueDb = []" "rd_now dueDb = 1000 + 5 * Minute" "rd_faults dueDb = []"
      "rd_queue failedDb = [?r]" "rd_out failedDb = []"
    by (simp_all add: dueDb_def failedDb_eq sampleDb_def)
  have "rq_reachable Inr intFloats ?cfg sampleSys"
    by (rule rq_reachable.init) (simp_all add: sampleSys_def sampleDb_def)
  moreover have "rq_step Inr intFloats ?cfg sampleSys (withDb failedDb sampleSys)"
  proof -
    have "EnqueueBatch Inr intFloats ?cfg [sampleItem] (Some ''boom'') (rq_db sampleSys)
        = (fst (EnqueueBatch Inr intFloats ?cfg [sampleItem] (Some ''boom'') sampleDb), failedDb)"
      by (simp add: failedDb_def sampleSys_def)
    then show ?thesis by (rule rq_step.enqueue)
  qed
  moreover have "withDb failedDb sampleSys = ?s1"
    by (simp add: withDb_def sampleSys_def forget_def sampleDb_def keysOf_def fun_eq_iff)
  moreover have "rq_step Inr intFloats ?cfg ?s1 (?s1\<lparr>rq_db := dueDb\<rparr>)"
    by (rule rq_step.env) (simp_all add: q)
  moreover have "?s1\<lparr>rq_db := dueDb\<rparr> = ?s2" by simp
  moreover have "rq_step Inr intFloats ?cfg ?s2 ?s3"
  proof -
    have "listDue ?cfg dueDb = ([?r], dueDb)"
      by (simp add: listDue_def storeCall_def q ListDueTorrentRetry_def ts_le_def stamp_def
          NewDefaultConfig_def int32_id)
    then have "listDue ?cfg (rq_db ?s2) = ([?r], dueDb)" by simp
    from rq_step.list [OF _ _ this, where enc = Inr and fo = intFloats]
    show ?thesis by (simp add: sampleSys_def q)
  qed
  moreover have "rq_step Inr intFloats ?cfg ?s3 publishedSys"
  proof -
    have v: "verdict ?cfg ?r = Some 1"
      by (simp add: verdict_def leased_def newRow_def noTimestamp_def overBudget_def NewDefaultConfig_def int32_id)
    have k: "rr_key ?r = (''aa'', StageClassify)" by (simp add: rr_key_def newRow_def)
    have m: "retryMsg ?r = RetryMsg TopicProcessTorrent ''aa'' ''{}''"
      by (simp add: retryMsg_def newRow_def StageClassify_def StageEnrich_def)
    have "(''aa'', StageClassify) \<in> keysOf (rd_queue dueDb)" by (simp add: q keysOf_def k)
    then show ?thesis
      using rq_step.publish [OF _ _ v, of ?s3 "[]", where enc = Inr and fo = intFloats]
      by (simp add: k m publishedSys_def sampleSys_def)
  qed
  ultimately show ?thesis by (metis rq_reachable.step)
qed

theorem retry_budget_witness:
  "rq_att publishedSys (''aa'', StageClassify) = 1 \<and> rq_att publishedSys (''aa'', StageClassify) \<le> 3"
  using retry_budget [OF publishedSys_reachable, of "(''aa'', StageClassify)"]
  by (simp add: NewDefaultConfig_def) (simp add: publishedSys_def sampleSys_def)

section \<open>What a failure report does\<close>

lemma countOf_row: "keyed T \<Longrightarrow> r \<in> set T \<Longrightarrow> countOf (rr_key r) T = rr_FailCount r"
proof (induction T)
  case (Cons q T)
  show ?case
  proof (cases "r = q")
    case False
    then have "rr_key q \<noteq> rr_key r" using Cons.prems by (auto simp: keyed_def rev_image_eqI)
    then show ?thesis using Cons False by (simp add: countOf_def keyed_def)
  qed (simp add: countOf_def)
qed simp

lemma countOf_absent: "k \<notin> keysOf T \<Longrightarrow> countOf k T = 0"
proof -
  assume "k \<notin> keysOf T"
  then have "filter (\<lambda>r. rr_key r = k) T = []" by (auto simp: keysOf_def filter_empty_conv)
  then show ?thesis by (simp add: countOf_def)
qed

lemma countOf_upsert:
  assumes "distinct (map fst xs)" and "keyed T"
  shows "countOf k (fold (upsertRow now) xs T) = countOf k T + (if k \<in> fst ` set xs then 1 else 0)"
proof -
  let ?U = "fold (upsertRow now) xs T"
  have U: "keyed ?U" "keysOf ?U = keysOf T \<union> fst ` set xs" using upsert_rows [OF assms] by auto
  show ?thesis
  proof (cases "k \<in> keysOf ?U")
    case False
    then show ?thesis using U by (simp add: countOf_absent)
  next
    case True
    then obtain r' where r': "r' \<in> set ?U" "rr_key r' = k" by (auto simp: keysOf_def)
    then have c: "countOf k ?U = rr_FailCount r'" using countOf_row [OF U(1)] by blast
    consider (same) "k \<notin> fst ` set xs" "r' \<in> set T"
      | (bump) r where "k \<in> fst ` set xs" "r \<in> set T" "sig r' = (rr_key r, rr_FailCount r + 1, False)"
      | (new) "k \<in> fst ` set xs" "k \<notin> keysOf T" "sig r' = (k, 1, False)"
      using bspec [OF conjunct2 [OF conjunct2 [OF upsert_rows [OF assms]]] r'(1)]
      unfolding r'(2) by blast
    then show ?thesis
    proof cases
      case same
      then show ?thesis using countOf_row [OF assms(2), of r'] r' c by simp
    next
      case bump
      then show ?thesis using countOf_row [OF assms(2), of r] r' c by (simp add: sig_def)
    next
      case new
      then show ?thesis using countOf_absent [of k T] c by (simp add: sig_def)
    qed
  qed
qed

lemma countOf_keep: "(\<And>r. rr_key (f r) = rr_key r \<and> rr_FailCount (f r) = rr_FailCount r) \<Longrightarrow>
    countOf k (map f T) = countOf k T"
  by (induction T) (auto simp: countOf_def)

lemma countOf_filter: "countOf k (filter (\<lambda>r. rr_InfoHash r \<notin> H) T) = (if fst k \<in> H then 0 else countOf k T)"
  by (induction T) (auto simp: countOf_def rr_key_def)

lemma storeCall_ok: "rd_faults s = [] \<Longrightarrow> storeCall c s = (None, s)"
  by (simp add: storeCall_def)

lemma evict_ok: "rd_faults s = [] \<Longrightarrow> evict h s = s\<lparr>rd_torrents := rd_torrents s - {h},
    rd_out := rd_out s @ [DeleteMsg h], rd_queue := filter (\<lambda>r. rr_InfoHash r \<noteq> h) (rd_queue s)\<rparr>"
  by (simp add: evict_def storeCall_def Produce_def DeleteTorrentRetry_def Let_def)

lemma applyBackoff_ok: "rd_faults s = [] \<Longrightarrow>
    applyBackoff ds s = s\<lparr>rd_queue := BackoffTorrentRetryBatch (rd_now s) ds (rd_queue s)\<rparr>"
  by (cases "ds = []") (simp_all add: applyBackoff_def storeCall_def, simp add: BackoffTorrentRetryBatch_def)

lemma enqueueRows_ok:
  "rd_faults s = [] \<Longrightarrow> H = map (fst \<circ> fst) (filter (\<lambda>x. overBudget cfg (snd x)) rows) \<Longrightarrow>
   enqueueRows fo cfg rows s =
     (map (\<lambda>x. (fst x, delaySecs (backoffDelay fo cfg (snd x)))) (filter (\<lambda>x. \<not> overBudget cfg (snd x)) rows),
      s\<lparr>rd_torrents := rd_torrents s - set H, rd_out := rd_out s @ map DeleteMsg H,
        rd_queue := filter (\<lambda>r. rr_InfoHash r \<notin> set H) (rd_queue s)\<rparr>)"
proof (induction fo cfg rows s arbitrary: H rule: enqueueRows.induct)
  case (2 fo cfg k failCount rows s)
  show ?case
  proof (cases "overBudget cfg failCount")
    case True
    define H' where "H' = map (fst \<circ> fst) (filter (\<lambda>x. overBudget cfg (snd x)) rows)"
    have f: "rd_faults (evict (fst k) s) = []" using 2(3) by (simp add: evict_ok)
    have H: "H = fst k # H'" using 2(4) True by (simp add: H'_def)
    have D: "rd_torrents s - {fst k} - set H' = rd_torrents s - insert (fst k) (set H')" by blast
    show ?thesis using "2.IH"(1) [OF True f H'_def] 2(3) True
      by (simp add: evict_ok H D)
  next
    case False
    then show ?thesis using "2.IH"(2) [OF False 2(3) refl] 2(4) by simp
  qed
qed simp

definition item_key :: "'p retry_item \<Rightarrow> retry_key" where
  "item_key it = (ri_InfoHash it, ri_Stage it)"

lemma marshalItems_ok:
  "\<forall>it \<in> set items. \<exists>j. enc (ri_Payload it) = Inr j \<Longrightarrow>
   \<exists>xs. marshalItems enc m items = Inr xs \<and> map fst xs = map item_key items"
  by (induction items) (auto simp: item_key_def)

lemma enqueued_row:
  assumes T: "keyed T" and xs: "distinct (map fst xs)" and U: "U = fold (upsertRow now) xs T"
    and w: "w \<in> set (BackoffTorrentRetryBatch now ds (filter P U))" and k: "rr_key w \<in> fst ` set xs"
    and m: "map_of ds (rr_key w) = Some (f (countOf (rr_key w) U))"
  shows "\<not> leased w \<and> rr_NextRetryAt w = stamp (now + f (rr_FailCount w) * Second)"
proof -
  obtain u where u: "u \<in> set U" "w = (case map_of ds (rr_key u) of None \<Rightarrow> u
      | Some secs \<Rightarrow> u\<lparr>rr_NextRetryAt := stamp (now + secs * Second)\<rparr>)"
    using w by (auto simp: BackoffTorrentRetryBatch_def)
  have key: "rr_key w = rr_key u" by (simp add: u(2) rr_key_def split: option.splits)
  have c: "countOf (rr_key u) U = rr_FailCount u"
    using upsert_rows [OF xs T, of now] u(1) by (intro countOf_row) (simp_all add: U)
  have "\<not> leased u"
    using bspec [OF conjunct2 [OF conjunct2 [OF upsert_rows [OF xs T]]] u(1) [unfolded U]] k
    unfolding key by (auto simp: sig_def)
  then show ?thesis using u(2) m unfolding key c by (simp add: leased_def)
qed

text \<open>A failure report for distinct entries, when the database answers: every entry's count
  goes up by one; an entry within the budget waits for the delay of its count and is no longer
  leased; a torrent with an entry beyond the budget is deleted with all its entries and a delete
  event, and \<open>ErrExceeded\<close> says how many entries those were; every other entry keeps its count.\<close>

theorem EnqueueBatch_effect:
  fixes s :: "'j retry_db" and cfg :: "'f retry_config"
  assumes "rd_faults s = []" and "keyed (rd_queue s)" and "items \<noteq> []"
    and "distinct (map item_key items)" and "\<forall>it \<in> set items. \<exists>j. enc (ri_Payload it) = Inr j"
    and "\<forall>it \<in> set items. countOf (item_key it) (rd_queue s) + 1 < 2 ^ 31"
  defines "over \<equiv> filter (\<lambda>it. overBudget cfg (countOf (item_key it) (rd_queue s) + 1)) items"
  shows "\<exists>s'. EnqueueBatch enc fo cfg items cause s
      = (if over = [] then None else Some (ErrExceeded (length over)), s') \<and>
    rd_torrents s' = rd_torrents s - ri_InfoHash ` set over \<and>
    rd_out s' = rd_out s @ map (\<lambda>it. DeleteMsg (ri_InfoHash it)) over \<and>
    (\<forall>k. countOf k (rd_queue s') = (if fst k \<in> ri_InfoHash ` set over then 0
       else countOf k (rd_queue s) + (if k \<in> item_key ` set items then 1 else 0))) \<and>
    (\<forall>r \<in> set (rd_queue s'). rr_key r \<in> item_key ` set items \<longrightarrow> \<not> leased r \<and>
       rr_NextRetryAt r = stamp (rd_now s + delaySecs (backoffDelay fo cfg (rr_FailCount r)) * Second))"
proof -
  let ?T = "rd_queue s" and ?m = "case cause of None \<Rightarrow> [] | Some m \<Rightarrow> m"
  obtain xs where xs: "marshalItems enc ?m items = Inr xs" "map fst xs = map item_key items"
    using marshalItems_ok [OF assms(5)] by blast
  have dx: "distinct (map fst xs)" and kx: "fst ` set xs = item_key ` set items"
    using assms(4) xs(2) by (simp, metis list.set_map)
  define U where "U = fold (upsertRow (rd_now s)) xs ?T"
  define rows where "rows = map (\<lambda>it. (item_key it, countOf (item_key it) ?T + 1)) items"
  have cU: "countOf k U = countOf k ?T + (if k \<in> item_key ` set items then 1 else 0)" for k
    using countOf_upsert [OF dx assms(2)] by (simp add: U_def kx)
  have "map (\<lambda>k. (k, countOf k U)) (map fst xs) = map (\<lambda>k. (k, countOf k U)) (map item_key items)"
    by (simp only: xs(2))
  then have "map (\<lambda>x. (fst x, countOf (fst x) U)) xs = rows"
    by (simp add: rows_def cU comp_def cong: map_cong)
  moreover have "\<forall>x \<in> set xs. countOf (fst x) ?T + 1 < 2 ^ 31"
  proof
    fix x assume "x \<in> set xs"
    then have "fst x \<in> item_key ` set items" by (simp flip: kx)
    then show "countOf (fst x) ?T + 1 < 2 ^ 31" using assms(6) by auto
  qed
  ultimately have up: "UpsertTorrentRetryBatch (rd_now s) xs ?T = Inr (rows, U)"
    using dx unfolding UpsertTorrentRetryBatch_def by (simp add: Let_def linorder_not_le flip: U_def)
  let ?H = "map (fst \<circ> fst) (filter (\<lambda>x. overBudget cfg (snd x)) rows)"
  have H: "?H = map ri_InfoHash over"
    by (simp add: rows_def over_def filter_map comp_def item_key_def)
  let ?ds = "map (\<lambda>x. (fst x, delaySecs (backoffDelay fo cfg (snd x)))) (filter (\<lambda>x. \<not> overBudget cfg (snd x)) rows)"
  let ?V = "filter (\<lambda>r. rr_InfoHash r \<notin> ri_InfoHash ` set over) U"
  let ?W = "BackoffTorrentRetryBatch (rd_now s) ?ds ?V"
  let ?s' = "s\<lparr>rd_torrents := rd_torrents s - ri_InfoHash ` set over,
    rd_out := rd_out s @ map (\<lambda>it. DeleteMsg (ri_InfoHash it)) over, rd_queue := ?W\<rparr>"
  have en: "enqueueRows fo cfg rows (s\<lparr>rd_queue := U\<rparr>) = (?ds, s\<lparr>rd_torrents := rd_torrents s - ri_InfoHash ` set over,
    rd_out := rd_out s @ map (\<lambda>it. DeleteMsg (ri_InfoHash it)) over, rd_queue := ?V\<rparr>)"
    using enqueueRows_ok [of "s\<lparr>rd_queue := U\<rparr>", OF _ H [symmetric], of fo] assms(1)
    by (simp add: comp_def)
  have ap: "applyBackoff ?ds (s\<lparr>rd_torrents := rd_torrents s - ri_InfoHash ` set over,
    rd_out := rd_out s @ map (\<lambda>it. DeleteMsg (ri_InfoHash it)) over, rd_queue := ?V\<rparr>) = ?s'"
    using assms(1) by (simp add: applyBackoff_ok)
  have len: "length rows - length ?ds = length over" "length ?ds < length rows \<longleftrightarrow> over \<noteq> []"
  proof -
    have "length (filter (\<lambda>x. overBudget cfg (snd x)) rows) = length over"
      by (metis H length_map)
    then have "length ?ds + length over = length rows"
      using sum_length_filter_compl [of "\<lambda>x. overBudget cfg (snd x)" rows] by simp
    moreover have "over \<noteq> [] \<longleftrightarrow> 0 < length over" by simp
    ultimately show "length rows - length ?ds = length over" "length ?ds < length rows \<longleftrightarrow> over \<noteq> []"
      by linarith+
  qed
  have eq: "EnqueueBatch enc fo cfg items cause s
      = (if over = [] then None else Some (ErrExceeded (length over)), ?s')"
    using assms(1,3) xs(1) up en ap len by (simp add: EnqueueBatch_def storeCall_ok)
  have c: "countOf k ?W = (if fst k \<in> ri_InfoHash ` set over then 0
       else countOf k ?T + (if k \<in> item_key ` set items then 1 else 0))" for k
    unfolding BackoffTorrentRetryBatch_def
    by (subst countOf_keep) (simp_all add: countOf_filter cU rr_key_def split: option.splits)
  have r: "\<not> leased w \<and> rr_NextRetryAt w = stamp (rd_now s + delaySecs (backoffDelay fo cfg (rr_FailCount w)) * Second)"
    if w: "w \<in> set ?W" "rr_key w \<in> item_key ` set items" for w
  proof -
    obtain it where it: "it \<in> set items" "rr_key w = item_key it" using w(2) by auto
    have "rr_InfoHash w \<notin> ri_InfoHash ` set over"
      using w(1) by (auto simp: BackoffTorrentRetryBatch_def split: option.splits)
    then have "it \<notin> set over" using it(2) by (auto simp: item_key_def rr_key_def)
    then have nb: "\<not> overBudget cfg (countOf (item_key it) ?T + 1)" using it(1) by (simp add: over_def)
    have c1: "countOf (item_key it) U = countOf (item_key it) ?T + 1" using it by (simp add: cU)
    have "distinct (map fst rows)" using assms(4) by (simp add: rows_def comp_def)
    then have "distinct (map fst ?ds)" by (simp add: comp_def distinct_map_filter)
    moreover have "(item_key it, countOf (item_key it) ?T + 1) \<in> set rows" using it(1) by (auto simp: rows_def)
    then have "(rr_key w, delaySecs (backoffDelay fo cfg (countOf (rr_key w) U))) \<in> set ?ds"
      using nb unfolding it(2) c1 by force
    ultimately have "map_of ?ds (rr_key w) = Some (delaySecs (backoffDelay fo cfg (countOf (rr_key w) U)))"
      by (simp add: map_of_is_SomeI)
    then show ?thesis using enqueued_row [OF assms(2) dx U_def w(1)] w(2) kx by simp
  qed
  show ?thesis using eq c r by (intro exI [of _ ?s']) simp
qed

text \<open>A second failure of \<open>aa\<close> and a first one of \<open>bb\<close> with a budget of one retry.\<close>

definition oneRetry :: "int retry_config" where
  "oneRetry = (NewDefaultConfig intFloats)\<lparr>rc_MaxRetries := 1\<rparr>"

theorem EnqueueBatch_effect_witness:
  "\<exists>s'. EnqueueBatch Inr intFloats oneRetry [sampleItem, sampleItem\<lparr>ri_InfoHash := ''bb''\<rparr>] (Some ''again'') dueDb
      = (Some (ErrExceeded 1), s') \<and> rd_torrents s' = {''bb''} \<and> rd_out s' = [DeleteMsg ''aa''] \<and>
    countOf (''aa'', StageClassify) (rd_queue s') = 0 \<and> countOf (''bb'', StageClassify) (rd_queue s') = 1"
proof -
  let ?items = "[sampleItem, sampleItem\<lparr>ri_InfoHash := ''bb''\<rparr>]"
  have i: "int32 1 = 1" by (simp add: int32_id)
  have c: "countOf (''aa'', StageClassify) (rd_queue dueDb) = 1" "countOf (''bb'', StageClassify) (rd_queue dueDb) = 0"
    by (simp_all add: dueDb_def failedDb_eq countOf_def newRow_def rr_key_def)
  have k: "item_key sampleItem = (''aa'', StageClassify)"
      "item_key (sampleItem\<lparr>ri_InfoHash := ''bb''\<rparr>) = (''bb'', StageClassify)"
    by (simp_all add: item_key_def sampleItem_def)
  have over: "filter (\<lambda>it. overBudget oneRetry (countOf (item_key it) (rd_queue dueDb) + 1)) ?items = [sampleItem]"
    by (simp add: k c overBudget_def oneRetry_def i)
  have q: "rd_faults dueDb = []" "keyed (rd_queue dueDb)" "rd_torrents dueDb = {''aa'', ''bb''}" "rd_out dueDb = []"
    by (simp_all add: dueDb_def failedDb_eq sampleDb_def keyed_def)
  have h: "ri_InfoHash sampleItem = ''aa''" by (simp add: sampleItem_def)
  have pre: "?items \<noteq> []" "distinct (map item_key ?items)" "\<forall>it \<in> set ?items. \<exists>j. Inr (ri_Payload it) = Inr j"
      "\<forall>it \<in> set ?items. countOf (item_key it) (rd_queue dueDb) + 1 < 2 ^ 31"
    by (simp_all add: k c)
  have ov: "ri_InfoHash ` set [sampleItem] = {''aa''}" by (simp add: h)
  obtain s' where s': "EnqueueBatch Inr intFloats oneRetry ?items (Some ''again'') dueDb
        = (if [sampleItem] = [] then None else Some (ErrExceeded (length [sampleItem])), s')"
      "rd_torrents s' = rd_torrents dueDb - ri_InfoHash ` set [sampleItem]"
      "rd_out s' = rd_out dueDb @ map (\<lambda>it. DeleteMsg (ri_InfoHash it)) [sampleItem]"
      "\<forall>k. countOf k (rd_queue s') = (if fst k \<in> ri_InfoHash ` set [sampleItem] then 0
        else countOf k (rd_queue dueDb) + (if k \<in> item_key ` set ?items then 1 else 0))"
    using EnqueueBatch_effect [OF q(1,2) pre, where cfg = oneRetry and fo = intFloats
        and cause = "Some ''again''", unfolded over] by (elim exE conjE)
  show ?thesis by (intro exI [of _ s']) (simp add: s' q h c k)
qed

section \<open>The scan\<close>

definition isRetry :: "'j queue_msg \<Rightarrow> bool" where
  "isRetry m = (case m of RetryMsg _ _ _ \<Rightarrow> True | DeleteMsg _ \<Rightarrow> False)"

lemma isRetry_simps [simp]: "isRetry (retryMsg r)" "\<not> isRetry (DeleteMsg h)"
  by (simp_all add: isRetry_def retryMsg_def)

definition markedRow :: "'f retry_config \<Rightarrow> int \<Rightarrow> retry_key \<Rightarrow> int \<Rightarrow> 'j retry_row \<Rightarrow> 'j retry_row" where
  "markedRow cfg now k fc r = (if rr_key r = k then r\<lparr>rr_NextRetryAt := stamp (now + leaseOf cfg),
     rr_DispatchedAt := stamp now, rr_FailCount := fc\<rparr> else r)"

lemma markedRow_key [simp]: "rr_key (markedRow cfg now k fc r) = rr_key r"
  by (simp add: markedRow_def rr_key_def)

lemma dispatchRow_ok:
  assumes "rd_faults s = []" and "now = rd_now s"
  shows "dispatchRow cfg now r s = (case verdict cfg r of
     None \<Rightarrow> s\<lparr>rd_torrents := rd_torrents s - {rr_InfoHash r}, rd_out := rd_out s @ [DeleteMsg (rr_InfoHash r)],
       rd_queue := filter (\<lambda>q. rr_InfoHash q \<noteq> rr_InfoHash r) (rd_queue s)\<rparr>
   | Some fc \<Rightarrow> s\<lparr>rd_out := rd_out s @ [retryMsg r],
       rd_queue := map (markedRow cfg now (rr_key r) fc) (rd_queue s)\<rparr>)"
  using assms by (auto simp: dispatchRow_def evict_ok markRow_def storeCall_def Produce_def
      MarkTorrentRetryDispatched_def markedRow_def cong: map_cong split: option.splits)

text \<open>
  Through a scan: the clock stands still, the published messages are those of the rows within the
  budget, and every row that was published is leased until the end of its lease.
\<close>

lemma scan_rows:
  "rd_faults s = [] \<Longrightarrow> now = rd_now s \<Longrightarrow> keyed rows \<Longrightarrow>
   rd_faults (fold (dispatchRow cfg now) rows s) = [] \<and> rd_now (fold (dispatchRow cfg now) rows s) = now \<and>
   filter isRetry (rd_out (fold (dispatchRow cfg now) rows s)) = filter isRetry (rd_out s) @
     map retryMsg (filter (\<lambda>r. verdict cfg r \<noteq> None) rows) \<and>
   (\<forall>r \<in> set rows. verdict cfg r \<noteq> None \<longrightarrow> (\<forall>q \<in> set (rd_queue (fold (dispatchRow cfg now) rows s)).
      rr_key q = rr_key r \<longrightarrow> rr_NextRetryAt q = stamp (now + leaseOf cfg)))"
proof (induction rows rule: rev_induct)
  case (snoc r rows)
  let ?s = "fold (dispatchRow cfg now) rows s"
  have k: "keyed rows" "rr_key r \<notin> rr_key ` set rows" using snoc.prems(3) by (auto simp: keyed_def)
  note IH = snoc.IH [OF snoc.prems(1,2) k(1)]
  have d: "rd_faults ?s = []" "now = rd_now ?s" using IH by auto
  have old: "rr_NextRetryAt q = stamp (now + leaseOf cfg)"
    if "p \<in> set rows" "verdict cfg p \<noteq> None" "q \<in> set (rd_queue ?s)" "rr_key q = rr_key p" for p q
    using IH that by blast
  show ?case
  proof (cases "verdict cfg r")
    case None
    then show ?thesis using IH d old by (auto simp: dispatchRow_ok)
  next
    case (Some fc)
    have "rr_NextRetryAt (markedRow cfg now (rr_key r) fc q) = stamp (now + leaseOf cfg)"
      if "p \<in> set rows \<and> verdict cfg p \<noteq> None \<or> p = r" "q \<in> set (rd_queue ?s)" "rr_key q = rr_key p" for p q
      using that old [of p q] by (auto simp: markedRow_def)
    then show ?thesis using IH d Some by (auto simp: dispatchRow_ok)
  qed
qed simp



text \<open>The delay before a retry is positive and at most the configured maximum, whatever the
  floating-point product is, and in whole seconds it keeps that bound; a delay below a second
  becomes 0, so the entry is due at once.\<close>

theorem backoffDelay_bounds:
  fixes cfg :: "'f retry_config"
  defines "maxInterval \<equiv> (if rc_MaxInterval cfg \<le> 0 then Hour else rc_MaxInterval cfg)"
  assumes "maxInterval < 2 ^ 31 * Second"
  shows "0 < backoffDelay fo cfg n \<and> backoffDelay fo cfg n \<le> maxInterval \<and>
    0 \<le> delaySecs (backoffDelay fo cfg n) \<and> delaySecs (backoffDelay fo cfg n) * Second \<le> maxInterval \<and>
    (backoffDelay fo cfg n < Second \<longrightarrow> delaySecs (backoffDelay fo cfg n) = 0)"
proof -
  have pos: "0 < maxInterval" by (simp add: maxInterval_def Hour_def Minute_def Second_def)
  have d: "0 < backoffDelay fo cfg n" "backoffDelay fo cfg n \<le> maxInterval"
    using pos by (auto simp: backoffDelay_def Delay_def Let_def maxInterval_def)
  let ?q = "backoffDelay fo cfg n div Second"
  have S: "0 < Second" by (simp add: Second_def)
  have q0: "0 \<le> ?q" using d(1) S by (simp add: pos_imp_zdiv_nonneg_iff)
  have "?q * Second \<le> backoffDelay fo cfg n" 
    using S div_mult_mod_eq [of "backoffDelay fo cfg n" Second]
      pos_mod_sign [of Second "backoffDelay fo cfg n"] by linarith
  then have qm: "?q * Second \<le> maxInterval" using d(2) by simp
  then have "?q * Second < 2 ^ 31 * Second" using assms(2) by simp
  then have "?q < 2 ^ 31" using S by (rule mult_right_less_imp_less [OF _ less_imp_le])
  then have e: "delaySecs (backoffDelay fo cfg n) = ?q" using q0 by (simp add: delaySecs_def int32_id)
  show ?thesis using d q0 qm S by (auto simp: e div_pos_pos_trivial)
qed

theorem backoffDelay_bounds_witness: "backoffDelay intFloats (NewDefaultConfig intFloats) 40 \<le> Hour"
  using backoffDelay_bounds [of "NewDefaultConfig intFloats" intFloats 40]
  by (simp add: NewDefaultConfig_def Hour_def Minute_def Second_def)

end
