(* ===== verification/MemoryQueue.thy ===== *)
theory MemoryQueue
  imports RetryQueue "HOL-Library.Char_ord" "HOL-Library.List_Lexorder"
begin

text \<open>
  The in-memory message queue: \<open>src/internal/queue/memoryqueue\<close> (\<open>queue.go\<close>, \<open>consumer.go\<close>,
  \<open>admin.go\<close>) with the delivery policy of \<open>src/internal/queue/delivery\<close>.

  \<^item> A topic keeps its messages in a ring of \<open>ts_Capacity\<close> slots, from \<open>ts_Head\<close> up to, but
    without, \<open>ts_Tail\<close>; a consumer also has a channel, a list here, with \<open>cs_Cap\<close> places.
  \<^item> Sequence numbers are \<open>nat\<close> (the code counts in 64 bits); the capacities are fields, so the
    lemmas hold for the code's 10000 and the examples can be small.
  \<^item> The offsets are an \<open>option\<close>: a Go map that is \<open>nil\<close> can be read but panics when it is
    written.  The mutex makes each operation atomic.
  \<^item> JSON, gzip and the database are parameters of persisting and recovering.
\<close>

section \<open>State\<close>

record message =
  m_Seq :: nat
  m_Key :: string
  m_Value :: bytes

record consumer_state =
  cs_GroupID :: string
  cs_Offset :: nat
  cs_Ch :: "message list"
  cs_Cap :: nat

record topic_state =
  ts_Messages :: "message option list"
  ts_NextSeq :: nat
  ts_Capacity :: nat
  ts_Head :: nat
  ts_Tail :: nat
  ts_Consumers :: "consumer_state list"

type_synonym offset_map = "string \<rightharpoonup> string \<rightharpoonup> nat"

record memory_queue =
  mq_topics :: "string \<rightharpoonup> topic_state"
  mq_offsets :: "offset_map option"
  mq_stopped :: bool
  mq_dirty :: bool
  mq_pool :: bool

definition defaultCapacity :: nat where
  "defaultCapacity = 10000"

definition NewMemoryQueue :: memory_queue where
  "NewMemoryQueue = \<lparr>mq_topics = Map.empty, mq_offsets = Some Map.empty, mq_stopped = False,
     mq_dirty = False, mq_pool = False\<rparr>"

definition SetPool :: "memory_queue \<Rightarrow> memory_queue" where
  "SetPool mq = mq\<lparr>mq_pool := True\<rparr>"

section \<open>Producing\<close>

definition emptyTopic :: "nat \<Rightarrow> topic_state" where
  "emptyTopic cap = \<lparr>ts_Messages = replicate cap None, ts_NextSeq = 0, ts_Capacity = cap,
     ts_Head = 0, ts_Tail = 0, ts_Consumers = []\<rparr>"

definition getOrCreateTopic :: "string \<Rightarrow> memory_queue \<Rightarrow> topic_state \<times> memory_queue" where
  "getOrCreateTopic topic mq = (case mq_topics mq topic of
     Some ts \<Rightarrow> (ts, mq)
   | None \<Rightarrow> (emptyTopic defaultCapacity,
       mq\<lparr>mq_topics := (mq_topics mq)(topic \<mapsto> emptyTopic defaultCapacity)\<rparr>))"

text \<open>The non-blocking send: a full channel drops the message.\<close>

definition offer :: "message \<Rightarrow> consumer_state \<Rightarrow> consumer_state" where
  "offer m cs = (if length (cs_Ch cs) < cs_Cap cs then cs\<lparr>cs_Ch := cs_Ch cs @ [m]\<rparr> else cs)"

definition pushMessage :: "message \<Rightarrow> topic_state \<Rightarrow> topic_state" where
  "pushMessage m ts =
     (let tail' = (ts_Tail ts + 1) mod ts_Capacity ts in
      ts\<lparr>ts_NextSeq := ts_NextSeq ts + 1, ts_Messages := (ts_Messages ts)[ts_Tail ts := Some m],
         ts_Tail := tail',
         ts_Head := (if tail' = ts_Head ts then (ts_Head ts + 1) mod ts_Capacity ts else ts_Head ts)\<rparr>)"

definition produceTo :: "string \<Rightarrow> bytes \<Rightarrow> topic_state \<Rightarrow> topic_state" where
  "produceTo key data ts =
     (let m = \<lparr>m_Seq = ts_NextSeq ts, m_Key = key, m_Value = data\<rparr>; ts' = pushMessage m ts in
      ts'\<lparr>ts_Consumers := map (offer m) (ts_Consumers ts')\<rparr>)"

definition ProduceValue :: "('v \<Rightarrow> bytes option) \<Rightarrow> string \<Rightarrow> string \<Rightarrow> 'v \<Rightarrow> memory_queue \<Rightarrow> memory_queue" where
  "ProduceValue marshal topic key v mq = (case marshal v of None \<Rightarrow> mq | Some data \<Rightarrow>
     if mq_stopped mq then mq
     else let (ts, mq1) = getOrCreateTopic topic mq in
       mq1\<lparr>mq_topics := (mq_topics mq1)(topic \<mapsto> produceTo key data ts), mq_dirty := True\<rparr>)"

section \<open>Persisting and recovering\<close>

definition ringIndex :: "topic_state \<Rightarrow> nat \<Rightarrow> nat" where
  "ringIndex ts i = (ts_Head ts + i) mod ts_Capacity ts"

definition ringCount :: "topic_state \<Rightarrow> nat" where
  "ringCount ts = nat ((int (ts_Tail ts) - int (ts_Head ts) + int (ts_Capacity ts)) mod int (ts_Capacity ts))"

definition ringMessages :: "topic_state \<Rightarrow> message list" where
  "ringMessages ts = List.map_filter (\<lambda>i. ts_Messages ts ! ringIndex ts i) [0 ..< ringCount ts]"

definition serializeTopicMessages :: "topic_state \<Rightarrow> message list" where
  "serializeTopicMessages ts = (if ts_Head ts = ts_Tail ts then [] else ringMessages ts)"

record topic_snapshot =
  sn_Messages :: "message option list"
  sn_NextSeq :: nat
  sn_Tail :: nat

record persist_state =
  ps_Updated :: int
  ps_Topics :: "string \<rightharpoonup> topic_snapshot"
  ps_Offsets :: "offset_map option"

definition buildPersistState :: "int \<Rightarrow> memory_queue \<Rightarrow> persist_state" where
  "buildPersistState now mq = \<lparr>ps_Updated = now,
     ps_Topics = (\<lambda>name. map_option (\<lambda>ts. \<lparr>sn_Messages = map Some (serializeTopicMessages ts),
        sn_NextSeq = ts_NextSeq ts, sn_Tail = ts_Tail ts\<rparr>) (mq_topics mq name)),
     ps_Offsets = mq_offsets mq\<rparr>"

text \<open>
  \<open>pack\<close> is JSON and gzip, \<open>upsert\<close> the write of the \<open>key_value\<close> row (\<open>None\<close> when it fails).
\<close>

definition persist :: "(persist_state \<Rightarrow> bytes option) \<Rightarrow> (bytes \<Rightarrow> 'd \<Rightarrow> 'd option) \<Rightarrow> int \<Rightarrow>
    memory_queue \<times> 'd \<Rightarrow> memory_queue \<times> 'd" where
  "persist pack upsert now = (\<lambda>(mq, d).
     if \<not> mq_dirty mq then (mq, d)
     else let mq1 = mq\<lparr>mq_dirty := False\<rparr> in
       if \<not> mq_pool mq then (mq1\<lparr>mq_dirty := True\<rparr>, d)
       else (case pack (buildPersistState now mq1) of
          None \<Rightarrow> (mq1\<lparr>mq_dirty := True\<rparr>, d)
        | Some data \<Rightarrow> (case upsert data d of
            None \<Rightarrow> (mq1\<lparr>mq_dirty := True\<rparr>, d)
          | Some d' \<Rightarrow> (mq1, d'))))"

text \<open>The slots are filled from the first; \<open>None\<close> is the index panic beyond the capacity.\<close>

fun fillSlots :: "nat \<Rightarrow> message option list \<Rightarrow> nat \<Rightarrow> message option list \<Rightarrow> (message option list \<times> nat) option" where
  "fillSlots cap [] tail slots = Some (slots, tail)"
| "fillSlots cap (None # ms) tail slots = fillSlots cap ms tail slots"
| "fillSlots cap (Some m # ms) tail slots =
     (if tail < cap then fillSlots cap ms (tail + 1) (slots[tail := Some m]) else None)"

definition recoverTopic :: "nat \<Rightarrow> topic_snapshot \<Rightarrow> topic_state option" where
  "recoverTopic cap snap = map_option (\<lambda>(slots, tail).
     \<lparr>ts_Messages = slots, ts_NextSeq = sn_NextSeq snap, ts_Capacity = cap, ts_Head = 0,
      ts_Tail = tail mod cap, ts_Consumers = []\<rparr>)
     (fillSlots cap (sn_Messages snap) 0 (replicate cap None))"

definition recoverState :: "persist_state \<Rightarrow> memory_queue \<Rightarrow> memory_queue option" where
  "recoverState ps mq =
     (if \<exists>name \<in> dom (ps_Topics ps). recoverTopic defaultCapacity (the (ps_Topics ps name)) = None then None
      else Some (mq\<lparr>mq_topics := (\<lambda>name. case ps_Topics ps name of
             None \<Rightarrow> mq_topics mq name
           | Some snap \<Rightarrow> recoverTopic defaultCapacity snap),
         mq_offsets := ps_Offsets ps\<rparr>))"

text \<open>
  \<open>lookup\<close> reads the row (\<open>None\<close> when there is none or the query fails), \<open>unpack\<close> undoes
  \<open>pack\<close>; every failure leaves the queue as it is.
\<close>

definition Recover :: "(bytes \<Rightarrow> persist_state option) \<Rightarrow> ('d \<Rightarrow> bytes option) \<Rightarrow> 'd \<Rightarrow> memory_queue \<Rightarrow> memory_queue option" where
  "Recover unpack lookup d mq =
     (if \<not> mq_pool mq then Some mq
      else case lookup d of None \<Rightarrow> Some mq
        | Some value \<Rightarrow> if value = [] then Some mq
            else (case unpack value of None \<Rightarrow> Some mq | Some ps \<Rightarrow> recoverState ps mq))"

definition Close :: "(persist_state \<Rightarrow> bytes option) \<Rightarrow> (bytes \<Rightarrow> 'd \<Rightarrow> 'd option) \<Rightarrow> int \<Rightarrow>
    memory_queue \<times> 'd \<Rightarrow> memory_queue \<times> 'd" where
  "Close pack upsert now = (\<lambda>(mq, d). persist pack upsert now (mq\<lparr>mq_stopped := True\<rparr>, d))"

definition Reset :: "memory_queue \<Rightarrow> memory_queue" where
  "Reset mq = mq\<lparr>mq_stopped := False\<rparr>"

section \<open>Consuming\<close>

definition DefaultMaxAttempts :: int where "DefaultMaxAttempts = 5"

record 'f delivery_config =
  dc_MaxAttempts :: int
  dc_Backoff :: "'f backoff_config"

definition DefaultDelivery :: "'f float_ops \<Rightarrow> 'f delivery_config" where
  "DefaultDelivery fo = \<lparr>dc_MaxAttempts = DefaultMaxAttempts,
     dc_Backoff = \<lparr>bo_Base = Second, bo_Factor = fo_two fo, bo_Max = 30 * Second\<rparr>\<rparr>"

definition NormalizeDelivery :: "'f float_ops \<Rightarrow> 'f delivery_config \<Rightarrow> 'f delivery_config" where
  "NormalizeDelivery fo c =
     (let d = DefaultDelivery fo; b = dc_Backoff c in
      \<lparr>dc_MaxAttempts = (if dc_MaxAttempts c \<le> 0 then dc_MaxAttempts d else dc_MaxAttempts c),
       dc_Backoff = \<lparr>bo_Base = (if bo_Base b \<le> 0 then bo_Base (dc_Backoff d) else bo_Base b),
         bo_Factor = (if fo_lt_one fo (bo_Factor b) then bo_Factor (dc_Backoff d) else bo_Factor b),
         bo_Max = (if bo_Max b \<le> 0 then bo_Max (dc_Backoff d) else bo_Max b)\<rparr>\<rparr>)"

definition deliveryConfig :: "'f float_ops \<Rightarrow> 'f delivery_config option \<Rightarrow> 'f delivery_config" where
  "deliveryConfig fo p = (case p of Some c \<Rightarrow> NormalizeDelivery fo c | None \<Rightarrow> DefaultDelivery fo)"

record consumer =
  co_topic :: string
  co_groupID :: string

definition offsetOf :: "string \<Rightarrow> string \<Rightarrow> memory_queue \<Rightarrow> nat" where
  "offsetOf g t mq = (case mq_offsets mq of None \<Rightarrow> 0 | Some offs \<Rightarrow>
     (case offs g of None \<Rightarrow> 0 | Some to \<Rightarrow> (case to t of None \<Rightarrow> 0 | Some n \<Rightarrow> n)))"

definition NewConsumer :: "string \<Rightarrow> string \<Rightarrow> memory_queue \<Rightarrow> consumer \<times> memory_queue" where
  "NewConsumer topic g mq =
     (let (ts, mq1) = getOrCreateTopic topic mq;
          cs = \<lparr>cs_GroupID = g, cs_Offset = offsetOf g topic mq, cs_Ch = [], cs_Cap = 10000\<rparr> in
      (\<lparr>co_topic = topic, co_groupID = g\<rparr>,
       mq1\<lparr>mq_topics := (mq_topics mq1)(topic \<mapsto> ts\<lparr>ts_Consumers := ts_Consumers ts @ [cs]\<rparr>)\<rparr>))"

definition alreadyProcessed :: "consumer \<Rightarrow> message \<Rightarrow> memory_queue \<Rightarrow> bool" where
  "alreadyProcessed c m mq \<longleftrightarrow> m_Seq m < offsetOf (co_groupID c) (co_topic c) mq"

text \<open>\<open>None\<close> is the panic of writing to a \<open>nil\<close> map.\<close>

definition advanceOffset :: "consumer \<Rightarrow> message \<Rightarrow> memory_queue \<Rightarrow> memory_queue option" where
  "advanceOffset c m mq = (case mq_offsets mq of None \<Rightarrow> None | Some offs \<Rightarrow>
     (let to = (case offs (co_groupID c) of None \<Rightarrow> Map.empty | Some to \<Rightarrow> to);
          old = (case to (co_topic c) of None \<Rightarrow> 0 | Some n \<Rightarrow> n) in
      Some (mq\<lparr>mq_offsets := Some (offs(co_groupID c \<mapsto>
        (if m_Seq m + 1 > old then to(co_topic c \<mapsto> m_Seq m + 1) else to)))\<rparr>)))"

text \<open>
  What a handler call, the context and the backoff wait do to the world: \<open>ce_wait\<close> tells
  whether the wait was cut short by the context.
\<close>

datatype handler_result = HandlerOk | HandlerPermanent | HandlerRetry

record 'w consumer_env =
  ce_handler :: "string \<Rightarrow> bytes \<Rightarrow> 'w \<Rightarrow> handler_result \<times> 'w"
  ce_done :: "'w \<Rightarrow> bool"
  ce_wait :: "int \<Rightarrow> 'w \<Rightarrow> bool \<times> 'w"

function attempts :: "'w consumer_env \<Rightarrow> int \<Rightarrow> consumer \<Rightarrow> message \<Rightarrow> int \<Rightarrow> memory_queue \<Rightarrow> 'w \<Rightarrow>
    (bool \<times> memory_queue \<times> 'w) option" where
  "attempts env maxA c m attempt mq w =
     (let (r, w1) = ce_handler env (m_Key m) (m_Value m) w in
      if r = HandlerOk then map_option (\<lambda>mq'. (True, mq', w1)) (advanceOffset c m mq)
      else if ce_done env w1 then Some (False, mq, w1)
      else if r = HandlerPermanent \<or> attempt \<ge> maxA
        then map_option (\<lambda>mq'. (True, mq', w1)) (advanceOffset c m mq)
      else (let (cut, w2) = ce_wait env attempt w1 in
        if cut then Some (False, mq, w2) else attempts env maxA c m (attempt + 1) mq w2))"
  by pat_completeness auto
termination
  by (relation "measure (\<lambda>(env, maxA, c, m, attempt, mq, w). nat (maxA - attempt))") auto

declare attempts.simps [simp del]

definition process :: "'w consumer_env \<Rightarrow> int \<Rightarrow> consumer \<Rightarrow> message \<Rightarrow> memory_queue \<Rightarrow> 'w \<Rightarrow>
    (bool \<times> memory_queue \<times> 'w) option" where
  "process env maxA c m mq w =
     (if alreadyProcessed c m mq then Some (True, mq, w) else attempts env maxA c m 1 mq w)"

definition replayMessages :: "consumer \<Rightarrow> memory_queue \<Rightarrow> message list" where
  "replayMessages c mq = (case mq_topics mq (co_topic c) of None \<Rightarrow> []
     | Some ts \<Rightarrow> filter (\<lambda>m. m_Seq m \<ge> offsetOf (co_groupID c) (co_topic c) mq) (ringMessages ts))"

fun replayAll :: "'w consumer_env \<Rightarrow> int \<Rightarrow> consumer \<Rightarrow> message list \<Rightarrow> memory_queue \<Rightarrow> 'w \<Rightarrow>
    (memory_queue \<times> 'w) option" where
  "replayAll env maxA c [] mq w = Some (mq, w)"
| "replayAll env maxA c (m # ms) mq w =
     (if ce_done env w then Some (mq, w)
      else case process env maxA c m mq w of None \<Rightarrow> None
        | Some (_, mq', w') \<Rightarrow> replayAll env maxA c ms mq' w')"

definition replay :: "'w consumer_env \<Rightarrow> int \<Rightarrow> consumer \<Rightarrow> memory_queue \<Rightarrow> 'w \<Rightarrow> (memory_queue \<times> 'w) option" where
  "replay env maxA c mq w = replayAll env maxA c (replayMessages c mq) mq w"

text \<open>The loop over the channel, on the messages it receives until it blocks or returns.\<close>

fun receiveAll :: "'w consumer_env \<Rightarrow> int \<Rightarrow> consumer \<Rightarrow> message list \<Rightarrow> memory_queue \<Rightarrow> 'w \<Rightarrow>
    (memory_queue \<times> 'w) option" where
  "receiveAll env maxA c [] mq w = Some (mq, w)"
| "receiveAll env maxA c (m # ms) mq w =
     (if ce_done env w then Some (mq, w)
      else case process env maxA c m mq w of None \<Rightarrow> None
        | Some (go, mq', w') \<Rightarrow> if go then receiveAll env maxA c ms mq' w' else Some (mq', w'))"

definition runConsumer :: "'w consumer_env \<Rightarrow> int \<Rightarrow> consumer \<Rightarrow> message list \<Rightarrow> memory_queue \<Rightarrow> 'w \<Rightarrow>
    (memory_queue \<times> 'w) option" where
  "runConsumer env maxA c received mq w = (case replay env maxA c mq w of None \<Rightarrow> None
     | Some (mq', w') \<Rightarrow> receiveAll env maxA c received mq' w')"

section \<open>The ring is a bounded list\<close>

text \<open>
  A well-formed ring holds consecutive messages, the last of which is the one before
  \<open>ts_NextSeq\<close>.
\<close>

definition slot :: "topic_state \<Rightarrow> nat \<Rightarrow> message option" where
  "slot ts i = ts_Messages ts ! ringIndex ts i"

definition ring_ok :: "topic_state \<Rightarrow> bool" where
  "ring_ok ts \<longleftrightarrow> length (ts_Messages ts) = ts_Capacity ts \<and> ts_Head ts < ts_Capacity ts \<and>
     ts_Tail ts < ts_Capacity ts \<and> ringCount ts \<le> ts_NextSeq ts \<and>
     (\<forall>i < ringCount ts. \<exists>m. slot ts i = Some m \<and> m_Seq m = ts_NextSeq ts - ringCount ts + i)"

definition lastn :: "nat \<Rightarrow> 'a list \<Rightarrow> 'a list" where
  "lastn k xs = drop (length xs - k) xs"

lemma wrap: "h < c \<Longrightarrow> i \<le> c \<Longrightarrow> (h + i) mod c = (if h + i < c then h + i else h + i - c)"
  for h i c :: nat
  by (auto simp: le_mod_geq)

lemma ringCount_eq:
  assumes "ts_Head ts < ts_Capacity ts" and "ts_Tail ts < ts_Capacity ts"
  shows "ringCount ts = (if ts_Head ts \<le> ts_Tail ts then ts_Tail ts - ts_Head ts
    else ts_Tail ts + ts_Capacity ts - ts_Head ts)"
proof -
  let ?h = "int (ts_Head ts)" and ?t = "int (ts_Tail ts)" and ?c = "int (ts_Capacity ts)"
  have "(?t - ?h + ?c) mod ?c = (if ?h \<le> ?t then ?t - ?h else ?t - ?h + ?c)"
  proof (cases "?h \<le> ?t")
    case True
    then show ?thesis using assms by (simp add: mod_pos_pos_trivial)
  next
    case False
    then have "(?t - ?h + ?c) mod ?c = ?t - ?h + ?c" using assms by (intro mod_pos_pos_trivial) auto
    then show ?thesis using False by simp
  qed
  then show ?thesis by (auto simp: ringCount_def nat_diff_distrib nat_int_add)
qed

lemma ring_tail:
  assumes "ts_Head ts < ts_Capacity ts" and "ts_Tail ts < ts_Capacity ts"
  shows "ringCount ts < ts_Capacity ts" and "ts_Tail ts = ringIndex ts (ringCount ts)"
  using assms by (auto simp: ringCount_eq ringIndex_def wrap)

lemma ringCount_unique:
  assumes "ts_Head ts < ts_Capacity ts" and "n < ts_Capacity ts" and "ts_Tail ts = (ts_Head ts + n) mod ts_Capacity ts"
  shows "ringCount ts = n"
proof -
  have "ts_Tail ts < ts_Capacity ts" using assms by auto
  then show ?thesis using assms by (auto simp: ringCount_eq wrap split: if_splits)
qed

lemma map_filter_Some: "(\<And>x. x \<in> set xs \<Longrightarrow> f x = Some (g x)) \<Longrightarrow> List.map_filter f xs = map g xs"
  by (induction xs) (simp_all add: List.map_filter_simps)

lemma ringMessages_eq: "ring_ok ts \<Longrightarrow> ringMessages ts = map (\<lambda>i. the (slot ts i)) [0 ..< ringCount ts]"
  unfolding ringMessages_def by (rule map_filter_Some) (fastforce simp: ring_ok_def slot_def)

lemma length_ringMessages: "ring_ok ts \<Longrightarrow> length (ringMessages ts) = ringCount ts"
  by (simp add: ringMessages_eq)

lemma ring_seqs: "ring_ok ts \<Longrightarrow> map m_Seq (ringMessages ts) = [ts_NextSeq ts - ringCount ts ..< ts_NextSeq ts]"
proof (rule nth_equalityI)
  assume ok: "ring_ok ts"
  then show "length (map m_Seq (ringMessages ts)) = length [ts_NextSeq ts - ringCount ts ..< ts_NextSeq ts]"
    by (simp add: length_ringMessages) (simp add: ring_ok_def)
  fix i assume "i < length (map m_Seq (ringMessages ts))"
  then show "map m_Seq (ringMessages ts) ! i = [ts_NextSeq ts - ringCount ts ..< ts_NextSeq ts] ! i"
    using ok by (fastforce simp: ringMessages_eq ring_ok_def)
qed

text \<open>Pushing a message appends it and forgets the oldest of a full ring.\<close>

lemma push_fields:
  assumes ok: "ring_ok ts" and m: "m_Seq m = ts_NextSeq ts"
  defines "n \<equiv> ringCount ts" and "c \<equiv> ts_Capacity ts" and "ts' \<equiv> pushMessage m ts"
  shows "ts_Head ts' = (if n + 1 = c then (ts_Head ts + 1) mod c else ts_Head ts)"
    and "ringCount ts' = min (n + 1) (c - 1)"
    and "\<And>i. i < ringCount ts' \<Longrightarrow> slot ts' i =
      (let j = i + (if n + 1 = c then 1 else 0) in if j = n then Some m else slot ts j)"
proof -
  have h: "ts_Head ts < c" "ts_Tail ts < c" and len: "length (ts_Messages ts) = c"
    using ok by (auto simp: ring_ok_def c_def)
  have n: "n < c" "ts_Tail ts = (ts_Head ts + n) mod c"
    using ring_tail [of ts] h by (auto simp: n_def c_def ringIndex_def)
  have t': "ts_Tail ts' = (ts_Head ts + (n + 1)) mod c" and c': "ts_Capacity ts' = c"
    using n by (simp_all add: ts'_def pushMessage_def Let_def c_def mod_simps)
  have full: "ts_Tail ts' = ts_Head ts \<longleftrightarrow> n + 1 = c"
    using h(1) n(1) wrap [OF h(1), of "n + 1"] by (auto simp: t' split: if_splits)
  show hd: "ts_Head ts' = (if n + 1 = c then (ts_Head ts + 1) mod c else ts_Head ts)"
    using full by (simp add: ts'_def pushMessage_def Let_def c_def)
  show cnt: "ringCount ts' = min (n + 1) (c - 1)"
  proof (rule ringCount_unique)
    show "ts_Head ts' < ts_Capacity ts'" using h by (simp add: hd c')
    show "min (n + 1) (c - 1) < ts_Capacity ts'" using n by (simp add: c')
    show "ts_Tail ts' = (ts_Head ts' + min (n + 1) (c - 1)) mod ts_Capacity ts'"
      using n by (auto simp: hd c' t' mod_simps min_def)
  qed
  fix i assume i: "i < ringCount ts'"
  define j where "j = i + (if n + 1 = c then 1 else 0)"
  have jn: "j \<le> n" using i n(1) by (auto simp: cnt min_def j_def split: if_splits)
  have eq: "slot ts' i = (ts_Messages ts)[ts_Tail ts := Some m] ! ((ts_Head ts + j) mod c)"
    by (simp add: slot_def ringIndex_def hd c' j_def mod_simps) (simp add: ts'_def pushMessage_def Let_def)
  have "(ts_Head ts + j) mod c = ts_Tail ts \<longleftrightarrow> j = n"
    using jn h(1) n by (auto simp: wrap split: if_splits)
  then have "slot ts' i = (if j = n then Some m else slot ts j)"
    using h len unfolding eq by (auto simp: nth_list_update slot_def ringIndex_def c_def)
  then show "slot ts' i = (let j = i + (if n + 1 = c then 1 else 0) in if j = n then Some m else slot ts j)"
    by (simp add: j_def Let_def)
qed

lemma length_lastn: "length (lastn k xs) = min k (length xs)"
  by (auto simp: lastn_def)

lemma push_ok:
  assumes ok: "ring_ok ts" and m: "m_Seq m = ts_NextSeq ts"
  shows "ring_ok (pushMessage m ts)"
    and "ringMessages (pushMessage m ts) = lastn (ts_Capacity ts - 1) (ringMessages ts @ [m])"
proof -
  let ?t = "pushMessage m ts" and ?n = "ringCount ts" and ?c = "ts_Capacity ts"
  note pf = push_fields [OF ok m]
  have h: "ts_Head ts < ?c" "ts_Tail ts < ?c" "length (ts_Messages ts) = ?c" "?n \<le> ts_NextSeq ts"
    using ok by (auto simp: ring_ok_def)
  have n: "?n < ?c" using ring_tail(1) [of ts] h by simp
  have next': "ts_NextSeq ?t = ts_NextSeq ts + 1" "ts_Capacity ?t = ?c" "length (ts_Messages ?t) = ?c"
    by (simp_all add: pushMessage_def Let_def h)
  have tail': "ts_Tail ?t < ?c" using h by (simp add: pushMessage_def Let_def)
  have old: "\<exists>q. slot ts j = Some q \<and> m_Seq q = ts_NextSeq ts - ?n + j" if "j < ?n" for j
    using ok that unfolding ring_ok_def by blast
  have new: "\<exists>q. slot ?t i = Some q \<and> m_Seq q = ts_NextSeq ?t - ringCount ?t + i" if i: "i < ringCount ?t" for i
  proof -
    let ?j = "i + (if ?n + 1 = ?c then 1 else 0)"
    have j: "?j \<le> ?n" using i n by (auto simp: pf(2) min_def split: if_splits)
    have s: "ts_NextSeq ?t - ringCount ?t + i = ts_NextSeq ts - ?n + ?j"
      using n h(4) i by (auto simp: pf(2) next' min_def)
    show ?thesis
    proof (cases "?j = ?n")
      case True
      then show ?thesis using pf(3) [OF i] m h(4) by (simp add: s Let_def)
    next
      case False
      then show ?thesis using pf(3) [OF i] old [of ?j] j by (simp add: s Let_def)
    qed
  qed
  show ok': "ring_ok ?t"
    unfolding ring_ok_def using new next' tail' h n by (auto simp: pf(1,2))
  show "ringMessages ?t = lastn (?c - 1) (ringMessages ts @ [m])"
  proof (rule nth_equalityI)
    show "length (ringMessages ?t) = length (lastn (?c - 1) (ringMessages ts @ [m]))"
      using n by (simp add: length_ringMessages ok ok' pf(2) length_lastn min.commute)
    fix i assume "i < length (ringMessages ?t)"
    then have i: "i < ringCount ?t" by (simp add: length_ringMessages ok')
    let ?j = "i + (if ?n + 1 = ?c then 1 else 0)"
    have j: "?j \<le> ?n" using i n by (auto simp: pf(2) min_def split: if_splits)
    have d: "Suc ?n - (?c - 1) = (if ?n + 1 = ?c then 1 else 0)" using n by auto
    have "ringMessages ?t ! i = the (slot ?t i)" using i by (simp add: ringMessages_eq ok')
    also have "\<dots> = (if ?j = ?n then m else ringMessages ts ! ?j)"
      using pf(3) [OF i] j by (simp add: Let_def ringMessages_eq ok)
    also have "\<dots> = (ringMessages ts @ [m]) ! ?j"
      using j by (simp add: nth_append length_ringMessages ok)
    also have "\<dots> = lastn (?c - 1) (ringMessages ts @ [m]) ! i"
    proof -
      have "length (ringMessages ts @ [m]) = Suc ?n" by (simp add: length_ringMessages ok)
      moreover have "(if ?n + 1 = ?c then 1 else 0) \<le> length (ringMessages ts @ [m])" by simp
      ultimately show ?thesis unfolding lastn_def by (simp only: d nth_drop add.commute)
    qed
    finally show "ringMessages ?t ! i = lastn (?c - 1) (ringMessages ts @ [m]) ! i" .
  qed
qed

section \<open>The queue as one bounded log per topic\<close>

definition topicLog :: "memory_queue \<Rightarrow> string \<Rightarrow> message list" where
  "topicLog mq topic = (case mq_topics mq topic of None \<Rightarrow> [] | Some ts \<Rightarrow> ringMessages ts)"

definition nextSeq :: "memory_queue \<Rightarrow> string \<Rightarrow> nat" where
  "nextSeq mq topic = (case mq_topics mq topic of None \<Rightarrow> 0 | Some ts \<Rightarrow> ts_NextSeq ts)"

definition queue_ok :: "memory_queue \<Rightarrow> bool" where
  "queue_ok mq \<longleftrightarrow> mq_offsets mq \<noteq> None \<and>
     (\<forall>topic ts. mq_topics mq topic = Some ts \<longrightarrow> ring_ok ts \<and> ts_Capacity ts = defaultCapacity)"

lemma empty_ring: "0 < cap \<Longrightarrow> ring_ok (emptyTopic cap) \<and> ringMessages (emptyTopic cap) = []"
  by (simp add: ring_ok_def emptyTopic_def ringCount_def ringMessages_def List.map_filter_simps)

lemma ring_consumers [simp]:
  "ring_ok (ts\<lparr>ts_Consumers := cs\<rparr>) = ring_ok ts" "ringMessages (ts\<lparr>ts_Consumers := cs\<rparr>) = ringMessages ts"
  by (simp_all add: ring_ok_def ringCount_def slot_def ringIndex_def ringMessages_def)

lemma produceTo_ok:
  assumes "ring_ok ts"
  shows "ring_ok (produceTo key data ts)"
    and "ringMessages (produceTo key data ts) = lastn (ts_Capacity ts - 1) (ringMessages ts @
      [\<lparr>m_Seq = ts_NextSeq ts, m_Key = key, m_Value = data\<rparr>])"
    and "ts_NextSeq (produceTo key data ts) = ts_NextSeq ts + 1"
    and "ts_Capacity (produceTo key data ts) = ts_Capacity ts"
  using push_ok [OF assms, of "\<lparr>m_Seq = ts_NextSeq ts, m_Key = key, m_Value = data\<rparr>"]
  by (simp_all add: produceTo_def Let_def) (simp_all add: pushMessage_def Let_def)

lemma getOrCreateTopic_ok:
  assumes "queue_ok mq" and "getOrCreateTopic topic mq = (ts, mq1)"
  shows "ring_ok ts \<and> ts_Capacity ts = defaultCapacity \<and> ringMessages ts = topicLog mq topic \<and>
    ts_NextSeq ts = nextSeq mq topic \<and> mq_topics mq1 = (mq_topics mq)(topic \<mapsto> ts) \<and>
    mq_offsets mq1 = mq_offsets mq \<and> mq_stopped mq1 = mq_stopped mq \<and> mq_pool mq1 = mq_pool mq"
proof (cases "mq_topics mq topic")
  case None
  then show ?thesis using assms(2) empty_ring [of defaultCapacity]
    by (auto simp: getOrCreateTopic_def topicLog_def nextSeq_def defaultCapacity_def emptyTopic_def)
next
  case (Some t)
  then show ?thesis using assms
    by (auto simp: getOrCreateTopic_def topicLog_def nextSeq_def queue_ok_def fun_upd_idem)
qed

text \<open>Producing appends one message with the next sequence number to the log of its topic, which
  keeps the last 9999, and touches no other topic; the log always holds the consecutive messages
  before the next number, and a stopped queue or a value without JSON changes nothing.\<close>

theorem Produce_appends:
  assumes "queue_ok mq"
  shows "queue_ok (ProduceValue marshal topic key v mq) \<and>
    (case marshal v of
       Some data \<Rightarrow> if mq_stopped mq then ProduceValue marshal topic key v mq = mq
         else topicLog (ProduceValue marshal topic key v mq) = (topicLog mq)(topic :=
             lastn 9999 (topicLog mq topic @ [\<lparr>m_Seq = nextSeq mq topic, m_Key = key, m_Value = data\<rparr>])) \<and>
           nextSeq (ProduceValue marshal topic key v mq) = (nextSeq mq)(topic := nextSeq mq topic + 1)
     | None \<Rightarrow> ProduceValue marshal topic key v mq = mq) \<and>
    map m_Seq (topicLog mq topic) = [nextSeq mq topic - length (topicLog mq topic) ..< nextSeq mq topic]"
proof -
  have seqs: "map m_Seq (topicLog mq topic) = [nextSeq mq topic - length (topicLog mq topic) ..< nextSeq mq topic]"
  proof (cases "mq_topics mq topic")
    case (Some ts)
    then have "ring_ok ts" using assms by (simp add: queue_ok_def)
    then show ?thesis using ring_seqs [of ts] length_ringMessages [of ts] Some
      by (simp add: topicLog_def nextSeq_def)
  qed (simp add: topicLog_def nextSeq_def)
  show ?thesis
  proof (cases "marshal v = None \<or> mq_stopped mq")
    case True
    then show ?thesis using assms seqs by (auto simp: ProduceValue_def split: option.splits)
  next
    case False
    then obtain data where v: "marshal v = Some data" and st: "\<not> mq_stopped mq" by auto
    obtain ts mq1 where g: "getOrCreateTopic topic mq = (ts, mq1)" by (cases "getOrCreateTopic topic mq")
    note T = getOrCreateTopic_ok [OF assms g]
    let ?m = "\<lparr>mq_topics = (mq_topics mq)(topic \<mapsto> produceTo key data ts), mq_offsets = mq_offsets mq1,
      mq_stopped = mq_stopped mq1, mq_dirty = True, mq_pool = mq_pool mq1\<rparr>"
    have p: "ProduceValue marshal topic key v mq = mq1\<lparr>mq_topics := (mq_topics mq)(topic \<mapsto> produceTo key data ts),
        mq_dirty := True\<rparr>" using v st T by (simp add: ProduceValue_def g)
    have ring: "ring_ok ts" using T by simp
    note P = produceTo_ok [OF ring, of key data]
    have "queue_ok (ProduceValue marshal topic key v mq)"
      using assms T P(1,4) by (auto simp: p queue_ok_def)
    moreover have "topicLog (ProduceValue marshal topic key v mq) = (topicLog mq)(topic :=
        lastn 9999 (topicLog mq topic @ [\<lparr>m_Seq = nextSeq mq topic, m_Key = key, m_Value = data\<rparr>]))"
      using T P(2) by (auto simp: p topicLog_def fun_eq_iff defaultCapacity_def)
    moreover have "nextSeq (ProduceValue marshal topic key v mq) = (nextSeq mq)(topic := nextSeq mq topic + 1)"
      using T P(3) by (auto simp: p nextSeq_def fun_eq_iff)
    ultimately show ?thesis using v st seqs by simp
  qed
qed

lemma NewMemoryQueue_ok: "queue_ok NewMemoryQueue"
  by (simp add: NewMemoryQueue_def queue_ok_def)

text \<open>Two messages to a new queue.\<close>

definition twoMessages :: memory_queue where
  "twoMessages = ProduceValue Some ''torrents.process'' ''k2'' [2]
     (ProduceValue Some ''torrents.process'' ''k1'' [1] NewMemoryQueue)"

theorem Produce_appends_witness:
  "queue_ok twoMessages \<and> topicLog twoMessages ''torrents.process'' =
    [\<lparr>m_Seq = 0, m_Key = ''k1'', m_Value = [1]\<rparr>, \<lparr>m_Seq = 1, m_Key = ''k2'', m_Value = [2]\<rparr>]"
proof -
  let ?one = "ProduceValue Some ''torrents.process'' ''k1'' [1] NewMemoryQueue"
  have n: "mq_stopped NewMemoryQueue = False" "topicLog NewMemoryQueue = (\<lambda>_. [])" "nextSeq NewMemoryQueue = (\<lambda>_. 0)"
    by (simp_all add: NewMemoryQueue_def topicLog_def nextSeq_def fun_eq_iff)
  have st: "mq_stopped ?one = False" by (simp add: ProduceValue_def getOrCreateTopic_def NewMemoryQueue_def)
  have 1: "queue_ok ?one" "topicLog ?one ''torrents.process'' = [\<lparr>m_Seq = 0, m_Key = ''k1'', m_Value = [1]\<rparr>]"
      "nextSeq ?one ''torrents.process'' = 1"
    using Produce_appends [OF NewMemoryQueue_ok, of Some "''torrents.process''" "''k1''" "[1]"]
    by (simp_all add: n lastn_def)
  show ?thesis unfolding twoMessages_def
    using Produce_appends [OF 1(1), of Some "''torrents.process''" "''k2''" "[2]"]
    by (simp add: st 1(2,3) lastn_def)
qed

section \<open>Persisting and recovering loses nothing\<close>

lemma fillSlots_map:
  "length slots = cap \<Longrightarrow> tail + length ms \<le> cap \<Longrightarrow> fillSlots cap (map Some ms) tail slots =
     Some (take tail slots @ map Some ms @ drop (tail + length ms) slots, tail + length ms)"
proof (induction ms arbitrary: tail slots)
  case (Cons m ms)
  have "take (tail + 1) (slots[tail := Some m]) = take tail slots @ [Some m]"
    using Cons.prems by (simp add: take_update_swap upd_conv_take_nth_drop [of tail] take_Suc_conv_app_nth)
  then show ?case using Cons by simp
qed simp

lemma recoverTopic_ok:
  assumes "length ms < cap" and "length ms \<le> sn_NextSeq snap" and "sn_Messages snap = map Some ms"
    and "map m_Seq ms = [sn_NextSeq snap - length ms ..< sn_NextSeq snap]"
  shows "\<exists>ts. recoverTopic cap snap = Some ts \<and> ring_ok ts \<and> ringMessages ts = ms \<and>
    ts_NextSeq ts = sn_NextSeq snap \<and> ts_Capacity ts = cap"
proof -
  let ?slots = "map Some ms @ replicate (cap - length ms) None"
  let ?ts = "\<lparr>ts_Messages = ?slots, ts_NextSeq = sn_NextSeq snap, ts_Capacity = cap, ts_Head = 0,
    ts_Tail = length ms, ts_Consumers = []\<rparr>"
  have r: "recoverTopic cap snap = Some ?ts"
    using fillSlots_map [of "replicate cap None" cap 0 ms] assms(1) by (simp add: recoverTopic_def assms(3))
  have c: "ringCount ?ts = length ms" using assms(1) by (simp add: ringCount_eq)
  have sl: "slot ?ts i = Some (ms ! i)" if "i < length ms" for i
    using that assms(1) by (simp add: slot_def ringIndex_def nth_append)
  have "m_Seq (ms ! i) = sn_NextSeq snap - length ms + i" if "i < length ms" for i
    using that assms(2) arg_cong [OF assms(4), of "\<lambda>l. l ! i"] by simp
  then have ok: "ring_ok ?ts" using assms(1,2) sl by (simp add: ring_ok_def c)
  have "ringMessages ?ts = ms"
    by (rule nth_equalityI) (simp_all add: ringMessages_eq [OF ok] c sl)
  then show ?thesis using r ok by (intro exI [of _ ?ts]) simp
qed

lemma serialize_ring: "ring_ok ts \<Longrightarrow> serializeTopicMessages ts = ringMessages ts"
  by (auto simp: serializeTopicMessages_def ringMessages_eq ringCount_eq ring_ok_def)

lemma ring_length: "ring_ok ts \<Longrightarrow> length (ringMessages ts) < ts_Capacity ts \<and>
    length (ringMessages ts) \<le> ts_NextSeq ts"
  using ring_tail(1) [of ts] by (simp add: length_ringMessages) (simp add: ring_ok_def)



section \<open>Consuming\<close>

lemma advanceOffset_ok:
  assumes "mq_offsets mq \<noteq> None"
  shows "\<exists>mq'. advanceOffset c m mq = Some mq' \<and> mq_offsets mq' \<noteq> None \<and> mq_topics mq' = mq_topics mq \<and>
    offsetOf (co_groupID c) (co_topic c) mq' = max (offsetOf (co_groupID c) (co_topic c) mq) (m_Seq m + 1) \<and>
    (\<forall>g t. (g, t) \<noteq> (co_groupID c, co_topic c) \<longrightarrow> offsetOf g t mq' = offsetOf g t mq)"
  using assms by (auto simp: advanceOffset_def offsetOf_def Let_def max_def split: option.splits)

lemma advanceOffset_nil: "mq_offsets mq = None \<Longrightarrow> advanceOffset c m mq = None"
  by (simp add: advanceOffset_def)

text \<open>
  A scripted handler: it answers with the next result of a script, success when the script has
  ended, and the calls are recorded; the context is not cancelled.
\<close>

record script_world =
  sw_script :: "handler_result list"
  sw_calls :: "(string \<times> bytes) list"

definition scriptHandler :: "string \<Rightarrow> bytes \<Rightarrow> script_world \<Rightarrow> handler_result \<times> script_world" where
  "scriptHandler key value w = (case sw_script w of [] \<Rightarrow> HandlerOk | r # _ \<Rightarrow> r,
     w\<lparr>sw_script := tl (sw_script w), sw_calls := sw_calls w @ [(key, value)]\<rparr>)"

definition scriptEnv :: "script_world consumer_env" where
  "scriptEnv = \<lparr>ce_handler = scriptHandler, ce_done = (\<lambda>_. False), ce_wait = (\<lambda>_ w. (False, w))\<rparr>"

definition callOf :: "message \<Rightarrow> string \<times> bytes" where
  "callOf m = (m_Key m, m_Value m)"

text \<open>How many calls a message takes: up to the first result that is no retryable failure.\<close>

definition deliveries :: "int \<Rightarrow> handler_result list \<Rightarrow> nat" where
  "deliveries maxA script = min (nat maxA) (length (takeWhile (\<lambda>r. r = HandlerRetry) script) + 1)"

lemma attempts_script:
  assumes off: "mq_offsets mq \<noteq> None"
  shows "1 \<le> attempt \<Longrightarrow> attempt \<le> maxA \<Longrightarrow>
    \<exists>mq'. advanceOffset c m mq = Some mq' \<and>
      attempts scriptEnv maxA c m attempt mq w = Some (True, mq',
        w\<lparr>sw_script := drop (deliveries (maxA - attempt + 1) (sw_script w)) (sw_script w),
          sw_calls := sw_calls w @ replicate (deliveries (maxA - attempt + 1) (sw_script w)) (callOf m)\<rparr>)"
proof (induction "nat (maxA - attempt)" arbitrary: attempt w)
  case (0 attempt w)
  then have a: "attempt = maxA" by simp
  obtain mq' where mq': "advanceOffset c m mq = Some mq'" using advanceOffset_ok [OF off] by blast
  have "deliveries 1 (sw_script w) = 1" by (simp add: deliveries_def)
  then show ?case using mq' a
    by (subst attempts.simps)
      (auto simp: scriptEnv_def scriptHandler_def callOf_def drop_Suc split: list.splits)
next
  case (Suc n attempt w)
  obtain mq' where mq': "advanceOffset c m mq = Some mq'" using advanceOffset_ok [OF off] by blast
  show ?case
  proof (cases "sw_script w")
    case (Cons r rs)
    show ?thesis
    proof (cases "r = HandlerRetry")
      case True
      let ?w = "w\<lparr>sw_script := rs, sw_calls := sw_calls w @ [callOf m]\<rparr>"
      have n: "n = nat (maxA - (attempt + 1))" "1 \<le> attempt + 1" "attempt + 1 \<le> maxA" "\<not> attempt \<ge> maxA"
        using Suc.hyps(2) Suc.prems by auto
      have dl: "deliveries (maxA - attempt + 1) (sw_script w) = Suc (deliveries (maxA - (attempt + 1) + 1) rs)"
      proof -
        have "nat (maxA - attempt + 1) = Suc (nat (maxA - (attempt + 1) + 1))" using n(3) by linarith
        then show ?thesis using Cons True by (simp add: deliveries_def)
      qed
      have "attempts scriptEnv maxA c m attempt mq w = attempts scriptEnv maxA c m (attempt + 1) mq ?w"
        using Cons True n(4) by (subst attempts.simps) (simp add: scriptEnv_def scriptHandler_def callOf_def)
      then show ?thesis using Suc.hyps(1) [OF n(1-3), of ?w] mq' dl Cons by simp
    next
      case False
      then have "r = HandlerOk \<or> r = HandlerPermanent" by (cases r) auto
      then show ?thesis using mq' Cons Suc.prems
        by (subst attempts.simps)
          (auto simp: scriptEnv_def scriptHandler_def callOf_def deliveries_def)
    qed
  next
    case Nil
    then show ?thesis using mq' Suc.prems
      by (subst attempts.simps) (auto simp: scriptEnv_def scriptHandler_def callOf_def deliveries_def)
  qed
qed

lemma process_attempts':
  assumes "mq_offsets mq \<noteq> None" and "1 \<le> maxA"
  shows "\<exists>mq' n. process scriptEnv maxA c m mq w = Some (True, mq', w\<lparr>sw_script := drop n (sw_script w),
      sw_calls := sw_calls w @ replicate n (callOf m)\<rparr>) \<and>
    n = (if alreadyProcessed c m mq then 0 else deliveries maxA (sw_script w)) \<and>
    alreadyProcessed c m mq' \<and> mq_offsets mq' \<noteq> None \<and> mq_topics mq' = mq_topics mq \<and>
    offsetOf (co_groupID c) (co_topic c) mq' = max (offsetOf (co_groupID c) (co_topic c) mq) (m_Seq m + 1) \<and>
    (\<forall>g t. (g, t) \<noteq> (co_groupID c, co_topic c) \<longrightarrow> offsetOf g t mq' = offsetOf g t mq)"
proof (cases "alreadyProcessed c m mq")
  case True
  then show ?thesis using assms(1)
    by (intro exI [of _ mq] exI [of _ 0]) (auto simp: process_def alreadyProcessed_def)
next
  case False
  obtain mq' where a: "advanceOffset c m mq = Some mq'" "mq_offsets mq' \<noteq> None" "mq_topics mq' = mq_topics mq"
      "offsetOf (co_groupID c) (co_topic c) mq' = max (offsetOf (co_groupID c) (co_topic c) mq) (m_Seq m + 1)"
      "\<forall>g t. (g, t) \<noteq> (co_groupID c, co_topic c) \<longrightarrow> offsetOf g t mq' = offsetOf g t mq"
    using advanceOffset_ok [OF assms(1), of c m] by blast
  show ?thesis
    using attempts_script [OF assms(1), of 1 maxA c m w] assms(2) a False
    by (intro exI [of _ mq'] exI [of _ "deliveries maxA (sw_script w)"])
      (auto simp: process_def alreadyProcessed_def)
qed

text \<open>A message is handed to the handler until it succeeds, fails for good, or has failed
  \<open>MaxAttempts\<close> times, and is then acknowledged; one that was acknowledged before is not handed
  over again.  The offsets of other groups and topics stay.\<close>

theorem process_attempts:
  assumes "mq_offsets mq \<noteq> None" and "1 \<le> maxA"
  shows "\<exists>mq' n. process scriptEnv maxA c m mq w = Some (True, mq', w\<lparr>sw_script := drop n (sw_script w),
      sw_calls := sw_calls w @ replicate n (callOf m)\<rparr>) \<and>
    n = (if alreadyProcessed c m mq then 0 else deliveries maxA (sw_script w)) \<and>
    alreadyProcessed c m mq' \<and> mq_offsets mq' \<noteq> None \<and> mq_topics mq' = mq_topics mq \<and>
    offsetOf (co_groupID c) (co_topic c) mq' = max (offsetOf (co_groupID c) (co_topic c) mq) (m_Seq m + 1) \<and>
    (\<forall>g t. (g, t) \<noteq> (co_groupID c, co_topic c) \<longrightarrow> offsetOf g t mq' = offsetOf g t mq)"
  using assms by (rule process_attempts')

text \<open>Two retryable failures and a success, with at most five attempts.\<close>

theorem process_attempts_witness:
  "\<exists>mq'. process scriptEnv DefaultMaxAttempts \<lparr>co_topic = ''t'', co_groupID = ''g''\<rparr>
      \<lparr>m_Seq = 0, m_Key = ''k'', m_Value = [1]\<rparr> NewMemoryQueue
      \<lparr>sw_script = [HandlerRetry, HandlerRetry, HandlerOk, HandlerPermanent], sw_calls = []\<rparr>
    = Some (True, mq', \<lparr>sw_script = [HandlerPermanent], sw_calls = [(''k'', [1]), (''k'', [1]), (''k'', [1])]\<rparr>)"
proof -
  have o: "mq_offsets NewMemoryQueue \<noteq> None" "(1::int) \<le> DefaultMaxAttempts"
    by (simp_all add: NewMemoryQueue_def DefaultMaxAttempts_def)
  have n: "\<not> alreadyProcessed \<lparr>co_topic = ''t'', co_groupID = ''g''\<rparr> \<lparr>m_Seq = 0, m_Key = ''k'', m_Value = [1]\<rparr> NewMemoryQueue"
    by (simp add: alreadyProcessed_def offsetOf_def NewMemoryQueue_def)
  have d: "deliveries DefaultMaxAttempts [HandlerRetry, HandlerRetry, HandlerOk, HandlerPermanent] = 3"
    by (simp add: deliveries_def DefaultMaxAttempts_def)
  show ?thesis
    using process_attempts [OF o, of "\<lparr>co_topic = ''t'', co_groupID = ''g''\<rparr>"
        "\<lparr>m_Seq = 0, m_Key = ''k'', m_Value = [1]\<rparr>"
        "\<lparr>sw_script = [HandlerRetry, HandlerRetry, HandlerOk, HandlerPermanent], sw_calls = []\<rparr>"] n
    by (auto simp: d callOf_def numeral_3_eq_3)
qed

text \<open>
  Runs of consecutive messages.  \<open>M i\<close> is the message with number \<open>i\<close>; delivering those from
  \<open>a\<close> to \<open>b\<close> hands over the ones from the offset on, once each, in order.
\<close>

definition okWorld :: "(string \<times> bytes) list \<Rightarrow> script_world" where
  "okWorld calls = \<lparr>sw_script = [], sw_calls = calls\<rparr>"

lemma process_ok:
  assumes "mq_offsets mq \<noteq> None" and "1 \<le> maxA"
  shows "\<exists>mq'. process scriptEnv maxA c m mq (okWorld calls) = Some (True, mq',
      okWorld (calls @ (if m_Seq m < offsetOf (co_groupID c) (co_topic c) mq then [] else [callOf m]))) \<and>
    mq_offsets mq' \<noteq> None \<and> mq_topics mq' = mq_topics mq \<and>
    offsetOf (co_groupID c) (co_topic c) mq' = max (offsetOf (co_groupID c) (co_topic c) mq) (m_Seq m + 1)"
proof -
  obtain mq' n where p: "process scriptEnv maxA c m mq (okWorld calls) = Some (True, mq',
        (okWorld calls)\<lparr>sw_script := drop n (sw_script (okWorld calls)),
          sw_calls := sw_calls (okWorld calls) @ replicate n (callOf m)\<rparr>)"
      "n = (if alreadyProcessed c m mq then 0 else deliveries maxA (sw_script (okWorld calls)))"
      "mq_offsets mq' \<noteq> None" "mq_topics mq' = mq_topics mq"
      "offsetOf (co_groupID c) (co_topic c) mq' = max (offsetOf (co_groupID c) (co_topic c) mq) (m_Seq m + 1)"
    using process_attempts' [OF assms, of c m "okWorld calls"] by blast
  have "n = (if m_Seq m < offsetOf (co_groupID c) (co_topic c) mq then 0 else 1)"
    using p(2) assms(2) by (simp add: alreadyProcessed_def deliveries_def okWorld_def)
  then show ?thesis using p by (intro exI [of _ mq']) (auto simp: okWorld_def)
qed

lemma receive_range:
  assumes M: "\<And>i. m_Seq (M i) = i" and maxA: "1 \<le> maxA"
  shows "mq_offsets mq \<noteq> None \<Longrightarrow> q0 = offsetOf (co_groupID c) (co_topic c) mq \<Longrightarrow>
    \<exists>mq'. replayAll scriptEnv maxA c (map M [a ..< b]) mq (okWorld calls)
        = Some (mq', okWorld (calls @ map (\<lambda>i. callOf (M i)) [max q0 a ..< b])) \<and>
      receiveAll scriptEnv maxA c (map M [a ..< b]) mq (okWorld calls)
        = Some (mq', okWorld (calls @ map (\<lambda>i. callOf (M i)) [max q0 a ..< b])) \<and>
      mq_offsets mq' \<noteq> None \<and>
      offsetOf (co_groupID c) (co_topic c) mq' = (if a < b then max q0 b else q0)"
proof (induction "b - a" arbitrary: a mq q0 calls)
  case 0
  then show ?case by auto
next
  case (Suc n)
  then have ab: "a < b" and n: "n = b - (a + 1)" by auto
  obtain mq1 where p: "process scriptEnv maxA c (M a) mq (okWorld calls) = Some (True, mq1,
        okWorld (calls @ (if a < q0 then [] else [callOf (M a)])))"
      "mq_offsets mq1 \<noteq> None" "offsetOf (co_groupID c) (co_topic c) mq1 = max q0 (a + 1)"
    using process_ok [OF Suc.prems(1) maxA, of c "M a" calls] Suc.prems(2) by (auto simp: M)
  obtain mq2 where q: "replayAll scriptEnv maxA c (map M [a + 1 ..< b]) mq1
          (okWorld (calls @ (if a < q0 then [] else [callOf (M a)])))
        = Some (mq2, okWorld ((calls @ (if a < q0 then [] else [callOf (M a)]))
            @ map (\<lambda>i. callOf (M i)) [max (max q0 (a + 1)) (a + 1) ..< b]))"
      "receiveAll scriptEnv maxA c (map M [a + 1 ..< b]) mq1
          (okWorld (calls @ (if a < q0 then [] else [callOf (M a)])))
        = Some (mq2, okWorld ((calls @ (if a < q0 then [] else [callOf (M a)]))
            @ map (\<lambda>i. callOf (M i)) [max (max q0 (a + 1)) (a + 1) ..< b]))"
      "mq_offsets mq2 \<noteq> None"
      "offsetOf (co_groupID c) (co_topic c) mq2 = (if a + 1 < b then max (max q0 (a + 1)) b else max q0 (a + 1))"
    using Suc.hyps(1) [OF n p(2) p(3) [symmetric]] by blast
  have calls: "(if a < q0 then [] else [callOf (M a)]) @ map (\<lambda>i. callOf (M i)) [max (max q0 (a + 1)) (a + 1) ..< b]
      = map (\<lambda>i. callOf (M i)) [max q0 a ..< b]"
  proof (cases "a < q0")
    case True
    then have "max (max q0 (a + 1)) (a + 1) = max q0 a" by simp
    then show ?thesis using True by simp
  next
    case False
    then show ?thesis using ab by (simp add: upt_conv_Cons max_def)
  qed
  have off: "(if a + 1 < b then max (max q0 (a + 1)) b else max q0 (a + 1)) = max q0 b"
    using ab by auto
  have "[a ..< b] = a # [a + 1 ..< b]" using ab by (simp add: upt_conv_Cons)
  then show ?case using p(1) q ab calls off
    by (intro exI [of _ mq2]) (simp add: scriptEnv_def)
qed

lemma filter_upt: "h \<le> q \<Longrightarrow> filter (\<lambda>i. i \<ge> q) [h ..< n] = [q ..< n]" for h q n :: nat
  by (induction n) (auto simp: le_Suc_eq)



text \<open>The queue is not an at-least-once queue: a message that finds the channel of a consumer
  full is not put into it, and as soon as the consumer acknowledges a later message it counts
  as processed and is never replayed.\<close>

theorem dropped_message_lost:
  assumes "mq_topics mq topic = Some ts" and "marshal v = Some data" and "\<not> mq_stopped mq"
    and "i < length (ts_Consumers ts)" and "cs_Cap (ts_Consumers ts ! i) \<le> length (cs_Ch (ts_Consumers ts ! i))"
    and "m = \<lparr>m_Seq = ts_NextSeq ts, m_Key = key, m_Value = data\<rparr>"
    and "m_Seq m < m_Seq m2" and "co_topic c = topic" and "advanceOffset c m2 mq1 = Some mq2"
  shows "\<exists>ts'. mq_topics (ProduceValue marshal topic key v mq) topic = Some ts' \<and>
      ts_Consumers ts' ! i = ts_Consumers ts ! i \<and>
    alreadyProcessed c m mq2 \<and> m \<notin> set (replayMessages c mq2)"
proof -
  have "offsetOf (co_groupID c) (co_topic c) mq2 \<ge> m_Seq m2 + 1"
    using assms(9) by (auto simp: advanceOffset_def offsetOf_def Let_def split: option.splits if_splits)
  then have lt: "m_Seq m < offsetOf (co_groupID c) (co_topic c) mq2" using assms(7) by simp
  have "ts_Consumers (produceTo key data ts) ! i = ts_Consumers ts ! i"
    using assms(4,5) by (simp add: produceTo_def pushMessage_def Let_def offer_def)
  moreover have "mq_topics (ProduceValue marshal topic key v mq) topic = Some (produceTo key data ts)"
    using assms(1-3) by (simp add: ProduceValue_def getOrCreateTopic_def)
  ultimately show ?thesis
    using lt by (auto simp: alreadyProcessed_def replayMessages_def split: option.splits)
qed

text \<open>A channel with one place: the second message is dropped, the third acknowledged.\<close>

definition busyQueue :: memory_queue where
  "busyQueue = NewMemoryQueue\<lparr>mq_topics := [''t'' \<mapsto> (emptyTopic 4)\<lparr>ts_NextSeq := 1, ts_Consumers :=
     [\<lparr>cs_GroupID = ''g'', cs_Offset = 0, cs_Ch = [\<lparr>m_Seq = 0, m_Key = ''k0'', m_Value = []\<rparr>], cs_Cap = 1\<rparr>]\<rparr>]\<rparr>"

theorem dropped_message_lost_witness:
  "\<exists>mq2. advanceOffset \<lparr>co_topic = ''t'', co_groupID = ''g''\<rparr> \<lparr>m_Seq = 2, m_Key = ''k2'', m_Value = []\<rparr> busyQueue = Some mq2 \<and>
    alreadyProcessed \<lparr>co_topic = ''t'', co_groupID = ''g''\<rparr> \<lparr>m_Seq = 1, m_Key = ''k1'', m_Value = []\<rparr> mq2"
proof -
  let ?c = "\<lparr>co_topic = ''t'', co_groupID = ''g''\<rparr>" and ?m = "\<lparr>m_Seq = 1, m_Key = ''k1'', m_Value = []\<rparr>"
  let ?m2 = "\<lparr>m_Seq = 2, m_Key = ''k2'', m_Value = []\<rparr>"
  let ?ts = "the (mq_topics busyQueue ''t'')"
  have "mq_offsets busyQueue \<noteq> None" by (simp add: busyQueue_def NewMemoryQueue_def)
  then obtain mq2 where a: "advanceOffset ?c ?m2 busyQueue = Some mq2" using advanceOffset_ok by blast
  have "\<exists>ts'. mq_topics (ProduceValue Some ''t'' ''k1'' [] busyQueue) ''t'' = Some ts' \<and>
      ts_Consumers ts' ! 0 = ts_Consumers ?ts ! 0 \<and> alreadyProcessed ?c ?m mq2 \<and> ?m \<notin> set (replayMessages ?c mq2)"
    by (rule dropped_message_lost [OF _ _ _ _ _ _ _ _ a]) (simp_all add: busyQueue_def NewMemoryQueue_def)
  then show ?thesis using a by blast
qed

section \<open>Inspection\<close>

record group_summary =
  gs_GroupID :: string
  gs_State :: string

record topic_detail =
  td_Topic :: string
  td_CurrentOffset :: int
  td_EndOffset :: int
  td_Lag :: int

definition groupsOf :: "memory_queue \<Rightarrow> string set" where
  "groupsOf mq = (\<Union>ts \<in> ran (mq_topics mq). cs_GroupID ` set (ts_Consumers ts))"

definition ListConsumerGroups :: "memory_queue \<Rightarrow> group_summary list" where
  "ListConsumerGroups mq = map (\<lambda>g. \<lparr>gs_GroupID = g, gs_State = ''Stable''\<rparr>) (sorted_list_of_set (groupsOf mq))"

definition topicsOfGroup :: "string \<Rightarrow> memory_queue \<Rightarrow> string set" where
  "topicsOfGroup g mq = {topic. \<exists>ts. mq_topics mq topic = Some ts \<and> g \<in> cs_GroupID ` set (ts_Consumers ts)}"

definition DescribeConsumerGroup :: "string \<Rightarrow> memory_queue \<Rightarrow> topic_detail list" where
  "DescribeConsumerGroup g mq = map (\<lambda>topic.
     (let off = int (offsetOf g topic mq);
          endo = (case mq_topics mq topic of None \<Rightarrow> 0 | Some ts \<Rightarrow> int (ts_NextSeq ts)) in
      \<lparr>td_Topic = topic, td_CurrentOffset = off, td_EndOffset = endo, td_Lag = max (endo - off) 0\<rparr>))
     (sorted_list_of_set (topicsOfGroup g mq))"

definition ListTopics :: "memory_queue \<Rightarrow> string list" where
  "ListTopics mq = sorted_list_of_set (dom (mq_topics mq))"

end
