(* ===== verification/FtsLexer.thy ===== *)
theory FtsLexer
  imports Prelude "HOL-Library.Monad_Syntax"
begin

text \<open>
  The lexer and the tokenizer of the full-text search: \<open>src/internal/database/fts/lexer_base.go\<close>,
  \<open>lexer.go\<close> and \<open>tokenizer.go\<close>.

  \<^item> Text is a list of runes (\<open>nat\<close>), as the code's \<open>bufio.Reader\<close> delivers it.
  \<^item> \<open>Backup\<close> panics unless the last operation on the reader was a successful read, and
    \<open>ReadInt\<close> panics when the digits do not fit; every operation therefore returns an
    \<open>option\<close> (\<open>None\<close> is the panic) of its result and the lexer it leaves.
  \<^item> The classes and cases of runes are written out for ASCII; above it Go's Unicode tables are
    the parameter \<open>unicode\<close>, and the transliteration tables of the package \<open>unidecode\<close> are
    the parameter \<open>xlit\<close>.

  The lemmas give each operation's effect on the unread input; the reference \<open>wordRuns\<close> says what
  the tokenizer computes.
\<close>

section \<open>Runes\<close>

type_synonym rune = nat
type_synonym runes = "rune list"

definition runes_of :: "string \<Rightarrow> runes" where
  "runes_of s = map of_char s"

lemma runes_of_simps [simp]:
  "runes_of [] = []" "runes_of (c # cs) = of_char c # runes_of cs"
  by (simp_all add: runes_of_def)

record unicode =
  u_letter :: "rune \<Rightarrow> bool"
  u_digit :: "rune \<Rightarrow> bool"
  u_lower :: "rune \<Rightarrow> rune"
  u_upper :: "rune \<Rightarrow> rune"

definition IsLetter :: "unicode \<Rightarrow> rune \<Rightarrow> bool" where
  "IsLetter u r =
    (if r < 128 then 65 \<le> r \<and> r \<le> 90 \<or> 97 \<le> r \<and> r \<le> 122 else u_letter u r)"

definition IsDigit :: "unicode \<Rightarrow> rune \<Rightarrow> bool" where
  "IsDigit u r = (if r < 128 then 48 \<le> r \<and> r \<le> 57 else u_digit u r)"

definition ToLower :: "unicode \<Rightarrow> rune \<Rightarrow> rune" where
  "ToLower u r = (if r < 128 then (if 65 \<le> r \<and> r \<le> 90 then r + 32 else r) else u_lower u r)"

definition ToUpper :: "unicode \<Rightarrow> rune \<Rightarrow> rune" where
  "ToUpper u r = (if r < 128 then (if 97 \<le> r \<and> r \<le> 122 then r - 32 else r) else u_upper u r)"

definition IsSpace :: "rune \<Rightarrow> bool" where
  "IsSpace r \<longleftrightarrow> r \<in> {9, 10, 11, 12, 13, 32, 133, 160, 5760, 8232, 8233, 8239, 8287, 12288}
    \<or> 8192 \<le> r \<and> r \<le> 8202"

definition TrimSpace :: "runes \<Rightarrow> runes" where
  "TrimSpace s = rev (dropWhile IsSpace (rev (dropWhile IsSpace s)))"

text \<open>\<open>strings.ReplaceAll\<close> of a single rune.\<close>

definition ReplaceRune :: "rune \<Rightarrow> runes \<Rightarrow> runes \<Rightarrow> runes" where
  "ReplaceRune c new s = concat (map (\<lambda>r. if r = c then new else [r]) s)"

section \<open>The lexer\<close>

text \<open>\<open>lx_last\<close> is the rune the reader would unread, if there is one.\<close>

record lexer =
  lx_pos :: int
  lx_last :: "rune option"
  lx_rest :: runes

definition NewLexer :: "runes \<Rightarrow> lexer" where
  "NewLexer s = \<lparr>lx_pos = 0, lx_last = None, lx_rest = s\<rparr>"

definition Read :: "lexer \<Rightarrow> rune option \<times> lexer" where
  "Read l = (case lx_rest l of
     [] \<Rightarrow> (None, l\<lparr>lx_last := None\<rparr>)
   | r # rs \<Rightarrow> (Some r, l\<lparr>lx_pos := lx_pos l + 1, lx_last := Some r, lx_rest := rs\<rparr>))"

definition Backup :: "lexer \<Rightarrow> lexer option" where
  "Backup l = (case lx_last l of
     None \<Rightarrow> None
   | Some r \<Rightarrow> Some (l\<lparr>lx_pos := lx_pos l - 1, lx_last := None, lx_rest := r # lx_rest l\<rparr>))"

definition IsEOF :: "lexer \<Rightarrow> (bool \<times> lexer) option" where
  "IsEOF l = (case Read l of
     (None, l') \<Rightarrow> Some (True, l')
   | (Some _, l') \<Rightarrow> do { l'' \<leftarrow> Backup l'; Some (False, l'') })"

definition ReadIf :: "(rune \<Rightarrow> bool) \<Rightarrow> lexer \<Rightarrow> (rune option \<times> lexer) option" where
  "ReadIf fn l = (case Read l of
     (None, l') \<Rightarrow> Some (None, l')
   | (Some r, l') \<Rightarrow>
       if \<not> fn r then do { l'' \<leftarrow> Backup l'; Some (None, l'') } else Some (Some r, l'))"

definition IsInt :: "rune \<Rightarrow> bool" where
  "IsInt r \<longleftrightarrow> 48 \<le> r \<and> r \<le> 57"

definition IsChar :: "rune \<Rightarrow> rune \<Rightarrow> bool" where
  "IsChar r1 r2 \<longleftrightarrow> r1 = r2"

definition IsWordChar :: "unicode \<Rightarrow> rune \<Rightarrow> bool" where
  "IsWordChar u r \<longleftrightarrow> IsLetter u r \<or> IsDigit u r"

definition IsNonWordChar :: "unicode \<Rightarrow> rune \<Rightarrow> bool" where
  "IsNonWordChar u r \<longleftrightarrow> \<not> IsWordChar u r"

definition ReadChar :: "rune \<Rightarrow> lexer \<Rightarrow> (bool \<times> lexer) option" where
  "ReadChar r l = do { (x, l') \<leftarrow> ReadIf (IsChar r) l; Some (x \<noteq> None, l') }"

text \<open>What the reader holds after a read, and after a read that was taken back.\<close>

definition advanced :: "lexer \<Rightarrow> lexer" where
  "advanced l =
    l\<lparr>lx_pos := lx_pos l + 1, lx_last := Some (hd (lx_rest l)), lx_rest := tl (lx_rest l)\<rparr>"

definition kept :: "lexer \<Rightarrow> lexer" where
  "kept l = l\<lparr>lx_last := None\<rparr>"

lemma lexer_sel [simp]:
  "lx_rest (NewLexer s) = s" "lx_pos (NewLexer s) = 0" "lx_rest (advanced l) = tl (lx_rest l)"
  "lx_rest (kept l) = lx_rest l" "lx_pos (kept l) = lx_pos l" "lx_pos (advanced l) = lx_pos l + 1"
  "kept (kept l) = kept l"
  by (simp_all add: NewLexer_def advanced_def kept_def)

lemma Read_simps [simp]:
  "lx_rest l = [] \<Longrightarrow> Read l = (None, kept l)"
  "lx_rest l = r # rs \<Longrightarrow> Read l = (Some r, advanced l)"
  by (simp_all add: Read_def advanced_def kept_def)

lemma Backup_advanced [simp]:
  "lx_rest l = r # rs \<Longrightarrow> Backup (advanced l) = Some (kept l)"
  by (cases l) (simp add: Backup_def advanced_def kept_def)

lemma IsEOF_eq [simp]: "IsEOF l = Some (lx_rest l = [], kept l)"
  by (cases "lx_rest l") (simp_all add: IsEOF_def)

lemma ReadIf_simps [simp]:
  "lx_rest l = [] \<Longrightarrow> ReadIf fn l = Some (None, kept l)"
  "lx_rest l = r # rs \<Longrightarrow> fn r \<Longrightarrow> ReadIf fn l = Some (Some r, advanced l)"
  "lx_rest l = r # rs \<Longrightarrow> \<not> fn r \<Longrightarrow> ReadIf fn l = Some (None, kept l)"
  by (simp_all add: ReadIf_def)

lemma ReadChar_simps [simp]:
  "lx_rest l = [] \<Longrightarrow> ReadChar c l = Some (False, kept l)"
  "lx_rest l = r # rs \<Longrightarrow>
    ReadChar c l = (if r = c then Some (True, advanced l) else Some (False, kept l))"
  by (simp_all add: ReadChar_def IsChar_def)

lemma ReadIf_shorter:
  "ReadIf fn l = Some (Some r, l') \<Longrightarrow> length (lx_rest l') < length (lx_rest l)"
  by (cases "lx_rest l"; cases "fn (hd (lx_rest l))") auto

lemma ReadIf_None: "ReadIf fn l = Some (None, l') \<Longrightarrow> l' = kept l"
  by (cases "lx_rest l"; cases "fn (hd (lx_rest l))") auto

lemma Read_shorter: "lx_rest l \<noteq> [] \<Longrightarrow> length (lx_rest (snd (Read l))) < length (lx_rest l)"
  by (cases "lx_rest l") auto

function ReadWhile :: "(rune \<Rightarrow> bool) \<Rightarrow> lexer \<Rightarrow> (runes \<times> lexer) option" where
  "ReadWhile fn l = (case ReadIf fn l of
     None \<Rightarrow> None
   | Some (None, l') \<Rightarrow> Some ([], l')
   | Some (Some r, l') \<Rightarrow> do { (s, l'') \<leftarrow> ReadWhile fn l'; Some (r # s, l'') })"
  by pat_completeness auto
termination
  by (relation "measure (\<lambda>(fn, l). length (lx_rest l))") (auto simp: ReadIf_shorter)

declare ReadWhile.simps [simp del]

text \<open>The lexer after \<open>n\<close> runes were read and the next one was taken back.\<close>

definition jumped :: "nat \<Rightarrow> lexer \<Rightarrow> lexer" where
  "jumped n l = l\<lparr>lx_pos := lx_pos l + int n, lx_last := None, lx_rest := drop n (lx_rest l)\<rparr>"

lemma jumped_sel [simp]:
  "lx_rest (jumped n l) = drop n (lx_rest l)" "lx_pos (jumped n l) = lx_pos l + int n"
  "jumped 0 l = kept l"
  by (simp_all add: jumped_def kept_def)

lemma jumped_advanced:
  "lx_rest l = r # rs \<Longrightarrow> jumped n (advanced l) = jumped (Suc n) l"
  by (cases l) (simp add: jumped_def advanced_def)

lemma ReadWhile_eq [simp]:
  "ReadWhile fn l = Some (takeWhile fn (lx_rest l), jumped (length (takeWhile fn (lx_rest l))) l)"
proof (induction "lx_rest l" arbitrary: l)
  case Nil
  then show ?case by (simp add: ReadWhile.simps [of fn l])
next
  case (Cons r rs)
  show ?case
  proof (cases "fn r")
    case True
    have "ReadWhile fn (advanced l) = Some (takeWhile fn rs, jumped (length (takeWhile fn rs)) (advanced l))"
      using Cons.hyps(1) [of "advanced l"] by (simp add: Cons.hyps(2) [symmetric])
    with True show ?thesis
      by (simp add: ReadWhile.simps [of fn l] Cons.hyps(2) [symmetric] jumped_advanced)
  next
    case False
    then show ?thesis by (simp add: ReadWhile.simps [of fn l] Cons.hyps(2) [symmetric])
  qed
qed

lemma drop_takeWhile [simp]: "drop (length (takeWhile P xs)) xs = dropWhile P xs"
  by (induction xs) auto

text \<open>\<open>strconv.Atoi\<close> on a list of digits; it fails outside 64 bits.\<close>

definition Atoi :: "runes \<Rightarrow> int option" where
  "Atoi s = (let n = foldl (\<lambda>a r. 10 * a + (int r - 48)) 0 s in if n < 2 ^ 63 then Some n else None)"

definition ReadInt :: "lexer \<Rightarrow> (int option \<times> lexer) option" where
  "ReadInt l = do {
     (s, l') \<leftarrow> ReadWhile IsInt l;
     if s = [] then Some (None, l')
     else do { n \<leftarrow> Atoi s; Some (Some n, l') } }"

datatype fts_error =
  MissingOpeningQuote | UnexpectedEOF | UnexpectedCharacter | EmptyQuotedString | MissingPosition
| InvalidType | ErrorAt int fts_error

text \<open>The error comes with the text read so far, which one caller uses.\<close>

function quotedLoop :: "rune \<Rightarrow> runes \<Rightarrow> lexer \<Rightarrow> ((runes \<times> fts_error option) \<times> lexer) option" where
  "quotedLoop q str l = (case Read l of
     (None, l1) \<Rightarrow> Some ((str, Some UnexpectedEOF), l1)
   | (Some ch, l1) \<Rightarrow>
       if ch = q then
         (case ReadChar q l1 of
            None \<Rightarrow> None
          | Some (again, l2) \<Rightarrow>
              if \<not> again then Some ((str, None), l2) else quotedLoop q (str @ [ch]) l2)
       else quotedLoop q (str @ [ch]) l1)"
  by pat_completeness auto
termination
proof (relation "measure (\<lambda>(q, str, l). length (lx_rest l))", goal_cases)
  case (2 q str l x l1 ch y again l2)
  then show ?case by (cases "lx_rest l"; cases "lx_rest l1") (auto split: if_splits)
next
  case (3 q str l x l1 ch)
  then show ?case by (cases "lx_rest l") auto
qed simp

declare quotedLoop.simps [simp del]

definition readQuotedString :: "rune \<Rightarrow> lexer \<Rightarrow> ((runes \<times> fts_error option) \<times> lexer) option" where
  "readQuotedString q l = do {
     (opened, l') \<leftarrow> ReadChar q l;
     if \<not> opened then Some (([], Some MissingOpeningQuote), l') else quotedLoop q [] l' }"

text \<open>What a quoted string holds, whether it ends, and what follows it.\<close>

fun quotedText :: "rune \<Rightarrow> runes \<Rightarrow> runes \<times> fts_error option \<times> runes" where
  "quotedText q [] = ([], Some UnexpectedEOF, [])"
| "quotedText q (c # cs) =
    (if c = q then
       (case cs of
          d # ds \<Rightarrow> if d = q then apfst ((#) q) (quotedText q ds) else ([], None, cs)
        | [] \<Rightarrow> ([], None, []))
     else apfst ((#) c) (quotedText q cs))"

lemma quotedLoop_eq:
  "\<exists>l'. quotedLoop q str l =
      Some ((str @ fst (quotedText q (lx_rest l)), fst (snd (quotedText q (lx_rest l)))), l') \<and>
    lx_rest l' = snd (snd (quotedText q (lx_rest l)))"
proof (induction q "lx_rest l" arbitrary: str l rule: quotedText.induct)
  case (1 q)
  then show ?case by (subst quotedLoop.simps) simp
next
  case (2 q c cs)

  note rest = 2(3) [symmetric]
  consider (other) "c \<noteq> q" | (finish) "c = q" "cs = []" | (stop) d ds where "c = q" "cs = d # ds" "d \<noteq> q"
    | (twice) ds where "c = q" "cs = q # ds"
    by (cases cs) auto
  then show ?case
  proof cases
    case other
    with 2(2) [of "advanced l" "str @ [c]"] rest show ?thesis
      by (subst quotedLoop.simps) (simp add: apfst_def map_prod_def split_beta)
  next
    case finish
    with rest show ?thesis by (subst quotedLoop.simps) simp
  next
    case stop
    with rest show ?thesis by (subst quotedLoop.simps) simp
  next
    case twice
    with 2(1) [of q "advanced (advanced l)" "str @ [c]"] rest show ?thesis
      by (subst quotedLoop.simps) (simp add: apfst_def map_prod_def split_beta)
  qed
qed

lemma readQuotedString_eq:
  "lx_rest l = q # s \<Longrightarrow>
    \<exists>l'. readQuotedString q l = Some ((fst (quotedText q s), fst (snd (quotedText q s))), l') \<and>
      lx_rest l' = snd (snd (quotedText q s))"
  using quotedLoop_eq [of q "[]" "advanced l"] by (simp add: readQuotedString_def)

lemma readQuotedString_missing:
  "lx_rest l = [] \<or> hd (lx_rest l) \<noteq> q \<Longrightarrow>
    readQuotedString q l = Some (([], Some MissingOpeningQuote), kept l)"
  by (cases "lx_rest l") (simp_all add: readQuotedString_def)

lemma quotedText_rest_shorter: "length (snd (snd (quotedText q s))) \<le> length s"
proof (induction q s rule: quotedText.induct)
  case (2 q c cs)
  then show ?case by (cases cs) (auto simp: le_SucI)
qed simp

lemma ReplaceRune_simps [simp]:
  "ReplaceRune c new [] = []"
  "ReplaceRune c new (r # rs) = (if r = c then new else [r]) @ ReplaceRune c new rs"
  by (simp_all add: ReplaceRune_def)

lemma quotedText_escaped:
  assumes "r = [] \<or> hd r \<noteq> q"
  shows "quotedText q (ReplaceRune q [q, q] s @ q # r) = (s, None, r)"
proof (induction s)
  case Nil
  with assms show ?case by (cases r) simp_all
qed simp

section \<open>The tokenizer\<close>

text \<open>\<open>table.Tables\<close> of the package \<open>unidecode\<close>: a section's substitutions, by position.\<close>

type_synonym xlit = "nat \<Rightarrow> runes list option"

text \<open>
  The locals of \<open>readPhrase\<close>: the phrase and the lexeme being read.  \<open>breakWord\<close> and \<open>appendStr\<close>
  are its two closures.
\<close>

definition breakWord :: "runes list \<times> runes \<Rightarrow> runes list \<times> runes" where
  "breakWord = (\<lambda>(phrase, lexeme). if lexeme \<noteq> [] then (phrase @ [lexeme], []) else (phrase, lexeme))"

definition appendStr :: "runes \<Rightarrow> runes list \<times> runes \<Rightarrow> runes list \<times> runes" where
  "appendStr str = (\<lambda>(phrase, lexeme). (phrase, lexeme @ str))"

definition substitution :: "runes \<Rightarrow> runes" where
  "substitution s = TrimSpace (ReplaceRune 92 (runes_of ''_bs_'') (ReplaceRune 39 (runes_of ''_sq_'') s))"

definition wordRune :: "unicode \<Rightarrow> xlit \<Rightarrow> rune \<Rightarrow> runes list \<times> runes \<Rightarrow> runes list \<times> runes" where
  "wordRune u tables r st = (let ch = ToLower u r in
     if ch < 127 then appendStr [ch] st
     else (let isNonBreakingLang = 0x1FFF < ch;
               st1 = (if isNonBreakingLang then breakWord st else st);
               sec = ch div 256; position = ch mod 256 in
           (case tables sec of
              None \<Rightarrow> st1
            | Some tb \<Rightarrow>
                if position < length tb then
                  (let subst = substitution (tb ! position); st2 = appendStr subst st1 in
                   if isNonBreakingLang \<or> subst = [] \<or> last subst = 32 then breakWord st2 else st2)
                else st1)))"

function phraseLoop ::
  "unicode \<Rightarrow> xlit \<Rightarrow> runes list \<times> runes \<Rightarrow> lexer \<Rightarrow> (runes list \<times> lexer) option" where
  "phraseLoop u tables st l = (case IsEOF l of
     None \<Rightarrow> None
   | Some (True, l1) \<Rightarrow> Some (fst (breakWord st), l1)
   | Some (False, l1) \<Rightarrow>
       (case ReadIf (IsWordChar u) l1 of
          None \<Rightarrow> None
        | Some (Some ch, l2) \<Rightarrow> phraseLoop u tables (wordRune u tables ch st) l2
        | Some (None, l2) \<Rightarrow>
            (let st' = breakWord st in
             if fst st' \<noteq> [] then Some (fst st', l2)
             else phraseLoop u tables st' (snd (Read l2)))))"
  by pat_completeness auto
termination
  by (relation "measure (\<lambda>(u, tables, st, l). length (lx_rest l))")
    (auto dest!: ReadIf_None dest: ReadIf_shorter simp: Read_shorter [of "kept _", simplified])

declare phraseLoop.simps [simp del]

definition readPhrase :: "unicode \<Rightarrow> xlit \<Rightarrow> lexer \<Rightarrow> (runes list \<times> lexer) option" where
  "readPhrase u tables l = phraseLoop u tables ([], []) l"

text \<open>\<open>readPhrase\<close> on the unread input alone: the phrase, and what is left.\<close>

fun phraseOf :: "unicode \<Rightarrow> xlit \<Rightarrow> runes list \<times> runes \<Rightarrow> runes \<Rightarrow> runes list \<times> runes" where
  "phraseOf u t st [] = (fst (breakWord st), [])"
| "phraseOf u t st (c # cs) =
    (if IsWordChar u c then phraseOf u t (wordRune u t c st) cs
     else if fst (breakWord st) \<noteq> [] then (fst (breakWord st), c # cs)
     else phraseOf u t (breakWord st) cs)"

lemma phraseLoop_eq:
  "\<exists>l'. phraseLoop u t st l = Some (fst (phraseOf u t st (lx_rest l)), l') \<and>
    lx_rest l' = snd (phraseOf u t st (lx_rest l))"
proof (induction u t st "lx_rest l" arbitrary: l rule: phraseOf.induct)
  case (1 u t st)
  then show ?case by (subst phraseLoop.simps) simp
next
  case (2 u t st c cs)
  note rest = 2(3) [symmetric]
  show ?case
  proof (cases "IsWordChar u c")
    case True
    with 2(1) [of "advanced (kept l)"] rest show ?thesis
      by (subst phraseLoop.simps) simp
  next
    case False
    with 2(2) [of "advanced (kept l)"] rest show ?thesis
      by (subst phraseLoop.simps) (simp add: Let_def)
  qed
qed

lemma breakWord_empty: "fst (breakWord st) = [] \<Longrightarrow> breakWord st = ([], [])"
  by (cases st) (auto simp: breakWord_def split: if_splits)

lemma phraseOf_run:
  "phraseOf u t st s =
    (let words = fst (breakWord (fold (wordRune u t) (takeWhile (IsWordChar u) s) st)) in
     if words \<noteq> [] then (words, dropWhile (IsWordChar u) s)
     else (case dropWhile (IsWordChar u) s of
             [] \<Rightarrow> ([], []) | c # cs \<Rightarrow> phraseOf u t ([], []) cs))"
  by (induction s arbitrary: st) (auto simp: Let_def breakWord_empty)

lemma phraseOf_shorter:
  "length (snd (phraseOf u t st s)) \<le> length s"
  "fst (phraseOf u t ([], []) s) \<noteq> [] \<Longrightarrow> length (snd (phraseOf u t ([], []) s)) < length s"
proof -
  show le: "length (snd (phraseOf u t st s)) \<le> length s" for st s
    by (induction u t st s rule: phraseOf.induct) (auto simp: le_SucI)
  show "fst (phraseOf u t ([], []) s) \<noteq> [] \<Longrightarrow> length (snd (phraseOf u t ([], []) s)) < length s"
  proof (induction s)
    case Nil
    then show ?case by (simp add: breakWord_def)
  next
    case (Cons c cs)
    then show ?case
      using le [of "wordRune u t c ([], [])" cs]
      by (auto simp: breakWord_def less_Suc_eq_le split: if_splits)
  qed
qed

lemma readPhrase_eq:
  "\<exists>l'. readPhrase u t l = Some (fst (phraseOf u t ([], []) (lx_rest l)), l') \<and>
    lx_rest l' = snd (phraseOf u t ([], []) (lx_rest l))"
  by (simp add: readPhrase_def phraseLoop_eq)

lemma readPhrase_shorter:
  "readPhrase u t l = Some (phrase, l') \<Longrightarrow> phrase \<noteq> [] \<Longrightarrow> length (lx_rest l') < length (lx_rest l)"
  using readPhrase_eq [of u t l] phraseOf_shorter(2) by auto

function tokenizeLoop ::
  "unicode \<Rightarrow> xlit \<Rightarrow> runes list list \<Rightarrow> lexer \<Rightarrow> runes list list option" where
  "tokenizeLoop u tables tokens l = (case readPhrase u tables l of
     None \<Rightarrow> None
   | Some (phrase, l') \<Rightarrow>
       if phrase = [] then Some tokens else tokenizeLoop u tables (tokens @ [phrase]) l')"
  by pat_completeness auto
termination
  by (relation "measure (\<lambda>(u, tables, tokens, l). length (lx_rest l))") (auto intro: readPhrase_shorter)

declare tokenizeLoop.simps [simp del]

definition Tokenize :: "unicode \<Rightarrow> xlit \<Rightarrow> runes \<Rightarrow> runes list list option" where
  "Tokenize u tables str = tokenizeLoop u tables [] (NewLexer str)"

definition TokenizeFlat :: "unicode \<Rightarrow> xlit \<Rightarrow> runes \<Rightarrow> runes list option" where
  "TokenizeFlat u tables str = do { phrases \<leftarrow> Tokenize u tables str; Some (concat phrases) }"

text \<open>
  The reference: the maximal runs of word characters, each read for itself, those without a
  lexeme left out.
\<close>

function wordRuns :: "(rune \<Rightarrow> bool) \<Rightarrow> runes \<Rightarrow> runes list" where
  "wordRuns w s = (let s' = dropWhile (\<lambda>r. \<not> w r) s in
     if s' = [] then [] else takeWhile w s' # wordRuns w (dropWhile w s'))"
  by pat_completeness auto
termination
proof (relation "measure (\<lambda>(w, s). length s)", goal_cases)
  case (2 w s s')
  then have "w (hd s')" using hd_dropWhile [of "\<lambda>r. \<not> w r" s] by fastforce
  then have "length (dropWhile w s') < length s'"
    using 2(2) by (cases s') (simp_all add: less_Suc_eq_le length_dropWhile_le)
  also have "\<dots> \<le> length s" using 2 by (simp add: length_dropWhile_le)
  finally show ?case by simp
qed simp

declare wordRuns.simps [simp del]

definition runWords :: "unicode \<Rightarrow> xlit \<Rightarrow> runes \<Rightarrow> runes list" where
  "runWords u tables run = fst (breakWord (fold (wordRune u tables) run ([], [])))"

definition tokensOf :: "unicode \<Rightarrow> xlit \<Rightarrow> runes \<Rightarrow> runes list list" where
  "tokensOf u tables s =
    filter (\<lambda>ws. ws \<noteq> []) (map (runWords u tables) (wordRuns (IsWordChar u) s))"

lemma wordRuns_simps:
  "wordRuns w [] = []"
  "w c \<Longrightarrow> wordRuns w (c # cs) = (c # takeWhile w cs) # wordRuns w (dropWhile w cs)"
  "\<not> w c \<Longrightarrow> wordRuns w (c # cs) = wordRuns w cs"
proof -
  show "wordRuns w [] = []" by (subst wordRuns.simps) simp
  show "w c \<Longrightarrow> wordRuns w (c # cs) = (c # takeWhile w cs) # wordRuns w (dropWhile w cs)"
    by (subst wordRuns.simps) simp
  show "\<not> w c \<Longrightarrow> wordRuns w (c # cs) = wordRuns w cs"
    by (subst (1 2) wordRuns.simps) simp
qed

lemma runWords_empty [simp]: "runWords u t [] = []"
  by (simp add: runWords_def breakWord_def)

lemma tokensOf_phraseOf:
  "tokensOf u t s = (let (p, r) = phraseOf u t ([], []) s in if p = [] then [] else p # tokensOf u t r)"
proof (induction "length s" arbitrary: s rule: less_induct)
  case less
  let ?w = "IsWordChar u"
  show ?case
  proof (cases s)
    case Nil
    then show ?thesis by (simp add: tokensOf_def wordRuns_simps breakWord_def)
  next
    case (Cons c cs)
    show ?thesis
    proof (cases "?w c")
      case False
      with Cons less [of cs] show ?thesis
        by (simp add: tokensOf_def wordRuns_simps breakWord_def)
    next
      case True
      define r where "r = dropWhile ?w cs"
      have toks: "tokensOf u t s =
          (if runWords u t (c # takeWhile ?w cs) = [] then tokensOf u t r
           else runWords u t (c # takeWhile ?w cs) # tokensOf u t r)"
        using Cons True by (simp add: tokensOf_def wordRuns_simps r_def)
      have phrase: "phraseOf u t ([], []) s =
          (if runWords u t (c # takeWhile ?w cs) \<noteq> [] then (runWords u t (c # takeWhile ?w cs), r)
           else (case r of [] \<Rightarrow> ([], []) | d # ds \<Rightarrow> phraseOf u t ([], []) ds))"
        using Cons True by (subst phraseOf_run) (simp add: runWords_def Let_def r_def)
      show ?thesis
      proof (cases r)
        case Nil
        then have "tokensOf u t r = []" by (simp add: tokensOf_def wordRuns_simps)
        with Nil show ?thesis by (simp add: toks phrase)
      next
        case r: (Cons d ds)
        then have "\<not> ?w d" unfolding r_def by (metis hd_dropWhile list.distinct(1) list.sel(1))
        then have "tokensOf u t r = tokensOf u t ds" by (simp add: r tokensOf_def wordRuns_simps)
        moreover have "length ds < length s"
          using length_dropWhile_le [of ?w cs] r Cons by (simp add: r_def)
        ultimately show ?thesis using less [of ds] r by (simp add: toks phrase)
      qed
    qed
  qed
qed

lemma tokenizeLoop_eq: "tokenizeLoop u t tokens l = Some (tokens @ tokensOf u t (lx_rest l))"
proof (induction u t tokens l rule: tokenizeLoop.induct)
  case (1 u t tokens l)
  obtain l' where l': "readPhrase u t l = Some (fst (phraseOf u t ([], []) (lx_rest l)), l')"
    "lx_rest l' = snd (phraseOf u t ([], []) (lx_rest l))"
    using readPhrase_eq by blast
  show ?case
    using 1 [OF l'(1) refl] l' tokensOf_phraseOf [of u t "lx_rest l"]
    by (subst tokenizeLoop.simps) (auto simp: split_beta)
qed

lemma Tokenize_eq [simp]: "Tokenize u t s = Some (tokensOf u t s)"
  by (simp add: Tokenize_def tokenizeLoop_eq)

lemma TokenizeFlat_eq [simp]: "TokenizeFlat u t s = Some (concat (tokensOf u t s))"
  by (simp add: TokenizeFlat_def)

section \<open>What the tokens are\<close>

lemma wordRuns_sound: "run \<in> set (wordRuns w s) \<Longrightarrow> run \<noteq> [] \<and> (\<forall>r\<in>set run. w r) \<and> set run \<subseteq> set s"
proof (induction w s rule: wordRuns.induct)
  case (1 w s)
  let ?s = "dropWhile (\<lambda>r. \<not> w r) s"
  from 1(2) have ne: "?s \<noteq> []"
    by (subst (asm) wordRuns.simps) (auto simp: Let_def split: if_splits)
  have step: "wordRuns w s = takeWhile w ?s # wordRuns w (dropWhile w ?s)"
    by (subst wordRuns.simps) (simp only: Let_def ne if_False)
  have sub: "set ?s \<subseteq> set s" "set (dropWhile w ?s) \<subseteq> set ?s" "set (takeWhile w ?s) \<subseteq> set ?s"
    by (meson set_dropWhileD subsetI, meson set_dropWhileD subsetI, meson set_takeWhileD subsetI)
  from 1(2) consider "run = takeWhile w ?s" | "run \<in> set (wordRuns w (dropWhile w ?s))"
    unfolding step by auto
  then show ?case
  proof cases
    case 1
    moreover have "w (hd ?s)" using ne hd_dropWhile by blast
    ultimately show ?thesis
      using ne sub(1,3) by (cases ?s) (auto dest: set_takeWhileD)
  next
    case 2
    from 1(1) [OF refl ne this] sub show ?thesis by blast
  qed
qed

lemma ToLower_ascii: "r < 127 \<Longrightarrow> ToLower u r < 127"
  by (auto simp: ToLower_def)

lemma runWords_ascii:
  assumes "run \<noteq> []" "\<forall>r\<in>set run. r < 127"
  shows "runWords u t run = [map (ToLower u) run]"
proof -
  have "fold (wordRune u t) run (p, x) = (p, x @ map (ToLower u) run)" for p x
    using assms(2)
    by (induction run arbitrary: x) (auto simp: wordRune_def appendStr_def Let_def ToLower_ascii)
  with assms(1) show ?thesis by (simp add: runWords_def breakWord_def)
qed

lemma tokensOf_ascii:
  assumes "\<forall>r\<in>set s. r < 127"
  shows "tokensOf u t s = map (\<lambda>run. [map (ToLower u) run]) (wordRuns (IsWordChar u) s)"
proof -
  have "runWords u t run = [map (ToLower u) run]" if "run \<in> set (wordRuns (IsWordChar u) s)" for run
    using wordRuns_sound [OF that] assms by (intro runWords_ascii) auto
  then have "map (runWords u t) (wordRuns (IsWordChar u) s) =
      map (\<lambda>run. [map (ToLower u) run]) (wordRuns (IsWordChar u) s)"
    by (intro map_cong) auto
  then show ?thesis by (simp only: tokensOf_def) (simp add: filter_map comp_def)
qed

text \<open>
  Go's tables keep a letter or a digit one when they change its case; only this is relied upon.
\<close>

definition unicode_ok :: "unicode \<Rightarrow> bool" where
  "unicode_ok u \<longleftrightarrow> (\<forall>r. IsWordChar u r \<longrightarrow> IsWordChar u (ToLower u r))"

text \<open>A lexeme needs no escape: it is not empty and has no quote and no backslash.\<close>

definition plain :: "runes \<Rightarrow> bool" where
  "plain w \<longleftrightarrow> 39 \<notin> set w \<and> 92 \<notin> set w"

lemma plain_Nil [simp]: "plain []"
  by (simp add: plain_def)

lemma TrimSpace_subset: "set (TrimSpace s) \<subseteq> set s"
  unfolding TrimSpace_def by (auto dest!: set_dropWhileD)

lemma plain_substitution: "plain (substitution s)"
proof -
  have "plain (ReplaceRune 92 (runes_of ''_bs_'') (ReplaceRune 39 (runes_of ''_sq_'') s))"
    by (induction s) (auto simp: plain_def)
  then show ?thesis
    using TrimSpace_subset by (auto simp: plain_def substitution_def)
qed

definition lexemes_ok :: "runes list \<times> runes \<Rightarrow> bool" where
  "lexemes_ok st \<longleftrightarrow> (\<forall>w\<in>set (fst st). w \<noteq> [] \<and> plain w) \<and> plain (snd st)"

lemma lexemes_ok_break: "lexemes_ok st \<Longrightarrow> lexemes_ok (breakWord st)"
  by (cases st) (auto simp: lexemes_ok_def breakWord_def plain_def)

lemma lexemes_ok_append: "lexemes_ok st \<Longrightarrow> plain s \<Longrightarrow> lexemes_ok (appendStr s st)"
  by (cases st) (auto simp: lexemes_ok_def appendStr_def plain_def)

lemma plain_word_rune:
  assumes "unicode_ok u" "IsWordChar u r"
  shows "plain [ToLower u r]"
proof -
  have "IsWordChar u (ToLower u r)" using assms by (simp add: unicode_ok_def)
  moreover have "\<not> IsWordChar u 39" "\<not> IsWordChar u 92"
    by (simp_all add: IsWordChar_def IsLetter_def IsDigit_def)
  ultimately have "ToLower u r \<noteq> 39" "ToLower u r \<noteq> 92" by metis+
  then show ?thesis by (simp add: plain_def)
qed

lemma lexemes_ok_wordRune:
  assumes "unicode_ok u" "IsWordChar u r" "lexemes_ok st"
  shows "lexemes_ok (wordRune u t r st)"
  unfolding wordRune_def Let_def
  using assms plain_word_rune [of u r]
  by (auto split: option.split intro!: lexemes_ok_append lexemes_ok_break plain_substitution)

lemma tokensOf_plain:
  assumes "unicode_ok u" "ws \<in> set (tokensOf u t s)"
  shows "ws \<noteq> [] \<and> (\<forall>w\<in>set ws. w \<noteq> [] \<and> plain w)"
proof -
  from assms(2) obtain run where run: "run \<in> set (wordRuns (IsWordChar u) s)" "ws = runWords u t run" "ws \<noteq> []"
    by (auto simp: tokensOf_def)
  have fold_ok: "lexemes_ok (fold (wordRune u t) run st)"
    if "lexemes_ok st" "\<forall>r\<in>set run. IsWordChar u r" for run st
    using that
  proof (induction run arbitrary: st)
    case (Cons r run)
    then show ?case using lexemes_ok_wordRune [OF assms(1), of r st t] by (simp del: split_paired_All)
  qed simp
  have "lexemes_ok (fold (wordRune u t) run ([], []))"
    using wordRuns_sound [OF run(1)] by (intro fold_ok) (simp_all add: lexemes_ok_def)
  then have "lexemes_ok (breakWord (fold (wordRune u t) run ([], [])))"
    by (rule lexemes_ok_break)
  then have "\<forall>w\<in>set (runWords u t run). w \<noteq> [] \<and> plain w"
    unfolding lexemes_ok_def runWords_def by (rule conjunct1)
  with run(2,3) show ?thesis by blast
qed

text \<open>The tokenizer never panics and its loop ends on every text; its phrases are the maximal
  runs of word characters in order, each transliterated for itself, those that leave nothing
  dropped, and on ASCII text a phrase is exactly one run in lower case.\<close>

theorem Tokenize_runs:
  "Tokenize u tables s =
      Some (filter (\<lambda>ws. ws \<noteq> []) (map (runWords u tables) (wordRuns (IsWordChar u) s))) \<and>
    ((\<forall>r\<in>set s. r < 127) \<longrightarrow>
      Tokenize u tables s = Some (map (\<lambda>run. [map (ToLower u) run]) (wordRuns (IsWordChar u) s)))"
  by (simp add: tokensOf_ascii) (simp add: tokensOf_def)

definition asciiOnly :: unicode where
  "asciiOnly = \<lparr>u_letter = (\<lambda>_. False), u_digit = (\<lambda>_. False), u_lower = (\<lambda>r. r), u_upper = (\<lambda>r. r)\<rparr>"

lemma asciiOnly_ok [simp]: "unicode_ok asciiOnly"
  by (simp add: unicode_ok_def asciiOnly_def IsWordChar_def IsLetter_def IsDigit_def ToLower_def)

theorem Tokenize_runs_witness:
  "Tokenize asciiOnly (\<lambda>_. None) (runes_of ''It's S01.'') =
    Some [[runes_of ''it''], [runes_of ''s''], [runes_of ''s01'']]"
  using Tokenize_runs [of asciiOnly "\<lambda>_. None" "runes_of ''It's S01.''", THEN conjunct2, THEN mp]
  by (simp add: wordRuns_simps IsWordChar_def IsLetter_def IsDigit_def ToLower_def
      del: Tokenize_eq)

end
