(* ===== verification/Tsvector.thy ===== *)
theory Tsvector
  imports FtsLexer "HOL-Library.Finite_Map" "HOL-Library.List_Lexorder"
begin

text \<open>
  PostgreSQL's text-search vectors as the program prints, parses and fills them:
  \<open>src/internal/database/fts/tsvector.go\<close>.

  \<^item> A \<open>Tsvector\<close> is a finite map from lexemes to finite maps from positions to weights, as in the
    code; its equality is the equality of Go's maps.  Iterating over a Go map and sorting the keys
    is \<open>sorted_list_of_fset\<close>; lexemes are ordered by their runes, which is the order of
    their UTF-8 bytes.
  \<^item> A weight is the rune of its letter.  Positions are \<open>int\<close>; those a parse can read are below
    \<open>2 ^ 63\<close>.
\<close>

section \<open>Text\<close>

text \<open>\<open>fmt.Sprintf("%d", n)\<close> and \<open>strings.Join\<close>.\<close>

fun showNat :: "nat \<Rightarrow> runes" where
  "showNat n = (if n < 10 then [48 + n] else showNat (n div 10) @ [48 + n mod 10])"

declare showNat.simps [simp del]

definition showInt :: "int \<Rightarrow> runes" where
  "showInt i = (if i < 0 then 45 # showNat (nat (- i)) else showNat (nat i))"

fun JoinRunes :: "runes list \<Rightarrow> runes \<Rightarrow> runes" where
  "JoinRunes [] sep = []"
| "JoinRunes [x] sep = x"
| "JoinRunes (x # y # xs) sep = x @ sep @ JoinRunes (y # xs) sep"

lemma JoinRunes_Cons: "xs \<noteq> [] \<Longrightarrow> JoinRunes (x # xs) sep = x @ sep @ JoinRunes xs sep"
  by (cases xs) auto

lemma showNat_digits: "\<forall>r\<in>set (showNat n). IsInt r"
  by (induction n rule: showNat.induct) (subst showNat.simps, auto simp: IsInt_def)

lemma showNat_not_empty [simp]: "showNat n \<noteq> []"
  by (subst showNat.simps) simp

lemma foldl_showNat: "foldl (\<lambda>a r. 10 * a + (int r - 48)) 0 (showNat n) = int n"
proof (induction n rule: showNat.induct)
  case (1 n)
  show ?case
  proof (cases "n < 10")
    case True
    then show ?thesis by (subst showNat.simps) simp
  next
    case False
    then have "foldl (\<lambda>a r. 10 * a + (int r - 48)) 0 (showNat n) = 10 * int (n div 10) + int (n mod 10)"
      using 1 by (subst showNat.simps) simp
    also have "\<dots> = int n" by (metis mult_div_mod_eq of_nat_add of_nat_mult of_nat_numeral)
    finally show ?thesis .
  qed
qed

lemma Atoi_showNat: "int n < 2 ^ 63 \<Longrightarrow> Atoi (showNat n) = Some (int n)"
  by (simp add: Atoi_def foldl_showNat)

lemma takeWhile_showNat:
  "s = [] \<or> \<not> IsInt (hd s) \<Longrightarrow> takeWhile IsInt (showNat n @ s) = showNat n"
  using showNat_digits [of n] by (cases s) (auto simp: takeWhile_append2 takeWhile_append1)

section \<open>Vectors\<close>

type_synonym tsvector_weight = rune

definition TsvectorWeightA :: tsvector_weight where
  "TsvectorWeightA = 65"

definition TsvectorWeightB :: tsvector_weight where
  "TsvectorWeightB = 66"

definition TsvectorWeightC :: tsvector_weight where
  "TsvectorWeightC = 67"

definition TsvectorWeightD :: tsvector_weight where
  "TsvectorWeightD = 68"

lemmas weight_defs = TsvectorWeightA_def TsvectorWeightB_def TsvectorWeightC_def TsvectorWeightD_def

record tsvector_label =
  lb_Position :: int
  lb_Weight :: tsvector_weight

type_synonym tsvector = "(runes, (int, tsvector_weight) fmap) fmap"

text \<open>The regular expression \<open>\W\<close>, and \<open>quoteLexeme\<close>.\<close>

definition nonWordChar :: "rune \<Rightarrow> bool" where
  "nonWordChar r \<longleftrightarrow> \<not> (48 \<le> r \<and> r \<le> 57 \<or> 65 \<le> r \<and> r \<le> 90 \<or> r = 95 \<or> 97 \<le> r \<and> r \<le> 122)"

definition quoteLexeme :: "runes \<Rightarrow> bool \<Rightarrow> runes" where
  "quoteLexeme str force =
    (if force \<or> list_ex nonWordChar str then 39 # ReplaceRune 39 [39, 39] str @ [39] else str)"

definition sortedLabels :: "(int, tsvector_weight) fmap \<Rightarrow> tsvector_label list" where
  "sortedLabels labelsMap =
    (if labelsMap = fmempty then [\<lparr>lb_Position = 0, lb_Weight = TsvectorWeightD\<rparr>]
     else map (\<lambda>pos. \<lparr>lb_Position = pos, lb_Weight = the (fmlookup labelsMap pos)\<rparr>)
       (sorted_list_of_fset (fmdom labelsMap)))"

definition labelText :: "tsvector_label \<Rightarrow> runes" where
  "labelText l = showInt (lb_Position l) @
    (if lb_Weight l \<noteq> TsvectorWeightD then [lb_Weight l] else [])"

definition partText :: "runes \<Rightarrow> tsvector_label list \<Rightarrow> runes" where
  "partText lexeme ls =
    (let labels = map labelText (filter (\<lambda>l. lb_Position l \<noteq> 0) ls);
         part = quoteLexeme lexeme True in
     if labels \<noteq> [] then part @ 58 # JoinRunes labels [44] else part)"

definition tsvector_String :: "tsvector \<Rightarrow> runes" where
  "tsvector_String v = JoinRunes
    (map (\<lambda>lexeme. partText lexeme (sortedLabels (the (fmlookup v lexeme))))
      (sorted_list_of_fset (fmdom v))) [32]"

section \<open>Parsing\<close>

definition isWeight :: "unicode \<Rightarrow> rune \<Rightarrow> bool" where
  "isWeight u r \<longleftrightarrow> (let r = ToUpper u r in r = 65 \<or> r = 66 \<or> r = 67 \<or> r = 68)"

definition readLexeme :: "unicode \<Rightarrow> lexer \<Rightarrow> ((fts_error + runes) \<times> lexer) option" where
  "readLexeme u l = do {
     (unquoted, l1) \<leftarrow> ReadWhile (IsWordChar u) l;
     if unquoted \<noteq> [] then Some (Inr unquoted, l1)
     else do {
       ((word, err), l2) \<leftarrow> readQuotedString 39 l1;
       Some (case err of
         Some e \<Rightarrow> Inl e
       | None \<Rightarrow> if word = [] then Inl EmptyQuotedString else Inr word, l2) } }"

lemma ReadInt_shorter: "ReadInt l = Some (p, l') \<Longrightarrow> length (lx_rest l') \<le> length (lx_rest l)"
  by (auto simp: ReadInt_def length_dropWhile_le split: if_splits option.splits bind_splits)

lemma ReadIf_le: "ReadIf fn l = Some (x, l') \<Longrightarrow> length (lx_rest l') \<le> length (lx_rest l)"
  by (cases "lx_rest l"; cases "fn (hd (lx_rest l))") auto

lemma ReadChar_le: "ReadChar c l = Some (x, l') \<Longrightarrow> length (lx_rest l') \<le> length (lx_rest l)"
  by (cases "lx_rest l") (auto split: if_splits)

lemma ReadChar_Some: "\<exists>c l'. ReadChar x l = Some (c, l')"
  by (cases "lx_rest l"; cases "hd (lx_rest l) = x") auto

lemma ReadChar_shorter:
  "ReadChar c l = Some (True, l') \<Longrightarrow> length (lx_rest l') < length (lx_rest l)"
  by (cases "lx_rest l") (auto split: if_splits)

function readLabels :: "unicode \<Rightarrow> lexer \<Rightarrow> ((fts_error + tsvector_label list) \<times> lexer) option" where
  "readLabels u l = (case ReadInt l of
     None \<Rightarrow> None
   | Some (None, l1) \<Rightarrow> Some (Inl MissingPosition, l1)
   | Some (Some pos, l1) \<Rightarrow>
       (case ReadIf (isWeight u) l1 of
          None \<Rightarrow> None
        | Some (w, l2) \<Rightarrow>
            (let pw = \<lparr>lb_Position = pos,
               lb_Weight = (case w of None \<Rightarrow> TsvectorWeightD | Some r \<Rightarrow> ToUpper u r)\<rparr> in
             case ReadChar 44 l2 of
               None \<Rightarrow> None
             | Some (True, l3) \<Rightarrow>
                 (case readLabels u l3 of
                    None \<Rightarrow> None
                  | Some (Inl e, l4) \<Rightarrow> Some (Inl e, l4)
                  | Some (Inr rest, l4) \<Rightarrow> Some (Inr (pw # rest), l4))
             | Some (False, l3) \<Rightarrow> do {
                 (eof, l4) \<leftarrow> IsEOF l3;
                 if eof then Some (Inr [pw], l4)
                 else do {
                   (spaces, l5) \<leftarrow> ReadWhile (IsChar 32) l4;
                   Some (if spaces = [] then Inl UnexpectedCharacter else Inr [pw], l5) } })))"
  by pat_completeness auto
termination
  by (relation "measure (\<lambda>(u, l). length (lx_rest l))")
    (auto dest!: ReadInt_shorter ReadIf_le ReadChar_shorter)

declare readLabels.simps [simp del]

definition readTsvPart ::
  "unicode \<Rightarrow> lexer \<Rightarrow> ((fts_error + runes \<times> tsvector_label list) \<times> lexer) option" where
  "readTsvPart u l = do {
     (r, l1) \<leftarrow> readLexeme u l;
     case r of
       Inl e \<Rightarrow> Some (Inl e, l1)
     | Inr lexeme \<Rightarrow> do {
         (colon, l2) \<leftarrow> ReadChar 58 l1;
         if \<not> colon then do {
           (spaces, l3) \<leftarrow> ReadWhile (IsChar 32) l2;
           (eof, l4) \<leftarrow> IsEOF l3;
           Some (if \<not> eof \<and> spaces = [] then Inl UnexpectedCharacter else Inr (lexeme, []), l4) }
         else do {
           (labels, l3) \<leftarrow> readLabels u l2;
           Some (case labels of Inl e \<Rightarrow> Inl e | Inr ls \<Rightarrow> Inr (lexeme, ls), l3) } } }"

lemma readQuotedString_shorter:
  assumes "readQuotedString q l = Some ((w, None), l')"
  shows "length (lx_rest l') < length (lx_rest l)"
proof (cases "lx_rest l = [] \<or> hd (lx_rest l) \<noteq> q")
  case True
  from readQuotedString_missing [OF this] assms show ?thesis by simp
next
  case False
  then obtain s where s: "lx_rest l = q # s" by (cases "lx_rest l") auto
  from readQuotedString_eq [OF this] assms have "lx_rest l' = snd (snd (quotedText q s))" by auto
  with s show ?thesis using quotedText_rest_shorter [of q s] by simp
qed

lemma readLexeme_shorter:
  assumes "readLexeme u l = Some (Inr w, l')"
  shows "length (lx_rest l') < length (lx_rest l)"
proof (cases "takeWhile (IsWordChar u) (lx_rest l) = []")
  case True
  with assms show ?thesis
    by (auto simp: readLexeme_def split: option.splits if_splits bind_splits dest!: readQuotedString_shorter)
next
  case False
  then have "length (dropWhile (IsWordChar u) (lx_rest l)) < length (lx_rest l)"
    by (cases "lx_rest l") (auto simp: less_Suc_eq_le length_dropWhile_le split: if_splits)
  with False assms show ?thesis by (auto simp: readLexeme_def)
qed

lemma readLabels_shorter: "readLabels u l = Some (ls, l') \<Longrightarrow> length (lx_rest l') \<le> length (lx_rest l)"
proof (induction u l arbitrary: ls l' rule: readLabels.induct)
  case (1 u l)
  have skip: "length (dropWhile P (lx_rest l3)) \<le> n" if "length (lx_rest l3) \<le> n" for P l3 n
    using that length_dropWhile_le [of P "lx_rest l3"] by simp
  note unfolded = 1(2) [unfolded readLabels.simps [of u l]]
  show ?case
  proof (cases "ReadInt l")
    case None
    with unfolded show ?thesis by simp
  next
    case (Some a)
    then obtain p l1 where a: "ReadInt l = Some (p, l1)" by (cases a) auto
    note le1 = ReadInt_shorter [OF a]
    show ?thesis
    proof (cases p)
      case None
      with unfolded a le1 show ?thesis by auto
    next
      case p: (Some pos)
      obtain w l2 where w: "ReadIf (isWeight u) l1 = Some (w, l2)"
        by (cases "lx_rest l1"; cases "isWeight u (hd (lx_rest l1))") auto
      obtain c l3 where c: "ReadChar 44 l2 = Some (c, l3)" using ReadChar_Some by blast
      note le3 = ReadIf_le [OF w] ReadChar_le [OF c]
      show ?thesis
      proof (cases c)
        case True
        obtain b l4 where b: "readLabels u l3 = Some (b, l4)" "l' = l4"
          using unfolded a p w c True by (auto simp: Let_def split: option.splits prod.splits sum.splits)
        have "length (lx_rest l4) \<le> length (lx_rest l3)"
          using 1(1) [of "(p, l1)" p l1 pos "(w, l2)" w l2 _ "(c, l3)" c l3 b l4] a p w c True b(1) by simp
        with b(2) le1 le3 show ?thesis by simp
      next
        case False
        with unfolded a p w c le1 le3 show ?thesis
          by (auto simp: Let_def split: if_splits intro!: skip)
      qed
    qed
  qed
qed

lemma readTsvPart_shorter:
  assumes "readTsvPart u l = Some (Inr p, l')"
  shows "length (lx_rest l') < length (lx_rest l)"
proof -
  obtain lexeme l1 where l1: "readLexeme u l = Some (Inr lexeme, l1)"
    using assms by (auto simp: readTsvPart_def split: sum.splits bind_splits)
  obtain c l2 where c: "ReadChar 58 l1 = Some (c, l2)" using ReadChar_Some by blast
  note less = readLexeme_shorter [OF l1] ReadChar_le [OF c]
  show ?thesis
  proof (cases c)
    case True
    with assms l1 c less readLabels_shorter [of u l2] show ?thesis
      by (auto simp: readTsvPart_def split: sum.splits bind_splits)
  next
    case False
    with assms l1 c have "lx_rest l' = dropWhile (IsChar 32) (lx_rest l2)"
      by (auto simp: readTsvPart_def split: if_splits)
    with less length_dropWhile_le [of "IsChar 32" "lx_rest l2"] show ?thesis by simp
  qed
qed

text \<open>What a part adds: its lexeme, if it is new, and its labels.\<close>

definition addLabels :: "tsvector_label list \<Rightarrow> (int, tsvector_weight) fmap \<Rightarrow> (int, tsvector_weight) fmap" where
  "addLabels ls m = fold (\<lambda>l. fmupd (lb_Position l) (lb_Weight l)) ls m"

definition addPart :: "runes \<Rightarrow> tsvector_label list \<Rightarrow> tsvector \<Rightarrow> tsvector" where
  "addPart word ls tsv = (let tsv1 = (if fmlookup tsv word = None then fmupd word fmempty tsv else tsv) in
     fmupd word (addLabels ls (the (fmlookup tsv1 word))) tsv1)"

function parseLoop :: "unicode \<Rightarrow> tsvector \<Rightarrow> lexer \<Rightarrow> (fts_error + tsvector) option" where
  "parseLoop u tsv l = (case IsEOF l of
     None \<Rightarrow> None
   | Some (True, l1) \<Rightarrow> Some (Inr tsv)
   | Some (False, l1) \<Rightarrow>
       (case readTsvPart u l1 of
          None \<Rightarrow> None
        | Some (Inl e, l2) \<Rightarrow> Some (Inl (ErrorAt (lx_pos l2) e))
        | Some (Inr (word, posWeights), l2) \<Rightarrow> parseLoop u (addPart word posWeights tsv) l2))"
  by pat_completeness auto
termination
  by (relation "measure (\<lambda>(u, tsv, l). length (lx_rest l))") (auto dest: readTsvPart_shorter)

declare parseLoop.simps [simp del]

definition ParseTsvector :: "unicode \<Rightarrow> runes \<Rightarrow> (fts_error + tsvector) option" where
  "ParseTsvector u str = parseLoop u fmempty (NewLexer (TrimSpace str))"

text \<open>\<open>Scan\<close>: \<open>nil\<close> leaves the vector, a string is parsed, anything else is refused.\<close>

datatype scan_value = ScanNil | ScanString runes | ScanOther

definition tsvector_Scan :: "unicode \<Rightarrow> scan_value \<Rightarrow> tsvector \<Rightarrow> (fts_error + tsvector) option" where
  "tsvector_Scan u val v = (case val of
     ScanNil \<Rightarrow> Some (Inr v)
   | ScanOther \<Rightarrow> Some (Inl InvalidType)
   | ScanString str \<Rightarrow> ParseTsvector u str)"

section \<open>Adding text\<close>

definition firstPosition :: "tsvector \<Rightarrow> int" where
  "firstPosition v =
    (let nextPos = fold (\<lambda>lexeme. fold (\<lambda>pos n. if n \<le> pos then pos + 1 else n)
           (sorted_list_of_fset (fmdom (the (fmlookup v lexeme)))))
         (sorted_list_of_fset (fmdom v)) 1 in
     if 1 < nextPos then nextPos + 1 else nextPos)"

fun addTokens :: "tsvector_weight \<Rightarrow> runes list \<Rightarrow> int \<Rightarrow> tsvector \<Rightarrow> tsvector" where
  "addTokens weight [] nextPos v = v"
| "addTokens weight (lexeme # rest) nextPos v =
    (let v1 = (if fmlookup v lexeme = None then fmupd lexeme fmempty v else v) in
     addTokens weight rest (nextPos + 1)
       (fmupd lexeme (fmupd nextPos weight (the (fmlookup v1 lexeme))) v1))"

definition AddText :: "unicode \<Rightarrow> xlit \<Rightarrow> runes \<Rightarrow> tsvector_weight \<Rightarrow> tsvector \<Rightarrow> tsvector option" where
  "AddText u tables text weight v = do {
     tokens \<leftarrow> TokenizeFlat u tables text;
     Some (addTokens weight tokens (firstPosition v) v) }"

section \<open>Printing and parsing\<close>

definition label_ok :: "tsvector_label \<Rightarrow> bool" where
  "label_ok l \<longleftrightarrow> 0 < lb_Position l \<and> lb_Position l < 2 ^ 63 \<and>
    lb_Weight l \<in> {TsvectorWeightA, TsvectorWeightB, TsvectorWeightC, TsvectorWeightD}"

text \<open>No empty lexeme, positions from 1 on and one of the four weights.\<close>

definition tsvector_ok :: "tsvector \<Rightarrow> bool" where
  "tsvector_ok v \<longleftrightarrow> (\<forall>lexeme m. fmlookup v lexeme = Some m \<longrightarrow> lexeme \<noteq> [] \<and>
    (\<forall>pos w. fmlookup m pos = Some w \<longrightarrow> label_ok \<lparr>lb_Position = pos, lb_Weight = w\<rparr>))"

lemma ReadInt_show:
  assumes "lx_rest l = showInt p @ s" "0 \<le> p" "p < 2 ^ 63" "s = [] \<or> \<not> IsInt (hd s)"
  shows "\<exists>l'. ReadInt l = Some (Some p, l') \<and> lx_rest l' = s"
proof -
  have tw: "takeWhile IsInt (lx_rest l) = showNat (nat p)"
    using assms takeWhile_showNat [of s "nat p"] by (simp add: showInt_def)
  moreover have "lx_rest l = showNat (nat p) @ s" using assms(1,2) by (simp add: showInt_def)
  ultimately show ?thesis
    using assms(2,3) Atoi_showNat [of "nat p"] by (simp add: ReadInt_def)
qed

lemma ReadIf_weight:
  assumes "lx_rest l = (if w \<noteq> TsvectorWeightD then [w] else []) @ t"
    "w \<in> {TsvectorWeightA, TsvectorWeightB, TsvectorWeightC, TsvectorWeightD}"
    "t = [] \<or> hd t = 32 \<or> hd t = 44"
  shows "\<exists>x l'. ReadIf (isWeight u) l = Some (x, l') \<and> lx_rest l' = t \<and>
    (case x of None \<Rightarrow> TsvectorWeightD | Some r \<Rightarrow> ToUpper u r) = w"
proof (cases "w = TsvectorWeightD")
  case True
  with assms show ?thesis
    by (cases t) (auto simp: isWeight_def ToUpper_def)
next
  case False
  with assms show ?thesis
    by (auto simp: isWeight_def ToUpper_def weight_defs)
qed

lemma labelText_hd: "label_ok l \<Longrightarrow> IsInt (hd (labelText l @ s))"
  using showNat_digits [of "nat (lb_Position l)"]
  by (cases "showNat (nat (lb_Position l))") (auto simp: labelText_def showInt_def label_ok_def)

lemma readLabels_text:
  assumes "ls \<noteq> []" "\<forall>l\<in>set ls. label_ok l" "r = [] \<or> hd r = 32"
    "lx_rest l = JoinRunes (map labelText ls) [44] @ r"
  shows "\<exists>l'. readLabels u l = Some (Inr ls, l') \<and> lx_rest l' = dropWhile (IsChar 32) r"
  using assms(1,2,4)
proof (induction ls arbitrary: l)
  case (Cons pw ls)
  define t where "t = (if ls = [] then r else 44 # JoinRunes (map labelText ls) [44] @ r)"
  let ?w = "if lb_Weight pw \<noteq> TsvectorWeightD then [lb_Weight pw] else []"
  have rest: "lx_rest l = showInt (lb_Position pw) @ ?w @ t"
    using Cons.prems(3) by (cases ls) (simp_all add: t_def labelText_def [of pw])
  have ok: "label_ok pw" using Cons.prems(2) by simp
  have t: "t = [] \<or> hd t = 32 \<or> hd t = 44" using assms(3) by (auto simp: t_def)
  have "?w @ t = [] \<or> \<not> IsInt (hd (?w @ t))"
    using t ok by (auto simp: IsInt_def label_ok_def weight_defs)
  then obtain l1 where l1: "ReadInt l = Some (Some (lb_Position pw), l1)" "lx_rest l1 = ?w @ t"
    using ReadInt_show [OF rest] ok by (auto simp: label_ok_def)
  obtain x l2 where l2: "ReadIf (isWeight u) l1 = Some (x, l2)" "lx_rest l2 = t"
      "(case x of None \<Rightarrow> TsvectorWeightD | Some r \<Rightarrow> ToUpper u r) = lb_Weight pw"
    using ReadIf_weight [OF l1(2) _ t, of u] ok unfolding label_ok_def by blast
  have pw: "\<lparr>lb_Position = lb_Position pw, lb_Weight = lb_Weight pw\<rparr> = pw" by simp
  show ?case
  proof (cases "ls = []")
    case True
    then have "lx_rest l2 = r" using l2(2) by (simp add: t_def)
    with assms(3) True show ?thesis
      by (subst readLabels.simps; cases r) (auto simp: l1(1) l2(1,3) Let_def IsChar_def)
  next
    case False
    with l2(2) have l2': "lx_rest l2 = 44 # JoinRunes (map labelText ls) [44] @ r" by (simp add: t_def)
    with Cons.IH [of "advanced l2"] False Cons.prems(2) show ?thesis
      by (subst readLabels.simps) (auto simp: l1(1) l2(1,3) Let_def)
  qed
qed simp

lemma readLexeme_quoted:
  assumes "lx_rest l = quoteLexeme k True @ r" "k \<noteq> []" "r = [] \<or> hd r \<noteq> 39"
  shows "\<exists>l'. readLexeme u l = Some (Inr k, l') \<and> lx_rest l' = r"
proof -
  have rest: "lx_rest l = 39 # ReplaceRune 39 [39, 39] k @ 39 # r"
    using assms(1) by (simp add: quoteLexeme_def)
  moreover have "\<not> IsWordChar u 39" by (simp add: IsWordChar_def IsLetter_def IsDigit_def)
  ultimately have "ReadWhile (IsWordChar u) l = Some ([], kept l)" by simp
  moreover obtain l' where "readQuotedString 39 (kept l) = Some ((k, None), l')" "lx_rest l' = r"
    using readQuotedString_eq [of "kept l" 39] rest quotedText_escaped [OF assms(3), of k] by auto
  ultimately show ?thesis using assms(2) by (auto simp: readLexeme_def)
qed

lemma readTsvPart_text:
  assumes "lx_rest l = partText k ls @ r" "k \<noteq> []" "\<forall>l\<in>set ls. lb_Position l \<noteq> 0 \<longrightarrow> label_ok l"
    "r = [] \<or> hd r = 32"
  shows "\<exists>l'. readTsvPart u l = Some (Inr (k, filter (\<lambda>l. lb_Position l \<noteq> 0) ls), l') \<and>
    lx_rest l' = dropWhile (IsChar 32) r"
proof (cases "filter (\<lambda>l. lb_Position l \<noteq> 0) ls = []")
  case True
  then have "lx_rest l = quoteLexeme k True @ r" using assms(1) by (simp add: partText_def)
  then obtain l1 where l1: "readLexeme u l = Some (Inr k, l1)" "lx_rest l1 = r"
    using readLexeme_quoted assms(2,4) by fastforce
  with assms(4) True show ?thesis
    by (cases r) (auto simp: readTsvPart_def IsChar_def)
next
  case False
  then have "lx_rest l = quoteLexeme k True @ 58 #
      JoinRunes (map labelText (filter (\<lambda>l. lb_Position l \<noteq> 0) ls)) [44] @ r"
    using assms(1) by (simp add: partText_def Let_def)
  then obtain l1 where l1: "readLexeme u l = Some (Inr k, l1)"
      "lx_rest l1 = 58 # JoinRunes (map labelText (filter (\<lambda>l. lb_Position l \<noteq> 0) ls)) [44] @ r"
    using readLexeme_quoted assms(2) by fastforce
  obtain l2 where "readLabels u (advanced l1) = Some (Inr (filter (\<lambda>l. lb_Position l \<noteq> 0) ls), l2)"
      "lx_rest l2 = dropWhile (IsChar 32) r"
    using readLabels_text [OF False _ assms(4), of "advanced l1" u] l1(2) assms(3) by auto
  with l1 show ?thesis by (auto simp: readTsvPart_def)
qed

lemma sortedLabels_ok:
  assumes "tsvector_ok v" "fmlookup v k = Some m" "l \<in> set (sortedLabels m)" "lb_Position l \<noteq> 0"
  shows "label_ok l"
proof -
  from assms(3,4) obtain pos where pos: "pos |\<in>| fmdom m"
      "l = \<lparr>lb_Position = pos, lb_Weight = the (fmlookup m pos)\<rparr>"
    by (auto simp: sortedLabels_def split: if_splits)
  then obtain w where "fmlookup m pos = Some w" by (auto dest: fmdomE)
  with pos assms(1,2) show ?thesis unfolding tsvector_ok_def by auto
qed

definition readBack :: "tsvector \<Rightarrow> runes \<Rightarrow> tsvector_label list" where
  "readBack v k = filter (\<lambda>l. lb_Position l \<noteq> 0) (sortedLabels (the (fmlookup v k)))"

lemma partText_hd: "partText k ls \<noteq> [] \<and> hd (partText k ls @ s) = 39"
  by (simp add: partText_def quoteLexeme_def Let_def)

lemma JoinRunes_hd:
  "xs \<noteq> [] \<Longrightarrow> hd xs \<noteq> [] \<Longrightarrow> hd (JoinRunes xs sep) = hd (hd xs) \<and> JoinRunes xs sep \<noteq> []"
  by (cases xs; cases "tl xs") auto

lemma parseLoop_text:
  assumes "tsvector_ok v" "\<forall>k\<in>set ks. k |\<in>| fmdom v"
    "lx_rest l = JoinRunes (map (\<lambda>k. partText k (sortedLabels (the (fmlookup v k)))) ks) [32]"
  shows "parseLoop u tsv l = Some (Inr (fold (\<lambda>k. addPart k (readBack v k)) ks tsv))"
  using assms(2,3)
proof (induction ks arbitrary: tsv l)
  case Nil
  then show ?case by (subst parseLoop.simps) simp
next
  case (Cons k ks)
  let ?part = "\<lambda>k. partText k (sortedLabels (the (fmlookup v k)))"
  define r where "r = (if ks = [] then [] else 32 # JoinRunes (map ?part ks) [32])"
  have rest: "lx_rest (kept l) = ?part k @ r"
    using Cons.prems(2) by (simp add: r_def JoinRunes_Cons)
  obtain m where m: "fmlookup v k = Some m" using Cons.prems(1) by (auto dest: fmdomE)
  with assms(1) have "k \<noteq> []" by (auto simp: tsvector_ok_def)
  moreover have "\<forall>l\<in>set (sortedLabels (the (fmlookup v k))). lb_Position l \<noteq> 0 \<longrightarrow> label_ok l"
    using sortedLabels_ok [OF assms(1) m] m by simp
  moreover have "r = [] \<or> hd r = 32" by (simp add: r_def)
  ultimately obtain l' where l': "readTsvPart u (kept l) = Some (Inr (k, readBack v k), l')"
      "lx_rest l' = dropWhile (IsChar 32) r"
    using readTsvPart_text [OF rest] unfolding readBack_def by blast
  have "lx_rest l' = JoinRunes (map ?part ks) [32]"
  proof (cases ks)
    case (Cons k' ks')
    then have "hd (JoinRunes (map ?part ks) [32]) = 39" "JoinRunes (map ?part ks) [32] \<noteq> []"
      using JoinRunes_hd [of "map ?part ks" "[32]"]
        partText_hd [of k' "sortedLabels (the (fmlookup v k'))" "[]"] by simp_all
    with Cons l'(2) show ?thesis
      by (cases "JoinRunes (map ?part ks) [32]") (auto simp: r_def IsChar_def)
  qed (simp add: l'(2) r_def)
  with Cons.IH Cons.prems(1) have "parseLoop u (addPart k (readBack v k) tsv) l' =
      Some (Inr (fold (\<lambda>k. addPart k (readBack v k)) ks (addPart k (readBack v k) tsv)))"
    by simp
  moreover have "lx_rest l \<noteq> []" using rest partText_hd [of k _ "[]"] by simp
  ultimately show ?case using l'(1) by (subst parseLoop.simps) simp
qed

lemma fmupd_twice [simp]: "fmupd k a (fmupd k b m) = fmupd k a m"
  by (rule fmap_ext) simp

lemma addPart_new: "fmlookup tsv k = None \<Longrightarrow> addPart k ls tsv = fmupd k (addLabels ls fmempty) tsv"
  by (simp add: addPart_def)

lemma fold_fmupd_lookup:
  "fmlookup (fold (\<lambda>x. fmupd x (g x)) xs m) k = (if k \<in> set xs then Some (g k) else fmlookup m k)"
  by (induction xs arbitrary: m) auto

lemma fold_fmupd_all:
  assumes "\<And>k. k |\<in>| fmdom m \<Longrightarrow> Some (g k) = fmlookup m k"
  shows "fold (\<lambda>x. fmupd x (g x)) (sorted_list_of_fset (fmdom m)) fmempty = m"
  by (rule fmap_ext) (auto simp: fold_fmupd_lookup assms fmdom_notD)

lemma addLabels_readBack:
  assumes "tsvector_ok v" "fmlookup v k = Some m"
  shows "addLabels (readBack v k) fmempty = m"
proof (cases "m = fmempty")
  case True
  with assms(2) show ?thesis by (simp add: readBack_def sortedLabels_def addLabels_def)
next
  case False
  let ?f = "\<lambda>pos. \<lparr>lb_Position = pos, lb_Weight = the (fmlookup m pos)\<rparr>"
  let ?ps = "sorted_list_of_fset (fmdom m)"
  have pos: "pos \<noteq> 0" if "pos |\<in>| fmdom m" for pos
  proof -
    from that obtain w where "fmlookup m pos = Some w" by (auto dest: fmdomE)
    with assms have "label_ok \<lparr>lb_Position = pos, lb_Weight = w\<rparr>" unfolding tsvector_ok_def by blast
    then show ?thesis by (simp add: label_ok_def)
  qed
  have "readBack v k = map ?f ?ps"
    using False assms(2) pos by (auto simp: readBack_def sortedLabels_def filter_map comp_def intro!: filter_True)
  then have eq: "addLabels (readBack v k) fmempty = fold (\<lambda>p. fmupd p (the (fmlookup m p))) ?ps fmempty"
    by (simp add: addLabels_def fold_map comp_def)
  show ?thesis unfolding eq by (rule fold_fmupd_all) (erule fmdomE, simp)
qed

lemma addPart_readBack:
  assumes "tsvector_ok v" "distinct ks" "\<forall>k\<in>set ks. k |\<in>| fmdom v \<and> fmlookup tsv k = None"
  shows "fold (\<lambda>k. addPart k (readBack v k)) ks tsv = fold (\<lambda>k. fmupd k (the (fmlookup v k))) ks tsv"
  using assms(2,3)
proof (induction ks arbitrary: tsv)
  case (Cons k ks)
  then obtain m where "fmlookup v k = Some m" by (auto dest: fmdomE)
  with Cons.prems have "addPart k (readBack v k) tsv = fmupd k (the (fmlookup v k)) tsv"
    by (simp add: addPart_new addLabels_readBack [OF assms(1)])
  moreover have "\<forall>k'\<in>set ks. k' |\<in>| fmdom v \<and> fmlookup (fmupd k (the (fmlookup v k)) tsv) k' = None"
    using Cons.prems by auto
  ultimately show ?case using Cons.IH Cons.prems(1) by simp
qed simp

lemma TrimSpace_id: "s \<noteq> [] \<Longrightarrow> \<not> IsSpace (hd s) \<Longrightarrow> \<not> IsSpace (last s) \<Longrightarrow> TrimSpace s = s"
proof -
  assume s: "s \<noteq> []" "\<not> IsSpace (hd s)" "\<not> IsSpace (last s)"
  then have "dropWhile IsSpace s = s" by (intro dropWhile_eq_self_iff [THEN iffD2]) simp
  moreover have "dropWhile IsSpace (rev s) = rev s"
    using s by (intro dropWhile_eq_self_iff [THEN iffD2]) (simp add: hd_rev)
  ultimately show ?thesis by (simp add: TrimSpace_def)
qed

lemma JoinRunes_last:
  "xs \<noteq> [] \<Longrightarrow> \<forall>x\<in>set xs. x \<noteq> [] \<Longrightarrow> last (JoinRunes xs sep) = last (last xs) \<and> JoinRunes xs sep \<noteq> []"
  by (induction xs sep rule: JoinRunes.induct) auto

lemma showInt_ends: "0 \<le> i \<Longrightarrow> showInt i \<noteq> [] \<and> \<not> IsSpace (last (showInt i))"
proof -
  assume "0 \<le> i"
  moreover have "IsInt (last (showNat (nat i)))"
    using showNat_digits last_in_set [OF showNat_not_empty] by blast
  then have "\<not> IsSpace (last (showNat (nat i)))" by (auto simp: IsInt_def IsSpace_def)
  ultimately show ?thesis by (simp add: showInt_def)
qed

lemma partText_last:
  assumes "\<forall>l\<in>set ls. lb_Position l \<noteq> 0 \<longrightarrow> label_ok l"
  shows "\<not> IsSpace (last (partText k ls))"
proof (cases "filter (\<lambda>l. lb_Position l \<noteq> 0) ls = []")
  case True
  then show ?thesis by (simp add: partText_def quoteLexeme_def IsSpace_def)
next
  case False
  have label: "labelText l \<noteq> [] \<and> \<not> IsSpace (last (labelText l))" if "label_ok l" for l
  proof (cases "lb_Weight l = TsvectorWeightD")
    case True
    with that showInt_ends [of "lb_Position l"] show ?thesis by (simp add: labelText_def label_ok_def)
  next
    case False
    with that have "\<not> IsSpace (lb_Weight l)" by (auto simp: label_ok_def weight_defs IsSpace_def)
    with False show ?thesis by (simp add: labelText_def)
  qed
  let ?ls = "filter (\<lambda>l. lb_Position l \<noteq> 0) ls"
  have "last (JoinRunes (map labelText ?ls) [44]) = last (last (map labelText ?ls)) \<and>
      JoinRunes (map labelText ?ls) [44] \<noteq> []"
    using False assms label by (intro JoinRunes_last) auto
  moreover have "last ?ls \<in> set ?ls" using False by (rule last_in_set)
  ultimately show ?thesis
    using False assms label by (simp add: partText_def Let_def last_map)
qed

lemma Parse_String:
  assumes "tsvector_ok v"
  shows "ParseTsvector u (tsvector_String v) = Some (Inr v)"
proof -
  let ?ks = "sorted_list_of_fset (fmdom v)"
  let ?parts = "map (\<lambda>k. partText k (sortedLabels (the (fmlookup v k)))) ?ks"
  have "TrimSpace (tsvector_String v) = tsvector_String v"
  proof (cases "?ks = []")
    case True
    then show ?thesis by (simp add: tsvector_String_def TrimSpace_def)
  next
    case False
    then have "last ?ks |\<in>| fmdom v" using last_in_set [OF False] by simp
    then obtain m where "fmlookup v (last ?ks) = Some m" by (rule fmdomE)
    then have "\<not> IsSpace (last (last ?parts))"
      using False sortedLabels_ok [OF assms] partText_last [of "sortedLabels m"] by (auto simp: last_map)
    moreover have "hd (hd ?parts) = 39"
      using False partText_hd [of _ _ "[]"] by (simp add: hd_map)
    ultimately show ?thesis
      unfolding tsvector_String_def
      using False partText_hd JoinRunes_hd [of ?parts "[32]"] JoinRunes_last [of ?parts "[32]"]
      by (intro TrimSpace_id) (auto simp: hd_map IsSpace_def)
  qed
  moreover have "parseLoop u fmempty (NewLexer (tsvector_String v)) =
      Some (Inr (fold (\<lambda>k. addPart k (readBack v k)) ?ks fmempty))"
    using parseLoop_text [OF assms, of ?ks] by (simp add: tsvector_String_def)
  moreover have "fold (\<lambda>k. addPart k (readBack v k)) ?ks fmempty = v"
  proof -
    have "fold (\<lambda>k. addPart k (readBack v k)) ?ks fmempty = fold (\<lambda>k. fmupd k (the (fmlookup v k))) ?ks fmempty"
      by (rule addPart_readBack [OF assms]) (simp_all add: sorted_list_of_fset.rep_eq)
    also have "\<dots> = v" by (rule fold_fmupd_all) (erule fmdomE, simp)
    finally show ?thesis .
  qed
  ultimately show ?thesis by (simp add: ParseTsvector_def)
qed

text \<open>C32. The database reads back what the program writes: the text of every vector whose lexemes are
  not empty, whose positions are 64-bit and count from 1 and whose weights are A to D parses,
  without an error or a panic, to the same vector, whatever quotes, spaces, colons or
  non-ASCII runes its lexemes hold.\<close>

theorem tsvector_roundtrip:
  assumes "tsvector_ok v"
  shows "ParseTsvector u (tsvector_String v) = Some (Inr v)"
  by (rule Parse_String [OF assms])

definition sampleVector :: tsvector where
  "sampleVector = fmupd (39 # runes_of ''s: a'') (fmupd 12 TsvectorWeightB (fmupd 3 TsvectorWeightD fmempty))
    (fmupd (runes_of ''x'') fmempty fmempty)"

lemma sampleVector_ok: "tsvector_ok sampleVector"
  by (auto simp: tsvector_ok_def sampleVector_def label_ok_def split: if_splits)

lemma sorted_list_of_fset_code [simp]:
  "sorted_list_of_fset {||} = []"
  "sorted_list_of_fset (finsert x A) = insort x (sorted_list_of_fset (A |-| {|x|}))"
  by (simp_all add: sorted_list_of_fset.rep_eq sorted_list_of_set_insert_remove)

lemma sampleVector_text:
  "tsvector_String sampleVector =
    [39, 39, 39] @ runes_of ''s: a'' @ [39] @ runes_of '':3,12B '' @ [39, 120, 39]"
  by (simp add: tsvector_String_def sampleVector_def sortedLabels_def partText_def quoteLexeme_def
      labelText_def showInt_def showNat.simps weight_defs Let_def)

theorem tsvector_roundtrip_witness:
  "ParseTsvector asciiOnly
      ([39, 39, 39] @ runes_of ''s: a'' @ [39] @ runes_of '':3,12B '' @ [39, 120, 39]) =
    Some (Inr sampleVector)"
  using tsvector_roundtrip [OF sampleVector_ok, of asciiOnly] unfolding sampleVector_text .

section \<open>What adding text does\<close>

definition labelAt :: "tsvector \<Rightarrow> runes \<Rightarrow> int \<Rightarrow> tsvector_weight option" where
  "labelAt v lexeme pos = Option.bind (fmlookup v lexeme) (\<lambda>m. fmlookup m pos)"

lemma fold_max_ge:
  "n \<le> fold (\<lambda>pos n. if n \<le> pos then pos + 1 else n) ps (n :: int)"
  "pos \<in> set ps \<Longrightarrow> pos < fold (\<lambda>pos n. if n \<le> pos then pos + 1 else n) ps (n :: int)"
proof -
  show ge: "n \<le> fold (\<lambda>pos n. if n \<le> pos then pos + 1 else n) ps (n :: int)" for n ps
  proof (induction ps arbitrary: n)
    case (Cons p ps)
    show ?case using Cons [of "p + 1"] Cons [of n] by simp
  qed simp
  show "pos \<in> set ps \<Longrightarrow> pos < fold (\<lambda>pos n. if n \<le> pos then pos + 1 else n) ps (n :: int)"
  proof (induction ps arbitrary: n)
    case (Cons p ps)
    then show ?case using ge [of "p + 1" ps] ge [of n ps] by auto
  qed simp
qed

lemma fold_fold_ge:
  fixes n :: int
  shows "n \<le> fold (\<lambda>k. fold (\<lambda>pos n. if n \<le> pos then pos + 1 else n) (f k)) ks n"
    and "k \<in> set ks \<Longrightarrow> pos \<in> set (f k) \<Longrightarrow>
      pos < fold (\<lambda>k. fold (\<lambda>pos n. if n \<le> pos then pos + 1 else n) (f k)) ks n"
proof -
  show ge: "n \<le> fold (\<lambda>k. fold (\<lambda>pos n. if n \<le> pos then pos + 1 else n) (f k)) ks n" for n ks
    by (induction ks arbitrary: n) (auto intro: order_trans [OF fold_max_ge(1)])
  show "k \<in> set ks \<Longrightarrow> pos \<in> set (f k) \<Longrightarrow>
      pos < fold (\<lambda>k. fold (\<lambda>pos n. if n \<le> pos then pos + 1 else n) (f k)) ks n"
  proof (induction ks arbitrary: n)
    case (Cons k' ks)
    then show ?case using order_less_le_trans [OF fold_max_ge(2) ge] by auto
  qed simp
qed

lemma firstPosition_bounds:
  "1 \<le> firstPosition v"
  "labelAt v lexeme pos \<noteq> None \<Longrightarrow> pos < firstPosition v"
proof -
  let ?f = "\<lambda>lexeme. sorted_list_of_fset (fmdom (the (fmlookup v lexeme)))"
  let ?n = "fold (\<lambda>lexeme. fold (\<lambda>pos n. if n \<le> pos then pos + 1 else n) (?f lexeme))
      (sorted_list_of_fset (fmdom v)) (1 :: int)"
  have first: "firstPosition v = (if 1 < ?n then ?n + 1 else ?n)" by (simp add: firstPosition_def Let_def)
  have "1 \<le> ?n" by (rule fold_fold_ge(1))
  then show "1 \<le> firstPosition v" by (simp add: first)
  assume "labelAt v lexeme pos \<noteq> None"
  then obtain m w where m: "fmlookup v lexeme = Some m" "fmlookup m pos = Some w"
    by (auto simp: labelAt_def bind_eq_Some_conv)
  then have "lexeme \<in> set (sorted_list_of_fset (fmdom v))" "pos \<in> set (?f lexeme)"
    by (auto intro: fmdomI)
  then have "pos < ?n" by (rule fold_fold_ge(2) [where f = ?f])
  then show "pos < firstPosition v" by (simp add: first)
qed

lemma labelAt_upd:
  "labelAt (fmupd k (fmupd p w (the (fmlookup (if fmlookup v k = None then fmupd k fmempty v else v) k)))
      (if fmlookup v k = None then fmupd k fmempty v else v)) lexeme pos =
    (if lexeme = k \<and> pos = p then Some w else labelAt v lexeme pos)"
  by (auto simp: labelAt_def)

lemma addTokens_labelAt:
  "labelAt (addTokens w tokens n v) lexeme pos =
    (if n \<le> pos \<and> pos < n + int (length tokens) \<and> tokens ! nat (pos - n) = lexeme then Some w
     else labelAt v lexeme pos)"
proof (induction tokens arbitrary: n v)
  case (Cons t tokens)
  have "(t # tokens) ! nat (pos - n) = tokens ! nat (pos - (n + 1))" if "n + 1 \<le> pos"
  proof -
    from that have "nat (pos - n) = Suc (nat (pos - (n + 1)))" by simp
    then show ?thesis by simp
  qed
  then show ?case
    unfolding addTokens.simps Let_def Cons labelAt_upd by (cases "pos = n") auto
qed auto

lemma tsvector_ok_iff:
  "tsvector_ok v \<longleftrightarrow> fmlookup v [] = None \<and>
    (\<forall>k p w. labelAt v k p = Some w \<longrightarrow> label_ok \<lparr>lb_Position = p, lb_Weight = w\<rparr>)"
  unfolding tsvector_ok_def labelAt_def bind_eq_Some_conv by (metis not_None_eq)

lemma addTokens_keys:
  "[] \<notin> set tokens \<Longrightarrow> fmlookup v [] = None \<Longrightarrow> fmlookup (addTokens w tokens n v) [] = None"
  by (induction tokens arbitrary: n v) (auto simp: Let_def)

lemma tokensOf_not_empty: "[] \<notin> set (concat (tokensOf u t s))"
proof
  assume "[] \<in> set (concat (tokensOf u t s))"
  then obtain run where "[] \<in> set (runWords u t run)" by (auto simp: tokensOf_def)
  moreover have "[] \<notin> set (fst (breakWord st))" if "[] \<notin> set (fst st)" for st
    using that by (cases st) (auto simp: breakWord_def)
  moreover have "[] \<notin> set (fst (wordRune u t r st))" if "[] \<notin> set (fst st)" for r st
    using that by (cases st) (auto simp: wordRune_def appendStr_def breakWord_def Let_def split: option.split)
  then have "[] \<notin> set (fst (fold (wordRune u t) run st))" if "[] \<notin> set (fst st)" for st
    using that by (induction run arbitrary: st) (simp_all del: split_paired_All)
  ultimately show False by (simp add: runWords_def)
qed

text \<open>Adding a text to a vector keeps every label it has, gives the text's tokens, in order, the
  weight at the positions that follow all those in use, and leaves a vector that prints and
  parses back, as long as the positions fit 64 bits.\<close>

theorem AddText_positions:
  assumes "tsvector_ok v" "AddText u tables text w v = Some v'" "TokenizeFlat u tables text = Some tokens"
    and "w \<in> {TsvectorWeightA, TsvectorWeightB, TsvectorWeightC, TsvectorWeightD}"
    and "firstPosition v + int (length tokens) < 2 ^ 63"
  shows "(\<forall>lexeme pos. labelAt v' lexeme pos =
      (if firstPosition v \<le> pos \<and> pos < firstPosition v + int (length tokens) then
         (if tokens ! nat (pos - firstPosition v) = lexeme then Some w else None)
       else labelAt v lexeme pos)) \<and>
    tsvector_ok v' \<and> ParseTsvector u (tsvector_String v') = Some (Inr v')"
proof -
  have tokens: "tokens = concat (tokensOf u tables text)" and v': "v' = addTokens w tokens (firstPosition v) v"
    using assms(2,3) by (simp_all add: AddText_def)
  have at: "labelAt v' lexeme pos =
      (if firstPosition v \<le> pos \<and> pos < firstPosition v + int (length tokens) then
         (if tokens ! nat (pos - firstPosition v) = lexeme then Some w else None)
       else labelAt v lexeme pos)" for lexeme pos
    using firstPosition_bounds(2) [of v lexeme pos] unfolding v' addTokens_labelAt by force
  have "fmlookup v' [] = None"
    unfolding v' using assms(1) tokensOf_not_empty unfolding tokens tsvector_ok_iff by (intro addTokens_keys) auto
  moreover have "label_ok \<lparr>lb_Position = p, lb_Weight = x\<rparr>" if "labelAt v' k p = Some x" for k p x
    using that assms(1,4,5) firstPosition_bounds(1) [of v]
    unfolding at tsvector_ok_iff by (auto simp: label_ok_def split: if_splits)
  ultimately have "tsvector_ok v'" unfolding tsvector_ok_iff by blast
  with at show ?thesis by (simp add: Parse_String)
qed

theorem AddText_positions_witness:
  "\<exists>v'. AddText asciiOnly (\<lambda>_. None) (runes_of ''a B a'') TsvectorWeightA sampleVector = Some v' \<and>
    labelAt v' (runes_of ''a'') 14 = Some TsvectorWeightA \<and>
    labelAt v' (runes_of ''b'') 15 = Some TsvectorWeightA \<and>
    labelAt v' (runes_of ''a'') 16 = Some TsvectorWeightA \<and>
    ParseTsvector asciiOnly (tsvector_String v') = Some (Inr v')"
proof -
  have tokens: "TokenizeFlat asciiOnly (\<lambda>_. None) (runes_of ''a B a'') =
      Some [runes_of ''a'', runes_of ''b'', runes_of ''a'']"
    by (simp add: tokensOf_ascii wordRuns_simps IsWordChar_def IsLetter_def IsDigit_def ToLower_def)
  have first: "firstPosition sampleVector = 14"
    by (simp add: firstPosition_def sampleVector_def)
  obtain v' where v': "AddText asciiOnly (\<lambda>_. None) (runes_of ''a B a'') TsvectorWeightA sampleVector = Some v'"
    by (simp add: AddText_def)
  from AddText_positions [OF sampleVector_ok v' tokens] show ?thesis
    using v' by (simp add: first)
qed

section \<open>Copying\<close>

text \<open>\<open>Copy\<close> rebuilds both levels of the map; it matters for aliasing only.\<close>

definition tsvector_Copy :: "tsvector \<Rightarrow> tsvector" where
  "tsvector_Copy v = fold (\<lambda>lexeme c. fmupd lexeme
      (fold (\<lambda>pos. fmupd pos (the (fmlookup (the (fmlookup v lexeme)) pos)))
        (sorted_list_of_fset (fmdom (the (fmlookup v lexeme)))) fmempty) c)
    (sorted_list_of_fset (fmdom v)) fmempty"

lemma tsvector_Copy_eq: "tsvector_Copy v = v"
proof -
  have inner: "fold (\<lambda>pos. fmupd pos (the (fmlookup m pos))) (sorted_list_of_fset (fmdom m)) fmempty = m" for m :: "(int, tsvector_weight) fmap"
    by (rule fold_fmupd_all) (erule fmdomE, simp)
  show ?thesis
    unfolding tsvector_Copy_def inner by (rule fold_fmupd_all) (erule fmdomE, simp)
qed

end
