(* ===== verification/Tsquery.thy ===== *)
theory Tsquery
  imports Tsvector
begin

text \<open>
  The search box: \<open>src/internal/database/fts/tsquery.go\<close> reads what a user typed into tokens and
  writes PostgreSQL's \<open>tsquery\<close>.

  The loop over the tokens by index is a recursion over the tokens that are left, with the parts
  written so far, the pending operator and the pending negation as its arguments.  The result is
  an \<open>option\<close> only because the tokenizer's is; it is proved to be \<open>Some\<close>.

  \<open>tsquery\<close> is the grammar PostgreSQL accepts for the text; every query the code writes
  is in it, or empty.
\<close>

section \<open>Reading tokens\<close>

datatype token =
  TokenQuoted | TokenOpenParens | TokenCloseParens | TokenOperator | TokenNegation | TokenPhrase
| TokenWildcard

record token_value =
  tk_StartPos :: int
  tk_Length :: int
  tk_Token :: token
  tk_Value :: runes

definition OperatorAnd :: runes where
  "OperatorAnd = runes_of ''+''"

definition OperatorOr :: runes where
  "OperatorOr = runes_of ''|''"

definition OperatorFollowedBy :: runes where
  "OperatorFollowedBy = runes_of ''.''"

text \<open>The tokens of one rune, in the order the code tries them.\<close>

definition singleTokens :: "(rune \<times> token \<times> runes) list" where
  "singleTokens =
    [(of_char (CHR ''(''), TokenOpenParens, runes_of ''(''),
     (of_char (CHR '')''), TokenCloseParens, runes_of '')''),
     (of_char (CHR ''&''), TokenOperator, OperatorAnd),
     (of_char (CHR ''|''), TokenOperator, OperatorOr),
     (of_char (CHR ''.''), TokenOperator, OperatorFollowedBy),
     (of_char (CHR ''!''), TokenNegation, runes_of ''-''),
     (of_char (CHR ''*''), TokenWildcard, runes_of ''*'')]"

fun readSingle :: "(rune \<times> token \<times> runes) list \<Rightarrow> lexer \<Rightarrow> (token_value option \<times> lexer) option" where
  "readSingle [] l = Some (None, l)"
| "readSingle ((c, tk, val) # rest) l = do {
     (found, l') \<leftarrow> ReadChar c l;
     if found then
       Some (Some \<lparr>tk_StartPos = lx_pos l', tk_Length = 1, tk_Token = tk, tk_Value = val\<rparr>, l')
     else readSingle rest l' }"

lemma readSingle_eq:
  "\<exists>x l'. readSingle ts l = Some (x, l') \<and> (case x of
     None \<Rightarrow> lx_rest l' = lx_rest l
   | Some t \<Rightarrow> lx_rest l \<noteq> [] \<and> lx_rest l' = tl (lx_rest l) \<and> tk_Token t \<in> (fst \<circ> snd) ` set ts)"
proof (induction ts arbitrary: l)
  case (Cons t ts)
  obtain c tk val where t: "t = (c, tk, val)" by (cases t)
  show ?case
  proof (cases "lx_rest l \<noteq> [] \<and> hd (lx_rest l) = c")
    case True
    then show ?thesis by (cases "lx_rest l") (auto simp: t)
  next
    case False
    then have "ReadChar c l = Some (False, kept l)" by (cases "lx_rest l") auto
    moreover obtain x l' where x: "readSingle ts (kept l) = Some (x, l')" "case x of
        None \<Rightarrow> lx_rest l' = lx_rest l
      | Some t \<Rightarrow> lx_rest l \<noteq> [] \<and> lx_rest l' = tl (lx_rest l) \<and> tk_Token t \<in> (fst \<circ> snd) ` set ts"
      using Cons [of "kept l"] unfolding lexer_sel by blast
    ultimately show ?thesis by (cases x) (auto simp: t)
  qed
qed simp

lemma readQuotedString_le:
  "\<exists>w e l'. readQuotedString q l = Some ((w, e), l') \<and>
    length (lx_rest l') \<le> length (lx_rest l) \<and> (w \<noteq> [] \<longrightarrow> length (lx_rest l') < length (lx_rest l))"
proof (cases "lx_rest l = [] \<or> hd (lx_rest l) \<noteq> q")
  case True
  from readQuotedString_missing [OF this] show ?thesis by simp
next
  case False
  then obtain s where s: "lx_rest l = q # s" by (cases "lx_rest l") auto
  from readQuotedString_eq [OF this] quotedText_rest_shorter [of q s] s show ?thesis
    by (metis length_Cons less_Suc_eq_le less_imp_le)
qed

function readQueryToken :: "unicode \<Rightarrow> lexer \<Rightarrow> (token_value option \<times> lexer) option" where
  "readQueryToken u l = (case IsEOF l of
     None \<Rightarrow> None
   | Some (True, l1) \<Rightarrow> Some (None, l1)
   | Some (False, l1) \<Rightarrow>
       (let start = lx_pos l1 in
        case readSingle singleTokens l1 of
          None \<Rightarrow> None
        | Some (Some t, l2) \<Rightarrow> Some (Some t, l2)
        | Some (None, l2) \<Rightarrow>
            (case readQuotedString 34 l2 of
               None \<Rightarrow> None
             | Some ((quoted, _), l3) \<Rightarrow>
                 if quoted \<noteq> [] then
                   Some (Some \<lparr>tk_StartPos = start, tk_Length = lx_pos l3 - start,
                     tk_Token = TokenQuoted, tk_Value = quoted\<rparr>, l3)
                 else
                   (case ReadWhile (IsWordChar u) l3 of
                      None \<Rightarrow> None
                    | Some (phrase, l4) \<Rightarrow>
                        if phrase \<noteq> [] then
                          Some (Some \<lparr>tk_StartPos = start, tk_Length = lx_pos l4 - start,
                            tk_Token = TokenPhrase, tk_Value = phrase\<rparr>, l4)
                        else readQueryToken u (snd (Read l4))))))"
  by pat_completeness auto
termination
proof (relation "measure (\<lambda>(u, l). length (lx_rest l))", goal_cases)
  case (2 u l x b l1 start y z l2 q r l3 quoted err s phrase l4)
  then have l: "lx_rest l \<noteq> []" "lx_rest l1 = lx_rest l" by auto
  have "lx_rest l2 = lx_rest l1"
    using 2 readSingle_eq [of singleTokens l1] by auto
  moreover have "length (lx_rest l3) \<le> length (lx_rest l2)"
    using 2 readQuotedString_le [of 34 l2] by auto
  moreover have "length (lx_rest l4) \<le> length (lx_rest l3)"
    using 2 by (auto simp: length_dropWhile_le)
  moreover have "length (lx_rest (snd (Read l4))) < length (lx_rest l)"
    if "length (lx_rest l4) \<le> length (lx_rest l)"
    using that l(1) Read_shorter [of l4] by (cases "lx_rest l4") auto
  ultimately show ?case using l by simp
qed simp

declare readQueryToken.simps [simp del]

lemma readQueryToken_spec:
  "\<exists>x l'. readQueryToken u l = Some (x, l') \<and> (x \<noteq> None \<longrightarrow> length (lx_rest l') < length (lx_rest l))"
proof (induction u l rule: readQueryToken.induct)
  case (1 u l)
  show ?case
  proof (cases "lx_rest l = []")
    case True
    then show ?thesis by (subst readQueryToken.simps) simp
  next
    case ne: False
    obtain x l2 where x: "readSingle singleTokens (kept l) = Some (x, l2)" "case x of
        None \<Rightarrow> lx_rest l2 = lx_rest l
      | Some t \<Rightarrow> lx_rest l \<noteq> [] \<and> lx_rest l2 = tl (lx_rest l) \<and> tk_Token t \<in> (fst \<circ> snd) ` set singleTokens"
      using readSingle_eq [of singleTokens "kept l"] unfolding lexer_sel by blast
    show ?thesis
    proof (cases x)
      case (Some t)
      with x ne show ?thesis by (subst readQueryToken.simps) (simp add: Let_def)
    next
      case None
      obtain w e l3 where w: "readQuotedString 34 l2 = Some ((w, e), l3)"
          "length (lx_rest l3) \<le> length (lx_rest l2)" "w \<noteq> [] \<Longrightarrow> length (lx_rest l3) < length (lx_rest l2)"
        using readQuotedString_le by blast
      define phrase where "phrase = takeWhile (IsWordChar u) (lx_rest l3)"
      define l4 where "l4 = jumped (length phrase) l3"
      have l4: "ReadWhile (IsWordChar u) l3 = Some (phrase, l4)" by (simp add: phrase_def l4_def)
      have len: "length (lx_rest l2) = length (lx_rest l)" using x None by simp
      consider "w \<noteq> []" | "w = []" "phrase \<noteq> []" | "w = []" "phrase = []" by blast
      then show ?thesis
      proof cases
        case 1
        with ne x None w len show ?thesis by (subst readQueryToken.simps) (simp add: Let_def)
      next
        case 2
        then have "length (lx_rest l4) < length (lx_rest l3)"
          unfolding l4_def phrase_def
          by (cases "lx_rest l3") (auto simp: less_Suc_eq_le length_dropWhile_le split: if_splits)
        with 2 ne x None w l4 len show ?thesis
          by (subst readQueryToken.simps) (simp add: Let_def del: ReadWhile_eq)
      next
        case 3
        have step: "readQueryToken u l = readQueryToken u (snd (Read l4))"
          using 3 ne x None w l4 by (subst readQueryToken.simps) (simp add: Let_def del: ReadWhile_eq)
        have "length (lx_rest (snd (Read l4))) \<le> length (lx_rest l4)"
          by (cases "lx_rest l4") auto
        moreover have "length (lx_rest l4) \<le> length (lx_rest l3)" by (simp add: l4_def)
        moreover have "\<exists>x l'. readQueryToken u (snd (Read l4)) = Some (x, l') \<and>
            (x \<noteq> None \<longrightarrow> length (lx_rest l') < length (lx_rest (snd (Read l4))))"
          using 1 [of "(False, kept l)" False "kept l" "lx_pos (kept l)" "(None, l2)" None l2
              "((w, e), l3)" "(w, e)" l3 w e "(phrase, l4)" phrase l4] 3 ne x None w(1) l4
          by (simp del: ReadWhile_eq)
        ultimately show ?thesis unfolding step using w(2) len by force
      qed
    qed
  qed
qed

function queryTokens :: "unicode \<Rightarrow> token_value list \<Rightarrow> lexer \<Rightarrow> token_value list option" where
  "queryTokens u tokens l = (case readQueryToken u l of
     None \<Rightarrow> None
   | Some (None, _) \<Rightarrow> Some tokens
   | Some (Some token, l') \<Rightarrow> queryTokens u (tokens @ [token]) l')"
  by pat_completeness auto
termination
proof (relation "measure (\<lambda>(u, tokens, l). length (lx_rest l))", goal_cases)
  case (2 u tokens l x t l' token)
  then show ?case using readQueryToken_spec [of u l] by auto
qed simp

declare queryTokens.simps [simp del]

lemma queryTokens_total: "\<exists>ts. queryTokens u tokens l = Some ts"
proof (induction u tokens l rule: queryTokens.induct)
  case (1 u tokens l)
  obtain x l' where x: "readQueryToken u l = Some (x, l')" using readQueryToken_spec by blast
  show ?case
  proof (cases x)
    case None
    with x show ?thesis by (subst queryTokens.simps) simp
  next
    case (Some t)
    with x 1 [OF x refl Some] show ?thesis by (subst queryTokens.simps) simp
  qed
qed

section \<open>Writing the query\<close>

text \<open>The tokens inside a parenthesis that is open \<open>depth\<close> times.\<close>

fun parensTokens :: "nat \<Rightarrow> token_value list \<Rightarrow> token_value list" where
  "parensTokens depth [] = []"
| "parensTokens depth (t # ts) =
    (let depth1 = (if tk_Token t = TokenOpenParens then depth + 1 else depth) in
     if tk_Token t = TokenCloseParens then
       (if depth1 - 1 = 0 then [] else t # parensTokens (depth1 - 1) ts)
     else t # parensTokens depth1 ts)"

lemma parensTokens_length: "length (parensTokens d ts) \<le> length ts"
  by (induction d ts rule: parensTokens.induct) (auto simp: Let_def)

text \<open>
  \<open>addExpr\<close>: the parts with the operator, the negation and the expression appended, and the
  tokens left, without a wildcard that belongs to the expression.
\<close>

definition addExpr ::
  "runes \<Rightarrow> runes list \<Rightarrow> runes \<Rightarrow> bool \<Rightarrow> token_value list \<Rightarrow> runes list \<times> token_value list" where
  "addExpr expr parts operator negated rest =
    (let parts1 = (if parts = [] then parts
           else if operator = OperatorOr then parts @ [runes_of ''|'']
           else if operator = OperatorFollowedBy then parts @ [runes_of ''<->'']
           else parts @ [runes_of ''&'']);
         parts2 = (if negated then parts1 @ [runes_of ''!''] else parts1);
         wild = (rest \<noteq> [] \<and> tk_Token (hd rest) = TokenWildcard);
         expr1 = (if wild then expr @ runes_of '':*'' else expr) in
     (parts2 @ [expr1], if wild then tl rest else rest))"

lemma addExpr_rest: "(ps', rest') = addExpr e ps op ng rest \<Longrightarrow> length rest' \<le> length rest"
  by (auto simp: addExpr_def Let_def)

function tsqueryParts ::
  "unicode \<Rightarrow> xlit \<Rightarrow> token_value list \<Rightarrow> runes list \<Rightarrow> runes \<Rightarrow> bool \<Rightarrow> runes list option" where
  "tsqueryParts u tables [] parts operator negated = Some parts"
| "tsqueryParts u tables (token # rest) parts operator negated =
    (case tk_Token token of
       TokenOperator \<Rightarrow> tsqueryParts u tables rest parts (tk_Value token) negated
     | TokenNegation \<Rightarrow> tsqueryParts u tables rest parts operator True
     | TokenQuoted \<Rightarrow>
         (case TokenizeFlat u tables (tk_Value token) of
            None \<Rightarrow> None
          | Some tokenized \<Rightarrow>
              (let quotedWords = map (\<lambda>w. quoteLexeme w False) tokenized in
               if quotedWords \<noteq> [] then
                 (let (parts', rest') = addExpr (JoinRunes quotedWords (runes_of '' <-> ''))
                    parts operator negated rest in
                  tsqueryParts u tables rest' parts' [] False)
               else tsqueryParts u tables rest parts operator negated))
     | TokenPhrase \<Rightarrow>
         (case Tokenize u tables (tk_Value token) of
            None \<Rightarrow> None
          | Some tokenized \<Rightarrow>
              (let phrases = map (\<lambda>ws. JoinRunes (map (\<lambda>w. quoteLexeme w False) ws) (runes_of '' <-> ''))
                 (filter (\<lambda>ws. ws \<noteq> []) tokenized) in
               if phrases \<noteq> [] then
                 (let (parts', rest') = addExpr (JoinRunes phrases (runes_of '' & ''))
                    parts operator negated rest in
                  tsqueryParts u tables rest' parts' [] False)
               else tsqueryParts u tables rest parts operator negated))
     | TokenOpenParens \<Rightarrow>
         (let inner = parensTokens 1 rest; rest1 = drop (length inner) rest in
          case tsqueryParts u tables inner [] [] False of
            None \<Rightarrow> None
          | Some innerParts \<Rightarrow>
              (let parensExpr = JoinRunes innerParts [32] in
               if parensExpr \<noteq> [] then
                 (let (parts', rest') = addExpr (40 # parensExpr @ [41]) parts operator negated rest1 in
                  tsqueryParts u tables rest' parts' [] False)
               else tsqueryParts u tables rest1 parts operator negated))
     | TokenCloseParens \<Rightarrow> tsqueryParts u tables rest parts operator negated
     | TokenWildcard \<Rightarrow> tsqueryParts u tables rest parts operator negated)"
  by pat_completeness auto
termination
  by (relation "measure (\<lambda>(u, tables, tokens, parts, operator, negated). length tokens)")
    (auto simp: less_Suc_eq_le parensTokens_length dest!: addExpr_rest)

definition appQueryTokensToTsquery :: "unicode \<Rightarrow> xlit \<Rightarrow> token_value list \<Rightarrow> runes option" where
  "appQueryTokensToTsquery u tables tokens = do {
     parts \<leftarrow> tsqueryParts u tables tokens [] [] False;
     Some (JoinRunes parts [32]) }"

definition AppQueryToTsquery :: "unicode \<Rightarrow> xlit \<Rightarrow> runes \<Rightarrow> runes option" where
  "AppQueryToTsquery u tables str = do {
     tokens \<leftarrow> queryTokens u [] (NewLexer str);
     appQueryTokensToTsquery u tables tokens }"

declare tsqueryParts.simps [simp del]

section \<open>Every query is well formed\<close>

text \<open>A lexeme: plain word characters, or a quoted text that needs no escape.\<close>

definition operand :: "runes \<Rightarrow> bool" where
  "operand w \<longleftrightarrow> w \<noteq> [] \<and> \<not> list_ex nonWordChar w \<or>
    (\<exists>q. q \<noteq> [] \<and> plain q \<and> w = 39 # q @ [39])"

definition tsqueryOp :: "runes \<Rightarrow> bool" where
  "tsqueryOp s \<longleftrightarrow> s \<in> {runes_of ''&'', runes_of ''|'', runes_of ''<->''}"

inductive tsquery :: "runes \<Rightarrow> bool" where
  Lexeme: "operand w \<Longrightarrow> tsquery w"
| Prefix: "operand w \<Longrightarrow> tsquery (w @ runes_of '':*'')"
| Negated: "tsquery a \<Longrightarrow> tsquery (runes_of ''! '' @ a)"
| Parens: "tsquery a \<Longrightarrow> tsquery (40 # a @ [41])"
| Binary: "tsquery a \<Longrightarrow> tsqueryOp p \<Longrightarrow> tsquery b \<Longrightarrow> tsquery (a @ 32 # p @ 32 # b)"

lemma tsquery_not_empty: "tsquery a \<Longrightarrow> a \<noteq> []"
  by (induction rule: tsquery.induct) (auto simp: operand_def)

lemma plain_ReplaceRune: "plain w \<Longrightarrow> ReplaceRune 39 [39, 39] w = w"
  by (induction w) (auto simp: plain_def)

lemma operand_quoteLexeme: "w \<noteq> [] \<Longrightarrow> plain w \<Longrightarrow> operand (quoteLexeme w False)"
  by (auto simp: operand_def quoteLexeme_def plain_ReplaceRune)

text \<open>An expression that may be followed by a wildcard.\<close>

definition starrable :: "runes \<Rightarrow> bool" where
  "starrable x \<longleftrightarrow> tsquery x \<and> tsquery (x @ runes_of '':*'')"

lemma starrable_operand: "operand w \<Longrightarrow> starrable w"
  using Prefix [of w] by (simp add: starrable_def Lexeme)

lemma starrable_Join:
  assumes "xs \<noteq> []" "\<forall>x\<in>set xs. starrable x" "tsqueryOp p"
  shows "starrable (JoinRunes xs (32 # p @ [32]))"
  using assms(1,2)
proof (induction xs)
  case (Cons x xs)
  show ?case
  proof (cases "xs = []")
    case False
    with Cons have "starrable x" "starrable (JoinRunes xs (32 # p @ [32]))" by auto
    then show ?thesis
      using Binary [OF _ assms(3), of x "JoinRunes xs (32 # p @ [32])"]
        Binary [OF _ assms(3), of x "JoinRunes xs (32 # p @ [32]) @ runes_of '':*''"]
      by (simp add: starrable_def JoinRunes_Cons False)
  qed (use Cons in simp)
qed simp

lemma JoinRunes_append:
  "xs \<noteq> [] \<Longrightarrow> ys \<noteq> [] \<Longrightarrow> JoinRunes (xs @ ys) sep = JoinRunes xs sep @ sep @ JoinRunes ys sep"
proof (induction xs)
  case (Cons x xs)
  then show ?case by (cases xs) (auto simp: JoinRunes_Cons)
qed simp

definition parts_ok :: "runes list \<Rightarrow> bool" where
  "parts_ok parts \<longleftrightarrow> parts = [] \<or> tsquery (JoinRunes parts [32])"

lemma addExpr_ok:
  assumes "parts_ok parts" "tsquery expr"
    and "rest \<noteq> [] \<and> tk_Token (hd rest) = TokenWildcard \<Longrightarrow> starrable expr"
  shows "parts_ok (fst (addExpr expr parts operator negated rest))"
proof -
  define e where "e = (if rest \<noteq> [] \<and> tk_Token (hd rest) = TokenWildcard then expr @ runes_of '':*'' else expr)"
  define p where "p = (if operator = OperatorOr then runes_of ''|''
    else if operator = OperatorFollowedBy then runes_of ''<->'' else runes_of ''&'')"
  have e: "tsquery (if negated then runes_of ''! '' @ e else e)"
    using assms(2,3) Negated [of e] by (auto simp: e_def starrable_def)
  have p: "tsqueryOp p" by (simp add: p_def tsqueryOp_def)
  have fst: "fst (addExpr expr parts operator negated rest) =
      ((if parts = [] then [] else parts @ [p]) @ (if negated then [runes_of ''!''] else [])) @ [e]"
    by (simp add: addExpr_def Let_def e_def p_def)
  show ?thesis
  proof (cases "parts = []")
    case True
    with e show ?thesis unfolding parts_ok_def fst by (cases negated) simp_all
  next
    case False
    with assms(1) have "tsquery (JoinRunes parts [32])" by (simp add: parts_ok_def)
    from Binary [OF this p e] False show ?thesis
      unfolding parts_ok_def fst
      by (cases negated) (simp_all add: JoinRunes_append)
  qed
qed

lemma parensTokens_next:
  "drop (length (parensTokens d ts)) ts = [] \<or>
    tk_Token (hd (drop (length (parensTokens d ts)) ts)) = TokenCloseParens"
  by (induction d ts rule: parensTokens.induct) (auto simp: Let_def)

lemma quoted_starrable:
  assumes "unicode_ok u" "concat (tokensOf u t s) \<noteq> []"
  shows "starrable (JoinRunes (map (\<lambda>w. quoteLexeme w False) (concat (tokensOf u t s))) (runes_of '' <-> ''))"
proof -
  have "starrable (JoinRunes (map (\<lambda>w. quoteLexeme w False) (concat (tokensOf u t s)))
      (32 # runes_of ''<->'' @ [32]))"
    using assms tokensOf_plain [OF assms(1)]
    by (intro starrable_Join) (auto simp: tsqueryOp_def intro!: starrable_operand operand_quoteLexeme)
  then show ?thesis by simp
qed

lemma phrases_starrable:
  assumes "unicode_ok u" "tokensOf u t s \<noteq> []"
  shows "starrable (JoinRunes (map (\<lambda>ws. JoinRunes (map (\<lambda>w. quoteLexeme w False) ws) (runes_of '' <-> ''))
    (filter (\<lambda>ws. ws \<noteq> []) (tokensOf u t s))) (runes_of '' & ''))"
proof -
  have phrase: "starrable (JoinRunes (map (\<lambda>w. quoteLexeme w False) ws) (32 # runes_of ''<->'' @ [32]))"
    if "ws \<in> set (tokensOf u t s)" for ws
    using tokensOf_plain [OF assms(1) that]
    by (intro starrable_Join) (auto simp: tsqueryOp_def intro!: starrable_operand operand_quoteLexeme)
  obtain ws where "ws \<in> set (tokensOf u t s)" using assms(2) by (cases "tokensOf u t s") auto
  moreover from this have "ws \<noteq> []" using tokensOf_plain [OF assms(1)] by blast
  ultimately have "filter (\<lambda>ws. ws \<noteq> []) (tokensOf u t s) \<noteq> []" by (auto simp: filter_empty_conv)
  then have "starrable (JoinRunes (map (\<lambda>ws. JoinRunes (map (\<lambda>w. quoteLexeme w False) ws) (32 # runes_of ''<->'' @ [32]))
      (filter (\<lambda>ws. ws \<noteq> []) (tokensOf u t s))) (32 # runes_of ''&'' @ [32]))"
    using phrase by (intro starrable_Join) (auto simp: tsqueryOp_def)
  then show ?thesis by simp
qed

lemma tsqueryParts_ok:
  assumes "unicode_ok u"
  shows "parts_ok parts \<Longrightarrow> \<exists>ps. tsqueryParts u t tokens parts operator negated = Some ps \<and> parts_ok ps"
proof (induction "length tokens" arbitrary: tokens parts operator negated rule: less_induct)
  case less
  show ?case
  proof (cases tokens)
    case Nil
    with less.prems show ?thesis by (simp add: tsqueryParts.simps)
  next
    case (Cons token rest)
    note unfolded = tsqueryParts.simps(2) [of u t token rest parts operator negated, folded Cons]
    have tail: "\<exists>ps. tsqueryParts u t ts parts p n = Some ps \<and> parts_ok ps"
      if "length ts \<le> length rest" for ts p n
      using less.hyps [of ts parts p n] less.prems that Cons by simp
    have added: "\<exists>ps. (case addExpr e parts operator negated ts of
          (parts', rest') \<Rightarrow> tsqueryParts u t rest' parts' [] False) = Some ps \<and> parts_ok ps"
      if "tsquery e" "ts \<noteq> [] \<and> tk_Token (hd ts) = TokenWildcard \<Longrightarrow> starrable e"
        "length ts \<le> length rest" for e ts
    proof -
      obtain ps' rest' where add: "addExpr e parts operator negated ts = (ps', rest')" by fastforce
      with addExpr_ok [OF less.prems that(1,2), of ts operator negated] have "parts_ok ps'" by simp
      moreover have "length rest' \<le> length rest" using addExpr_rest [OF add [symmetric]] that(3) by simp
      ultimately show ?thesis using less.hyps [of rest' ps' "[]" False] Cons add by simp
    qed
    show ?thesis
    proof (cases "tk_Token token")
      case TokenQuoted
      show ?thesis
      proof (cases "concat (tokensOf u t (tk_Value token)) = []")
        case True
        with TokenQuoted show ?thesis using tail [of rest] by (simp add: unfolded)
      next
        case False
        from quoted_starrable [OF assms False] TokenQuoted False show ?thesis
          using added [of _ rest] by (simp add: unfolded starrable_def)
      qed
    next
      case TokenPhrase
      show ?thesis
      proof (cases "tokensOf u t (tk_Value token) = []")
        case True
        with TokenPhrase show ?thesis using tail [of rest] by (simp add: unfolded)
      next
        case False
        note star = phrases_starrable [OF assms False]
        from added [of _ rest, OF star [unfolded starrable_def, THEN conjunct1] star] TokenPhrase
        show ?thesis using tail [of rest] by (simp add: unfolded Let_def)
      qed
    next
      case TokenOpenParens
      let ?inner = "parensTokens 1 rest"
      have "parts_ok []" by (simp add: parts_ok_def)
      then obtain inner where inner: "tsqueryParts u t ?inner [] [] False = Some inner" "parts_ok inner"
        using less.hyps [of ?inner "[]" "[]" False] parensTokens_length [of 1 rest] Cons by auto
      show ?thesis
      proof (cases "JoinRunes inner [32] = []")
        case True
        with inner(1) TokenOpenParens show ?thesis
          using tail [of "drop (length ?inner) rest"] by (simp add: unfolded Let_def)
      next
        case False
        with inner(2) have "tsquery (JoinRunes inner [32])" by (auto simp: parts_ok_def)
        from added [OF Parens [OF this], of "drop (length ?inner) rest"] parensTokens_next [of 1 rest]
          inner(1) False TokenOpenParens
        show ?thesis by (auto simp: unfolded Let_def)
      qed
    qed (use tail [of rest] in \<open>simp_all add: unfolded\<close>)
  qed
qed

lemma AppQueryToTsquery_total:
  assumes "unicode_ok u"
  shows "AppQueryToTsquery u tables str \<noteq> None"
proof -
  obtain tokens where "queryTokens u [] (NewLexer str) = Some tokens" using queryTokens_total by blast
  moreover obtain ps where "tsqueryParts u tables tokens [] [] False = Some ps"
    using tsqueryParts_ok [OF assms, of "[]" tables tokens "[]" False] by (auto simp: parts_ok_def)
  ultimately show ?thesis by (simp add: AppQueryToTsquery_def appQueryTokensToTsquery_def)
qed

text \<open>C33. Whatever a user types, the search box neither panics nor hangs, and the text it sends to the
  database is empty or a well-formed \<open>tsquery\<close>: unbalanced parentheses, dangling operators,
  open quotes, stray wildcards and characters of any script are absorbed.\<close>

theorem AppQueryToTsquery_wellformed:
  assumes "unicode_ok u"
  shows "\<exists>q. AppQueryToTsquery u tables str = Some q \<and> (q = [] \<or> tsquery q)"
proof -
  obtain tokens where "queryTokens u [] (NewLexer str) = Some tokens" using queryTokens_total by blast
  moreover obtain ps where "tsqueryParts u tables tokens [] [] False = Some ps" "parts_ok ps"
    using tsqueryParts_ok [OF assms, of "[]" tables tokens "[]" False] by (auto simp: parts_ok_def)
  ultimately show ?thesis
    by (auto simp: AppQueryToTsquery_def appQueryTokensToTsquery_def parts_ok_def)
qed

theorem AppQueryToTsquery_wellformed_witness:
  "(\<exists>q. AppQueryToTsquery asciiOnly (\<lambda>_. None) (runes_of '')a|(!(b*'') = Some q \<and> (q = [] \<or> tsquery q)) \<and>
    AppQueryToTsquery asciiOnly (\<lambda>_. None) (runes_of '')a|(!(b*'') = Some (runes_of ''a | (! (b:*))'')"
proof
  show "\<exists>q. AppQueryToTsquery asciiOnly (\<lambda>_. None) (runes_of '')a|(!(b*'') = Some q \<and> (q = [] \<or> tsquery q)"
    by (rule AppQueryToTsquery_wellformed [OF asciiOnly_ok])
  show "AppQueryToTsquery asciiOnly (\<lambda>_. None) (runes_of '')a|(!(b*'') = Some (runes_of ''a | (! (b:*))'')"
    by code_simp
qed

end
