(* ===== verification/DateParser.thy ===== *)
theory DateParser
  imports FtsLexer
begin

text \<open>
  Dates, and how a date is found in the name of a torrent: \<open>src/internal/model/date.go\<close> and
  \<open>src/internal/classifier/parsers_date.go\<close>.

  A \<open>Date\<close> has a 16-bit year, a month and an 8-bit day, here numbers; a zero field is unknown and
  the date of zeros is nil.  The loop over the parts moves its index in its body; it is a
  recursion on the index, and reading a part out of range is the panic \<open>None\<close>.
\<close>

section \<open>Dates\<close>

record date =
  d_Year :: nat
  d_Month :: nat
  d_Day :: nat

definition nilDate :: date where
  "nilDate = \<lparr>d_Year = 0, d_Month = 0, d_Day = 0\<rparr>"

definition date_IsNil :: "date \<Rightarrow> bool" where
  "date_IsNil d \<longleftrightarrow> d = nilDate"

definition numDaysInMonth :: "nat \<Rightarrow> nat \<Rightarrow> nat" where
  "numDaysInMonth year month =
    (if month \<in> {1, 3, 5, 7, 8, 10, 12} then 31
     else if month \<in> {4, 6, 9, 11} then 30
     else if month = 2 then (if year mod 4 = 0 then 29 else 28)
     else 0)"

definition date_IsValid :: "date \<Rightarrow> bool" where
  "date_IsValid d \<longleftrightarrow> 1000 \<le> d_Year d \<and> d_Year d \<le> 9999 \<and> 1 \<le> d_Month d \<and> d_Month d \<le> 12 \<and>
    1 \<le> d_Day d \<and> d_Day d \<le> numDaysInMonth (d_Year d) (d_Month d)"

text \<open>The calendar of Go's package \<open>time\<close>, which knows the exceptions of the centuries.\<close>

definition isLeap :: "int \<Rightarrow> bool" where
  "isLeap y \<longleftrightarrow> y mod 4 = 0 \<and> (y mod 100 \<noteq> 0 \<or> y mod 400 = 0)"

definition daysBefore :: "int list" where
  "daysBefore = [0, 31, 59, 90, 120, 151, 181, 212, 243, 273, 304, 334, 365]"

definition daysIn :: "int \<Rightarrow> nat \<Rightarrow> int" where
  "daysIn y m = (if m = 2 \<and> isLeap y then 29 else daysBefore ! m - daysBefore ! (m - 1))"

text \<open>
  The Unix time of \<open>Date.Time\<close>: months out of range carry into the year, days count on from the
  first of the month; \<open>477\<close> leap days lie before 1970.
\<close>

definition date_Unix :: "date \<Rightarrow> int" where
  "date_Unix d =
    (let m = int (d_Month d) - 1; y = int (d_Year d) + m div 12; mm = nat (m mod 12);
         leaps = (y - 1) div 4 - (y - 1) div 100 + (y - 1) div 400 - 477;
         days = 365 * (y - 1970) + leaps + daysBefore ! mm +
           (if 2 \<le> mm \<and> isLeap y then 1 else 0) + (int (d_Day d) - 1) in
     86400 * days)"

section \<open>The parts of a name\<close>

datatype date_part_format =
  datePart1Digit | datePart2Digits | datePart4Digits | datePartStrMonth | datePartWordChars
| datePartNonWordChars

record date_part =
  dp_Date :: date
  dp_format :: date_part_format
  dp_literal :: runes

definition strMonths :: "(runes \<times> nat) list" where
  "strMonths = map (apfst runes_of)
    [(''jan'', 1), (''feb'', 2), (''mar'', 3), (''apr'', 4), (''may'', 5), (''jun'', 6), (''jul'', 7),
     (''aug'', 8), (''sep'', 9), (''oct'', 10), (''nov'', 11), (''dec'', 12), (''january'', 1),
     (''february'', 2), (''march'', 3), (''april'', 4), (''june'', 6), (''july'', 7), (''august'', 8),
     (''september'', 9), (''october'', 10), (''november'', 11), (''december'', 12)]"

definition separators :: "runes list" where
  "separators = map runes_of [''.'', ''-'', ''/'', '' '']"

text \<open>The expressions \<open>^\d{n}$\<close>, and the number they let through.\<close>

definition regexDigits :: "nat \<Rightarrow> runes \<Rightarrow> bool" where
  "regexDigits n s \<longleftrightarrow> length s = n \<and> list_all IsInt s"

definition digitsValue :: "runes \<Rightarrow> nat" where
  "digitsValue s = foldl (\<lambda>a r. 10 * a + (r - 48)) 0 s"

definition withMonthDay :: "nat \<Rightarrow> date \<Rightarrow> date" where
  "withMonthDay i d = (let d1 = (if 1 \<le> i \<and> i \<le> 12 then d\<lparr>d_Month := i\<rparr> else d) in
     if 1 \<le> i \<and> i \<le> 31 then d1\<lparr>d_Day := i\<rparr> else d1)"

definition wordPart :: "unicode \<Rightarrow> runes \<Rightarrow> date_part" where
  "wordPart u str = (case map_of strMonths (map (ToLower u) str) of
     Some m \<Rightarrow> \<lparr>dp_Date = nilDate\<lparr>d_Month := m\<rparr>, dp_format = datePartStrMonth, dp_literal = str\<rparr>
   | None \<Rightarrow>
       (let i = digitsValue str in
        if regexDigits 1 str then
          \<lparr>dp_Date = withMonthDay i nilDate, dp_format = datePart1Digit, dp_literal = str\<rparr>
        else if regexDigits 2 str then
          \<lparr>dp_Date = withMonthDay i (nilDate\<lparr>d_Year := 2000 + i\<rparr>), dp_format = datePart2Digits,
           dp_literal = str\<rparr>
        else if regexDigits 4 str then
          \<lparr>dp_Date = (if 1000 \<le> i \<and> i \<le> 9999 then nilDate\<lparr>d_Year := i\<rparr> else nilDate),
           dp_format = datePart4Digits, dp_literal = str\<rparr>
        else \<lparr>dp_Date = nilDate, dp_format = datePartWordChars, dp_literal = str\<rparr>))"

definition nonWordPart :: "runes \<Rightarrow> date_part" where
  "nonWordPart str = \<lparr>dp_Date = nilDate, dp_format = datePartNonWordChars, dp_literal = str\<rparr>"

definition lexDatePart :: "unicode \<Rightarrow> lexer \<Rightarrow> (date_part \<times> lexer) option" where
  "lexDatePart u l = do {
     (str, l1) \<leftarrow> ReadWhile (IsWordChar u) l;
     if str = [] then do {
       (other, l2) \<leftarrow> ReadWhile (IsNonWordChar u) l1;
       Some (nonWordPart other, l2) }
     else Some (wordPart u str, l1) }"

lemma lexDatePart_shorter:
  assumes "lexDatePart u l = Some (p, l')" "lx_rest l \<noteq> []"
  shows "length (lx_rest l') < length (lx_rest l)"
  using assms
  by (cases "lx_rest l")
    (auto simp: lexDatePart_def IsNonWordChar_def less_Suc_eq_le length_dropWhile_le split: if_splits)

function lexDateParts :: "unicode \<Rightarrow> date_part list \<Rightarrow> lexer \<Rightarrow> date_part list option" where
  "lexDateParts u parts l = (case IsEOF l of
     None \<Rightarrow> None
   | Some (True, l1) \<Rightarrow> Some parts
   | Some (False, l1) \<Rightarrow>
       (case lexDatePart u l1 of
          None \<Rightarrow> None
        | Some (p, l2) \<Rightarrow> lexDateParts u (parts @ [p]) l2))"
  by pat_completeness auto
termination
  by (relation "measure (\<lambda>(u, parts, l). length (lx_rest l))") (auto dest: lexDatePart_shorter)

declare lexDateParts.simps [simp del]

text \<open>\<open>time.Parse("2006-01-02", str)\<close>.\<close>

definition NewDateFromIsoString :: "runes \<Rightarrow> date option" where
  "NewDateFromIsoString s =
    (let y = digitsValue (take 4 s); m = digitsValue (take 2 (drop 5 s)); d = digitsValue (drop 8 s) in
     if length s = 10 \<and> list_all IsInt (take 4 s) \<and> s ! 4 = 45 \<and>
       list_all IsInt (take 2 (drop 5 s)) \<and> s ! 7 = 45 \<and> list_all IsInt (drop 8 s) \<and>
       1 \<le> m \<and> m \<le> 12 \<and> 1 \<le> d \<and> int d \<le> daysIn (int y) m
     then Some \<lparr>d_Year = y, d_Month = m, d_Day = d\<rparr> else None)"

section \<open>The date among the parts\<close>

definition findFirstValidDate :: "date \<Rightarrow> date \<Rightarrow> date \<Rightarrow> date" where
  "findFirstValidDate part1 part2 part3 =
    (let ymd = \<lparr>d_Year = d_Year part1, d_Month = d_Month part2, d_Day = d_Day part3\<rparr>;
         dmy = \<lparr>d_Year = d_Year part3, d_Month = d_Month part2, d_Day = d_Day part1\<rparr>;
         mdy = \<lparr>d_Year = d_Year part3, d_Month = d_Month part1, d_Day = d_Day part2\<rparr> in
     if d_Year part1 \<noteq> 0 \<and> d_Month part2 \<noteq> 0 \<and> d_Day part3 \<noteq> 0 \<and> date_IsValid ymd then ymd
     else if d_Day part1 \<noteq> 0 \<and> d_Month part2 \<noteq> 0 \<and> d_Year part3 \<noteq> 0 \<and> date_IsValid dmy then dmy
     else if d_Month part1 \<noteq> 0 \<and> d_Day part2 \<noteq> 0 \<and> d_Year part3 \<noteq> 0 \<and> date_IsValid mdy then mdy
     else nilDate)"

definition partAt :: "date_part list \<Rightarrow> nat \<Rightarrow> date_part option" where
  "partAt parts i = (if i < length parts then Some (parts ! i) else None)"

abbreviation isBreak :: "date_part \<Rightarrow> bool" where
  "isBreak p \<equiv> dp_format p = datePartNonWordChars"

text \<open>The condition on the third part: it has a date, and ends the name or its word.\<close>

definition endsWord :: "date_part list \<Rightarrow> nat \<Rightarrow> date_part \<Rightarrow> bool option" where
  "endsWord parts i part3 =
    (if date_IsNil (dp_Date part3) then Some False
     else if i = length parts - 1 then Some True
     else do { next \<leftarrow> partAt parts (i + 1); Some (isBreak next) })"

function lexDateLoop :: "date_part list \<Rightarrow> nat \<Rightarrow> bool \<Rightarrow> date option" where
  "lexDateLoop parts i isStartOrWordBreak =
    (if i + 5 \<le> length parts then
       (case partAt parts i of None \<Rightarrow> None | Some part1 \<Rightarrow>
        if \<not> isStartOrWordBreak then lexDateLoop parts (i + 1) (isBreak part1)
        else if date_IsNil (dp_Date part1) then lexDateLoop parts (i + 1) (isBreak part1)
        else
          (case partAt parts (i + 1) of None \<Rightarrow> None | Some sep \<Rightarrow>
           if \<not> isBreak sep then lexDateLoop parts (i + 2) False
           else if dp_literal sep \<notin> set separators then lexDateLoop parts (i + 2) True
           else
             (case partAt parts (i + 2) of None \<Rightarrow> None | Some part2 \<Rightarrow>
              if date_IsNil (dp_Date part2) then lexDateLoop parts (i + 3) (isBreak part2)
              else
                (case partAt parts (i + 3) of None \<Rightarrow> None | Some sep2 \<Rightarrow>
                 if dp_literal sep2 \<noteq> dp_literal sep then lexDateLoop parts (i + 4) (isBreak sep2)
                 else
                   (case partAt parts (i + 4) of None \<Rightarrow> None | Some part3 \<Rightarrow>
                    (case endsWord parts (i + 4) part3 of
                       None \<Rightarrow> None
                     | Some True \<Rightarrow>
                         (let d = findFirstValidDate (dp_Date part1) (dp_Date part2) (dp_Date part3) in
                          if \<not> date_IsNil d then Some d else lexDateLoop parts (i + 5) False)
                     | Some False \<Rightarrow> lexDateLoop parts (i + 5) (isBreak part3)))))))
     else Some nilDate)"
  by pat_completeness auto
termination
  by (relation "measure (\<lambda>(parts, i, b). length parts - i)") auto

declare lexDateLoop.simps [simp del]

definition lexDate :: "unicode \<Rightarrow> lexer \<Rightarrow> date option" where
  "lexDate u l = do { parts \<leftarrow> lexDateParts u [] l; lexDateLoop parts 0 True }"

definition ParseDate :: "unicode \<Rightarrow> runes \<Rightarrow> date option" where
  "ParseDate u str = lexDate u (NewLexer str)"

section \<open>The parts cut the name into words and what separates them\<close>

function partsOf :: "unicode \<Rightarrow> runes \<Rightarrow> date_part list" where
  "partsOf u s =
    (if s = [] then []
     else if IsWordChar u (hd s) then
       wordPart u (takeWhile (IsWordChar u) s) # partsOf u (dropWhile (IsWordChar u) s)
     else nonWordPart (takeWhile (IsNonWordChar u) s) # partsOf u (dropWhile (IsNonWordChar u) s))"
  by pat_completeness auto
termination
proof (relation "measure (\<lambda>(u, s). length s)", goal_cases)
  case (2 u s)
  then show ?case by (cases s) (auto simp: less_Suc_eq_le length_dropWhile_le)
next
  case (3 u s)
  then show ?case by (cases s) (auto simp: IsNonWordChar_def less_Suc_eq_le length_dropWhile_le)
qed simp

declare partsOf.simps [simp del]

lemma lexDatePart_eq:
  assumes "lx_rest l \<noteq> []"
  shows "\<exists>l' p. lexDatePart u l = Some (p, l') \<and> partsOf u (lx_rest l) = p # partsOf u (lx_rest l')"
proof (cases "IsWordChar u (hd (lx_rest l))")
  case True
  with assms have "takeWhile (IsWordChar u) (lx_rest l) \<noteq> []" by (cases "lx_rest l") auto
  with assms True show ?thesis by (subst partsOf.simps) (simp add: lexDatePart_def)
next
  case False
  with assms have "takeWhile (IsWordChar u) (lx_rest l) = []" by (cases "lx_rest l") auto
  with assms False show ?thesis by (subst partsOf.simps) (simp add: lexDatePart_def)
qed

lemma lexDateParts_eq: "lexDateParts u parts l = Some (parts @ partsOf u (lx_rest l))"
proof (induction u parts l rule: lexDateParts.induct)
  case (1 u parts l)
  show ?case
  proof (cases "lx_rest l = []")
    case True
    then show ?thesis by (subst lexDateParts.simps) (simp add: partsOf.simps)
  next
    case False
    then obtain p l' where p: "lexDatePart u (kept l) = Some (p, l')"
        "partsOf u (lx_rest l) = p # partsOf u (lx_rest l')"
      using lexDatePart_eq [of "kept l" u] by auto
    with 1 [of "(False, kept l)" False "kept l" "(p, l')" p l'] False show ?thesis
      by (subst lexDateParts.simps) simp
  qed
qed

lemma wordPart_sel [simp]: "dp_literal (wordPart u s) = s" "\<not> isBreak (wordPart u s)"
  by (auto simp: wordPart_def Let_def split: option.split)

lemma nonWordPart_sel [simp]:
  "dp_literal (nonWordPart s) = s" "isBreak (nonWordPart s)" "dp_Date (nonWordPart s) = nilDate"
  by (simp_all add: nonWordPart_def)

lemma concat_partsOf: "concat (map dp_literal (partsOf u s)) = s"
proof (induction u s rule: partsOf.induct)
  case (1 u s)
  then show ?case by (subst partsOf.simps) auto
qed

text \<open>One part: a word with its date, or a separation.\<close>

definition part_ok :: "unicode \<Rightarrow> date_part \<Rightarrow> bool" where
  "part_ok u p \<longleftrightarrow> dp_literal p \<noteq> [] \<and>
    (if isBreak p then dp_Date p = nilDate \<and> list_all (IsNonWordChar u) (dp_literal p)
     else list_all (IsWordChar u) (dp_literal p) \<and> p = wordPart u (dp_literal p))"

lemma partsOf_ok:
  "(\<forall>p\<in>set (partsOf u s). part_ok u p) \<and>
    successively (\<lambda>p q. isBreak p \<noteq> isBreak q) (partsOf u s) \<and>
    (s \<noteq> [] \<longrightarrow> partsOf u s \<noteq> [] \<and> isBreak (hd (partsOf u s)) = (\<not> IsWordChar u (hd s)))"
proof (induction u s rule: partsOf.induct)
  case (1 u s)
  show ?case
  proof (cases "s = []")
    case True
    then show ?thesis by (simp add: partsOf.simps)
  next
    case False
    define w where "w = IsWordChar u (hd s)"
    define P where "P = (if w then IsWordChar u else IsNonWordChar u)"
    define p where "p = (if w then wordPart u (takeWhile P s) else nonWordPart (takeWhile P s))"
    define r where "r = dropWhile P s"
    have parts: "partsOf u s = p # partsOf u r"
      using False by (subst partsOf.simps) (simp add: w_def P_def p_def r_def)
    have IH: "(\<forall>p\<in>set (partsOf u r). part_ok u p) \<and>
        successively (\<lambda>p q. isBreak p \<noteq> isBreak q) (partsOf u r) \<and>
        (r \<noteq> [] \<longrightarrow> partsOf u r \<noteq> [] \<and> isBreak (hd (partsOf u r)) = (\<not> IsWordChar u (hd r)))"
      using 1 False by (cases w) (simp_all add: w_def P_def r_def)
    have "P (hd s)" by (simp add: P_def w_def IsNonWordChar_def)
    then have ne: "takeWhile P s \<noteq> []" using False by (cases s) auto
    have all: "list_all P (takeWhile P s)" by (auto simp: list_all_iff dest: set_takeWhileD)
    have p: "part_ok u p" "isBreak p = (\<not> w)"
      using ne all by (cases w; simp add: p_def part_ok_def P_def)+
    have "\<not> P (hd r)" if "r \<noteq> []" using that hd_dropWhile [of P s] by (simp add: r_def)
    then have alt: "r \<noteq> [] \<Longrightarrow> IsWordChar u (hd r) = (\<not> w)"
      by (auto simp: P_def IsNonWordChar_def split: if_splits)
    have "successively (\<lambda>p q. isBreak p \<noteq> isBreak q) (p # partsOf u r)"
    proof (cases "r = []")
      case True
      then show ?thesis by (simp add: partsOf.simps)
    next
      case False
      with IH p(2) alt show ?thesis by (cases "partsOf u r") auto
    qed
    with IH p show ?thesis by (simp add: parts w_def)
  qed
qed

section \<open>What the parser finds\<close>

text \<open>Where the loop stops: the five parts that made the date.\<close>

definition dateAt :: "date_part list \<Rightarrow> nat \<Rightarrow> date \<Rightarrow> bool" where
  "dateAt parts j d \<longleftrightarrow> j + 5 \<le> length parts \<and>
    \<not> date_IsNil (dp_Date (parts ! j)) \<and> \<not> date_IsNil (dp_Date (parts ! (j + 2))) \<and>
    \<not> date_IsNil (dp_Date (parts ! (j + 4))) \<and>
    dp_literal (parts ! (j + 1)) \<in> set separators \<and>
    dp_literal (parts ! (j + 3)) = dp_literal (parts ! (j + 1)) \<and>
    (j + 5 = length parts \<or> isBreak (parts ! (j + 5))) \<and>
    d = findFirstValidDate (dp_Date (parts ! j)) (dp_Date (parts ! (j + 2))) (dp_Date (parts ! (j + 4)))"

lemma endsWord_total:
  "i < length parts \<Longrightarrow> endsWord parts i p = Some
    (\<not> date_IsNil (dp_Date p) \<and> (i + 1 = length parts \<or> isBreak (parts ! (i + 1))))"
  by (auto simp: endsWord_def partAt_def)

lemma lexDateLoop_sound:
  "\<exists>d. lexDateLoop parts i b = Some d \<and> (d = nilDate \<or> (\<exists>j. dateAt parts j d))"
proof (induction "length parts - i" arbitrary: i b rule: less_induct)
  case less
  show ?case
  proof (cases "i + 5 \<le> length parts")
    case False
    then show ?thesis by (subst lexDateLoop.simps) simp
  next
    case True
    have ats: "partAt parts i = Some (parts ! i)" "partAt parts (i + 1) = Some (parts ! (i + 1))"
      "partAt parts (i + 2) = Some (parts ! (i + 2))" "partAt parts (i + 3) = Some (parts ! (i + 3))"
      "partAt parts (i + 4) = Some (parts ! (i + 4))"
      using True by (simp_all add: partAt_def)
    let ?p = "\<lambda>k. parts ! (i + k)"
    let ?d = "findFirstValidDate (dp_Date (parts ! i)) (dp_Date (?p 2)) (dp_Date (?p 4))"
    have later: "\<exists>d. lexDateLoop parts (i + k) b' = Some d \<and> (d = nilDate \<or> (\<exists>j. dateAt parts j d))"
      if "0 < k" for k b'
      using less [of "i + k" b'] True that by simp
    have later1: "\<exists>d. lexDateLoop parts (i + 1) b' = Some d \<and> (d = nilDate \<or> (\<exists>j. dateAt parts j d))"
      and later2: "\<exists>d. lexDateLoop parts (i + 2) b' = Some d \<and> (d = nilDate \<or> (\<exists>j. dateAt parts j d))"
      and later3: "\<exists>d. lexDateLoop parts (i + 3) b' = Some d \<and> (d = nilDate \<or> (\<exists>j. dateAt parts j d))"
      and later4: "\<exists>d. lexDateLoop parts (i + 4) b' = Some d \<and> (d = nilDate \<or> (\<exists>j. dateAt parts j d))" for b'
      by (rule later, simp)+
    have ends: "endsWord parts (i + 4) (?p 4) =
        Some (\<not> date_IsNil (dp_Date (?p 4)) \<and> (i + 5 = length parts \<or> isBreak (?p 5)))"
      using endsWord_total [of "i + 4" parts "?p 4"] True by (simp add: add.commute)
    have found: "\<exists>j. dateAt parts j ?d"
      if "\<not> date_IsNil (dp_Date (parts ! i))" "\<not> date_IsNil (dp_Date (?p 2))"
        "dp_literal (?p 1) \<in> set separators" "dp_literal (?p 3) = dp_literal (?p 1)"
        "\<not> date_IsNil (dp_Date (?p 4)) \<and> (i + 5 = length parts \<or> isBreak (?p 5))"
      using that True by (intro exI [of _ i]) (simp add: dateAt_def)
    define X where "X = (case endsWord parts (i + 4) (?p 4) of
           None \<Rightarrow> None
         | Some True \<Rightarrow> (if \<not> date_IsNil ?d then Some ?d else lexDateLoop parts (i + 5) False)
         | Some False \<Rightarrow> lexDateLoop parts (i + 5) (isBreak (?p 4)))"
    have third: "\<exists>d. X = Some d \<and> (d = nilDate \<or> (\<exists>j. dateAt parts j d))"
      if "\<not> date_IsNil (dp_Date (parts ! i))" "\<not> date_IsNil (dp_Date (?p 2))"
        "dp_literal (?p 1) \<in> set separators" "dp_literal (?p 3) = dp_literal (?p 1)"
      unfolding X_def ends using later [of 5] found [OF that] by (auto split: bool.split)
    show ?thesis
      unfolding lexDateLoop.simps [of parts i b] if_P [OF True] ats option.case Let_def X_def [symmetric]
      using later1 later2 later3 later4 third by (simp only: split: if_split) blast?
  qed
qed

lemma findFirstValidDate_valid:
  "\<not> date_IsNil (findFirstValidDate a b c) \<Longrightarrow> date_IsValid (findFirstValidDate a b c)"
  by (simp add: findFirstValidDate_def Let_def date_IsNil_def split: if_splits)

lemma ParseDate_eq: "ParseDate u s = lexDateLoop (partsOf u s) 0 True"
  by (simp add: ParseDate_def lexDate_def lexDateParts_eq)

lemma split_at: "j < length xs \<Longrightarrow> xs = take j xs @ xs ! j # drop (Suc j) xs"
  by (simp add: id_take_nth_drop)

lemma split_five:
  "j + 5 \<le> length xs \<Longrightarrow>
    xs = take j xs @ xs ! j # xs ! (j + 1) # xs ! (j + 2) # xs ! (j + 3) # xs ! (j + 4) # drop (j + 5) xs"
  by (simp add: Cons_nth_drop_Suc numeral_eq_Suc)

lemma dateAt_text:
  assumes "dateAt (partsOf u s) j d"
  shows "\<exists>pre a sep b c post. s = pre @ a @ sep @ b @ sep @ c @ post \<and> sep \<in> set separators \<and>
    list_all (IsWordChar u) a \<and> list_all (IsWordChar u) b \<and> list_all (IsWordChar u) c \<and>
    (pre = [] \<or> \<not> IsWordChar u (last pre)) \<and> (post = [] \<or> \<not> IsWordChar u (hd post)) \<and>
    d = findFirstValidDate (dp_Date (wordPart u a)) (dp_Date (wordPart u b)) (dp_Date (wordPart u c))"
proof -
  let ?ps = "partsOf u s"
  let ?lit = "\<lambda>k. dp_literal (?ps ! k)"
  from assms have j: "j + 5 \<le> length ?ps" by (simp add: dateAt_def)
  have ok: "part_ok u (?ps ! k)" if "k < length ?ps" for k
    using that partsOf_ok [of u s] nth_mem by blast
  have word: "list_all (IsWordChar u) (?lit k) \<and> ?ps ! k = wordPart u (?lit k)"
    if "k < length ?ps" "\<not> date_IsNil (dp_Date (?ps ! k))" for k
    using ok [OF that(1)] that(2) unfolding part_ok_def date_IsNil_def by presburger
  have alternate: "isBreak (?ps ! k) \<noteq> isBreak (?ps ! Suc k)" if "Suc k < length ?ps" for k
    using partsOf_ok [of u s] that by (auto simp: successively_conv_nth)
  define pre where "pre = concat (map dp_literal (take j ?ps))"
  define post where "post = concat (map dp_literal (drop (j + 5) ?ps))"
  have w0: "list_all (IsWordChar u) (?lit j)" "?ps ! j = wordPart u (?lit j)"
    and w2: "list_all (IsWordChar u) (?lit (j + 2))" "?ps ! (j + 2) = wordPart u (?lit (j + 2))"
    and w4: "list_all (IsWordChar u) (?lit (j + 4))" "?ps ! (j + 4) = wordPart u (?lit (j + 4))"
    using word [of j] word [of "j + 2"] word [of "j + 4"] assms j by (simp_all add: dateAt_def)
  have "s = concat (map dp_literal ?ps)" by (simp add: concat_partsOf)
  also have "\<dots> = pre @ ?lit j @ ?lit (j + 1) @ ?lit (j + 2) @ ?lit (j + 3) @ ?lit (j + 4) @ post"
    unfolding pre_def post_def by (subst split_five [OF j]) simp
  finally have "s = pre @ ?lit j @ ?lit (j + 1) @ ?lit (j + 2) @ ?lit (j + 1) @ ?lit (j + 4) @ post"
    using assms by (simp add: dateAt_def)
  moreover have "pre = [] \<or> \<not> IsWordChar u (last pre)"
  proof (cases j)
    case 0
    then show ?thesis by (simp add: pre_def)
  next
    case (Suc k)
    have "\<not> isBreak (?ps ! j)" using w0(2) wordPart_sel(2) by metis
    then have "isBreak (?ps ! k)" using alternate [of k] j Suc by simp
    with ok [of k] j Suc have "?lit k \<noteq> []" "list_all (IsNonWordChar u) (?lit k)" by (simp_all add: part_ok_def)
    moreover have "pre = concat (map dp_literal (take k ?ps)) @ ?lit k"
      using j Suc by (simp add: pre_def take_Suc_conv_app_nth)
    ultimately show ?thesis by (auto simp: list_all_iff IsNonWordChar_def)
  qed
  moreover have "post = [] \<or> \<not> IsWordChar u (hd post)"
  proof (cases "j + 5 = length ?ps")
    case True
    then show ?thesis by (simp add: post_def)
  next
    case False
    with assms j have len: "j + 5 < length ?ps" and br: "isBreak (?ps ! (j + 5))" by (simp_all add: dateAt_def)
    from ok [OF len] br have "?lit (j + 5) \<noteq> []" "list_all (IsNonWordChar u) (?lit (j + 5))"
      by (simp_all add: part_ok_def)
    moreover have "post = ?lit (j + 5) @ concat (map dp_literal (drop (Suc (j + 5)) ?ps))"
      unfolding post_def by (subst Cons_nth_drop_Suc [OF len, symmetric]) simp
    ultimately show ?thesis by (cases "?lit (j + 5)") (auto simp: IsNonWordChar_def)
  qed
  moreover have "d = findFirstValidDate (dp_Date (wordPart u (?lit j))) (dp_Date (wordPart u (?lit (j + 2))))
      (dp_Date (wordPart u (?lit (j + 4))))"
    using assms w0(2) w2(2) w4(2) by (simp add: dateAt_def)
  moreover have "?lit (j + 1) \<in> set separators" using assms by (simp add: dateAt_def)
  ultimately show ?thesis using w0(1) w2(1) w4(1) by blast
qed

text \<open>\<open>%0kd\<close>, and the ISO form of a date.\<close>

fun padded :: "nat \<Rightarrow> nat \<Rightarrow> runes" where
  "padded 0 n = []"
| "padded (Suc k) n = padded k (n div 10) @ [48 + n mod 10]"

definition isoText :: "date \<Rightarrow> runes" where
  "isoText d = padded 4 (d_Year d) @ 45 # padded 2 (d_Month d) @ 45 # padded 2 (d_Day d)"

lemma padded_digits: "length (padded k n) = k \<and> list_all IsInt (padded k n)"
  by (induction k arbitrary: n) (auto simp: IsInt_def)

lemma digitsValue_padded: "digitsValue (padded k n) = n mod 10 ^ k"
proof (induction k arbitrary: n)
  case 0
  then show ?case by (simp add: digitsValue_def)
next
  case (Suc k)
  have "digitsValue (padded (Suc k) n) = 10 * (n div 10 mod 10 ^ k) + n mod 10"
    using Suc [of "n div 10"] by (simp add: digitsValue_def)
  also have "\<dots> = n mod 10 ^ Suc k" by (simp add: mod_mult2_eq)
  finally show ?case .
qed

lemma digits_no_month:
  assumes "s \<noteq> []" "list_all IsInt s"
  shows "map_of strMonths (map (ToLower u) s) = None"
proof -
  have "\<not> IsInt (hd k)" if "k \<in> set (map fst strMonths)" for k
    using that by (auto simp: strMonths_def IsInt_def)
  moreover have "IsInt (hd (map (ToLower u) s))"
    using assms by (cases s) (auto simp: IsInt_def ToLower_def)
  ultimately show ?thesis by (auto simp: map_of_eq_None_iff)
qed

lemma wordPart_padded:
  assumes "0 < k"
  shows "wordPart u (padded k n) =
    (let i = n mod 10 ^ k; p = padded k n in
     if k = 1 then \<lparr>dp_Date = withMonthDay i nilDate, dp_format = datePart1Digit, dp_literal = p\<rparr>
     else if k = 2 then \<lparr>dp_Date = withMonthDay i (nilDate\<lparr>d_Year := 2000 + i\<rparr>),
       dp_format = datePart2Digits, dp_literal = p\<rparr>
     else if k = 4 then \<lparr>dp_Date = (if 1000 \<le> i \<and> i \<le> 9999 then nilDate\<lparr>d_Year := i\<rparr> else nilDate),
       dp_format = datePart4Digits, dp_literal = p\<rparr>
     else \<lparr>dp_Date = nilDate, dp_format = datePartWordChars, dp_literal = p\<rparr>)"
proof -
  have "padded k n \<noteq> []" using assms padded_digits [of k n] by auto
  with padded_digits [of k n] show ?thesis
    by (simp add: wordPart_def digits_no_month regexDigits_def digitsValue_padded Let_def)
qed

lemma partsOf_word:
  assumes "w \<noteq> []" "list_all (IsWordChar u) w" "r = [] \<or> \<not> IsWordChar u (hd r)"
  shows "partsOf u (w @ r) = wordPart u w # partsOf u r"
proof -
  have "takeWhile (IsWordChar u) (w @ r) = w" "dropWhile (IsWordChar u) (w @ r) = r"
    using assms by (cases r; auto simp: list_all_iff takeWhile_append1 dropWhile_append1 takeWhile_append2 dropWhile_append2)+
  with assms(1,2) show ?thesis by (subst partsOf.simps) (cases w; simp)
qed

lemma partsOf_separator:
  assumes "w \<noteq> []" "list_all (IsNonWordChar u) w" "r = [] \<or> IsWordChar u (hd r)"
  shows "partsOf u (w @ r) = nonWordPart w # partsOf u r"
proof -
  have "takeWhile (IsNonWordChar u) (w @ r) = w" "dropWhile (IsNonWordChar u) (w @ r) = r"
    using assms by (cases r; auto simp: list_all_iff IsNonWordChar_def takeWhile_append2 dropWhile_append2)+
  with assms(1,2) show ?thesis by (subst partsOf.simps) (cases w; simp add: IsNonWordChar_def)
qed

lemma IsInt_word: "IsInt r \<Longrightarrow> IsWordChar u r"
  by (auto simp: IsInt_def IsWordChar_def IsDigit_def)

lemma padded_word: "0 < k \<Longrightarrow> padded k n \<noteq> [] \<and> list_all (IsWordChar u) (padded k n)"
  using padded_digits [of k n] by (auto simp: list_all_iff IsInt_word)

lemma partsOf_iso:
  "partsOf u (isoText d) = [wordPart u (padded 4 (d_Year d)), nonWordPart [45],
    wordPart u (padded 2 (d_Month d)), nonWordPart [45], wordPart u (padded 2 (d_Day d))]"
proof -
  have sep: "\<not> IsWordChar u 45" "IsNonWordChar u 45" "list_all (IsNonWordChar u) [45]"
    by (simp_all add: IsNonWordChar_def IsWordChar_def IsLetter_def IsDigit_def)
  have hd: "IsWordChar u (hd (padded 2 n @ r))" for n r
    using padded_word [of 2 n u] by (cases "padded 2 n") auto
  note word = partsOf_word [OF conjunct1 [OF padded_word] conjunct2 [OF padded_word]]
  have "partsOf u (padded 2 (d_Day d) @ []) = [wordPart u (padded 2 (d_Day d))]"
    by (subst word) (simp_all add: partsOf.simps)
  then have "partsOf u ([45] @ padded 2 (d_Day d)) = [nonWordPart [45], wordPart u (padded 2 (d_Day d))]"
    using hd [of "d_Day d" "[]"] by (subst partsOf_separator) (simp_all add: sep)
  then have "partsOf u (padded 2 (d_Month d) @ 45 # padded 2 (d_Day d)) =
      [wordPart u (padded 2 (d_Month d)), nonWordPart [45], wordPart u (padded 2 (d_Day d))]"
    by (subst word) (simp_all add: sep)
  then have "partsOf u ([45] @ padded 2 (d_Month d) @ 45 # padded 2 (d_Day d)) =
      [nonWordPart [45], wordPart u (padded 2 (d_Month d)), nonWordPart [45], wordPart u (padded 2 (d_Day d))]"
    using hd by (subst partsOf_separator) (simp_all add: sep)
  then show ?thesis
    unfolding isoText_def by (subst word) (simp_all add: sep)
qed

lemma numDaysInMonth_le: "numDaysInMonth y m \<le> 31"
  by (simp add: numDaysInMonth_def)

lemma ParseDate_iso:
  assumes "date_IsValid d"
  shows "ParseDate u (isoText d) = Some d"
proof -
  have ranges: "1000 \<le> d_Year d" "d_Year d \<le> 9999" "1 \<le> d_Month d" "d_Month d \<le> 12" "1 \<le> d_Day d" "d_Day d \<le> 31"
    using assms numDaysInMonth_le [of "d_Year d" "d_Month d"] by (auto simp: date_IsValid_def)
  have dates: "dp_Date (wordPart u (padded 4 (d_Year d))) = \<lparr>d_Year = d_Year d, d_Month = 0, d_Day = 0\<rparr>"
    "d_Month (dp_Date (wordPart u (padded 2 (d_Month d)))) = d_Month d"
    "d_Day (dp_Date (wordPart u (padded 2 (d_Day d)))) = d_Day d"
    using ranges by (simp_all add: wordPart_padded Let_def withMonthDay_def nilDate_def)
  moreover from this ranges have "\<not> date_IsNil (dp_Date (wordPart u (padded 4 (d_Year d))))"
      "\<not> date_IsNil (dp_Date (wordPart u (padded 2 (d_Month d))))"
      "\<not> date_IsNil (dp_Date (wordPart u (padded 2 (d_Day d))))"
    by (auto simp: date_IsNil_def nilDate_def)
  moreover have "findFirstValidDate (dp_Date (wordPart u (padded 4 (d_Year d))))
      (dp_Date (wordPart u (padded 2 (d_Month d)))) (dp_Date (wordPart u (padded 2 (d_Day d)))) = d"
  proof -
    have eta: "\<lparr>d_Year = d_Year d, d_Month = d_Month d, d_Day = d_Day d\<rparr> = d" by simp
    show ?thesis using dates ranges assms by (simp add: findFirstValidDate_def Let_def eta)
  qed
  moreover have "\<not> date_IsNil d" using ranges by (auto simp: date_IsNil_def nilDate_def)
  moreover have "[45] \<in> set separators" by (simp add: separators_def)
  ultimately show ?thesis
    unfolding ParseDate_eq partsOf_iso
    by (subst lexDateLoop.simps) (simp add: partAt_def endsWord_def)
qed

text \<open>
  The program's own calendar has a leap day in every fourth year, Go's has not: the last day of
  February 1900 is valid for the one and no date for the other.
\<close>

lemma leap_day_1900:
  "date_IsValid \<lparr>d_Year = 1900, d_Month = 2, d_Day = 29\<rparr> \<and>
    NewDateFromIsoString (isoText \<lparr>d_Year = 1900, d_Month = 2, d_Day = 29\<rparr>) = None \<and>
    date_Unix \<lparr>d_Year = 1900, d_Month = 2, d_Day = 29\<rparr> = date_Unix \<lparr>d_Year = 1900, d_Month = 3, d_Day = 1\<rparr>"
  by code_simp

text \<open>Reading a date from a torrent's name never panics, and what it finds is either no date or a
  valid one made of three whole words of the name between two equal separators; every valid
  date written in ISO form is found.\<close>

theorem ParseDate_sound:
  "(\<exists>d. ParseDate u s = Some d \<and> (d = nilDate \<or> date_IsValid d \<and>
      (\<exists>pre a sep b c post. s = pre @ a @ sep @ b @ sep @ c @ post \<and> sep \<in> set separators \<and>
        list_all (IsWordChar u) a \<and> list_all (IsWordChar u) b \<and> list_all (IsWordChar u) c \<and>
        (pre = [] \<or> \<not> IsWordChar u (last pre)) \<and> (post = [] \<or> \<not> IsWordChar u (hd post)) \<and>
        d = findFirstValidDate (dp_Date (wordPart u a)) (dp_Date (wordPart u b)) (dp_Date (wordPart u c))))) \<and>
    (date_IsValid d0 \<longrightarrow> ParseDate u (isoText d0) = Some d0)"
proof
  obtain d where d: "ParseDate u s = Some d" "d = nilDate \<or> (\<exists>j. dateAt (partsOf u s) j d)"
    using lexDateLoop_sound [of "partsOf u s" 0 True] by (auto simp: ParseDate_eq)
  have "date_IsValid d" if "d \<noteq> nilDate"
    using d(2) that findFirstValidDate_valid by (auto simp: dateAt_def date_IsNil_def)
  with d dateAt_text show "\<exists>d. ParseDate u s = Some d \<and> (d = nilDate \<or> date_IsValid d \<and>
      (\<exists>pre a sep b c post. s = pre @ a @ sep @ b @ sep @ c @ post \<and> sep \<in> set separators \<and>
        list_all (IsWordChar u) a \<and> list_all (IsWordChar u) b \<and> list_all (IsWordChar u) c \<and>
        (pre = [] \<or> \<not> IsWordChar u (last pre)) \<and> (post = [] \<or> \<not> IsWordChar u (hd post)) \<and>
        d = findFirstValidDate (dp_Date (wordPart u a)) (dp_Date (wordPart u b)) (dp_Date (wordPart u c))))"
    by metis
  show "date_IsValid d0 \<longrightarrow> ParseDate u (isoText d0) = Some d0" by (simp add: ParseDate_iso)
qed

lemma isoText_leap_day:
  "isoText \<lparr>d_Year = 2024, d_Month = 2, d_Day = 29\<rparr> = runes_of ''2024-02-29''"
  by code_simp

theorem ParseDate_sound_witness:
  "ParseDate asciiOnly (runes_of ''2024-02-29'') = Some \<lparr>d_Year = 2024, d_Month = 2, d_Day = 29\<rparr>"
  using ParseDate_sound [of asciiOnly "[]" "\<lparr>d_Year = 2024, d_Month = 2, d_Day = 29\<rparr>", THEN conjunct2, THEN mp]
  unfolding isoText_leap_day by (simp add: date_IsValid_def numDaysInMonth_def)

end
