(* ===== verification/ClassifierCompile.thy ===== *)
theory ClassifierCompile
  imports DateParser Tsvector
begin

text \<open>
  The classifier's workflow language and its compiler: \<open>classifier.go\<close>, \<open>payload.go\<close>,
  \<open>action*.go\<close>, \<open>condition*.go\<close>, \<open>flag.go\<close> and \<open>source.go\<close> of
  \<open>src/internal/classifier\<close>.

  \<^item> A source is YAML read into Go's \<open>any\<close>, here \<open>value\<close>; a map is an association list with
    distinct keys.
  \<^item> A compiled action or condition is a closure in the code; here it is a term that holds what
    the closure captures, and the theory \<open>ClassifierRun\<close> says what calling it does.
  \<^item> \<open>mapstructure\<close> (the decoder), \<open>expr\<close> (the expression compiler) and
    \<open>strings.ToLower\<close> are fields of the record \<open>compile_env\<close>.
  \<^item> The compiler recurses through what the decoder returns; its depth is bounded by fuel, and
    \<open>None\<close> means the fuel was used up.  For a source printed from the language's abstract syntax
    the depth of the source is enough.
\<close>

section \<open>Values and errors\<close>

datatype "value" =
  VNull | VBool bool | VInt int | VStr string | VList "value list" | VMap "(string \<times> value) list"
| VOther string

text \<open>\<open>ErrUnmatched\<close> and the wrappers of \<open>classification_errors.go\<close>, \<open>llm_strict.go\<close> and
  \<open>classifier.go\<close>; \<open>JoinedErrors\<close> is \<open>errors.Join\<close>.\<close>

datatype cerror =
  ErrUnmatched
| OtherError string
| RuntimeError "string list" cerror
| LLMClassifyError cerror
| compilerError "string list" cerror
| fatalCompilerError "string list" cerror
| JoinedErrors "cerror list"

text \<open>\<open>errors.Is(err, ErrUnmatched)\<close>.\<close>

fun isUnmatched :: "cerror \<Rightarrow> bool" where
  "isUnmatched ErrUnmatched = True"
| "isUnmatched (OtherError s) = False"
| "isUnmatched (RuntimeError p e) = isUnmatched e"
| "isUnmatched (LLMClassifyError e) = isUnmatched e"
| "isUnmatched (compilerError p e) = isUnmatched e"
| "isUnmatched (fatalCompilerError p e) = isUnmatched e"
| "isUnmatched (JoinedErrors es) = list_ex isUnmatched es"

text \<open>The errors \<open>errors.As\<close> visits, and whether one is a \<open>*compilerError\<close> or a
  \<open>*fatalCompilerError\<close>: the code makes these errors as values, never as pointers.\<close>

fun errorChain :: "cerror \<Rightarrow> cerror list" where
  "errorChain (RuntimeError p e) = RuntimeError p e # errorChain e"
| "errorChain (LLMClassifyError e) = LLMClassifyError e # errorChain e"
| "errorChain (compilerError p e) = compilerError p e # errorChain e"
| "errorChain (fatalCompilerError p e) = fatalCompilerError p e # compilerError p e # errorChain e"
| "errorChain (JoinedErrors es) = JoinedErrors es # concat (map errorChain es)"
| "errorChain e = [e]"

fun isErrorPointer :: "cerror \<Rightarrow> bool" where
  "isErrorPointer (compilerError p e) = False"
| "isErrorPointer (fatalCompilerError p e) = False"
| "isErrorPointer e = False"

definition asCompilerError :: "cerror \<Rightarrow> cerror option" where
  "asCompilerError e = find isErrorPointer (errorChain e)"

definition asFatalCompilerError :: "cerror \<Rightarrow> cerror option" where
  "asFatalCompilerError e = find isErrorPointer (errorChain e)"

lemma isErrorPointer_False [simp]: "isErrorPointer e = False"
  by (cases e) simp_all

lemma asCompilerError_None [simp]: "asCompilerError e = None"
  by (simp add: asCompilerError_def find_None_iff)

lemma asFatalCompilerError_None [simp]: "asFatalCompilerError e = None"
  by (simp add: asFatalCompilerError_def find_None_iff)

section \<open>The compiler's context\<close>

record compiler_context =
  cc_path :: "string list"
  cc_workflowNames :: "string set"

definition child :: "string \<Rightarrow> compiler_context \<Rightarrow> compiler_context" where
  "child part cx = cx\<lparr>cc_path := cc_path cx @ [part]\<rparr>"

definition ctx_error :: "compiler_context \<Rightarrow> cerror \<Rightarrow> cerror" where
  "ctx_error cx cause = (if asCompilerError cause \<noteq> None then cause else compilerError (cc_path cx) cause)"

definition ctx_fatal :: "compiler_context \<Rightarrow> cerror \<Rightarrow> cerror" where
  "ctx_fatal cx cause =
    (if asFatalCompilerError cause \<noteq> None then cause
     else case asCompilerError cause of
       Some (compilerError p c) \<Rightarrow> fatalCompilerError p c
     | _ \<Rightarrow> fatalCompilerError (cc_path cx) cause)"

definition numericPathPart :: "nat \<Rightarrow> string" where
  "numericPathPart num = ''['' @ map char_of (showNat num) @ '']''"

record if_else_payload =
  ie_Condition :: "value"
  ie_IfAction :: "value"
  ie_ElseAction :: "value"

record 'p compile_env =
  ce_map :: "value \<Rightarrow> cerror + (string \<times> value) list"
  ce_string :: "value \<Rightarrow> cerror + string"
  ce_ifElse :: "value \<Rightarrow> cerror + if_else_payload"
  ce_Compile :: "string \<Rightarrow> cerror + 'p"
  ce_ToLower :: "string \<Rightarrow> string"

section \<open>Payloads\<close>

type_synonym 'a payload = "compiler_context \<Rightarrow> value \<Rightarrow> cerror + 'a"

definition payloadTransformer :: "'a payload \<Rightarrow> ('a \<Rightarrow> compiler_context \<Rightarrow> cerror + 'b) \<Rightarrow> 'b payload" where
  "payloadTransformer spec transform cx v = bind_sum (spec cx v) (\<lambda>from. transform from cx)"

fun payloadUnion_try :: "'a payload list \<Rightarrow> cerror list \<Rightarrow> 'a payload" where
  "payloadUnion_try [] errs cx v = Inl (JoinedErrors (errs @ [OtherError ''no definition matched'']))"
| "payloadUnion_try (def # defs) errs cx v = (case def cx v of
     Inr result \<Rightarrow> Inr result
   | Inl err \<Rightarrow> payloadUnion_try defs (errs @ [err]) cx v)"

definition payloadUnion :: "'a payload list \<Rightarrow> 'a payload" where
  "payloadUnion oneOf = payloadUnion_try oneOf []"

text \<open>The type assertions \<open>source.(any)\<close>, which fails on \<open>nil\<close>, and \<open>source.(string)\<close>.\<close>

definition payloadGeneric_any :: "value payload" where
  "payloadGeneric_any cx v = (if v = VNull then Inl (ctx_error cx (OtherError ''not ok'')) else Inr v)"

definition payloadGeneric_string :: "string payload" where
  "payloadGeneric_string cx v = (case v of
     VStr s \<Rightarrow> Inr s | _ \<Rightarrow> Inl (ctx_error cx (OtherError ''not ok'')))"

definition payloadLiteral :: "'p compile_env \<Rightarrow> string \<Rightarrow> string payload" where
  "payloadLiteral ce literal cx v = bind_sum (ce_string ce v) (\<lambda>s.
     if s \<noteq> literal then Inl (OtherError ''value mismatch'') else Inr s)"

fun payloadItems :: "'a payload \<Rightarrow> compiler_context \<Rightarrow> nat \<Rightarrow> value list \<Rightarrow> cerror + 'a list" where
  "payloadItems item cx i [] = Inr []"
| "payloadItems item cx i (raw # rest) = bind_sum (item (child (numericPathPart i) cx) raw) (\<lambda>x.
     bind_sum (payloadItems item cx (i + 1) rest) (\<lambda>xs. Inr (x # xs)))"

definition payloadList :: "'a payload \<Rightarrow> 'a list payload" where
  "payloadList item cx v =
    (if v = VNull then Inr []
     else payloadItems item cx 0 (case v of VList rawList \<Rightarrow> rawList | _ \<Rightarrow> [v]))"

definition payloadSingleKeyValue :: "'p compile_env \<Rightarrow> string \<Rightarrow> 'a payload \<Rightarrow> 'a payload" where
  "payloadSingleKeyValue ce key valueSpec cx v = bind_sum (ce_map ce v) (\<lambda>rawMap.
     if length rawMap \<noteq> 1 then Inl (ctx_error cx (OtherError ''expected a single key''))
     else case map_of rawMap key of
       None \<Rightarrow> Inl (ctx_error cx (OtherError (''missing expected key: '' @ key)))
     | Some rawValue \<Rightarrow> valueSpec (child key cx) rawValue)"

definition payloadEnum :: "'p compile_env \<Rightarrow> string list \<Rightarrow> string payload" where
  "payloadEnum ce values cx v = (case ce_string ce v of
     Inl err \<Rightarrow> Inl (ctx_error cx err)
   | Inr s \<Rightarrow> if s \<in> set values then Inr s else Inl (ctx_error cx (OtherError (''value not in enum: '' @ s))))"

definition payloadMustSucceed :: "'a payload \<Rightarrow> 'a payload" where
  "payloadMustSucceed payload cx v = (case payload cx v of
     Inl err \<Rightarrow> Inl (ctx_fatal cx err) | Inr result \<Rightarrow> Inr result)"

section \<open>Content types\<close>

datatype content_type =
  ContentTypeMovie | ContentTypeTvShow | ContentTypeMusic | ContentTypeEbook | ContentTypeComic
| ContentTypeAudiobook | ContentTypeGame | ContentTypeSoftware | ContentTypeOther
| ContentTypeUnknown | ContentTypeAdult

text \<open>A \<open>NullContentType\<close> is an \<open>option\<close>.\<close>

definition contentTypeValues :: "(string \<times> content_type) list" where
  "contentTypeValues =
    [(''movie'', ContentTypeMovie), (''tv_show'', ContentTypeTvShow), (''music'', ContentTypeMusic),
     (''ebook'', ContentTypeEbook), (''comic'', ContentTypeComic),
     (''audiobook'', ContentTypeAudiobook), (''game'', ContentTypeGame),
     (''software'', ContentTypeSoftware), (''other'', ContentTypeOther),
     (''unknown'', ContentTypeUnknown), (''adult'', ContentTypeAdult)]"

definition ContentTypeNames :: "string list" where
  "ContentTypeNames = map fst contentTypeValues"

definition ParseContentType :: "(string \<Rightarrow> string) \<Rightarrow> string \<Rightarrow> content_type option" where
  "ParseContentType lower name = (case map_of contentTypeValues name of
     Some x \<Rightarrow> Some x | None \<Rightarrow> map_of contentTypeValues (lower name))"

fun ContentTypeToInt :: "content_type option \<Rightarrow> int" where
  "ContentTypeToInt None = 0"
| "ContentTypeToInt (Some ContentTypeMovie) = 1"
| "ContentTypeToInt (Some ContentTypeTvShow) = 2"
| "ContentTypeToInt (Some ContentTypeMusic) = 3"
| "ContentTypeToInt (Some ContentTypeEbook) = 4"
| "ContentTypeToInt (Some ContentTypeComic) = 5"
| "ContentTypeToInt (Some ContentTypeAudiobook) = 6"
| "ContentTypeToInt (Some ContentTypeGame) = 7"
| "ContentTypeToInt (Some ContentTypeSoftware) = 8"
| "ContentTypeToInt (Some ContentTypeOther) = 9"
| "ContentTypeToInt (Some ContentTypeAdult) = 10"
| "ContentTypeToInt (Some ContentTypeUnknown) = 0"

definition contentTypePayloadSpec :: "'p compile_env \<Rightarrow> content_type option payload" where
  "contentTypePayloadSpec ce = payloadTransformer (payloadEnum ce ContentTypeNames) (\<lambda>str cx.
     if str = ''unknown'' then Inr None
     else case ParseContentType (ce_ToLower ce) str of
       None \<Rightarrow> Inl (OtherError (str @ '' is not a valid ContentType''))
     | Some contentType \<Rightarrow> Inr (Some contentType))"

section \<open>Compiling conditions\<close>

datatype 'p condition =
  AndCond "'p condition list" | OrCond "'p condition list" | NotCond "'p condition" | ExprCond 'p

type_synonym 'a compiler = "compiler_context \<Rightarrow> value \<Rightarrow> (cerror + 'a) option"

text \<open>The elements of a list, each at its own path; the first error ends it.\<close>

fun compileEach :: "'a compiler \<Rightarrow> compiler_context \<Rightarrow> nat \<Rightarrow> value list \<Rightarrow> (cerror + 'a list) option" where
  "compileEach f cx i [] = Some (Inr [])"
| "compileEach f cx i (raw # rest) = (case f (child (numericPathPart i) cx) raw of
     None \<Rightarrow> None
   | Some (Inl err) \<Rightarrow> Some (Inl err)
   | Some (Inr x) \<Rightarrow> (case compileEach f cx (i + 1) rest of
       None \<Rightarrow> None
     | Some (Inl err) \<Rightarrow> Some (Inl err)
     | Some (Inr xs) \<Rightarrow> Some (Inr (x # xs))))"

definition andCondition :: "'p compile_env \<Rightarrow> 'p condition compiler \<Rightarrow> 'p condition compiler" where
  "andCondition ce compileCond cx v =
    (case payloadSingleKeyValue ce ''and'' (payloadMustSucceed (payloadList payloadGeneric_any)) cx v of
       Inl err \<Rightarrow> Some (Inl (ctx_error cx err))
     | Inr payload \<Rightarrow> (case compileEach compileCond cx 0 payload of
         None \<Rightarrow> None
       | Some (Inl err) \<Rightarrow> Some (Inl (ctx_fatal cx err))
       | Some (Inr conds) \<Rightarrow> Some (Inr (AndCond conds))))"

definition orCondition :: "'p compile_env \<Rightarrow> 'p condition compiler \<Rightarrow> 'p condition compiler" where
  "orCondition ce compileCond cx v =
    (case payloadSingleKeyValue ce ''or'' (payloadMustSucceed (payloadList payloadGeneric_any)) cx v of
       Inl err \<Rightarrow> Some (Inl err)
     | Inr rawConds \<Rightarrow> (case compileEach compileCond cx 0 rawConds of
         None \<Rightarrow> None
       | Some (Inl err) \<Rightarrow> Some (Inl (ctx_fatal cx err))
       | Some (Inr conds) \<Rightarrow> Some (Inr (OrCond conds))))"

definition notCondition :: "'p compile_env \<Rightarrow> 'p condition compiler \<Rightarrow> 'p condition compiler" where
  "notCondition ce compileCond cx v =
    (case payloadSingleKeyValue ce ''not'' (payloadMustSucceed payloadGeneric_any) cx v of
       Inl err \<Rightarrow> Some (Inl (ctx_error cx err))
     | Inr p \<Rightarrow> (case compileCond (child ''not'' cx) p of
         None \<Rightarrow> None
       | Some (Inl err) \<Rightarrow> Some (Inl (ctx_error cx err))
       | Some (Inr c) \<Rightarrow> Some (Inr (NotCond c))))"

definition exprProgramPayload :: "'p compile_env \<Rightarrow> 'p payload" where
  "exprProgramPayload ce = payloadTransformer payloadGeneric_string (\<lambda>s cx.
     case ce_Compile ce s of Inl err \<Rightarrow> Inl (ctx_error cx err) | Inr prg \<Rightarrow> Inr prg)"

definition expressionConditionPayload :: "'p compile_env \<Rightarrow> 'p payload" where
  "expressionConditionPayload ce = payloadUnion
    [payloadSingleKeyValue ce ''expression'' (payloadMustSucceed (exprProgramPayload ce)),
     payloadMustSucceed (exprProgramPayload ce)]"

definition expressionCondition :: "'p compile_env \<Rightarrow> 'p condition compiler" where
  "expressionCondition ce cx v = (case expressionConditionPayload ce cx v of
     Inl err \<Rightarrow> Some (Inl (ctx_error cx err)) | Inr prg \<Rightarrow> Some (Inr (ExprCond prg)))"

text \<open>The definitions are tried in the order of \<open>defaultFeatures\<close>; a fatal error would stop the
  search.\<close>

fun firstCondition :: "(string \<times> 'a compiler) list \<Rightarrow> cerror list \<Rightarrow> 'a compiler" where
  "firstCondition [] errs cx v =
    Some (Inl (JoinedErrors (errs @ [OtherError ''no condition matched''])))"
| "firstCondition ((name, def) # defs) errs cx v = (case def (child name cx) v of
     None \<Rightarrow> None
   | Some (Inr c) \<Rightarrow> Some (Inr c)
   | Some (Inl err) \<Rightarrow>
       if asFatalCompilerError err \<noteq> None then Some (Inl err)
       else firstCondition defs (errs @ [err]) cx v)"

primrec compileCondition :: "nat \<Rightarrow> 'p compile_env \<Rightarrow> 'p condition compiler" where
  "compileCondition 0 ce = (\<lambda>cx v. None)"
| "compileCondition (Suc n) ce = firstCondition
    [(''and'', andCondition ce (compileCondition n ce)),
     (''not'', notCondition ce (compileCondition n ce)),
     (''or'', orCondition ce (compileCondition n ce)),
     (''expression'', expressionCondition ce)] []"

section \<open>Compiling actions\<close>

datatype 'p action =
  SeqAction "'p action list"
| AttachLocalContentBySearch
| AttachTmdbContentBySearch
| FindMatch "string list" "'p action list"
| IfElse "'p condition" "'p action option" "'p action option"
| LlmClassify
| Unmatched "string list"
| ParseDateAction
| ParseVideoContentAction
| RunWorkflow "string list"
| SetContentType "content_type option"

text \<open>The actions whose payload is their name.\<close>

definition literalAction :: "'p compile_env \<Rightarrow> string \<Rightarrow> (compiler_context \<Rightarrow> 'p action) \<Rightarrow> 'p action compiler" where
  "literalAction ce name mk cx v = (case payloadLiteral ce name cx v of
     Inl err \<Rightarrow> Some (Inl (ctx_error cx err)) | Inr _ \<Rightarrow> Some (Inr (mk cx)))"

definition findMatchAction :: "'p compile_env \<Rightarrow> 'p action compiler \<Rightarrow> 'p action compiler" where
  "findMatchAction ce compileAct cx v =
    (case payloadSingleKeyValue ce ''find_match'' (payloadMustSucceed (payloadList payloadGeneric_any)) cx v of
       Inl err \<Rightarrow> Some (Inl (ctx_error cx err))
     | Inr payload \<Rightarrow> (case compileEach compileAct cx 0 payload of
         None \<Rightarrow> None
       | Some (Inl err) \<Rightarrow> Some (Inl err)
       | Some (Inr actions) \<Rightarrow> Some (Inr (FindMatch (cc_path cx) actions))))"

text \<open>A branch of \<open>if_else\<close>: absent, or compiled at its own path.\<close>

definition compileBranch :: "'p action compiler \<Rightarrow> string \<Rightarrow> compiler_context \<Rightarrow> value \<Rightarrow>
    (cerror + 'p action option) option" where
  "compileBranch compileAct name cx v =
    (if v = VNull then Some (Inr None)
     else case compileAct (child name cx) v of
       None \<Rightarrow> None
     | Some (Inl err) \<Rightarrow> Some (Inl (ctx_error cx err))
     | Some (Inr a) \<Rightarrow> Some (Inr (Some a)))"

definition ifElseAction ::
  "'p compile_env \<Rightarrow> 'p condition compiler \<Rightarrow> 'p action compiler \<Rightarrow> 'p action compiler" where
  "ifElseAction ce compileCond compileAct cx v =
    (case payloadSingleKeyValue ce ''if_else'' (payloadMustSucceed (\<lambda>cx v. ce_ifElse ce v)) cx v of
       Inl err \<Rightarrow> Some (Inl (ctx_error cx err))
     | Inr p \<Rightarrow> (case compileCond (child ''condition'' cx) (ie_Condition p) of
         None \<Rightarrow> None
       | Some (Inl err) \<Rightarrow> Some (Inl (ctx_error cx err))
       | Some (Inr cond) \<Rightarrow> (case compileBranch compileAct ''if_action'' cx (ie_IfAction p) of
           None \<Rightarrow> None
         | Some (Inl err) \<Rightarrow> Some (Inl err)
         | Some (Inr ifAction) \<Rightarrow>
             (case compileBranch compileAct ''else_action'' cx (ie_ElseAction p) of
                None \<Rightarrow> None
              | Some (Inl err) \<Rightarrow> Some (Inl err)
              | Some (Inr elseAction) \<Rightarrow> Some (Inr (IfElse cond ifAction elseAction))))))"

definition runWorkflowAction :: "'p compile_env \<Rightarrow> 'p action compiler" where
  "runWorkflowAction ce cx v =
    (case payloadSingleKeyValue ce ''run_workflow'' (payloadMustSucceed (payloadList payloadGeneric_string)) cx v of
       Inl err \<Rightarrow> Some (Inl (ctx_error cx err))
     | Inr names \<Rightarrow> (case find (\<lambda>name. name \<notin> cc_workflowNames cx) names of
         Some name \<Rightarrow> Some (Inl (ctx_fatal cx (OtherError (''workflow '' @ name @ '' not found''))))
       | None \<Rightarrow> Some (Inr (RunWorkflow names))))"

definition setContentTypeAction :: "'p compile_env \<Rightarrow> 'p action compiler" where
  "setContentTypeAction ce cx v =
    (case payloadSingleKeyValue ce ''set_content_type'' (payloadMustSucceed (contentTypePayloadSpec ce)) cx v of
       Inl err \<Rightarrow> Some (Inl (ctx_error cx err))
     | Inr contentType \<Rightarrow> Some (Inr (SetContentType contentType)))"

text \<open>One raw action: \<open>None\<close> in the middle is that no definition matched.\<close>

fun firstAction :: "(string \<times> 'a compiler) list \<Rightarrow> compiler_context \<Rightarrow> value \<Rightarrow>
    (cerror + 'a) option option" where
  "firstAction [] cx raw = Some None"
| "firstAction ((name, def) # defs) cx raw = (case def (child name cx) raw of
     None \<Rightarrow> None
   | Some (Inr a) \<Rightarrow> Some (Some (Inr a))
   | Some (Inl err) \<Rightarrow>
       if asFatalCompilerError err \<noteq> None then Some (Some (Inl err)) else firstAction defs cx raw)"

fun compileItems :: "(string \<times> 'p action compiler) list \<Rightarrow> compiler_context \<Rightarrow> bool \<Rightarrow> nat \<Rightarrow>
    value list \<Rightarrow> 'p action list \<Rightarrow> cerror list \<Rightarrow> (cerror + 'p action) option" where
  "compileItems defs cx isArray i [] actions errs =
    (if errs \<noteq> [] then Some (Inl (JoinedErrors errs)) else Some (Inr (SeqAction actions)))"
| "compileItems defs cx isArray i (raw # rest) actions errs =
    (case firstAction defs (if isArray then child (numericPathPart i) cx else cx) raw of
       None \<Rightarrow> None
     | Some (Some (Inl err)) \<Rightarrow> Some (Inl err)
     | Some (Some (Inr a)) \<Rightarrow> compileItems defs cx isArray (i + 1) rest (actions @ [a]) errs
     | Some None \<Rightarrow>
         compileItems defs cx isArray (i + 1) rest actions (errs @ [OtherError ''no action matched'']))"

definition actionDefs ::
  "'p compile_env \<Rightarrow> 'p condition compiler \<Rightarrow> 'p action compiler \<Rightarrow> (string \<times> 'p action compiler) list" where
  "actionDefs ce compileCond compileAct =
    [(''attach_local_content_by_search'',
        literalAction ce ''attach_local_content_by_search'' (\<lambda>cx. AttachLocalContentBySearch)),
     (''attach_tmdb_content_by_search'',
        literalAction ce ''attach_tmdb_content_by_search'' (\<lambda>cx. AttachTmdbContentBySearch)),
     (''find_match'', findMatchAction ce compileAct),
     (''if_else'', ifElseAction ce compileCond compileAct),
     (''llm_classify'', literalAction ce ''llm_classify'' (\<lambda>cx. LlmClassify)),
     (''unmatched'', literalAction ce ''unmatched'' (\<lambda>cx. Unmatched (cc_path cx))),
     (''parse_date'', literalAction ce ''parse_date'' (\<lambda>cx. ParseDateAction)),
     (''parse_video_content'',
        literalAction ce ''parse_video_content'' (\<lambda>cx. ParseVideoContentAction)),
     (''run_workflow'', runWorkflowAction ce),
     (''set_content_type'', setContentTypeAction ce)]"

primrec compileAction :: "nat \<Rightarrow> 'p compile_env \<Rightarrow> 'p action compiler" where
  "compileAction 0 ce = (\<lambda>cx v. None)"
| "compileAction (Suc n) ce = (\<lambda>cx v.
    let defs = actionDefs ce (compileCondition n ce) (compileAction n ce) in
    case v of
      VList rawActions \<Rightarrow> compileItems defs cx True 0 rawActions [] []
    | _ \<Rightarrow> compileItems defs cx False 0 [v] [] [])"

section \<open>Flags\<close>

datatype flag_type =
  FlagTypeBool | FlagTypeString | FlagTypeInt | FlagTypeStringList | FlagTypeContentTypeList
| FlagTypeInvalid string

text \<open>The strings of a list, and the numbers of a list of content types.\<close>

fun flagStrings :: "value list \<Rightarrow> cerror + value list" where
  "flagStrings [] = Inr []"
| "flagStrings (VStr s # vs) = bind_sum (flagStrings vs) (\<lambda>xs. Inr (VStr s # xs))"
| "flagStrings (v # vs) = Inl (OtherError ''could not convert type to string'')"

fun flagContentTypes :: "(string \<Rightarrow> string) \<Rightarrow> value list \<Rightarrow> cerror + value list" where
  "flagContentTypes lower [] = Inr []"
| "flagContentTypes lower (VStr s # vs) =
    (if s = ''unknown'' then
       bind_sum (flagContentTypes lower vs) (\<lambda>xs. Inr (VInt (ContentTypeToInt None) # xs))
     else case ParseContentType lower s of
       None \<Rightarrow> Inl (OtherError (''could not parse content type '' @ s))
     | Some ct \<Rightarrow>
         bind_sum (flagContentTypes lower vs) (\<lambda>xs. Inr (VInt (ContentTypeToInt (Some ct)) # xs)))"
| "flagContentTypes lower (v # vs) = Inl (OtherError ''could not convert type to content type'')"

definition validate :: "(string \<Rightarrow> string) \<Rightarrow> flag_type \<Rightarrow> value \<Rightarrow> cerror + value" where
  "validate lower t rawVal =
    (let mismatch = Inl (OtherError ''could not convert type'') in
     case t of
       FlagTypeBool \<Rightarrow> (case rawVal of VBool b \<Rightarrow> Inr rawVal | _ \<Rightarrow> mismatch)
     | FlagTypeString \<Rightarrow> (case rawVal of VStr s \<Rightarrow> Inr rawVal | _ \<Rightarrow> mismatch)
     | FlagTypeInt \<Rightarrow> (case rawVal of VInt i \<Rightarrow> Inr (VInt i) | _ \<Rightarrow> mismatch)
     | FlagTypeStringList \<Rightarrow> (case rawVal of
         VList vs \<Rightarrow> bind_sum (flagStrings vs) (\<lambda>xs. Inr (VList xs)) | _ \<Rightarrow> mismatch)
     | FlagTypeContentTypeList \<Rightarrow> (case rawVal of
         VList vs \<Rightarrow> bind_sum (flagContentTypes lower vs) (\<lambda>xs. Inr (VList xs)) | _ \<Rightarrow> mismatch)
     | FlagTypeInvalid s \<Rightarrow> Inl (OtherError ''not a valid FlagType''))"

section \<open>Sources\<close>

text \<open>Maps of a source are association lists with distinct keys.\<close>

record source =
  sr_Workflows :: "(string \<times> value) list"
  sr_FlagDefinitions :: "(string \<times> flag_type) list"
  sr_Flags :: "(string \<times> value) list"
  sr_Keywords :: "(string \<times> string list) list"
  sr_Extensions :: "(string \<times> string list) list"

definition emptySource :: source where
  "emptySource = \<lparr>sr_Workflows = [], sr_FlagDefinitions = [], sr_Flags = [], sr_Keywords = [],
    sr_Extensions = []\<rparr>"

definition newKeys :: "('k \<times> 'v) list \<Rightarrow> ('k \<times> 'v) list \<Rightarrow> ('k \<times> 'v) list" where
  "newKeys a b = filter (\<lambda>(k, v). map_of a k = None) b"

definition flagDefinitions_merge ::
  "(string \<times> flag_type) list \<Rightarrow> (string \<times> flag_type) list \<Rightarrow> cerror + (string \<times> flag_type) list" where
  "flagDefinitions_merge d other =
    (case find (\<lambda>(k, v). map_of other k \<noteq> None \<and> map_of other k \<noteq> Some v) d of
       Some (k, v) \<Rightarrow> Inl (OtherError (''conflicting flag definition '' @ k))
     | None \<Rightarrow> Inr (d @ newKeys d other))"

definition Flags_merge :: "(string \<times> value) list \<Rightarrow> (string \<times> value) list \<Rightarrow> (string \<times> value) list" where
  "Flags_merge f other =
    map (\<lambda>(k, v). (k, case map_of other k of Some w \<Rightarrow> w | None \<Rightarrow> v)) f @ newKeys f other"

definition mergeStringSliceMap ::
  "(string \<times> string list) list \<Rightarrow> (string \<times> string list) list \<Rightarrow> (string \<times> string list) list" where
  "mergeStringSliceMap a b =
    map (\<lambda>(k, v). (k, case map_of b k of Some w \<Rightarrow> v @ w | None \<Rightarrow> v)) a @ newKeys a b"

text \<open>Workflows of the second source replace those of the first.\<close>

definition workflowSources_merge ::
  "(string \<times> value) list \<Rightarrow> (string \<times> value) list \<Rightarrow> (string \<times> value) list" where
  "workflowSources_merge s other =
    map (\<lambda>(k, v). (k, case map_of other k of Some w \<Rightarrow> w | None \<Rightarrow> v)) s @ newKeys s other"

definition source_merge :: "source \<Rightarrow> source \<Rightarrow> cerror + source" where
  "source_merge s other =
    bind_sum (flagDefinitions_merge (sr_FlagDefinitions s) (sr_FlagDefinitions other)) (\<lambda>flagDefs.
      Inr \<lparr>sr_Workflows = workflowSources_merge (sr_Workflows s) (sr_Workflows other),
           sr_FlagDefinitions = flagDefs,
           sr_Flags = Flags_merge (sr_Flags s) (sr_Flags other),
           sr_Keywords = mergeStringSliceMap (sr_Keywords s) (sr_Keywords other),
           sr_Extensions = mergeStringSliceMap (sr_Extensions s) (sr_Extensions other)\<rparr>)"

definition workflowNames :: "source \<Rightarrow> string set" where
  "workflowNames s = fst ` set (sr_Workflows s)"

text \<open>The sources of the providers, merged in order; \<open>configSourceProvider\<close> is the second.\<close>

fun mergeProviders :: "(cerror + source) list \<Rightarrow> source \<Rightarrow> cerror + source" where
  "mergeProviders [] src = Inr src"
| "mergeProviders (p # ps) src = bind_sum p (\<lambda>s. bind_sum (source_merge src s) (mergeProviders ps))"

definition configSource :: "bool \<Rightarrow> source" where
  "configSource tmdbEnabled =
    (if tmdbEnabled then emptySource else emptySource\<lparr>sr_Flags := [(''tmdb_enabled'', VBool False)]\<rparr>)"

definition newSource :: "cerror + source \<Rightarrow> bool \<Rightarrow> cerror + source" where
  "newSource core tmdbEnabled = mergeProviders [core, Inr (configSource tmdbEnabled)] emptySource"

section \<open>Compiling a source\<close>

record expr_env =
  ee_Keywords :: "(string \<times> string) list"
  ee_Extensions :: "(string \<times> string list) list"
  ee_ContentType :: "(string \<times> int) list"
  ee_FileType :: "(string \<times> int) list"
  ee_KB :: int
  ee_MB :: int
  ee_GB :: int

fun keywordExprs :: "(string list \<Rightarrow> cerror + string) \<Rightarrow> (string \<times> string list) list \<Rightarrow>
    cerror + (string \<times> string) list" where
  "keywordExprs regex [] = Inr []"
| "keywordExprs regex ((grp, kws) # rest) = bind_sum (regex kws) (\<lambda>r.
     bind_sum (keywordExprs regex rest) (\<lambda>rs. Inr ((grp, r) # rs)))"

definition exprEnvOption :: "(string list \<Rightarrow> cerror + string) \<Rightarrow> source \<Rightarrow> cerror + expr_env" where
  "exprEnvOption regex src = bind_sum (keywordExprs regex (sr_Keywords src)) (\<lambda>keywords.
     Inr \<lparr>ee_Keywords = keywords, ee_Extensions = sr_Extensions src,
          ee_ContentType = map (\<lambda>(name, ct). (name, ContentTypeToInt (Some ct))) contentTypeValues,
          ee_FileType = [(''unknown'', 0), (''archive'', 1), (''audio'', 2), (''data'', 3),
            (''document'', 4), (''image'', 5), (''software'', 6), (''subtitles'', 7), (''video'', 8)],
          ee_KB = 1000, ee_MB = 1000000, ee_GB = 1000000000\<rparr>)"

record 'p runner =
  rn_flagDefinitions :: "(string \<times> flag_type) list"
  rn_defaultFlags :: "(string \<times> value) list"
  rn_exprEnv :: expr_env
  rn_workflows :: "(string \<times> 'p action) list"

fun compileWorkflows :: "nat \<Rightarrow> 'p compile_env \<Rightarrow> compiler_context \<Rightarrow> (string \<times> value) list \<Rightarrow>
    (cerror + (string \<times> 'p action) list) option" where
  "compileWorkflows n ce cx [] = Some (Inr [])"
| "compileWorkflows n ce cx ((name, src) # rest) = (case compileAction n ce (child name cx) src of
     None \<Rightarrow> None
   | Some (Inl err) \<Rightarrow> Some (Inl err)
   | Some (Inr a) \<Rightarrow> (case compileWorkflows n ce cx rest of
       None \<Rightarrow> None
     | Some (Inl err) \<Rightarrow> Some (Inl err)
     | Some (Inr ws) \<Rightarrow> Some (Inr ((name, a) # ws))))"

fun compileFlags :: "(string \<Rightarrow> string) \<Rightarrow> (string \<times> value) list \<Rightarrow> (string \<times> flag_type) list \<Rightarrow>
    cerror + (string \<times> value) list" where
  "compileFlags lower flags [] = Inr []"
| "compileFlags lower flags ((k, def) # defs) = (case map_of flags k of
     None \<Rightarrow> Inl (OtherError (''missing value for flag '' @ k))
   | Some rawVal \<Rightarrow> bind_sum (validate lower def rawVal) (\<lambda>val.
       bind_sum (compileFlags lower flags defs) (\<lambda>vs. Inr ((k, val) # vs))))"

text \<open>\<open>decode\<close> is \<open>mapstructure\<close>'s copy of the source and \<open>regex\<close> the keyword expressions.\<close>

definition Compile :: "nat \<Rightarrow> 'p compile_env \<Rightarrow> (source \<Rightarrow> cerror + source) \<Rightarrow>
    (string list \<Rightarrow> cerror + string) \<Rightarrow> source \<Rightarrow> (cerror + 'p runner) option" where
  "Compile n ce decode regex src0 =
    (let cx = \<lparr>cc_path = [], cc_workflowNames = workflowNames src0\<rparr> in
     case bind_sum (decode src0) (\<lambda>src. bind_sum (exprEnvOption regex src) (\<lambda>env. Inr (src, env))) of
       Inl err \<Rightarrow> Some (Inl (ctx_fatal cx err))
     | Inr (src, env) \<Rightarrow> (case compileWorkflows n ce (child ''workflows'' cx) (sr_Workflows src) of
         None \<Rightarrow> None
       | Some (Inl err) \<Rightarrow> Some (Inl (ctx_fatal cx err))
       | Some (Inr workflows) \<Rightarrow>
           (case compileFlags (ce_ToLower ce) (sr_Flags src) (sr_FlagDefinitions src) of
              Inl err \<Rightarrow> Some (Inl (ctx_fatal cx err))
            | Inr defaultFlags \<Rightarrow> Some (Inr
                \<lparr>rn_flagDefinitions = sr_FlagDefinitions src, rn_defaultFlags = defaultFlags,
                 rn_exprEnv = env, rn_workflows = workflows\<rparr>))))"

end
