(* ===== verification/ClassifierSyntax.thy ===== *)
theory ClassifierSyntax
  imports ClassifierCompile
begin

text \<open>
  The workflow language as an abstract syntax, its printer to a source and its elaboration to
  compiled actions: the specification of the compiler.  Compiling a printed workflow gives its
  elaboration, and a workflow that compiled runs only workflows that exist.
\<close>

section \<open>Abstract syntax\<close>

datatype wcond = WAnd "wcond list" | WOr "wcond list" | WNot wcond | WExpr string

datatype waction =
  WAttachLocal
| WAttachTmdb
| WFindMatch "wblock list"
| WIfElse wcond "wblock option" "wblock option"
| WLlm
| WUnmatched
| WParseDate
| WParseVideo
| WRunWorkflow "string list"
| WSetContentType "content_type option"
and wblock = WSingle waction | WBlock "waction list"

fun condSource :: "wcond \<Rightarrow> value" where
  "condSource (WAnd cs) = VMap [(''and'', VList (map condSource cs))]"
| "condSource (WOr cs) = VMap [(''or'', VList (map condSource cs))]"
| "condSource (WNot c) = VMap [(''not'', condSource c)]"
| "condSource (WExpr s) = VStr s"

fun contentTypeName :: "content_type option \<Rightarrow> string" where
  "contentTypeName None = ''unknown''"
| "contentTypeName (Some ContentTypeMovie) = ''movie''"
| "contentTypeName (Some ContentTypeTvShow) = ''tv_show''"
| "contentTypeName (Some ContentTypeMusic) = ''music''"
| "contentTypeName (Some ContentTypeEbook) = ''ebook''"
| "contentTypeName (Some ContentTypeComic) = ''comic''"
| "contentTypeName (Some ContentTypeAudiobook) = ''audiobook''"
| "contentTypeName (Some ContentTypeGame) = ''game''"
| "contentTypeName (Some ContentTypeSoftware) = ''software''"
| "contentTypeName (Some ContentTypeOther) = ''other''"
| "contentTypeName (Some ContentTypeUnknown) = ''unknown''"
| "contentTypeName (Some ContentTypeAdult) = ''adult''"

fun actionSource :: "waction \<Rightarrow> value" and blockSource :: "wblock \<Rightarrow> value" where
  "actionSource WAttachLocal = VStr ''attach_local_content_by_search''"
| "actionSource WAttachTmdb = VStr ''attach_tmdb_content_by_search''"
| "actionSource (WFindMatch bs) = VMap [(''find_match'', VList (map blockSource bs))]"
| "actionSource (WIfElse c i e) = VMap [(''if_else'', VMap ((''condition'', condSource c) #
     (case i of None \<Rightarrow> [] | Some b \<Rightarrow> [(''if_action'', blockSource b)]) @
     (case e of None \<Rightarrow> [] | Some b \<Rightarrow> [(''else_action'', blockSource b)])))]"
| "actionSource WLlm = VStr ''llm_classify''"
| "actionSource WUnmatched = VStr ''unmatched''"
| "actionSource WParseDate = VStr ''parse_date''"
| "actionSource WParseVideo = VStr ''parse_video_content''"
| "actionSource (WRunWorkflow names) = VMap [(''run_workflow'', VList (map VStr names))]"
| "actionSource (WSetContentType ct) = VMap [(''set_content_type'', VStr (contentTypeName ct))]"
| "blockSource (WSingle a) = actionSource a"
| "blockSource (WBlock as) = VList (map actionSource as)"

section \<open>Elaboration\<close>

fun elabCond :: "(string \<Rightarrow> 'p) \<Rightarrow> wcond \<Rightarrow> 'p condition" where
  "elabCond prg (WAnd cs) = AndCond (map (elabCond prg) cs)"
| "elabCond prg (WOr cs) = OrCond (map (elabCond prg) cs)"
| "elabCond prg (WNot c) = NotCond (elabCond prg c)"
| "elabCond prg (WExpr s) = ExprCond (prg s)"

fun elabAction :: "(string \<Rightarrow> 'p) \<Rightarrow> string list \<Rightarrow> waction \<Rightarrow> 'p action"
  and elabBlock :: "(string \<Rightarrow> 'p) \<Rightarrow> string list \<Rightarrow> wblock \<Rightarrow> 'p action"
  and elabActions :: "(string \<Rightarrow> 'p) \<Rightarrow> string list \<Rightarrow> nat \<Rightarrow> waction list \<Rightarrow> 'p action list"
  and elabBlocks :: "(string \<Rightarrow> 'p) \<Rightarrow> string list \<Rightarrow> nat \<Rightarrow> wblock list \<Rightarrow> 'p action list"
  and elabBranch :: "(string \<Rightarrow> 'p) \<Rightarrow> string list \<Rightarrow> wblock option \<Rightarrow> 'p action option" where
  "elabAction prg path WAttachLocal = AttachLocalContentBySearch"
| "elabAction prg path WAttachTmdb = AttachTmdbContentBySearch"
| "elabAction prg path (WFindMatch bs) = FindMatch (path @ [''find_match''])
     (elabBlocks prg (path @ [''find_match'']) 0 bs)"
| "elabAction prg path (WIfElse c i e) = IfElse (elabCond prg c)
     (elabBranch prg (path @ [''if_else'', ''if_action'']) i)
     (elabBranch prg (path @ [''if_else'', ''else_action'']) e)"
| "elabAction prg path WLlm = LlmClassify"
| "elabAction prg path WUnmatched = Unmatched (path @ [''unmatched''])"
| "elabAction prg path WParseDate = ParseDateAction"
| "elabAction prg path WParseVideo = ParseVideoContentAction"
| "elabAction prg path (WRunWorkflow names) = RunWorkflow names"
| "elabAction prg path (WSetContentType ct) = SetContentType ct"
| "elabBlock prg path (WSingle a) = SeqAction [elabAction prg path a]"
| "elabBlock prg path (WBlock as) = SeqAction (elabActions prg path 0 as)"
| "elabActions prg path i [] = []"
| "elabActions prg path i (a # as) =
     elabAction prg (path @ [numericPathPart i]) a # elabActions prg path (i + 1) as"
| "elabBlocks prg path i [] = []"
| "elabBlocks prg path i (b # bs) =
     elabBlock prg (path @ [numericPathPart i]) b # elabBlocks prg path (i + 1) bs"
| "elabBranch prg path None = None"
| "elabBranch prg path (Some b) = Some (elabBlock prg path b)"

text \<open>The expressions, the workflows that are run, and the content types set.\<close>

fun condExprs :: "wcond \<Rightarrow> string set" where
  "condExprs (WAnd cs) = (\<Union>c\<in>set cs. condExprs c)"
| "condExprs (WOr cs) = (\<Union>c\<in>set cs. condExprs c)"
| "condExprs (WNot c) = condExprs c"
| "condExprs (WExpr s) = {s}"

fun actionWf :: "(string \<Rightarrow> bool) \<Rightarrow> string set \<Rightarrow> waction \<Rightarrow> bool"
  and blockWf :: "(string \<Rightarrow> bool) \<Rightarrow> string set \<Rightarrow> wblock \<Rightarrow> bool" where
  "actionWf ok names (WFindMatch bs) = (\<forall>b\<in>set bs. blockWf ok names b)"
| "actionWf ok names (WIfElse c i e) = ((\<forall>s\<in>condExprs c. ok s) \<and>
     (\<forall>b\<in>set_option i. blockWf ok names b) \<and> (\<forall>b\<in>set_option e. blockWf ok names b))"
| "actionWf ok names (WRunWorkflow ns) = (set ns \<subseteq> names)"
| "actionWf ok names (WSetContentType ct) = (ct \<noteq> Some ContentTypeUnknown)"
| "actionWf ok names WAttachLocal = True"
| "actionWf ok names WAttachTmdb = True"
| "actionWf ok names WLlm = True"
| "actionWf ok names WUnmatched = True"
| "actionWf ok names WParseDate = True"
| "actionWf ok names WParseVideo = True"
| "blockWf ok names (WSingle a) = actionWf ok names a"
| "blockWf ok names (WBlock as) = (\<forall>a\<in>set as. actionWf ok names a)"

text \<open>
  What is relied on of \<open>mapstructure\<close>: a map and a string decode to themselves, neither to the
  other, and a map with the keys of the struct fills its fields.
\<close>

definition decoder_ok :: "'p compile_env \<Rightarrow> bool" where
  "decoder_ok ce \<longleftrightarrow>
    (\<forall>m. ce_map ce (VMap m) = Inr m) \<and> (\<forall>s. isl (ce_map ce (VStr s))) \<and>
    (\<forall>s. ce_string ce (VStr s) = Inr s) \<and> (\<forall>m. isl (ce_string ce (VMap m))) \<and>
    (\<forall>m. distinct (map fst m) \<and> set (map fst m) \<subseteq> {''condition'', ''if_action'', ''else_action''} \<longrightarrow>
      ce_ifElse ce (VMap m) = Inr
        \<lparr>ie_Condition = (case map_of m ''condition'' of Some v \<Rightarrow> v | None \<Rightarrow> VNull),
         ie_IfAction = (case map_of m ''if_action'' of Some v \<Rightarrow> v | None \<Rightarrow> VNull),
         ie_ElseAction = (case map_of m ''else_action'' of Some v \<Rightarrow> v | None \<Rightarrow> VNull)\<rparr>)"

lemma decoder_okD:
  assumes "decoder_ok ce"
  shows "ce_map ce (VMap m) = Inr m" "\<exists>e. ce_map ce (VStr s) = Inl e"
    "ce_string ce (VStr s) = Inr s" "\<exists>e. ce_string ce (VMap m) = Inl e"
  using assms unfolding decoder_ok_def isl_def by blast+

section \<open>Payloads of printed sources\<close>

lemma single_key:
  assumes "decoder_ok ce"
  shows "payloadSingleKeyValue ce key spec cx (VMap [(key, v)]) = spec (child key cx) v"
    and "key' \<noteq> key \<Longrightarrow> \<exists>e. payloadSingleKeyValue ce key' spec cx (VMap [(key, v)]) = Inl e"
    and "\<exists>e. payloadSingleKeyValue ce key spec cx (VStr s) = Inl e"
proof -
  show "payloadSingleKeyValue ce key spec cx (VMap [(key, v)]) = spec (child key cx) v"
    and "key' \<noteq> key \<Longrightarrow> \<exists>e. payloadSingleKeyValue ce key' spec cx (VMap [(key, v)]) = Inl e"
    by (simp_all add: payloadSingleKeyValue_def decoder_okD(1) [OF assms])
  obtain e where "ce_map ce (VStr s) = Inl e" using decoder_okD(2) [OF assms] by blast
  then show "\<exists>e. payloadSingleKeyValue ce key spec cx (VStr s) = Inl e"
    by (simp add: payloadSingleKeyValue_def)
qed

lemma literal_payload:
  assumes "decoder_ok ce"
  shows "payloadLiteral ce s cx (VStr s) = Inr s"
    and "s \<noteq> s' \<Longrightarrow> \<exists>e. payloadLiteral ce s cx (VStr s') = Inl e"
    and "\<exists>e. payloadLiteral ce s cx (VMap m) = Inl e"
proof -
  show "payloadLiteral ce s cx (VStr s) = Inr s"
    and "s \<noteq> s' \<Longrightarrow> \<exists>e. payloadLiteral ce s cx (VStr s') = Inl e"
    by (auto simp add: payloadLiteral_def decoder_okD(3) [OF assms])
  obtain e where "ce_string ce (VMap m) = Inl e" using decoder_okD(4) [OF assms] by blast
  then show "\<exists>e. payloadLiteral ce s cx (VMap m) = Inl e"
    by (simp add: payloadLiteral_def)
qed

lemma list_payload:
  "VNull \<notin> set vs \<Longrightarrow> payloadList payloadGeneric_any cx (VList vs) = Inr vs"
  "payloadList payloadGeneric_string cx (VList (map VStr ss)) = Inr ss"
proof -
  have "VNull \<notin> set vs \<Longrightarrow> payloadItems payloadGeneric_any cx i vs = Inr vs" for i
    by (induction vs arbitrary: i) (auto simp: payloadGeneric_any_def)
  then show "VNull \<notin> set vs \<Longrightarrow> payloadList payloadGeneric_any cx (VList vs) = Inr vs"
    by (simp add: payloadList_def)
  have "payloadItems payloadGeneric_string cx i (map VStr ss) = Inr ss" for i
    by (induction ss arbitrary: i) (auto simp: payloadGeneric_string_def)
  then show "payloadList payloadGeneric_string cx (VList (map VStr ss)) = Inr ss"
    by (simp add: payloadList_def)
qed

lemma source_not_null [simp]:
  "condSource c \<noteq> VNull" "actionSource a \<noteq> VNull" "blockSource b \<noteq> VNull"
proof -
  show "condSource c \<noteq> VNull" by (cases c) simp_all
  show a: "actionSource a \<noteq> VNull" for a by (cases a) simp_all
  show "blockSource b \<noteq> VNull" by (cases b) (simp_all add: a)
qed

lemma list_sources:
  "payloadList payloadGeneric_any cx (VList (map condSource cs)) = Inr (map condSource cs)"
  "payloadList payloadGeneric_any cx (VList (map blockSource bs)) = Inr (map blockSource bs)"
proof -
  have "VNull \<notin> set (map condSource cs)" by (auto simp: image_iff) (metis source_not_null(1))
  from list_payload(1) [OF this]
  show "payloadList payloadGeneric_any cx (VList (map condSource cs)) = Inr (map condSource cs)" .
  have "VNull \<notin> set (map blockSource bs)" by (auto simp: image_iff) (metis source_not_null(3))
  from list_payload(1) [OF this]
  show "payloadList payloadGeneric_any cx (VList (map blockSource bs)) = Inr (map blockSource bs)" .
qed

lemma child_path [simp]:
  "cc_path (child p cx) = cc_path cx @ [p]" "cc_workflowNames (child p cx) = cc_workflowNames cx"
  by (simp_all add: child_def)

lemma compileEach_all:
  assumes "\<And>x cx'. x \<in> set xs \<Longrightarrow> f cx' (src x) = Some (Inr (g x))"
  shows "compileEach f cx i (map src xs) = Some (Inr (map g xs))"
  using assms by (induction xs arbitrary: i) simp_all

section \<open>Compiling a printed workflow\<close>

definition maxOf :: "nat list \<Rightarrow> nat" where
  "maxOf ns = foldr max ns 0"

lemma maxOf_ge: "n \<in> set ns \<Longrightarrow> n \<le> maxOf ns"
  by (induction ns) (auto simp: maxOf_def)

fun condDepth :: "wcond \<Rightarrow> nat" where
  "condDepth (WAnd cs) = Suc (maxOf (map condDepth cs))"
| "condDepth (WOr cs) = Suc (maxOf (map condDepth cs))"
| "condDepth (WNot c) = Suc (condDepth c)"
| "condDepth (WExpr s) = 1"

fun actionDepth :: "waction \<Rightarrow> nat" and blockDepth :: "wblock \<Rightarrow> nat" where
  "actionDepth (WFindMatch bs) = maxOf (map blockDepth bs)"
| "actionDepth (WIfElse c i e) =
     max (condDepth c) (max (case i of None \<Rightarrow> 0 | Some b \<Rightarrow> blockDepth b) (case e of None \<Rightarrow> 0 | Some b \<Rightarrow> blockDepth b))"
| "actionDepth _ = 0"
| "blockDepth (WSingle a) = Suc (actionDepth a)"
| "blockDepth (WBlock as) = Suc (maxOf (map actionDepth as))"

lemma firstCondition_pick:
  assumes "\<forall>(nm, d)\<in>set pre. \<exists>e. d (child nm cx) v = Some (Inl e)" "d (child nm cx) v = Some (Inr c)"
  shows "firstCondition (pre @ (nm, d) # post) errs cx v = Some (Inr c)"
  using assms(1)
proof (induction pre arbitrary: errs)
  case (Cons p pre)
  obtain nm' d' where p: "p = (nm', d')" by (cases p)
  with Cons.prems obtain e where "d' (child nm' cx) v = Some (Inl e)" by auto
  with Cons show ?case by (simp add: p)
qed (simp add: assms(2))

lemma firstAction_pick:
  assumes "\<forall>(nm, d)\<in>set pre. \<exists>e. d (child nm cx) v = Some (Inl e)" "d (child nm cx) v = Some (Inr c)"
  shows "firstAction (pre @ (nm, d) # post) cx v = Some (Some (Inr c))"
  using assms(1)
proof (induction pre)
  case (Cons p pre)
  obtain nm' d' where p: "p = (nm', d')" by (cases p)
  with Cons.prems obtain e where "d' (child nm' cx) v = Some (Inl e)" by auto
  with Cons show ?case by (simp add: p)
qed (simp add: assms(2))

lemma condition_rejects:
  assumes "decoder_ok ce"
  shows "key \<noteq> ''and'' \<Longrightarrow> \<exists>e. andCondition ce r cx (VMap [(key, v)]) = Some (Inl e)"
    and "key \<noteq> ''or'' \<Longrightarrow> \<exists>e. orCondition ce r cx (VMap [(key, v)]) = Some (Inl e)"
    and "key \<noteq> ''not'' \<Longrightarrow> \<exists>e. notCondition ce r cx (VMap [(key, v)]) = Some (Inl e)"
    and "\<exists>e. andCondition ce r cx (VStr s) = Some (Inl e)"
    and "\<exists>e. orCondition ce r cx (VStr s) = Some (Inl e)"
    and "\<exists>e. notCondition ce r cx (VStr s) = Some (Inl e)"
proof -
  note map = single_key(2) [OF assms] and str = single_key(3) [OF assms]
  have reject: "\<exists>e. (case x of Inl err \<Rightarrow> Some (Inl (f err)) | Inr y \<Rightarrow> g y) = Some (Inl e)"
    if "\<exists>e. x = Inl e" for x :: "cerror + 'x" and f g
    using that by auto
  show "key \<noteq> ''and'' \<Longrightarrow> \<exists>e. andCondition ce r cx (VMap [(key, v)]) = Some (Inl e)"
    unfolding andCondition_def by (rule reject) (rule map, simp)
  show "key \<noteq> ''or'' \<Longrightarrow> \<exists>e. orCondition ce r cx (VMap [(key, v)]) = Some (Inl e)"
    unfolding orCondition_def by (rule reject) (rule map, simp)
  show "key \<noteq> ''not'' \<Longrightarrow> \<exists>e. notCondition ce r cx (VMap [(key, v)]) = Some (Inl e)"
    unfolding notCondition_def by (rule reject) (rule map, simp)
  show "\<exists>e. andCondition ce r cx (VStr s) = Some (Inl e)"
    unfolding andCondition_def by (rule reject) (rule str)
  show "\<exists>e. orCondition ce r cx (VStr s) = Some (Inl e)"
    unfolding orCondition_def by (rule reject) (rule str)
  show "\<exists>e. notCondition ce r cx (VStr s) = Some (Inl e)"
    unfolding notCondition_def by (rule reject) (rule str)
qed

lemma expression_payload:
  assumes "decoder_ok ce" "ce_Compile ce s = Inr p"
  shows "expressionConditionPayload ce cx (VStr s) = Inr p"
proof -
  obtain e where e: "payloadSingleKeyValue ce ''expression'' (payloadMustSucceed (exprProgramPayload ce)) cx (VStr s) = Inl e"
    using single_key(3) [OF assms(1)] by blast
  then show ?thesis
    by (simp add: expressionConditionPayload_def payloadUnion_def payloadMustSucceed_def
        exprProgramPayload_def payloadTransformer_def payloadGeneric_string_def assms(2))
qed

lemma compileCondition_source:
  assumes ok: "decoder_ok ce"
  shows "\<forall>s\<in>condExprs c. ce_Compile ce s = Inr (prg s) \<Longrightarrow> condDepth c \<le> n \<Longrightarrow>
    compileCondition n ce cx (condSource c) = Some (Inr (elabCond prg c))"
proof (induction c arbitrary: n cx)
  case (WAnd cs)
  then obtain m where n: "n = Suc m" by (cases n) auto
  have "compileEach (compileCondition m ce) cx' 0 (map condSource cs) = Some (Inr (map (elabCond prg) cs))" for cx'
  proof (rule compileEach_all)
    fix c cx' assume c: "c \<in> set cs"
    then have "condDepth c \<le> m" using maxOf_ge [of "condDepth c" "map condDepth cs"] WAnd.prems(2) n by simp
    then show "compileCondition m ce cx' (condSource c) = Some (Inr (elabCond prg c))"
      using WAnd.IH [OF c] WAnd.prems(1) c by simp
  qed
  then have "andCondition ce (compileCondition m ce) (child ''and'' cx) (condSource (WAnd cs)) =
      Some (Inr (elabCond prg (WAnd cs)))"
    by (simp add: andCondition_def single_key(1) [OF ok] payloadMustSucceed_def list_sources)
  then show ?case
    unfolding n compileCondition.simps by (simp del: condSource.simps elabCond.simps)
next
  case (WOr cs)
  then obtain m where n: "n = Suc m" by (cases n) auto
  have "compileEach (compileCondition m ce) cx' 0 (map condSource cs) = Some (Inr (map (elabCond prg) cs))" for cx'
  proof (rule compileEach_all)
    fix c cx' assume c: "c \<in> set cs"
    then have "condDepth c \<le> m" using maxOf_ge [of "condDepth c" "map condDepth cs"] WOr.prems(2) n by simp
    then show "compileCondition m ce cx' (condSource c) = Some (Inr (elabCond prg c))"
      using WOr.IH [OF c] WOr.prems(1) c by simp
  qed
  then have "orCondition ce (compileCondition m ce) (child ''or'' cx) (condSource (WOr cs)) =
      Some (Inr (elabCond prg (WOr cs)))"
    by (simp add: orCondition_def single_key(1) [OF ok] payloadMustSucceed_def list_sources)
  then show ?case
    unfolding n compileCondition.simps
    using firstCondition_pick [where pre = "[(''and'', andCondition ce (compileCondition m ce)),
      (''not'', notCondition ce (compileCondition m ce))]"]
    by (simp add: condition_rejects [OF ok] del: firstCondition.simps)
next
  case (WNot c)
  then obtain m where n: "n = Suc m" by (cases n) auto
  have "compileCondition m ce cx' (condSource c) = Some (Inr (elabCond prg c))" for cx'
    using WNot n by simp
  then have "notCondition ce (compileCondition m ce) (child ''not'' cx) (condSource (WNot c)) =
      Some (Inr (elabCond prg (WNot c)))"
    by (simp add: notCondition_def single_key(1) [OF ok] payloadMustSucceed_def payloadGeneric_any_def)
  then show ?case
    unfolding n compileCondition.simps
    using firstCondition_pick [where pre = "[(''and'', andCondition ce (compileCondition m ce))]"]
    by (simp add: condition_rejects [OF ok] del: firstCondition.simps)
next
  case (WExpr s)
  then obtain m where n: "n = Suc m" by (cases n) auto
  have "expressionCondition ce (child ''expression'' cx) (VStr s) = Some (Inr (ExprCond (prg s)))"
    using expression_payload [OF ok] WExpr.prems(1) by (simp add: expressionCondition_def)
  then show ?case
    unfolding n compileCondition.simps
    using firstCondition_pick [where pre = "[(''and'', andCondition ce (compileCondition m ce)),
      (''not'', notCondition ce (compileCondition m ce)), (''or'', orCondition ce (compileCondition m ce))]"]
    by (simp add: condition_rejects [OF ok] del: firstCondition.simps)
qed

text \<open>Every definition but the one named by the source refuses it.\<close>

lemma firstAction_only:
  assumes "(nm, d) \<in> set defs" "distinct (map fst defs)" "d (child nm cx) v = Some (Inr c)"
    "\<And>nm' d'. (nm', d') \<in> set defs \<Longrightarrow> nm' \<noteq> nm \<Longrightarrow> \<exists>e. d' (child nm' cx) v = Some (Inl e)"
  shows "firstAction defs cx v = Some (Some (Inr c))"
proof -
  obtain pre post where split: "defs = pre @ (nm, d) # post"
    using split_list [OF assms(1)] by blast
  have "\<forall>(nm', d')\<in>set pre. \<exists>e. d' (child nm' cx) v = Some (Inl e)"
  proof safe
    fix nm' d' assume "(nm', d') \<in> set pre"
    then have "(nm', d') \<in> set defs" "nm' \<noteq> nm" using assms(2) by (auto simp: split image_iff)
    then show "\<exists>e. d' (child nm' cx) v = Some (Inl e)" by (rule assms(4))
  qed
  from firstAction_pick [where d = d, OF this assms(3)] show ?thesis by (simp add: split)
qed

lemma action_rejects:
  assumes "decoder_ok ce" "(nm, d) \<in> set (actionDefs ce cc ca)"
  shows "nm \<noteq> s \<Longrightarrow> \<exists>e. d (child nm cx) (VStr s) = Some (Inl e)"
    and "nm \<noteq> key \<Longrightarrow> \<exists>e. d (child nm cx) (VMap [(key, v)]) = Some (Inl e)"
proof -
  have reject: "\<exists>e. (case x of Inl err \<Rightarrow> Some (Inl (f err)) | Inr y \<Rightarrow> g y) = Some (Inl e)"
    if "\<exists>e. x = Inl e" for x :: "cerror + 'x" and f g
    using that by auto
  note literal = literal_payload(2,3) [OF assms(1)] and key = single_key(2,3) [OF assms(1)]
  show "\<exists>e. d (child nm cx) (VStr s) = Some (Inl e)" if "nm \<noteq> s"
    using assms(2) that
    by (auto simp: actionDefs_def literalAction_def findMatchAction_def ifElseAction_def
        runWorkflowAction_def setContentTypeAction_def intro!: reject literal key)
  show "\<exists>e. d (child nm cx) (VMap [(key, v)]) = Some (Inl e)" if "nm \<noteq> key"
    using assms(2) that
    by (auto simp: actionDefs_def literalAction_def findMatchAction_def ifElseAction_def
        runWorkflowAction_def setContentTypeAction_def intro!: reject literal key)
qed

lemma actionDefs_distinct: "distinct (map fst (actionDefs ce cc ca))"
  by (simp add: actionDefs_def)

lemma pick_str:
  assumes "decoder_ok ce" "(s, d) \<in> set (actionDefs ce cc ca)" "d (child s cx) (VStr s) = Some (Inr c)"
  shows "firstAction (actionDefs ce cc ca) cx (VStr s) = Some (Some (Inr c))"
  by (rule firstAction_only [OF assms(2) actionDefs_distinct assms(3)])
    (rule action_rejects(1) [OF assms(1)])

lemma pick_map:
  assumes "decoder_ok ce" "(key, d) \<in> set (actionDefs ce cc ca)"
    "d (child key cx) (VMap [(key, v)]) = Some (Inr c)"
  shows "firstAction (actionDefs ce cc ca) cx (VMap [(key, v)]) = Some (Some (Inr c))"
  by (rule firstAction_only [OF assms(2) actionDefs_distinct assms(3)])
    (rule action_rejects(2) [OF assms(1)])

lemma pick_literal:
  assumes "decoder_ok ce" "(s, literalAction ce s mk) \<in> set (actionDefs ce cc ca)"
  shows "firstAction (actionDefs ce cc ca) cx (VStr s) = Some (Some (Inr (mk (child s cx))))"
  by (rule pick_str [OF assms]) (simp add: literalAction_def literal_payload(1) [OF assms(1)])

lemma literals_compile:
  assumes ok: "decoder_ok ce"
  shows "firstAction (actionDefs ce cc ca) cx (VStr ''attach_local_content_by_search'') =
      Some (Some (Inr AttachLocalContentBySearch))"
    and "firstAction (actionDefs ce cc ca) cx (VStr ''attach_tmdb_content_by_search'') =
      Some (Some (Inr AttachTmdbContentBySearch))"
    and "firstAction (actionDefs ce cc ca) cx (VStr ''llm_classify'') = Some (Some (Inr LlmClassify))"
    and "firstAction (actionDefs ce cc ca) cx (VStr ''unmatched'') =
      Some (Some (Inr (Unmatched (cc_path cx @ [''unmatched'']))))"
    and "firstAction (actionDefs ce cc ca) cx (VStr ''parse_date'') = Some (Some (Inr ParseDateAction))"
    and "firstAction (actionDefs ce cc ca) cx (VStr ''parse_video_content'') =
      Some (Some (Inr ParseVideoContentAction))"
  subgoal by (rule pick_literal [OF ok, where mk = "\<lambda>cx. AttachLocalContentBySearch", THEN trans]) (simp_all add: actionDefs_def)
  subgoal by (rule pick_literal [OF ok, where mk = "\<lambda>cx. AttachTmdbContentBySearch", THEN trans]) (simp_all add: actionDefs_def)
  subgoal by (rule pick_literal [OF ok, where mk = "\<lambda>cx. LlmClassify", THEN trans]) (simp_all add: actionDefs_def)
  subgoal by (rule pick_literal [OF ok, where mk = "\<lambda>cx. Unmatched (cc_path cx)", THEN trans]) (simp_all add: actionDefs_def)
  subgoal by (rule pick_literal [OF ok, where mk = "\<lambda>cx. ParseDateAction", THEN trans]) (simp_all add: actionDefs_def)
  subgoal by (rule pick_literal [OF ok, where mk = "\<lambda>cx. ParseVideoContentAction", THEN trans]) (simp_all add: actionDefs_def)
  done

lemma contentType_compiles:
  assumes "decoder_ok ce" "ct \<noteq> Some ContentTypeUnknown"
  shows "contentTypePayloadSpec ce cx (VStr (contentTypeName ct)) = Inr ct"
  using assms(2)
  by (cases ct rule: contentTypeName.cases)
    (simp_all add: contentTypePayloadSpec_def payloadTransformer_def payloadEnum_def
      decoder_okD(3) [OF assms(1)] ContentTypeNames_def contentTypeValues_def ParseContentType_def)

lemma ifElse_decodes:
  assumes "decoder_ok ce"
  shows "ce_ifElse ce (VMap ((''condition'', v) #
      (case i of None \<Rightarrow> [] | Some b \<Rightarrow> [(''if_action'', f b)]) @
      (case e of None \<Rightarrow> [] | Some b \<Rightarrow> [(''else_action'', f b)]))) =
    Inr \<lparr>ie_Condition = v, ie_IfAction = (case i of None \<Rightarrow> VNull | Some b \<Rightarrow> f b),
         ie_ElseAction = (case e of None \<Rightarrow> VNull | Some b \<Rightarrow> f b)\<rparr>"
proof -
  let ?m = "(''condition'', v) # (case i of None \<Rightarrow> [] | Some b \<Rightarrow> [(''if_action'', f b)]) @
      (case e of None \<Rightarrow> [] | Some b \<Rightarrow> [(''else_action'', f b)])"
  have "distinct (map fst ?m) \<and> set (map fst ?m) \<subseteq> {''condition'', ''if_action'', ''else_action''}"
    by (auto split: option.splits)
  then have "ce_ifElse ce (VMap ?m) = Inr
        \<lparr>ie_Condition = (case map_of ?m ''condition'' of Some v \<Rightarrow> v | None \<Rightarrow> VNull),
         ie_IfAction = (case map_of ?m ''if_action'' of Some v \<Rightarrow> v | None \<Rightarrow> VNull),
         ie_ElseAction = (case map_of ?m ''else_action'' of Some v \<Rightarrow> v | None \<Rightarrow> VNull)\<rparr>"
    using assms unfolding decoder_ok_def by blast
  then show ?thesis by (simp split: option.splits)
qed

lemma compileBranch_source:
  assumes "\<And>b. br = Some b \<Longrightarrow> f (child name cx) (blockSource b) =
    Some (Inr (elabBlock prg (cc_path cx @ [name]) b))"
  shows "compileBranch f name cx (case br of None \<Rightarrow> VNull | Some b \<Rightarrow> blockSource b) =
    Some (Inr (elabBranch prg (cc_path cx @ [name]) br))"
  using assms by (cases br) (simp_all add: compileBranch_def)

lemma compileBlocks_source:
  assumes "\<And>b cx'. b \<in> set bs \<Longrightarrow> cc_workflowNames cx' = cc_workflowNames cx \<Longrightarrow>
    f cx' (blockSource b) = Some (Inr (elabBlock prg (cc_path cx') b))"
  shows "compileEach f cx i (map blockSource bs) = Some (Inr (elabBlocks prg (cc_path cx) i bs))"
  using assms by (induction bs arbitrary: i) simp_all

lemma compileItems_source:
  assumes "\<And>a cx'. a \<in> set as \<Longrightarrow> cc_workflowNames cx' = cc_workflowNames cx \<Longrightarrow>
    firstAction defs cx' (actionSource a) = Some (Some (Inr (elabAction prg (cc_path cx') a)))"
  shows "compileItems defs cx True i (map actionSource as) acc [] =
    Some (Inr (SeqAction (acc @ elabActions prg (cc_path cx) i as)))"
  using assms by (induction as arbitrary: i acc) simp_all

lemma compileOne_source:
  assumes ok: "decoder_ok ce"
    and blocks: "\<And>b cx'. cc_workflowNames cx' = names \<Longrightarrow> blockWf (\<lambda>s. ce_Compile ce s = Inr (prg s)) names b \<Longrightarrow>
      blockDepth b \<le> n \<Longrightarrow> compileAction n ce cx' (blockSource b) = Some (Inr (elabBlock prg (cc_path cx') b))"
    and a: "actionWf (\<lambda>s. ce_Compile ce s = Inr (prg s)) names a" "actionDepth a \<le> n"
    and cx: "cc_workflowNames cx = names"
  shows "firstAction (actionDefs ce (compileCondition n ce) (compileAction n ce)) cx (actionSource a) =
    Some (Some (Inr (elabAction prg (cc_path cx) a)))"
proof (cases a)
  case (WFindMatch bs)
  have "compileEach (compileAction n ce) cx' 0 (map blockSource bs) =
      Some (Inr (elabBlocks prg (cc_path cx') 0 bs))" if "cc_workflowNames cx' = names" for cx'
  proof (rule compileBlocks_source)
    fix b and cx'' :: compiler_context
    assume "b \<in> set bs" "cc_workflowNames cx'' = cc_workflowNames cx'"
    then show "compileAction n ce cx'' (blockSource b) = Some (Inr (elabBlock prg (cc_path cx'') b))"
      using a that maxOf_ge [of "blockDepth b" "map blockDepth bs"] by (intro blocks) (auto simp: WFindMatch)
  qed
  then have "findMatchAction ce (compileAction n ce) (child ''find_match'' cx) (actionSource a) =
      Some (Inr (elabAction prg (cc_path cx) a))"
    by (simp add: WFindMatch findMatchAction_def single_key(1) [OF ok] payloadMustSucceed_def list_sources cx)
  then show ?thesis
    unfolding WFindMatch actionSource.simps
    by (intro pick_map [OF ok, where d = "findMatchAction ce (compileAction n ce)"])
      (simp_all add: actionDefs_def)
next
  case (WIfElse c i e)
  have branch: "compileBranch (compileAction n ce) name cx'
      (case br of None \<Rightarrow> VNull | Some b \<Rightarrow> blockSource b) =
      Some (Inr (elabBranch prg (cc_path cx' @ [name]) br))"
    if "br = i \<or> br = e" "cc_workflowNames cx' = names" for name br cx'
    using a that by (intro compileBranch_source) (auto simp: WIfElse blocks [of "child name cx'", simplified])
  have cond: "compileCondition n ce cx' (condSource c) = Some (Inr (elabCond prg c))" for cx'
    using compileCondition_source [OF ok] a by (auto simp: WIfElse)
  have "ifElseAction ce (compileCondition n ce) (compileAction n ce) (child ''if_else'' cx) (actionSource a) =
      Some (Inr (elabAction prg (cc_path cx) a))"
    by (simp add: WIfElse ifElseAction_def single_key(1) [OF ok] payloadMustSucceed_def
        ifElse_decodes [OF ok] cond branch cx)
  then show ?thesis
    unfolding WIfElse actionSource.simps
    by (intro pick_map [OF ok, where d = "ifElseAction ce (compileCondition n ce) (compileAction n ce)"])
      (simp_all add: actionDefs_def)
next
  case (WRunWorkflow ns)
  then have "runWorkflowAction ce (child ''run_workflow'' cx) (actionSource a) =
      Some (Inr (elabAction prg (cc_path cx) a))"
    using a by (auto simp: runWorkflowAction_def single_key(1) [OF ok] payloadMustSucceed_def
        list_payload(2) cx find_None_iff find_Some_iff split: option.split)
  then show ?thesis
    unfolding WRunWorkflow actionSource.simps
    by (intro pick_map [OF ok, where d = "runWorkflowAction ce"])
      (simp_all add: actionDefs_def)
next
  case (WSetContentType ct)
  then have "setContentTypeAction ce (child ''set_content_type'' cx) (actionSource a) =
      Some (Inr (elabAction prg (cc_path cx) a))"
    using a by (simp add: setContentTypeAction_def single_key(1) [OF ok] payloadMustSucceed_def
        contentType_compiles [OF ok])
  then show ?thesis
    unfolding WSetContentType actionSource.simps
    by (intro pick_map [OF ok, where d = "setContentTypeAction ce"])
      (simp_all add: actionDefs_def)
qed (simp_all add: literals_compile [OF ok] del: firstAction.simps)

lemma compileAction_source:
  "decoder_ok ce \<Longrightarrow> blockWf (\<lambda>s. ce_Compile ce s = Inr (prg s)) (cc_workflowNames cx) b \<Longrightarrow>
    blockDepth b \<le> n \<Longrightarrow>
    compileAction n ce cx (blockSource b) = Some (Inr (elabBlock prg (cc_path cx) b))"
proof (induction n arbitrary: cx b)
  case 0
  then show ?case by (cases b) simp_all
next
  case (Suc n)
  note one = compileOne_source [OF Suc.prems(1) Suc.IH [OF Suc.prems(1)]]
  show ?case
  proof (cases b)
    case (WSingle a)
    have pick: "firstAction (actionDefs ce (compileCondition n ce) (compileAction n ce)) cx (actionSource a) =
        Some (Some (Inr (elabAction prg (cc_path cx) a)))"
      using Suc.prems by (intro one) (auto simp: WSingle)
    have "\<forall>vs. actionSource a \<noteq> VList vs" by (cases a) simp_all
    with pick show ?thesis by (cases "actionSource a") (simp_all add: WSingle Let_def)
  next
    case (WBlock as)
    have "compileItems (actionDefs ce (compileCondition n ce) (compileAction n ce)) cx True 0
        (map actionSource as) [] [] = Some (Inr (SeqAction ([] @ elabActions prg (cc_path cx) 0 as)))"
    proof (rule compileItems_source)
      fix a and cx' :: compiler_context
      assume "a \<in> set as" "cc_workflowNames cx' = cc_workflowNames cx"
      then show "firstAction (actionDefs ce (compileCondition n ce) (compileAction n ce)) cx' (actionSource a) =
          Some (Some (Inr (elabAction prg (cc_path cx') a)))"
        using Suc.prems maxOf_ge [of "actionDepth a" "map actionDepth as"]
        by (intro one) (auto simp: WBlock)
    qed
    then show ?thesis by (simp add: WBlock)
  qed
qed

section \<open>Compiling a printed source\<close>

lemma compileWorkflows_source:
  assumes "decoder_ok ce"
    "\<forall>(name, b)\<in>set prog. blockWf (\<lambda>s. ce_Compile ce s = Inr (prg s)) (cc_workflowNames cx) b \<and> blockDepth b \<le> n"
  shows "compileWorkflows n ce cx (map (\<lambda>(name, b). (name, blockSource b)) prog) =
    Some (Inr (map (\<lambda>(name, b). (name, elabBlock prg (cc_path cx @ [name]) b)) prog))"
  using assms(2)
proof (induction prog)
  case (Cons p prog)
  obtain name b where p: "p = (name, b)" by (cases p)
  have "compileAction n ce (child name cx) (blockSource b) =
      Some (Inr (elabBlock prg (cc_path (child name cx)) b))"
    using Cons.prems by (intro compileAction_source [OF assms(1)]) (simp_all add: p)
  with Cons show ?case by (simp add: p)
qed simp

text \<open>The decoder and the expression compiler of the witnesses.\<close>

definition plainEnv :: "string compile_env" where
  "plainEnv = \<lparr>ce_map = (\<lambda>v. case v of VMap m \<Rightarrow> Inr m | _ \<Rightarrow> Inl (OtherError ''expected a map'')),
    ce_string = (\<lambda>v. case v of VStr s \<Rightarrow> Inr s | _ \<Rightarrow> Inl (OtherError ''expected type string'')),
    ce_ifElse = (\<lambda>v. case v of
        VMap m \<Rightarrow> Inr \<lparr>ie_Condition = (case map_of m ''condition'' of Some v \<Rightarrow> v | None \<Rightarrow> VNull),
          ie_IfAction = (case map_of m ''if_action'' of Some v \<Rightarrow> v | None \<Rightarrow> VNull),
          ie_ElseAction = (case map_of m ''else_action'' of Some v \<Rightarrow> v | None \<Rightarrow> VNull)\<rparr>
      | _ \<Rightarrow> Inl (OtherError ''expected a map'')),
    ce_Compile = Inr, ce_ToLower = (\<lambda>s. s)\<rparr>"

lemma plainEnv_ok [simp]: "decoder_ok plainEnv" "ce_Compile plainEnv = Inr"
  by (simp_all add: decoder_ok_def plainEnv_def)

definition sampleProgram :: "(string \<times> wblock) list" where
  "sampleProgram =
    [(''default'', WBlock [WIfElse (WAnd [WExpr ''a'', WNot (WExpr ''b'')])
        (Some (WSingle (WRunWorkflow [''music'']))) None, WFindMatch [WSingle WParseDate]]),
     (''music'', WSingle (WSetContentType (Some ContentTypeMusic)))]"

definition sampleSource :: source where
  "sampleSource = emptySource\<lparr>sr_Workflows := map (\<lambda>(name, b). (name, blockSource b)) sampleProgram\<rparr>"

text \<open>C34. Compiling a source whose workflows are written in the language of the classifier gives the
  runner with each workflow elaborated at its own path: every action, condition, branch and
  reference is the one written, in order; the depth of the source is fuel enough.\<close>

theorem Compile_source:
  assumes "decoder_ok ce" "decode src = Inr src"
    "sr_Workflows src = map (\<lambda>(name, b). (name, blockSource b)) prog"
    "\<forall>(name, b)\<in>set prog. blockWf (\<lambda>s. ce_Compile ce s = Inr (prg s)) (fst ` set prog) b \<and> blockDepth b \<le> n"
    "exprEnvOption regex src = Inr env"
    "compileFlags (ce_ToLower ce) (sr_Flags src) (sr_FlagDefinitions src) = Inr flags"
  shows "Compile n ce decode regex src = Some (Inr
    \<lparr>rn_flagDefinitions = sr_FlagDefinitions src, rn_defaultFlags = flags, rn_exprEnv = env,
     rn_workflows = map (\<lambda>(name, b). (name, elabBlock prg [''workflows'', name] b)) prog\<rparr>)"
proof -
  let ?cx = "child ''workflows'' \<lparr>cc_path = [], cc_workflowNames = workflowNames src\<rparr>"
  have "workflowNames src = fst ` set prog" by (force simp: workflowNames_def assms(3))
  then have "compileWorkflows n ce ?cx (sr_Workflows src) =
      Some (Inr (map (\<lambda>(name, b). (name, elabBlock prg (cc_path ?cx @ [name]) b)) prog))"
    unfolding assms(3) using assms(4) by (intro compileWorkflows_source [OF assms(1)]) simp
  then show ?thesis by (simp add: Compile_def Let_def assms(2,5,6))
qed

theorem Compile_source_witness:
  "\<exists>r. Compile 4 plainEnv Inr (\<lambda>_. Inr []) sampleSource = Some (Inr r) \<and>
    rn_workflows r =
      [(''default'', SeqAction [IfElse (AndCond [ExprCond ''a'', NotCond (ExprCond ''b'')])
          (Some (SeqAction [RunWorkflow [''music'']])) None,
        FindMatch [''workflows'', ''default'', ''[1]'', ''find_match''] [SeqAction [ParseDateAction]]]),
       (''music'', SeqAction [SetContentType (Some ContentTypeMusic)])]"
proof -
  have "numericPathPart 1 = ''[1]''" by code_simp
  then have part: "numericPathPart (Suc 0) = ''[1]''" by simp
  have "Compile 4 plainEnv Inr (\<lambda>_. Inr []) sampleSource = Some (Inr
      \<lparr>rn_flagDefinitions = [], rn_defaultFlags = [],
       rn_exprEnv = projr (exprEnvOption (\<lambda>_. Inr []) sampleSource),
       rn_workflows = map (\<lambda>(name, b). (name, elabBlock (\<lambda>s. s) [''workflows'', name] b)) sampleProgram\<rparr>)"
    using Compile_source [where ce = plainEnv and decode = Inr and src = sampleSource
      and prog = sampleProgram and prg = "\<lambda>s. s" and n = 4 and regex = "\<lambda>_. Inr []" and flags = "[]"
      and env = "projr (exprEnvOption (\<lambda>_. Inr []) sampleSource)"]
    by (simp add: sampleSource_def emptySource_def sampleProgram_def exprEnvOption_def maxOf_def)
  then show ?thesis using part by (simp add: sampleProgram_def)
qed

section \<open>Workflows that a compiled action runs\<close>

primrec actionCalls :: "'p action \<Rightarrow> string set" where
  "actionCalls (SeqAction as) = \<Union> (set (map actionCalls as))"
| "actionCalls AttachLocalContentBySearch = {}"
| "actionCalls AttachTmdbContentBySearch = {}"
| "actionCalls (FindMatch path as) = \<Union> (set (map actionCalls as))"
| "actionCalls (IfElse c i e) = \<Union> (set_option (map_option actionCalls i)) \<union> \<Union> (set_option (map_option actionCalls e))"
| "actionCalls LlmClassify = {}"
| "actionCalls (Unmatched path) = {}"
| "actionCalls ParseDateAction = {}"
| "actionCalls ParseVideoContentAction = {}"
| "actionCalls (RunWorkflow names) = set names"
| "actionCalls (SetContentType ct) = {}"

text \<open>A compiler whose results run known workflows only.\<close>

definition callsKnown :: "'p action compiler \<Rightarrow> bool" where
  "callsKnown f \<longleftrightarrow> (\<forall>cx v a. f cx v = Some (Inr a) \<longrightarrow> actionCalls a \<subseteq> cc_workflowNames cx)"

lemma callsKnownD: "callsKnown f \<Longrightarrow> f cx v = Some (Inr a) \<Longrightarrow> actionCalls a \<subseteq> cc_workflowNames cx"
  by (simp add: callsKnown_def)

lemma compileEach_calls:
  assumes "callsKnown f" "compileEach f cx i vs = Some (Inr as)" "a \<in> set as"
  shows "actionCalls a \<subseteq> cc_workflowNames cx"
  using assms(2,3)
proof (induction vs arbitrary: i as)
  case (Cons v vs)
  from Cons.prems obtain b bs where step: "f (child (numericPathPart i) cx) v = Some (Inr b)"
      "compileEach f cx (i + 1) vs = Some (Inr bs)" "as = b # bs"
    by (auto split: option.splits sum.splits)
  with Cons.IH [OF step(2)] Cons.prems(2) callsKnownD [OF assms(1) step(1)] show ?case by auto
qed simp

lemma findMatch_calls: "callsKnown f \<Longrightarrow> callsKnown (findMatchAction ce f)"
  unfolding callsKnown_def [of "findMatchAction ce f"] findMatchAction_def
  using compileEach_calls [of f] by (force split: option.splits sum.splits)

lemma compileBranch_calls:
  assumes "callsKnown f" "compileBranch f name cx v = Some (Inr (Some a))"
  shows "actionCalls a \<subseteq> cc_workflowNames cx"
  using assms(2) callsKnownD [OF assms(1), of "child name cx" v]
  by (auto simp: compileBranch_def split: if_splits option.splits sum.splits)

lemma ifElse_calls: "callsKnown f \<Longrightarrow> callsKnown (ifElseAction ce cc f)"
  unfolding callsKnown_def [of "ifElseAction ce cc f"] ifElseAction_def
  using compileBranch_calls [of f]
  by (auto simp: option.set_map elim!: option.set_cases split: option.splits sum.splits) blast+

lemma runWorkflow_calls: "callsKnown (runWorkflowAction ce)"
  by (auto simp: callsKnown_def runWorkflowAction_def find_None_iff split: option.splits sum.splits)

lemma plain_calls:
  "(\<And>cx. actionCalls (mk cx) = {}) \<Longrightarrow> callsKnown (literalAction ce s mk)"
  "callsKnown (setContentTypeAction ce)"
  by (auto simp: callsKnown_def literalAction_def setContentTypeAction_def split: sum.splits)

lemma actionDefs_calls:
  "callsKnown f \<Longrightarrow> (nm, d) \<in> set (actionDefs ce cc f) \<Longrightarrow> callsKnown d"
  by (auto simp: actionDefs_def intro: findMatch_calls ifElse_calls runWorkflow_calls plain_calls)

lemma firstAction_calls:
  assumes "\<forall>(nm, d)\<in>set defs. callsKnown d" "firstAction defs cx v = Some (Some (Inr a))"
  shows "actionCalls a \<subseteq> cc_workflowNames cx"
  using assms
proof (induction defs)
  case (Cons p defs)
  obtain nm d where p: "p = (nm, d)" by (cases p)
  with Cons callsKnownD [of d "child nm cx" v] show ?case
    by (auto split: option.splits sum.splits)
qed simp

lemma compileItems_calls:
  assumes "\<forall>(nm, d)\<in>set defs. callsKnown d"
  shows "compileItems defs cx isArray i vs as errs = Some (Inr a) \<Longrightarrow>
    \<forall>x\<in>set as. actionCalls x \<subseteq> cc_workflowNames cx \<Longrightarrow> actionCalls a \<subseteq> cc_workflowNames cx"
proof (induction vs arbitrary: i as errs)
  case Nil
  then have "a = SeqAction as" by (simp split: if_splits)
  with Nil.prems(2) show ?case by (simp add: UN_subset_iff)
next
  case (Cons v vs)
  define cx' where "cx' = (if isArray then child (numericPathPart i) cx else cx)"
  have names: "cc_workflowNames cx' = cc_workflowNames cx" by (simp add: cx'_def)
  from Cons.prems(1) consider (one) b where "firstAction defs cx' v = Some (Some (Inr b))"
      "compileItems defs cx isArray (i + 1) vs (as @ [b]) errs = Some (Inr a)"
    | (none) errs' where "compileItems defs cx isArray (i + 1) vs as errs' = Some (Inr a)"
    by (auto simp: cx'_def [symmetric] split: option.splits sum.splits)
  then show ?case
  proof cases
    case (one b)
    from firstAction_calls [OF assms one(1)] Cons.prems(2) show ?thesis
      by (intro Cons.IH [OF one(2)]) (simp add: names)
  next
    case none
    then show ?thesis by (rule Cons.IH) (rule Cons.prems(2))
  qed
qed

lemma compileAction_calls: "callsKnown (compileAction n ce)"
proof (induction n)
  case (Suc n)
  then have defs: "\<forall>(nm, d)\<in>set (actionDefs ce (compileCondition n ce) (compileAction n ce)). callsKnown d"
    using actionDefs_calls by fast
  show ?case
    unfolding callsKnown_def
  proof (intro allI impI)
    fix cx v a assume run: "compileAction (Suc n) ce cx v = Some (Inr a)"
    show "actionCalls a \<subseteq> cc_workflowNames cx"
      by (cases v) (use run compileItems_calls [OF defs] in \<open>force simp: Let_def simp del: compileItems.simps\<close>)+
  qed
qed (simp add: callsKnown_def)

lemma compileWorkflows_calls:
  "compileWorkflows n ce cx srcs = Some (Inr ws) \<Longrightarrow>
    map fst ws = map fst srcs \<and> (\<forall>(name, a)\<in>set ws. actionCalls a \<subseteq> cc_workflowNames cx)"
proof (induction srcs arbitrary: ws)
  case (Cons s srcs)
  obtain name src where s: "s = (name, src)" by (cases s)
  with Cons.prems obtain a ws' where step: "compileAction n ce (child name cx) src = Some (Inr a)"
      "compileWorkflows n ce cx srcs = Some (Inr ws')" "ws = (name, a) # ws'"
    by (auto split: option.splits sum.splits)
  with Cons.IH [OF step(2)] callsKnownD [OF compileAction_calls step(1)] s show ?case by simp
qed simp

lemma Compile_calls:
  assumes "Compile n ce decode regex src0 = Some (Inr r)"
    "\<And>src. decode src0 = Inr src \<Longrightarrow> workflowNames src = workflowNames src0"
  shows "\<forall>(name, a)\<in>set (rn_workflows r). actionCalls a \<subseteq> fst ` set (rn_workflows r)"
proof -
  obtain src env ws where c: "decode src0 = Inr src"
      "compileWorkflows n ce (child ''workflows'' \<lparr>cc_path = [], cc_workflowNames = workflowNames src0\<rparr>)
        (sr_Workflows src) = Some (Inr ws)" "rn_workflows r = ws"
    using assms(1) by (auto simp: Compile_def Let_def bind_sum_def split: option.splits sum.splits prod.splits)
  have "fst ` set ws = workflowNames src"
    using compileWorkflows_calls [OF c(2)] by (metis workflowNames_def image_set)
  then show ?thesis
    using compileWorkflows_calls [OF c(2)] assms(2) [OF c(1)] c(3) by simp
qed

end
