(* ===== verification/VideoParser.thy ===== *)
theory VideoParser
  imports ClassifierCompile
begin

text \<open>
  What the classifier reads off a torrent name beside a date: \<open>src/internal/model/episodes.go\<close>,
  \<open>src/internal/model/episodes_parser.go\<close> and \<open>src/internal/classifier/parsers_video.go\<close>, with
  the attributes of \<open>classification_result.go\<close>.

  \<^item> The regular expressions are built by the third-party package \<open>rex\<close>: what a search with one
    returns is a field of the record \<open>video_env\<close>, already taken apart into the whole match and its
    groups, and so are the table of languages and the keyword expression for multiple languages.
  \<^item> A Go \<open>map[int]map[int]struct{}\<close> is a finite map to finite sets.
  \<^item> Languages are a Go map, that is a reference: a result holds the address of a cell of a
    \<open>lang_store\<close>, since \<open>applyLLMResult\<close> writes through it (theory \<open>ClassifierRun\<close>).
\<close>

section \<open>Numbers\<close>

text \<open>\<open>strconv.ParseInt(s, 10, 16)\<close> and \<open>strconv.ParseUint(s, 10, 16)\<close> with the error thrown away: 0
  for bad syntax, the nearest bound outside the range.\<close>

definition ParseUint16 :: "runes \<Rightarrow> nat" where
  "ParseUint16 s = (if s = [] \<or> \<not> list_all IsInt s then 0 else min (digitsValue s) 65535)"

definition ParseInt16 :: "runes \<Rightarrow> int" where
  "ParseInt16 s =
    (let neg = (s \<noteq> [] \<and> hd s = 45); ds = (if s \<noteq> [] \<and> (hd s = 45 \<or> hd s = 43) then tl s else s) in
     if ds = [] \<or> \<not> list_all IsInt ds then 0
     else if neg then - int (min (digitsValue ds) 32768)
     else int (min (digitsValue ds) 32767))"

text \<open>\<open>strings.Split(s, sep)\<close> for a separator of one rune.\<close>

fun SplitRunes :: "rune \<Rightarrow> runes \<Rightarrow> runes list" where
  "SplitRunes sep [] = [[]]"
| "SplitRunes sep (r # rs) =
    (if r = sep then [] # SplitRunes sep rs
     else (case SplitRunes sep rs of w # ws \<Rightarrow> (r # w) # ws | [] \<Rightarrow> [[r]]))"

section \<open>Episodes\<close>

type_synonym episodes = "(int, int fset) fmap"

definition AddEpisode :: "episodes \<Rightarrow> int \<Rightarrow> int \<Rightarrow> episodes" where
  "AddEpisode e season episode =
    (let eps = (case fmlookup e season of Some s \<Rightarrow> s | None \<Rightarrow> {||}) in
     fmupd season (finsert episode eps) e)"

definition AddSeason :: "episodes \<Rightarrow> int \<Rightarrow> episodes" where
  "AddSeason e season = fmupd season {||} e"

definition addSeasons :: "int list \<Rightarrow> episodes \<Rightarrow> episodes" where
  "addSeasons ss e = fold (\<lambda>s e. AddSeason e s) ss e"

definition addEpisodes :: "int \<Rightarrow> int list \<Rightarrow> episodes \<Rightarrow> episodes" where
  "addEpisodes season ns e = fold (\<lambda>n e. AddEpisode e season n) ns e"

text \<open>The argument is the match without its first two elements; \<open>None\<close> is the \<open>nil\<close> map.\<close>

definition EpisodesMatchToEpisodes :: "runes list \<Rightarrow> episodes option" where
  "EpisodesMatchToEpisodes match =
    (if length match < 12 then None
     else Some (if match ! 1 \<noteq> [] then
       (let seasonStart = ParseInt16 (match ! 2) in
        if match ! 5 = [] then
          (if match ! 3 \<noteq> [] then addSeasons [seasonStart..ParseInt16 (match ! 3)] fmempty
           else if match ! 4 \<noteq> [] then addSeasons (map ParseInt16 (SplitRunes 44 (match ! 1))) fmempty
           else AddSeason fmempty seasonStart)
        else
          (let episodeStart = ParseInt16 (match ! 6) in
           if match ! 7 \<noteq> [] then
             addEpisodes seasonStart [episodeStart..ParseInt16 (match ! 7)] fmempty
           else if match ! 8 \<noteq> [] then
             addEpisodes seasonStart (map ParseInt16 (SplitRunes 44 (match ! 5))) fmempty
           else AddEpisode fmempty seasonStart episodeStart))
     else
       (let season = ParseInt16 (match ! 9); episodeStart = ParseInt16 (match ! 10);
            episodeEnd = (if match ! 11 \<noteq> [] then ParseInt16 (match ! 11) else episodeStart) in
        addEpisodes season [episodeStart..episodeEnd] fmempty)))"

text \<open>\<open>len(episodes)\<close>, which is 0 for the \<open>nil\<close> map.\<close>

definition noEpisodes :: "episodes option \<Rightarrow> bool" where
  "noEpisodes e \<longleftrightarrow> (case e of None \<Rightarrow> True | Some m \<Rightarrow> fmdom m = {||})"

section \<open>Titles\<close>

type_synonym lang = string
type_synonym lang_store = "lang fset list"

record video_env =
  ve_title :: "runes \<Rightarrow> (runes \<times> runes) option"
  ve_titleYear :: "runes \<Rightarrow> (runes \<times> runes \<times> runes) option"
  ve_titleEpisodes :: "runes \<Rightarrow> (runes \<times> runes \<times> runes list) option"
  ve_titleParts :: "(runes \<Rightarrow> runes) \<Rightarrow> runes \<Rightarrow> runes"
  ve_titlePart :: "runes \<Rightarrow> runes option"
  ve_trimTitle :: "runes \<Rightarrow> runes"
  ve_multi :: "runes \<Rightarrow> bool"
  ve_InferLanguages :: "runes \<Rightarrow> lang fset option"

definition cleanTitle :: "video_env \<Rightarrow> runes \<Rightarrow> runes" where
  "cleanTitle ve title =
    ve_trimTitle ve (ve_titleParts ve (\<lambda>s. case ve_titlePart ve s of
       None \<Rightarrow> [] | Some part \<Rightarrow> part @ [32]) title)"

text \<open>A match begins where the input does, so what is left is the input without it.\<close>

definition parseTitleYear :: "video_env \<Rightarrow> runes \<Rightarrow> (runes \<times> nat \<times> runes) option" where
  "parseTitleYear ve input = (case ve_titleYear ve input of
     None \<Rightarrow> None
   | Some (whole, t, y) \<Rightarrow>
       (let title = cleanTitle ve t in
        if title \<noteq> [] then Some (title, ParseUint16 y, drop (length whole) input) else None))"

definition parseTitle :: "video_env \<Rightarrow> runes \<Rightarrow> (runes \<times> runes) option" where
  "parseTitle ve input = (case ve_title ve input of
     None \<Rightarrow> None
   | Some (whole, t) \<Rightarrow>
       (let title = cleanTitle ve t in
        if title \<noteq> [] then Some (title, drop (length whole) input) else None))"

definition parseTitleYearEpisodes ::
  "video_env \<Rightarrow> runes \<Rightarrow> (runes \<times> nat \<times> episodes option \<times> runes) option" where
  "parseTitleYearEpisodes ve input = (case ve_titleEpisodes ve input of
     None \<Rightarrow> None
   | Some (whole, t, groups) \<Rightarrow>
       (let (title, year) = (case parseTitleYear ve t of
              Some (t', y, _) \<Rightarrow> (t', y) | None \<Rightarrow> (cleanTitle ve t, 0)) in
        Some (title, year, EpisodesMatchToEpisodes groups, drop (length whole) input)))"

definition ParseTitleYearEpisodes ::
  "video_env \<Rightarrow> content_type option \<Rightarrow> runes \<Rightarrow> (runes \<times> nat \<times> episodes option \<times> runes) option" where
  "ParseTitleYearEpisodes ve contentType input =
    (let plain = (case parseTitleYear ve input of
            Some (title, year, rest) \<Rightarrow> Some (title, year, None, rest)
          | None \<Rightarrow> (case parseTitle ve input of
              Some (title, rest) \<Rightarrow> Some (title, 0, None, rest)
            | None \<Rightarrow> None)) in
     if contentType \<in> {None, Some ContentTypeTvShow, Some ContentTypeUnknown} then
       (case parseTitleYearEpisodes ve input of Some r \<Rightarrow> Some r | None \<Rightarrow> plain)
     else plain)"

section \<open>Attributes\<close>

record attributes =
  ca_ContentType :: "content_type option"
  ca_BaseTitle :: "runes option"
  ca_Date :: date
  ca_Languages :: "nat option"
  ca_LanguageMulti :: bool

definition emptyAttributes :: attributes where
  "emptyAttributes = \<lparr>ca_ContentType = None, ca_BaseTitle = None, ca_Date = nilDate,
    ca_Languages = None, ca_LanguageMulti = False\<rparr>"

text \<open>\<open>InferLanguages\<close> makes a new map or returns \<open>nil\<close>.\<close>

definition newLanguages :: "lang_store \<Rightarrow> lang fset option \<Rightarrow> lang_store \<times> nat option" where
  "newLanguages st ls = (case ls of None \<Rightarrow> (st, None) | Some s \<Rightarrow> (st @ [s], Some (length st)))"

definition languagesAt :: "lang_store \<Rightarrow> nat option \<Rightarrow> lang fset" where
  "languagesAt st a = (case a of None \<Rightarrow> {||} | Some i \<Rightarrow> if i < length st then st ! i else {||})"

definition ParseVideoContent :: "video_env \<Rightarrow> runes \<Rightarrow> content_type option \<Rightarrow> lang_store \<Rightarrow>
    (cerror + attributes) \<times> lang_store" where
  "ParseVideoContent ve name contentType st =
    (let parsed = ParseTitleYearEpisodes ve contentType name in
     if parsed = None \<and> contentType = None then (Inl ErrUnmatched, st)
     else
       let (title, year, episodes, rest) = (case parsed of Some r \<Rightarrow> r | None \<Rightarrow> ([], 0, None, name));
           ct = (if \<not> noEpisodes episodes then Some ContentTypeTvShow
                 else if contentType \<noteq> None then contentType
                 else if year \<noteq> 0 then Some ContentTypeMovie else None);
           (title, rest) = (if year = 0 \<and> noEpisodes episodes then ([], name) else (title, rest));
           (st', langs) = newLanguages st (ve_InferLanguages ve rest) in
       (Inr \<lparr>ca_ContentType = ct, ca_BaseTitle = (if title \<noteq> [] then Some title else None),
            ca_Date = nilDate\<lparr>d_Year := year\<rparr>, ca_Languages = langs,
            ca_LanguageMulti = ve_multi ve rest\<rparr>, st'))"

definition attributes_Merge :: "lang_store \<Rightarrow> attributes \<Rightarrow> attributes \<Rightarrow> attributes" where
  "attributes_Merge st a other =
    \<lparr>ca_ContentType = (if ca_ContentType a = None then ca_ContentType other else ca_ContentType a),
     ca_BaseTitle = (if ca_BaseTitle a = None then ca_BaseTitle other else ca_BaseTitle a),
     ca_Date = (if date_IsNil (ca_Date a) then ca_Date other else ca_Date a),
     ca_Languages = (if languagesAt st (ca_Languages a) = {||} then ca_Languages other
       else ca_Languages a),
     ca_LanguageMulti = (ca_LanguageMulti a \<or> ca_LanguageMulti other)\<rparr>"

section \<open>Ranges of seasons and episodes\<close>

definition episodeIn :: "episodes \<Rightarrow> int \<Rightarrow> int \<Rightarrow> bool" where
  "episodeIn e season n \<longleftrightarrow> (case fmlookup e season of None \<Rightarrow> False | Some eps \<Rightarrow> n |\<in>| eps)"

lemma addSeasons_lookup:
  "fmlookup (addSeasons ss e) s = (if s \<in> set ss then Some {||} else fmlookup e s)"
  by (induction ss arbitrary: e) (auto simp: addSeasons_def AddSeason_def)

lemma addEpisodes_lookup:
  "fmlookup (addEpisodes season ns e) s =
    (if s = season \<and> ns \<noteq> [] then
       Some (fset_of_list ns |\<union>| (case fmlookup e season of Some eps \<Rightarrow> eps | None \<Rightarrow> {||}))
     else fmlookup e s)"
proof (induction ns arbitrary: e)
  case (Cons n ns)
  have "addEpisodes season (n # ns) e = addEpisodes season ns (AddEpisode e season n)"
    by (simp add: addEpisodes_def)
  then show ?case by (auto simp: Cons.IH AddEpisode_def Let_def)
qed (simp add: addEpisodes_def)

lemma episodeIn_added:
  "episodeIn (addEpisodes season ns fmempty) s n \<longleftrightarrow> s = season \<and> n \<in> set ns"
  by (cases "s = season"; cases "ns = []") (simp_all add: episodeIn_def addEpisodes_lookup fset_of_list_elem)

text \<open>Both ends of a list are cut at the commas and nowhere else, so a space that the expression let
  through makes a number 0.\<close>

lemma list_with_space_loses_season:
  "EpisodesMatchToEpisodes ([[], runes_of ''1, 2'', runes_of ''1'', [], runes_of ''2''] @ replicate 7 []) =
    Some (AddSeason (AddSeason fmempty 1) 0)"
proof -
  have "map ParseInt16 (SplitRunes 44 (runes_of ''1, 2'')) = [1, 0]" by code_simp
  then show ?thesis by (simp add: EpisodesMatchToEpisodes_def addSeasons_def runes_of_def del: list.map)
qed

text \<open>A season range in a torrent name stands for exactly the seasons between its ends, whole; an
  episode range, in both notations, for exactly the episodes between its ends, of the one season; a
  range whose ends are swapped stands for nothing.\<close>

theorem EpisodesMatch_ranges:
  assumes "EpisodesMatchToEpisodes m = Some e"
  shows "(m ! 1 \<noteq> [] \<and> m ! 5 = [] \<and> m ! 3 \<noteq> [] \<longrightarrow> (\<forall>s. fmlookup e s =
      (if ParseInt16 (m ! 2) \<le> s \<and> s \<le> ParseInt16 (m ! 3) then Some {||} else None))) \<and>
    (m ! 1 \<noteq> [] \<and> m ! 5 \<noteq> [] \<and> m ! 7 \<noteq> [] \<longrightarrow> (\<forall>s n. episodeIn e s n \<longleftrightarrow>
      s = ParseInt16 (m ! 2) \<and> ParseInt16 (m ! 6) \<le> n \<and> n \<le> ParseInt16 (m ! 7))) \<and>
    (m ! 1 = [] \<longrightarrow> (\<forall>s n. episodeIn e s n \<longleftrightarrow> s = ParseInt16 (m ! 9) \<and> ParseInt16 (m ! 10) \<le> n \<and>
      n \<le> (if m ! 11 = [] then ParseInt16 (m ! 10) else ParseInt16 (m ! 11))))"
  using assms by (auto simp: EpisodesMatchToEpisodes_def Let_def addSeasons_lookup episodeIn_added split: if_splits)

theorem EpisodesMatch_ranges_witness:
  "\<exists>e. EpisodesMatchToEpisodes ([[], runes_of ''1'', runes_of ''1'', [], [], runes_of ''3-5'', runes_of ''3'',
      runes_of ''5''] @ replicate 4 []) = Some e \<and>
    (\<forall>s n. episodeIn e s n \<longleftrightarrow> s = ParseInt16 (runes_of ''1'') \<and> ParseInt16 (runes_of ''3'') \<le> n \<and>
      n \<le> ParseInt16 (runes_of ''5'')) \<and> ParseInt16 (runes_of ''5'') = 5"
proof -
  let ?m = "[[], runes_of ''1'', runes_of ''1'', [], [], runes_of ''3-5'', runes_of ''3'',
      runes_of ''5''] @ replicate 4 []"
  obtain e where e: "EpisodesMatchToEpisodes ?m = Some e"
    by (simp add: EpisodesMatchToEpisodes_def)
  moreover have "ParseInt16 (runes_of ''5'') = 5" by code_simp
  ultimately show ?thesis using EpisodesMatch_ranges [OF e, THEN conjunct2, THEN conjunct1] by (simp add: runes_of_def)
qed

section \<open>Attributes read off a name\<close>

text \<open>Reading a name without a known content type is unmatched exactly when no form of title is
  found.  Otherwise episodes make it a show, a year alone a movie, and a known type stays unless it
  is a show or unknown; a title is reported only together with a year or with episodes; and the
  maps of languages there were are untouched.\<close>

theorem ParseVideoContent_attributes:
  "case ParseVideoContent ve name known st of
     (Inl err, st') \<Rightarrow> err = ErrUnmatched \<and> st' = st \<and> known = None \<and> parseTitle ve name = None \<and>
       parseTitleYear ve name = None \<and> ve_titleEpisodes ve name = None
   | (Inr a, st') \<Rightarrow>
       (ca_BaseTitle a \<noteq> None \<longrightarrow> d_Year (ca_Date a) \<noteq> 0 \<or> ca_ContentType a = Some ContentTypeTvShow) \<and>
       (known \<notin> {None, Some ContentTypeTvShow, Some ContentTypeUnknown} \<longrightarrow> ca_ContentType a = known) \<and>
       (known = None \<longrightarrow> ca_ContentType a \<in> {None, Some ContentTypeTvShow, Some ContentTypeMovie}) \<and>
       (known = None \<and> ca_ContentType a = None \<longrightarrow> d_Year (ca_Date a) = 0 \<and> ca_BaseTitle a = None) \<and>
       take (length st) st' = st"
proof (cases "ParseTitleYearEpisodes ve known name")
  case None
  then show ?thesis
    by (cases known) (auto simp: ParseVideoContent_def newLanguages_def Let_def noEpisodes_def nilDate_def
        ParseTitleYearEpisodes_def parseTitleYearEpisodes_def split: option.splits prod.splits if_splits)
next
  case (Some r)
  obtain title year episodes rest where r: "r = (title, year, episodes, rest)" by (cases r)
  have "noEpisodes episodes" if "known \<notin> {None, Some ContentTypeTvShow, Some ContentTypeUnknown}"
    using Some that by (auto simp: r ParseTitleYearEpisodes_def noEpisodes_def split: option.splits)
  with Some r show ?thesis
    by (auto simp: ParseVideoContent_def newLanguages_def Let_def nilDate_def split: option.splits)
qed

definition sampleVideo :: video_env where
  "sampleVideo = \<lparr>ve_title = (\<lambda>s. None),
    ve_titleYear = (\<lambda>s. Some (take 10 s, take 5 s, take 4 (drop 5 s))), ve_titleEpisodes = (\<lambda>s. None),
    ve_titleParts = (\<lambda>f s. s), ve_titlePart = (\<lambda>s. None), ve_trimTitle = take 4,
    ve_multi = (\<lambda>s. False), ve_InferLanguages = (\<lambda>s. Some {|''fr''|})\<rparr>"

theorem ParseVideoContent_attributes_witness:
  "\<exists>a st'. ParseVideoContent sampleVideo (runes_of ''dune 2021 french'') None [{|''en''|}] = (Inr a, st') \<and>
    ca_ContentType a = Some ContentTypeMovie \<and> d_Year (ca_Date a) = 2021 \<and> take 1 st' = [{|''en''|}]"
proof -
  have year: "ParseUint16 (take 4 (drop 5 (runes_of ''dune 2021 french''))) = 2021"
    "take 4 (take 5 (runes_of ''dune 2021 french'')) \<noteq> []"
    by (simp_all add: ParseUint16_def digitsValue_def runes_of_def IsInt_def)
  have "\<exists>a st'. ParseVideoContent sampleVideo (runes_of ''dune 2021 french'') None [{|''en''|}] = (Inr a, st') \<and>
      d_Year (ca_Date a) = 2021 \<and> ca_ContentType a = Some ContentTypeMovie"
    using year by (simp add: ParseVideoContent_def sampleVideo_def ParseTitleYearEpisodes_def
        parseTitleYearEpisodes_def parseTitleYear_def cleanTitle_def Let_def noEpisodes_def newLanguages_def nilDate_def)
  then obtain a st' where run: "ParseVideoContent sampleVideo (runes_of ''dune 2021 french'') None [{|''en''|}] = (Inr a, st')"
      "d_Year (ca_Date a) = 2021" "ca_ContentType a = Some ContentTypeMovie" by blast
  with ParseVideoContent_attributes [where ve = sampleVideo
      and name = "runes_of ''dune 2021 french''" and known = None and st = "[{|''en''|}]"]
  show ?thesis by simp
qed

end
