(* ===== verification/ContentMatch.thy ===== *)
theory ContentMatch
  imports ClassifierCompile Tsquery PgTypes
begin

text \<open>
  Finding the content a torrent belongs to: the closest title (\<open>util.go\<close>), the search in the local
  table (\<open>search.go\<close>), the search in the movie database (\<open>tmdb.go\<close>) and the content made from its
  answers (\<open>src/internal/tmdb/transformers.go\<close>), all of \<open>src/internal/classifier\<close> unless said.

  \<^item> The edit distance and the normalisation of a title are third-party, as are PostgreSQL's answer
    to the query and the replies of the movie database: they are fields of \<open>content_env\<close>.
  \<^item> A \<open>content\<close> holds the columns that the code of the model reads or sets; overview, popularity and
    votes are copied by the code and left out.  Content that was not read from the table has the zero
    time as its time of creation.
\<close>

section \<open>The closest title\<close>

definition levenshteinThreshold :: int where
  "levenshteinThreshold = 5"

fun minDistanceLoop ::
  "(runes \<Rightarrow> runes) \<Rightarrow> (runes \<Rightarrow> runes \<Rightarrow> nat) \<Rightarrow> runes \<Rightarrow> runes list \<Rightarrow> runes set \<Rightarrow> int \<Rightarrow> int" where
  "minDistanceLoop norm dist normTarget [] tried best = best"
| "minDistanceLoop norm dist normTarget (candidate # rest) tried best =
    (let c = norm candidate in
     if c \<in> tried then minDistanceLoop norm dist normTarget rest tried best
     else
       let d = int (dist normTarget c) in
       minDistanceLoop norm dist normTarget rest (insert c tried)
         (if best = -1 \<or> d < best then d else best))"

definition levenshteinFindMinDistance ::
  "(runes \<Rightarrow> runes) \<Rightarrow> (runes \<Rightarrow> runes \<Rightarrow> nat) \<Rightarrow> runes \<Rightarrow> runes list \<Rightarrow> int" where
  "levenshteinFindMinDistance norm dist target candidates =
    minDistanceLoop norm dist (norm target) candidates {} (-1)"

fun bestMatchLoop :: "('a \<Rightarrow> int) \<Rightarrow> 'a list \<Rightarrow> int \<Rightarrow> 'a option \<Rightarrow> 'a option" where
  "bestMatchLoop distance [] minDistance best = best"
| "bestMatchLoop distance (item # rest) minDistance best =
    (let d = distance item in
     if 0 \<le> d \<and> d < minDistance then
       (if d = 0 then Some item else bestMatchLoop distance rest d (Some item))
     else bestMatchLoop distance rest minDistance best)"

definition levenshteinFindBestMatch ::
  "(runes \<Rightarrow> runes) \<Rightarrow> (runes \<Rightarrow> runes \<Rightarrow> nat) \<Rightarrow> runes \<Rightarrow> 'a list \<Rightarrow> ('a \<Rightarrow> runes list) \<Rightarrow> 'a option" where
  "levenshteinFindBestMatch norm dist target items getCandidates =
    bestMatchLoop (\<lambda>item. levenshteinFindMinDistance norm dist target (getCandidates item)) items
      (levenshteinThreshold + 1) None"

section \<open>Content\<close>

record content =
  ct_Type :: content_type
  ct_Source :: runes
  ct_ID :: runes
  ct_Title :: runes
  ct_ReleaseDate :: date
  ct_Adult :: "bool option"
  ct_CreatedAt :: int

datatype tmdb_error = ErrNotFound | TmdbError string

record tmdb_result =
  tr_ID :: int
  tr_Title :: runes
  tr_OriginalTitle :: runes

record tmdb_details =
  td_ID :: int
  td_Title :: runes
  td_Date :: runes
  td_Adult :: bool

record content_env =
  cn_rows :: "runes \<Rightarrow> content_type \<Rightarrow> nat option \<Rightarrow> cerror + content list"
  cn_norm :: "runes \<Rightarrow> runes"
  cn_distance :: "runes \<Rightarrow> runes \<Rightarrow> nat"
  cn_SearchMovie :: "runes \<Rightarrow> nat option \<Rightarrow> tmdb_error + tmdb_result list"
  cn_SearchTv :: "runes \<Rightarrow> nat option \<Rightarrow> tmdb_error + tmdb_result list"
  cn_MovieDetails :: "int \<Rightarrow> tmdb_error + tmdb_details"
  cn_TvDetails :: "int \<Rightarrow> tmdb_error + tmdb_details"

definition yearPtr :: "nat \<Rightarrow> nat option" where
  "yearPtr y = (if y = 0 then None else Some y)"

text \<open>\<open>None\<close> would be a panic of the query translation.\<close>

definition ContentBySearch :: "unicode \<Rightarrow> xlit \<Rightarrow> content_env \<Rightarrow> content_type \<Rightarrow> runes \<Rightarrow> nat \<Rightarrow>
    (cerror + content) option" where
  "ContentBySearch u tables cn ct baseTitle year =
    (case AppQueryToTsquery u tables baseTitle of
       None \<Rightarrow> None
     | Some query \<Rightarrow> Some (case cn_rows cn query ct (yearPtr year) of
         Inl err \<Rightarrow> Inl err
       | Inr items \<Rightarrow>
           if items = [] then Inl ErrUnmatched
           else (case levenshteinFindBestMatch (cn_norm cn) (cn_distance cn) baseTitle items
                     (\<lambda>item. [ct_Title item]) of
               None \<Rightarrow> Inl ErrUnmatched
             | Some bestMatch \<Rightarrow> Inr bestMatch)))"

section \<open>The movie database\<close>

definition detailsDate :: "runes \<Rightarrow> cerror + date" where
  "detailsDate s =
    (if s = [] then Inr nilDate
     else case NewDateFromIsoString s of
       None \<Rightarrow> Inl (OtherError ''parsing time'') | Some d \<Rightarrow> Inr d)"

definition MovieDetailsToMovieModel :: "tmdb_details \<Rightarrow> cerror + content" where
  "MovieDetailsToMovieModel details = bind_sum (detailsDate (td_Date details)) (\<lambda>releaseDate.
     Inr \<lparr>ct_Type = (if td_Adult details then ContentTypeOther else ContentTypeMovie),
          ct_Source = runes_of ''tmdb'', ct_ID = showInt (td_ID details), ct_Title = td_Title details,
          ct_ReleaseDate = releaseDate, ct_Adult = Some (td_Adult details), ct_CreatedAt = zeroTime\<rparr>)"

definition TvShowDetailsToTvShowModel :: "tmdb_details \<Rightarrow> cerror + content" where
  "TvShowDetailsToTvShowModel details = bind_sum (detailsDate (td_Date details)) (\<lambda>firstAirDate.
     Inr \<lparr>ct_Type = ContentTypeTvShow,
          ct_Source = runes_of ''tmdb'', ct_ID = showInt (td_ID details), ct_Title = td_Title details,
          ct_ReleaseDate = firstAirDate, ct_Adult = None, ct_CreatedAt = zeroTime\<rparr>)"

definition detailsError :: "tmdb_error \<Rightarrow> cerror" where
  "detailsError e = (case e of ErrNotFound \<Rightarrow> ErrUnmatched | TmdbError s \<Rightarrow> OtherError s)"

definition tmdbGetMovieByTMDBID :: "content_env \<Rightarrow> int \<Rightarrow> cerror + content" where
  "tmdbGetMovieByTMDBID cn i = (case cn_MovieDetails cn i of
     Inl e \<Rightarrow> Inl (detailsError e) | Inr d \<Rightarrow> MovieDetailsToMovieModel d)"

definition tmdbGetTVShowByTMDBID :: "content_env \<Rightarrow> int \<Rightarrow> cerror + content" where
  "tmdbGetTVShowByTMDBID cn i = (case cn_TvDetails cn i of
     Inl e \<Rightarrow> Inl (detailsError e) | Inr d \<Rightarrow> TvShowDetailsToTvShowModel d)"

definition tmdbSearchMovie :: "content_env \<Rightarrow> runes \<Rightarrow> nat \<Rightarrow> cerror + content" where
  "tmdbSearchMovie cn title year = (case cn_SearchMovie cn title (yearPtr year) of
     Inl _ \<Rightarrow> Inl ErrUnmatched
   | Inr results \<Rightarrow> (case levenshteinFindBestMatch (cn_norm cn) (cn_distance cn) title results
         (\<lambda>item. [tr_Title item, tr_OriginalTitle item]) of
       None \<Rightarrow> Inl ErrUnmatched
     | Some bestMatch \<Rightarrow> tmdbGetMovieByTMDBID cn (tr_ID bestMatch)))"

definition tmdbSearchTVShow :: "content_env \<Rightarrow> runes \<Rightarrow> nat \<Rightarrow> cerror + content" where
  "tmdbSearchTVShow cn title year = (case cn_SearchTv cn title (yearPtr year) of
     Inl _ \<Rightarrow> Inl ErrUnmatched
   | Inr results \<Rightarrow> (case levenshteinFindBestMatch (cn_norm cn) (cn_distance cn) title results
         (\<lambda>item. [tr_Title item, tr_OriginalTitle item]) of
       None \<Rightarrow> Inl ErrUnmatched
     | Some bestMatch \<Rightarrow> tmdbGetTVShowByTMDBID cn (tr_ID bestMatch)))"

section \<open>The first of the nearest titles\<close>

text \<open>The distance of an item: its nearest title, or -1 without titles.\<close>

definition itemDistance ::
  "(runes \<Rightarrow> runes) \<Rightarrow> (runes \<Rightarrow> runes \<Rightarrow> nat) \<Rightarrow> runes \<Rightarrow> runes list \<Rightarrow> int" where
  "itemDistance norm dist target candidates =
    (if candidates = [] then -1
     else int (Min ((\<lambda>c. dist (norm target) (norm c)) ` set candidates)))"

lemma minDistanceLoop_tried:
  assumes "tried \<noteq> {}" "finite tried" "best = int (Min (dist t ` tried))"
  shows "minDistanceLoop norm dist t cs tried best = int (Min (dist t ` (tried \<union> norm ` set cs)))"
  using assms
proof (induction cs arbitrary: tried best)
  case (Cons c cs)
  show ?case
  proof (cases "norm c \<in> tried")
    case True
    then have "tried \<union> norm ` set (c # cs) = tried \<union> norm ` set cs" by auto
    with True Cons show ?thesis by simp
  next
    case False
    have best': "(if best = -1 \<or> int (dist t (norm c)) < best then int (dist t (norm c)) else best) =
        int (Min (dist t ` insert (norm c) tried))"
    proof -
      have "Min (dist t ` insert (norm c) tried) = min (dist t (norm c)) (Min (dist t ` tried))"
        using Cons.prems by (simp add: Min_insert)
      then show ?thesis using Cons.prems(3) by (simp only:) (simp only: min_def, simp)
    qed
    have "minDistanceLoop norm dist t (c # cs) tried best = minDistanceLoop norm dist t cs
        (insert (norm c) tried) (int (Min (dist t ` insert (norm c) tried)))"
      using False by (simp only: minDistanceLoop.simps Let_def if_False best')
    also have "\<dots> = int (Min (dist t ` (insert (norm c) tried \<union> norm ` set cs)))"
      using Cons.prems by (intro Cons.IH) simp_all
    also have "insert (norm c) tried \<union> norm ` set cs = tried \<union> norm ` set (c # cs)" by auto
    finally show ?thesis .
  qed
qed simp

lemma levenshteinFindMinDistance_eq:
  "levenshteinFindMinDistance norm dist target candidates = itemDistance norm dist target candidates"
proof (cases candidates)
  case (Cons c cs)
  have "minDistanceLoop norm dist (norm target) cs {norm c} (int (dist (norm target) (norm c))) =
      int (Min (dist (norm target) ` ({norm c} \<union> norm ` set cs)))"
    by (rule minDistanceLoop_tried) simp_all
  then show ?thesis
    by (simp add: Cons levenshteinFindMinDistance_def itemDistance_def image_image)
qed (simp add: levenshteinFindMinDistance_def itemDistance_def)

text \<open>An item is chosen when it is near enough and no item before it is as near, none after it
  nearer.\<close>

definition nearestAt :: "('a \<Rightarrow> int) \<Rightarrow> int \<Rightarrow> 'a list \<Rightarrow> nat \<Rightarrow> bool" where
  "nearestAt distance bound items i \<longleftrightarrow> i < length items \<and> 0 \<le> distance (items ! i) \<and>
    distance (items ! i) < bound \<and>
    (\<forall>j<i. 0 \<le> distance (items ! j) \<longrightarrow> distance (items ! i) < distance (items ! j)) \<and>
    (\<forall>j<length items. 0 \<le> distance (items ! j) \<longrightarrow> distance (items ! i) \<le> distance (items ! j))"

lemma nearestAt_0:
  "nearestAt distance bound (x # xs) 0 \<longleftrightarrow> 0 \<le> distance x \<and> distance x < bound \<and>
    (\<forall>j<length xs. 0 \<le> distance (xs ! j) \<longrightarrow> distance x \<le> distance (xs ! j))"
  by (auto simp: nearestAt_def less_Suc_eq_0_disj)

lemma nearestAt_Suc:
  "nearestAt distance bound (x # xs) (Suc i) \<longleftrightarrow> nearestAt distance bound xs i \<and>
    (0 \<le> distance x \<longrightarrow> distance (xs ! i) < distance x)"
  by (auto simp: nearestAt_def less_Suc_eq_0_disj)

lemma nearestAt_less: "nearestAt distance b xs i \<Longrightarrow> distance (xs ! i) < b"
  by (simp add: nearestAt_def)

lemma nearestAt_bound: "nearestAt distance b xs i \<Longrightarrow> b \<le> bound \<Longrightarrow> nearestAt distance bound xs i"
  by (simp add: nearestAt_def)

lemma bestMatchLoop_spec:
  "(\<exists>i. nearestAt distance bound items i \<and> bestMatchLoop distance items bound best = Some (items ! i)) \<or>
    (\<forall>item\<in>set items. distance item < 0 \<or> bound \<le> distance item) \<and>
      bestMatchLoop distance items bound best = best"
proof (induction items arbitrary: bound best)
  case (Cons x xs)
  consider (zero) "distance x = 0" "0 < bound" | (nearer) "0 < distance x" "distance x < bound" |
      (other) "distance x < 0 \<or> bound \<le> distance x" by linarith
  then show ?case
  proof cases
    case zero
    then have "nearestAt distance bound (x # xs) 0" by (simp add: nearestAt_0)
    with zero show ?thesis by auto
  next
    case nearer
    then have step: "bestMatchLoop distance (x # xs) bound best = bestMatchLoop distance xs (distance x) (Some x)"
      by simp
    from Cons.IH [of "distance x" "Some x"] show ?thesis
    proof
      assume "\<exists>i. nearestAt distance (distance x) xs i \<and>
        bestMatchLoop distance xs (distance x) (Some x) = Some (xs ! i)"
      then obtain i where i: "nearestAt distance (distance x) xs i"
          "bestMatchLoop distance (x # xs) bound best = Some ((x # xs) ! Suc i)" using step by auto
      then have "nearestAt distance bound (x # xs) (Suc i)"
        using nearer nearestAt_bound [OF i(1), of bound] nearestAt_less [OF i(1)] by (simp add: nearestAt_Suc)
      with i show ?thesis by blast
    next
      assume none: "(\<forall>item\<in>set xs. distance item < 0 \<or> distance x \<le> distance item) \<and>
        bestMatchLoop distance xs (distance x) (Some x) = Some x"
      then have "nearestAt distance bound (x # xs) 0"
        using nearer by (auto simp: nearestAt_0) (meson not_less nth_mem)
      moreover have "bestMatchLoop distance (x # xs) bound best = Some ((x # xs) ! 0)" using none step by simp
      ultimately show ?thesis by blast
    qed
  next
    case other
    then have step: "bestMatchLoop distance (x # xs) bound best = bestMatchLoop distance xs bound best"
      by auto
    from Cons.IH [of bound best] show ?thesis
    proof
      assume "\<exists>i. nearestAt distance bound xs i \<and> bestMatchLoop distance xs bound best = Some (xs ! i)"
      then obtain i where i: "nearestAt distance bound xs i"
          "bestMatchLoop distance (x # xs) bound best = Some ((x # xs) ! Suc i)" using step by auto
      then have "nearestAt distance bound (x # xs) (Suc i)"
        using other nearestAt_less [OF i(1)] by (auto simp: nearestAt_Suc)
      with i show ?thesis by blast
    qed (use other step in auto)
  qed
qed simp

text \<open>The best match among search results is the first item whose nearest title is nearest to the
  target, provided it is at most five edits away; there is none exactly when no item has a title so
  near.\<close>

theorem levenshteinFindBestMatch_nearest:
  defines "d \<equiv> \<lambda>norm dist target titles. itemDistance norm dist target titles"
  shows "(\<exists>i. nearestAt (\<lambda>item. d norm dist target (titles item)) 6 items i \<and>
      levenshteinFindBestMatch norm dist target items titles = Some (items ! i)) \<or>
    (\<forall>item\<in>set items. titles item = [] \<or> 5 < d norm dist target (titles item)) \<and>
      levenshteinFindBestMatch norm dist target items titles = None"
proof -
  have "titles item = [] \<or> 5 < d norm dist target (titles item)"
    if "d norm dist target (titles item) < 0 \<or> 6 \<le> d norm dist target (titles item)" for item
    using that by (auto simp: d_def itemDistance_def split: if_splits)
  then show ?thesis
    using bestMatchLoop_spec [of "\<lambda>item. d norm dist target (titles item)" 6 items None]
    by (auto simp: levenshteinFindBestMatch_def levenshteinFindMinDistance_eq d_def levenshteinThreshold_def)
qed

lemma levenshteinFindBestMatch_nearest_witness:
  "\<exists>i. nearestAt (\<lambda>t. itemDistance (\<lambda>s. s) (\<lambda>a b. length b - length a) (runes_of ''dune'') [t]) 6
      [runes_of ''dune ii'', runes_of ''dunes''] i \<and>
    levenshteinFindBestMatch (\<lambda>s. s) (\<lambda>a b. length b - length a) (runes_of ''dune'')
      [runes_of ''dune ii'', runes_of ''dunes''] (\<lambda>t. [t]) = Some ([runes_of ''dune ii'', runes_of ''dunes''] ! i)"
  using levenshteinFindBestMatch_nearest [of "\<lambda>s. s" "\<lambda>a b. length b - length a" "runes_of ''dune''"
    "\<lambda>t. [t]" "[runes_of ''dune ii'', runes_of ''dunes'']"]
  by (simp add: itemDistance_def)

end
