(* ===== verification/ClassifierRun.thy ===== *)
theory ClassifierRun
  imports ClassifierSyntax VideoParser ContentMatch
begin

text \<open>
  Running compiled workflows: the closures that the actions and conditions of
  \<open>src/internal/classifier\<close> return, \<open>runner.go\<close>, \<open>classification_result.go\<close>,
  \<open>exprtypes_classification.go\<close> and \<open>action_llm_classify.go\<close>.

  \<^item> An action takes the execution context and gives a result together with an error, as in Go: a
    failing action may return a result its caller does read.
  \<^item> Languages are a Go map shared between copies of a result; they live in a \<open>lang_store\<close> that
    every action takes and returns.
  \<^item> Running a workflow by name is the only recursion that is not structural.  It is bounded by
    fuel, the depth of nested \<open>run_workflow\<close> calls; \<open>None\<close> means that it was used up, and a
    workflow that gives \<open>None\<close> for every fuel never returns.
  \<^item> The evaluation of expressions, the language model's answer and the table of languages are
    fields of \<open>exec_env\<close>.
\<close>

section \<open>State\<close>

record result = attributes +
  cr_Content :: "content option"

definition emptyResult :: result where
  "emptyResult = \<lparr>ca_ContentType = None, ca_BaseTitle = None, ca_Date = nilDate,
    ca_Languages = None, ca_LanguageMulti = False, cr_Content = None\<rparr>"

text \<open>What an expression sees of a result.\<close>

record classification =
  cx_ContentType :: int
  cx_HasAttachedContent :: bool
  cx_HasBaseTitle :: bool
  cx_Date :: int
  cx_Languages :: "lang fset"
  cx_ContentID :: runes
  cx_ContentSource :: runes

definition NewClassificationFromResult :: "lang_store \<Rightarrow> result \<Rightarrow> classification" where
  "NewClassificationFromResult st r =
    \<lparr>cx_ContentType = ContentTypeToInt (ca_ContentType r),
     cx_HasAttachedContent = (cr_Content r \<noteq> None),
     cx_HasBaseTitle = (ca_BaseTitle r \<noteq> None),
     cx_Date = (if date_IsNil (ca_Date r) then 0 else date_Unix (ca_Date r)),
     cx_Languages = languagesAt st (ca_Languages r),
     cx_ContentID = (case cr_Content r of None \<Rightarrow> [] | Some c \<Rightarrow> ct_ID c),
     cx_ContentSource = (case cr_Content r of None \<Rightarrow> [] | Some c \<Rightarrow> ct_Source c)\<rparr>"

record llm_result =
  lr_Type :: string
  lr_BaseTitle :: runes
  lr_Date :: runes
  lr_Languages :: "string list"

type_synonym flags = "(string \<times> value) list"

record 'p exec_env =
  xe_unicode :: unicode
  xe_tables :: xlit
  xe_video :: video_env
  xe_content :: content_env
  xe_name :: runes
  xe_Eval :: "'p \<Rightarrow> expr_env \<Rightarrow> flags \<Rightarrow> classification \<Rightarrow> cerror + value"
  xe_ToLower :: "string \<Rightarrow> string"
  xe_ParseLanguage :: "string \<Rightarrow> lang option"
  xe_llmEnabled :: bool
  xe_MaxRetries :: int
  xe_tryClassify :: "nat \<Rightarrow> cerror + llm_result"
  xe_StrictLLM :: bool

text \<open>The parts of the execution context that change or are fixed by the runner.\<close>

record exec_ctx =
  ec_result :: result
  ec_resultExpr :: classification

definition withResult :: "lang_store \<Rightarrow> result \<Rightarrow> exec_ctx" where
  "withResult st r = \<lparr>ec_result = r, ec_resultExpr = NewClassificationFromResult st r\<rparr>"

datatype run_outcome = Returned result "cerror option" | Panicked

type_synonym run = "lang_store \<Rightarrow> (lang_store \<times> run_outcome) option"

definition returned :: "result \<Rightarrow> cerror option \<Rightarrow> run" where
  "returned r e st = Some (st, Returned r e)"

section \<open>Conditions\<close>

text \<open>The value of a negation is returned beside the error, but no caller reads it then.\<close>

fun checkAnd :: "(cerror + bool) list \<Rightarrow> cerror + bool" where
  "checkAnd [] = Inr True"
| "checkAnd (c # cs) = bind_sum c (\<lambda>result. if result then checkAnd cs else Inr False)"

fun checkOr :: "(cerror + bool) list \<Rightarrow> cerror + bool" where
  "checkOr [] = Inr False"
| "checkOr (c # cs) = bind_sum c (\<lambda>result. if result then Inr True else checkOr cs)"

primrec checkCond :: "('p \<Rightarrow> cerror + value) \<Rightarrow> 'p condition \<Rightarrow> cerror + bool" where
  "checkCond eval (AndCond cs) = checkAnd (map (checkCond eval) cs)"
| "checkCond eval (OrCond cs) = checkOr (map (checkCond eval) cs)"
| "checkCond eval (NotCond c) = bind_sum (checkCond eval c) (\<lambda>result. Inr (\<not> result))"
| "checkCond eval (ExprCond prg) = bind_sum (eval prg) (\<lambda>out. case out of
     VBool bl \<Rightarrow> Inr bl | _ \<Rightarrow> Inl (OtherError ''not bool''))"

section \<open>Actions without sub-actions\<close>

definition AttachContent :: "content \<Rightarrow> result \<Rightarrow> result" where
  "AttachContent c r = r\<lparr>cr_Content := Some c, ca_ContentType := Some (ct_Type c)\<rparr>"

definition attachResult :: "result \<Rightarrow> cerror + content \<Rightarrow> run" where
  "attachResult cl found = (case found of
     Inl err \<Rightarrow> returned cl (Some err) | Inr c \<Rightarrow> returned (AttachContent c cl) None)"

definition attachLocalContentBySearch :: "'p exec_env \<Rightarrow> result \<Rightarrow> run" where
  "attachLocalContentBySearch xe cl st = (case (ca_ContentType cl, ca_BaseTitle cl) of
     (Some ct, Some title) \<Rightarrow>
       (case ContentBySearch (xe_unicode xe) (xe_tables xe) (xe_content xe) ct title
           (d_Year (ca_Date cl)) of
          None \<Rightarrow> Some (st, Panicked)
        | Some found \<Rightarrow> attachResult cl found st)
   | _ \<Rightarrow> returned cl (Some ErrUnmatched) st)"

definition attachTmdbContentBySearch :: "'p exec_env \<Rightarrow> result \<Rightarrow> run" where
  "attachTmdbContentBySearch xe cl = (case ca_BaseTitle cl of
     None \<Rightarrow> returned cl (Some ErrUnmatched)
   | Some title \<Rightarrow> attachResult cl
       (if ca_ContentType cl = Some ContentTypeTvShow
        then tmdbSearchTVShow (xe_content xe) title (d_Year (ca_Date cl))
        else tmdbSearchMovie (xe_content xe) title (d_Year (ca_Date cl))))"

definition parseDateAction :: "'p exec_env \<Rightarrow> result \<Rightarrow> run" where
  "parseDateAction xe cl st = (case ParseDate (xe_unicode xe) (xe_name xe) of
     None \<Rightarrow> Some (st, Panicked)
   | Some parsed \<Rightarrow>
       if date_IsNil parsed then returned cl (Some ErrUnmatched) st
       else returned (cl\<lparr>ca_Date := parsed\<rparr>) None st)"

definition result_Merge :: "lang_store \<Rightarrow> result \<Rightarrow> attributes \<Rightarrow> result" where
  "result_Merge st r other = attributes.extend (attributes_Merge st (attributes.truncate r) other)
    \<lparr>cr_Content = cr_Content r\<rparr>"

definition parseVideoContentAction :: "'p exec_env \<Rightarrow> result \<Rightarrow> run" where
  "parseVideoContentAction xe cl st =
    (case ParseVideoContent (xe_video xe) (xe_name xe) (ca_ContentType cl) st of
       (Inl err, st') \<Rightarrow> returned cl (Some err) st'
     | (Inr parsed, st') \<Rightarrow> returned (result_Merge st' cl parsed) None st')"

text \<open>The client tries \<open>MaxRetries + 1\<close> times; after no attempt at all the error wraps \<open>nil\<close>.\<close>

fun classifyAttempts :: "(nat \<Rightarrow> cerror + llm_result) \<Rightarrow> nat \<Rightarrow> nat \<Rightarrow> cerror \<Rightarrow> cerror + llm_result" where
  "classifyAttempts try i 0 lastErr = Inl lastErr"
| "classifyAttempts try i (Suc n) lastErr = (case try i of
     Inr r \<Rightarrow> Inr r | Inl err \<Rightarrow> classifyAttempts try (i + 1) n err)"

definition Classify :: "int \<Rightarrow> (nat \<Rightarrow> cerror + llm_result) \<Rightarrow> cerror + llm_result" where
  "Classify maxRetries try = classifyAttempts try 0 (nat (maxRetries + 1)) (OtherError ''nil'')"

text \<open>A new map when the result has none, then insertion into the map the result refers to.\<close>

definition addLanguage :: "lang \<Rightarrow> nat option \<times> lang_store \<Rightarrow> nat option \<times> lang_store" where
  "addLanguage l s = (case s of
     (None, st) \<Rightarrow> (Some (length st), st @ [{|l|}])
   | (Some a, st) \<Rightarrow> (Some a, st[a := finsert l (languagesAt st (Some a))]))"

definition addLanguages :: "(string \<Rightarrow> lang option) \<Rightarrow> string list \<Rightarrow> nat option \<times> lang_store \<Rightarrow>
    nat option \<times> lang_store" where
  "addLanguages parse ls s = fold (\<lambda>l s. if l = [] then s
     else case parse l of None \<Rightarrow> s | Some lang \<Rightarrow> addLanguage lang s) ls s"

text \<open>\<open>strconv.Atoi\<close>.\<close>

definition AtoiSigned :: "runes \<Rightarrow> int option" where
  "AtoiSigned s =
    (let neg = (s \<noteq> [] \<and> hd s = 45); ds = (if s \<noteq> [] \<and> (hd s = 45 \<or> hd s = 43) then tl s else s);
         v = int (digitsValue ds) in
     if ds = [] \<or> \<not> list_all IsInt ds then None
     else if neg then (if v \<le> 2 ^ 63 then Some (- v) else None)
     else if v < 2 ^ 63 then Some v else None)"

definition llmDate :: "runes \<Rightarrow> date \<Rightarrow> date" where
  "llmDate s d =
    (if s = [] then d
     else case NewDateFromIsoString s of
       Some parsed \<Rightarrow> parsed
     | None \<Rightarrow> (case AtoiSigned s of
         Some year \<Rightarrow> if 1000 \<le> year \<and> year \<le> 9999 then d\<lparr>d_Year := nat year\<rparr> else d
       | None \<Rightarrow> d))"

definition applyLLMResult :: "'p exec_env \<Rightarrow> llm_result \<Rightarrow> result \<Rightarrow> lang_store \<Rightarrow> result \<times> lang_store" where
  "applyLLMResult xe r cl st =
    (let ct = (if lr_Type r \<noteq> [] \<and> lr_Type r \<noteq> ''unknown'' then
                 (case ParseContentType (xe_ToLower xe) (lr_Type r) of
                    None \<Rightarrow> ca_ContentType cl | Some ct \<Rightarrow> Some ct)
               else ca_ContentType cl);
         title = (if lr_BaseTitle r \<noteq> [] then Some (lr_BaseTitle r) else ca_BaseTitle cl);
         (langs, st') = addLanguages (xe_ParseLanguage xe) (lr_Languages r) (ca_Languages cl, st) in
     (cl\<lparr>ca_ContentType := ct, ca_BaseTitle := title, ca_Date := llmDate (lr_Date r) (ca_Date cl),
         ca_Languages := langs\<rparr>, st'))"

definition hintUnknown :: "result \<Rightarrow> result" where
  "hintUnknown cl = (if ca_ContentType cl = None then cl\<lparr>ca_ContentType := Some ContentTypeUnknown\<rparr> else cl)"

definition llmClassifyAction :: "'p exec_env \<Rightarrow> result \<Rightarrow> run" where
  "llmClassifyAction xe cl0 st =
    (let cl = hintUnknown cl0 in
     if \<not> xe_llmEnabled xe then returned cl (Some ErrUnmatched) st
     else case Classify (xe_MaxRetries xe) (xe_tryClassify xe) of
       Inl err \<Rightarrow>
         if xe_StrictLLM xe then returned cl (Some (LLMClassifyError err)) st
         else returned cl (Some ErrUnmatched) st
     | Inr r \<Rightarrow> (let (cl', st') = applyLLMResult xe r cl st in returned cl' None st'))"

section \<open>Actions\<close>

type_synonym call = "string \<Rightarrow> exec_ctx \<Rightarrow> run"

fun runWorkflows :: "call \<Rightarrow> string list \<Rightarrow> result \<Rightarrow> run" where
  "runWorkflows call [] cl st = returned cl None st"
| "runWorkflows call (name # names) cl st = (case call name (withResult st cl) st of
     None \<Rightarrow> None
   | Some (st', Panicked) \<Rightarrow> Some (st', Panicked)
   | Some (st', Returned cl' (Some err)) \<Rightarrow> returned cl' (Some err) st'
   | Some (st', Returned cl' None) \<Rightarrow> runWorkflows call names cl' st')"

text \<open>The closures of a sequence, of \<open>find_match\<close> and of a branch, over the closures they hold.\<close>

fun runSeq :: "(exec_ctx \<Rightarrow> run) list \<Rightarrow> exec_ctx \<Rightarrow> run" where
  "runSeq [] cx st = returned (ec_result cx) None st"
| "runSeq (a # as) cx st = (case a cx st of
     None \<Rightarrow> None
   | Some (st', Panicked) \<Rightarrow> Some (st', Panicked)
   | Some (st', Returned r (Some err)) \<Rightarrow> returned emptyResult (Some err) st'
   | Some (st', Returned r None) \<Rightarrow> runSeq as (withResult st' r) st')"

fun runFind :: "string list \<Rightarrow> (exec_ctx \<Rightarrow> run) list \<Rightarrow> exec_ctx \<Rightarrow> run" where
  "runFind path [] cx st = returned (ec_result cx) None st"
| "runFind path (a # as) cx st = (case a cx st of
     None \<Rightarrow> None
   | Some (st', Panicked) \<Rightarrow> Some (st', Panicked)
   | Some (st', Returned r None) \<Rightarrow> returned r None st'
   | Some (st', Returned r (Some err)) \<Rightarrow>
       if isUnmatched err then runFind path as cx st'
       else returned emptyResult (Some (RuntimeError path err)) st')"

definition runBranch :: "(exec_ctx \<Rightarrow> run) option \<Rightarrow> exec_ctx \<Rightarrow> run" where
  "runBranch branch cx = (case branch of None \<Rightarrow> returned (ec_result cx) None | Some a \<Rightarrow> a cx)"

definition runIfElse :: "cerror + bool \<Rightarrow> (exec_ctx \<Rightarrow> run) option \<Rightarrow> (exec_ctx \<Rightarrow> run) option \<Rightarrow> exec_ctx \<Rightarrow> run" where
  "runIfElse cond i e cx = (case cond of
     Inl err \<Rightarrow> returned emptyResult (Some err)
   | Inr b \<Rightarrow> if b then runBranch i cx else runBranch e cx)"

primrec runAction :: "'p exec_env \<Rightarrow> ('p \<Rightarrow> classification \<Rightarrow> cerror + value) \<Rightarrow> call \<Rightarrow> 'p action \<Rightarrow>
    exec_ctx \<Rightarrow> run" where
  "runAction xe ev call (SeqAction as) = runSeq (map (runAction xe ev call) as)"
| "runAction xe ev call AttachLocalContentBySearch = (\<lambda>cx. attachLocalContentBySearch xe (ec_result cx))"
| "runAction xe ev call AttachTmdbContentBySearch = (\<lambda>cx. attachTmdbContentBySearch xe (ec_result cx))"
| "runAction xe ev call (FindMatch path as) = runFind path (map (runAction xe ev call) as)"
| "runAction xe ev call (IfElse c i e) = (\<lambda>cx. runIfElse (checkCond (\<lambda>p. ev p (ec_resultExpr cx)) c)
     (map_option (runAction xe ev call) i) (map_option (runAction xe ev call) e) cx)"
| "runAction xe ev call LlmClassify = (\<lambda>cx. llmClassifyAction xe (ec_result cx))"
| "runAction xe ev call (Unmatched path) =
     (\<lambda>cx. returned (ec_result cx) (Some (RuntimeError path ErrUnmatched)))"
| "runAction xe ev call ParseDateAction = (\<lambda>cx. parseDateAction xe (ec_result cx))"
| "runAction xe ev call ParseVideoContentAction = (\<lambda>cx. parseVideoContentAction xe (ec_result cx))"
| "runAction xe ev call (RunWorkflow names) = (\<lambda>cx. runWorkflows call names (ec_result cx))"
| "runAction xe ev call (SetContentType ct) =
     (\<lambda>cx. returned ((ec_result cx)\<lparr>ca_ContentType := ct\<rparr>) None)"

text \<open>A workflow that is not there is a nil function: calling it panics.\<close>

primrec runWorkflow :: "nat \<Rightarrow> 'p exec_env \<Rightarrow> ('p \<Rightarrow> classification \<Rightarrow> cerror + value) \<Rightarrow>
    (string \<times> 'p action) list \<Rightarrow> call" where
  "runWorkflow 0 xe ev ws = (\<lambda>name cx st. None)"
| "runWorkflow (Suc n) xe ev ws = (\<lambda>name cx st. case map_of ws name of
     None \<Rightarrow> Some (st, Panicked)
   | Some a \<Rightarrow> runAction xe ev (runWorkflow n xe ev ws) a cx st)"

section \<open>The runner\<close>

fun runFlags :: "(string \<Rightarrow> string) \<Rightarrow> flags \<Rightarrow> flags \<Rightarrow> (string \<times> flag_type) list \<Rightarrow> cerror + flags" where
  "runFlags lower runtimeFlags defaults [] = Inr []"
| "runFlags lower runtimeFlags defaults ((k, d) # defs) =
    bind_sum (case map_of runtimeFlags k of
        Some runtimeRawVal \<Rightarrow> validate lower d runtimeRawVal
      | None \<Rightarrow> Inr (case map_of defaults k of Some v \<Rightarrow> v | None \<Rightarrow> VNull)) (\<lambda>v.
     bind_sum (runFlags lower runtimeFlags defaults defs) (\<lambda>fs. Inr ((k, v) # fs)))"

definition Run :: "nat \<Rightarrow> 'p exec_env \<Rightarrow> 'p runner \<Rightarrow> string \<Rightarrow> flags \<Rightarrow> run" where
  "Run n xe r workflow runtimeFlags st = (case map_of (rn_workflows r) workflow of
     None \<Rightarrow> returned emptyResult (Some (OtherError (''workflow not found: '' @ workflow))) st
   | Some w \<Rightarrow>
       (case runFlags (xe_ToLower xe) runtimeFlags (rn_defaultFlags r) (rn_flagDefinitions r) of
          Inl err \<Rightarrow> returned emptyResult (Some err) st
        | Inr f \<Rightarrow>
            (let ev = (\<lambda>p. xe_Eval xe p (rn_exprEnv r) f) in
             runAction xe ev (runWorkflow n xe ev (rn_workflows r)) w (withResult st emptyResult) st)))"

section \<open>What a run keeps\<close>

text \<open>A result refers to a language map that exists; maps are never lost and never shrink.\<close>

definition wf_result :: "lang_store \<Rightarrow> result \<Rightarrow> bool" where
  "wf_result st r \<longleftrightarrow> (\<forall>a. ca_Languages r = Some a \<longrightarrow> a < length st)"

definition frame :: "lang_store \<Rightarrow> lang_store \<Rightarrow> bool" where
  "frame st st' \<longleftrightarrow> length st \<le> length st' \<and> (\<forall>a<length st. st ! a |\<subseteq>| st' ! a)"

definition kept :: "result \<Rightarrow> result \<Rightarrow> bool" where
  "kept r r' \<longleftrightarrow> (cr_Content r \<noteq> None \<longrightarrow> cr_Content r' \<noteq> None) \<and> (ca_LanguageMulti r \<longrightarrow> ca_LanguageMulti r') \<and>
    (ca_BaseTitle r \<noteq> None \<longrightarrow> ca_BaseTitle r' \<noteq> None)"

definition fine :: "bool \<Rightarrow> lang_store \<Rightarrow> result \<Rightarrow> (lang_store \<times> run_outcome) option \<Rightarrow> bool" where
  "fine ends st cl out \<longleftrightarrow> (case out of
     None \<Rightarrow> \<not> ends
   | Some (st', Panicked) \<Rightarrow> False
   | Some (st', Returned r e) \<Rightarrow> frame st st' \<and> wf_result st' r \<and> (e = None \<longrightarrow> kept cl r))"

lemma frame_refl [simp]: "frame st st"
  by (simp add: frame_def)

lemma frame_trans: "frame st st' \<Longrightarrow> frame st' st'' \<Longrightarrow> frame st st''"
  unfolding frame_def by (meson order_less_le_trans order_trans)

lemma frame_append [simp]: "frame st (st @ xs)"
  by (simp add: frame_def nth_append)

lemma kept_refl [simp]: "kept r r"
  by (simp add: kept_def)

lemma kept_trans: "kept r r' \<Longrightarrow> kept r' r'' \<Longrightarrow> kept r r''"
  by (auto simp: kept_def)

lemma wf_frame: "wf_result st r \<Longrightarrow> frame st st' \<Longrightarrow> wf_result st' r"
  by (auto simp: wf_result_def frame_def)

lemma wf_empty [simp]: "wf_result st emptyResult"
  by (simp add: wf_result_def emptyResult_def)

lemma wf_update [simp]:
  "wf_result st (r\<lparr>ca_ContentType := ct\<rparr>) = wf_result st r"
  "wf_result st (r\<lparr>ca_BaseTitle := t\<rparr>) = wf_result st r"
  "wf_result st (r\<lparr>ca_Date := d\<rparr>) = wf_result st r"
  "wf_result st (r\<lparr>cr_Content := c\<rparr>) = wf_result st r"
  by (simp_all add: wf_result_def)

lemma withResult_sel [simp]: "ec_result (withResult st r) = r"
  by (simp add: withResult_def)

lemma fine_returned [simp]:
  "fine t st cl (returned r e st') \<longleftrightarrow> frame st st' \<and> wf_result st' r \<and> (e = None \<longrightarrow> kept cl r)"
  by (simp add: fine_def returned_def)

lemma fineE:
  assumes "fine t st cl out"
  obtains (stuck) "out = None" "\<not> t"
  | (ret) st' r e where "out = Some (st', Returned r e)" "frame st st'" "wf_result st' r" "e = None \<Longrightarrow> kept cl r"
  using assms unfolding fine_def by (cases out) (auto split: run_outcome.splits prod.splits)

lemma fine_step: "fine t st' r out \<Longrightarrow> frame st st' \<Longrightarrow> kept cl r \<Longrightarrow> fine t st cl out"
  by (auto simp: fine_def split: option.splits run_outcome.splits intro: frame_trans kept_trans)

section \<open>Actions without sub-actions\<close>

lemma fine_attachResult:
  "wf_result st cl \<Longrightarrow> fine t st cl (attachResult cl found st)"
  by (auto simp: attachResult_def AttachContent_def kept_def split: sum.split)

lemma fine_attachLocal:
  assumes "unicode_ok (xe_unicode xe)" "wf_result st cl"
  shows "fine t st cl (attachLocalContentBySearch xe cl st)"
proof (cases "ca_ContentType cl = None \<or> ca_BaseTitle cl = None")
  case True
  then show ?thesis using assms(2) by (auto simp: attachLocalContentBySearch_def split: option.split)
next
  case False
  then obtain ct title where cl: "ca_ContentType cl = Some ct" "ca_BaseTitle cl = Some title" by auto
  obtain query where "AppQueryToTsquery (xe_unicode xe) (xe_tables xe) title = Some query"
    using AppQueryToTsquery_total [OF assms(1)] by blast
  then show ?thesis
    using fine_attachResult [OF assms(2)] by (simp add: attachLocalContentBySearch_def cl ContentBySearch_def)
qed

lemma fine_attachTmdb: "wf_result st cl \<Longrightarrow> fine t st cl (attachTmdbContentBySearch xe cl st)"
  by (auto simp: attachTmdbContentBySearch_def fine_attachResult split: option.split)

lemma fine_parseDate: "wf_result st cl \<Longrightarrow> fine t st cl (parseDateAction xe cl st)"
  using lexDateLoop_sound [of "partsOf (xe_unicode xe) (xe_name xe)" 0 True]
  by (auto simp: parseDateAction_def ParseDate_eq kept_def)

lemma ParseVideoContent_store:
  assumes "ParseVideoContent ve name ct st = (res, st')"
  shows "frame st st'" "res = Inr parsed \<Longrightarrow> ca_Languages parsed = Some a \<Longrightarrow> a < length st'"
  using assms by (auto simp: ParseVideoContent_def Let_def newLanguages_def
      split: if_splits prod.splits option.splits)

lemma result_Merge_sel [simp]:
  "ca_ContentType (result_Merge st r a) = (if ca_ContentType r = None then ca_ContentType a else ca_ContentType r)"
  "ca_BaseTitle (result_Merge st r a) = (if ca_BaseTitle r = None then ca_BaseTitle a else ca_BaseTitle r)"
  "ca_Date (result_Merge st r a) = (if date_IsNil (ca_Date r) then ca_Date a else ca_Date r)"
  "ca_Languages (result_Merge st r a) =
    (if languagesAt st (ca_Languages r) = {||} then ca_Languages a else ca_Languages r)"
  "ca_LanguageMulti (result_Merge st r a) = (ca_LanguageMulti r \<or> ca_LanguageMulti a)"
  "cr_Content (result_Merge st r a) = cr_Content r"
  by (simp_all add: result_Merge_def attributes_Merge_def attributes.defs)

lemma fine_parseVideo:
  assumes "wf_result st cl"
  shows "fine t st cl (parseVideoContentAction xe cl st)"
proof -
  obtain res st' where run: "ParseVideoContent (xe_video xe) (xe_name xe) (ca_ContentType cl) st = (res, st')"
    by (cases "ParseVideoContent (xe_video xe) (xe_name xe) (ca_ContentType cl) st")
  note st' = ParseVideoContent_store(1) [OF run]
  have wf: "wf_result st' cl" by (rule wf_frame [OF assms st'])
  show ?thesis
  proof (cases res)
    case (Inr parsed)
    have "wf_result st' (result_Merge st' cl parsed)"
      using wf ParseVideoContent_store(2) [OF run Inr] by (simp add: wf_result_def)
    with Inr st' show ?thesis by (simp add: parseVideoContentAction_def run kept_def)
  qed (simp add: parseVideoContentAction_def run st' wf)
qed

lemma frame_addLanguage:
  assumes "\<forall>a. fst s = Some a \<longrightarrow> a < length (snd s)"
  shows "frame (snd s) (snd (addLanguage l s)) \<and>
    (\<forall>a. fst (addLanguage l s) = Some a \<longrightarrow> a < length (snd (addLanguage l s)))"
  using assms by (cases s) (auto simp: addLanguage_def frame_def languagesAt_def nth_list_update nth_append
      split: option.split)

lemma frame_addLanguages:
  "\<forall>a. fst s = Some a \<longrightarrow> a < length (snd s) \<Longrightarrow>
    frame (snd s) (snd (addLanguages parse ls s)) \<and>
    (\<forall>a. fst (addLanguages parse ls s) = Some a \<longrightarrow> a < length (snd (addLanguages parse ls s)))"
proof (induction ls arbitrary: s)
  case (Cons l ls)
  define s' where "s' = (if l = [] then s else case parse l of None \<Rightarrow> s | Some lang \<Rightarrow> addLanguage lang s)"
  have frame: "frame (snd s) (snd s')" and ok: "\<forall>a. fst s' = Some a \<longrightarrow> a < length (snd s')"
    using frame_addLanguage [OF Cons.prems] Cons.prems unfolding s'_def by (auto split: option.split)
  have "addLanguages parse (l # ls) s = addLanguages parse ls s'"
    by (simp add: addLanguages_def s'_def)
  with Cons.IH [OF ok] frame_trans [OF frame] show ?case by simp
qed (simp add: addLanguages_def)

lemma fine_applyLLM:
  assumes "wf_result st cl"
  shows "fine t st cl (case applyLLMResult xe r cl st of (cl', st') \<Rightarrow> returned cl' None st')"
proof -
  obtain langs st' where add: "addLanguages (xe_ParseLanguage xe) (lr_Languages r) (ca_Languages cl, st) = (langs, st')"
    by (cases "addLanguages (xe_ParseLanguage xe) (lr_Languages r) (ca_Languages cl, st)")
  have "frame st st'" "\<forall>a. langs = Some a \<longrightarrow> a < length st'"
    using frame_addLanguages [of "(ca_Languages cl, st)" "xe_ParseLanguage xe" "lr_Languages r",
        unfolded add fst_conv snd_conv] assms [unfolded wf_result_def] by blast+
  moreover have "\<exists>ct t d. applyLLMResult xe r cl st =
      (cl\<lparr>ca_ContentType := ct, ca_BaseTitle := t, ca_Date := d, ca_Languages := langs\<rparr>, st') \<and>
      (ca_BaseTitle cl \<noteq> None \<longrightarrow> t \<noteq> None)"
    unfolding applyLLMResult_def Let_def add prod.case by (intro exI conjI, rule refl) simp
  ultimately show ?thesis by (auto simp: wf_result_def kept_def)
qed

lemma fine_llm:
  assumes "wf_result st cl0"
  shows "fine t st cl0 (llmClassifyAction xe cl0 st)"
proof -
  have cl: "wf_result st (hintUnknown cl0)" "kept cl0 (hintUnknown cl0)"
    using assms by (simp_all add: hintUnknown_def kept_def)
  note applied = fine_step [OF fine_applyLLM [OF cl(1)] frame_refl cl(2)]
  show ?thesis
  proof (cases "xe_llmEnabled xe")
    case on: True
    show ?thesis
    proof (cases "Classify (xe_MaxRetries xe) (xe_tryClassify xe)")
      case (Inr r)
      show ?thesis unfolding llmClassifyAction_def Let_def by (simp only: on Inr sum.case if_False not_True_eq_False) (rule applied)
    qed (simp add: llmClassifyAction_def Let_def on cl(1))
  qed (simp add: llmClassifyAction_def Let_def cl(1))
qed

section \<open>Compiled actions\<close>

definition law :: "bool \<Rightarrow> (exec_ctx \<Rightarrow> run) \<Rightarrow> bool" where
  "law ends f \<longleftrightarrow> (\<forall>cx st. wf_result st (ec_result cx) \<longrightarrow> fine ends st (ec_result cx) (f cx st))"

lemma lawI: "(\<And>cx st. wf_result st (ec_result cx) \<Longrightarrow> fine t st (ec_result cx) (f cx st)) \<Longrightarrow> law t f"
  by (simp add: law_def)

lemma lawD: "law t f \<Longrightarrow> wf_result st (ec_result cx) \<Longrightarrow> fine t st (ec_result cx) (f cx st)"
  by (simp add: law_def)

lemma law_then:
  assumes "fine t st cl out" "wf_result st cl"
    "\<And>st' r. frame st st' \<Longrightarrow> wf_result st' r \<Longrightarrow> fine t st' r (next1 r st')"
    "\<And>st' r err. frame st st' \<Longrightarrow> wf_result st' r \<Longrightarrow> fine t st cl (next2 r err st')"
  shows "fine t st cl (case out of None \<Rightarrow> None | Some (st', Panicked) \<Rightarrow> Some (st', Panicked)
    | Some (st', Returned r None) \<Rightarrow> next1 r st' | Some (st', Returned r (Some err)) \<Rightarrow> next2 r err st')"
  using assms(1)
proof (cases rule: fineE)
  case (ret st' r e)
  show ?thesis
  proof (cases e)
    case None
    with fine_step [OF assms(3) [OF ret(2,3)] ret(2)] ret show ?thesis by simp
  next
    case (Some err)
    with assms(4) [OF ret(2,3)] ret show ?thesis by simp
  qed
qed (simp add: fine_def)

lemma law_runSeq: "\<forall>a\<in>set as. law t a \<Longrightarrow> law t (runSeq as)"
proof (induction as)
  case (Cons a as)
  then have a: "law t a" and as: "law t (runSeq as)" by simp_all
  show ?case
  proof (rule lawI)
    fix cx :: exec_ctx and st assume wf: "wf_result st (ec_result cx)"
    show "fine t st (ec_result cx) (runSeq (a # as) cx st)"
      unfolding runSeq.simps
    proof (rule law_then [OF lawD [OF a wf] wf])
      fix st' r assume "frame st st'" "wf_result st' r"
      then show "fine t st' r (runSeq as (withResult st' r) st')"
        using lawD [OF as, of st' "withResult st' r"] by simp
    qed simp
  qed
qed (simp add: law_def)

lemma law_runFind: "\<forall>a\<in>set as. law t a \<Longrightarrow> law t (runFind path as)"
proof (induction as)
  case (Cons a as)
  then have a: "law t a" and as: "law t (runFind path as)" by simp_all
  show ?case
  proof (rule lawI)
    fix cx :: exec_ctx and st assume wf: "wf_result st (ec_result cx)"
    have again: "fine t st (ec_result cx) (runFind path as cx st')" if "frame st st'" for st'
      using fine_step [OF lawD [OF as wf_frame [OF wf that]] that kept_refl] .
    from lawD [OF a wf] show "fine t st (ec_result cx) (runFind path (a # as) cx st)"
      by (cases rule: fineE) (auto simp: again fine_def [of _ _ _ None] split: option.split)
  qed
qed (simp add: law_def)

lemma law_runWorkflows:
  assumes "\<And>name. name \<in> set names \<Longrightarrow> law t (call name)"
  shows "wf_result st cl \<Longrightarrow> fine t st cl (runWorkflows call names cl st)"
  using assms
proof (induction names arbitrary: cl st)
  case (Cons name names)
  have "fine t st cl (call name (withResult st cl) st)"
    using lawD [OF Cons.prems(2), of name st "withResult st cl"] Cons.prems(1) by simp
  then show ?case
    unfolding runWorkflows.simps
  proof (rule law_then [OF _ Cons.prems(1)])
    fix st' r assume "wf_result st' r"
    then show "fine t st' r (runWorkflows call names r st')"
      by (rule Cons.IH) (use Cons.prems(2) in simp)
  qed simp
qed simp

lemma law_runBranch: "\<forall>a\<in>set_option b. law t a \<Longrightarrow> law t (runBranch b)"
  by (cases b) (simp_all add: runBranch_def law_def)

lemma law_runAction:
  assumes "unicode_ok (xe_unicode xe)"
  shows "\<forall>name\<in>actionCalls a. law t (call name) \<Longrightarrow> law t (runAction xe ev call a)"
proof (induction a)
  case (SeqAction as)
  then have "\<forall>f\<in>set (map (runAction xe ev call) as). law t f" by auto
  then show ?case by (simp add: law_runSeq)
next
  case (FindMatch path as)
  then have "\<forall>f\<in>set (map (runAction xe ev call) as). law t f" by auto
  then show ?case by (simp add: law_runFind)
next
  case (IfElse c i e)
  have i: "law t (runBranch (map_option (runAction xe ev call) i))"
    by (rule law_runBranch) (use IfElse in \<open>auto simp: option.set_map\<close>)
  have e: "law t (runBranch (map_option (runAction xe ev call) e))"
    by (rule law_runBranch) (use IfElse in \<open>auto simp: option.set_map\<close>)
  show ?case by (rule lawI) (auto simp: runIfElse_def lawD [OF i] lawD [OF e] split: sum.split)
next
  case (RunWorkflow names)
  show ?case
  proof (rule lawI)
    fix cx :: exec_ctx and st assume wf: "wf_result st (ec_result cx)"
    show "fine t st (ec_result cx) (runAction xe ev call (RunWorkflow names) cx st)"
      unfolding runAction.simps by (rule law_runWorkflows [OF _ wf]) (use RunWorkflow in simp)
  qed
qed (auto intro!: lawI simp: assms fine_attachLocal fine_attachTmdb fine_parseDate fine_parseVideo fine_llm kept_def)

section \<open>Workflows\<close>

definition closedWorkflows :: "(string \<times> 'p action) list \<Rightarrow> bool" where
  "closedWorkflows ws \<longleftrightarrow> (\<forall>(name, a)\<in>set ws. actionCalls a \<subseteq> fst ` set ws)"

text \<open>A ranking of the workflows that every call lowers: no workflow runs itself, however indirectly.\<close>

definition ranked :: "(string \<Rightarrow> nat) \<Rightarrow> (string \<times> 'p action) list \<Rightarrow> bool" where
  "ranked rank ws \<longleftrightarrow> (\<forall>(name, a)\<in>set ws. \<forall>called\<in>actionCalls a. rank called < rank name)"

lemma workflow_of:
  assumes "closedWorkflows ws" "name \<in> fst ` set ws"
  obtains a where "map_of ws name = Some a" "(name, a) \<in> set ws" "actionCalls a \<subseteq> fst ` set ws"
proof -
  obtain a where a: "map_of ws name = Some a"
    using assms(2) by (metis domIff dom_map_of_conv_image_fst option.exhaust)
  with assms(1) map_of_SomeD [OF a] that show ?thesis by (auto simp: closedWorkflows_def)
qed

lemma law_runWorkflow:
  assumes "unicode_ok (xe_unicode xe)" "closedWorkflows ws" "name \<in> fst ` set ws"
    "t \<Longrightarrow> ranked rank ws \<and> rank name < n"
  shows "law t (runWorkflow n xe ev ws name)"
  using assms(3,4)
proof (induction n arbitrary: name)
  case 0
  then show ?case by (auto simp: law_def fine_def)
next
  case (Suc n)
  obtain a where a: "map_of ws name = Some a" "(name, a) \<in> set ws" "actionCalls a \<subseteq> fst ` set ws"
    using workflow_of [OF assms(2) Suc.prems(1)] by blast
  have "law t (runWorkflow n xe ev ws called)" if called: "called \<in> actionCalls a" for called
  proof (rule Suc.IH)
    show "called \<in> fst ` set ws" using a(3) called by blast
    show "ranked rank ws \<and> rank called < n" if "t"
      using Suc.prems(2) [OF that] a(2) called unfolding ranked_def by fastforce
  qed
  then have "law t (runAction xe ev (runWorkflow n xe ev ws) a)"
    using law_runAction [OF assms(1)] by blast
  then show ?case by (simp add: law_def a(1))
qed

lemma fine_Run:
  assumes "unicode_ok (xe_unicode xe)" "closedWorkflows (rn_workflows r)"
    "t \<Longrightarrow> ranked rank (rn_workflows r) \<and> (\<forall>name\<in>fst ` set (rn_workflows r). rank name < n)"
  shows "fine t st emptyResult (Run n xe r workflow flags st)"
proof (cases "map_of (rn_workflows r) workflow")
  case (Some w)
  then have w: "(workflow, w) \<in> set (rn_workflows r)" by (rule map_of_SomeD)
  have "law t (runWorkflow n xe ev (rn_workflows r) called)" if called: "called \<in> actionCalls w" for called ev
  proof (rule law_runWorkflow [OF assms(1,2)])
    show known: "called \<in> fst ` set (rn_workflows r)"
      using called w assms(2) by (auto simp: closedWorkflows_def)
    show "ranked rank (rn_workflows r) \<and> rank called < n" if "t"
      using assms(3) [OF that] known by blast
  qed
  then have "law t (runAction xe ev (runWorkflow n xe ev (rn_workflows r)) w)" for ev
    using law_runAction [OF assms(1)] by blast
  from lawD [OF this, of st "withResult st emptyResult"] show ?thesis
    by (auto simp: Run_def Some Let_def split: sum.split)
qed (simp add: Run_def)


text \<open>C36. When no compiled workflow runs itself, directly or through others, every run returns, within
  as many nested calls as the ranking of the workflows has levels.\<close>

theorem Run_terminates:
  assumes "Compile n ce decode regex src = Some (Inr r)"
    "\<And>s. decode src = Inr s \<Longrightarrow> workflowNames s = workflowNames src"
    "unicode_ok (xe_unicode xe)"
    "ranked rank (rn_workflows r)" "\<And>name. name \<in> fst ` set (rn_workflows r) \<Longrightarrow> rank name < m"
  shows "\<exists>st' result err. Run m xe r workflow flags st = Some (st', Returned result err)"
proof -
  have "closedWorkflows (rn_workflows r)"
    using Compile_calls [OF assms(1,2)] by (auto simp: closedWorkflows_def)
  then have "fine True st emptyResult (Run m xe r workflow flags st)"
    by (rule fine_Run [OF assms(3), where rank = rank]) (use assms(4,5) in blast)
  then show ?thesis by (cases rule: fineE) auto
qed

section \<open>Where an unmatched error can end up\<close>

text \<open>The actions whose run may end with \<open>ErrUnmatched\<close>: \<open>find_match\<close> absorbs it.\<close>

primrec mayUnmatch :: "'p action \<Rightarrow> bool" where
  "mayUnmatch (SeqAction as) = list_ex (\<lambda>b. b) (map mayUnmatch as)"
| "mayUnmatch AttachLocalContentBySearch = True"
| "mayUnmatch AttachTmdbContentBySearch = True"
| "mayUnmatch (FindMatch path as) = False"
| "mayUnmatch (IfElse c i e) = ((case map_option mayUnmatch i of None \<Rightarrow> False | Some b \<Rightarrow> b) \<or>
     (case map_option mayUnmatch e of None \<Rightarrow> False | Some b \<Rightarrow> b))"
| "mayUnmatch LlmClassify = True"
| "mayUnmatch (Unmatched path) = True"
| "mayUnmatch ParseDateAction = True"
| "mayUnmatch ParseVideoContentAction = True"
| "mayUnmatch (RunWorkflow names) = True"
| "mayUnmatch (SetContentType ct) = False"

definition matched :: "(lang_store \<times> run_outcome) option \<Rightarrow> bool" where
  "matched out \<longleftrightarrow> (case out of Some (st, Returned r (Some err)) \<Rightarrow> \<not> isUnmatched err | _ \<Rightarrow> True)"

lemma matched_simps [simp]:
  "matched None" "matched (Some (st, Panicked))"
  "matched (returned r e st) \<longleftrightarrow> (\<forall>err. e = Some err \<longrightarrow> \<not> isUnmatched err)"
  "matched (Some (st, Returned r e)) \<longleftrightarrow> (\<forall>err. e = Some err \<longrightarrow> \<not> isUnmatched err)"
  by (auto simp: matched_def returned_def split: option.split)

lemma matched_runSeq:
  "\<forall>a\<in>set as. \<forall>cx st. matched (a cx st) \<Longrightarrow> matched (runSeq as cx st)"
proof (induction as arbitrary: cx st)
  case (Cons a as)
  then have "matched (a cx st)" "\<And>cx st. matched (runSeq as cx st)" by auto
  then show ?case by (auto split: option.split run_outcome.split)
qed simp

lemma matched_runFind: "matched (runFind path as cx st)"
  by (induction as arbitrary: st) (auto split: option.split run_outcome.split)

lemma checkCond_error:
  assumes "\<And>p err. eval p = Inl err \<Longrightarrow> \<not> isUnmatched err"
  shows "checkCond eval c = Inl err \<Longrightarrow> \<not> isUnmatched err"
proof (induction c arbitrary: err)
  case (AndCond cs)
  then have "\<forall>c\<in>set cs. \<forall>err. checkCond eval c = Inl err \<longrightarrow> \<not> isUnmatched err" by blast
  moreover have "checkAnd xs = Inl err \<Longrightarrow> Inl err \<in> set xs" for xs
    by (induction xs) (auto simp: bind_sum_def split: sum.splits if_splits)
  ultimately show ?case using AndCond.prems by fastforce
next
  case (OrCond cs)
  then have "\<forall>c\<in>set cs. \<forall>err. checkCond eval c = Inl err \<longrightarrow> \<not> isUnmatched err" by blast
  moreover have "checkOr xs = Inl err \<Longrightarrow> Inl err \<in> set xs" for xs
    by (induction xs) (auto simp: bind_sum_def split: sum.splits if_splits)
  ultimately show ?case using OrCond.prems by fastforce
next
  case (NotCond c)
  then show ?case by (auto simp: bind_sum_def split: sum.splits)
next
  case (ExprCond p)
  then show ?case using assms by (auto simp: bind_sum_def split: sum.splits "value.splits")
qed

lemma matched_runAction:
  assumes "\<And>p x err. ev p x = Inl err \<Longrightarrow> \<not> isUnmatched err"
  shows "\<not> mayUnmatch a \<Longrightarrow> matched (runAction xe ev call a cx st)"
proof (induction a arbitrary: cx st)
  case (SeqAction as)
  then have "\<forall>f\<in>set (map (runAction xe ev call) as). \<forall>cx st. matched (f cx st)"
    by (auto simp: list_ex_iff)
  then show ?case by (simp add: matched_runSeq)
next
  case (IfElse c i e)
  have "matched (runBranch (map_option (runAction xe ev call) i) cx st)"
    "matched (runBranch (map_option (runAction xe ev call) e) cx st)"
    using IfElse by (auto simp: runBranch_def split: option.splits)
  then show ?case
    using checkCond_error [of "\<lambda>p. ev p (ec_resultExpr cx)" c] assms by (auto simp: runIfElse_def split: sum.split)
qed (simp_all add: matched_runFind)

end
