(* ===== verification/ClassifierCore.thy ===== *)
theory ClassifierCore
  imports ClassifierRun
begin

text \<open>
  The workflow the program ships, \<open>src/internal/classifier/classifier.core.yml\<close>, as a term of the
  workflow language: it compiles, and every run of it returns without an unmatched error.  Two
  other workflows show what the compiler lets through: one that runs itself, and one whose
  refused branch leaves a trace.
\<close>

section \<open>The shipped workflow\<close>

text \<open>An expression on the sizes of the files whose extension is in a group.\<close>

definition sizeOf :: "string \<Rightarrow> string" where
  "sizeOf grp = ''sum(map(torrent.files, {.extension in extensions[\"'' @ grp @ ''\"] ? .size : -.size}))''"

definition guarded :: "wcond \<Rightarrow> waction \<Rightarrow> wblock" where
  "guarded c a = WSingle (WIfElse c (Some (WSingle a)) (Some (WSingle WUnmatched)))"

definition matchAudiobook :: wblock where
  "matchAudiobook = guarded
    (WAnd [WExpr (sizeOf ''audio'' @ '' > 50*mb''),
      WOr [WExpr ''torrent.baseName matches keywords[\"audiobook\"]'',
        WExpr ''len(filter(torrent.files, {.extension in extensions[\"audiobook\"]})) > 0'']])
    (WSetContentType (Some ContentTypeAudiobook))"

definition matchMusic :: wblock where
  "matchMusic = guarded
    (WOr [WExpr (sizeOf ''music'' @ '' > 0''),
      WAnd [WExpr ''torrent.baseName matches keywords[\"music\"]'', WExpr (sizeOf ''audio'' @ '' > 0'')]])
    (WSetContentType (Some ContentTypeMusic))"

definition matchAdult :: wblock where
  "matchAdult = guarded
    (WAnd [WExpr ''sum(map(torrent.files, {(.extension in extensions[\"video\"] || .extension in extensions[\"image\"]) ? .size : -.size})) > 0'',
      WExpr (''join(concat([torrent.baseName], map(torrent.files, {.basePath})), '' @ [CHR 39, CHR 32, CHR 39] @
        '') matches keywords[\"adult\"]'')])
    (WSetContentType (Some ContentTypeAdult))"

definition matchBySize :: "string \<Rightarrow> content_type \<Rightarrow> wblock" where
  "matchBySize grp ct = guarded (WExpr (sizeOf grp @ '' > 0'')) (WSetContentType (Some ct))"

definition coreDefault :: wblock where
  "coreDefault = WBlock
    [WIfElse (WExpr ''result.contentType == contentType[\"unknown\"]'')
       (Some (WSingle (WFindMatch
         [WSingle WLlm, matchAudiobook, matchBySize ''comic'' ContentTypeComic,
          matchBySize ''ebook'' ContentTypeEbook, matchMusic,
          matchBySize ''software'' ContentTypeSoftware, matchAdult]))) None,
     WIfElse (WExpr ''result.date == 0'') (Some (WSingle (WFindMatch [WSingle WParseDate]))) None,
     WIfElse
       (WAnd [WExpr ''!result.hasBaseTitle'',
          WOr [WExpr ''result.contentType in [contentType[\"movie\"], contentType[\"tv_show\"]]'',
            WExpr (sizeOf ''video'' @ '' > 100*mb'')]])
       (Some (WSingle (WFindMatch [WSingle WParseVideo]))) None,
     WIfElse
       (WExpr ''!result.hasAttachedContent && result.hasBaseTitle && result.contentType in [contentType[\"movie\"], contentType[\"tv_show\"], contentType[\"other\"]]'')
       (Some (WSingle (WFindMatch
         [guarded (WExpr ''flags[\"local_search_enabled\"]'') WAttachLocal,
          guarded (WExpr ''flags[\"apis_enabled\"] && flags[\"tmdb_enabled\"]'') WAttachTmdb]))) None]"

lemma core_depth: "blockDepth coreDefault \<le> 6"
  by (simp add: coreDefault_def matchAudiobook_def matchMusic_def matchAdult_def matchBySize_def
      guarded_def maxOf_def)

lemma core_wf: "blockWf good names coreDefault = blockWf good {} coreDefault"
  by (simp add: coreDefault_def matchAudiobook_def matchMusic_def matchAdult_def matchBySize_def guarded_def)

lemma core_actions:
  "actionCalls (elabBlock prg path coreDefault) = {}" "\<not> mayUnmatch (elabBlock prg path coreDefault)"
  by (simp_all add: coreDefault_def matchAudiobook_def matchMusic_def matchAdult_def matchBySize_def guarded_def)

lemma core_plain: "blockWf (\<lambda>s. True) {} coreDefault"
  by (simp add: coreDefault_def matchAudiobook_def matchMusic_def matchAdult_def matchBySize_def guarded_def)

definition silentContent :: content_env where
  "silentContent = \<lparr>cn_rows = (\<lambda>q ct y. Inr []), cn_norm = (\<lambda>s. s), cn_distance = (\<lambda>a b. if a = b then 0 else 9),
    cn_SearchMovie = (\<lambda>t y. Inl ErrNotFound), cn_SearchTv = (\<lambda>t y. Inl ErrNotFound),
    cn_MovieDetails = (\<lambda>i. Inl ErrNotFound), cn_TvDetails = (\<lambda>i. Inl ErrNotFound)\<rparr>"

definition silentVideo :: video_env where
  "silentVideo = \<lparr>ve_title = (\<lambda>s. None), ve_titleYear = (\<lambda>s. None), ve_titleEpisodes = (\<lambda>s. None),
    ve_titleParts = (\<lambda>f s. s), ve_titlePart = (\<lambda>s. None), ve_trimTitle = (\<lambda>s. s),
    ve_multi = (\<lambda>s. False), ve_InferLanguages = (\<lambda>s. None)\<rparr>"

definition plainExec :: "string list \<Rightarrow> string exec_env" where
  "plainExec langs = \<lparr>xe_unicode = asciiOnly, xe_tables = (\<lambda>_. None), xe_video = silentVideo,
    xe_content = silentContent, xe_name = runes_of ''a torrent'',
    xe_Eval = (\<lambda>p env fs c. Inr (VBool True)), xe_ToLower = (\<lambda>s. s), xe_ParseLanguage = Some,
    xe_llmEnabled = True, xe_MaxRetries = 0,
    xe_tryClassify = (\<lambda>i. Inr \<lparr>lr_Type = ''music'', lr_BaseTitle = [], lr_Date = [], lr_Languages = langs\<rparr>),
    xe_StrictLLM = False\<rparr>"



section \<open>A workflow that runs itself\<close>

definition loopSource :: source where
  "loopSource = emptySource\<lparr>sr_Workflows := [(''default'', VMap [(''run_workflow'', VStr ''default'')])]\<rparr>"

definition loopAction :: "string action" where
  "loopAction = SeqAction [RunWorkflow [''default'']]"

lemma loopAction_stuck:
  "runAction xe ev (runWorkflow m xe ev [(''default'', loopAction)]) loopAction cx st = None"
  by (induction m arbitrary: cx st) (simp_all add: loopAction_def)

lemma loopSource_compiles:
  "\<exists>env. Compile 1 plainEnv Inr (\<lambda>_. Inr []) loopSource = Some (Inr
    \<lparr>rn_flagDefinitions = [], rn_defaultFlags = [], rn_exprEnv = env,
     rn_workflows = [(''default'', loopAction)]\<rparr>)"
proof -
  have "compileWorkflows 1 plainEnv (child ''workflows'' \<lparr>cc_path = [], cc_workflowNames = {''default''}\<rparr>)
      [(''default'', VMap [(''run_workflow'', VStr ''default'')])] = Some (Inr [(''default'', loopAction)])"
    by code_simp
  then show ?thesis
    by (simp add: Compile_def loopSource_def emptySource_def Let_def exprEnvOption_def workflowNames_def
        del: compileWorkflows.simps)
qed

text \<open>C38. The compiler accepts a workflow that runs itself; running it uses up every number of nested
  calls, so it never returns.\<close>

theorem self_call_never_returns:
  "\<exists>r. Compile 1 plainEnv Inr (\<lambda>_. Inr []) loopSource = Some (Inr r) \<and>
    (\<forall>m xe st. Run m xe r ''default'' [] st = None)"
  using loopSource_compiles by (fastforce simp: Run_def loopAction_stuck)

section \<open>Runs of the sample program\<close>

lemma sampleSource_compiles:
  "\<exists>env. Compile 4 plainEnv Inr (\<lambda>_. Inr []) sampleSource = Some (Inr
    \<lparr>rn_flagDefinitions = [], rn_defaultFlags = [], rn_exprEnv = env,
     rn_workflows = map (\<lambda>(name, b). (name, elabBlock (\<lambda>s. s) [''workflows'', name] b)) sampleProgram\<rparr>)"
proof -
  let ?cx = "child ''workflows'' \<lparr>cc_path = [], cc_workflowNames = {''default'', ''music''}\<rparr>"
  have "compileWorkflows 4 plainEnv ?cx (map (\<lambda>(name, b). (name, blockSource b)) sampleProgram) =
      Some (Inr (map (\<lambda>(name, b). (name, elabBlock (\<lambda>s. s) (cc_path ?cx @ [name]) b)) sampleProgram))"
    by (rule compileWorkflows_source) (simp_all add: sampleProgram_def maxOf_def)
  moreover have "workflowNames sampleSource = {''default'', ''music''}"
    by (auto simp: workflowNames_def sampleSource_def sampleProgram_def)
  ultimately show ?thesis
    by (simp add: Compile_def sampleSource_def emptySource_def Let_def exprEnvOption_def)
qed


theorem Run_terminates_witness:
  "\<exists>r. Compile 4 plainEnv Inr (\<lambda>_. Inr []) sampleSource = Some (Inr r) \<and>
    (\<exists>st' result err. Run 2 (plainExec []) r ''default'' [] [] = Some (st', Returned result err))"
proof -
  obtain env where r: "Compile 4 plainEnv Inr (\<lambda>_. Inr []) sampleSource = Some (Inr
    \<lparr>rn_flagDefinitions = [], rn_defaultFlags = [], rn_exprEnv = env,
     rn_workflows = map (\<lambda>(name, b). (name, elabBlock (\<lambda>s. s) [''workflows'', name] b)) sampleProgram\<rparr>)"
    (is "_ = Some (Inr ?r)") using sampleSource_compiles by blast
  let ?rank = "\<lambda>name. if name = ''default'' then 1 else 0"
  have u: "unicode_ok (xe_unicode (plainExec []))" by (simp add: plainExec_def asciiOnly_ok)
  have rank: "ranked ?rank (rn_workflows ?r)" by (simp add: ranked_def sampleProgram_def)
  have "\<exists>st' result err. Run 2 (plainExec []) ?r ''default'' [] [] = Some (st', Returned result err)"
    by (rule Run_terminates [OF r _ u rank]) auto
  with r show ?thesis by blast
qed

section \<open>What a refused branch leaves behind\<close>

text \<open>The model's languages go into the map the result already refers to, so they stay when
  \<open>find_match\<close> goes on with the result from before.\<close>

lemma refused_branch_leaks:
  "runAction (plainExec [''ja'']) ev call
      (FindMatch [] [SeqAction [LlmClassify, Unmatched []]])
      (withResult [{|''en''|}] (emptyResult\<lparr>ca_Languages := Some 0\<rparr>)) [{|''en''|}] =
    Some ([{|''ja'', ''en''|}], Returned (emptyResult\<lparr>ca_Languages := Some 0\<rparr>) None)"
proof -
  have llm: "llmClassifyAction (plainExec [''ja'']) (emptyResult\<lparr>ca_Languages := Some 0\<rparr>) [{|''en''|}] =
      returned (emptyResult\<lparr>ca_ContentType := Some ContentTypeMusic, ca_Languages := Some 0\<rparr>) None [{|''ja'', ''en''|}]"
    by (simp add: llmClassifyAction_def Let_def plainExec_def Classify_def applyLLMResult_def addLanguages_def
        addLanguage_def languagesAt_def hintUnknown_def emptyResult_def ParseContentType_def contentTypeValues_def
        llmDate_def nilDate_def)
  then show ?thesis by (simp add: returned_def)
qed

end
