(* ===== verification/Crawler.thy ===== *)
theory Crawler
  imports DhtServer PgTypes
begin

text \<open>
  The DHT crawler, package \<open>dhtcrawler\<close>, and the batching channel of package
  \<open>concurrency\<close> that feeds it: the bodies its goroutines run for each node they are handed
  (ping, find node, sample info hashes), the distribution of discovered nodes, and the counters
  and activity list of its \<open>Runtime\<close>.

  \<^item> The routing table is the model of theory KTable, the replies of nodes are those of the client
    of theory DhtServer; times are counted from Go's zero time, as there.
  \<^item> A Bloom filter of the package \<open>bloom\<close> is a state of any type \<open>'b\<close> with its operation
    \<open>TestAndAdd\<close>; the laws a theorem needs are its hypotheses.
  \<^item> A send on a channel blocks until it is taken or the context ends: a handler takes the number
    of its sends (or rate-limiter waits) that succeed before that as an argument.
\<close>

section \<open>batching\_channel.go\<close>

record 'a batching_channel =
  bc_buffer :: "'a list"
  bc_output :: "'a list list"
  bc_maxBatchSize :: int

definition flush :: "'a batching_channel \<Rightarrow> 'a batching_channel" where
  "flush ch = ch\<lparr>bc_buffer := [], bc_output := bc_output ch @ [bc_buffer ch]\<rparr>"

definition batch_next :: "'a \<Rightarrow> 'a batching_channel \<Rightarrow> 'a batching_channel" where
  "batch_next x ch =
     (let ch' = ch\<lparr>bc_buffer := bc_buffer ch @ [x]\<rparr> in
      if int (length (bc_buffer ch')) \<ge> bc_maxBatchSize ch' then flush ch' else ch')"

definition batch_tick :: "'a batching_channel \<Rightarrow> 'a batching_channel" where
  "batch_tick ch = (if bc_buffer ch \<noteq> [] then flush ch else ch)"

text \<open>What the goroutine of the channel sees: a value or a tick.\<close>

fun batch_run :: "'a option list \<Rightarrow> 'a batching_channel \<Rightarrow> 'a batching_channel" where
  "batch_run [] ch = ch"
| "batch_run (Some x # evs) ch = batch_run evs (batch_next x ch)"
| "batch_run (None # evs) ch = batch_run evs (batch_tick ch)"

section \<open>runtime.go\<close>

definition maxActivityEntries :: nat where "maxActivityEntries = 50"

record activity_entry =
  ae_ID :: int
  ae_Type :: string
  ae_Message :: string
  ae_Time :: int

record 'b crawl_runtime =
  cw_PeersDiscovered :: "64 word"
  cw_PeersConnected :: "64 word"
  cw_SeenConnectedPeers :: 'b
  cw_SeenDiscoveredPeers :: 'b
  cw_activity :: "activity_entry list"

definition PushActivity :: "int \<Rightarrow> string \<Rightarrow> string \<Rightarrow> 'b crawl_runtime \<Rightarrow> 'b crawl_runtime" where
  "PushActivity now typ message r =
     (let act = \<lparr>ae_ID = now, ae_Type = typ, ae_Message = message, ae_Time = now\<rparr> # cw_activity r in
      r\<lparr>cw_activity := (if length act > maxActivityEntries then take maxActivityEntries act else act)\<rparr>)"

section \<open>The crawler\<close>

text \<open>A \<open>ktable.Node\<close>: one made by \<open>NewNode\<close>, or an item of the routing table.\<close>

datatype crawl_node = NodeBase ID addr_port | TableNode node

fun node_ID :: "crawl_node \<Rightarrow> ID" where
  "node_ID (NodeBase i _) = i"
| "node_ID (TableNode n) = nd_id n"

fun node_Addr :: "crawl_node \<Rightarrow> addr_port" where
  "node_Addr (NodeBase _ a) = a"
| "node_Addr (TableNode n) = nd_addr n"

fun node_Time :: "crawl_node \<Rightarrow> int" where
  "node_Time (NodeBase _ _) = 0"
| "node_Time (TableNode n) = nd_lastRespondedAt n"

fun node_isDropped :: "crawl_node \<Rightarrow> bool" where
  "node_isDropped (NodeBase _ _) = False"
| "node_isDropped (TableNode n) = node_Dropped n"

fun node_isCandidate :: "int \<Rightarrow> crawl_node \<Rightarrow> bool" where
  "node_isCandidate now (NodeBase _ _) = True"
| "node_isCandidate now (TableNode n) = IsSampleInfoHashesCandidate now n"

record DiscoveredHash =
  dm_InfoHash :: string
  dm_Node :: string
  dm_DiscoveredAt :: int

text \<open>
  \<open>cs_discovered\<close> is what was sent on the channel of discovered nodes, \<open>cs_produced\<close> the
  messages given to the producer on the topic of discovered hashes.
\<close>

record 'b crawler =
  cs_kTable :: table
  cs_runtime :: "'b crawl_runtime"
  cs_ignoreHashes :: 'b
  cs_discovered :: "crawl_node list"
  cs_produced :: "DiscoveredHash list"

text \<open>The third-party and standard functions the handlers call: \<open>TestAndAdd\<close> of the Bloom
filter, \<open>Addr.As16\<close> and \<open>AddrPort.String\<close>, and the text of an error.\<close>

record 'b crawl_env =
  ke_TestAndAdd :: "'b \<Rightarrow> bytes \<Rightarrow> bool \<times> 'b"
  ke_As16 :: "ip_addr \<Rightarrow> bytes"
  ke_AddrPortString :: "addr_port \<Rightarrow> string"
  ke_errText :: "go_error \<Rightarrow> string"
  ke_Itoa :: "nat \<Rightarrow> string"

type_synonym client_reply = "client_result \<times> go_error option"

definition onTable :: "env \<Rightarrow> command \<Rightarrow> 'b crawler \<Rightarrow> 'b crawler option" where
  "onTable e c s = map_option (\<lambda>t. s\<lparr>cs_kTable := t\<rparr>) (BatchCommand [(e, c)] (cs_kTable s))"

definition onRuntime :: "('b crawl_runtime \<Rightarrow> 'b crawl_runtime) \<Rightarrow> 'b crawler \<Rightarrow> 'b crawler" where
  "onRuntime f s = s\<lparr>cs_runtime := f (cs_runtime s)\<rparr>"

subsection \<open>ping.go\<close>

definition oldPeerThreshold :: int where "oldPeerThreshold = 15 * 60 * second"

datatype ping_error = ErrMismatchingNodeID | ErrClient go_error

definition pingErrText :: "'b crawl_env \<Rightarrow> ping_error \<Rightarrow> string" where
  "pingErrText ke err = ''failed to respond to ping: '' @
     (case err of ErrMismatchingNodeID \<Rightarrow> ''node responded with a mismatching ID''
      | ErrClient e \<Rightarrow> ke_errText ke e)"

text \<open>The identifier and the error the handler goes on with.\<close>

definition pingOutcome :: "crawl_node \<Rightarrow> client_reply \<Rightarrow> ID \<times> ping_error option" where
  "pingOutcome n reply =
     (case snd reply of
        None \<Rightarrow>
          (let nodeID = cr_ID (fst reply) in
           if \<not> id_IsZero (node_ID n) \<and> node_ID n \<noteq> nodeID then (node_ID n, Some ErrMismatchingNodeID)
           else (nodeID, None))
      | Some err \<Rightarrow> (zero_id, Some (ErrClient err)))"

definition notePeer :: "'b crawl_env \<Rightarrow> ip_addr \<Rightarrow> 'b crawl_runtime \<Rightarrow> 'b crawl_runtime" where
  "notePeer ke a r =
     (let (seen, b) = ke_TestAndAdd ke (cw_SeenConnectedPeers r) (ke_As16 ke a);
          r' = r\<lparr>cw_SeenConnectedPeers := b\<rparr> in
      if \<not> seen then r'\<lparr>cw_PeersConnected := cw_PeersConnected r' + 1\<rparr> else r')"

definition runPing ::
  "'b crawl_env \<Rightarrow> int \<Rightarrow> env \<Rightarrow> crawl_node \<Rightarrow> client_reply \<Rightarrow> 'b crawler \<Rightarrow> 'b crawler option" where
  "runPing ke now e n reply s =
     (if node_isDropped n \<or> node_Time n > now - oldPeerThreshold then Some s
      else (case pingOutcome n reply of
              (nodeID, Some err) \<Rightarrow> onTable e (DropNode nodeID (Some (pingErrText ke err))) s
            | (nodeID, None) \<Rightarrow>
                onTable e (PutNode nodeID (node_Addr n) [NodeResponded])
                  (onRuntime (notePeer ke (ap_ip (node_Addr n))) s)))"

text \<open>\<open>getOldNodes\<close>: what it sends to be pinged.\<close>

definition getOldNodes :: "((ID \<times> node) list \<Rightarrow> (ID \<times> node) list) \<Rightarrow> int \<Rightarrow> 'b crawler \<Rightarrow> crawl_node list" where
  "getOldNodes ord now s = map TableNode (GetOldestNodes ord (now - oldPeerThreshold) 0 (cs_kTable s))"

subsection \<open>find\_node.go\<close>

definition getNodesForFindNode ::
  "((ID \<times> node) list \<Rightarrow> (ID \<times> node) list) \<Rightarrow> int \<Rightarrow> 'b crawler \<Rightarrow> crawl_node list" where
  "getNodesForFindNode ord now s = map TableNode (GetOldestNodes ord (now - 5 * second) 10 (cs_kTable s))"

fun countNew :: "'b crawl_env \<Rightarrow> (ID \<times> addr_port) list \<Rightarrow> 'b \<Rightarrow> nat \<times> 'b" where
  "countNew ke [] b = (0, b)"
| "countNew ke (n # ns) b =
     (let (seen, b1) = ke_TestAndAdd ke b (ke_As16 ke (ap_ip (snd n)));
          (newNodes, b2) = countNew ke ns b1 in
      (if \<not> seen then newNodes + 1 else newNodes, b2))"

definition noteNodes :: "'b crawl_env \<Rightarrow> (ID \<times> addr_port) list \<Rightarrow> 'b crawl_runtime \<Rightarrow> 'b crawl_runtime" where
  "noteNodes ke ns r =
     (let (newNodes, b) = countNew ke ns (cw_SeenDiscoveredPeers r);
          r' = r\<lparr>cw_SeenDiscoveredPeers := b\<rparr> in
      if newNodes > 0 then r'\<lparr>cw_PeersDiscovered := cw_PeersDiscovered r' + of_nat newNodes\<rparr> else r')"

definition sendDiscovered :: "nat \<Rightarrow> (ID \<times> addr_port) list \<Rightarrow> 'b crawler \<Rightarrow> 'b crawler" where
  "sendDiscovered sent ns s =
     s\<lparr>cs_discovered := cs_discovered s @ map (\<lambda>(i, a). NodeBase i a) (take sent ns)\<rparr>"

definition runFindNode ::
  "'b crawl_env \<Rightarrow> env \<Rightarrow> nat \<Rightarrow> crawl_node \<Rightarrow> client_reply \<Rightarrow> 'b crawler \<Rightarrow> 'b crawler option" where
  "runFindNode ke e sent p reply s =
     (case snd reply of
        Some err \<Rightarrow> onTable e (DropNode (node_ID p) (Some (''find_node failed: '' @ ke_errText ke err))) s
      | None \<Rightarrow>
          map_option (sendDiscovered sent (cr_Nodes (fst reply)))
            (onTable e (PutNode (node_ID p) (node_Addr p) [NodeResponded])
               (onRuntime (noteNodes ke (cr_Nodes (fst reply))) s)))"

subsection \<open>sample\_infohashes.go\<close>

definition getNodesForSampleInfoHashes ::
  "((ID \<times> node) list \<Rightarrow> (ID \<times> node) list) \<Rightarrow> int \<Rightarrow> 'b crawler \<Rightarrow> crawl_node list option" where
  "getNodesForSampleInfoHashes ord now s =
     map_option (map TableNode) (GetNodesForSampleInfoHashes ord now 60 (cs_kTable s))"

fun newHashes :: "'b crawl_env \<Rightarrow> ID list \<Rightarrow> 'b \<Rightarrow> string list \<times> 'b" where
  "newHashes ke [] b = ([], b)"
| "newHashes ke (h # hs) b =
     (let (seen, b1) = ke_TestAndAdd ke b h;
          (rest, b2) = newHashes ke hs b1 in
      (if \<not> seen then id_String h # rest else rest, b2))"

definition sampleInterval :: "nat \<Rightarrow> int \<Rightarrow> int" where
  "sampleInterval discovered interval = (if discovered > 0 \<and> interval > 300 then 60 else interval)"

definition discoveredMsgs :: "'b crawl_env \<Rightarrow> int \<Rightarrow> crawl_node \<Rightarrow> string list \<Rightarrow> DiscoveredHash list" where
  "discoveredMsgs ke now n hs =
     map (\<lambda>h. \<lparr>dm_InfoHash = h, dm_Node = ke_AddrPortString ke (node_Addr n), dm_DiscoveredAt = now\<rparr>) hs"

definition noteSampled :: "'b crawl_env \<Rightarrow> int \<Rightarrow> crawl_node \<Rightarrow> nat \<Rightarrow> 'b crawl_runtime \<Rightarrow> 'b crawl_runtime" where
  "noteSampled ke now n k r =
     (if k > 0 then PushActivity now ''discovered''
        (''discovered '' @ ke_Itoa ke k @ '' hashes from '' @ ke_AddrPortString ke (node_Addr n)) r
      else r)"

text \<open>\<open>waits\<close> is how many waits of the rate limiter succeed, \<open>sent\<close> how many nodes the
goroutine hands on before its timeout. The gate \<open>paused\<close> is checked before the query.\<close>

definition runSampleInfoHashes ::
  "'b crawl_env \<Rightarrow> int \<Rightarrow> env \<Rightarrow> bool \<Rightarrow> nat \<Rightarrow> nat \<Rightarrow> crawl_node \<Rightarrow> client_reply \<Rightarrow> 'b crawler \<Rightarrow>
   'b crawler option" where
  "runSampleInfoHashes ke now e paused waits sent n reply s =
     (if \<not> node_isCandidate now n \<or> paused then Some s
      else (case snd reply of
        Some err \<Rightarrow>
          onTable e (DropNode (node_ID n) (Some (''sample_infohashes failed: '' @ ke_errText ke err))) s
      | None \<Rightarrow>
          (let res = fst reply;
               (hs, b) = newHashes ke (cr_Samples res) (cs_ignoreHashes s);
               s1 = s\<lparr>cs_ignoreHashes := b,
                      cs_produced := cs_produced s @ discoveredMsgs ke now n (take waits hs)\<rparr> in
           if waits < length hs then Some s1
           else map_option (sendDiscovered sent (cr_Nodes res))
             (onTable e (PutNode (node_ID n) (node_Addr n)
                [NodeResponded, NodeBep51Support True,
                 NodeSampleInfoHashesRes (int (length hs)) (cr_Num res)
                   (fst e + sampleInterval (length hs) (cr_Interval res) * second)])
               (onRuntime (noteSampled ke now n (length hs)) s1)))))"

subsection \<open>discovered\_nodes.go and bootstrap.go\<close>

text \<open>The addresses of a batch, each with the first node that has it. The code keys its map
by the text of an address, which determines the address.\<close>

fun firstByAddr :: "crawl_node list \<Rightarrow> (ip_addr \<times> crawl_node) list \<Rightarrow> (ip_addr \<times> crawl_node) list" where
  "firstByAddr [] m = m"
| "firstByAddr (p # ps) m =
     (if map_of m (ap_ip (node_Addr p)) = None then firstByAddr ps (m @ [(ap_ip (node_Addr p), p)])
      else firstByAddr ps m)"

definition unknownNodes :: "table \<Rightarrow> crawl_node list \<Rightarrow> crawl_node list" where
  "unknownNodes t ps =
     (let m = firstByAddr ps [] in
      map (\<lambda>a. the (map_of m a)) (FilterKnownAddrs (map fst m) t))"

datatype node_channel = NodesForFindNode | NodesForSampleInfoHashes | NodesForPing

text \<open>Go's \<open>select\<close> gives each node to one of the channels that can take it; \<open>pick\<close> is its
choice at each position and \<open>sent\<close> the number of nodes taken before the context ends.\<close>

definition runDiscoveredNodes ::
  "(nat \<Rightarrow> node_channel) \<Rightarrow> nat \<Rightarrow> crawl_node list \<Rightarrow> 'b crawler \<Rightarrow> (node_channel \<times> crawl_node) list" where
  "runDiscoveredNodes pick sent ps s =
     (let ns = take sent (unknownNodes (cs_kTable s) ps) in zip (map pick [0..<length ns]) ns)"

text \<open>\<open>net.ResolveUDPAddr\<close> is the parameter; an address that does not resolve is skipped.\<close>

definition reseedBootstrapNodes :: "(string \<Rightarrow> addr_port option) \<Rightarrow> string list \<Rightarrow> crawl_node list" where
  "reseedBootstrapNodes resolve addrs =
     map (\<lambda>a. NodeBase zero_id a) (List.map_filter resolve addrs)"

section \<open>The handlers as steps\<close>

datatype crawl_event =
    EvPing int env crawl_node client_reply
  | EvFindNode env nat crawl_node client_reply
  | EvSample int env bool nat nat crawl_node client_reply

fun crawl_step :: "'b crawl_env \<Rightarrow> crawl_event \<Rightarrow> 'b crawler \<Rightarrow> 'b crawler option" where
  "crawl_step ke (EvPing now e n reply) s = runPing ke now e n reply s"
| "crawl_step ke (EvFindNode e sent n reply) s = runFindNode ke e sent n reply s"
| "crawl_step ke (EvSample now e paused waits sent n reply) s =
     runSampleInfoHashes ke now e paused waits sent n reply s"

fun crawl_run :: "'b crawl_env \<Rightarrow> crawl_event list \<Rightarrow> 'b crawler \<Rightarrow> 'b crawler option" where
  "crawl_run ke [] s = Some s"
| "crawl_run ke (ev # evs) s =
     (case crawl_step ke ev s of None \<Rightarrow> None | Some s' \<Rightarrow> crawl_run ke evs s')"

text \<open>What the client and the table give a handler: 160-bit identifiers, and some order in which
the run time ranges over a map.\<close>

fun event_ok :: "crawl_event \<Rightarrow> bool" where
  "event_ok (EvPing now e n reply) \<longleftrightarrow> env_ok e \<and> wf_id (node_ID n) \<and> wf_id (cr_ID (fst reply))"
| "event_ok (EvFindNode e sent n reply) \<longleftrightarrow> env_ok e \<and> wf_id (node_ID n)"
| "event_ok (EvSample now e paused waits sent n reply) \<longleftrightarrow> env_ok e \<and> wf_id (node_ID n)"

text \<open>A filter that, once it was given a key, always says it has seen the key.\<close>

definition no_false_negatives :: "('b \<Rightarrow> bytes \<Rightarrow> bool \<times> 'b) \<Rightarrow> bool" where
  "no_false_negatives ta \<longleftrightarrow>
     (\<forall>b x. fst (ta (snd (ta b x)) x)) \<and> (\<forall>b x y. fst (ta b x) \<longrightarrow> fst (ta (snd (ta b y)) x))"

section \<open>Lemmas\<close>

lemma onTable_safe:
  assumes "table_ok (cs_kTable s)" "env_ok e" "wf_id (command_id c)"
  obtains t where "onTable e c s = Some (s\<lparr>cs_kTable := t\<rparr>)" "table_ok t"
    "command_exec e c (cs_kTable s) = Some t"
proof -
  obtain t where "command_exec e c (cs_kTable s) = Some t" "table_ok t"
    using command_ok [OF assms(1,3,2)] by blast
  then show ?thesis by (intro that [of t]) (simp_all add: onTable_def)
qed

lemma onTable_frame:
  assumes "onTable e c s = Some s'"
  shows "cs_runtime s' = cs_runtime s" "cs_ignoreHashes s' = cs_ignoreHashes s"
    "cs_discovered s' = cs_discovered s" "cs_produced s' = cs_produced s"
  using assms by (auto simp: onTable_def)

lemma onTable_hashes:
  "onTable e c s = Some s' \<Longrightarrow> cs_ignoreHashes s' = cs_ignoreHashes s \<and> cs_produced s' = cs_produced s"
  by (simp add: onTable_frame)

lemma onTable_drop_absent:
  "keyspace_get (tb_nodes (cs_kTable s)) i = None \<Longrightarrow> onTable e (DropNode i reason) s = Some s"
  by (simp add: onTable_def DropNode_exec_def keyspace_drop_def keyspace_get_def)

lemma onRuntime_simps [simp]:
  "cs_kTable (onRuntime f s) = cs_kTable s" "cs_ignoreHashes (onRuntime f s) = cs_ignoreHashes s"
  "cs_produced (onRuntime f s) = cs_produced s" "cs_discovered (onRuntime f s) = cs_discovered s"
  "cs_runtime (onRuntime f s) = f (cs_runtime s)"
  by (simp_all add: onRuntime_def)

lemma sendDiscovered_simps [simp]:
  "cs_kTable (sendDiscovered k ns s) = cs_kTable s"
  "cs_ignoreHashes (sendDiscovered k ns s) = cs_ignoreHashes s"
  "cs_produced (sendDiscovered k ns s) = cs_produced s"
  "cs_runtime (sendDiscovered k ns s) = cs_runtime s"
  by (simp_all add: sendDiscovered_def)

lemma PushActivity_length: "length (cw_activity (PushActivity now typ m r)) \<le> maxActivityEntries"
  by (simp add: PushActivity_def Let_def)

lemma activity_kept [simp]:
  "cw_activity (notePeer ke a r) = cw_activity r" "cw_activity (noteNodes ke ns r) = cw_activity r"
  by (simp_all add: notePeer_def noteNodes_def Let_def split: prod.split)

lemma noteSampled_length:
  "length (cw_activity r) \<le> maxActivityEntries \<Longrightarrow>
   length (cw_activity (noteSampled ke now n k r)) \<le> maxActivityEntries"
  by (simp add: noteSampled_def PushActivity_length)

lemma wf_zero_id [simp]: "wf_id zero_id"
  by (simp add: wf_id_def zero_id_def)

text \<open>What one event does to the hashes: none, or those of a sample the filter does not know.\<close>

lemma crawl_step_hashes:
  assumes "crawl_step ke ev s = Some s'"
  shows "(cs_ignoreHashes s' = cs_ignoreHashes s \<and> cs_produced s' = cs_produced s) \<or>
    (\<exists>now e waits sent n res. ev = EvSample now e False waits sent n (res, None) \<and>
       cs_ignoreHashes s' = snd (newHashes ke (cr_Samples res) (cs_ignoreHashes s)) \<and>
       cs_produced s' = cs_produced s @
         discoveredMsgs ke now n (take waits (fst (newHashes ke (cr_Samples res) (cs_ignoreHashes s)))))"
  using assms
proof (cases ev)
  case (EvPing now e n reply)
  then show ?thesis
    using assms by (auto simp: runPing_def split: if_splits prod.splits option.splits dest!: onTable_hashes)
next
  case (EvFindNode e sent n reply)
  then show ?thesis
    using assms by (auto simp: runFindNode_def split: option.splits dest!: onTable_hashes)
next
  case (EvSample now e paused waits sent n reply)
  obtain res err where r: "reply = (res, err)" by fastforce
  show ?thesis
    using assms unfolding EvSample r
    by (auto simp: runSampleInfoHashes_def Let_def split: if_splits prod.splits option.splits
        dest!: onTable_hashes)
qed

lemma newHashes_Cons:
  "newHashes ke (h # hs) b =
     (let b1 = snd (ke_TestAndAdd ke b h) in
      (if fst (ke_TestAndAdd ke b h) then fst (newHashes ke hs b1) else id_String h # fst (newHashes ke hs b1),
       snd (newHashes ke hs b1)))"
  by (simp add: Let_def split: prod.split)

lemma newHashes_seen:
  assumes ok: "no_false_negatives (ke_TestAndAdd ke)"
  shows "fst (ke_TestAndAdd ke b x) \<Longrightarrow> fst (ke_TestAndAdd ke (snd (newHashes ke hs b)) x)"
    "x \<in> set hs \<Longrightarrow> fst (ke_TestAndAdd ke (snd (newHashes ke hs b)) x)"
proof -
  have add: "fst (ke_TestAndAdd ke (snd (ke_TestAndAdd ke b x)) x)"
    and keep: "fst (ke_TestAndAdd ke b x) \<Longrightarrow> fst (ke_TestAndAdd ke (snd (ke_TestAndAdd ke b y)) x)"
    for b x y using ok by (auto simp: no_false_negatives_def)
  show *: "fst (ke_TestAndAdd ke (snd (newHashes ke hs b)) x)" if "fst (ke_TestAndAdd ke b x)" for b hs
    using that
  proof (induction hs arbitrary: b)
    case (Cons h hs)
    show ?case using Cons.IH [OF keep [OF Cons.prems]] by (simp add: newHashes_Cons Let_def del: newHashes.simps)
  qed simp
  show "fst (ke_TestAndAdd ke (snd (newHashes ke hs b)) x)" if "x \<in> set hs"
    using that
  proof (induction hs arbitrary: b)
    case (Cons h hs)
    show ?case
    proof (cases "x = h")
      case True
      then show ?thesis using * [OF add] by (simp add: newHashes_Cons Let_def del: newHashes.simps)
    next
      case False
      then show ?thesis using Cons by (simp add: newHashes_Cons Let_def del: newHashes.simps)
    qed
  qed simp
qed

lemma newHashes_subset: "set (fst (newHashes ke hs b)) \<subseteq> id_String ` set hs"
  by (induction hs arbitrary: b) (auto simp: newHashes_Cons Let_def simp del: newHashes.simps(2))

lemma newHashes_unseen:
  assumes ok: "no_false_negatives (ke_TestAndAdd ke)"
  shows "id_String x \<in> set (fst (newHashes ke hs b)) \<Longrightarrow> \<not> fst (ke_TestAndAdd ke b x)"
proof (induction hs arbitrary: b)
  case (Cons h hs)
  have "fst (ke_TestAndAdd ke b x) \<Longrightarrow> fst (ke_TestAndAdd ke (snd (ke_TestAndAdd ke b h)) x)"
    using ok by (simp add: no_false_negatives_def)
  then show ?case
    using Cons by (auto simp: newHashes_Cons Let_def simp del: newHashes.simps(2) split: if_splits)
qed simp

lemma newHashes_distinct:
  assumes ok: "no_false_negatives (ke_TestAndAdd ke)"
  shows "distinct (fst (newHashes ke hs b))"
proof (induction hs arbitrary: b)
  case (Cons h hs)
  have "fst (ke_TestAndAdd ke (snd (ke_TestAndAdd ke b h)) h)" using ok by (simp add: no_false_negatives_def)
  then have "id_String h \<notin> set (fst (newHashes ke hs (snd (ke_TestAndAdd ke b h))))"
    using newHashes_unseen [OF ok] by blast
  then show ?case by (simp add: newHashes_Cons Let_def Cons.IH del: newHashes.simps(2))
qed simp

definition published :: "'b crawl_env \<Rightarrow> 'b crawler \<Rightarrow> bool" where
  "published ke s \<longleftrightarrow> distinct (map dm_InfoHash (cs_produced s)) \<and>
     (\<forall>h. id_String h \<in> dm_InfoHash ` set (cs_produced s) \<longrightarrow> fst (ke_TestAndAdd ke (cs_ignoreHashes s) h))"

text \<open>A message of the event that made it.\<close>

definition sampled_by :: "'b crawl_env \<Rightarrow> crawl_event \<Rightarrow> DiscoveredHash \<Rightarrow> bool" where
  "sampled_by ke ev m \<longleftrightarrow>
     (\<exists>now e waits sent n (res :: client_result) h. ev = EvSample now e False waits sent n (res, None) \<and> h \<in> set (cr_Samples res) \<and>
        m = \<lparr>dm_InfoHash = id_String h, dm_Node = ke_AddrPortString ke (node_Addr n), dm_DiscoveredAt = now\<rparr>)"

lemma discoveredMsgs_hashes [simp]: "map dm_InfoHash (discoveredMsgs ke now n hs) = hs"
  by (simp add: discoveredMsgs_def comp_def)

lemma crawl_step_published:
  assumes ok: "no_false_negatives (ke_TestAndAdd ke)" and inv: "published ke s"
    and step: "crawl_step ke ev s = Some s'"
  shows "published ke s' \<and> (\<forall>m \<in> set (cs_produced s') - set (cs_produced s). sampled_by ke ev m)"
  using crawl_step_hashes [OF step]
proof (elim disjE exE conjE)
  assume "cs_ignoreHashes s' = cs_ignoreHashes s" "cs_produced s' = cs_produced s"
  then show ?thesis using inv by (simp add: published_def)
next
  fix now e waits sent n and res :: client_result
  let ?new = "newHashes ke (cr_Samples res) (cs_ignoreHashes s)"
  assume ev: "ev = EvSample now e False waits sent n (res, None)"
    and ig: "cs_ignoreHashes s' = snd ?new"
    and pr: "cs_produced s' = cs_produced s @ discoveredMsgs ke now n (take waits (fst ?new))"
  have sub: "set (take waits (fst ?new)) \<subseteq> set (fst ?new)" by (rule set_take_subset)
  have hashes: "dm_InfoHash ` set (discoveredMsgs ke now n hs) = set hs" for hs
    by (simp add: discoveredMsgs_def image_image)
  have "x \<notin> dm_InfoHash ` set (cs_produced s)" if x: "x \<in> set (fst ?new)" for x
  proof -
    obtain h where "x = id_String h" using subsetD [OF newHashes_subset x] by blast
    then show ?thesis using newHashes_unseen [OF ok] x inv by (auto simp: published_def)
  qed
  then have "set (take waits (fst ?new)) \<inter> dm_InfoHash ` set (cs_produced s) = {}" using sub by blast
  then have "distinct (map dm_InfoHash (cs_produced s'))"
    using inv newHashes_distinct [OF ok] by (auto simp: pr published_def distinct_take)
  moreover have "fst (ke_TestAndAdd ke (cs_ignoreHashes s') h)"
    if "id_String h \<in> dm_InfoHash ` set (cs_produced s')" for h
  proof (cases "id_String h \<in> dm_InfoHash ` set (cs_produced s)")
    case True
    then show ?thesis using inv newHashes_seen(1) [OF ok] by (auto simp: ig published_def)
  next
    case False
    then have "id_String h \<in> set (fst ?new)" using that sub by (auto simp: pr image_Un hashes)
    then have "h \<in> set (cr_Samples res)" using newHashes_subset [of ke "cr_Samples res"] by fastforce
    then show ?thesis using newHashes_seen(2) [OF ok] by (simp add: ig)
  qed
  moreover have "sampled_by ke ev m" if m: "m \<in> set (cs_produced s') - set (cs_produced s)" for m
  proof -
    obtain x where x: "x \<in> set (fst ?new)"
      and "m = \<lparr>dm_InfoHash = x, dm_Node = ke_AddrPortString ke (node_Addr n), dm_DiscoveredAt = now\<rparr>"
      using m sub by (auto simp: pr discoveredMsgs_def)
    moreover obtain h where "h \<in> set (cr_Samples res)" "x = id_String h"
      using subsetD [OF newHashes_subset x] by blast
    ultimately show ?thesis by (auto simp: sampled_by_def ev)
  qed
  ultimately show ?thesis by (simp add: published_def)
qed

lemma crawl_run_published:
  assumes ok: "no_false_negatives (ke_TestAndAdd ke)"
  shows "published ke s \<Longrightarrow> crawl_run ke evs s = Some s' \<Longrightarrow>
    published ke s' \<and> (\<forall>m \<in> set (cs_produced s') - set (cs_produced s). \<exists>ev \<in> set evs. sampled_by ke ev m)"
proof (induction evs arbitrary: s)
  case (Cons ev evs)
  obtain s1 where s1: "crawl_step ke ev s = Some s1" "crawl_run ke evs s1 = Some s'"
    using Cons.prems(2) by (auto split: option.splits)
  show ?case
    using Cons.IH [OF _ s1(2)] crawl_step_published [OF ok Cons.prems(1) s1(1)] by auto
qed simp

text \<open>Every event returns, keeps the table's invariant and bounds the activity list.\<close>

lemma pingOutcome_wf:
  "wf_id (node_ID n) \<Longrightarrow> wf_id (cr_ID (fst reply)) \<Longrightarrow> wf_id (fst (pingOutcome n reply))"
  by (simp add: pingOutcome_def Let_def split: option.split)

lemma crawl_step_safe:
  assumes t: "table_ok (cs_kTable s)" and ev: "event_ok ev"
    and act: "length (cw_activity (cs_runtime s)) \<le> maxActivityEntries"
  shows "\<exists>s'. crawl_step ke ev s = Some s' \<and> table_ok (cs_kTable s') \<and>
    length (cw_activity (cs_runtime s')) \<le> maxActivityEntries"
proof -
  have on: "\<exists>s'. onTable e c u = Some s' \<and> table_ok (cs_kTable s') \<and>
      length (cw_activity (cs_runtime s')) \<le> maxActivityEntries"
    if "cs_kTable u = cs_kTable s" "env_ok e" "wf_id (command_id c)"
      "length (cw_activity (cs_runtime u)) \<le> maxActivityEntries" for u e c
    using onTable_safe [of u e c] that t by fastforce
  show ?thesis
  proof (cases ev)
    case (EvPing now e n reply)
    then have "wf_id (fst (pingOutcome n reply))" using ev by (simp add: pingOutcome_wf)
    then show ?thesis
      using EvPing ev t act on [of s e] on [of "onRuntime (notePeer ke (ap_ip (node_Addr n))) s" e]
      by (auto simp: runPing_def split: prod.split option.split)
  next
    case (EvFindNode e sent n reply)
    then show ?thesis
      using ev t act on [of s e] on [of "onRuntime (noteNodes ke (cr_Nodes (fst reply))) s" e
        "PutNode (node_ID n) (node_Addr n) [NodeResponded]"]
      by (auto simp: runFindNode_def split: option.split)
  next
    case (EvSample now e paused waits sent n reply)
    let ?new = "newHashes ke (cr_Samples (fst reply)) (cs_ignoreHashes s)"
    let ?s1 = "s\<lparr>cs_ignoreHashes := snd ?new,
      cs_produced := cs_produced s @ discoveredMsgs ke now n (take waits (fst ?new))\<rparr>"
    show ?thesis
      using EvSample ev t act on [of s e]
        on [of "onRuntime (noteSampled ke now n (length (fst ?new))) ?s1" e "PutNode (node_ID n) (node_Addr n)
          [NodeResponded, NodeBep51Support True, NodeSampleInfoHashesRes (int (length (fst ?new))) (cr_Num (fst reply))
             (fst e + sampleInterval (length (fst ?new)) (cr_Interval (fst reply)) * second)]"]
        noteSampled_length [OF act]
      by (auto simp: runSampleInfoHashes_def Let_def split: option.split prod.split)
  qed
qed

lemma crawl_run_safe_from:
  "table_ok (cs_kTable s) \<Longrightarrow> length (cw_activity (cs_runtime s)) \<le> maxActivityEntries \<Longrightarrow>
   \<forall>ev \<in> set evs. event_ok ev \<Longrightarrow>
   \<exists>s'. crawl_run ke evs s = Some s' \<and> table_ok (cs_kTable s') \<and>
     length (cw_activity (cs_runtime s')) \<le> maxActivityEntries"
proof (induction evs arbitrary: s)
  case (Cons ev evs)
  obtain s1 where "crawl_step ke ev s = Some s1" "table_ok (cs_kTable s1)"
    "length (cw_activity (cs_runtime s1)) \<le> maxActivityEntries"
    using crawl_step_safe [OF Cons.prems(1) _ Cons.prems(2)] Cons.prems(3) by force
  then show ?case using Cons.IH [of s1] Cons.prems(3) by simp
qed simp

lemma firstByAddr_map_of:
  "map_of (firstByAddr ps m) a =
     (case map_of m a of Some p \<Rightarrow> Some p | None \<Rightarrow> find (\<lambda>p. ap_ip (node_Addr p) = a) ps)"
  by (induction ps m rule: firstByAddr.induct) (auto simp: map_add_def split: option.splits)

lemma firstByAddr_distinct: "distinct (map fst m) \<Longrightarrow> distinct (map fst (firstByAddr ps m))"
  by (induction ps m rule: firstByAddr.induct) (auto simp: map_of_eq_None_iff)

lemma firstByAddr_keys:
  "fst ` set (firstByAddr ps m) = fst ` set m \<union> (\<lambda>p. ap_ip (node_Addr p)) ` set ps"
  by (induction ps m rule: firstByAddr.induct) (auto simp: map_of_eq_None_iff)

lemma find_first_by:
  assumes "p \<in> set ps" shows "\<exists>q. find (\<lambda>q. f q = f p) ps = Some q \<and> f q = f p"
  using assms by (induction ps) auto

lemma batch_run_fifo_from:
  "0 < bc_maxBatchSize ch \<Longrightarrow> int (length (bc_buffer ch)) < bc_maxBatchSize ch \<Longrightarrow>
   \<forall>b. b \<in> set (bc_output ch) \<longrightarrow> b \<noteq> [] \<and> int (length b) \<le> bc_maxBatchSize ch \<Longrightarrow>
   concat (bc_output (batch_run evs ch)) @ bc_buffer (batch_run evs ch) =
     concat (bc_output ch) @ bc_buffer ch @ List.map_filter id evs \<and>
   (\<forall>b. b \<in> set (bc_output (batch_run evs ch)) \<longrightarrow> b \<noteq> [] \<and> int (length b) \<le> bc_maxBatchSize ch) \<and>
   int (length (bc_buffer (batch_run evs ch))) < bc_maxBatchSize ch"
proof (induction evs ch rule: batch_run.induct)
  case (2 x evs ch)
  show ?case
  proof (cases "int (length (bc_buffer ch @ [x])) \<ge> bc_maxBatchSize ch")
    case True
    then have "batch_next x ch = ch\<lparr>bc_buffer := [], bc_output := bc_output ch @ [bc_buffer ch @ [x]]\<rparr>"
      by (simp add: batch_next_def flush_def)
    then show ?thesis using 2 by (simp add: map_filter_simps)
  next
    case False
    then have "batch_next x ch = ch\<lparr>bc_buffer := bc_buffer ch @ [x]\<rparr>" by (simp add: batch_next_def)
    then show ?thesis using 2 False by (simp add: map_filter_simps)
  qed
next
  case (3 evs ch)
  then show ?case by (cases "bc_buffer ch = []") (simp_all add: batch_tick_def flush_def map_filter_simps)
qed (simp add: map_filter_simps)

section \<open>A sample crawler\<close>

definition sampleCrawlEnv :: "bytes list crawl_env" where
  "sampleCrawlEnv = \<lparr>ke_TestAndAdd = (\<lambda>b x. (x \<in> set b, x # b)),
     ke_As16 = (\<lambda>a. case a of IP4 b \<Rightarrow> b | _ \<Rightarrow> []), ke_AddrPortString = (\<lambda>_. ''node''),
     ke_errText = (\<lambda>_. ''timeout''), ke_Itoa = (\<lambda>_. ''some'')\<rparr>"

definition sampleRuntime :: "bytes list crawl_runtime" where
  "sampleRuntime = \<lparr>cw_PeersDiscovered = 0, cw_PeersConnected = 0, cw_SeenConnectedPeers = [],
     cw_SeenDiscoveredPeers = [], cw_activity = []\<rparr>"

definition sampleNode :: node where
  "sampleNode = fst (new_node 1 (sample_id 1) (sample_addr 1) Map.empty)"

definition sampleCrawler :: "table \<Rightarrow> bytes list crawler" where
  "sampleCrawler t = \<lparr>cs_kTable = t, cs_runtime = sampleRuntime, cs_ignoreHashes = [], cs_discovered = [],
     cs_produced = []\<rparr>"

lemma sample_filter: "no_false_negatives (ke_TestAndAdd sampleCrawlEnv)"
  by (simp add: no_false_negatives_def sampleCrawlEnv_def)

lemma sample_ids: "wf_id (sample_id 1)" "sample_id 1 \<noteq> zero_id"
  by code_simp+

text \<open>A table with one node.\<close>

lemma sample_crawl_table:
  obtains t n where "table_ok t" "keyspace_get (tb_nodes t) (sample_id 1) = Some n"
    "keyspace_get (tb_nodes t) zero_id = None" "nd_addr n = sample_addr 1"
proof -
  obtain t n where "table_ok t" "keyspace_get (tb_nodes t) = [sample_id 1 \<mapsto> n]" "nd_addr n = sample_addr 1"
    by (rule sample_table)
  then show thesis using sample_ids by (intro that [of t n]) auto
qed

section \<open>Properties\<close>

text \<open>C30. From a good routing table, whatever the nodes of the network answer to pings, find-node and
  sampling queries, every handler returns without panic, the routing table keeps its invariant and
  the activity list stays within its bound.\<close>

theorem crawl_run_safe:
  assumes "table_ok (cs_kTable s)" "length (cw_activity (cs_runtime s)) \<le> maxActivityEntries"
    "\<forall>ev \<in> set evs. event_ok ev"
  shows "\<exists>s'. crawl_run ke evs s = Some s' \<and> table_ok (cs_kTable s') \<and>
    length (cw_activity (cs_runtime s')) \<le> maxActivityEntries"
  by (rule crawl_run_safe_from [OF assms])

theorem crawl_run_safe_witness:
  "\<exists>s'. crawl_run sampleCrawlEnv [EvFindNode (1, \<lambda>xs. xs) 1 (NodeBase (sample_id 1) (sample_addr 1))
       (zero_result\<lparr>cr_Nodes := [(sample_id 2, sample_addr 2)]\<rparr>, None)]
     (sampleCrawler (ktable_New (sample_id 3))) = Some s' \<and> table_ok (cs_kTable s') \<and>
     length (cw_activity (cs_runtime s')) \<le> maxActivityEntries"
  by (rule crawl_run_safe)
     (simp_all add: sampleCrawler_def sampleRuntime_def maxActivityEntries_def table_ok_New)

text \<open>C31. With a filter that never forgets a key, the crawler publishes no info hash twice in any
  run, and each one it publishes was in a sample it asked for while it was not paused, with the node
  that gave the sample.\<close>

theorem crawl_publishes_once:
  assumes "no_false_negatives (ke_TestAndAdd ke)" "cs_produced s = []" "crawl_run ke evs s = Some s'"
  shows "distinct (map dm_InfoHash (cs_produced s')) \<and>
    (\<forall>m. m \<in> set (cs_produced s') \<longrightarrow> (\<exists>ev. ev \<in> set evs \<and> sampled_by ke ev m))"
  using crawl_run_published [OF assms(1) _ assms(3)] assms(2) by (auto simp: published_def)

theorem crawl_publishes_once_witness:
  "\<exists>s'. crawl_run sampleCrawlEnv (replicate 2 (EvSample 1 (1, \<lambda>xs. xs) False 9 0
       (NodeBase (sample_id 1) (sample_addr 1)) (zero_result\<lparr>cr_Samples := [sample_id 7, sample_id 7]\<rparr>, None)))
     (sampleCrawler (ktable_New (sample_id 3))) = Some s' \<and> distinct (map dm_InfoHash (cs_produced s'))"
proof -
  let ?evs = "replicate 2 (EvSample 1 (1, \<lambda>xs. xs) False 9 0
       (NodeBase (sample_id 1) (sample_addr 1)) (zero_result\<lparr>cr_Samples := [sample_id 7, sample_id 7]\<rparr>, None))"
  obtain s' where s': "crawl_run sampleCrawlEnv ?evs (sampleCrawler (ktable_New (sample_id 3))) = Some s'"
    using crawl_run_safe_from [of "sampleCrawler (ktable_New (sample_id 3))" ?evs sampleCrawlEnv]
    by (auto simp: sampleCrawler_def sampleRuntime_def table_ok_New numeral_2_eq_2)
  then show ?thesis
    using crawl_publishes_once [OF sample_filter _ s'] by (simp add: sampleCrawler_def)
qed

text \<open>A ping of a routing-table node that fails leaves the whole state as it is, so that no number
  of failed pings prunes the node: the handler drops the identifier of an answer that it does not
  have, the zero identifier. A find-node query that fails does drop the node.\<close>

theorem failed_ping_prunes_nothing:
  assumes "table_ok (cs_kTable s)" "keyspace_get (tb_nodes (cs_kTable s)) zero_id = None"
    "wf_id (node_ID n)"
  shows "crawl_run ke (map (\<lambda>(now, e, err). EvPing now e n (res, Some err)) fails) s = Some s \<and>
    (\<exists>t. runFindNode ke e k n (res, Some err) s = Some (s\<lparr>cs_kTable := t\<rparr>) \<and>
       keyspace_get (tb_nodes t) = (keyspace_get (tb_nodes (cs_kTable s)))(node_ID n := None))"
proof
  have "runPing ke now e n (res, Some err) s = Some s" for now e err
    using onTable_drop_absent [OF assms(2)] by (simp add: runPing_def pingOutcome_def)
  then show "crawl_run ke (map (\<lambda>(now, e, err). EvPing now e n (res, Some err)) fails) s = Some s"
    by (induction fails) auto
  obtain t ok where "DropNode_exec (node_ID n) (Some (''find_node failed: '' @ ke_errText ke err))
      (cs_kTable s) = Some (t, ok)"
    "keyspace_get (tb_nodes t) = (keyspace_get (tb_nodes (cs_kTable s)))(node_ID n := None)"
    using DropNode_find [OF assms(1,3)] by metis
  then show "\<exists>t. runFindNode ke e k n (res, Some err) s = Some (s\<lparr>cs_kTable := t\<rparr>) \<and>
       keyspace_get (tb_nodes t) = (keyspace_get (tb_nodes (cs_kTable s)))(node_ID n := None)"
    by (auto simp: runFindNode_def onTable_def)
qed

theorem failed_ping_prunes_nothing_witness:
  "\<exists>t n. keyspace_get (tb_nodes t) (sample_id 1) = Some n \<and> keyspace_get (tb_nodes t) zero_id = None \<and>
     crawl_run sampleCrawlEnv (map (\<lambda>(now, e, err). EvPing now e (TableNode sampleNode) (zero_result, Some err))
       (replicate 100 (86400 * second, (86400 * second, \<lambda>xs. xs), OtherErr ''timeout''))) (sampleCrawler t) =
     Some (sampleCrawler t)"
proof -
  obtain t n where t: "table_ok t" "keyspace_get (tb_nodes t) (sample_id 1) = Some n"
    "keyspace_get (tb_nodes t) zero_id = None" by (rule sample_crawl_table)
  have "wf_id (node_ID (TableNode sampleNode))" by (simp add: sampleNode_def new_node_def)
  with t show ?thesis
    using failed_ping_prunes_nothing [of "sampleCrawler t" "TableNode sampleNode" sampleCrawlEnv zero_result
        "replicate 100 (86400 * second, (86400 * second, \<lambda>xs. xs), OtherErr ''timeout'')"]
    by (auto simp: sampleCrawler_def simp del: map_replicate)
qed

text \<open>Of a batch of discovered nodes exactly one goes on for every address that the routing
  table does not know: the first of the batch with that address.\<close>

theorem unknownNodes_first:
  "distinct (map (\<lambda>p. ap_ip (node_Addr p)) (unknownNodes t ps)) \<and>
   (\<forall>p. p \<in> set (unknownNodes t ps) \<longleftrightarrow>
      tb_addrs t (ap_ip (node_Addr p)) = None \<and>
      find (\<lambda>q. ap_ip (node_Addr q) = ap_ip (node_Addr p)) ps = Some p)"
proof -
  let ?a = "\<lambda>p. ap_ip (node_Addr p)" and ?m = "firstByAddr ps []"
  have first: "map_of ?m a = find (\<lambda>p. ?a p = a) ps" for a by (simp add: firstByAddr_map_of)
  have keys: "?a (the (map_of ?m a)) = a \<and> map_of ?m a \<noteq> None" if k: "a \<in> set (map fst ?m)" for a
  proof -
    obtain p where "p \<in> set ps" "a = ?a p" using k by (auto simp: firstByAddr_keys)
    then show ?thesis using find_first_by [of p ps ?a] by (auto simp: first)
  qed
  have u: "unknownNodes t ps = map (\<lambda>a. the (map_of ?m a)) (filter (\<lambda>a. tb_addrs t a = None) (map fst ?m))"
    by (simp add: unknownNodes_def FilterKnownAddrs_eq Let_def)
  have "map ?a (unknownNodes t ps) = filter (\<lambda>a. tb_addrs t a = None) (map fst ?m)"
    unfolding u map_map by (rule map_idI) (use keys in auto)
  then have "distinct (map ?a (unknownNodes t ps))"
    using firstByAddr_distinct [of "[]" ps] by (simp del: map_map)
  moreover have "p \<in> set (unknownNodes t ps) \<longleftrightarrow> tb_addrs t (?a p) = None \<and> find (\<lambda>q. ?a q = ?a p) ps = Some p" for p
  proof
    assume "p \<in> set (unknownNodes t ps)"
    then obtain a where "a \<in> set (map fst ?m)" "tb_addrs t a = None" "p = the (map_of ?m a)"
      by (auto simp: u)
    then show "tb_addrs t (?a p) = None \<and> find (\<lambda>q. ?a q = ?a p) ps = Some p"
      using keys [of a] first [of a] by auto
  next
    assume p: "tb_addrs t (?a p) = None \<and> find (\<lambda>q. ?a q = ?a p) ps = Some p"
    then have "map_of ?m (?a p) = Some p" by (simp add: first)
    then have "?a p \<in> set (map fst ?m)" by (metis map_of_eq_None_iff option.distinct(1) set_map)
    then show "p \<in> set (unknownNodes t ps)"
      using p \<open>map_of ?m (?a p) = Some p\<close> by (force simp: u)
  qed
  ultimately show ?thesis by blast
qed

text \<open>Through a batching channel every value comes out once and in order, in batches that are
  not empty and not longer than the limit.\<close>

theorem batch_run_fifo:
  assumes "0 < bc_maxBatchSize ch" "bc_buffer ch = []" "bc_output ch = []"
  shows "concat (bc_output (batch_run evs ch)) @ bc_buffer (batch_run evs ch) = List.map_filter id evs \<and>
    (\<forall>b. b \<in> set (bc_output (batch_run evs ch)) \<longrightarrow> b \<noteq> [] \<and> int (length b) \<le> bc_maxBatchSize ch) \<and>
    int (length (bc_buffer (batch_run evs ch))) < bc_maxBatchSize ch"
  using batch_run_fifo_from [of ch evs] assms by simp

theorem batch_run_fifo_witness:
  "concat (bc_output (batch_run [Some 1, Some 2, None, Some (3 :: nat)]
     \<lparr>bc_buffer = [], bc_output = [], bc_maxBatchSize = 2\<rparr>)) = [1, 2] \<and>
   bc_buffer (batch_run [Some 1, Some 2, None, Some (3 :: nat)]
     \<lparr>bc_buffer = [], bc_output = [], bc_maxBatchSize = 2\<rparr>) = [3]"
  using batch_run_fifo [of "\<lparr>bc_buffer = [], bc_output = [], bc_maxBatchSize = 2\<rparr>"
      "[Some 1, Some 2, None, Some (3 :: nat)]"]
  by (simp add: batch_next_def batch_tick_def flush_def)

end
