(* ===== verification/MetainfoCheck.thy ===== *)
theory MetainfoCheck
  imports Prelude
begin

text \<open>
  What is done with the info dictionary of a torrent before it is stored: the normalisation of its
  names in \<open>src/internal/protocol/metainfo/encoding.go\<close> and the checkers of
  \<open>src/internal/protocol/metainfo/banning\<close>.

  \<^item> A Go string is the list of its bytes (\<open>string\<close>); \<open>utf8_runes\<close> and \<open>ValidString\<close> are \<open>range\<close>
    over a string and the function of \<open>unicode/utf8\<close>, written out.
  \<^item> \<open>Info\<close> is a type of the package \<open>torrent/metainfo\<close>: the record has the fields the code reads,
    and its methods are the fields of \<open>info_methods\<close>.
  \<^item> The decoders of \<open>golang.org/x/text\<close> are a list of functions, in the order of \<open>detectionOrder\<close>.
\<close>

section \<open>UTF-8\<close>

definition RuneError :: nat where "RuneError = 65533"

definition contByte :: "nat \<Rightarrow> nat \<Rightarrow> nat \<Rightarrow> bool" where
  "contByte lo hi b \<longleftrightarrow> lo \<le> b \<and> b \<le> hi"

text \<open>\<open>DecodeRune\<close>: the rune and its width; an invalid encoding is \<open>(RuneError, 1)\<close>.\<close>

fun DecodeRune :: "nat list \<Rightarrow> nat \<times> nat" where
  "DecodeRune [] = (RuneError, 0)"
| "DecodeRune (b0 # bs) =
     (if b0 < 128 then (b0, 1)
      else if 194 \<le> b0 \<and> b0 \<le> 223 then
        (case bs of
           b1 # _ \<Rightarrow> if contByte 128 191 b1 then ((b0 - 192) * 64 + (b1 - 128), 2) else (RuneError, 1)
         | [] \<Rightarrow> (RuneError, 1))
      else if 224 \<le> b0 \<and> b0 \<le> 239 then
        (case bs of
           b1 # b2 # _ \<Rightarrow>
             if contByte (if b0 = 224 then 160 else 128) (if b0 = 237 then 159 else 191) b1 \<and>
                contByte 128 191 b2
             then ((b0 - 224) * 4096 + (b1 - 128) * 64 + (b2 - 128), 3) else (RuneError, 1)
         | _ \<Rightarrow> (RuneError, 1))
      else if 240 \<le> b0 \<and> b0 \<le> 244 then
        (case bs of
           b1 # b2 # b3 # _ \<Rightarrow>
             if contByte (if b0 = 240 then 144 else 128) (if b0 = 244 then 143 else 191) b1 \<and>
                contByte 128 191 b2 \<and> contByte 128 191 b3
             then ((b0 - 240) * 262144 + (b1 - 128) * 4096 + (b2 - 128) * 64 + (b3 - 128), 4)
             else (RuneError, 1)
         | _ \<Rightarrow> (RuneError, 1))
      else (RuneError, 1))"

lemma DecodeRune_width: "bs \<noteq> [] \<Longrightarrow> 0 < snd (DecodeRune bs)"
  by (cases bs) (auto split: list.split)

function decodeRunes :: "nat list \<Rightarrow> (nat \<times> nat) list" where
  "decodeRunes [] = []"
| "decodeRunes (b # bs) = DecodeRune (b # bs) # decodeRunes (drop (snd (DecodeRune (b # bs))) (b # bs))"
  by pat_completeness auto
termination
  by (relation "measure length") (use DecodeRune_width in \<open>auto simp del: DecodeRune.simps\<close>)

definition utf8_runes :: "string \<Rightarrow> nat list" where
  "utf8_runes s = map fst (decodeRunes (map of_char s))"

definition ValidString :: "string \<Rightarrow> bool" where
  "ValidString s = list_all (\<lambda>r. r \<noteq> (RuneError, 1)) (decodeRunes (map of_char s))"

section \<open>Info dictionaries\<close>

record file_info =
  fi_Path :: "string list"
  fi_PathUtf8 :: "string list"
  fi_Length :: int

record info =
  in_Name :: string
  in_NameUtf8 :: string
  in_Files :: "file_info list"
  in_Length :: int
  in_Private :: "bool option"

record info_methods =
  im_BestName :: "info \<Rightarrow> string"
  im_TotalLength :: "info \<Rightarrow> int"
  im_BestPath :: "file_info \<Rightarrow> string list"
  im_DisplayPath :: "file_info \<Rightarrow> info \<Rightarrow> string"

section \<open>encoding.go\<close>

type_synonym decoder = "string \<Rightarrow> string option"

text \<open>A decoder gives \<open>None\<close> for an error.\<close>

fun detectIn :: "decoder list \<Rightarrow> string \<Rightarrow> string \<times> bool" where
  "detectIn [] raw = (raw, False)"
| "detectIn (enc # encs) raw =
     (case enc raw of
        Some decoded \<Rightarrow> if ValidString decoded then (decoded, True) else detectIn encs raw
      | None \<Rightarrow> detectIn encs raw)"

definition detectAndDecode :: "decoder list \<Rightarrow> string \<Rightarrow> string \<times> bool" where
  "detectAndDecode detectionOrder raw = (if ValidString raw then (raw, True) else detectIn detectionOrder raw)"

definition normalizeName :: "decoder list \<Rightarrow> info \<Rightarrow> info" where
  "normalizeName encs i =
     (if in_NameUtf8 i = [] \<and> \<not> ValidString (in_Name i) then
        (let (decoded, ok) = detectAndDecode encs (in_Name i) in
         if ok then i\<lparr>in_NameUtf8 := decoded\<rparr> else i)
      else i)"

text \<open>\<open>None\<close> when some part is not converted.\<close>

fun convertParts :: "decoder list \<Rightarrow> string list \<Rightarrow> string list option" where
  "convertParts encs [] = Some []"
| "convertParts encs (p # ps) =
     (if ValidString p then map_option (\<lambda>r. p # r) (convertParts encs ps)
      else (let (decoded, ok) = detectAndDecode encs p in
            if ok then map_option (\<lambda>r. decoded # r) (convertParts encs ps) else None))"

definition normalizeFile :: "decoder list \<Rightarrow> file_info \<Rightarrow> file_info" where
  "normalizeFile encs f =
     (if fi_PathUtf8 f = [] then
        (case convertParts encs (fi_Path f) of
           Some converted \<Rightarrow> f\<lparr>fi_PathUtf8 := converted\<rparr>
         | None \<Rightarrow> f)
      else f)"

definition NormalizeInfo :: "decoder list \<Rightarrow> info \<Rightarrow> info" where
  "NormalizeInfo encs i =
     (let i' = normalizeName encs i in i'\<lparr>in_Files := map (normalizeFile encs) (in_Files i')\<rparr>)"

section \<open>banning\<close>

datatype ban_error = NameTooShort | SizeTooSmall | InvalidUtf8 | Garbage | OtherBan string

type_synonym checker = "info_methods \<Rightarrow> info \<Rightarrow> ban_error option"

definition nameLengthChecker :: "nat \<Rightarrow> checker" where
  "nameLengthChecker mn im i = (if length (im_BestName im i) < mn then Some NameTooShort else None)"

definition sizeChecker :: "int \<Rightarrow> checker" where
  "sizeChecker mn im i = (if im_TotalLength im i < mn then Some SizeTooSmall else None)"

definition checkStrings :: "info_methods \<Rightarrow> info \<Rightarrow> string list" where
  "checkStrings im i = im_BestName im i # map (\<lambda>f. im_DisplayPath im f i) (in_Files i)"

definition utf8Checker :: checker where
  "utf8Checker im i =
     (if list_ex (\<lambda>s. \<not> ValidString s \<or> CHR 0x00 \<in> set s) (checkStrings im i) then Some InvalidUtf8 else None)"

record rune_flags =
  hasCJK :: bool
  hasHalfWidthKana :: bool
  hasASCIILetter :: bool
  hasReplacement :: bool
  hasControl :: bool
  hasPUA :: bool

definition noFlags :: rune_flags where
  "noFlags = \<lparr>hasCJK = False, hasHalfWidthKana = False, hasASCIILetter = False, hasReplacement = False,
     hasControl = False, hasPUA = False\<rparr>"

text \<open>One iteration; \<open>unicode.Is(unicode.Han, r)\<close> is the parameter \<open>isHan\<close>.\<close>

definition flagRune :: "(nat \<Rightarrow> bool) \<Rightarrow> nat \<Rightarrow> rune_flags \<Rightarrow> rune_flags" where
  "flagRune isHan r f =
     (if r = RuneError then f\<lparr>hasReplacement := True\<rparr>
      else if r < 32 \<and> r \<noteq> 9 \<and> r \<noteq> 10 \<and> r \<noteq> 13 then f\<lparr>hasControl := True\<rparr>
      else if 57344 \<le> r \<and> r \<le> 63743 \<or> 983040 \<le> r \<and> r \<le> 1048575 \<or> 1048576 \<le> r \<and> r \<le> 1114111
      then f\<lparr>hasPUA := True\<rparr>
      else if isHan r then f\<lparr>hasCJK := True\<rparr>
      else if 65381 \<le> r \<and> r \<le> 65439 then f\<lparr>hasHalfWidthKana := True\<rparr>
      else if 65 \<le> r \<and> r \<le> 90 \<or> 97 \<le> r \<and> r \<le> 122 then f\<lparr>hasASCIILetter := True\<rparr>
      else f)"

definition containsGarbage :: "(nat \<Rightarrow> bool) \<Rightarrow> string \<Rightarrow> bool" where
  "containsGarbage isHan s =
     (let f = fold (flagRune isHan) (utf8_runes s) noFlags in
      if hasReplacement f \<or> hasControl f \<or> hasPUA f then True
      else if hasCJK f \<and> hasHalfWidthKana f \<and> hasASCIILetter f then True
      else False)"

definition contentChecker :: "(nat \<Rightarrow> bool) \<Rightarrow> checker" where
  "contentChecker isHan im i = (if list_ex (containsGarbage isHan) (checkStrings im i) then Some Garbage else None)"

text \<open>\<open>errors.Join\<close> of the checks: the errors that are not nil, in order; none of them is nil.\<close>

definition combinedChecker :: "checker list \<Rightarrow> info_methods \<Rightarrow> info \<Rightarrow> ban_error list" where
  "combinedChecker cs im i = List.map_filter (\<lambda>c. c im i) cs"

definition banning_New :: "(nat \<Rightarrow> bool) \<Rightarrow> checker list \<Rightarrow> checker list" where
  "banning_New isHan cs = cs @ [nameLengthChecker 8, sizeChecker 1024, utf8Checker, contentChecker isHan]"

section \<open>Lemmas\<close>

definition ctrlRune :: "nat \<Rightarrow> bool" where
  "ctrlRune r \<longleftrightarrow> r < 32 \<and> r \<noteq> 9 \<and> r \<noteq> 10 \<and> r \<noteq> 13"

definition privateRune :: "nat \<Rightarrow> bool" where
  "privateRune r \<longleftrightarrow> 57344 \<le> r \<and> r \<le> 63743 \<or> 983040 \<le> r \<and> r \<le> 1114111"

definition badRune :: "nat \<Rightarrow> bool" where
  "badRune r \<longleftrightarrow> r = RuneError \<or> ctrlRune r \<or> privateRune r"

definition kanaRune :: "nat \<Rightarrow> bool" where
  "kanaRune r \<longleftrightarrow> 65381 \<le> r \<and> r \<le> 65439"

definition letterRune :: "nat \<Rightarrow> bool" where
  "letterRune r \<longleftrightarrow> 65 \<le> r \<and> r \<le> 90 \<or> 97 \<le> r \<and> r \<le> 122"

lemmas rune_classes = ctrlRune_def privateRune_def badRune_def kanaRune_def letterRune_def RuneError_def

lemma flagRune_spec:
  "flagRune isHan r f =
     f\<lparr>hasReplacement := hasReplacement f \<or> r = RuneError, hasControl := hasControl f \<or> ctrlRune r,
       hasPUA := hasPUA f \<or> privateRune r, hasCJK := hasCJK f \<or> \<not> badRune r \<and> isHan r,
       hasHalfWidthKana := hasHalfWidthKana f \<or> kanaRune r \<and> \<not> isHan r,
       hasASCIILetter := hasASCIILetter f \<or> letterRune r \<and> \<not> isHan r\<rparr>"
  by (rule rune_flags.equality) (auto simp: flagRune_def rune_classes)

lemma fold_flags:
  "fold (flagRune isHan) rs f =
     f\<lparr>hasReplacement := hasReplacement f \<or> list_ex (\<lambda>r. r = RuneError) rs, hasControl := hasControl f \<or> list_ex ctrlRune rs,
       hasPUA := hasPUA f \<or> list_ex privateRune rs,
       hasCJK := hasCJK f \<or> list_ex (\<lambda>r. \<not> badRune r \<and> isHan r) rs,
       hasHalfWidthKana := hasHalfWidthKana f \<or> list_ex (\<lambda>r. kanaRune r \<and> \<not> isHan r) rs,
       hasASCIILetter := hasASCIILetter f \<or> list_ex (\<lambda>r. letterRune r \<and> \<not> isHan r) rs\<rparr>"
  by (induction rs arbitrary: f) (auto simp: flagRune_spec)

lemma containsGarbage_iff:
  "containsGarbage isHan s \<longleftrightarrow> list_ex badRune (utf8_runes s) \<or>
     list_ex (\<lambda>r. \<not> badRune r \<and> isHan r) (utf8_runes s) \<and>
     list_ex (\<lambda>r. kanaRune r \<and> \<not> isHan r) (utf8_runes s) \<and>
     list_ex (\<lambda>r. letterRune r \<and> \<not> isHan r) (utf8_runes s)"
proof -
  have "list_ex badRune rs \<longleftrightarrow> list_ex (\<lambda>r. r = RuneError) rs \<or> list_ex ctrlRune rs \<or> list_ex privateRune rs" for rs
    by (induction rs) (auto simp: badRune_def)
  then show ?thesis by (simp add: containsGarbage_def Let_def fold_flags noFlags_def)
qed

lemma map_filter_Nil_iff: "List.map_filter f xs = [] \<longleftrightarrow> (\<forall>x. x \<in> set xs \<longrightarrow> f x = None)"
  by (induction xs) (auto simp: map_filter_simps split: option.splits)

lemma map_filter_append: "List.map_filter f (xs @ ys) = List.map_filter f xs @ List.map_filter f ys"
  by (induction xs) (auto simp: map_filter_simps split: option.split)

lemma combinedChecker_append:
  "combinedChecker (cs @ cs') im i = combinedChecker cs im i @ combinedChecker cs' im i"
  by (simp add: combinedChecker_def map_filter_append)

text \<open>Decoders that never fail, as those of \<open>golang.org/x/text\<close>: what they cannot read becomes
  the replacement character, and what they write is UTF-8.\<close>

definition total_decoder :: "decoder \<Rightarrow> bool" where
  "total_decoder d \<longleftrightarrow> (\<forall>s. \<exists>t. d s = Some t \<and> ValidString t)"

lemma detect_first:
  "total_decoder d \<Longrightarrow> \<not> ValidString raw \<Longrightarrow> detectAndDecode (d # ds) raw = (the (d raw), True)"
  unfolding total_decoder_def detectAndDecode_def by (auto dest: spec [of _ raw])

lemma convertParts_first:
  "total_decoder d \<Longrightarrow>
   convertParts (d # ds) ps = Some (map (\<lambda>p. if ValidString p then p else the (d p)) ps)"
  by (induction ps) (auto simp: detect_first)

lemma normalizeName_first:
  "total_decoder d \<Longrightarrow> normalizeName (d # ds) i =
     (if in_NameUtf8 i = [] \<and> \<not> ValidString (in_Name i) then i\<lparr>in_NameUtf8 := the (d (in_Name i))\<rparr> else i)"
  by (simp add: normalizeName_def detect_first)

lemma NormalizeInfo_first: "total_decoder d \<Longrightarrow> NormalizeInfo (d # ds) i = NormalizeInfo [d] i"
  by (simp add: NormalizeInfo_def normalizeName_first normalizeFile_def convertParts_first)

section \<open>Properties\<close>

text \<open>The banning checks let a torrent pass exactly when the extra checkers do, its name has at
  least eight bytes, its size at least 1024, and neither its name nor the path of a file is invalid
  UTF-8, has a zero byte, a replacement, control or private-use character, or mixes Han characters,
  half-width kana and Latin letters.\<close>

theorem banning_accepts_iff:
  "combinedChecker (banning_New isHan cs) im i = [] \<longleftrightarrow>
     combinedChecker cs im i = [] \<and> 8 \<le> length (im_BestName im i) \<and> 1024 \<le> im_TotalLength im i \<and>
     list_all (\<lambda>s. ValidString s \<and> CHR 0x00 \<notin> set s \<and> list_all (\<lambda>r. \<not> badRune r) (utf8_runes s) \<and>
       \<not> (list_ex (\<lambda>r. \<not> badRune r \<and> isHan r) (utf8_runes s) \<and>
          list_ex (\<lambda>r. kanaRune r \<and> \<not> isHan r) (utf8_runes s) \<and>
          list_ex (\<lambda>r. letterRune r \<and> \<not> isHan r) (utf8_runes s))) (checkStrings im i)"
proof -
  have "combinedChecker [nameLengthChecker 8, sizeChecker 1024, utf8Checker, contentChecker isHan] im i = [] \<longleftrightarrow>
      8 \<le> length (im_BestName im i) \<and> 1024 \<le> im_TotalLength im i \<and>
      \<not> list_ex (\<lambda>s. \<not> ValidString s \<or> CHR 0x00 \<in> set s) (checkStrings im i) \<and>
      \<not> list_ex (containsGarbage isHan) (checkStrings im i)"
    by (simp add: combinedChecker_def map_filter_simps nameLengthChecker_def sizeChecker_def utf8Checker_def
        contentChecker_def not_less)
  then show ?thesis
    by (auto simp: banning_New_def combinedChecker_append containsGarbage_iff list_all_iff list_ex_iff)
qed

text \<open>The first of the decoders decides: as decoders never fail, those after it are never
  tried.  A name in another character set that the first one cannot read is thereby normalised to a
  name with the replacement character, and the torrent is banned for it.\<close>

theorem first_decoder_wins:
  assumes "total_decoder d"
  shows "NormalizeInfo (d # ds) i = NormalizeInfo [d] i \<and>
    (in_NameUtf8 i = [] \<and> \<not> ValidString (in_Name i) \<and> RuneError \<in> set (utf8_runes (the (d (in_Name i)))) \<and>
     im_BestName im (NormalizeInfo (d # ds) i) = in_NameUtf8 (NormalizeInfo (d # ds) i) \<longrightarrow>
     Garbage \<in> set (combinedChecker (banning_New isHan cs) im (NormalizeInfo (d # ds) i)))"
proof -
  let ?i = "NormalizeInfo (d # ds) i"
  have "Garbage \<in> set (combinedChecker (banning_New isHan cs) im ?i)"
    if "in_NameUtf8 i = []" "\<not> ValidString (in_Name i)" "RuneError \<in> set (utf8_runes (the (d (in_Name i))))"
      "im_BestName im ?i = in_NameUtf8 ?i"
  proof -
    have "im_BestName im ?i = the (d (in_Name i))"
      using that by (simp add: NormalizeInfo_def normalizeName_first [OF assms])
    then have "containsGarbage isHan (im_BestName im ?i)"
      using that(3) by (auto simp: containsGarbage_iff list_ex_iff badRune_def)
    then have "contentChecker isHan im ?i = Some Garbage" by (simp add: contentChecker_def checkStrings_def)
    then show ?thesis
      by (auto simp: banning_New_def combinedChecker_append combinedChecker_def map_filter_append map_filter_simps split: option.split)
  qed
  then show ?thesis using NormalizeInfo_first [OF assms] by blast
qed

definition sampleMethods :: info_methods where
  "sampleMethods = \<lparr>im_BestName = (\<lambda>i. if in_NameUtf8 i \<noteq> [] then in_NameUtf8 i else in_Name i),
     im_TotalLength = in_Length, im_BestPath = (\<lambda>f. if fi_PathUtf8 f \<noteq> [] then fi_PathUtf8 f else fi_Path f),
     im_DisplayPath = (\<lambda>f i. concat (fi_Path f))\<rparr>"

text \<open>A name of two bytes that no UTF-8 text has.\<close>

definition gbkInfo :: info where
  "gbkInfo = \<lparr>in_Name = [CHR 0xC4, CHR 0xE3], in_NameUtf8 = [], in_Files = [], in_Length = 5000, in_Private = None\<rparr>"

definition replacing :: decoder where
  "replacing s = Some (if ValidString s then s else [CHR 0xEF, CHR 0xBF, CHR 0xBD])"

lemma replacing_total: "total_decoder replacing"
proof -
  have "ValidString [CHR 0xEF, CHR 0xBF, CHR 0xBD]"
    by (simp add: ValidString_def RuneError_def contByte_def)
  then show ?thesis by (simp add: total_decoder_def replacing_def)
qed

lemma gbkInfo_name:
  "in_NameUtf8 gbkInfo = []" "\<not> ValidString (in_Name gbkInfo)"
  "the (replacing (in_Name gbkInfo)) = [CHR 0xEF, CHR 0xBF, CHR 0xBD]"
  by (simp_all add: gbkInfo_def replacing_def ValidString_def RuneError_def contByte_def)

theorem first_decoder_wins_witness:
  "Garbage \<in> set (combinedChecker (banning_New (\<lambda>_. False) []) sampleMethods (NormalizeInfo [replacing, replacing] gbkInfo))"
proof -
  have n: "in_NameUtf8 gbkInfo = []" "\<not> ValidString (in_Name gbkInfo)"
    "RuneError \<in> set (utf8_runes (the (replacing (in_Name gbkInfo))))"
    by (simp_all add: gbkInfo_name) (simp add: utf8_runes_def RuneError_def contByte_def)
  have "normalizeName [replacing, replacing] gbkInfo = gbkInfo\<lparr>in_NameUtf8 := the (replacing (in_Name gbkInfo))\<rparr>"
    using n by (simp add: normalizeName_first [OF replacing_total])
  moreover have "the (replacing (in_Name gbkInfo)) \<noteq> []" by (simp add: gbkInfo_name)
  ultimately have "im_BestName sampleMethods (NormalizeInfo [replacing, replacing] gbkInfo) =
      in_NameUtf8 (NormalizeInfo [replacing, replacing] gbkInfo)"
    by (simp add: NormalizeInfo_def sampleMethods_def)
  then show ?thesis using first_decoder_wins [OF replacing_total] n by blast
qed

end
