(* ===== verification/TorrentDb.thy ===== *)
theory TorrentDb
  imports RetryQueue MetainfoRequester ContentMatch VideoParser
begin

text \<open>
  The tables that the pipeline and the processor share, as the migrations of
  \<open>src/database/migrations\<close> leave them and the queries of \<open>src/internal/database/db/sqlc\<close> use them,
  the conversions of \<open>src/internal/database/db/mapping.go\<close>, and the manager of blocked info hashes
  of \<open>src/internal/blocking\<close>.

  \<^item> A table is a map from its primary key to its row.  Text is a list of runes, a number keeps the
    width of its Go type, \<open>NULL\<close> is \<open>None\<close>.
  \<^item> A query that would break a foreign key or a check of the schema fails and changes nothing;
    deleting a torrent deletes what refers to it.
  \<^item> Every query can also fail for a reason of its own (a lost connection): \<open>td_faults\<close> says which
    of the coming queries do.  The files of a torrent are an association list by index.  A transaction whose commit fails is rolled back.
  \<^item> Columns no code of the model reads are left out (overview, popularity and votes of content).
\<close>

section \<open>Tables\<close>

record torrents_row =
  tw_name :: runes
  tw_size :: int
  tw_private :: bool
  tw_files_count :: "int option"
  tw_content_type :: "content_type option"
  tw_content_source :: "runes option"
  tw_content_id :: "runes option"
  tw_languages :: "lang fset option"
  tw_tsv :: runes
  tw_created_at :: int
  tw_updated_at :: int

record file_row =
  fw_path_parts :: "runes list"
  fw_size :: int

record seeders_row =
  sw_seeders :: "int option"
  sw_leechers :: "int option"

record content_row =
  ow_title :: runes
  ow_release_date :: "date option"
  ow_adult :: "bool option"
  ow_tsv :: runes

type_synonym content_ref = "content_type \<times> runes \<times> runes"

datatype db_error = DbFault string | ForeignKey | CheckFailed

record torrent_db =
  td_torrents :: "string \<Rightarrow> torrents_row option"
  td_files :: "string \<Rightarrow> (int \<times> file_row) list"
  td_seeders :: "string \<Rightarrow> seeders_row option"
  td_content :: "content_ref \<Rightarrow> content_row option"
  td_blocked :: "string \<Rightarrow> string option"
  td_faults :: "string option list"

type_synonym query = "torrent_db \<Rightarrow> db_error option \<times> torrent_db"

text \<open>The fault of the next query, if it has one.\<close>

definition nextFault :: "torrent_db \<Rightarrow> string option \<times> torrent_db" where
  "nextFault db = (case td_faults db of [] \<Rightarrow> (None, db) | f # fs \<Rightarrow> (f, db\<lparr>td_faults := fs\<rparr>))"

definition exec :: "(torrent_db \<Rightarrow> db_error + torrent_db) \<Rightarrow> query" where
  "exec upd db = (case nextFault db of
     (Some e, db') \<Rightarrow> (Some (DbFault e), db')
   | (None, db') \<Rightarrow> (case upd db' of Inl e \<Rightarrow> (Some e, db') | Inr db'' \<Rightarrow> (None, db'')))"

section \<open>Queries\<close>

text \<open>The foreign key of a row of torrents to content holds when one of its columns is \<open>NULL\<close>.\<close>

definition contentKeyOk :: "(content_ref \<Rightarrow> content_row option) \<Rightarrow> torrents_row \<Rightarrow> bool" where
  "contentKeyOk rows r \<longleftrightarrow> (case (tw_content_type r, tw_content_source r, tw_content_id r) of
     (Some ct, Some src, Some i) \<Rightarrow> rows (ct, src, i) \<noteq> None | _ \<Rightarrow> True)"

definition contentChecksOk :: "torrents_row \<Rightarrow> bool" where
  "contentChecksOk r \<longleftrightarrow> (tw_content_type r \<noteq> None \<or> tw_content_id r = None) \<and>
     (tw_content_source r = None \<or> tw_content_id r \<noteq> None)"

record upsert_torrent_params =
  ut_InfoHash :: string
  ut_Name :: runes
  ut_Size :: int
  ut_Private :: bool
  ut_FilesCount :: "int option"

definition UpsertTorrent :: "int \<Rightarrow> upsert_torrent_params \<Rightarrow> query" where
  "UpsertTorrent now p = exec (\<lambda>db.
     let r = (case td_torrents db (ut_InfoHash p) of
           None \<Rightarrow> \<lparr>tw_name = ut_Name p, tw_size = ut_Size p, tw_private = ut_Private p,
             tw_files_count = ut_FilesCount p, tw_content_type = None, tw_content_source = None,
             tw_content_id = None, tw_languages = None, tw_tsv = [], tw_created_at = now, tw_updated_at = now\<rparr>
         | Some r \<Rightarrow> r\<lparr>tw_name := ut_Name p, tw_size := ut_Size p, tw_private := ut_Private p,
             tw_files_count := ut_FilesCount p, tw_updated_at := now\<rparr>) in
     Inr (db\<lparr>td_torrents := (td_torrents db)(ut_InfoHash p \<mapsto> r)\<rparr>))"

record update_content_params =
  uc_InfoHash :: string
  uc_ContentType :: "content_type option"
  uc_ContentSource :: "runes option"
  uc_ContentID :: "runes option"
  uc_Languages :: "lang fset option"
  uc_Tsv :: runes

definition UpdateTorrentContent :: "int \<Rightarrow> update_content_params \<Rightarrow> query" where
  "UpdateTorrentContent now p = exec (\<lambda>db.
     (case td_torrents db (uc_InfoHash p) of
        None \<Rightarrow> Inr db
      | Some r0 \<Rightarrow>
          (let r = r0\<lparr>tw_content_type := uc_ContentType p, tw_content_source := uc_ContentSource p,
               tw_content_id := uc_ContentID p, tw_languages := uc_Languages p, tw_tsv := uc_Tsv p,
               tw_updated_at := now\<rparr> in
           if \<not> contentChecksOk r then Inl CheckFailed
           else if \<not> contentKeyOk (td_content db) r then Inl ForeignKey
           else Inr (db\<lparr>td_torrents := (td_torrents db)(uc_InfoHash p \<mapsto> r)\<rparr>))))"

text \<open>\<open>GREATEST\<close> ignores \<open>NULL\<close>.\<close>

definition greatest :: "int option \<Rightarrow> int option \<Rightarrow> int option" where
  "greatest a b = (case (a, b) of (None, _) \<Rightarrow> b | (_, None) \<Rightarrow> a | (Some x, Some y) \<Rightarrow> Some (max x y))"

definition UpdateTorrentSeeders :: "string \<Rightarrow> int option \<Rightarrow> int option \<Rightarrow> query" where
  "UpdateTorrentSeeders h seeders leechers = exec (\<lambda>db.
     if td_torrents db h = None then Inl ForeignKey
     else Inr (db\<lparr>td_seeders := (td_seeders db)(h \<mapsto>
       (case td_seeders db h of
          None \<Rightarrow> \<lparr>sw_seeders = seeders, sw_leechers = leechers\<rparr>
        | Some s \<Rightarrow> \<lparr>sw_seeders = greatest (sw_seeders s) seeders, sw_leechers = greatest (sw_leechers s) leechers\<rparr>))\<rparr>))"

definition DeleteTorrent :: "string \<Rightarrow> query" where
  "DeleteTorrent h = exec (\<lambda>db. Inr (db\<lparr>td_torrents := (td_torrents db)(h := None),
     td_files := (td_files db)(h := []),
     td_seeders := (td_seeders db)(h := None)\<rparr>))"

definition UpsertTorrentFile :: "string \<Rightarrow> int \<Rightarrow> runes list \<Rightarrow> int \<Rightarrow> query" where
  "UpsertTorrentFile h i parts sz = exec (\<lambda>db.
     if td_torrents db h = None then Inl ForeignKey
     else Inr (db\<lparr>td_files := (td_files db)(h :=
       AList.update i \<lparr>fw_path_parts = parts, fw_size = sz\<rparr> (td_files db h))\<rparr>))"

definition UpsertContent :: "content_ref \<Rightarrow> content_row \<Rightarrow> query" where
  "UpsertContent ref r = exec (\<lambda>db. Inr (db\<lparr>td_content := (td_content db)(ref \<mapsto> r)\<rparr>))"

definition UpsertBlockedInfoHash :: "string \<Rightarrow> string \<Rightarrow> query" where
  "UpsertBlockedInfoHash h reason = exec (\<lambda>db. Inr (db\<lparr>td_blocked := (td_blocked db)(h \<mapsto> reason)\<rparr>))"

definition DeleteBlockedInfoHash :: "string \<Rightarrow> query" where
  "DeleteBlockedInfoHash h = exec (\<lambda>db. Inr (db\<lparr>td_blocked := (td_blocked db)(h := None)\<rparr>))"

definition GetBlockedInfoHashes :: "string list \<Rightarrow> torrent_db \<Rightarrow> (db_error + string list) \<times> torrent_db" where
  "GetBlockedInfoHashes hs db = (case nextFault db of
     (Some e, db') \<Rightarrow> (Inl (DbFault e), db')
   | (None, db') \<Rightarrow> (Inr (remdups (filter (\<lambda>h. td_blocked db' h \<noteq> None) hs)), db'))"

definition GetTorrent ::
  "string \<Rightarrow> torrent_db \<Rightarrow> (db_error + (torrents_row \<times> seeders_row option) option) \<times> torrent_db" where
  "GetTorrent h db = (case nextFault db of
     (Some e, db') \<Rightarrow> (Inl (DbFault e), db')
   | (None, db') \<Rightarrow> (Inr (map_option (\<lambda>r. (r, td_seeders db' h)) (td_torrents db' h)), db'))"

definition ListTorrentFiles :: "string \<Rightarrow> torrent_db \<Rightarrow> (db_error + (int \<times> file_row) list) \<times> torrent_db" where
  "ListTorrentFiles h db = (case nextFault db of
     (Some e, db') \<Rightarrow> (Inl (DbFault e), db')
   | (None, db') \<Rightarrow> (Inr (sort_key fst (td_files db' h)), db'))"

text \<open>A transaction: \<open>Begin\<close>, statements until one fails, \<open>Commit\<close>; otherwise a rollback.\<close>

fun runAll :: "query list \<Rightarrow> query" where
  "runAll [] db = (None, db)"
| "runAll (q # qs) db = (case q db of (Some e, db') \<Rightarrow> (Some e, db') | (None, db') \<Rightarrow> runAll qs db')"

definition rolledBack :: "torrent_db \<Rightarrow> torrent_db \<Rightarrow> torrent_db" where
  "rolledBack db db' = db\<lparr>td_faults := td_faults db'\<rparr>"

definition transaction :: "query list \<Rightarrow> query" where
  "transaction qs db = (case nextFault db of
     (Some e, db1) \<Rightarrow> (Some (DbFault e), db1)
   | (None, db1) \<Rightarrow> (case runAll qs db1 of
       (Some e, db2) \<Rightarrow> (Some e, rolledBack db db2)
     | (None, db2) \<Rightarrow> (case nextFault db2 of
         (Some e, db3) \<Rightarrow> (Some (DbFault e), rolledBack db db3)
       | (None, db3) \<Rightarrow> (None, db3))))"

section \<open>blocking/manager.go\<close>

definition blocking_Filter :: "ID list \<Rightarrow> torrent_db \<Rightarrow> (db_error + ID list) \<times> torrent_db" where
  "blocking_Filter hashes db =
     (if hashes = [] then (Inr [], db)
      else (case GetBlockedInfoHashes (map id_String hashes) db of
              (Inl e, db') \<Rightarrow> (Inl e, db')
            | (Inr blocked, db') \<Rightarrow> (Inr (filter (\<lambda>h. id_String h \<notin> set blocked) hashes), db')))"

definition blocking_Block :: "ID \<Rightarrow> string \<Rightarrow> query" where
  "blocking_Block h reason = UpsertBlockedInfoHash (id_String h) reason"

definition blocking_Unblock :: "ID \<Rightarrow> query" where
  "blocking_Unblock h = DeleteBlockedInfoHash (id_String h)"

section \<open>model.Torrent and mapping.go\<close>

record torrent_file =
  tf_Index :: "64 word"
  tf_PathParts :: "runes list"
  tf_Size :: "64 word"

record torrent =
  to_InfoHash :: ID
  to_Name :: runes
  to_Size :: "64 word"
  to_Private :: bool
  to_FilesCount :: "64 word option"
  to_ContentType :: "content_type option"
  to_ContentSource :: "runes option"
  to_ContentID :: "runes option"
  to_Languages :: "lang fset option"
  to_Tsv :: tsvector
  to_Seeders :: "64 word option"
  to_Leechers :: "64 word option"
  to_Files :: "torrent_file list"

text \<open>\<open>ClampInt32\<close> of an unsigned value, and the conversion \<open>int32(v)\<close>, which wraps.\<close>

definition ClampUint :: "64 word \<Rightarrow> int" where
  "ClampUint v = min (uint v) (2 ^ 31 - 1)"

definition FromUintToInt32Ptr :: "64 word \<Rightarrow> int option" where
  "FromUintToInt32Ptr v = Some (int32 (uint v))"

definition toNullUint :: "int option \<Rightarrow> 64 word option" where
  "toNullUint v = map_option word_of_int v"

definition fromNullUint :: "64 word option \<Rightarrow> int option" where
  "fromNullUint v = map_option ClampUint v"

definition parseTsv :: "unicode \<Rightarrow> runes \<Rightarrow> tsvector option" where
  "parseTsv u s = (case ParseTsvector u s of None \<Rightarrow> None | Some (Inl _) \<Rightarrow> Some fmempty | Some (Inr v) \<Rightarrow> Some v)"

text \<open>\<open>ToProtocolID\<close> panics on a text that is not an identifier: \<open>None\<close>.\<close>

definition ToProtocolID :: "string \<Rightarrow> ID option" where
  "ToProtocolID s = (case ParseID s of Inl _ \<Rightarrow> None | Inr i \<Rightarrow> Some i)"

definition TorrentToModel :: "unicode \<Rightarrow> string \<Rightarrow> torrents_row \<Rightarrow> int option \<Rightarrow> int option \<Rightarrow> torrent option" where
  "TorrentToModel u h r seeders leechers =
     (case (ToProtocolID h, parseTsv u (tw_tsv r)) of
        (Some i, Some tsv) \<Rightarrow> Some
          \<lparr>to_InfoHash = i, to_Name = tw_name r, to_Size = word_of_int (tw_size r), to_Private = tw_private r,
           to_FilesCount = toNullUint (tw_files_count r), to_ContentType = tw_content_type r,
           to_ContentSource = tw_content_source r, to_ContentID = tw_content_id r,
           to_Languages = tw_languages r, to_Tsv = tsv, to_Seeders = toNullUint seeders,
           to_Leechers = toNullUint leechers, to_Files = []\<rparr>
      | _ \<Rightarrow> None)"

definition TorrentToUpsertParams :: "torrent \<Rightarrow> upsert_torrent_params" where
  "TorrentToUpsertParams t = \<lparr>ut_InfoHash = id_String (to_InfoHash t), ut_Name = to_Name t,
     ut_Size = sint (to_Size t), ut_Private = to_Private t, ut_FilesCount = fromNullUint (to_FilesCount t)\<rparr>"

definition TorrentToUpdateContentParams :: "torrent \<Rightarrow> update_content_params" where
  "TorrentToUpdateContentParams t = \<lparr>uc_InfoHash = id_String (to_InfoHash t), uc_ContentType = to_ContentType t,
     uc_ContentSource = to_ContentSource t, uc_ContentID = to_ContentID t, uc_Languages = to_Languages t,
     uc_Tsv = tsvector_String (to_Tsv t)\<rparr>"

definition dateToPGDate :: "date \<Rightarrow> date option" where
  "dateToPGDate d = (if date_IsNil d then None else Some d)"

definition content_Ref :: "content \<Rightarrow> content_ref" where
  "content_Ref c = (ct_Type c, ct_Source c, ct_ID c)"

definition ContentToUpsertParams :: "content \<Rightarrow> tsvector \<Rightarrow> content_row" where
  "ContentToUpsertParams c tsv = \<lparr>ow_title = ct_Title c, ow_release_date = dateToPGDate (ct_ReleaseDate c),
     ow_adult = ct_Adult c, ow_tsv = tsvector_String tsv\<rparr>"

definition upsertFile :: "ID \<Rightarrow> torrent_file \<Rightarrow> query" where
  "upsertFile i f = UpsertTorrentFile (id_String i) (int32 (uint (tf_Index f))) (tf_PathParts f) (sint (tf_Size f))"

definition TorrentFileToModel :: "int \<times> file_row \<Rightarrow> torrent_file" where
  "TorrentFileToModel f = \<lparr>tf_Index = word_of_int (fst f), tf_PathParts = fw_path_parts (snd f),
     tf_Size = word_of_int (fw_size (snd f))\<rparr>"

section \<open>torrent\_load.go and search\_torrents.go\<close>

text \<open>\<open>None\<close> is the panic of \<open>ToProtocolID\<close>.\<close>

definition TorrentWithFiles ::
  "unicode \<Rightarrow> string \<Rightarrow> torrents_row \<times> seeders_row option \<Rightarrow> torrent_db \<Rightarrow>
   ((db_error + torrent) \<times> torrent_db) option" where
  "TorrentWithFiles u h rs db =
     (let s = snd rs;
          seeders = (case s of None \<Rightarrow> None | Some x \<Rightarrow> sw_seeders x);
          leechers = (case s of None \<Rightarrow> None | Some x \<Rightarrow> sw_leechers x) in
      case TorrentToModel u h (fst rs) seeders leechers of
        None \<Rightarrow> None
      | Some t \<Rightarrow> Some (case ListTorrentFiles h db of
            (Inl e, db') \<Rightarrow> (Inl e, db')
          | (Inr files, db') \<Rightarrow> (Inr (t\<lparr>to_Files := map TorrentFileToModel files\<rparr>), db')))"

text \<open>The rows come in some order; each info hash has at most one.\<close>

definition ListTorrentsByInfoHashes ::
  "string list \<Rightarrow> torrent_db \<Rightarrow> (db_error + (string \<times> torrents_row \<times> seeders_row option) list) \<times> torrent_db" where
  "ListTorrentsByInfoHashes hs db = (case nextFault db of
     (Some e, db') \<Rightarrow> (Inl (DbFault e), db')
   | (None, db') \<Rightarrow> (Inr (List.map_filter (\<lambda>h. map_option (\<lambda>r. (h, r, td_seeders db' h)) (td_torrents db' h))
       (remdups hs)), db'))"

fun loadAll ::
  "unicode \<Rightarrow> (string \<times> torrents_row \<times> seeders_row option) list \<Rightarrow> (string \<times> torrent) list \<Rightarrow> torrent_db \<Rightarrow>
   ((db_error + (string \<times> torrent) list) \<times> torrent_db) option" where
  "loadAll u [] found db = Some (Inr found, db)"
| "loadAll u ((h, rs) # rows) found db = (case TorrentWithFiles u h rs db of
     None \<Rightarrow> None
   | Some (Inl e, db') \<Rightarrow> Some (Inl e, db')
   | Some (Inr t, db') \<Rightarrow> loadAll u rows (AList.update h t found) db')"

definition TorrentsWithMissingInfoHashes ::
  "unicode \<Rightarrow> string list \<Rightarrow> torrent_db \<Rightarrow> ((db_error + torrent list \<times> string list) \<times> torrent_db) option" where
  "TorrentsWithMissingInfoHashes u hs db = (case ListTorrentsByInfoHashes hs db of
     (Inl e, db') \<Rightarrow> Some (Inl e, db')
   | (Inr rows, db') \<Rightarrow> (case loadAll u rows [] db' of
       None \<Rightarrow> None
     | Some (Inl e, db'') \<Rightarrow> Some (Inl e, db'')
     | Some (Inr found, db'') \<Rightarrow>
         Some (Inr (List.map_filter (map_of found) hs, filter (\<lambda>h. map_of found h = None) hs), db'')))"

section \<open>Integrity of the tables\<close>

definition db_ok :: "torrent_db \<Rightarrow> bool" where
  "db_ok db \<longleftrightarrow>
     (\<forall>h. td_torrents db h = None \<longrightarrow> td_files db h = [] \<and> td_seeders db h = None) \<and>
     (\<forall>h. distinct (map fst (td_files db h))) \<and>
     (\<forall>h r. td_torrents db h = Some r \<longrightarrow> contentChecksOk r \<and> contentKeyOk (td_content db) r)"

definition keeps :: "query \<Rightarrow> bool" where
  "keeps q \<longleftrightarrow> (\<forall>db. db_ok db \<longrightarrow> db_ok (snd (q db)))"

lemma nextFault_tables [simp]:
  assumes "nextFault db = (f, db')"
  shows "td_torrents db' = td_torrents db" "td_files db' = td_files db" "td_seeders db' = td_seeders db"
    "td_content db' = td_content db" "td_blocked db' = td_blocked db"
  using assms by (auto simp: nextFault_def split: list.splits)

lemma db_ok_cong:
  assumes "td_torrents db' = td_torrents db" "td_files db' = td_files db" "td_seeders db' = td_seeders db"
    "td_content db' = td_content db"
  shows "db_ok db' = db_ok db"
  unfolding db_ok_def assms by (rule refl)

lemma nextFault_ok [simp]: "nextFault db = (f, db') \<Longrightarrow> db_ok db' = db_ok db"
  by (rule db_ok_cong) simp_all

text \<open>The foreign key looks at three columns, and content is never deleted.\<close>

lemma contentKeyOk_fields [simp]:
  "contentKeyOk rows (r\<lparr>tw_name := n, tw_size := z, tw_private := p, tw_files_count := c, tw_updated_at := t\<rparr>) =
     contentKeyOk rows r"
  "contentChecksOk (r\<lparr>tw_name := n, tw_size := z, tw_private := p, tw_files_count := c, tw_updated_at := t\<rparr>) =
     contentChecksOk r"
  by (simp_all add: contentKeyOk_def contentChecksOk_def)

lemma contentKeyOk_none [simp]:
  "tw_content_type r = None \<Longrightarrow> contentKeyOk rows r"
  "tw_content_type r = None \<Longrightarrow> tw_content_source r = None \<Longrightarrow> tw_content_id r = None \<Longrightarrow> contentChecksOk r"
  by (simp_all add: contentKeyOk_def contentChecksOk_def)

lemma contentKeyOk_more: "contentKeyOk rows r \<Longrightarrow> contentKeyOk (rows(ref \<mapsto> x)) r"
  by (auto simp: contentKeyOk_def split: option.splits)

lemma keeps_exec:
  assumes "\<And>db db'. db_ok db \<Longrightarrow> upd db = Inr db' \<Longrightarrow> db_ok db'"
  shows "keeps (exec upd)"
  unfolding keeps_def exec_def
  by (auto split: prod.split option.split sum.split) (metis assms nextFault_ok)

lemma keeps_UpsertTorrent: "keeps (UpsertTorrent now p)"
  unfolding UpsertTorrent_def by (rule keeps_exec) (auto simp: db_ok_def Let_def split: option.splits if_splits)

lemma keeps_UpdateTorrentContent: "keeps (UpdateTorrentContent now p)"
  unfolding UpdateTorrentContent_def
  by (rule keeps_exec) (auto simp: db_ok_def Let_def split: option.splits if_splits)

lemma keeps_UpdateTorrentSeeders: "keeps (UpdateTorrentSeeders h s l)"
  unfolding UpdateTorrentSeeders_def by (rule keeps_exec) (auto simp: db_ok_def split: if_splits)

lemma keeps_DeleteTorrent: "keeps (DeleteTorrent h)"
  unfolding DeleteTorrent_def by (rule keeps_exec) (auto simp: db_ok_def split: if_splits)

lemma keeps_UpsertTorrentFile: "keeps (UpsertTorrentFile h i parts sz)"
  unfolding UpsertTorrentFile_def
  by (rule keeps_exec) (auto simp: db_ok_def distinct_update split: if_splits)

lemma keeps_UpsertContent: "keeps (UpsertContent ref r)"
  unfolding UpsertContent_def by (rule keeps_exec) (auto simp: db_ok_def contentKeyOk_more)

lemma keeps_blocked: "keeps (UpsertBlockedInfoHash h reason)" "keeps (DeleteBlockedInfoHash h)"
  unfolding UpsertBlockedInfoHash_def DeleteBlockedInfoHash_def
  by (rule keeps_exec; auto simp: db_ok_def)+

lemma keeps_runAll: "\<forall>q \<in> set qs. keeps q \<Longrightarrow> keeps (runAll qs)"
  by (induction qs) (auto simp: keeps_def split: prod.split option.split)

lemma rolledBack_tables [simp]:
  "td_torrents (rolledBack db db') = td_torrents db" "td_files (rolledBack db db') = td_files db"
  "td_seeders (rolledBack db db') = td_seeders db" "td_content (rolledBack db db') = td_content db"
  "td_blocked (rolledBack db db') = td_blocked db"
  by (simp_all add: rolledBack_def)

lemma keeps_transaction: "\<forall>q \<in> set qs. keeps q \<Longrightarrow> keeps (transaction qs)"
proof -
  assume "\<forall>q \<in> set qs. keeps q"
  then have k: "keeps (runAll qs)" by (rule keeps_runAll)
  have "db_ok (rolledBack db db') = db_ok db" for db db' by (rule db_ok_cong) simp_all
  then show ?thesis
    using k unfolding keeps_def transaction_def
    by (auto split: prod.split option.split) (metis nextFault_ok snd_conv)
qed

lemmas keeps_rules = keeps_UpsertTorrent keeps_UpdateTorrentContent keeps_UpdateTorrentSeeders
  keeps_DeleteTorrent keeps_UpsertTorrentFile keeps_UpsertContent keeps_blocked keeps_transaction

definition same_tables :: "torrent_db \<Rightarrow> torrent_db \<Rightarrow> bool" where
  "same_tables db' db \<longleftrightarrow> td_torrents db' = td_torrents db \<and> td_files db' = td_files db \<and>
     td_seeders db' = td_seeders db \<and> td_content db' = td_content db \<and> td_blocked db' = td_blocked db"

lemma same_tables_refl [simp]: "same_tables db db"
  by (simp add: same_tables_def)

lemma nextFault_same [simp]: "nextFault db = (f, db') \<Longrightarrow> same_tables db' db"
  by (simp add: same_tables_def)

lemma exec_failed: "exec upd db = (Some e, db') \<Longrightarrow> same_tables db' db"
  by (auto simp: exec_def split: prod.splits option.splits sum.splits)

text \<open>A failed transaction changes no table.\<close>

lemma transaction_failed: "transaction qs db = (Some e, db') \<Longrightarrow> same_tables db' db"
  by (auto simp: transaction_def split: prod.splits option.splits) (simp_all add: same_tables_def)

lemma same_tables_ok: "same_tables db' db \<Longrightarrow> db_ok db' = db_ok db"
  by (rule db_ok_cong) (simp_all add: same_tables_def)

text \<open>The statements of the program, and its transactions.\<close>

inductive program_query :: "query \<Rightarrow> bool" where
  "program_query (UpsertTorrent now p)"
| "program_query (UpdateTorrentContent now c)"
| "program_query (UpdateTorrentSeeders h seeders leechers)"
| "program_query (DeleteTorrent h)"
| "program_query (UpsertTorrentFile h i parts sz)"
| "program_query (UpsertContent ref row)"
| "program_query (UpsertBlockedInfoHash h reason)"
| "program_query (DeleteBlockedInfoHash h)"
| "(\<And>q. q \<in> set qs \<Longrightarrow> program_query q) \<Longrightarrow> program_query (transaction qs)"

lemma program_query_keeps: "program_query q \<Longrightarrow> keeps q"
  by (induction rule: program_query.induct) (auto intro: keeps_rules)

lemmas query_defs = UpsertTorrent_def UpdateTorrentContent_def UpdateTorrentSeeders_def DeleteTorrent_def
  UpsertTorrentFile_def UpsertContent_def UpsertBlockedInfoHash_def DeleteBlockedInfoHash_def

lemma program_query_failed: "program_query q \<Longrightarrow> q db = (Some e, db') \<Longrightarrow> same_tables db' db"
  by (induction arbitrary: db db' e rule: program_query.induct)
     (auto simp: query_defs dest: exec_failed transaction_failed)

section \<open>Properties\<close>


definition emptyDb :: torrent_db where
  "emptyDb = \<lparr>td_torrents = (\<lambda>_. None), td_files = (\<lambda>_. []), td_seeders = (\<lambda>_. None),
     td_content = (\<lambda>_. None), td_blocked = (\<lambda>_. None), td_faults = []\<rparr>"

lemma emptyDb_ok [simp]: "db_ok (emptyDb\<lparr>td_faults := fs\<rparr>)"
  by (simp add: db_ok_def emptyDb_def)

definition sampleParams :: upsert_torrent_params where
  "sampleParams = \<lparr>ut_InfoHash = ''aa'', ut_Name = runes_of ''name'', ut_Size = 10, ut_Private = False,
     ut_FilesCount = Some 1\<rparr>"



definition sampleHash :: "byte \<Rightarrow> ID" where
  "sampleHash b = replicate 19 0 @ [b]"

lemma sampleHash_simps [simp]: "wf_id (sampleHash b)" "sampleHash a = sampleHash b \<longleftrightarrow> a = b"
  by (simp_all add: wf_id_def sampleHash_def)

definition sampleTorrent :: torrent where
  "sampleTorrent = \<lparr>to_InfoHash = sampleHash 1, to_Name = runes_of ''name'', to_Size = 2 ^ 63 + 1,
     to_Private = False, to_FilesCount = Some 3, to_ContentType = None, to_ContentSource = None,
     to_ContentID = None, to_Languages = None, to_Tsv = fmempty, to_Seeders = None, to_Leechers = None,
     to_Files = []\<rparr>"


text \<open>The manager of blocked info hashes lets through exactly those that are not blocked, in
  their order; blocking and unblocking an info hash decides for it and for no other.\<close>

theorem blocking_Filter_exact:
  assumes "td_faults db = []"
  shows "fst (blocking_Filter hashes db) = Inr (filter (\<lambda>h. td_blocked db (id_String h) = None) hashes) \<and>
    fst (blocking_Filter hashes (snd (blocking_Block x reason db))) =
      Inr (filter (\<lambda>h. td_blocked db (id_String h) = None \<and> h \<noteq> x) hashes) \<and>
    fst (blocking_Filter hashes (snd (blocking_Unblock x db))) =
      Inr (filter (\<lambda>h. td_blocked db (id_String h) = None \<or> h = x) hashes)"
proof -
  have f: "fst (blocking_Filter hashes d) = Inr (filter (\<lambda>h. td_blocked d (id_String h) = None) hashes)"
    if "td_faults d = []" for d
    using that by (auto simp: blocking_Filter_def GetBlockedInfoHashes_def nextFault_def intro: filter_cong)
  show ?thesis
    using assms
    by (auto simp: f blocking_Block_def blocking_Unblock_def UpsertBlockedInfoHash_def DeleteBlockedInfoHash_def
        exec_def nextFault_def intro!: filter_cong)
qed

theorem blocking_Filter_exact_witness:
  "fst (blocking_Filter [sampleHash 1, sampleHash 2] (snd (blocking_Block (sampleHash 1) ''bad'' emptyDb))) =
     Inr [sampleHash 2]"
proof -
  have "sampleHash 2 \<noteq> sampleHash 1" by simp
  then show ?thesis
    using blocking_Filter_exact [of emptyDb "[sampleHash 1, sampleHash 2]" "sampleHash 1" "''bad''"]
    by (simp add: emptyDb_def)
qed

end
