(* ===== verification/Pipeline.thy ===== *)
theory Pipeline
  imports Crawler MetainfoCheck TorrentDb
begin

text \<open>
  The message pipeline between the crawler and the processor, \<open>src/internal/dht\<close>: triage of a
  discovered hash, fetching of its metadata, scraping, and the consumers that pass messages on.

  \<^item> The state is the database, the routing table, the optional runtime of the crawler, the torrent
    files on disk, and the messages given to the producer, each with its topic's payload and key.
  \<^item> A handler returns an \<open>outcome\<close> with the state it leaves; \<open>Panic\<close> is a panic, which the goroutine
    of a consumer recovers from.  The metadata handler of theory MetainfoRequester is used through the
    outcomes of its \<open>Request\<close>.
  \<^item> Parameters (\<open>pipe_env\<close>): the dependencies that are created lazily and can fail, the parser of
    addresses, the methods of the third-party \<open>Info\<close>, the encoding of a torrent file and the disk.
\<close>

section \<open>Messages\<close>

record metainfo_file =
  mf_PathParts :: "string list"
  mf_Size :: "64 word"

record metainfo_msg =
  mm_InfoHash :: string
  mm_Name :: string
  mm_Private :: bool
  mm_Files :: "metainfo_file list"
  mm_TotalSize :: "64 word"
  mm_Node :: string

record scrape_result_msg =
  sm_InfoHash :: string
  sm_Seeders :: "64 word"
  sm_Leechers :: "64 word"
  sm_ScrapedAt :: int

datatype pipe_msg =
    GetPeersMsg string string
  | ScrapeMsg string string
  | MetaInfoMsg metainfo_msg
  | ScrapeResultMsg scrape_result_msg
  | ProcessMsg "ID list"

datatype pipe_error =
    ErrID id_error
  | ErrLazy string
  | ErrDb db_error
  | ErrAddr
  | ErrQuery go_error
  | ErrJoined "req_error list"
  | ErrBanned "ban_error list"
  | ErrPermanent pipe_error
  | ErrUnmarshal

record 'b pipe_state =
  pp_db :: torrent_db
  pp_table :: table
  pp_runtime :: "'b crawl_runtime option"
  pp_disk :: "ID \<Rightarrow> bytes option"
  pp_out :: "(string \<times> pipe_msg) list"

record pipe_env =
  pe_client :: "string option"
  pe_blocking :: "string option"
  pe_queries :: "string option"
  pe_ParseAddrPort :: "string \<Rightarrow> addr_port option"
  pe_info :: info_methods
  pe_checkers :: "checker list"
  pe_banText :: "ban_error list \<Rightarrow> string"
  pe_EncodeTorrentFile :: "bytes \<Rightarrow> int \<Rightarrow> bytes option"
  pe_storeFails :: bool

type_synonym ('b, 'a) handled = "(pipe_error, 'a) outcome \<times> 'b pipe_state"

definition emit :: "string \<Rightarrow> pipe_msg \<Rightarrow> 'b pipe_state \<Rightarrow> 'b pipe_state" where
  "emit key m s = s\<lparr>pp_out := pp_out s @ [(key, m)]\<rparr>"

section \<open>triage\<close>

datatype triage_action = ActionDiscard | ActionGetPeers | ActionScrape

definition secondsDuration :: "64 word \<Rightarrow> int" where
  "secondsDuration n = int64 (sint n * second)"

text \<open>The decision on the row of the torrent, if there is one.\<close>

definition triageRow :: "int \<Rightarrow> 64 word \<Rightarrow> (torrents_row \<times> seeders_row option) option \<Rightarrow> triage_action" where
  "triageRow now threshold row = (case row of
     None \<Rightarrow> ActionGetPeers
   | Some (t, s) \<Rightarrow>
       (let seeders = (case s of None \<Rightarrow> 0 | Some x \<Rightarrow> (case sw_seeders x of None \<Rightarrow> 0 | Some n \<Rightarrow> n));
            leechers = (case s of None \<Rightarrow> 0 | Some x \<Rightarrow> (case sw_leechers x of None \<Rightarrow> 0 | Some n \<Rightarrow> n)) in
        if tw_files_count t = None \<or> tw_files_count t = Some 0 then ActionGetPeers
        else if seeders = 0 \<and> leechers = 0 \<or> tw_updated_at t < now + (- secondsDuration threshold) then ActionScrape
        else ActionDiscard))"

definition HandleTriage ::
  "pipe_env \<Rightarrow> int \<Rightarrow> 64 word \<Rightarrow> string \<Rightarrow> torrent_db \<Rightarrow> (pipe_error + triage_action) \<times> torrent_db" where
  "HandleTriage pe now threshold infoHash db = (case ParseID infoHash of
     Inl e \<Rightarrow> (Inl (ErrID e), db)
   | Inr i \<Rightarrow> (case pe_blocking pe of
       Some e \<Rightarrow> (Inl (ErrLazy e), db)
     | None \<Rightarrow> (case blocking_Filter [i] db of
         (Inl e, db1) \<Rightarrow> (Inl (ErrDb e), db1)
       | (Inr filtered, db1) \<Rightarrow>
           if filtered = [] then (Inr ActionDiscard, db1)
           else (case pe_queries pe of
             Some e \<Rightarrow> (Inl (ErrLazy e), db1)
           | None \<Rightarrow> (case GetTorrent (id_String i) db1 of
               (Inl e, db2) \<Rightarrow> (Inl (ErrDb e), db2)
             | (Inr row, db2) \<Rightarrow> (Inr (triageRow now threshold row), db2))))))"

text \<open>The consumer; \<open>None\<close> is a message that does not decode.\<close>

definition consumeTriage :: "pipe_env \<Rightarrow> int \<Rightarrow> 64 word \<Rightarrow> (string \<times> string) option \<Rightarrow> 'b pipe_state \<Rightarrow> ('b, unit) handled" where
  "consumeTriage pe now threshold msg s = (case msg of
     None \<Rightarrow> (Fail (ErrPermanent ErrUnmarshal), s)
   | Some (infoHash, nd) \<Rightarrow>
       (case HandleTriage pe now threshold infoHash (pp_db s) of
          (Inl e, db) \<Rightarrow> (Fail e, s\<lparr>pp_db := db\<rparr>)
        | (Inr a, db) \<Rightarrow>
            (let s1 = s\<lparr>pp_db := db\<rparr> in
             (Ret (), case a of
                ActionGetPeers \<Rightarrow> emit infoHash (GetPeersMsg infoHash nd) s1
              | ActionScrape \<Rightarrow> emit infoHash (ScrapeMsg infoHash nd) s1
              | ActionDiscard \<Rightarrow> s1))))"

section \<open>metainfo\<close>

text \<open>Nodes that a reply names go to the routing table as having responded.\<close>

fun putNodes :: "env \<Rightarrow> (ID \<times> addr_port) list \<Rightarrow> table \<Rightarrow> table option" where
  "putNodes e [] t = Some t"
| "putNodes e (n # ns) t =
     (case BatchCommand [(e, PutNode (fst n) (snd n) [NodeResponded])] t of
        None \<Rightarrow> None | Some t' \<Rightarrow> putNodes e ns t')"

text \<open>\<open>_____padding_file_\d+_.*____\<close>, the whole of the last part of a path.\<close>

definition paddingPrefix :: string where "paddingPrefix = ''_____padding_file_''"

definition isDigitChar :: "char \<Rightarrow> bool" where
  "isDigitChar c \<longleftrightarrow> 48 \<le> (of_char c :: nat) \<and> (of_char c :: nat) \<le> 57"

definition paddingName :: "string \<Rightarrow> bool" where
  "paddingName s \<longleftrightarrow>
     (let n = length paddingPrefix; r = drop n s; rest = dropWhile isDigitChar r; t = tl rest in
      take n s = paddingPrefix \<and> takeWhile isDigitChar r \<noteq> [] \<and> rest \<noteq> [] \<and> hd rest = CHR ''_'' \<and>
      4 \<le> length t \<and> drop (length t - 4) t = ''____'' \<and> CHR 0x0A \<notin> set (take (length t - 4) t))"

definition isPaddingFile :: "string list \<Rightarrow> bool" where
  "isPaddingFile parts \<longleftrightarrow> parts \<noteq> [] \<and> paddingName (last parts)"

type_synonym requester = "addr_port \<Rightarrow> (req_error, info response) outcome"

definition maxPeerRequests :: nat where "maxPeerRequests = 5"

datatype fetched = Fetched "info response" | FetchFailed pipe_error | FetchedNothing | FetchPanic

definition joinedErrors :: "req_error list \<Rightarrow> fetched" where
  "joinedErrors errs = (if errs = [] then FetchedNothing else FetchFailed (ErrJoined errs))"

fun fetchLoop :: "pipe_env \<Rightarrow> requester \<Rightarrow> ID \<Rightarrow> addr_port list \<Rightarrow> req_error list \<Rightarrow> torrent_db \<Rightarrow> fetched \<times> torrent_db" where
  "fetchLoop pe req h [] errs db = (joinedErrors errs, db)"
| "fetchLoop pe req h (p # ps) errs db = (case req p of
     Panic \<Rightarrow> (FetchPanic, db)
   | Fail e \<Rightarrow> fetchLoop pe req h ps (errs @ [e]) db
   | Ret res \<Rightarrow>
       (let banErr = combinedChecker (pe_checkers pe) (pe_info pe) (rs_info res) in
        if banErr \<noteq> [] then (FetchFailed (ErrBanned banErr), snd (blocking_Block h (pe_banText pe banErr) db))
        else (Fetched res, db)))"

definition fetchMetaInfo :: "pipe_env \<Rightarrow> requester \<Rightarrow> ID \<Rightarrow> addr_port list \<Rightarrow> torrent_db \<Rightarrow> fetched \<times> torrent_db" where
  "fetchMetaInfo pe req h peers db = fetchLoop pe req h (take (min maxPeerRequests (length peers)) peers) [] db"

definition metainfoFiles :: "info_methods \<Rightarrow> info \<Rightarrow> metainfo_file list" where
  "metainfoFiles im i = map (\<lambda>f. \<lparr>mf_PathParts = im_BestPath im f, mf_Size = word_of_int (fi_Length f)\<rparr>) (in_Files i)"

definition sumSizes :: "metainfo_file list \<Rightarrow> 64 word" where
  "sumSizes fs = foldl (\<lambda>a f. a + mf_Size f) 0 fs"

definition totalSizeOf :: "info_methods \<Rightarrow> info \<Rightarrow> 64 word" where
  "totalSizeOf im i =
     (let s = sumSizes (metainfoFiles im i) in if s = 0 then word_of_int (im_TotalLength im i) else s)"

text \<open>The files that are stored, each with its index among all files.\<close>

definition realFiles :: "metainfo_file list \<Rightarrow> (nat \<times> metainfo_file) list" where
  "realFiles files = filter (\<lambda>f. \<not> isPaddingFile (mf_PathParts (snd f))) (enumerate 0 files)"

definition modelFile :: "nat \<times> metainfo_file \<Rightarrow> torrent_file" where
  "modelFile f = \<lparr>tf_Index = of_nat (fst f), tf_PathParts = map utf8_runes (mf_PathParts (snd f)),
     tf_Size = mf_Size (snd f)\<rparr>"

definition torrentOf :: "ID \<Rightarrow> string \<Rightarrow> bool \<Rightarrow> metainfo_file list \<Rightarrow> 64 word \<Rightarrow> torrent" where
  "torrentOf i name priv files totalSize =
     (let (sz, mfs, cnt) =
        (if files = [] then
           (totalSize, [\<lparr>tf_Index = 0, tf_PathParts = [utf8_runes name], tf_Size = totalSize\<rparr>], Some 1)
         else (let fs = realFiles files in
           (sumSizes (map snd fs), map modelFile fs,
            if length fs > 0 then Some (of_nat (length fs)) else None))) in
      \<lparr>to_InfoHash = i, to_Name = utf8_runes name, to_Size = sz, to_Private = priv, to_FilesCount = cnt,
       to_ContentType = None, to_ContentSource = None, to_ContentID = None, to_Languages = None,
       to_Tsv = fmempty, to_Seeders = None, to_Leechers = None, to_Files = mfs\<rparr>)"

definition persistTorrentFile :: "pipe_env \<Rightarrow> ID \<Rightarrow> bytes \<Rightarrow> int \<Rightarrow> 'b pipe_state \<Rightarrow> 'b pipe_state" where
  "persistTorrentFile pe i raw createdAt s =
     (if raw = [] then s
      else (case pe_EncodeTorrentFile pe raw createdAt of
        None \<Rightarrow> s
      | Some dat \<Rightarrow> if pe_storeFails pe then s else s\<lparr>pp_disk := (pp_disk s)(i \<mapsto> dat)\<rparr>))"

definition storeTorrent :: "int \<Rightarrow> torrent \<Rightarrow> query" where
  "storeTorrent now t =
     transaction (UpsertTorrent now (TorrentToUpsertParams t) # map (upsertFile (to_InfoHash t)) (to_Files t))"

definition persistTorrent ::
  "pipe_env \<Rightarrow> int \<Rightarrow> ID \<Rightarrow> bytes \<Rightarrow> string \<Rightarrow> bool \<Rightarrow> metainfo_file list \<Rightarrow> 64 word \<Rightarrow> 'b pipe_state \<Rightarrow>
   pipe_error option \<times> 'b pipe_state" where
  "persistTorrent pe now i raw name priv files totalSize s = (case pe_queries pe of
     Some e \<Rightarrow> (Some (ErrLazy e), s)
   | None \<Rightarrow> (case storeTorrent now (torrentOf i name priv files totalSize) (pp_db s) of
       (Some e, db) \<Rightarrow> (Some (ErrDb e), s\<lparr>pp_db := db\<rparr>)
     | (None, db) \<Rightarrow> (None, persistTorrentFile pe i raw now (s\<lparr>pp_db := db\<rparr>))))"

text \<open>The metadata of a response that was accepted; \<open>FetchedNothing\<close> would be an empty response.\<close>

definition acceptMetaInfo ::
  "pipe_env \<Rightarrow> int \<Rightarrow> ID \<Rightarrow> string \<Rightarrow> string \<Rightarrow> info \<Rightarrow> bytes \<Rightarrow> 'b pipe_state \<Rightarrow> ('b, metainfo_msg option) handled" where
  "acceptMetaInfo pe now i infoHash nd mi raw s =
     (let im = pe_info pe;
          files = metainfoFiles im mi;
          totalSize = totalSizeOf im mi;
          priv = (case in_Private mi of None \<Rightarrow> False | Some b \<Rightarrow> b);
          name = im_BestName im mi in
      case persistTorrent pe now i raw name priv files totalSize s of
        (Some e, s') \<Rightarrow> (Fail e, s')
      | (None, s') \<Rightarrow> (Ret (Some \<lparr>mm_InfoHash = infoHash, mm_Name = name, mm_Private = priv, mm_Files = files,
          mm_TotalSize = totalSize, mm_Node = nd\<rparr>),
          s'\<lparr>pp_runtime := map_option (PushActivity now ''metadata'' name) (pp_runtime s')\<rparr>))"

definition emptyInfo :: info where
  "emptyInfo = \<lparr>in_Name = [], in_NameUtf8 = [], in_Files = [], in_Length = 0, in_Private = None\<rparr>"

definition HandleGetPeers ::
  "pipe_env \<Rightarrow> int \<Rightarrow> env \<Rightarrow> client_reply \<Rightarrow> requester \<Rightarrow> string \<Rightarrow> string \<Rightarrow> 'b pipe_state \<Rightarrow> ('b, metainfo_msg option) handled" where
  "HandleGetPeers pe now e reply req infoHash nd s = (case ParseID infoHash of
     Inl er \<Rightarrow> (Fail (ErrID er), s)
   | Inr i \<Rightarrow>
     if pe_client pe \<noteq> None then (Fail (ErrLazy (the (pe_client pe))), s)
     else if pe_blocking pe \<noteq> None then (Fail (ErrLazy (the (pe_blocking pe))), s)
     else if pe_ParseAddrPort pe nd = None then (Fail ErrAddr, s)
     else (case reply of
       (_, Some er) \<Rightarrow> (Fail (ErrQuery er), s)
     | (res, None) \<Rightarrow> (case putNodes e (cr_Nodes res) (pp_table s) of
         None \<Rightarrow> (Panic, s)
       | Some t \<Rightarrow>
           (let s1 = s\<lparr>pp_table := t\<rparr> in
            if cr_Values res = [] then (Ret None, s1)
            else (case fetchMetaInfo pe req i (cr_Values res) (pp_db s1) of
              (FetchPanic, db) \<Rightarrow> (Panic, s1\<lparr>pp_db := db\<rparr>)
            | (FetchFailed er, db) \<Rightarrow> (Fail er, s1\<lparr>pp_db := db\<rparr>)
            | (FetchedNothing, db) \<Rightarrow> acceptMetaInfo pe now i infoHash nd emptyInfo [] (s1\<lparr>pp_db := db\<rparr>)
            | (Fetched r, db) \<Rightarrow> acceptMetaInfo pe now i infoHash nd (rs_info r) (rs_raw r) (s1\<lparr>pp_db := db\<rparr>))))))"

text \<open>The consumer acknowledges the message whatever its goroutine does.\<close>

definition consumeGetPeers ::
  "pipe_env \<Rightarrow> int \<Rightarrow> env \<Rightarrow> client_reply \<Rightarrow> requester \<Rightarrow> (string \<times> string) option \<Rightarrow> 'b pipe_state \<Rightarrow> ('b, unit) handled" where
  "consumeGetPeers pe now e reply req msg s = (case msg of
     None \<Rightarrow> (Fail (ErrPermanent ErrUnmarshal), s)
   | Some (infoHash, nd) \<Rightarrow>
       (Ret (), case HandleGetPeers pe now e reply req infoHash nd s of
          (Ret (Some mi), s') \<Rightarrow> emit infoHash (MetaInfoMsg mi) s'
        | (_, s') \<Rightarrow> s'))"

section \<open>persist\<close>

definition ParseInfoHash :: "string \<Rightarrow> pipe_error + ID" where
  "ParseInfoHash h = (case ParseID h of Inl e \<Rightarrow> Inl (ErrPermanent (ErrID e)) | Inr i \<Rightarrow> Inr i)"

definition HandlePersist :: "metainfo_msg \<Rightarrow> pipe_error + string \<times> bool" where
  "HandlePersist m = bind_sum (ParseInfoHash (mm_InfoHash m)) (\<lambda>_. Inr (mm_InfoHash m, True))"

definition consumePersist :: "metainfo_msg option \<Rightarrow> 'b pipe_state \<Rightarrow> ('b, unit) handled" where
  "consumePersist msg s = (case msg of
     None \<Rightarrow> (Fail (ErrPermanent ErrUnmarshal), s)
   | Some m \<Rightarrow> (case HandlePersist m of
       Inl e \<Rightarrow> (Fail e, s)
     | Inr (h, scrape) \<Rightarrow>
         (let s1 = (if scrape then emit h (ScrapeMsg (mm_InfoHash m) (mm_Node m)) s else s) in
          case ParseInfoHash h of Inl e \<Rightarrow> (Fail e, s1) | Inr i \<Rightarrow> (Ret (), emit h (ProcessMsg [i]) s1))))"

section \<open>scrape\<close>

definition ErrNoScrapeSupport :: go_error where
  "ErrNoScrapeSupport = OtherErr ''missing bloom filter in scrape response''"

text \<open>The estimates that the package \<open>bloom\<close> makes of the two filters are parameters.\<close>

definition HandleScrape ::
  "pipe_env \<Rightarrow> int \<Rightarrow> env \<Rightarrow> client_reply \<Rightarrow> 64 word \<Rightarrow> 64 word \<Rightarrow> string \<Rightarrow> string \<Rightarrow> 'b pipe_state \<Rightarrow>
   ('b, scrape_result_msg option) handled" where
  "HandleScrape pe now e reply seeders leechers infoHash nd s = (case ParseID infoHash of
     Inl er \<Rightarrow> (Fail (ErrID er), s)
   | Inr i \<Rightarrow>
     if pe_client pe \<noteq> None then (Fail (ErrLazy (the (pe_client pe))), s)
     else if pe_ParseAddrPort pe nd = None then (Fail ErrAddr, s)
     else (case reply of
       (_, Some er) \<Rightarrow> if er = ErrNoScrapeSupport then (Ret None, s) else (Fail (ErrQuery er), s)
     | (res, None) \<Rightarrow> (case putNodes e (cr_Nodes res) (pp_table s) of
         None \<Rightarrow> (Panic, s)
       | Some t \<Rightarrow> (Ret (Some \<lparr>sm_InfoHash = infoHash, sm_Seeders = seeders, sm_Leechers = leechers,
             sm_ScrapedAt = now\<rparr>), s\<lparr>pp_table := t\<rparr>))))"

definition consumeScrape ::
  "pipe_env \<Rightarrow> int \<Rightarrow> env \<Rightarrow> client_reply \<Rightarrow> 64 word \<Rightarrow> 64 word \<Rightarrow> (string \<times> string) option \<Rightarrow> 'b pipe_state \<Rightarrow> ('b, unit) handled" where
  "consumeScrape pe now e reply seeders leechers msg s = (case msg of
     None \<Rightarrow> (Fail (ErrPermanent ErrUnmarshal), s)
   | Some (infoHash, nd) \<Rightarrow>
       (Ret (), case HandleScrape pe now e reply seeders leechers infoHash nd s of
          (Ret (Some r), s') \<Rightarrow> emit infoHash (ScrapeResultMsg r) s'
        | (_, s') \<Rightarrow> s'))"

section \<open>persistsources\<close>

definition HandlePersistSources ::
  "pipe_env \<Rightarrow> scrape_result_msg \<Rightarrow> torrent_db \<Rightarrow> pipe_error option \<times> torrent_db" where
  "HandlePersistSources pe m db = (case ParseInfoHash (sm_InfoHash m) of
     Inl e \<Rightarrow> (Some e, db)
   | Inr i \<Rightarrow> (case pe_queries pe of
       Some e \<Rightarrow> (Some (ErrLazy e), db)
     | None \<Rightarrow> (case GetTorrent (id_String i) db of
         (Inl e, db1) \<Rightarrow> (Some (ErrDb e), db1)
       | (Inr None, db1) \<Rightarrow> (None, db1)
       | (Inr (Some _), db1) \<Rightarrow>
           (case UpdateTorrentSeeders (id_String i) (FromUintToInt32Ptr (sm_Seeders m))
                (FromUintToInt32Ptr (sm_Leechers m)) db1 of
              (e, db2) \<Rightarrow> (map_option ErrDb e, db2)))))"

definition consumePersistSources :: "pipe_env \<Rightarrow> scrape_result_msg option \<Rightarrow> 'b pipe_state \<Rightarrow> ('b, unit) handled" where
  "consumePersistSources pe msg s = (case msg of
     None \<Rightarrow> (Fail (ErrPermanent ErrUnmarshal), s)
   | Some m \<Rightarrow> (case HandlePersistSources pe m (pp_db s) of
       (Some e, db) \<Rightarrow> (Fail e, s\<lparr>pp_db := db\<rparr>)
     | (None, db) \<Rightarrow> (case ParseInfoHash (sm_InfoHash m) of
         Inl e \<Rightarrow> (Fail e, s\<lparr>pp_db := db\<rparr>)
       | Inr i \<Rightarrow> (Ret (), emit (sm_InfoHash m) (ProcessMsg [i]) (s\<lparr>pp_db := db\<rparr>)))))"

section \<open>Fetching\<close>

lemma fetchLoop_cases:
  "fetchLoop pe req h ps errs db = (out, db') \<Longrightarrow>
   (case out of
      Fetched r \<Rightarrow> db' = db \<and> (\<exists>k<length ps. (\<forall>j<k. \<exists>e. req (ps ! j) = Fail e) \<and> req (ps ! k) = Ret r \<and>
        combinedChecker (pe_checkers pe) (pe_info pe) (rs_info r) = [])
    | FetchFailed (ErrBanned b) \<Rightarrow> b \<noteq> [] \<and> db' = snd (blocking_Block h (pe_banText pe b) db) \<and>
        (\<exists>k<length ps. \<exists>r. (\<forall>j<k. \<exists>e. req (ps ! j) = Fail e) \<and> req (ps ! k) = Ret r \<and>
          combinedChecker (pe_checkers pe) (pe_info pe) (rs_info r) = b)
    | FetchFailed (ErrJoined es) \<Rightarrow> db' = db \<and> length es = length errs + length ps \<and>
        (\<forall>p \<in> set ps. \<exists>e. req p = Fail e)
    | FetchFailed _ \<Rightarrow> False
    | FetchedNothing \<Rightarrow> db' = db \<and> errs = [] \<and> ps = []
    | FetchPanic \<Rightarrow> db' = db \<and> (\<exists>p \<in> set ps. req p = Panic))"
proof (induction ps arbitrary: errs)
  case Nil
  then show ?case by (auto simp: joinedErrors_def split: if_splits)
next
  case (Cons p ps)
  show ?case
  proof (cases "req p")
    case (Ret res)
    have "\<exists>k<length (p # ps). (\<forall>j<k. \<exists>e. req ((p # ps) ! j) = Fail e) \<and> req ((p # ps) ! k) = Ret res"
      using Ret by (intro exI [of _ 0]) simp
    then show ?thesis
      using Ret Cons.prems by (auto simp: Let_def split: if_splits) blast
  next
    case (Fail e)
    then have "fetchLoop pe req h ps (errs @ [e]) db = (out, db')" using Cons.prems by simp
    note IH = Cons.IH [OF this]
    have shift: "\<exists>k<length (p # ps). (\<forall>j<k. \<exists>e. req ((p # ps) ! j) = Fail e) \<and> P ((p # ps) ! k)"
      if ex: "\<exists>k<length ps. (\<forall>j<k. \<exists>e. req (ps ! j) = Fail e) \<and> P (ps ! k)" for P
    proof -
      obtain k where k: "k < length ps" "\<forall>j<k. \<exists>e. req (ps ! j) = Fail e" "P (ps ! k)" using ex by blast
      have "\<exists>e. req ((p # ps) ! j) = Fail e" if "j < Suc k" for j using that k(2) Fail by (cases j) auto
      then show ?thesis using k(1,3) by (intro exI [of _ "Suc k"]) simp
    qed
    show ?thesis
    proof (cases out)
      case (Fetched r)
      then show ?thesis using IH shift [of "\<lambda>q. req q = Ret r \<and> _"] by simp
    next
      case (FetchFailed er)
      then show ?thesis
        using IH Fail shift [of "\<lambda>q. \<exists>r. req q = Ret r \<and> combinedChecker (pe_checkers pe) (pe_info pe) (rs_info r) = b" for b]
        by (cases er) auto
    qed (use IH Fail in auto)
  next
    case Panic
    then show ?thesis using Cons.prems by auto
  qed
qed

section \<open>Storing\<close>

lemma exec_None:
  "exec upd db = (None, db') \<longleftrightarrow> (\<exists>db1. nextFault db = (None, db1) \<and> upd db1 = Inr db')"
  by (auto simp: exec_def split: prod.splits option.splits sum.splits)

lemma transaction_None:
  "transaction qs db = (None, db') \<longleftrightarrow>
   (\<exists>db1 db2. nextFault db = (None, db1) \<and> runAll qs db1 = (None, db2) \<and> nextFault db2 = (None, db'))"
  by (auto simp: transaction_def split: prod.splits option.splits)

lemma runAll_Cons_None:
  "runAll (q # qs) db = (None, db') \<longleftrightarrow> (\<exists>d. q db = (None, d) \<and> runAll qs d = (None, db'))"
  by (auto split: prod.splits option.splits)

text \<open>What storing the files of a torrent changes.\<close>

definition only_files :: "string \<Rightarrow> torrent_db \<Rightarrow> torrent_db \<Rightarrow> bool" where
  "only_files h db' db \<longleftrightarrow> td_torrents db' = td_torrents db \<and> td_seeders db' = td_seeders db \<and>
     td_content db' = td_content db \<and> td_blocked db' = td_blocked db \<and>
     (\<forall>g. g \<noteq> h \<longrightarrow> td_files db' g = td_files db g)"

lemma runAll_upsertFile:
  "runAll (map (upsertFile i) fs) db = (None, db') \<Longrightarrow> only_files (id_String i) db' db"
proof (induction fs arbitrary: db)
  case (Cons f fs)
  then obtain d where d: "upsertFile i f db = (None, d)" "runAll (map (upsertFile i) fs) d = (None, db')"
    by (auto split: prod.splits option.splits)
  have "only_files (id_String i) d db"
    using d(1) by (auto simp: upsertFile_def UpsertTorrentFile_def exec_None only_files_def split: if_splits)
  then show ?case using Cons.IH [OF d(2)] by (simp add: only_files_def)
qed (simp add: only_files_def)

lemma UpsertTorrent_stored:
  assumes "UpsertTorrent now p db = (None, db')"
  obtains r where "td_torrents db' = (td_torrents db)(ut_InfoHash p \<mapsto> r)" "tw_name r = ut_Name p"
    "tw_size r = ut_Size p" "tw_private r = ut_Private p" "tw_files_count r = ut_FilesCount p"
    "tw_updated_at r = now" "td_seeders db' = td_seeders db" "td_blocked db' = td_blocked db"
  by (rule that [of "the (td_torrents db' (ut_InfoHash p))"])
    (use assms in \<open>auto simp: UpsertTorrent_def exec_None Let_def split: option.splits\<close>)

lemma storeTorrent_stored:
  assumes "storeTorrent now t db = (None, db')"
  obtains r where "td_torrents db' (id_String (to_InfoHash t)) = Some r" "tw_name r = to_Name t"
    "tw_size r = sint (to_Size t)" "tw_private r = to_Private t" "tw_files_count r = fromNullUint (to_FilesCount t)"
    "tw_updated_at r = now" "td_seeders db' = td_seeders db" "td_blocked db' = td_blocked db"
    "\<And>g. g \<noteq> id_String (to_InfoHash t) \<Longrightarrow> td_torrents db' g = td_torrents db g"
proof -
  let ?h = "id_String (to_InfoHash t)" and ?p = "TorrentToUpsertParams t"
  obtain db1 db2 db3 where d: "nextFault db = (None, db1)" "UpsertTorrent now ?p db1 = (None, db2)"
    "runAll (map (upsertFile (to_InfoHash t)) (to_Files t)) db2 = (None, db3)" "nextFault db3 = (None, db')"
    using assms by (auto simp: storeTorrent_def transaction_None runAll_Cons_None simp del: runAll.simps(2))
  obtain r where r: "td_torrents db2 = (td_torrents db1)(ut_InfoHash ?p \<mapsto> r)" "tw_name r = ut_Name ?p"
    "tw_size r = ut_Size ?p" "tw_private r = ut_Private ?p" "tw_files_count r = ut_FilesCount ?p"
    "tw_updated_at r = now" "td_seeders db2 = td_seeders db1" "td_blocked db2 = td_blocked db1"
    using UpsertTorrent_stored [OF d(2)] .
  have "only_files ?h db3 db2" by (rule runAll_upsertFile [OF d(3)])
  then show thesis
    by (intro that [of r]) (use d(1,4) r in \<open>auto simp: only_files_def TorrentToUpsertParams_def\<close>)
qed

lemma storeTorrent_program: "program_query (storeTorrent now t)"
  unfolding storeTorrent_def upsertFile_def
  by (rule program_query.intros(9)) (auto intro: program_query.intros)

lemma storeTorrent_keeps: "db_ok db \<Longrightarrow> db_ok (snd (storeTorrent now t db))"
  using program_query_keeps [OF storeTorrent_program] by (simp add: keeps_def)

section \<open>What the handlers keep\<close>

lemma putNodes_ok:
  "table_ok t \<Longrightarrow> env_ok e \<Longrightarrow> \<forall>n \<in> set ns. wf_id (fst n) \<Longrightarrow> \<exists>t'. putNodes e ns t = Some t' \<and> table_ok t'"
proof (induction ns arbitrary: t)
  case (Cons n ns)
  obtain t1 where "BatchCommand [(e, PutNode (fst n) (snd n) [NodeResponded])] t = Some t1" "table_ok t1"
    using BatchCommand_ok [OF Cons.prems(1), of "[(e, PutNode (fst n) (snd n) [NodeResponded])]"] Cons.prems(2,3)
    by auto
  then show ?case using Cons.IH [of t1] Cons.prems by simp
qed simp

definition pipe_ok :: "'b pipe_state \<Rightarrow> bool" where
  "pipe_ok s \<longleftrightarrow> db_ok (pp_db s) \<and> table_ok (pp_table s)"

lemma pipe_ok_emit [simp]: "pipe_ok (emit key m s) = pipe_ok s"
  by (simp add: pipe_ok_def emit_def)

lemma blocking_Block_ok: "db_ok db \<Longrightarrow> db_ok (snd (blocking_Block h reason db))"
  using keeps_blocked(1) by (simp add: blocking_Block_def keeps_def)

lemma blocking_Filter_same: "blocking_Filter hs db = (r, db') \<Longrightarrow> same_tables db' db"
  by (auto simp: blocking_Filter_def GetBlockedInfoHashes_def split: if_splits prod.splits option.splits sum.splits)

lemma GetTorrent_same: "GetTorrent h db = (r, db') \<Longrightarrow> same_tables db' db"
  by (auto simp: GetTorrent_def split: prod.splits option.splits)

lemma same_tables_trans: "same_tables a b \<Longrightarrow> same_tables b c \<Longrightarrow> same_tables a c"
  by (simp add: same_tables_def)

lemma HandleTriage_same: "HandleTriage pe now th h db = (r, db') \<Longrightarrow> same_tables db' db"
  unfolding HandleTriage_def
  by (auto split: sum.splits option.splits prod.splits if_splits
      dest!: blocking_Filter_same GetTorrent_same intro: same_tables_trans)

lemma fetchMetaInfo_db:
  assumes "fetchMetaInfo pe req h ps db = (out, db')" "db_ok db"
  shows "db_ok db'"
  using fetchLoop_cases [OF assms(1) [unfolded fetchMetaInfo_def]] assms(2) blocking_Block_ok
  by (auto split: fetched.splits pipe_error.splits)

lemma acceptMetaInfo_ok:
  assumes "acceptMetaInfo pe now i infoHash nd mi raw s = (r, s')" "pipe_ok s"
  shows "pipe_ok s' \<and> r \<noteq> Panic"
  using assms storeTorrent_keeps [of "pp_db s" now]
  by (auto simp: acceptMetaInfo_def persistTorrent_def persistTorrentFile_def pipe_ok_def Let_def
      split: prod.splits option.splits if_splits) (metis snd_conv)+

lemma HandleGetPeers_ok:
  assumes "pipe_ok s" "env_ok e" "\<forall>n \<in> set (cr_Nodes (fst reply)). wf_id (fst n)"
    "HandleGetPeers pe now e reply req infoHash nd s = (r, s')"
  shows "pipe_ok s' \<and> (r = Panic \<longrightarrow> (\<exists>p. req p = Panic))"
proof -
  obtain t where t: "putNodes e (cr_Nodes (fst reply)) (pp_table s) = Some t" "table_ok t"
    using putNodes_ok [OF _ assms(2,3)] assms(1) by (auto simp: pipe_ok_def)
  have s1: "pipe_ok (s\<lparr>pp_table := t, pp_db := db\<rparr>)" if "db_ok db" for db
    using t that by (simp add: pipe_ok_def)
  have db: "db_ok (pp_db s)" using assms(1) by (simp add: pipe_ok_def)
  have fetch: "case out of
        FetchPanic \<Rightarrow> \<exists>p. req p = Panic
      | FetchFailed er \<Rightarrow> pipe_ok (s\<lparr>pp_table := t, pp_db := d\<rparr>)
      | FetchedNothing \<Rightarrow> pipe_ok (s\<lparr>pp_table := t, pp_db := d\<rparr>)
      | Fetched x \<Rightarrow> pipe_ok (s\<lparr>pp_table := t, pp_db := d\<rparr>)"
    if "fetchMetaInfo pe req i (cr_Values (fst reply)) (pp_db s) = (out, d)" for i out d
    using s1 [OF fetchMetaInfo_db [OF that db]] fetchLoop_cases [OF that [unfolded fetchMetaInfo_def]]
    by (auto split: fetched.split)
  obtain res q where rep: "reply = (res, q)" by (cases reply)
  have panic: "\<exists>p. req p = Panic" if "fetchMetaInfo pe req i (cr_Values res) (pp_db s) = (FetchPanic, d)" for i d
    using fetch [of i FetchPanic d] that rep by simp
  have accept: "pipe_ok u' \<and> r' \<noteq> Panic"
    if "acceptMetaInfo pe now i infoHash nd mi raw u = (r', u')" "pipe_ok u" for i mi raw and u :: "'a pipe_state" and r' u'
    by (rule acceptMetaInfo_ok [OF that])
  show ?thesis
    using assms(1,4) t s1 [OF fetchMetaInfo_db [OF _ db]] accept s1 [OF db]
    unfolding HandleGetPeers_def
    by (auto simp: Let_def rep dest: panic split: sum.splits option.splits if_splits prod.splits fetched.splits)
qed


text \<open>Rows of torrents and blocked hashes are never lost, and the counters of a swarm never fall.\<close>

definition counter_le :: "int option \<Rightarrow> int option \<Rightarrow> bool" where
  "counter_le a b = (case a of None \<Rightarrow> True | Some x \<Rightarrow> (case b of None \<Rightarrow> False | Some y \<Rightarrow> x \<le> y))"

definition grows :: "torrent_db \<Rightarrow> torrent_db \<Rightarrow> bool" where
  "grows db db' \<longleftrightarrow>
     (\<forall>h. td_torrents db h \<noteq> None \<longrightarrow> td_torrents db' h \<noteq> None) \<and>
     (\<forall>h. td_blocked db h \<noteq> None \<longrightarrow> td_blocked db' h \<noteq> None) \<and>
     (\<forall>h r. td_seeders db h = Some r \<longrightarrow> (\<exists>r'. td_seeders db' h = Some r' \<and>
        counter_le (sw_seeders r) (sw_seeders r') \<and> counter_le (sw_leechers r) (sw_leechers r')))"

lemma counter_le_refl [simp]: "counter_le a a"
  by (simp add: counter_le_def split: option.split)

lemma counter_le_trans: "counter_le a b \<Longrightarrow> counter_le b c \<Longrightarrow> counter_le a c"
  by (auto simp: counter_le_def split: option.splits)

lemma counter_le_greatest [simp]: "counter_le a (greatest a b)"
  by (simp add: counter_le_def greatest_def split: option.split)

lemma grows_refl [simp]: "grows db db"
  by (simp add: grows_def)

lemma grows_trans: "grows a b \<Longrightarrow> grows b c \<Longrightarrow> grows a c"
  unfolding grows_def by (meson counter_le_trans)

lemma same_tables_grows: "same_tables db' db \<Longrightarrow> grows db db'"
  by (simp add: same_tables_def grows_def)

lemma storeTorrent_grows: "grows db (snd (storeTorrent now t db))"
proof (cases "storeTorrent now t db")
  case (Pair e db')
  show ?thesis
  proof (cases e)
    case None
    then obtain r where r: "td_torrents db' (id_String (to_InfoHash t)) = Some r"
      "td_seeders db' = td_seeders db" "td_blocked db' = td_blocked db"
      "\<And>g. g \<noteq> id_String (to_InfoHash t) \<Longrightarrow> td_torrents db' g = td_torrents db g"
      using storeTorrent_stored [of now t db db'] Pair by metis
    have "td_torrents db' h \<noteq> None" if "td_torrents db h \<noteq> None" for h
      using r(1,4) that by (cases "h = id_String (to_InfoHash t)") simp_all
    then show ?thesis using r(2,3) Pair by (simp add: grows_def)
  next
    case (Some x)
    then show ?thesis
      using program_query_failed [OF storeTorrent_program, of now t db x db'] Pair same_tables_grows by simp
  qed
qed

lemma blocking_Block_grows: "grows db (snd (blocking_Block h reason db))"
  by (auto simp: blocking_Block_def UpsertBlockedInfoHash_def exec_def grows_def split: prod.splits option.splits)

lemma fetchMetaInfo_grows: "fetchMetaInfo pe req h ps db = (out, db') \<Longrightarrow> grows db db'"
  using fetchLoop_cases [of pe req h "take (min maxPeerRequests (length ps)) ps" "[]" db out db'] blocking_Block_grows
  by (auto simp: fetchMetaInfo_def split: fetched.splits pipe_error.splits)

lemma acceptMetaInfo_grows:
  assumes "acceptMetaInfo pe now i infoHash nd mi raw s = (r, s')"
  shows "grows (pp_db s) (pp_db s')"
  using assms storeTorrent_grows [of "pp_db s" now]
  by (auto simp: acceptMetaInfo_def persistTorrent_def persistTorrentFile_def Let_def
      split: prod.splits option.splits if_splits) (metis snd_conv)+

lemma HandleGetPeers_grows:
  assumes "HandleGetPeers pe now e reply req infoHash nd s = (r, s')"
  shows "grows (pp_db s) (pp_db s')"
proof -
  have a: "acceptMetaInfo pe now i infoHash nd mi raw (s\<lparr>pp_table := t, pp_db := d\<rparr>) = (r, s') \<Longrightarrow> grows (pp_db s) d
    \<Longrightarrow> grows (pp_db s) (pp_db s')" for i mi raw t d
    using acceptMetaInfo_grows grows_trans by fastforce
  show ?thesis
    using assms unfolding HandleGetPeers_def
    by (cases reply)
       (auto simp: Let_def dest: fetchMetaInfo_grows a split: sum.splits option.splits if_splits prod.splits fetched.splits)
qed

lemma HandlePersistSources_keeps:
  assumes "HandlePersistSources pe m db = (r, db')"
  shows "grows db db' \<and> (db_ok db \<longrightarrow> db_ok db')"
proof -
  have u: "grows d (snd (UpdateTorrentSeeders h x y d))" for h x y d
    by (auto simp: UpdateTorrentSeeders_def exec_def grows_def split: prod.splits option.splits)
  have k: "db_ok d \<Longrightarrow> db_ok (snd (UpdateTorrentSeeders h x y d))" for h x y d
    using keeps_UpdateTorrentSeeders by (simp add: keeps_def)
  have g: "GetTorrent h db = (x, d) \<Longrightarrow> grows db d \<and> db_ok d = db_ok db" for h x d
    using GetTorrent_same same_tables_grows same_tables_ok by blast
  show ?thesis
    using assms unfolding HandlePersistSources_def
    by (auto split: sum.splits option.splits prod.splits dest!: g) (metis u k grows_trans snd_conv)+
qed

section \<open>Runs of the pipeline\<close>

datatype pipe_event =
    EvTriage int "(string \<times> string) option"
  | EvGetPeers int env client_reply requester "(string \<times> string) option"
  | EvPersist "metainfo_msg option"
  | EvScrape int env client_reply "64 word" "64 word" "(string \<times> string) option"
  | EvPersistSources "scrape_result_msg option"

fun pipe_step :: "pipe_env \<Rightarrow> 64 word \<Rightarrow> pipe_event \<Rightarrow> 'b pipe_state \<Rightarrow> ('b, unit) handled" where
  "pipe_step pe th (EvTriage now msg) s = consumeTriage pe now th msg s"
| "pipe_step pe th (EvGetPeers now e reply req msg) s = consumeGetPeers pe now e reply req msg s"
| "pipe_step pe th (EvPersist msg) s = consumePersist msg s"
| "pipe_step pe th (EvScrape now e reply a b msg) s = consumeScrape pe now e reply a b msg s"
| "pipe_step pe th (EvPersistSources msg) s = consumePersistSources pe msg s"

definition pipe_run :: "pipe_env \<Rightarrow> 64 word \<Rightarrow> pipe_event list \<Rightarrow> 'b pipe_state \<Rightarrow> 'b pipe_state" where
  "pipe_run pe th evs s = foldl (\<lambda>s ev. snd (pipe_step pe th ev s)) s evs"

text \<open>What the clients give: identifiers of 20 bytes.\<close>

fun pipe_event_ok :: "pipe_event \<Rightarrow> bool" where
  "pipe_event_ok (EvGetPeers _ e reply _ _) \<longleftrightarrow> env_ok e \<and> (\<forall>n \<in> set (cr_Nodes (fst reply)). wf_id (fst n))"
| "pipe_event_ok (EvScrape _ e reply _ _ _) \<longleftrightarrow> env_ok e \<and> (\<forall>n \<in> set (cr_Nodes (fst reply)). wf_id (fst n))"
| "pipe_event_ok _ \<longleftrightarrow> True"

definition advances :: "'b pipe_state \<Rightarrow> 'b pipe_state \<Rightarrow> bool" where
  "advances s s' \<longleftrightarrow> (pipe_ok s \<longrightarrow> pipe_ok s') \<and> grows (pp_db s) (pp_db s')"

lemma advances_emit [simp]: "advances s (emit key m s') = advances s s'"
  by (simp add: advances_def) (simp add: emit_def)

lemma advances_refl [simp]: "advances s s"
  by (simp add: advances_def)

lemma advances_trans: "advances a b \<Longrightarrow> advances b c \<Longrightarrow> advances a c"
  by (auto simp: advances_def intro: grows_trans)

lemma advances_same: "same_tables db (pp_db s) \<Longrightarrow> advances s (s\<lparr>pp_db := db\<rparr>)"
  by (auto simp: advances_def pipe_ok_def same_tables_ok same_tables_grows)

lemma consumeTriage_advances: "advances s (snd (consumeTriage pe now th msg s))"
  unfolding consumeTriage_def
  by (auto simp: Let_def split: option.split prod.split sum.split triage_action.split dest!: HandleTriage_same intro: advances_same)

lemma consumeGetPeers_advances:
  assumes "env_ok e" "\<forall>n \<in> set (cr_Nodes (fst reply)). wf_id (fst n)"
  shows "advances s (snd (consumeGetPeers pe now e reply req msg s))"
proof -
  have h: "advances s s'" if "HandleGetPeers pe now e reply req infoHash nd s = (r, s')" for infoHash nd r s'
    using HandleGetPeers_ok [OF _ assms that] HandleGetPeers_grows [OF that] by (auto simp: advances_def)
  show ?thesis
    unfolding consumeGetPeers_def by (auto split: option.split prod.split outcome.split dest: h)
qed

lemma consumeScrape_advances:
  assumes "env_ok e" "\<forall>n \<in> set (cr_Nodes (fst reply)). wf_id (fst n)"
  shows "advances s (snd (consumeScrape pe now e reply a b msg s))"
proof -
  have h: "advances s s'" if "HandleScrape pe now e reply a b infoHash nd s = (r, s')" for infoHash nd r s'
    using that putNodes_ok [OF _ assms, of "pp_table s"] unfolding HandleScrape_def
    by (auto simp: advances_def pipe_ok_def split: sum.splits if_splits option.splits prod.splits)
  show ?thesis
    unfolding consumeScrape_def by (auto split: option.split prod.split outcome.split dest: h)
qed

lemma consumePersist_advances: "advances s (snd (consumePersist msg s))"
  unfolding consumePersist_def by (auto simp: Let_def split: option.split sum.split prod.split)

lemma consumePersistSources_advances: "advances s (snd (consumePersistSources pe msg s))"
proof -
  have h: "advances s (s\<lparr>pp_db := db\<rparr>)" if "HandlePersistSources pe m (pp_db s) = (r, db)" for m r db
    using HandlePersistSources_keeps [OF that] by (auto simp: advances_def pipe_ok_def)
  show ?thesis
    unfolding consumePersistSources_def by (auto split: option.split sum.split prod.split dest: h)
qed

lemma pipe_step_advances: "pipe_event_ok ev \<Longrightarrow> advances s (snd (pipe_step pe th ev s))"
  by (cases ev) (simp_all add: consumeTriage_advances consumeGetPeers_advances consumePersist_advances
      consumeScrape_advances consumePersistSources_advances)

lemma pipe_run_advances: "\<forall>ev \<in> set evs. pipe_event_ok ev \<Longrightarrow> advances s (pipe_run pe th evs s)"
proof (induction evs arbitrary: s)
  case (Cons ev evs)
  then show ?case
    using pipe_step_advances [of ev s pe th] advances_trans by (fastforce simp: pipe_run_def)
qed (simp add: pipe_run_def)

text \<open>C24. Whatever messages arrive, in whatever order, and whichever dependencies, peers and
  statements fail, the pipeline keeps the integrity of the tables and of the routing table; no torrent
  that was stored and no hash that was blocked is ever lost, and the counters of a swarm never fall.\<close>

theorem pipe_run_safe:
  assumes "pipe_ok s" "\<forall>ev \<in> set evs. pipe_event_ok ev"
  shows "pipe_ok (pipe_run pe th evs s) \<and> grows (pp_db s) (pp_db (pipe_run pe th evs s))"
  using pipe_run_advances [OF assms(2), of s pe th] assms(1) by (simp add: advances_def)

definition samplePipe :: "torrent_db \<Rightarrow> unit pipe_state" where
  "samplePipe db = \<lparr>pp_db = db, pp_table = ktable_New (sampleHash 9), pp_runtime = None, pp_disk = \<lambda>_. None, pp_out = []\<rparr>"

definition samplePipeEnv :: pipe_env where
  "samplePipeEnv = \<lparr>pe_client = None, pe_blocking = None, pe_queries = None, pe_ParseAddrPort = (\<lambda>_. Some (sample_addr 1)),
     pe_info = sampleMethods, pe_checkers = [], pe_banText = (\<lambda>_. ''banned''), pe_EncodeTorrentFile = (\<lambda>raw _. Some raw),
     pe_storeFails = False\<rparr>"

lemma samplePipe_ok: "pipe_ok (samplePipe (emptyDb\<lparr>td_faults := fs\<rparr>))"
  by (simp add: pipe_ok_def samplePipe_def table_ok_New)

theorem pipe_run_safe_witness:
  "pipe_ok (pipe_run samplePipeEnv 60 [EvTriage 0 (Some (id_String (sampleHash 1), ''n'')), EvPersistSources None]
     (samplePipe (emptyDb\<lparr>td_faults := [None, Some ''lost'']\<rparr>)))"
  using pipe_run_safe [OF samplePipe_ok] by simp

section \<open>From a discovered hash to a stored torrent\<close>

lemma HandleTriage_value:
  assumes "td_faults db = []" "pe_blocking pe = None" "pe_queries pe = None" "ParseID h = Inr i"
  shows "HandleTriage pe now th h db =
    (Inr (if td_blocked db (id_String i) \<noteq> None then ActionDiscard
          else triageRow now th (map_option (\<lambda>r. (r, td_seeders db (id_String i))) (td_torrents db (id_String i)))), db)"
  using assms by (auto simp: HandleTriage_def blocking_Filter_def GetBlockedInfoHashes_def GetTorrent_def nextFault_def)

definition zeroCount :: "int option \<Rightarrow> bool" where
  "zeroCount c \<longleftrightarrow> c = None \<or> c = Some 0"

text \<open>When nothing fails, triage discards a hash exactly when it is blocked or its torrent is
  stored with files, has a swarm and is younger than the threshold; it asks for the metadata exactly
  when the hash is not blocked and no torrent with files is stored; it scrapes otherwise.\<close>

theorem triage_decides:
  assumes "td_faults db = []" "pe_blocking pe = None" "pe_queries pe = None" "ParseID h = Inr i"
  shows "\<exists>a. fst (HandleTriage pe now th h db) = Inr a \<and>
    (let k = id_String i; blocked = td_blocked db k \<noteq> None;
         filed = (case td_torrents db k of None \<Rightarrow> False | Some r \<Rightarrow> \<not> zeroCount (tw_files_count r));
         swarm = (case td_seeders db k of None \<Rightarrow> False | Some s \<Rightarrow> \<not> (zeroCount (sw_seeders s) \<and> zeroCount (sw_leechers s)));
         young = (case td_torrents db k of None \<Rightarrow> False | Some r \<Rightarrow> now - secondsDuration th \<le> tw_updated_at r) in
      (a = ActionGetPeers \<longleftrightarrow> \<not> blocked \<and> \<not> filed) \<and>
      (a = ActionDiscard \<longleftrightarrow> blocked \<or> filed \<and> swarm \<and> young) \<and>
      (a = ActionScrape \<longleftrightarrow> \<not> blocked \<and> filed \<and> \<not> (swarm \<and> young)))"
proof (intro exI conjI)
  let ?a = "if td_blocked db (id_String i) \<noteq> None then ActionDiscard
          else triageRow now th (map_option (\<lambda>r. (r, td_seeders db (id_String i))) (td_torrents db (id_String i)))"
  show "fst (HandleTriage pe now th h db) = Inr ?a" by (simp add: HandleTriage_value [OF assms])
  show "let k = id_String i; blocked = td_blocked db k \<noteq> None;
         filed = (case td_torrents db k of None \<Rightarrow> False | Some r \<Rightarrow> \<not> zeroCount (tw_files_count r));
         swarm = (case td_seeders db k of None \<Rightarrow> False | Some s \<Rightarrow> \<not> (zeroCount (sw_seeders s) \<and> zeroCount (sw_leechers s)));
         young = (case td_torrents db k of None \<Rightarrow> False | Some r \<Rightarrow> now - secondsDuration th \<le> tw_updated_at r) in
      (?a = ActionGetPeers \<longleftrightarrow> \<not> blocked \<and> \<not> filed) \<and>
      (?a = ActionDiscard \<longleftrightarrow> blocked \<or> filed \<and> swarm \<and> young) \<and>
      (?a = ActionScrape \<longleftrightarrow> \<not> blocked \<and> filed \<and> \<not> (swarm \<and> young))"
    by (auto simp: triageRow_def zeroCount_def Let_def split: option.splits)
qed

lemma ParseID_sampleHash: "ParseID (id_String (sampleHash b)) = Inr (sampleHash b)"
  using sampleHash_simps(1) [of b] by (auto simp: ParseID_def id_String_def hex_encode_no_prefix hex_decode_encode wf_id_def)

theorem triage_decides_witness:
  "fst (HandleTriage samplePipeEnv 0 60 (id_String (sampleHash 1)) emptyDb) = Inr ActionGetPeers"
  using triage_decides [of emptyDb samplePipeEnv _ "sampleHash 1", OF _ _ _ ParseID_sampleHash, where now = 0 and th = 60]
  by (auto simp: emptyDb_def samplePipeEnv_def Let_def)

lemma persistTorrent_None:
  assumes "persistTorrent pe now i raw name priv files totalSize s = (None, s')"
  shows "pe_queries pe = None \<and>
    storeTorrent now (torrentOf i name priv files totalSize) (pp_db s) = (None, pp_db s')"
  using assms by (auto simp: persistTorrent_def persistTorrentFile_def split: option.splits prod.splits if_splits)

lemma torrentOf_simps [simp]:
  "to_InfoHash (torrentOf i name priv files sz) = i" "to_Name (torrentOf i name priv files sz) = utf8_runes name"
  "to_Private (torrentOf i name priv files sz) = priv"
  by (auto simp: torrentOf_def Let_def split: prod.splits)

text \<open>The size and the number of the files that are stored.\<close>

definition storedSize :: "metainfo_msg \<Rightarrow> 64 word" where
  "storedSize m = (if mm_Files m = [] then mm_TotalSize m else sumSizes (map snd (realFiles (mm_Files m))))"

definition storedCount :: "metainfo_msg \<Rightarrow> int option" where
  "storedCount m = (if mm_Files m = [] then Some 1
     else if realFiles (mm_Files m) = [] then None else Some (ClampUint (of_nat (length (realFiles (mm_Files m))))))"

lemma torrentOf_stored:
  "to_Size (torrentOf i (mm_Name m) p (mm_Files m) (mm_TotalSize m)) = storedSize m"
  "fromNullUint (to_FilesCount (torrentOf i (mm_Name m) p (mm_Files m) (mm_TotalSize m))) = storedCount m"
  by (simp_all add: torrentOf_def storedSize_def storedCount_def fromNullUint_def ClampUint_def Let_def)

definition describes :: "info_methods \<Rightarrow> info \<Rightarrow> metainfo_msg \<Rightarrow> bool" where
  "describes im mi m \<longleftrightarrow> mm_Name m = im_BestName im mi \<and> mm_Private m = (in_Private mi = Some True) \<and>
     mm_Files m = metainfoFiles im mi \<and> mm_TotalSize m = totalSizeOf im mi"

lemma acceptMetaInfo_stored:
  assumes "acceptMetaInfo pe now i infoHash nd mi raw s = (Ret (Some m), s')"
  shows "mm_InfoHash m = infoHash \<and> mm_Node m = nd \<and> describes (pe_info pe) mi m \<and>
    td_blocked (pp_db s') = td_blocked (pp_db s) \<and>
    (\<forall>g. g \<noteq> id_String i \<longrightarrow> td_torrents (pp_db s') g = td_torrents (pp_db s) g) \<and>
    (\<exists>r. td_torrents (pp_db s') (id_String i) = Some r \<and> tw_name r = utf8_runes (mm_Name m) \<and>
      tw_private r = mm_Private m \<and> tw_size r = sint (storedSize m) \<and> tw_files_count r = storedCount m)"
proof -
  obtain s0 where m: "mm_InfoHash m = infoHash" "mm_Node m = nd" "describes (pe_info pe) mi m" and
    p: "persistTorrent pe now i raw (mm_Name m) (mm_Private m) (mm_Files m) (mm_TotalSize m) s = (None, s0)"
      "pp_db s0 = pp_db s'"
    using assms by (auto simp: acceptMetaInfo_def describes_def Let_def split: prod.splits option.splits if_splits)
  let ?t = "torrentOf i (mm_Name m) (mm_Private m) (mm_Files m) (mm_TotalSize m)"
  have "storeTorrent now ?t (pp_db s) = (None, pp_db s')" using persistTorrent_None [OF p(1)] p(2) by simp
  then obtain r where "td_torrents (pp_db s') (id_String i) = Some r" "tw_name r = utf8_runes (mm_Name m)"
    "tw_size r = sint (storedSize m)" "tw_private r = mm_Private m" "tw_files_count r = storedCount m"
    "td_blocked (pp_db s') = td_blocked (pp_db s)"
    "\<And>g. g \<noteq> id_String i \<Longrightarrow> td_torrents (pp_db s') g = td_torrents (pp_db s) g"
    by (rule storeTorrent_stored) (simp add: torrentOf_stored)
  then show ?thesis using m by blast
qed

lemma HandleGetPeers_fetched:
  assumes "HandleGetPeers pe now e (res, None) req infoHash nd s = (r, s')"
    "r = Ret (Some m) \<or> (\<exists>b. r = Fail (ErrBanned b))" "ParseID infoHash = Inr i"
  shows "\<exists>t out d. cr_Values res \<noteq> [] \<and> fetchMetaInfo pe req i (cr_Values res) (pp_db s) = (out, d) \<and>
    (case out of
       Fetched x \<Rightarrow> acceptMetaInfo pe now i infoHash nd (rs_info x) (rs_raw x) (s\<lparr>pp_table := t, pp_db := d\<rparr>) = (r, s')
     | FetchFailed er \<Rightarrow> r = Fail er \<and> pp_db s' = d
     | _ \<Rightarrow> False)"
proof -
  have n: "fst (fetchMetaInfo pe req i ps db) \<noteq> FetchedNothing" if "ps \<noteq> []" for ps db
    using fetchLoop_cases [of pe req i "take (min maxPeerRequests (length ps)) ps" "[]" db] that
    by (cases "fetchMetaInfo pe req i ps db") (auto simp: fetchMetaInfo_def maxPeerRequests_def min_def split: if_splits)
  show ?thesis
    using assms n [of "cr_Values res" "pp_db s"] unfolding HandleGetPeers_def
    by (auto simp: Let_def split: option.splits if_splits prod.splits fetched.splits)
qed

lemma HandleGetPeers_sent:
  assumes "HandleGetPeers pe now e (res, None) req infoHash nd s = (Ret (Some m), s')" "ParseID infoHash = Inr i"
  obtains t x d where "fetchMetaInfo pe req i (cr_Values res) (pp_db s) = (Fetched x, d)"
    "acceptMetaInfo pe now i infoHash nd (rs_info x) (rs_raw x) (s\<lparr>pp_table := t, pp_db := d\<rparr>) = (Ret (Some m), s')"
proof -
  obtain t out d where o: "fetchMetaInfo pe req i (cr_Values res) (pp_db s) = (out, d)"
    "case out of Fetched x \<Rightarrow>
         acceptMetaInfo pe now i infoHash nd (rs_info x) (rs_raw x) (s\<lparr>pp_table := t, pp_db := d\<rparr>) = (Ret (Some m), s')
       | FetchFailed er \<Rightarrow> Ret (Some m) = Fail er \<and> pp_db s' = d | _ \<Rightarrow> False"
    using HandleGetPeers_fetched [OF assms(1) _ assms(2)] by blast
  then show thesis using that by (cases out) auto
qed

text \<open>The first peer that answers, among the first five, with what its metadata was found to be.\<close>

definition firstAnswer :: "requester \<Rightarrow> addr_port list \<Rightarrow> info response \<Rightarrow> bool" where
  "firstAnswer req ps x \<longleftrightarrow> (\<exists>k<min maxPeerRequests (length ps).
     (\<forall>j<k. \<exists>er. req (ps ! j) = Fail er) \<and> req (ps ! k) = Ret x)"

lemma fetchMetaInfo_answer:
  assumes "fetchMetaInfo pe req i ps db = (out, d)"
  shows "out = Fetched x \<Longrightarrow> d = db \<and> firstAnswer req ps x \<and>
      combinedChecker (pe_checkers pe) (pe_info pe) (rs_info x) = []"
    and "out = FetchFailed (ErrBanned b) \<Longrightarrow> b \<noteq> [] \<and> d = snd (blocking_Block i (pe_banText pe b) db) \<and>
      (\<exists>x. firstAnswer req ps x \<and> combinedChecker (pe_checkers pe) (pe_info pe) (rs_info x) = b)"
  using fetchLoop_cases [OF assms [unfolded fetchMetaInfo_def]] by (auto simp: firstAnswer_def) blast+

text \<open>C25. A message with metadata is sent on only for what the first of the five peers that answered
  gave, after every check passed and the torrent was stored: the message describes that metadata, the
  row of the hash has its name, privacy, size and number of files, and no other row, and no blocked
  hash, has changed.\<close>

theorem sent_metadata_stored:
  assumes "HandleGetPeers pe now e (res, None) req infoHash nd s = (Ret (Some m), s')" "ParseID infoHash = Inr i"
  shows "\<exists>x. firstAnswer req (cr_Values res) x \<and>
    combinedChecker (pe_checkers pe) (pe_info pe) (rs_info x) = [] \<and>
    mm_InfoHash m = infoHash \<and> mm_Node m = nd \<and> describes (pe_info pe) (rs_info x) m \<and>
    (\<exists>r. td_torrents (pp_db s') (id_String i) = Some r \<and> tw_name r = utf8_runes (mm_Name m) \<and>
      tw_private r = mm_Private m \<and> tw_size r = sint (storedSize m) \<and> tw_files_count r = storedCount m) \<and>
    (\<forall>g. g \<noteq> id_String i \<longrightarrow> td_torrents (pp_db s') g = td_torrents (pp_db s) g) \<and>
    td_blocked (pp_db s') = td_blocked (pp_db s)"
proof -
  obtain t x d where x: "fetchMetaInfo pe req i (cr_Values res) (pp_db s) = (Fetched x, d)"
    "acceptMetaInfo pe now i infoHash nd (rs_info x) (rs_raw x) (s\<lparr>pp_table := t, pp_db := d\<rparr>) = (Ret (Some m), s')"
    by (rule HandleGetPeers_sent [OF assms(1,2)])
  show ?thesis
    using fetchMetaInfo_answer(1) [OF x(1) refl] acceptMetaInfo_stored [OF x(2)] by (intro exI [of _ x]) simp
qed


text \<open>C27. Once the metadata of a hash was sent on, triage asks for it again exactly when it names
  files and all of them are padding: a torrent of padding only is stored without a number of files, so
  each time it is discovered its metadata is fetched again.\<close>

theorem refetched_only_padding:
  assumes "HandleGetPeers pe now e (res, None) req infoHash nd s = (Ret (Some m), s')" "ParseID infoHash = Inr i"
    "td_faults (pp_db s') = []" "td_blocked (pp_db s) (id_String i) = None" "pe_blocking pe = None"
    "length (mm_Files m) < 2 ^ 64"
  shows "fst (HandleTriage pe later th infoHash (pp_db s')) = Inr ActionGetPeers \<longleftrightarrow>
    mm_Files m \<noteq> [] \<and> (\<forall>f \<in> set (mm_Files m). isPaddingFile (mf_PathParts f))"
proof -
  obtain t x d where x: "fetchMetaInfo pe req i (cr_Values res) (pp_db s) = (Fetched x, d)"
    "acceptMetaInfo pe now i infoHash nd (rs_info x) (rs_raw x) (s\<lparr>pp_table := t, pp_db := d\<rparr>) = (Ret (Some m), s')"
    by (rule HandleGetPeers_sent [OF assms(1,2)])
  have q: "pe_queries pe = None"
    using x(2) by (auto simp: acceptMetaInfo_def persistTorrent_def Let_def split: option.splits)
  obtain r where r: "td_torrents (pp_db s') (id_String i) = Some r" "tw_files_count r = storedCount m"
    "td_blocked (pp_db s') (id_String i) = None"
    using acceptMetaInfo_stored [OF x(2)] fetchMetaInfo_answer(1) [OF x(1) refl] assms(4) by auto
  have "length (realFiles (mm_Files m)) \<le> length (mm_Files m)"
    unfolding realFiles_def using length_filter_le [of _ "enumerate 0 (mm_Files m)"] by simp
  then have n: "length (realFiles (mm_Files m)) < 2 ^ LENGTH(64)" using assms(6) by simp
  have "uint (of_nat (length (realFiles (mm_Files m))) :: 64 word) = int (length (realFiles (mm_Files m)))"
    using n by (simp add: unsigned_of_nat take_bit_nat_eq_self)
  then have "storedCount m \<noteq> Some 0"
    by (simp add: storedCount_def ClampUint_def min_def)
  then have "tw_files_count r = None \<or> tw_files_count r = Some 0 \<longleftrightarrow> mm_Files m \<noteq> [] \<and> realFiles (mm_Files m) = []"
    using r(2) by (auto simp: storedCount_def)
  moreover have "realFiles fs = [] \<longleftrightarrow> (\<forall>f \<in> set fs. isPaddingFile (mf_PathParts f))" for fs
  proof -
    have "set fs = snd ` set (enumerate 0 fs)" by (metis list.set_map map_snd_enumerate)
    then show ?thesis by (auto simp: realFiles_def filter_empty_conv)
  qed
  ultimately show ?thesis
    using r(1,3) by (simp add: HandleTriage_value [OF assms(3,5) q assms(2)] triageRow_def Let_def)
qed

text \<open>A reply with one peer, and what that peer answers.\<close>

definition sampleReply :: client_result where
  "sampleReply = zero_result\<lparr>cr_Values := [sample_addr 1]\<rparr>"

definition sampleAnswer :: "file_info list \<Rightarrow> info response" where
  "sampleAnswer fs = \<lparr>rs_handshake = \<lparr>hi_PeerID = sampleHash 2, hi_ExBits = []\<rparr>,
     rs_info = \<lparr>in_Name = ''movie'', in_NameUtf8 = [], in_Files = fs, in_Length = 0, in_Private = None\<rparr>, rs_raw = []\<rparr>"

definition paddingFile :: file_info where
  "paddingFile = \<lparr>fi_Path = [''_____padding_file_0_x____''], fi_PathUtf8 = [], fi_Length = 16\<rparr>"

lemma paddingFile_name: "isPaddingFile [''_____padding_file_0_x____'']"
  by (simp add: isPaddingFile_def paddingName_def paddingPrefix_def isDigitChar_def Let_def)

definition sampleFetch :: "checker list \<Rightarrow> (unit, metainfo_msg option) handled" where
  "sampleFetch checks = HandleGetPeers (samplePipeEnv\<lparr>pe_checkers := checks\<rparr>) 5 (1, \<lambda>xs. xs) (sampleReply, None)
     (\<lambda>_. Ret (sampleAnswer [paddingFile])) (id_String (sampleHash 1)) ''n'' (samplePipe emptyDb)"

lemma sampleFetch_sent:
  obtains m s' where "sampleFetch [] = (Ret (Some m), s')" "td_faults (pp_db s') = []"
    "mm_Files m = [\<lparr>mf_PathParts = [''_____padding_file_0_x____''], mf_Size = 16\<rparr>]"
proof -
  have "realFiles [\<lparr>mf_PathParts = [''_____padding_file_0_x____''], mf_Size = 16\<rparr>] = []"
    by (simp add: realFiles_def paddingFile_name)
  then have "\<exists>m s'. sampleFetch [] = (Ret (Some m), s') \<and> td_faults (pp_db s') = [] \<and>
      mm_Files m = [\<lparr>mf_PathParts = [''_____padding_file_0_x____''], mf_Size = 16\<rparr>]"
    by (simp add: sampleFetch_def HandleGetPeers_def ParseID_sampleHash samplePipeEnv_def sampleReply_def zero_result_def
        fetchMetaInfo_def maxPeerRequests_def combinedChecker_def map_filter_simps acceptMetaInfo_def sampleAnswer_def
        metainfoFiles_def paddingFile_def sampleMethods_def persistTorrent_def torrentOf_def storeTorrent_def
        transaction_def UpsertTorrent_def exec_def nextFault_def samplePipe_def emptyDb_def persistTorrentFile_def Let_def)
  then show thesis using that by blast
qed

theorem sent_metadata_stored_witness:
  "\<exists>m s' r. sampleFetch [] = (Ret (Some m), s') \<and> td_torrents (pp_db s') (id_String (sampleHash 1)) = Some r \<and>
     tw_files_count r = storedCount m"
proof -
  obtain m s' where m: "sampleFetch [] = (Ret (Some m), s')" by (rule sampleFetch_sent)
  then show ?thesis
    using sent_metadata_stored [OF m [unfolded sampleFetch_def] ParseID_sampleHash] by auto
qed

theorem refetched_only_padding_witness:
  "\<exists>m s'. sampleFetch [] = (Ret (Some m), s') \<and>
     fst (HandleTriage (samplePipeEnv\<lparr>pe_checkers := []\<rparr>) 9 60 (id_String (sampleHash 1)) (pp_db s')) = Inr ActionGetPeers"
proof -
  obtain m s' where m: "sampleFetch [] = (Ret (Some m), s')" "td_faults (pp_db s') = []"
    "mm_Files m = [\<lparr>mf_PathParts = [''_____padding_file_0_x____''], mf_Size = 16\<rparr>]" by (rule sampleFetch_sent)
  have "td_blocked (pp_db (samplePipe emptyDb)) (id_String (sampleHash 1)) = None"
    "pe_blocking (samplePipeEnv\<lparr>pe_checkers := []\<rparr>) = None"
    by (simp_all add: samplePipe_def emptyDb_def samplePipeEnv_def)
  then have "fst (HandleTriage (samplePipeEnv\<lparr>pe_checkers := []\<rparr>) 9 60 (id_String (sampleHash 1)) (pp_db s')) = Inr ActionGetPeers"
    using refetched_only_padding [OF m(1) [unfolded sampleFetch_def] ParseID_sampleHash m(2)] m(3) paddingFile_name by simp
  then show ?thesis using m(1) by blast
qed

definition banAll :: checker where "banAll im i = Some SizeTooSmall"

lemma sampleFetch_banned:
  obtains s' where "sampleFetch [banAll] = (Fail (ErrBanned [SizeTooSmall]), s')"
proof -
  have "\<exists>s'. sampleFetch [banAll] = (Fail (ErrBanned [SizeTooSmall]), s')"
    by (simp add: sampleFetch_def HandleGetPeers_def ParseID_sampleHash samplePipeEnv_def sampleReply_def zero_result_def
        fetchMetaInfo_def maxPeerRequests_def combinedChecker_def map_filter_simps banAll_def samplePipe_def Let_def)
  then show thesis using that by blast
qed


end
