(* ===== verification/TorrentText.thy ===== *)
theory TorrentText
  imports MetainfoCheck TorrentDb
begin

text \<open>
  What is written about a torrent for others to find it: the search vectors of a torrent and of its
  content, the identifier in the search index and the magnet link, all of
  \<open>src/internal/model/torrents.go\<close> and \<open>src/internal/model/content.go\<close>.

  \<^item> Text of the database is a list of runes; where the code works on the bytes of a string, the model
    works on its encoding in UTF-8, a \<open>string\<close>, and decodes what is cut from it.
  \<^item> An index into a byte string is in range wherever the code reads one, by the loop that found it.
\<close>

section \<open>Encoding runes\<close>

definition EncodeRune :: "nat \<Rightarrow> nat list" where
  "EncodeRune r =
     (if r < 128 then [r]
      else if r < 2048 then [192 + r div 64, 128 + r mod 64]
      else if 55296 \<le> r \<and> r \<le> 57343 \<or> 1114111 < r then [239, 191, 189]
      else if r < 65536 then [224 + r div 4096, 128 + r div 64 mod 64, 128 + r mod 64]
      else [240 + r div 262144, 128 + r div 4096 mod 64, 128 + r div 64 mod 64, 128 + r mod 64])"

definition utf8_bytes :: "runes \<Rightarrow> nat list" where
  "utf8_bytes rs = concat (map EncodeRune rs)"

definition utf8_string :: "runes \<Rightarrow> string" where
  "utf8_string rs = map char_of (utf8_bytes rs)"

section \<open>Search strings of the files\<close>

definition isWordByte :: "unicode \<Rightarrow> char \<Rightarrow> bool" where
  "isWordByte u c = IsWordChar u (of_char c)"

definition joinPath :: "runes list \<Rightarrow> string" where
  "joinPath parts = utf8_string (JoinRunes parts [47])"

text \<open>Where a path first differs from the one before it; \<open>None\<close> when it does not.\<close>

fun prefixEnd :: "string \<Rightarrow> string \<Rightarrow> nat option" where
  "prefixEnd [] prev = None"
| "prefixEnd (c # cs) [] = Some 0"
| "prefixEnd (c # cs) (p # ps) = (if p \<noteq> c then Some 0 else map_option Suc (prefixEnd cs ps))"

fun backToBreak :: "unicode \<Rightarrow> string \<Rightarrow> nat \<Rightarrow> nat" where
  "backToBreak u fp 0 = 0"
| "backToBreak u fp (Suc i) = (if isWordByte u (fp ! Suc i) then backToBreak u fp i else Suc i)"

fun firstPassLoop :: "unicode \<Rightarrow> string list \<Rightarrow> string \<Rightarrow> string list" where
  "firstPassLoop u [] prevPath = []"
| "firstPassLoop u (fp # fps) prevPath = (case prefixEnd fp prevPath of
     None \<Rightarrow> firstPassLoop u fps prevPath
   | Some i \<Rightarrow> drop (backToBreak u fp i) fp # firstPassLoop u fps fp)"

fun commonPrefixLength :: "string \<Rightarrow> string \<Rightarrow> nat" where
  "commonPrefixLength (a # as) (b # bs) = (if a = b then Suc (commonPrefixLength as bs) else 0)"
| "commonPrefixLength _ _ = 0"

definition commonSuffixLength :: "string \<Rightarrow> string \<Rightarrow> nat" where
  "commonSuffixLength a b = commonPrefixLength (rev a) (rev b)"

definition longestSuffix :: "string list \<Rightarrow> string \<Rightarrow> nat" where
  "longestSuffix before s = foldl (\<lambda>m t. let l = commonSuffixLength s t in if l > m then l else m) 0 before"

fun shrinkSuffix :: "unicode \<Rightarrow> string \<Rightarrow> nat \<Rightarrow> nat" where
  "shrinkSuffix u s 0 = 0"
| "shrinkSuffix u s (Suc l) = (if isWordByte u (s ! (length s - Suc l)) then shrinkSuffix u s l else Suc l)"

text \<open>What is left is a text again, without the spaces at its ends; empty ones are left out.\<close>

fun secondPassLoop :: "unicode \<Rightarrow> string list \<Rightarrow> string list \<Rightarrow> runes list" where
  "secondPassLoop u before [] = []"
| "secondPassLoop u before (s # ss) =
     (let l = shrinkSuffix u s (longestSuffix before s);
          str = TrimSpace (utf8_runes (take (length s - l) s));
          rest = secondPassLoop u (before @ [s]) ss in
      if str = [] then rest else str # rest)"

definition fileSearchStrings :: "unicode \<Rightarrow> int \<Rightarrow> torrent_file list \<Rightarrow> runes list" where
  "fileSearchStrings u maxFiles files0 =
     (let files = (if 0 < maxFiles \<and> int (length files0) > maxFiles then take (nat maxFiles) files0 else files0) in
      secondPassLoop u [] (firstPassLoop u (map (\<lambda>f. joinPath (tf_PathParts f)) files) []))"

section \<open>Search vectors\<close>

fun addTexts :: "unicode \<Rightarrow> xlit \<Rightarrow> runes list \<Rightarrow> tsvector_weight \<Rightarrow> tsvector \<Rightarrow> tsvector option" where
  "addTexts u tables [] w v = Some v"
| "addTexts u tables (s # ss) w v = (case AddText u tables s w v of None \<Rightarrow> None | Some v' \<Rightarrow> addTexts u tables ss w v')"

text \<open>The vector of the attached content is the start of the vector of its torrent.\<close>

definition Torrent_UpdateTsv :: "unicode \<Rightarrow> xlit \<Rightarrow> int \<Rightarrow> tsvector \<Rightarrow> torrent \<Rightarrow> torrent option" where
  "Torrent_UpdateTsv u tables maxSearchFiles contentTsv t =
     (let tsv = (if to_ContentID t = None then fmempty else contentTsv) in
      case AddText u tables (to_Name t) TsvectorWeightA tsv of
        None \<Rightarrow> None
      | Some v \<Rightarrow> map_option (\<lambda>v'. t\<lparr>to_Tsv := v'\<rparr>)
          (addTexts u tables (fileSearchStrings u maxSearchFiles (to_Files t)) TsvectorWeightD v))"

text \<open>The year of \<open>Date.Time\<close>, which carries months and days out of range.\<close>

definition date_TimeYear :: "date \<Rightarrow> int" where
  "date_TimeYear d =
     (let m = int (d_Month d) - 1; y = int (d_Year d) + m div 12; mm = nat (m mod 12);
          leap = (if isLeap y then 1 else 0);
          yday = daysBefore ! mm + (if 2 \<le> mm then leap else 0) + (int (d_Day d) - 1) in
      if yday < 0 then y - 1 else if 365 + leap \<le> yday then y + 1 else y)"

definition date_YearString :: "date \<Rightarrow> runes" where
  "date_YearString d =
     (let y = date_TimeYear d; digits = showNat (nat \<bar>y\<bar>) in
      (if y < 0 then [45] else []) @ replicate (4 - length digits) 48 @ digits)"

definition Content_UpdateTsv :: "unicode \<Rightarrow> xlit \<Rightarrow> content \<Rightarrow> tsvector option" where
  "Content_UpdateTsv u tables c = (case AddText u tables (ct_Title c) TsvectorWeightA fmempty of
     None \<Rightarrow> None
   | Some v \<Rightarrow> if date_IsNil (ct_ReleaseDate c) then Some v
       else AddText u tables (date_YearString (ct_ReleaseDate c)) TsvectorWeightB v)"

section \<open>Identifiers and links\<close>

definition contentTypeString :: "content_type \<Rightarrow> string" where
  "contentTypeString ct = fst (the (find (\<lambda>e. snd e = ct) contentTypeValues))"

definition InferID :: "torrent \<Rightarrow> runes" where
  "InferID t = JoinRunes
     [runes_of (id_String (to_InfoHash t)),
      (case to_ContentType t of Some ct \<Rightarrow> runes_of (contentTypeString ct) | None \<Rightarrow> [63]),
      (case to_ContentSource t of Some src \<Rightarrow> src | None \<Rightarrow> [63]),
      (case to_ContentSource t of
         Some src \<Rightarrow> (case to_ContentID t of Some i \<Rightarrow> i | None \<Rightarrow> []) | None \<Rightarrow> [63])] [58]"

definition hexUpper :: "nat \<Rightarrow> char" where
  "hexUpper n = ''0123456789ABCDEF'' ! n"

definition unreservedByte :: "nat \<Rightarrow> bool" where
  "unreservedByte b \<longleftrightarrow> 97 \<le> b \<and> b \<le> 122 \<or> 65 \<le> b \<and> b \<le> 90 \<or> 48 \<le> b \<and> b \<le> 57 \<or> b \<in> {45, 95, 46, 126}"

definition escapeByte :: "nat \<Rightarrow> string" where
  "escapeByte b = (if unreservedByte b then [char_of b] else if b = 32 then ''+''
     else [CHR ''%'', hexUpper (b div 16 mod 16), hexUpper (b mod 16)])"

definition QueryEscape :: "runes \<Rightarrow> string" where
  "QueryEscape s = concat (map escapeByte (utf8_bytes s))"

definition MagnetURI :: "torrent \<Rightarrow> string" where
  "MagnetURI t = ''magnet:?xt=urn:btih:'' @ id_String (to_InfoHash t) @ ''&dn='' @ QueryEscape (to_Name t) @
     ''&xl='' @ map char_of (showNat (unat (to_Size t)))"

section \<open>Encoding and decoding\<close>

definition validRune :: "nat \<Rightarrow> bool" where
  "validRune r \<longleftrightarrow> r \<le> 1114111 \<and> \<not> (55296 \<le> r \<and> r \<le> 57343)"

lemma EncodeRune_length: "EncodeRune r \<noteq> []"
  by (simp add: EncodeRune_def)

lemma EncodeRune_bytes: "\<forall>b \<in> set (EncodeRune r). b < 256"
proof -
  have "r div 262144 < 16" if "r \<le> 1114111" using that by simp
  moreover have "r div 4096 < 16" if "r < 65536" using that by simp
  moreover have "r div 64 < 32" if "r < 2048" using that by simp
  moreover have "n mod 64 < 64" for n :: nat by simp
  ultimately show ?thesis by (auto simp: EncodeRune_def)
qed

lemma digit_split: "(r :: nat) div 64 * 64 + r mod 64 = r" "r div 4096 * 4096 + r div 64 mod 64 * 64 + r mod 64 = r"
  "r div 262144 * 262144 + r div 4096 mod 64 * 4096 + r div 64 mod 64 * 64 + r mod 64 = r"
proof -
  show 1: "r div 64 * 64 + r mod 64 = r" for r :: nat by simp
  have d: "r div 4096 = r div 64 div 64" "r div 262144 = r div 4096 div 64" for r :: nat
    by (simp_all add: div_mult2_eq [symmetric])
  show 2: "r div 4096 * 4096 + r div 64 mod 64 * 64 + r mod 64 = r" for r :: nat
    using 1 [of r] 1 [of "r div 64"] by (simp only: d(1))
  show "r div 262144 * 262144 + r div 4096 mod 64 * 4096 + r div 64 mod 64 * 64 + r mod 64 = r"
    using 2 [of r] 1 [of "r div 4096"] by (simp only: d(2))
qed

lemma DecodeRune_Encode:
  assumes "validRune r"
  shows "DecodeRune (EncodeRune r @ bs) = (r, length (EncodeRune r))"
proof -
  have m: "n mod 64 \<le> 63" for n :: nat by simp
  consider "r < 128" | "128 \<le> r" "r < 2048" | "2048 \<le> r" "r < 65536" | "65536 \<le> r" by linarith
  then show ?thesis
  proof cases
    case 2
    obtain q k where qk: "q = r div 64" "k = r mod 64" by simp
    have "2 \<le> q" "q \<le> 31" using 2 by (simp_all add: qk(1))
    moreover have "k \<le> 63" "q * 64 + k = r" using m [of r] digit_split(1) [of r] by (simp_all add: qk)
    moreover have "EncodeRune r = [192 + q, 128 + k]" using 2 by (simp add: EncodeRune_def qk)
    ultimately show ?thesis by (simp add: contByte_def)
  next
    case 3
    then have q: "r div 4096 \<le> 15" by simp
    have low: "32 \<le> r div 64 mod 64" if "r div 4096 = 0" using that 3 by (simp add: div_eq_0_iff)
    have high: "r div 64 mod 64 \<le> 31" if "r div 4096 = 13"
    proof (rule ccontr)
      assume "\<not> r div 64 mod 64 \<le> 31"
      then have "55296 \<le> r" "r \<le> 57343" using that digit_split(2) [of r] m [of r] m [of "r div 64"] by linarith+
      then show False using assms by (simp add: validRune_def)
    qed
    have v: "\<not> (55296 \<le> r \<and> r \<le> 57343)" "\<not> 1114111 < r" using assms by (simp_all add: validRune_def)
    have "EncodeRune r = [224 + r div 4096, 128 + r div 64 mod 64, 128 + r mod 64]"
      using 3 v unfolding EncodeRune_def by auto
    then show ?thesis
      using q low high m [of r] m [of "r div 64"] digit_split(2) [of r] by (auto simp: contByte_def)
  next
    case 4
    have v: "r \<le> 1114111" using assms by (simp add: validRune_def)
    then have q: "r div 262144 \<le> 4" by simp
    have low: "16 \<le> r div 4096 mod 64" if "r div 262144 = 0" using that 4 by (simp add: div_eq_0_iff)
    have high: "r div 4096 mod 64 \<le> 15" if "r div 262144 = 4"
      using that v digit_split(3) [of r] by linarith
    have "EncodeRune r = [240 + r div 262144, 128 + r div 4096 mod 64, 128 + r div 64 mod 64, 128 + r mod 64]"
      using 4 v unfolding EncodeRune_def by simp
    then show ?thesis
      using q low high m [of r] m [of "r div 64"] m [of "r div 4096"] digit_split(3) [of r] by (auto simp: contByte_def)
  qed (simp add: EncodeRune_def)
qed

lemma decodeRunes_step:
  "bs \<noteq> [] \<Longrightarrow> decodeRunes bs = DecodeRune bs # decodeRunes (drop (snd (DecodeRune bs)) bs)"
  by (cases bs) (simp_all del: DecodeRune.simps)

lemma decodeRunes_bytes:
  "\<forall>r \<in> set rs. validRune r \<Longrightarrow> decodeRunes (utf8_bytes rs) = map (\<lambda>r. (r, length (EncodeRune r))) rs"
proof (induction rs)
  case (Cons r rs)
  have "decodeRunes (utf8_bytes (r # rs)) = decodeRunes (EncodeRune r @ utf8_bytes rs)" by (simp add: utf8_bytes_def)
  also have "\<dots> = (r, length (EncodeRune r)) # decodeRunes (utf8_bytes rs)"
    using decodeRunes_step [of "EncodeRune r @ utf8_bytes rs"] DecodeRune_Encode Cons.prems EncodeRune_length by simp
  finally show ?case using Cons by simp
qed (simp add: utf8_bytes_def)

lemma utf8_string_bytes: "map of_char (utf8_string rs) = utf8_bytes rs"
proof -
  have "\<forall>b \<in> set (utf8_bytes rs). b < 256" using EncodeRune_bytes by (auto simp: utf8_bytes_def)
  then show ?thesis by (simp add: utf8_string_def map_idI)
qed

text \<open>Text that is written as UTF-8 is valid and reads back as the same runes.\<close>

theorem utf8_roundtrip:
  assumes "\<forall>r \<in> set rs. validRune r"
  shows "utf8_runes (utf8_string rs) = rs \<and> ValidString (utf8_string rs)"
proof -
  have "length (EncodeRune RuneError) \<noteq> 1" by (simp add: EncodeRune_def RuneError_def)
  then show ?thesis
    using decodeRunes_bytes [OF assms]
    by (auto simp: utf8_runes_def utf8_string_bytes ValidString_def list_all_iff comp_def)
qed

theorem utf8_roundtrip_witness:
  "utf8_runes (utf8_string [97, 233, 8364, 128512]) = [97, 233, 8364, 128512]"
  using utf8_roundtrip [of "[97, 233, 8364, 128512]"] by (simp add: validRune_def)

section \<open>What the search vector holds\<close>

lemma AddText_eq:
  "AddText u tables text w v = Some (addTokens w (concat (tokensOf u tables text)) (firstPosition v) v)"
  by (simp add: AddText_def)

definition wordsOf :: "unicode \<Rightarrow> xlit \<Rightarrow> runes \<Rightarrow> runes set" where
  "wordsOf u tables text = set (concat (tokensOf u tables text))"

lemma AddText_labels:
  assumes "AddText u tables text w v = Some v'"
  shows "labelAt v lexeme pos = Some x \<Longrightarrow> labelAt v' lexeme pos = Some x"
    and "lexeme \<in> wordsOf u tables text \<Longrightarrow> \<exists>pos. labelAt v' lexeme pos = Some w"
    and "labelAt v' lexeme pos = Some x \<Longrightarrow> labelAt v lexeme pos = Some x \<or> x = w \<and> lexeme \<in> wordsOf u tables text"
proof -
  let ?ts = "concat (tokensOf u tables text)" and ?n = "firstPosition v"
  have at: "labelAt v' k p = (if ?n \<le> p \<and> p < ?n + int (length ?ts) \<and> ?ts ! nat (p - ?n) = k then Some w else labelAt v k p)"
    for k p
  proof -
    have "v' = addTokens w ?ts ?n v" using assms by (simp add: AddText_eq)
    then show ?thesis by (simp only: addTokens_labelAt)
  qed
  show "labelAt v lexeme pos = Some x \<Longrightarrow> labelAt v' lexeme pos = Some x"
    using firstPosition_bounds(2) [of v lexeme pos] by (simp add: at)
  show "\<exists>pos. labelAt v' lexeme pos = Some w" if m: "lexeme \<in> wordsOf u tables text"
  proof -
    obtain i where "i < length ?ts" "?ts ! i = lexeme"
      using m unfolding wordsOf_def in_set_conv_nth by blast
    then show ?thesis by (intro exI [of _ "?n + int i"]) (simp add: at)
  qed
  show "labelAt v' lexeme pos = Some x \<Longrightarrow> labelAt v lexeme pos = Some x \<or> x = w \<and> lexeme \<in> wordsOf u tables text"
    using nth_mem [of "nat (pos - ?n)" ?ts] by (auto simp: at wordsOf_def simp del: set_concat split: if_splits)
qed

lemma addTexts_some: "\<exists>v'. addTexts u tables ss w v = Some v'"
  by (induction ss arbitrary: v) (simp_all add: AddText_eq)

lemma addTexts_labels:
  "addTexts u tables ss w v = Some v' \<Longrightarrow> labelAt v lexeme pos = Some x \<Longrightarrow> labelAt v' lexeme pos = Some x"
  "addTexts u tables ss w v = Some v' \<Longrightarrow> s \<in> set ss \<Longrightarrow> lexeme \<in> wordsOf u tables s \<Longrightarrow> \<exists>pos. labelAt v' lexeme pos = Some w"
  "addTexts u tables ss w v = Some v' \<Longrightarrow> labelAt v' lexeme pos = Some x \<Longrightarrow>
     labelAt v lexeme pos = Some x \<or> x = w \<and> (\<exists>s \<in> set ss. lexeme \<in> wordsOf u tables s)"
proof (induction ss arbitrary: v lexeme pos x)
  case (Cons a ss)
  { case 1 then show ?case using Cons(1) AddText_labels(1) by (fastforce split: option.splits) }
  { case 2
    then obtain v1 where v1: "AddText u tables a w v = Some v1" "addTexts u tables ss w v1 = Some v'"
      by (auto split: option.splits)
    show ?case
    proof (cases "s = a")
      case True
      then show ?thesis using AddText_labels(2) [OF v1(1)] Cons(1) [OF v1(2)] 2(3) by blast
    next
      case False
      then show ?thesis using Cons(2) [OF v1(2)] 2 by simp
    qed }
  { case 3
    then obtain v1 where v1: "AddText u tables a w v = Some v1" "addTexts u tables ss w v1 = Some v'"
      by (auto split: option.splits)
    show ?case using Cons(3) [OF v1(2) 3(2)] AddText_labels(3) [OF v1(1)] by auto }
qed simp_all

lemma Torrent_UpdateTsv_some: "\<exists>v. Torrent_UpdateTsv u tables n base t = Some (t\<lparr>to_Tsv := v\<rparr>)"
proof -
  obtain v where "addTexts u tables (fileSearchStrings u n (to_Files t)) TsvectorWeightD
      (addTokens TsvectorWeightA (concat (tokensOf u tables (to_Name t)))
        (firstPosition (if to_ContentID t = None then fmempty else base)) (if to_ContentID t = None then fmempty else base)) = Some v"
    using addTexts_some by blast
  then show ?thesis by (intro exI [of _ v]) (simp only: Torrent_UpdateTsv_def AddText_eq Let_def option.simps)
qed

lemma Content_UpdateTsv_some: "\<exists>v. Content_UpdateTsv u tables c = Some v"
  by (simp add: Content_UpdateTsv_def AddText_eq)

text \<open>The search vector of a torrent is always built: it keeps every label of the vector of the
  attached content, holds every word of the name with weight A and every word of the search strings of
  the files with weight D, and holds nothing else.\<close>

theorem UpdateTsv_words:
  "\<exists>v. Torrent_UpdateTsv u tables n base t = Some (t\<lparr>to_Tsv := v\<rparr>) \<and>
    (let start = (if to_ContentID t = None then fmempty else base);
         files = (\<Union>s \<in> set (fileSearchStrings u n (to_Files t)). wordsOf u tables s) in
     {(k, p, w). labelAt start k p = Some w} \<subseteq> {(k, p, w). labelAt v k p = Some w} \<and>
     wordsOf u tables (to_Name t) \<subseteq> {k. \<exists>p. labelAt v k p = Some TsvectorWeightA} \<and>
     files \<subseteq> {k. \<exists>p. labelAt v k p = Some TsvectorWeightD} \<and>
     {(k, p, w). labelAt v k p = Some w} \<subseteq> {(k, p, w). labelAt start k p = Some w \<or>
        w = TsvectorWeightA \<and> k \<in> wordsOf u tables (to_Name t) \<or> w = TsvectorWeightD \<and> k \<in> files})"
proof -
  let ?start = "if to_ContentID t = None then fmempty else base"
  obtain v1 where v1: "AddText u tables (to_Name t) TsvectorWeightA ?start = Some v1" by (simp add: AddText_eq)
  obtain v where v: "addTexts u tables (fileSearchStrings u n (to_Files t)) TsvectorWeightD v1 = Some v"
    using addTexts_some by blast
  have "Torrent_UpdateTsv u tables n base t = Some (t\<lparr>to_Tsv := v\<rparr>)"
    using v1 v by (simp add: Torrent_UpdateTsv_def Let_def)
  moreover have "{(k, p, w). labelAt ?start k p = Some w} \<subseteq> {(k, p, w). labelAt v k p = Some w}"
    using AddText_labels(1) [OF v1] addTexts_labels(1) [OF v] by (intro subsetI) force
  moreover have "wordsOf u tables (to_Name t) \<subseteq> {k. \<exists>p. labelAt v k p = Some TsvectorWeightA}"
    using AddText_labels(2) [OF v1] addTexts_labels(1) [OF v] by blast
  moreover have "(\<Union>s \<in> set (fileSearchStrings u n (to_Files t)). wordsOf u tables s) \<subseteq>
      {k. \<exists>p. labelAt v k p = Some TsvectorWeightD}"
    using addTexts_labels(2) [OF v] by blast
  moreover have "{(k, p, w). labelAt v k p = Some w} \<subseteq> {(k, p, w). labelAt ?start k p = Some w \<or>
      w = TsvectorWeightA \<and> k \<in> wordsOf u tables (to_Name t) \<or>
      w = TsvectorWeightD \<and> k \<in> (\<Union>s \<in> set (fileSearchStrings u n (to_Files t)). wordsOf u tables s)}"
  proof (intro subsetI)
    fix e assume "e \<in> {(k, p, w). labelAt v k p = Some w}"
    then obtain k p w where e: "e = (k, p, w)" "labelAt v k p = Some w" by blast
    then show "e \<in> {(k, p, w). labelAt ?start k p = Some w \<or>
      w = TsvectorWeightA \<and> k \<in> wordsOf u tables (to_Name t) \<or>
      w = TsvectorWeightD \<and> k \<in> (\<Union>s \<in> set (fileSearchStrings u n (to_Files t)). wordsOf u tables s)}"
      using AddText_labels(3) [OF v1, of k p w] addTexts_labels(3) [OF v e(2)]
      unfolding mem_Collect_eq prod.case UN_iff by blast
  qed
  ultimately show ?thesis
    unfolding Let_def by (intro exI [of _ v]) (rule conjI, assumption, intro conjI, assumption+)
qed

section \<open>A word that is lost\<close>

lemma prefixEnd_prefix: "prefixEnd p (p @ x) = None"
  by (induction p) auto

text \<open>A file whose path is the beginning of the path before it adds nothing to the search strings,
  even when its last word is only the beginning of the other one's, so that no search finds it.\<close>

theorem shorter_path_lost:
  assumes "joinPath (tf_PathParts f) = joinPath (tf_PathParts g) @ x"
  shows "fileSearchStrings u 0 [f, g] = fileSearchStrings u 0 [f]"
proof -
  have "firstPassLoop u [q @ x, q] [] = firstPassLoop u [q @ x] []" for q
    using prefixEnd_prefix [of q x] by (cases "q @ x") (auto split: option.split)
  then have "firstPassLoop u [joinPath (tf_PathParts f), joinPath (tf_PathParts g)] [] =
    firstPassLoop u [joinPath (tf_PathParts f)] []"
    by (simp only: assms)
  then show ?thesis by (simp add: fileSearchStrings_def)
qed

definition pathFile :: "string \<Rightarrow> torrent_file" where
  "pathFile p = \<lparr>tf_Index = 0, tf_PathParts = [runes_of p], tf_Size = 1\<rparr>"

theorem shorter_path_lost_witness:
  "fileSearchStrings asciiOnly 0 [pathFile ''wildcat'', pathFile ''wild''] = fileSearchStrings asciiOnly 0 [pathFile ''wildcat'']"
  by (rule shorter_path_lost [where x = "''cat''"]) code_simp

end
