(* ===== verification/Webhook.thy ===== *)
theory Webhook
  imports TorrentText "HOL-Library.Sublist" "HOL-Library.Char_ord"
begin

text \<open>
  The webhook publisher, \<open>src/internal/webhook\<close>, with the pattern lists of \<open>src/internal/filter\<close> that
  the processor shares with it.

  \<^item> A compiled expression is what it matches, a predicate on text; \<open>regexp.Compile\<close>, the Unicode
    folding of \<open>strings.EqualFold\<close> and the HTTP exchange are parameters.
  \<^item> The delivery queue is the list of the envelopes in the channel with the channel's capacity.
    \<open>Publish\<close>, \<open>Update\<close>, \<open>Stop\<close> and an iteration of the delivery loop are steps that may come in any order.
  \<^item> The state records what happened on the wire: each delivery attempt with its URL.
\<close>

section \<open>filter.go\<close>

type_synonym regex = "runes \<Rightarrow> bool"

record patterns =
  pt_titles :: "regex list"
  pt_filenames :: "regex list"

datatype pattern_error = InvalidTitlePattern string | InvalidFilenamePattern string

definition foldPrefix :: string where "foldPrefix = ''(?i)''"

fun compileAll :: "(string \<Rightarrow> regex option) \<Rightarrow> (string \<Rightarrow> pattern_error) \<Rightarrow> string list \<Rightarrow> pattern_error + regex list" where
  "compileAll compile err [] = Inr []"
| "compileAll compile err (p # ps) = (case compile (foldPrefix @ p) of
     None \<Rightarrow> Inl (err p)
   | Some re \<Rightarrow> bind_sum (compileAll compile err ps) (\<lambda>res. Inr (re # res)))"

definition filter_Compile :: "(string \<Rightarrow> regex option) \<Rightarrow> string list \<Rightarrow> string list \<Rightarrow> pattern_error + patterns" where
  "filter_Compile compile titles filenames =
     bind_sum (compileAll compile InvalidTitlePattern titles) (\<lambda>ts.
     bind_sum (compileAll compile InvalidFilenamePattern filenames) (\<lambda>fs.
     Inr \<lparr>pt_titles = ts, pt_filenames = fs\<rparr>))"

fun AnyMatch :: "regex list \<Rightarrow> runes \<Rightarrow> bool" where
  "AnyMatch [] s = False"
| "AnyMatch (p # ps) s = (if p s then True else AnyMatch ps s)"

section \<open>config.go\<close>

definition EventClassified :: string where "EventClassified = ''classified''"

definition defaultTimeout :: int where "defaultTimeout = 10 * Second"
definition defaultMaxRetries :: int where "defaultMaxRetries = 3"
definition defaultQueueSize :: int where "defaultQueueSize = 1000"

record webhook_config =
  wc_Enabled :: bool
  wc_Urls :: "string list"
  wc_Events :: "string list"
  wc_Categories :: "string list"
  wc_TitlePatterns :: "string list"
  wc_FilenamePatterns :: "string list"
  wc_Timeout :: int
  wc_MaxRetries :: int
  wc_BaseURL :: string
  wc_Headers :: "(string \<times> string) list"
  wc_QueueSize :: int

definition webhook_NewDefaultConfig :: webhook_config where
  "webhook_NewDefaultConfig = \<lparr>wc_Enabled = False, wc_Urls = [], wc_Events = [EventClassified], wc_Categories = [],
     wc_TitlePatterns = [], wc_FilenamePatterns = [], wc_Timeout = defaultTimeout,
     wc_MaxRetries = defaultMaxRetries, wc_BaseURL = [], wc_Headers = [], wc_QueueSize = defaultQueueSize\<rparr>"

definition queueCapacity :: "int \<Rightarrow> nat" where
  "queueCapacity n = nat (if n < 1 then defaultQueueSize else n)"

section \<open>event.go\<close>

record event =
  ev_Event :: string
  ev_InfoHash :: string
  ev_Name :: runes
  ev_Size :: int
  ev_ContentType :: "string option"
  ev_ContentSource :: "runes option"
  ev_ContentID :: "runes option"
  ev_Languages :: "lang list"
  ev_Seeders :: "int option"
  ev_Leechers :: "int option"
  ev_FilesCount :: "int option"
  ev_Files :: "runes list"
  ev_Magnet :: string
  ev_TorrentURL :: string

definition NewClassifiedEvent :: "torrent \<Rightarrow> event" where
  "NewClassifiedEvent t = \<lparr>ev_Event = EventClassified, ev_InfoHash = id_String (to_InfoHash t), ev_Name = to_Name t,
     ev_Size = sint (to_Size t), ev_ContentType = map_option contentTypeString (to_ContentType t),
     ev_ContentSource = to_ContentSource t, ev_ContentID = to_ContentID t,
     ev_Languages = (case to_Languages t of None \<Rightarrow> [] | Some ls \<Rightarrow> sorted_list_of_fset ls),
     ev_Seeders = map_option ClampUint (to_Seeders t), ev_Leechers = map_option ClampUint (to_Leechers t),
     ev_FilesCount = map_option ClampUint (to_FilesCount t),
     ev_Files = map (\<lambda>f. JoinRunes (tf_PathParts f) [47]) (to_Files t), ev_Magnet = MagnetURI t, ev_TorrentURL = []\<rparr>"

section \<open>publisher.go\<close>

record compiled_filter =
  cf_categories :: "string set"
  cf_titlePatterns :: "regex list"
  cf_filenamePatterns :: "regex list"

definition compileFilter :: "(string \<Rightarrow> regex option) \<Rightarrow> webhook_config \<Rightarrow> pattern_error + compiled_filter" where
  "compileFilter compile cfg =
     bind_sum (filter_Compile compile (wc_TitlePatterns cfg) (wc_FilenamePatterns cfg)) (\<lambda>p.
     Inr \<lparr>cf_categories = set (wc_Categories cfg), cf_titlePatterns = pt_titles p, cf_filenamePatterns = pt_filenames p\<rparr>)"

definition filter_matches :: "compiled_filter \<Rightarrow> event \<Rightarrow> bool" where
  "filter_matches f e \<longleftrightarrow>
     \<not> (cf_categories f \<noteq> {} \<and>
        (case ev_ContentType e of None \<Rightarrow> ''unknown'' | Some ct \<Rightarrow> ct) \<notin> cf_categories f) \<and>
     \<not> (cf_titlePatterns f \<noteq> [] \<and> \<not> AnyMatch (cf_titlePatterns f) (ev_Name e)) \<and>
     \<not> (cf_filenamePatterns f \<noteq> [] \<and> \<not> list_ex (AnyMatch (cf_filenamePatterns f)) (ev_Files e))"

record envelope =
  en_event :: event
  en_urls :: "string list"
  en_timeout :: int
  en_retries :: int
  en_headers :: "(string \<times> string) list"

datatype post_result = PostOk | PostError string

record publisher =
  pb_config :: webhook_config
  pb_filter :: compiled_filter
  pb_queue :: "envelope list"
  pb_capacity :: nat
  pb_started :: bool
  pb_cancelled :: bool
  pb_posts :: "(envelope \<times> string \<times> post_result) list"
  pb_done :: "envelope list"

text \<open>The HTTP exchange may depend on all that went before; the flag is the cancelled context.\<close>

record webhook_env =
  wv_compile :: "string \<Rightarrow> regex option"
  wv_EqualFold :: "string \<Rightarrow> string \<Rightarrow> bool"
  wv_post :: "bool \<Rightarrow> nat \<Rightarrow> envelope \<Rightarrow> string \<Rightarrow> post_result"

definition passFilter :: compiled_filter where
  "passFilter = \<lparr>cf_categories = {}, cf_titlePatterns = [], cf_filenamePatterns = []\<rparr>"

definition storeFilter :: "webhook_env \<Rightarrow> webhook_config \<Rightarrow> publisher \<Rightarrow> publisher" where
  "storeFilter we cfg p = (case compileFilter (wv_compile we) cfg of Inl e \<Rightarrow> p | Inr f \<Rightarrow> p\<lparr>pb_filter := f\<rparr>)"

definition NewPublisher :: "webhook_env \<Rightarrow> webhook_config \<Rightarrow> publisher" where
  "NewPublisher we cfg = storeFilter we cfg \<lparr>pb_config = cfg, pb_filter = passFilter, pb_queue = [],
     pb_capacity = queueCapacity (wc_QueueSize cfg), pb_started = False, pb_cancelled = False, pb_posts = [], pb_done = []\<rparr>"

text \<open>The old channel is emptied into the new one; what finds it full is dropped.\<close>

fun drainInto :: "nat \<Rightarrow> envelope list \<Rightarrow> envelope list \<Rightarrow> envelope list" where
  "drainInto cap [] q = q"
| "drainInto cap (e # old) q = (if length q < cap then drainInto cap old (q @ [e]) else drainInto cap old q)"

definition resizeQueue :: "int \<Rightarrow> publisher \<Rightarrow> publisher" where
  "resizeQueue n p =
     (let cap = queueCapacity n in
      if pb_capacity p = cap then p
      else p\<lparr>pb_queue := drainInto cap (pb_queue p) [], pb_capacity := cap\<rparr>)"

definition webhook_Update :: "webhook_env \<Rightarrow> webhook_config \<Rightarrow> publisher \<Rightarrow> publisher" where
  "webhook_Update we cfg p = resizeQueue (wc_QueueSize cfg) (storeFilter we cfg (p\<lparr>pb_config := cfg\<rparr>))"

definition eventEnabled :: "webhook_env \<Rightarrow> webhook_config \<Rightarrow> string \<Rightarrow> bool" where
  "eventEnabled we cfg e = list_ex (\<lambda>x. wv_EqualFold we x e) (wc_Events cfg)"

definition trimRightSlash :: "string \<Rightarrow> string" where
  "trimRightSlash s = rev (dropWhile (\<lambda>c. c = CHR ''/'') (rev s))"

definition withTorrentURL :: "webhook_config \<Rightarrow> event \<Rightarrow> event" where
  "withTorrentURL cfg e =
     (if ev_TorrentURL e = [] \<and> wc_BaseURL cfg \<noteq> []
      then e\<lparr>ev_TorrentURL := trimRightSlash (wc_BaseURL cfg) @ ''/api/torrents/'' @ ev_InfoHash e @ ''/download''\<rparr>
      else e)"

definition envelopeFor :: "webhook_config \<Rightarrow> event \<Rightarrow> envelope" where
  "envelopeFor cfg e = \<lparr>en_event = withTorrentURL cfg e, en_urls = wc_Urls cfg, en_timeout = wc_Timeout cfg,
     en_retries = wc_MaxRetries cfg, en_headers = wc_Headers cfg\<rparr>"

definition accepts :: "webhook_env \<Rightarrow> publisher \<Rightarrow> event \<Rightarrow> bool" where
  "accepts we p e \<longleftrightarrow> wc_Enabled (pb_config p) \<and> eventEnabled we (pb_config p) (ev_Event e) \<and>
     wc_Urls (pb_config p) \<noteq> [] \<and> filter_matches (pb_filter p) e"

definition webhook_Publish :: "webhook_env \<Rightarrow> event \<Rightarrow> publisher \<Rightarrow> publisher" where
  "webhook_Publish we e p =
     (if \<not> accepts we p e then p
      else if length (pb_queue p) < pb_capacity p then p\<lparr>pb_queue := pb_queue p @ [envelopeFor (pb_config p) e]\<rparr>
      else p)"

text \<open>Up to \<open>n\<close> attempts at one URL.  A wait between two attempts ends the delivery when the context is
  cancelled; so it does here, where the context changes between deliveries only.\<close>

fun deliverTo :: "webhook_env \<Rightarrow> nat \<Rightarrow> envelope \<Rightarrow> string \<Rightarrow> publisher \<Rightarrow> publisher" where
  "deliverTo we 0 en url p = p"
| "deliverTo we (Suc n) en url p =
     (let r = wv_post we (pb_cancelled p) (length (pb_posts p)) en url;
          p1 = p\<lparr>pb_posts := pb_posts p @ [(en, url, r)]\<rparr> in
      if r = PostOk then p1
      else if n > 0 \<and> pb_cancelled p then p1
      else deliverTo we n en url p1)"

definition attemptsOf :: "int \<Rightarrow> nat" where
  "attemptsOf retries = nat (if retries + 1 < 1 then 1 else retries + 1)"

definition deliver :: "webhook_env \<Rightarrow> envelope \<Rightarrow> publisher \<Rightarrow> publisher" where
  "deliver we en p =
     (let p1 = fold (deliverTo we (attemptsOf (en_retries en)) en) (en_urls en) p in p1\<lparr>pb_done := pb_done p1 @ [en]\<rparr>)"

text \<open>An iteration of the delivery loop, and what it does when the context is cancelled.\<close>

definition runOnce :: "webhook_env \<Rightarrow> publisher \<Rightarrow> publisher" where
  "runOnce we p = (case pb_queue p of [] \<Rightarrow> p | en # q \<Rightarrow> deliver we en (p\<lparr>pb_queue := q\<rparr>))"

definition webhook_drain :: "webhook_env \<Rightarrow> publisher \<Rightarrow> publisher" where
  "webhook_drain we p = fold (deliver we) (pb_queue p) (p\<lparr>pb_queue := []\<rparr>)"

definition webhook_Start :: "publisher \<Rightarrow> publisher" where
  "webhook_Start p = (if pb_started p then p else p\<lparr>pb_started := True, pb_cancelled := False\<rparr>)"

definition webhook_Stop :: "webhook_env \<Rightarrow> publisher \<Rightarrow> publisher" where
  "webhook_Stop we p = (if pb_started p then webhook_drain we (p\<lparr>pb_started := False, pb_cancelled := True\<rparr>) else p)"

section \<open>Runs\<close>

datatype webhook_step = WPublish event | WUpdate webhook_config | WRun | WStart | WStop

fun webhook_exec :: "webhook_env \<Rightarrow> webhook_step \<Rightarrow> publisher \<Rightarrow> publisher" where
  "webhook_exec we (WPublish e) p = webhook_Publish we e p"
| "webhook_exec we (WUpdate cfg) p = webhook_Update we cfg p"
| "webhook_exec we WRun p = (if pb_started p then runOnce we p else p)"
| "webhook_exec we WStart p = webhook_Start p"
| "webhook_exec we WStop p = webhook_Stop we p"

definition webhook_runs :: "webhook_env \<Rightarrow> webhook_step list \<Rightarrow> publisher \<Rightarrow> publisher" where
  "webhook_runs we steps p = fold (webhook_exec we) steps p"

section \<open>The delivery queue\<close>

text \<open>The envelopes of the events that a run accepts, and the runs that lose none of them.\<close>

fun accepted :: "webhook_env \<Rightarrow> webhook_step list \<Rightarrow> publisher \<Rightarrow> envelope list" where
  "accepted we [] p = []"
| "accepted we (st # sts) p =
     (case st of WPublish e \<Rightarrow> if accepts we p e then [envelopeFor (pb_config p) e] else [] | _ \<Rightarrow> []) @
     accepted we sts (webhook_exec we st p)"

fun roomFor :: "webhook_env \<Rightarrow> webhook_step \<Rightarrow> publisher \<Rightarrow> bool" where
  "roomFor we (WPublish e) p \<longleftrightarrow> accepts we p e \<longrightarrow> length (pb_queue p) < pb_capacity p"
| "roomFor we (WUpdate cfg) p \<longleftrightarrow> length (pb_queue p) \<le> queueCapacity (wc_QueueSize cfg)"
| "roomFor we _ p \<longleftrightarrow> True"

fun lossless :: "webhook_env \<Rightarrow> webhook_step list \<Rightarrow> publisher \<Rightarrow> bool" where
  "lossless we [] p \<longleftrightarrow> True"
| "lossless we (st # sts) p \<longleftrightarrow> roomFor we st p \<and> lossless we sts (webhook_exec we st p)"

lemma drainInto_take: "length q \<le> cap \<Longrightarrow> drainInto cap old q = take cap (q @ old)"
proof (induction old arbitrary: q)
  case (Cons e old)
  then show ?case by (cases "length q < cap") (auto simp: take_Cons')
qed simp

lemma deliverTo_fields [simp]:
  "pb_queue (deliverTo we n en url p) = pb_queue p" "pb_done (deliverTo we n en url p) = pb_done p"
  "pb_capacity (deliverTo we n en url p) = pb_capacity p" "pb_config (deliverTo we n en url p) = pb_config p"
  "pb_cancelled (deliverTo we n en url p) = pb_cancelled p" "pb_filter (deliverTo we n en url p) = pb_filter p"
  by (induction n arbitrary: p) (simp_all add: Let_def)

lemma fold_deliverTo_fields [simp]:
  "pb_queue (fold (deliverTo we n en) urls p) = pb_queue p" "pb_done (fold (deliverTo we n en) urls p) = pb_done p"
  "pb_capacity (fold (deliverTo we n en) urls p) = pb_capacity p"
  "pb_cancelled (fold (deliverTo we n en) urls p) = pb_cancelled p"
  by (induction urls arbitrary: p) simp_all

lemma deliver_fields [simp]:
  "pb_queue (deliver we en p) = pb_queue p" "pb_done (deliver we en p) = pb_done p @ [en]"
  "pb_capacity (deliver we en p) = pb_capacity p" "pb_cancelled (deliver we en p) = pb_cancelled p"
  by (simp_all add: deliver_def Let_def)

lemma fold_deliver_fields [simp]:
  "pb_queue (fold (deliver we) es p) = pb_queue p" "pb_done (fold (deliver we) es p) = pb_done p @ es"
  "pb_capacity (fold (deliver we) es p) = pb_capacity p" "pb_cancelled (fold (deliver we) es p) = pb_cancelled p"
  by (induction es arbitrary: p) simp_all

lemma storeFilter_fields [simp]:
  "pb_queue (storeFilter we cfg p) = pb_queue p" "pb_done (storeFilter we cfg p) = pb_done p"
  "pb_capacity (storeFilter we cfg p) = pb_capacity p"
  by (simp_all add: storeFilter_def split: sum.split)

definition queue_ok :: "publisher \<Rightarrow> bool" where
  "queue_ok p \<longleftrightarrow> length (pb_queue p) \<le> pb_capacity p \<and> 0 < pb_capacity p"

lemma queueCapacity_pos: "0 < queueCapacity n"
  by (simp add: queueCapacity_def defaultQueueSize_def)

lemma resizeQueue_queue:
  "queue_ok p \<Longrightarrow> pb_queue (resizeQueue n p) = take (queueCapacity n) (pb_queue p) \<and>
    pb_capacity (resizeQueue n p) = queueCapacity n \<and> pb_done (resizeQueue n p) = pb_done p"
  by (auto simp: resizeQueue_def Let_def drainInto_take queue_ok_def)

lemma subseq_app2: "subseq a b \<Longrightarrow> subseq (xs @ a @ ys) (xs @ b @ ys)"
  by (intro list_emb_append_mono) simp_all

lemma exec_queue:
  assumes "queue_ok p"
  shows "queue_ok (webhook_exec we st p)"
    and "subseq (pb_done (webhook_exec we st p) @ pb_queue (webhook_exec we st p))
      (pb_done p @ pb_queue p @ accepted we [st] p)"
    and "roomFor we st p \<Longrightarrow> pb_done (webhook_exec we st p) @ pb_queue (webhook_exec we st p) =
      pb_done p @ pb_queue p @ accepted we [st] p"
proof -
  let ?p = "webhook_exec we st p"
  have "queue_ok ?p \<and> subseq (pb_done ?p @ pb_queue ?p) (pb_done p @ pb_queue p @ accepted we [st] p) \<and>
      (roomFor we st p \<longrightarrow> pb_done ?p @ pb_queue ?p = pb_done p @ pb_queue p @ accepted we [st] p)"
  proof (cases st)
    case (WPublish e)
    then show ?thesis using assms by (auto simp: webhook_Publish_def queue_ok_def)
  next
    case (WUpdate cfg)
    let ?u = "storeFilter we cfg (p\<lparr>pb_config := cfg\<rparr>)"
    have "queue_ok ?u" using assms by (simp add: queue_ok_def)
    then have r: "pb_queue ?p = take (queueCapacity (wc_QueueSize cfg)) (pb_queue p)"
        "pb_capacity ?p = queueCapacity (wc_QueueSize cfg)" "pb_done ?p = pb_done p"
      using resizeQueue_queue [of ?u "wc_QueueSize cfg"] WUpdate by (simp_all add: webhook_Update_def)
    have "subseq (pb_done p @ take n (pb_queue p)) (pb_done p @ pb_queue p)" for n
      by (intro list_emb_append_mono subseq_order.order_refl) (metis append_take_drop_id list_emb_prefix subseq_order.order_refl)
    then show ?thesis using r queueCapacity_pos WUpdate by (auto simp: queue_ok_def)
  next
    case WRun
    then show ?thesis using assms by (cases "pb_queue p") (auto simp: runOnce_def queue_ok_def)
  next
    case WStart
    then show ?thesis using assms by (simp add: webhook_Start_def queue_ok_def)
  next
    case WStop
    then show ?thesis using assms by (simp add: webhook_Stop_def webhook_drain_def queue_ok_def)
  qed
  then show "queue_ok ?p" "subseq (pb_done ?p @ pb_queue ?p) (pb_done p @ pb_queue p @ accepted we [st] p)"
    "roomFor we st p \<Longrightarrow> pb_done ?p @ pb_queue ?p = pb_done p @ pb_queue p @ accepted we [st] p" by blast+
qed


lemma NewPublisher_ok: "queue_ok (NewPublisher we cfg)"
  by (simp add: NewPublisher_def queue_ok_def queueCapacity_pos)

definition silentEnv :: webhook_env where
  "silentEnv = \<lparr>wv_compile = (\<lambda>_. None), wv_EqualFold = (=),
     wv_post = (\<lambda>cancelled n en url. if cancelled then PostError ''context canceled'' else PostOk)\<rparr>"


section \<open>Attempts\<close>

lemma map_shift: "map (\<lambda>i. f (m + i)) [0..<Suc k] = f m # map (\<lambda>i. f (Suc m + i)) [0..<k]"
  by (simp add: upt_conv_Cons map_Suc_upt [symmetric] del: upt_Suc)

lemma deliverTo_posts:
  "0 < n \<Longrightarrow> \<exists>k<n. \<exists>last. pb_posts (deliverTo we n en url p) = pb_posts p @
      map (\<lambda>i. (en, url, wv_post we (pb_cancelled p) (length (pb_posts p) + i) en url)) [0..<k] @ [(en, url, last)] \<and>
    (\<forall>i<k. wv_post we (pb_cancelled p) (length (pb_posts p) + i) en url \<noteq> PostOk) \<and>
    last = wv_post we (pb_cancelled p) (length (pb_posts p) + k) en url \<and>
    (last = PostOk \<or> k = n - 1 \<or> pb_cancelled p) \<and> (pb_cancelled p \<longrightarrow> k = 0)"
proof (induction n arbitrary: p)
  case (Suc n)
  let ?r = "wv_post we (pb_cancelled p) (length (pb_posts p)) en url"
  let ?p1 = "p\<lparr>pb_posts := pb_posts p @ [(en, url, ?r)]\<rparr>"
  show ?case
  proof (cases "?r = PostOk \<or> n = 0 \<or> pb_cancelled p")
    case True
    then show ?thesis by (intro exI [of _ 0]) (auto simp: Let_def)
  next
    case False
    then obtain k where k: "k < n" "pb_posts (deliverTo we n en url ?p1) = pb_posts ?p1 @
        map (\<lambda>i. (en, url, wv_post we (pb_cancelled p) (length (pb_posts ?p1) + i) en url)) [0..<k] @
          [(en, url, wv_post we (pb_cancelled p) (length (pb_posts ?p1) + k) en url)]"
      "\<forall>i<k. wv_post we (pb_cancelled p) (length (pb_posts ?p1) + i) en url \<noteq> PostOk"
      "wv_post we (pb_cancelled p) (length (pb_posts ?p1) + k) en url = PostOk \<or> k = n - 1"
      using Suc.IH [of ?p1] by auto
    note m = map_shift [of "\<lambda>j. (en, url, wv_post we (pb_cancelled p) j en url)" "length (pb_posts p)" k]
    have failed: "wv_post we (pb_cancelled p) (length (pb_posts p) + i) en url \<noteq> PostOk" if "i < Suc k" for i
      using that k(3) False by (cases i) auto
    show ?thesis
    proof (intro exI [of _ "Suc k"] exI conjI)
      show "pb_posts (deliverTo we (Suc n) en url p) = pb_posts p @
          map (\<lambda>i. (en, url, wv_post we (pb_cancelled p) (length (pb_posts p) + i) en url)) [0..<Suc k] @
          [(en, url, wv_post we (pb_cancelled p) (length (pb_posts p) + Suc k) en url)]"
        unfolding m using k(2) False by (cases "pb_cancelled p") (auto simp: Let_def)
    qed (use k failed False in auto)
  qed
qed simp

text \<open>An envelope is posted to a URL at least once and at most once more than the configured number
  of retries: after the first success, or after a failure that the cancelled context or the last attempt
  leaves without another, nothing more is sent there.\<close>

theorem deliverTo_attempts:
  "\<exists>k. 1 \<le> k \<and> k \<le> max 1 (en_retries en + 1) \<and>
    (\<exists>rs. length rs = nat k \<and>
      pb_posts (deliverTo we (attemptsOf (en_retries en)) en url p) = pb_posts p @ map (\<lambda>r. (en, url, r)) rs \<and>
      PostOk \<notin> set (butlast rs) \<and>
      (last rs = PostOk \<or> k = max 1 (en_retries en + 1) \<or> pb_cancelled p))"
proof -
  let ?n = "attemptsOf (en_retries en)"
  have n: "int ?n = max 1 (en_retries en + 1)" "0 < ?n" by (auto simp: attemptsOf_def)
  let ?r = "\<lambda>i. wv_post we (pb_cancelled p) (length (pb_posts p) + i) en url"
  obtain k where k: "k < ?n" "pb_posts (deliverTo we ?n en url p) = pb_posts p @ map (\<lambda>i. (en, url, ?r i)) [0..<k] @ [(en, url, ?r k)]"
    "\<forall>i<k. ?r i \<noteq> PostOk" "?r k = PostOk \<or> k = ?n - 1 \<or> pb_cancelled p"
    using deliverTo_posts [OF n(2), of we en url p] by blast
  have "PostOk \<notin> set (map ?r [0..<k])" using k(3) by (auto simp: eq_commute [of PostOk])
  moreover have "int (Suc k) = max 1 (en_retries en + 1)" if "k = ?n - 1" using that n by linarith
  moreover have "int (Suc k) \<le> max 1 (en_retries en + 1)" using k(1) n(1) by linarith
  ultimately show ?thesis
    using k(2,4) by (intro exI [of _ "int (Suc k)"] conjI exI [of _ "map ?r [0..<k] @ [?r k]"]) (auto simp: comp_def)
qed

section \<open>Stopping\<close>

lemma cancelled_posts:
  assumes "\<forall>n en url. wv_post we True n en url \<noteq> PostOk" "pb_cancelled p"
  shows "\<exists>xs. pb_posts (fold (deliver we) es p) = pb_posts p @ xs \<and> (\<forall>(en, url, r) \<in> set xs. r \<noteq> PostOk) \<and>
    map (\<lambda>(en, url, r). (en, url)) xs = concat (map (\<lambda>en. map (Pair en) (en_urls en)) es)"
  using assms(2)
proof (induction es arbitrary: p)
  case (Cons en es)
  have one: "\<exists>r. r \<noteq> PostOk \<and> pb_posts (deliverTo we (attemptsOf (en_retries en)) en url q) = pb_posts q @ [(en, url, r)]"
    if q: "pb_cancelled q" for url q
  proof -
    have "0 < attemptsOf (en_retries en)" by (simp add: attemptsOf_def)
    from deliverTo_posts [OF this, of we en url q] show ?thesis using q assms(1) by fastforce
  qed
  have urls: "\<exists>xs. pb_posts (fold (deliverTo we (attemptsOf (en_retries en)) en) urls q) = pb_posts q @ xs \<and>
      (\<forall>(en, url, r) \<in> set xs. r \<noteq> PostOk) \<and> map (\<lambda>(en, url, r). (en, url)) xs = map (Pair en) urls"
    if "pb_cancelled q" for urls q
    using that
  proof (induction urls arbitrary: q)
    case (Cons url urls)
    obtain r where r: "r \<noteq> PostOk"
      "pb_posts (deliverTo we (attemptsOf (en_retries en)) en url q) = pb_posts q @ [(en, url, r)]"
      using one [OF Cons.prems] by blast
    obtain xs where xs: "pb_posts (fold (deliverTo we (attemptsOf (en_retries en)) en) urls
        (deliverTo we (attemptsOf (en_retries en)) en url q)) = (pb_posts q @ [(en, url, r)]) @ xs"
      "\<forall>(en, url, r) \<in> set xs. r \<noteq> PostOk" "map (\<lambda>(en, url, r). (en, url)) xs = map (Pair en) urls"
      using Cons.IH [of "deliverTo we (attemptsOf (en_retries en)) en url q"] Cons.prems r(2) by auto
    then show ?case using r(1) by (intro exI [of _ "(en, url, r) # xs"]) simp
  qed simp
  obtain xs where xs: "pb_posts (deliver we en p) = pb_posts p @ xs" "\<forall>(en, url, r) \<in> set xs. r \<noteq> PostOk"
    "map (\<lambda>(en, url, r). (en, url)) xs = map (Pair en) (en_urls en)"
    using urls [OF Cons.prems] by (auto simp: deliver_def Let_def)
  obtain ys where ys: "pb_posts (fold (deliver we) es (deliver we en p)) = pb_posts (deliver we en p) @ ys"
    "\<forall>(en, url, r) \<in> set ys. r \<noteq> PostOk"
    "map (\<lambda>(en, url, r). (en, url)) ys = concat (map (\<lambda>en. map (Pair en) (en_urls en)) es)"
    using Cons.IH [of "deliver we en p"] Cons.prems by auto
  show ?case using xs ys by (intro exI [of _ "xs @ ys"]) auto
qed simp

text \<open>Stopping a publisher delivers none of the pending events: the queue is emptied after the
  context was cancelled, each envelope is tried once at each of its URLs with that context, as every
  such request fails, and is given up.\<close>

theorem stop_loses_pending:
  assumes "\<forall>n en url. wv_post we True n en url \<noteq> PostOk" "pb_started p"
  shows "pb_queue (webhook_Stop we p) = [] \<and> pb_done (webhook_Stop we p) = pb_done p @ pb_queue p \<and>
    (\<exists>xs. pb_posts (webhook_Stop we p) = pb_posts p @ xs \<and> (\<forall>(en, url, r) \<in> set xs. r \<noteq> PostOk) \<and>
      map (\<lambda>(en, url, r). (en, url)) xs = concat (map (\<lambda>en. map (Pair en) (en_urls en)) (pb_queue p)))"
  using cancelled_posts [OF assms(1), of "p\<lparr>pb_started := False, pb_cancelled := True, pb_queue := []\<rparr>" "pb_queue p"] assms(2)
  by (simp add: webhook_Stop_def webhook_drain_def)

definition sampleEvent :: event where
  "sampleEvent = NewClassifiedEvent sampleTorrent"

definition samplePublisher :: publisher where
  "samplePublisher = \<lparr>pb_config = webhook_NewDefaultConfig, pb_filter = passFilter,
     pb_queue = [envelopeFor (webhook_NewDefaultConfig\<lparr>wc_Urls := [''http://localhost'']\<rparr>) sampleEvent],
     pb_capacity = 1000, pb_started = True, pb_cancelled = False, pb_posts = [], pb_done = []\<rparr>"

theorem stop_loses_pending_witness:
  "\<exists>en r. pb_queue samplePublisher = [en] \<and> pb_queue (webhook_Stop silentEnv samplePublisher) = [] \<and>
     pb_posts (webhook_Stop silentEnv samplePublisher) = [(en, ''http://localhost'', r)] \<and> r \<noteq> PostOk"
proof -
  let ?en = "envelopeFor (webhook_NewDefaultConfig\<lparr>wc_Urls := [''http://localhost'']\<rparr>) sampleEvent"
  have q: "pb_queue samplePublisher = [?en]" "pb_started samplePublisher" "pb_posts samplePublisher = []"
    "en_urls ?en = [''http://localhost'']"
    by (simp_all add: samplePublisher_def envelopeFor_def)
  have "\<forall>n en url. wv_post silentEnv True n en url \<noteq> PostOk" by (simp add: silentEnv_def)
  from stop_loses_pending [OF this q(2)] obtain xs where xs: "pb_queue (webhook_Stop silentEnv samplePublisher) = []"
    "pb_posts (webhook_Stop silentEnv samplePublisher) = xs" "\<forall>(en, url, r) \<in> set xs. r \<noteq> PostOk"
    "map (\<lambda>(en, url, r). (en, url)) xs = [(?en, ''http://localhost'')]"
    using q by auto
  then show ?thesis using q(1) by (auto simp: map_eq_Cons_conv)
qed

end
