(* ===== verification/Processor.thy ===== *)
theory Processor
  imports ClassifierRun Webhook Pipeline
begin

text \<open>
  The processor, \<open>src/internal/processor\<close>: it loads the torrents of a message, drops those that the
  torrent filter refuses, classifies the others, stores what was found in one transaction, and passes
  failures on to the retry queue.

  \<^item> It composes the theories of its parts: the classifier's runner (ClassifierRun), the tables
    (TorrentDb), the search vectors (TorrentText), the retry queue (RetryQueue) and the publisher of
    webhooks (Webhook).  The torrents that the retry queue evicts are removed from the tables.
  \<^item> Each torrent of a message has a goroutine; the body of one is one step, and \<open>pr_order\<close> says in
    which order they come.  The sharing of a run between goroutines of the same hash is not modelled.
  \<^item> \<open>None\<close> is a run of the classifier that is not over within \<open>pr_fuel\<close> nested workflows.  A panic of a
    goroutine is recovered there, so that the torrent is neither stored nor retried.
\<close>

section \<open>Messages and state\<close>

datatype classify_mode = ClassifyModeDefault | ClassifyModeRematch

record message_params =
  mp_ClassifyMode :: classify_mode
  mp_ContentType :: "content_type option"
  mp_InfoHashes :: "ID list"

datatype torrent_filter_mode = TorrentFilterOff | TorrentFilterProcess | TorrentFilterDiscard

record torrent_filter_config =
  tc_Mode :: torrent_filter_mode
  tc_TitlePatterns :: "string list"
  tc_FilenamePatterns :: "string list"

record filter_state =
  fs_mode :: torrent_filter_mode
  fs_titlePatterns :: "regex list"
  fs_filenamePatterns :: "regex list"

text \<open>A torrent with the content that was attached to it, and the content's search vector.\<close>

type_synonym classified = "torrent \<times> (content \<times> tsvector) option"

datatype proc_msg = DeleteTopicMsg string | EnrichedMsg runes "runes list"

datatype proc_error = ProcFetch db_error | ProcPersist db_error | ProcLLM cerror

datatype proc_result = ProcOk | ProcErr proc_error | ProcPanic

record ('p, 'j) proc_state =
  ps_db :: torrent_db
  ps_retry :: "'j retry_db"
  ps_recent :: "ID \<Rightarrow> int option"
  ps_filter :: filter_state
  ps_runner :: "'p runner"
  ps_webhook :: publisher
  ps_out :: "proc_msg list"

record ('p, 'j, 'f) proc_env =
  pr_exec :: "torrent \<Rightarrow> 'p exec_env"
  pr_fuel :: nat
  pr_unicode :: unicode
  pr_tables :: xlit
  pr_maxSearchFiles :: int
  pr_retry :: "('f float_ops \<times> 'f retry_config \<times> (message_params \<Rightarrow> string + 'j)) option"
  pr_errText :: "cerror list \<Rightarrow> string"
  pr_webhook :: "webhook_env option"
  pr_order :: "torrent list \<Rightarrow> torrent list"

section \<open>The torrent filter\<close>

definition compileFilterState :: "(string \<Rightarrow> regex option) \<Rightarrow> torrent_filter_config \<Rightarrow> pattern_error + filter_state" where
  "compileFilterState compile cfg =
     bind_sum (filter_Compile compile (tc_TitlePatterns cfg) (tc_FilenamePatterns cfg)) (\<lambda>p.
     Inr \<lparr>fs_mode = tc_Mode cfg, fs_titlePatterns = pt_titles p, fs_filenamePatterns = pt_filenames p\<rparr>)"

definition UpdateTorrentFilter ::
  "(string \<Rightarrow> regex option) \<Rightarrow> torrent_filter_config \<Rightarrow> ('p, 'j) proc_state \<Rightarrow> pattern_error option \<times> ('p, 'j) proc_state" where
  "UpdateTorrentFilter compile cfg s = (case compileFilterState compile cfg of
     Inl e \<Rightarrow> (Some e, s) | Inr fs \<Rightarrow> (None, s\<lparr>ps_filter := fs\<rparr>))"

definition SwapRunner :: "'p runner \<Rightarrow> ('p, 'j) proc_state \<Rightarrow> ('p, 'j) proc_state" where
  "SwapRunner r s = s\<lparr>ps_runner := r\<rparr>"

definition filterMatches :: "filter_state \<Rightarrow> torrent \<Rightarrow> bool" where
  "filterMatches fs t \<longleftrightarrow>
     (let m = AnyMatch (fs_titlePatterns fs) (to_Name t) in
      if fs_filenamePatterns fs \<noteq> [] \<and> \<not> m
      then list_ex (\<lambda>f. AnyMatch (fs_filenamePatterns fs) (JoinRunes (tf_PathParts f) [47])) (to_Files t)
      else m)"

definition filteredByTorrentFilter :: "filter_state \<Rightarrow> torrent \<Rightarrow> bool" where
  "filteredByTorrentFilter fs t =
     (if fs_mode fs = TorrentFilterOff then False
      else fs_mode fs = TorrentFilterDiscard \<and> filterMatches fs t \<or>
           fs_mode fs = TorrentFilterProcess \<and> \<not> filterMatches fs t)"

section \<open>Recently classified\<close>

definition recentWindow :: int where "recentWindow = 3 * Minute"

definition wasRecentlyClassified :: "int \<Rightarrow> ID \<Rightarrow> ('p, 'j) proc_state \<Rightarrow> bool" where
  "wasRecentlyClassified now i s = (case ps_recent s i of None \<Rightarrow> False | Some t \<Rightarrow> now - t < recentWindow)"

definition markRecentlyClassified :: "int \<Rightarrow> ID \<Rightarrow> ('p, 'j) proc_state \<Rightarrow> ('p, 'j) proc_state" where
  "markRecentlyClassified now i s = s\<lparr>ps_recent := (ps_recent s)(i \<mapsto> now)\<rparr>"

text \<open>The cleanup that runs every minute.\<close>

definition cleanupRecent :: "int \<Rightarrow> ('p, 'j) proc_state \<Rightarrow> ('p, 'j) proc_state" where
  "cleanupRecent now s = s\<lparr>ps_recent := (\<lambda>i. case ps_recent s i of
     None \<Rightarrow> None | Some t \<Rightarrow> if now - t > recentWindow then None else Some t)\<rparr>"

section \<open>Classifying one torrent\<close>

definition newTorrentContent ::
  "('p, 'j, 'f) proc_env \<Rightarrow> torrent \<Rightarrow> lang_store \<Rightarrow> result \<Rightarrow> classified option" where
  "newTorrentContent pe t st c =
     (let t1 = t\<lparr>to_ContentType := ca_ContentType c, to_Languages := map_option (\<lambda>a. st ! a) (ca_Languages c),
            to_ContentSource := None, to_ContentID := None\<rparr>;
          upd = Torrent_UpdateTsv (pr_unicode pe) (pr_tables pe) (pr_maxSearchFiles pe) in
      case cr_Content c of
        None \<Rightarrow> map_option (\<lambda>t2. (t2, None)) (upd fmempty t1)
      | Some x \<Rightarrow> (case Content_UpdateTsv (pr_unicode pe) (pr_tables pe) x of
            None \<Rightarrow> None
          | Some tsv \<Rightarrow> map_option (\<lambda>t2. (t2, Some (x, tsv)))
              (upd tsv (t1\<lparr>to_ContentType := Some (ct_Type x), to_ContentSource := Some (ct_Source x),
                 to_ContentID := Some (ct_ID x)\<rparr>))))"

definition overrideType :: "content_type option \<Rightarrow> classified \<Rightarrow> classified" where
  "overrideType ct tc = (case ct of None \<Rightarrow> tc | Some x \<Rightarrow> ((fst tc)\<lparr>to_ContentType := Some x\<rparr>, snd tc))"

definition discardFiltered :: "torrent \<Rightarrow> ('p, 'j) proc_state \<Rightarrow> ('p, 'j) proc_state" where
  "discardFiltered t s =
     (let h = id_String (to_InfoHash t);
          db1 = snd (DeleteTorrent h (ps_db s));
          db2 = snd (blocking_Block (to_InfoHash t) ''torrent filter'' db1) in
      s\<lparr>ps_db := db2, ps_out := ps_out s @ [DeleteTopicMsg h]\<rparr>)"

text \<open>What a goroutine adds to the two lists that the message collects.\<close>

definition processTorrent ::
  "('p, 'j, 'f) proc_env \<Rightarrow> int \<Rightarrow> message_params \<Rightarrow> torrent \<Rightarrow>
   classified list \<times> (ID \<times> cerror) list \<times> ('p, 'j) proc_state \<Rightarrow>
   (classified list \<times> (ID \<times> cerror) list \<times> ('p, 'j) proc_state) option" where
  "processTorrent pe now params t b = (case b of (tcs, failures, s) \<Rightarrow>
     if mp_ClassifyMode params \<noteq> ClassifyModeRematch \<and> wasRecentlyClassified now (to_InfoHash t) s then Some b
     else if filteredByTorrentFilter (ps_filter s) t then Some (tcs, failures, discardFiltered t s)
     else
       (let s1 = markRecentlyClassified now (to_InfoHash t) s in
        case Run (pr_fuel pe) (pr_exec pe t) (ps_runner s) ''default'' [] [] of
          None \<Rightarrow> None
        | Some (st, Panicked) \<Rightarrow> Some (tcs, failures, s1)
        | Some (st, Returned c (Some e)) \<Rightarrow> Some (tcs, failures @ [(to_InfoHash t, e)], s1)
        | Some (st, Returned c None) \<Rightarrow>
            map_option (\<lambda>tc. (tcs @ [overrideType (mp_ContentType params) tc], failures, s1)) (newTorrentContent pe t st c)))"

fun processAll ::
  "('p, 'j, 'f) proc_env \<Rightarrow> int \<Rightarrow> message_params \<Rightarrow> torrent list \<Rightarrow>
   classified list \<times> (ID \<times> cerror) list \<times> ('p, 'j) proc_state \<Rightarrow>
   (classified list \<times> (ID \<times> cerror) list \<times> ('p, 'j) proc_state) option" where
  "processAll pe now params [] b = Some b"
| "processAll pe now params (t # ts) b =
     (case processTorrent pe now params t b of None \<Rightarrow> None | Some b' \<Rightarrow> processAll pe now params ts b')"

section \<open>persist.go\<close>

fun newContents :: "classified list \<Rightarrow> content_ref set \<Rightarrow> (content \<times> tsvector) list" where
  "newContents [] seen = []"
| "newContents ((t, c) # tcs) seen = (case c of
     None \<Rightarrow> newContents tcs seen
   | Some (x, tsv) \<Rightarrow>
       if to_ContentID t \<noteq> None \<and> ct_CreatedAt x = zeroTime \<and> ct_Source x \<noteq> [] \<and> ct_ID x \<noteq> [] \<and> content_Ref x \<notin> seen
       then (x, tsv) # newContents tcs (insert (content_Ref x) seen)
       else newContents tcs seen)"

definition contentQuery :: "content \<times> tsvector \<Rightarrow> query" where
  "contentQuery c = UpsertContent (content_Ref (fst c)) (ContentToUpsertParams (fst c) (snd c))"

definition torrentQuery :: "int \<Rightarrow> classified \<Rightarrow> query" where
  "torrentQuery now tc = UpdateTorrentContent now (TorrentToUpdateContentParams (fst tc))"

definition persistPayload :: "int \<Rightarrow> classified list \<Rightarrow> query" where
  "persistPayload now tcs = transaction (map contentQuery (newContents tcs {}) @ map (torrentQuery now) tcs)"

section \<open>The end of a message\<close>

fun isLLMError :: "cerror \<Rightarrow> bool" where
  "isLLMError (LLMClassifyError e) = True"
| "isLLMError e = False"

definition asLLMError :: "cerror \<Rightarrow> cerror option" where
  "asLLMError e = find isLLMError (errorChain e)"

definition splitClassifyFailures :: "(ID \<times> cerror) list \<Rightarrow> (ID \<times> cerror) list \<times> cerror option" where
  "splitClassifyFailures failures =
     (filter (\<lambda>f. asLLMError (snd f) = None) failures,
      case List.map_filter (\<lambda>f. asLLMError (snd f)) failures of [] \<Rightarrow> None | e # _ \<Rightarrow> Some e)"

text \<open>The torrents that the retry queue evicted; the queue keeps its own set of hashes.\<close>

definition dropTorrents :: "string set \<Rightarrow> torrent_db \<Rightarrow> torrent_db" where
  "dropTorrents hs db = db\<lparr>td_torrents := (\<lambda>h. if h \<in> hs then None else td_torrents db h),
     td_files := (\<lambda>h. if h \<in> hs then [] else td_files db h),
     td_seeders := (\<lambda>h. if h \<in> hs then None else td_seeders db h)\<rparr>"

definition retryItem :: "message_params \<Rightarrow> ID \<times> cerror \<Rightarrow> message_params retry_item" where
  "retryItem params f = \<lparr>ri_Stage = StageClassify, ri_InfoHash = id_String (fst f),
     ri_Payload = params\<lparr>mp_InfoHashes := [fst f]\<rparr>\<rparr>"

definition enqueueClassifyRetries ::
  "('p, 'j, 'f) proc_env \<Rightarrow> (ID \<times> cerror) list \<Rightarrow> message_params \<Rightarrow> ('p, 'j) proc_state \<Rightarrow> ('p, 'j) proc_state" where
  "enqueueClassifyRetries pe failures params s = (case pr_retry pe of
     None \<Rightarrow> s
   | Some (fo, cfg, enc) \<Rightarrow>
       (let hs = set (filter (\<lambda>h. td_torrents (ps_db s) h \<noteq> None) (map (\<lambda>f. id_String (fst f)) failures));
            q = snd (EnqueueBatch enc fo cfg (map (retryItem params) failures) (Some (pr_errText pe (map snd failures)))
              ((ps_retry s)\<lparr>rd_torrents := hs\<rparr>)) in
        s\<lparr>ps_retry := q, ps_db := dropTorrents (hs - rd_torrents q) (ps_db s)\<rparr>))"

definition publishClassified :: "('p, 'j, 'f) proc_env \<Rightarrow> classified list \<Rightarrow> publisher \<Rightarrow> publisher" where
  "publishClassified pe tcs p = (case pr_webhook pe of
     None \<Rightarrow> p | Some we \<Rightarrow> fold (\<lambda>tc. webhook_Publish we (NewClassifiedEvent (fst tc))) tcs p)"

text \<open>What follows a transaction that was committed.\<close>

definition afterPersist :: "('p, 'j, 'f) proc_env \<Rightarrow> classified list \<Rightarrow> ('p, 'j) proc_state \<Rightarrow> ('p, 'j) proc_state" where
  "afterPersist pe tcs s =
     (let ids = map (\<lambda>tc. InferID (fst tc)) tcs;
          q = (if pr_retry pe = None then ps_retry s
               else Remove (map (\<lambda>tc. id_String (to_InfoHash (fst tc))) tcs) (ps_retry s)) in
      s\<lparr>ps_retry := q, ps_webhook := publishClassified pe tcs (ps_webhook s),
        ps_out := ps_out s @ [EnrichedMsg (hd ids) ids]\<rparr>)"

definition persistClassified ::
  "('p, 'j, 'f) proc_env \<Rightarrow> int \<Rightarrow> classified list \<Rightarrow> ('p, 'j) proc_state \<Rightarrow> proc_result \<times> ('p, 'j) proc_state" where
  "persistClassified pe now tcs s =
     (if tcs = [] then (ProcOk, s)
      else (case persistPayload now tcs (ps_db s) of
        (Some e, db) \<Rightarrow> (ProcErr (ProcPersist e), s\<lparr>ps_db := db\<rparr>)
      | (None, db) \<Rightarrow> (ProcOk, afterPersist pe tcs (s\<lparr>ps_db := db\<rparr>))))"

definition handleClassified ::
  "('p, 'j, 'f) proc_env \<Rightarrow> int \<Rightarrow> message_params \<Rightarrow> classified list \<times> (ID \<times> cerror) list \<times> ('p, 'j) proc_state \<Rightarrow>
   proc_result \<times> ('p, 'j) proc_state" where
  "handleClassified pe now params b = (case b of (tcs, failures, s) \<Rightarrow>
     (let (retryable, pauseErr) = splitClassifyFailures failures;
          s1 = (if retryable = [] then s else enqueueClassifyRetries pe retryable params s) in
      case pauseErr of
        Some e \<Rightarrow> (ProcErr (ProcLLM e), s1)
      | None \<Rightarrow> persistClassified pe now tcs s1))"

definition Process ::
  "('p, 'j, 'f) proc_env \<Rightarrow> int \<Rightarrow> message_params \<Rightarrow> ('p, 'j) proc_state \<Rightarrow> (proc_result \<times> ('p, 'j) proc_state) option" where
  "Process pe now params s =
     (case TorrentsWithMissingInfoHashes (pr_unicode pe) (map id_String (mp_InfoHashes params)) (ps_db s) of
        None \<Rightarrow> Some (ProcPanic, s)
      | Some (Inl e, db) \<Rightarrow> Some (ProcErr (ProcFetch e), s\<lparr>ps_db := db\<rparr>)
      | Some (Inr (torrents, missing), db) \<Rightarrow>
          if \<exists>h \<in> set missing. ToProtocolID h = None then Some (ProcPanic, s\<lparr>ps_db := db\<rparr>)
          else map_option (handleClassified pe now params)
            (processAll pe now params (pr_order pe torrents) ([], [], s\<lparr>ps_db := db\<rparr>)))"

section \<open>What reporting a failure does\<close>

lemma EnqueueBatch_keyed:
  "EnqueueBatch enc fo cfg items cause s = (e, s') \<Longrightarrow> keyed (rd_queue s) \<Longrightarrow> keyed (rd_queue s')"
  using evolves_EnqueueBatch [of enc fo cfg items cause s e s'] by (simp add: evolves_def)

lemma Remove_keyed: "keyed (rd_queue s) \<Longrightarrow> keyed (rd_queue (Remove hs s))"
  using shrinks_Remove [of s hs] by (simp add: shrinks_def)

lemma dropTorrents_ok: "db_ok db \<Longrightarrow> db_ok (dropTorrents hs db)"
  unfolding db_ok_def dropTorrents_def by auto

text \<open>The state after failures were reported: only torrents that failed can have been evicted.\<close>

lemma enqueueClassifyRetries_frame:
  fixes s :: "('p, 'j) proc_state"
  shows "ps_recent (enqueueClassifyRetries pe fs params s) = ps_recent s \<and>
    ps_filter (enqueueClassifyRetries pe fs params s) = ps_filter s \<and>
    ps_webhook (enqueueClassifyRetries pe fs params s) = ps_webhook s \<and>
    ps_out (enqueueClassifyRetries pe fs params s) = ps_out s \<and>
    td_content (ps_db (enqueueClassifyRetries pe fs params s)) = td_content (ps_db s) \<and>
    td_faults (ps_db (enqueueClassifyRetries pe fs params s)) = td_faults (ps_db s) \<and>
    (\<forall>h. h \<notin> (\<lambda>f. id_String (fst f)) ` set fs \<longrightarrow>
       td_torrents (ps_db (enqueueClassifyRetries pe fs params s)) h = td_torrents (ps_db s) h) \<and>
    (\<forall>h. td_torrents (ps_db (enqueueClassifyRetries pe fs params s)) h \<in> {td_torrents (ps_db s) h, None})"
  by (auto simp: enqueueClassifyRetries_def dropTorrents_def Let_def image_iff split: option.split)

section \<open>The invariant\<close>

definition proc_ok :: "('p, 'j) proc_state \<Rightarrow> bool" where
  "proc_ok s \<longleftrightarrow> db_ok (ps_db s) \<and> keyed (rd_queue (ps_retry s)) \<and> queue_ok (ps_webhook s)"

lemma discardFiltered_ok: "proc_ok s \<Longrightarrow> proc_ok (discardFiltered t s)"
  using keeps_DeleteTorrent blocking_Block_ok by (simp add: proc_ok_def discardFiltered_def keeps_def Let_def)

lemma processTorrent_cases:
  assumes "processTorrent pe now params t (tcs, fs, s) = Some b'"
  obtains (skipped) "mp_ClassifyMode params \<noteq> ClassifyModeRematch" "wasRecentlyClassified now (to_InfoHash t) s"
      "b' = (tcs, fs, s)"
  | (filtered) "filteredByTorrentFilter (ps_filter s) t" "b' = (tcs, fs, discardFiltered t s)"
  | (panicked) st where "Run (pr_fuel pe) (pr_exec pe t) (ps_runner s) ''default'' [] [] = Some (st, Panicked)"
      "b' = (tcs, fs, markRecentlyClassified now (to_InfoHash t) s)"
  | (failed) st c e where "Run (pr_fuel pe) (pr_exec pe t) (ps_runner s) ''default'' [] [] = Some (st, Returned c (Some e))"
      "b' = (tcs, fs @ [(to_InfoHash t, e)], markRecentlyClassified now (to_InfoHash t) s)"
  | (classified) st c tc where "Run (pr_fuel pe) (pr_exec pe t) (ps_runner s) ''default'' [] [] = Some (st, Returned c None)"
      "newTorrentContent pe t st c = Some tc" "\<not> filteredByTorrentFilter (ps_filter s) t"
      "b' = (tcs @ [overrideType (mp_ContentType params) tc], fs, markRecentlyClassified now (to_InfoHash t) s)"
  using assms by (auto simp: processTorrent_def Let_def split: if_splits option.splits prod.splits run_outcome.splits)

lemma markRecentlyClassified_ok [simp]: "proc_ok (markRecentlyClassified now i s) = proc_ok s"
  by (simp add: proc_ok_def markRecentlyClassified_def)

lemma processTorrent_ok:
  assumes "processTorrent pe now params t b = Some b'" "proc_ok (snd (snd b))"
  shows "proc_ok (snd (snd b'))"
proof -
  obtain tcs fs s where b: "b = (tcs, fs, s)" by (cases b)
  show ?thesis using processTorrent_cases [OF assms(1) [unfolded b]] discardFiltered_ok assms(2) b by cases simp_all
qed

lemma processAll_ok:
  "processAll pe now params ts b = Some b' \<Longrightarrow> proc_ok (snd (snd b)) \<Longrightarrow> proc_ok (snd (snd b'))"
proof (induction ts arbitrary: b)
  case (Cons t ts)
  then obtain b1 where "processTorrent pe now params t b = Some b1" "processAll pe now params ts b1 = Some b'"
    by (auto split: option.splits)
  then show ?case using Cons.IH processTorrent_ok Cons.prems(2) by blast
qed simp

lemma enqueueClassifyRetries_ok:
  fixes s :: "('p, 'j) proc_state"
  assumes "proc_ok s"
  shows "proc_ok (enqueueClassifyRetries pe fs params s)"
proof (cases "pr_retry pe")
  case None
  then show ?thesis using assms by (simp add: enqueueClassifyRetries_def)
next
  case (Some r)
  obtain fo cfg enc where r: "r = (fo, cfg, enc)" by (cases r)
  let ?hs = "set (filter (\<lambda>h. td_torrents (ps_db s) h \<noteq> None) (map (\<lambda>f. id_String (fst f)) fs))"
  obtain e q where q: "EnqueueBatch enc fo cfg (map (retryItem params) fs) (Some (pr_errText pe (map snd fs)))
      ((ps_retry s)\<lparr>rd_torrents := ?hs\<rparr>) = (e, q)" by fastforce
  have "keyed (rd_queue q)" using EnqueueBatch_keyed [OF q] assms by (simp add: proc_ok_def)
  then show ?thesis using q Some r assms dropTorrents_ok by (simp add: enqueueClassifyRetries_def proc_ok_def Let_def)
qed

lemma publishClassified_ok: "queue_ok p \<Longrightarrow> queue_ok (publishClassified pe tcs p)"
proof -
  have "queue_ok p \<Longrightarrow> queue_ok (fold (\<lambda>tc. webhook_Publish we (NewClassifiedEvent (fst tc))) tcs p)" for we
    by (induction tcs arbitrary: p) (use exec_queue(1) [of _ we "WPublish _"] in auto)
  then show "queue_ok p \<Longrightarrow> queue_ok (publishClassified pe tcs p)" by (simp add: publishClassified_def split: option.split)
qed

lemma persist_program: "program_query (persistPayload now tcs)"
  unfolding persistPayload_def contentQuery_def torrentQuery_def
  by (rule program_query.intros(9)) (auto intro: program_query.intros)

lemma persistClassified_ok:
  fixes s :: "('p, 'j) proc_state"
  assumes "proc_ok s" "persistClassified pe now tcs s = (r, s')"
  shows "proc_ok s'"
proof (cases "tcs = []")
  case False
  obtain e db where p: "persistPayload now tcs (ps_db s) = (e, db)" by fastforce
  have "keeps (persistPayload now tcs)" by (rule program_query_keeps [OF persist_program])
  then have "db_ok (snd (persistPayload now tcs (ps_db s)))" using assms(1) by (simp add: keeps_def proc_ok_def)
  then have "db_ok db" using p by simp
  then show ?thesis
    using assms p False Remove_keyed [of "ps_retry s"] publishClassified_ok [of "ps_webhook s"]
    by (cases e) (auto simp: persistClassified_def afterPersist_def proc_ok_def Let_def)
qed (use assms in \<open>simp add: persistClassified_def\<close>)

lemma handleClassified_ok:
  assumes "proc_ok (snd (snd b))" "handleClassified pe now params b = (r, s')"
  shows "proc_ok s'"
proof -
  obtain tcs failures s where b: "b = (tcs, failures, s)" by (cases b)
  obtain retryable pauseErr where f: "splitClassifyFailures failures = (retryable, pauseErr)" by fastforce
  let ?s1 = "if retryable = [] then s else enqueueClassifyRetries pe retryable params s"
  have "proc_ok ?s1" using assms(1) b enqueueClassifyRetries_ok by auto
  then show ?thesis using assms(2) persistClassified_ok [of ?s1 pe now tcs r s']
    by (auto simp: handleClassified_def b f Let_def split: option.splits)
qed

text \<open>Loading the torrents changes no table.\<close>

lemma TorrentWithFiles_same:
  "TorrentWithFiles u h rs db = Some (x, db') \<Longrightarrow> same_tables db' db"
  by (auto simp: TorrentWithFiles_def ListTorrentFiles_def Let_def split: option.splits prod.splits sum.splits)

lemma loadAll_same: "loadAll u rows found db = Some (x, db') \<Longrightarrow> same_tables db' db"
proof (induction rows arbitrary: found db)
  case (Cons row rows)
  obtain h rs where row: "row = (h, rs)" by (cases row)
  from Cons show ?case unfolding row
    by (auto split: option.splits prod.splits sum.splits dest!: TorrentWithFiles_same intro: same_tables_trans)
qed simp

lemma TorrentsWithMissing_same:
  assumes "TorrentsWithMissingInfoHashes u hs db = Some (x, db')"
  shows "same_tables db' db"
proof -
  obtain y db1 where l: "ListTorrentsByInfoHashes hs db = (y, db1)" by fastforce
  have "same_tables db1 db" using l by (auto simp: ListTorrentsByInfoHashes_def split: prod.splits option.splits)
  then show ?thesis using assms l
    by (auto simp: TorrentsWithMissingInfoHashes_def split: option.splits prod.splits sum.splits
        dest!: loadAll_same intro: same_tables_trans)
qed

lemma Process_cases:
  assumes "Process pe now params s = Some (r, s')"
  obtains (stopped) db where "same_tables db (ps_db s)" "s' = s\<lparr>ps_db := db\<rparr>"
      "r = ProcPanic \<or> (\<exists>e. r = ProcErr (ProcFetch e))"
  | (handled) torrents missing db b where
      "TorrentsWithMissingInfoHashes (pr_unicode pe) (map id_String (mp_InfoHashes params)) (ps_db s) =
         Some (Inr (torrents, missing), db)"
      "same_tables db (ps_db s)"
      "processAll pe now params (pr_order pe torrents) ([], [], s\<lparr>ps_db := db\<rparr>) = Some b"
      "handleClassified pe now params b = (r, s')"
proof (cases "TorrentsWithMissingInfoHashes (pr_unicode pe) (map id_String (mp_InfoHashes params)) (ps_db s)")
  case None
  then show thesis using assms by (intro stopped [of "ps_db s"]) (auto simp: Process_def)
next
  case (Some a)
  obtain x db where a: "a = (x, db)" by (cases a)
  have same: "same_tables db (ps_db s)" using TorrentsWithMissing_same Some a by blast
  show thesis
  proof (cases x)
    case (Inl e)
    then show thesis using assms Some a same by (intro stopped [of db]) (auto simp: Process_def)
  next
    case (Inr tm)
    obtain torrents missing where tm: "tm = (torrents, missing)" by (cases tm)
    show thesis
    proof (cases "\<exists>h \<in> set missing. ToProtocolID h = None")
      case True
      then show thesis using assms Some a Inr tm same by (intro stopped [of db]) (auto simp: Process_def)
    next
      case False
      have "map_option (handleClassified pe now params)
          (processAll pe now params (pr_order pe torrents) ([], [], s\<lparr>ps_db := db\<rparr>)) = Some (r, s')"
        using assms unfolding Process_def Some a Inr tm option.case prod.case sum.case if_not_P [OF False] .
      then show thesis using handled [OF _ same] Some a Inr tm by auto
    qed
  qed
qed


section \<open>What a message stores\<close>

lemma processAll_append:
  "processAll pe now params (xs @ ys) b =
     (case processAll pe now params xs b of None \<Rightarrow> None | Some b' \<Rightarrow> processAll pe now params ys b')"
  by (induction xs arbitrary: b) (simp_all split: option.split)

lemma newTorrentContent_hash [simp]:
  "newTorrentContent pe t st c = Some tc \<Longrightarrow> to_InfoHash (fst tc) = to_InfoHash t"
  by (auto simp: newTorrentContent_def Torrent_UpdateTsv_def Let_def split: option.splits)

lemma overrideType_hash [simp]: "to_InfoHash (fst (overrideType ct tc)) = to_InfoHash (fst tc)"
  by (simp add: overrideType_def split: option.split)

lemma discardFiltered_frame:
  "ps_filter (discardFiltered t s) = ps_filter s" "ps_runner (discardFiltered t s) = ps_runner s"
  "ps_recent (discardFiltered t s) = ps_recent s"
  "i \<noteq> to_InfoHash t \<Longrightarrow> td_torrents (ps_db (discardFiltered t s)) (id_String i) = td_torrents (ps_db s) (id_String i)"
  by (auto simp: discardFiltered_def DeleteTorrent_def blocking_Block_def UpsertBlockedInfoHash_def exec_def Let_def
      split: prod.splits option.splits)

text \<open>What the goroutine of one torrent leaves to the others.\<close>

definition leaves :: "ID set \<Rightarrow> ('p, 'j) proc_state \<Rightarrow> ('p, 'j) proc_state \<Rightarrow> bool" where
  "leaves I s s' \<longleftrightarrow> ps_filter s' = ps_filter s \<and> ps_runner s' = ps_runner s \<and>
     (\<forall>i. i \<notin> I \<longrightarrow> ps_recent s' i = ps_recent s i \<and>
        td_torrents (ps_db s') (id_String i) = td_torrents (ps_db s) (id_String i))"

lemma leaves_trans: "leaves I s s' \<Longrightarrow> leaves J s' s'' \<Longrightarrow> leaves (I \<union> J) s s''"
  by (simp add: leaves_def)

lemma leaves_discard: "leaves {to_InfoHash t} s (discardFiltered t s)"
  by (simp add: leaves_def discardFiltered_frame)

lemma leaves_mark: "leaves {i} s (markRecentlyClassified now i s)"
  by (simp add: leaves_def markRecentlyClassified_def)

lemma processTorrent_adds:
  assumes "processTorrent pe now params t (tcs, fs, s) = Some (tcs', fs', s')"
  shows "leaves {to_InfoHash t} s s' \<and> (\<exists>new newf. tcs' = tcs @ new \<and> fs' = fs @ newf \<and>
    (map (to_InfoHash \<circ> fst) new, map fst newf) \<in> {([], []), ([to_InfoHash t], []), ([], [to_InfoHash t])})"
  using assms
proof (cases rule: processTorrent_cases)
  case skipped
  then show ?thesis by (simp add: leaves_def)
qed (simp_all add: leaves_discard leaves_mark)

lemma processAll_adds:
  "processAll pe now params ts (tcs, fs, s) = Some (tcs', fs', s') \<Longrightarrow> distinct (map to_InfoHash ts) \<Longrightarrow>
   leaves (to_InfoHash ` set ts) s s' \<and> (\<exists>new newf. tcs' = tcs @ new \<and> fs' = fs @ newf \<and>
     distinct (map (to_InfoHash \<circ> fst) new @ map fst newf) \<and>
     set (map (to_InfoHash \<circ> fst) new @ map fst newf) \<subseteq> to_InfoHash ` set ts)"
proof (induction ts arbitrary: tcs fs s)
  case Nil
  then show ?case by (simp add: leaves_def)
next
  case (Cons t ts)
  obtain tcs1 fs1 s1 where 1: "processTorrent pe now params t (tcs, fs, s) = Some (tcs1, fs1, s1)"
    "processAll pe now params ts (tcs1, fs1, s1) = Some (tcs', fs', s')"
    using Cons.prems(1) by (auto split: option.splits)
  obtain new newf where a: "tcs1 = tcs @ new" "fs1 = fs @ newf"
    "(map (to_InfoHash \<circ> fst) new, map fst newf) \<in> {([], []), ([to_InfoHash t], []), ([], [to_InfoHash t])}"
    using conjunct2 [OF processTorrent_adds [OF 1(1)]] by (elim exE conjE) (rule that)
  have d: "distinct (map to_InfoHash ts)" using Cons.prems(2) by simp
  obtain more moref where b: "tcs' = tcs1 @ more" "fs' = fs1 @ moref"
    "distinct (map (to_InfoHash \<circ> fst) more @ map fst moref)"
    "set (map (to_InfoHash \<circ> fst) more @ map fst moref) \<subseteq> to_InfoHash ` set ts"
    using conjunct2 [OF Cons.IH [OF 1(2) d]] by (elim exE conjE) (rule that)
  have "leaves ({to_InfoHash t} \<union> to_InfoHash ` set ts) s s'"
    using conjunct1 [OF processTorrent_adds [OF 1(1)]] conjunct1 [OF Cons.IH [OF 1(2) d]] by (rule leaves_trans)
  moreover have "to_InfoHash t \<notin> set (map (to_InfoHash \<circ> fst) more @ map fst moref)"
    using b(4) Cons.prems(2) by auto
  then have "distinct (map (to_InfoHash \<circ> fst) (new @ more) @ map fst (newf @ moref))"
    using a(3) b(3) unfolding map_append by (elim insertE emptyE) (simp_all del: map_map)
  moreover have "set (map (to_InfoHash \<circ> fst) (new @ more) @ map fst (newf @ moref)) \<subseteq> to_InfoHash ` set (t # ts)"
    using a(3) b(4) by auto
  ultimately show ?case using a(1,2) b(1,2)
    by (intro conjI exI [of _ "new @ more"] exI [of _ "newf @ moref"]) (simp_all add: comp_def)
qed

text \<open>A torrent whose run returned is collected, whatever the other goroutines did before and after.\<close>

lemma processAll_collects:
  fixes s :: "('p, 'j) proc_state"
  assumes all: "processAll pe now params ts ([], [], s) = Some (tcs, fs, s')" and d: "distinct (map to_InfoHash ts)"
    and t: "t \<in> set ts" and skip: "mp_ClassifyMode params = ClassifyModeRematch \<or> \<not> wasRecentlyClassified now (to_InfoHash t) s"
    and filt: "\<not> filteredByTorrentFilter (ps_filter s) t"
    and run: "Run (pr_fuel pe) (pr_exec pe t) (ps_runner s) ''default'' [] [] = Some (st, Returned c None)"
    and tc: "newTorrentContent pe t st c = Some tc"
  shows "overrideType (mp_ContentType params) tc \<in> set tcs" "to_InfoHash t \<notin> fst ` set fs"
    "td_torrents (ps_db s') (id_String (to_InfoHash t)) = td_torrents (ps_db s) (id_String (to_InfoHash t))"
proof -
  obtain xs ys where ts: "ts = xs @ t # ys" using t by (meson split_list)
  obtain b1 where b1: "processAll pe now params xs ([], [], s) = Some b1" "processAll pe now params (t # ys) b1 = Some (tcs, fs, s')"
    using all unfolding ts processAll_append by (auto split: option.splits)
  obtain tcs1 fs1 s1 where 1: "b1 = (tcs1, fs1, s1)" by (cases b1)
  have l1: "leaves (to_InfoHash ` set xs) s s1" using processAll_adds [OF b1(1) [unfolded 1]] d ts by auto
  have nx: "to_InfoHash t \<notin> to_InfoHash ` set xs" "to_InfoHash t \<notin> to_InfoHash ` set ys" using d ts by auto
  have s1: "ps_filter s1 = ps_filter s" "ps_runner s1 = ps_runner s" "ps_recent s1 (to_InfoHash t) = ps_recent s (to_InfoHash t)"
    "td_torrents (ps_db s1) (id_String (to_InfoHash t)) = td_torrents (ps_db s) (id_String (to_InfoHash t))"
    using l1 nx(1) by (auto simp: leaves_def)
  have was: "wasRecentlyClassified now (to_InfoHash t) s1 = wasRecentlyClassified now (to_InfoHash t) s"
    by (simp add: wasRecentlyClassified_def s1(3))
  let ?s2 = "markRecentlyClassified now (to_InfoHash t) s1"
  have step: "processTorrent pe now params t b1 = Some (tcs1 @ [overrideType (mp_ContentType params) tc], fs1, ?s2)"
    using skip filt run tc by (auto simp: processTorrent_def 1 was s1 Let_def)
  have rest: "processAll pe now params ys (tcs1 @ [overrideType (mp_ContentType params) tc], fs1, ?s2) = Some (tcs, fs, s')"
    using b1(2) step by simp
  have l2: "leaves (to_InfoHash ` set ys) ?s2 s'" using processAll_adds [OF rest] d ts by auto
  show in_tcs: "overrideType (mp_ContentType params) tc \<in> set tcs" using processAll_adds [OF rest] d ts by auto
  show "td_torrents (ps_db s') (id_String (to_InfoHash t)) = td_torrents (ps_db s) (id_String (to_InfoHash t))"
    using l2 nx(2) s1(4) by (simp add: leaves_def markRecentlyClassified_def)
  have "distinct (map (to_InfoHash \<circ> fst) tcs @ map fst fs)" using processAll_adds [OF all d] by auto
  moreover have "to_InfoHash t \<in> set (map (to_InfoHash \<circ> fst) tcs)"
    using in_tcs newTorrentContent_hash [OF tc] by force
  ultimately show "to_InfoHash t \<notin> fst ` set fs" by auto
qed

lemma runAll_append:
  "runAll (xs @ ys) db = (None, db') \<Longrightarrow> \<exists>db1. runAll xs db = (None, db1) \<and> runAll ys db1 = (None, db')"
  by (induction xs arbitrary: db) (auto split: prod.splits option.splits)

lemma contentQuery_torrents: "contentQuery c db = (e, db') \<Longrightarrow> td_torrents db' = td_torrents db"
  by (auto simp: contentQuery_def UpsertContent_def exec_def split: prod.splits option.splits)

lemma torrentQuery_other:
  "torrentQuery now tc db = (e, db') \<Longrightarrow> i \<noteq> to_InfoHash (fst tc) \<Longrightarrow>
   td_torrents db' (id_String i) = td_torrents db (id_String i)"
  by (auto simp: torrentQuery_def UpdateTorrentContent_def exec_def TorrentToUpdateContentParams_def Let_def
      split: prod.splits option.splits if_splits)

lemma contentQueries_torrents:
  "runAll (map contentQuery cs) db = (e, db') \<Longrightarrow> td_torrents db' = td_torrents db"
proof (induction cs arbitrary: db)
  case (Cons c cs)
  obtain f db1 where "contentQuery c db = (f, db1)" by (cases "contentQuery c db")
  then show ?case using Cons contentQuery_torrents [of c db f db1] by (cases f) auto
qed simp

lemma torrentQueries_other:
  "runAll (map (torrentQuery now) tcs) db = (e, db') \<Longrightarrow> i \<notin> set (map (to_InfoHash \<circ> fst) tcs) \<Longrightarrow>
   td_torrents db' (id_String i) = td_torrents db (id_String i)"
proof (induction tcs arbitrary: db)
  case (Cons tc tcs)
  obtain f db1 where f: "torrentQuery now tc db = (f, db1)" by (cases "torrentQuery now tc db")
  have "td_torrents db1 (id_String i) = td_torrents db (id_String i)"
    using torrentQuery_other [OF f] Cons.prems(2) by simp
  then show ?case using Cons.IH [of db1] Cons.prems f by (cases f) auto
qed simp

text \<open>The row of a torrent that was classified.\<close>

definition holds_classified :: "int \<Rightarrow> torrent \<Rightarrow> torrents_row \<Rightarrow> bool" where
  "holds_classified now t r \<longleftrightarrow> tw_content_type r = to_ContentType t \<and> tw_content_source r = to_ContentSource t \<and>
     tw_content_id r = to_ContentID t \<and> tw_languages r = to_Languages t \<and>
     tw_tsv r = tsvector_String (to_Tsv t) \<and> tw_updated_at r = now"

lemma torrentQuery_stores:
  assumes "torrentQuery now tc db = (None, db')" "td_torrents db (id_String (to_InfoHash (fst tc))) \<noteq> None"
  shows "\<exists>r. td_torrents db' (id_String (to_InfoHash (fst tc))) = Some r \<and> holds_classified now (fst tc) r"
  using assms by (auto simp: torrentQuery_def UpdateTorrentContent_def exec_def TorrentToUpdateContentParams_def Let_def
      holds_classified_def split: prod.splits option.splits if_splits)

lemma persist_stores:
  assumes p: "persistPayload now tcs db = (None, db')" and d: "distinct (map (to_InfoHash \<circ> fst) tcs)" and tc: "tc \<in> set tcs"
    and row: "td_torrents db (id_String (to_InfoHash (fst tc))) \<noteq> None"
  shows "\<exists>r. td_torrents db' (id_String (to_InfoHash (fst tc))) = Some r \<and> holds_classified now (fst tc) r"
proof -
  let ?i = "to_InfoHash (fst tc)" let ?R = "td_torrents db (id_String ?i)"
  obtain xs ys where tcs: "tcs = xs @ tc # ys" using tc by (meson split_list)
  obtain db1 db2 f where 1: "nextFault db = (None, db1)" "nextFault db2 = (f, db')"
    "runAll (map contentQuery (newContents tcs {}) @ map (torrentQuery now) tcs) db1 = (None, db2)"
    using p by (auto simp: persistPayload_def transaction_def split: prod.splits option.splits)
  obtain db3 db4 where 3: "runAll (map contentQuery (newContents tcs {})) db1 = (None, db3)"
    "runAll (map (torrentQuery now) xs) db3 = (None, db4)" "runAll (map (torrentQuery now) (tc # ys)) db4 = (None, db2)"
    using runAll_append [OF 1(3)] runAll_append [of "map (torrentQuery now) xs" "map (torrentQuery now) (tc # ys)"]
    unfolding tcs by fastforce
  obtain db5 where 5: "torrentQuery now tc db4 = (None, db5)" "runAll (map (torrentQuery now) ys) db5 = (None, db2)"
    using 3(3) by (auto split: prod.splits option.splits)
  have nx: "?i \<notin> set (map (to_InfoHash \<circ> fst) xs)" "?i \<notin> set (map (to_InfoHash \<circ> fst) ys)" using d tcs by auto
  have "td_torrents db4 (id_String ?i) = ?R"
    using contentQueries_torrents [OF 3(1)] torrentQueries_other [OF 3(2) nx(1)] 1(1) by simp
  then obtain r where r: "td_torrents db5 (id_String ?i) = Some r" "holds_classified now (fst tc) r"
    using torrentQuery_stores [OF 5(1)] row by auto
  have "td_torrents db2 (id_String ?i) = Some r" using torrentQueries_other [OF 5(2) nx(2)] r(1) by simp
  then show ?thesis using r(2) 1(2) by auto
qed

text \<open>The torrents that are found have rows, and the hashes the message names.\<close>

lemma ParseID_wf_id: "wf_id i \<Longrightarrow> ParseID (id_String i) = Inr i"
  by (auto simp: ParseID_def id_String_def hex_encode_no_prefix hex_decode_encode wf_id_def)

lemma TorrentWithFiles_hash:
  assumes "TorrentWithFiles u (id_String i) rs db = Some (Inr t, db')" "wf_id i"
  shows "to_InfoHash t = i"
  using assms ParseID_wf_id [of i]
  by (auto simp: TorrentWithFiles_def TorrentToModel_def ToProtocolID_def Let_def split: option.splits prod.splits sum.splits)

lemma loadAll_found:
  "loadAll u rows found db = Some (Inr found', db') \<Longrightarrow> \<forall>h \<in> fst ` set rows. \<exists>i. wf_id i \<and> h = id_String i \<Longrightarrow>
   map_of found' h = Some t \<Longrightarrow>
   map_of found h = Some t \<or> h \<in> fst ` set rows \<and> h = id_String (to_InfoHash t)"
proof (induction rows arbitrary: found db)
  case (Cons row rows)
  obtain k rs where row: "row = (k, rs)" by (cases row)
  obtain u1 db1 where 1: "TorrentWithFiles u k rs db = Some (Inr u1, db1)"
    "loadAll u rows (AList.update k u1 found) db1 = Some (Inr found', db')"
    using Cons.prems(1) row by (auto split: option.splits prod.splits sum.splits)
  obtain i where i: "wf_id i" "k = id_String i" using Cons.prems(2) row by auto
  have k: "to_InfoHash u1 = i" using TorrentWithFiles_hash 1(1) i by auto
  have "map_of (AList.update k u1 found) h = Some t \<or> h \<in> fst ` set rows \<and> h = id_String (to_InfoHash t)"
    using Cons.IH [OF 1(2)] Cons.prems(2,3) by simp
  then show ?case using row k i by (auto simp: update_conv split: if_splits)
qed simp

lemma loaded_from:
  "ListTorrentsByInfoHashes hs db = (Inr rows, db') \<Longrightarrow> fst ` set rows = {h \<in> set hs. td_torrents db h \<noteq> None}"
  by (auto simp: ListTorrentsByInfoHashes_def List.map_filter_def image_image comp_def split: prod.splits option.splits)
     (auto simp: image_iff split: option.splits dest!: nextFault_tables(1))

lemma TorrentsWithMissing_found:
  assumes load: "TorrentsWithMissingInfoHashes u (map id_String is) db = Some (Inr (ts, missing), db')"
    and wf: "\<forall>i \<in> set is. wf_id i"
  shows "t \<in> set ts \<Longrightarrow> to_InfoHash t \<in> set is \<and> td_torrents db (id_String (to_InfoHash t)) \<noteq> None"
    "distinct is \<Longrightarrow> distinct (map to_InfoHash ts)"
proof -
  let ?hs = "map id_String is"
  obtain rows db1 found where 1: "ListTorrentsByInfoHashes ?hs db = (Inr rows, db1)"
    "loadAll u rows [] db1 = Some (Inr found, db')" "ts = List.map_filter (map_of found) ?hs"
    using load by (auto simp: TorrentsWithMissingInfoHashes_def split: prod.splits sum.splits option.splits)
  have rows: "fst ` set rows = {h \<in> set ?hs. td_torrents db h \<noteq> None}" using loaded_from [OF 1(1)] .
  have known: "\<forall>h \<in> fst ` set rows. \<exists>i. wf_id i \<and> h = id_String i" using rows wf by auto
  have found: "h \<in> fst ` set rows \<and> h = id_String (to_InfoHash t)" if "map_of found h = Some t" for h t
    using loadAll_found [OF 1(2) known that] by auto
  show "to_InfoHash t \<in> set is \<and> td_torrents db (id_String (to_InfoHash t)) \<noteq> None" if t: "t \<in> set ts"
  proof -
    obtain h where "map_of found h = Some t" using t 1(3) by (auto simp: List.map_filter_def)
    then show ?thesis using found rows by fastforce
  qed
  have "map to_InfoHash (List.map_filter (map_of found) (map id_String js)) =
      filter (\<lambda>i. map_of found (id_String i) \<noteq> None) js" for js
  proof (induction js)
    case (Cons j js)
    show ?case
    proof (cases "map_of found (id_String j)")
      case (Some t)
      then have "to_InfoHash t = j" using found by fastforce
      then show ?thesis using Cons Some by (simp add: List.map_filter_def)
    qed (use Cons in \<open>simp add: List.map_filter_def\<close>)
  qed (simp add: List.map_filter_def)
  then show "distinct is \<Longrightarrow> distinct (map to_InfoHash ts)" unfolding 1(3) by simp
qed

text \<open>A message that ends well has stored its batch.\<close>

lemma handleClassified_ProcOk:
  fixes s :: "('p, 'j) proc_state"
  assumes "handleClassified pe now params (tcs, fs, s) = (ProcOk, s')" "tcs \<noteq> []"
  obtains s1 db where "\<And>i. i \<notin> fst ` set fs \<Longrightarrow> td_torrents (ps_db s1) (id_String i) = td_torrents (ps_db s) (id_String i)"
    "persistPayload now tcs (ps_db s1) = (None, db)" "s' = afterPersist pe tcs (s1\<lparr>ps_db := db\<rparr>)"
proof -
  obtain retryable pauseErr where f: "splitClassifyFailures fs = (retryable, pauseErr)" by fastforce
  let ?s1 = "if retryable = [] then s else enqueueClassifyRetries pe retryable params s"
  have h: "pauseErr = None" "persistClassified pe now tcs ?s1 = (ProcOk, s')"
    using assms(1) by (auto simp: handleClassified_def f Let_def split: option.splits)
  obtain e db where p: "persistPayload now tcs (ps_db ?s1) = (e, db)" by fastforce
  have e: "e = None" "s' = afterPersist pe tcs (?s1\<lparr>ps_db := db\<rparr>)"
    using h(2) p assms(2) by (cases e; simp add: persistClassified_def)+
  have sub: "set retryable \<subseteq> set fs" using f by (auto simp: splitClassifyFailures_def)
  have "td_torrents (ps_db ?s1) (id_String i) = td_torrents (ps_db s) (id_String i)" if i: "i \<notin> fst ` set fs" for i
  proof -
    have "id_String i \<notin> (\<lambda>f. id_String (fst f)) ` set retryable" using i sub by force
    then show ?thesis using enqueueClassifyRetries_frame [of pe retryable params s] by simp
  qed
  then show thesis using that [of ?s1 db] p e by simp
qed

text \<open>C10. When a message ends without error, every torrent it names that is in the tables, that the
  filter admits, that was not classified a short while ago and whose run returned a result has that
  result in its row: the content type, or the type the message asks for, the reference to the content,
  the languages and the search vector.  The message for the next stage names it.  This holds whatever
  happens to the other torrents of the message, in whatever order their goroutines come.\<close>

theorem Process_stores:
  fixes s :: "('p, 'j) proc_state"
  assumes run: "Process pe now params s = Some (ProcOk, s')"
    and order: "\<And>ts. mset (pr_order pe ts) = mset ts"
    and wf: "\<forall>i \<in> set (mp_InfoHashes params). wf_id i" and d: "distinct (mp_InfoHashes params)"
    and load: "TorrentsWithMissingInfoHashes (pr_unicode pe) (map id_String (mp_InfoHashes params)) (ps_db s) =
       Some (Inr (torrents, missing), db)"
    and t: "t \<in> set torrents"
    and skip: "mp_ClassifyMode params = ClassifyModeRematch \<or> \<not> wasRecentlyClassified now (to_InfoHash t) s"
    and filt: "\<not> filteredByTorrentFilter (ps_filter s) t"
    and found: "Run (pr_fuel pe) (pr_exec pe t) (ps_runner s) ''default'' [] [] = Some (st, Returned c None)"
      "newTorrentContent pe t st c = Some tc"
  shows "\<exists>r k ids. td_torrents (ps_db s') (id_String (to_InfoHash t)) = Some r \<and>
     holds_classified now (fst (overrideType (mp_ContentType params) tc)) r \<and>
     EnrichedMsg k ids \<in> set (ps_out s') \<and> InferID (fst (overrideType (mp_ContentType params) tc)) \<in> set ids"
  using run
proof (cases rule: Process_cases)
  case (handled torrents' missing' db' b)
  let ?tc = "overrideType (mp_ContentType params) tc"
  have same: "torrents' = torrents" "db' = db" using handled(1) load by simp_all
  obtain tcs fs s0 where b: "b = (tcs, fs, s0)" by (cases b)
  note all = handled(3) [unfolded b same]
  have "mset (map to_InfoHash (pr_order pe torrents)) = mset (map to_InfoHash torrents)" using order by simp
  then have dt: "distinct (map to_InfoHash (pr_order pe torrents))"
    using TorrentsWithMissing_found(2) [OF load wf d] by (metis mset_eq_imp_distinct_iff)
  have to: "t \<in> set (pr_order pe torrents)" using order [of torrents] t by (metis set_mset_mset)
  have hash: "to_InfoHash (fst ?tc) = to_InfoHash t" using newTorrentContent_hash [OF found(2)] by simp
  have col: "?tc \<in> set tcs" "to_InfoHash t \<notin> fst ` set fs"
    "td_torrents (ps_db s0) (id_String (to_InfoHash t)) = td_torrents db (id_String (to_InfoHash t))"
    using processAll_collects [OF all dt to _ _ _ found(2)] skip filt found(1)
    by (simp_all add: wasRecentlyClassified_def)
  have dtcs: "distinct (map (to_InfoHash \<circ> fst) tcs)" using processAll_adds [OF all dt] by auto
  have row: "td_torrents (ps_db s0) (id_String (to_InfoHash t)) \<noteq> None"
    using col(3) TorrentsWithMissing_found(1) [OF load wf t] handled(2) same(2) by (simp add: same_tables_def)
  have ne: "tcs \<noteq> []" using col(1) by auto
  obtain s1 db1 where 1: "td_torrents (ps_db s1) (id_String (to_InfoHash t)) = td_torrents (ps_db s0) (id_String (to_InfoHash t))"
    "persistPayload now tcs (ps_db s1) = (None, db1)" "s' = afterPersist pe tcs (s1\<lparr>ps_db := db1\<rparr>)"
    using handleClassified_ProcOk [OF handled(4) [unfolded b] ne] col(2) by metis
  obtain r where "td_torrents db1 (id_String (to_InfoHash t)) = Some r" "holds_classified now (fst ?tc) r"
    using persist_stores [OF 1(2) dtcs col(1)] 1(1) row hash by auto
  moreover have "ps_db s' = db1" "\<exists>k. EnrichedMsg k (map (\<lambda>tc. InferID (fst tc)) tcs) \<in> set (ps_out s')"
    using 1(3) by (auto simp: afterPersist_def Let_def)
  ultimately show ?thesis using col(1) by fastforce
qed simp

section \<open>A message that comes again\<close>

lemma processTorrent_off:
  assumes "processTorrent pe now params t (tcs, fs, s) = Some (tcs', fs', s')" "fs_mode (ps_filter s) = TorrentFilterOff"
  shows "s' = s \<and> wasRecentlyClassified now (to_InfoHash t) s \<or> s' = markRecentlyClassified now (to_InfoHash t) s"
  using assms(1) by (cases rule: processTorrent_cases) (simp_all add: assms(2) filteredByTorrentFilter_def)

lemma processAll_marks:
  "processAll pe now params ts (tcs, fs, s) = Some (tcs', fs', s') \<Longrightarrow> fs_mode (ps_filter s) = TorrentFilterOff \<Longrightarrow>
   ps_db s' = ps_db s \<and> ps_filter s' = ps_filter s \<and>
   (\<forall>i. ps_recent s' i = ps_recent s i \<or> ps_recent s' i = Some now) \<and>
   (\<forall>t \<in> set ts. ps_recent s (to_InfoHash t) = None \<longrightarrow> ps_recent s' (to_InfoHash t) = Some now)"
proof (induction ts arbitrary: tcs fs s)
  case (Cons t ts)
  obtain tcs1 fs1 s1 where 1: "processTorrent pe now params t (tcs, fs, s) = Some (tcs1, fs1, s1)"
    "processAll pe now params ts (tcs1, fs1, s1) = Some (tcs', fs', s')"
    using Cons.prems(1) by (auto split: option.splits)
  have s1: "ps_db s1 = ps_db s" "ps_filter s1 = ps_filter s"
    "\<And>i. ps_recent s1 i = ps_recent s i \<or> ps_recent s1 i = Some now"
    "ps_recent s (to_InfoHash t) = None \<Longrightarrow> ps_recent s1 (to_InfoHash t) = Some now"
    using processTorrent_off [OF 1(1) Cons.prems(2)]
    by (auto simp: markRecentlyClassified_def wasRecentlyClassified_def)
  have IH: "ps_db s' = ps_db s1" "ps_filter s' = ps_filter s1"
    "\<And>i. ps_recent s' i = ps_recent s1 i \<or> ps_recent s' i = Some now"
    "\<And>t. t \<in> set ts \<Longrightarrow> ps_recent s1 (to_InfoHash t) = None \<Longrightarrow> ps_recent s' (to_InfoHash t) = Some now"
    using Cons.IH [OF 1(2)] s1(2) Cons.prems(2) by simp_all
  have "ps_recent s' (to_InfoHash u) = Some now"
    if "u \<in> set (t # ts)" "ps_recent s (to_InfoHash u) = None" for u
  proof (cases "ps_recent s1 (to_InfoHash u) = None")
    case True
    then have "u \<in> set ts" using that s1(4) by auto
    then show ?thesis using IH(4) True by blast
  next
    case False
    then have "ps_recent s1 (to_InfoHash u) = Some now" using s1(3) that(2) by metis
    then show ?thesis using IH(3) by metis
  qed
  moreover have "ps_recent s' i = ps_recent s i \<or> ps_recent s' i = Some now" for i using IH(3) s1(3) by metis
  ultimately show ?case using IH(1,2) s1(1,2) by simp
qed simp

lemma processAll_skips:
  "\<forall>t \<in> set ts. wasRecentlyClassified now (to_InfoHash t) s \<Longrightarrow> mp_ClassifyMode params \<noteq> ClassifyModeRematch \<Longrightarrow>
   processAll pe now params ts (tcs, fs, s) = Some (tcs, fs, s)"
  by (induction ts) (simp_all add: processTorrent_def)

lemma handleClassified_ProcErr:
  fixes s :: "('p, 'j) proc_state"
  assumes "handleClassified pe now params (tcs, fs, s) = (ProcErr e, s')"
  shows "ps_recent s' = ps_recent s \<and> ps_filter s' = ps_filter s \<and>
    (\<forall>h. td_torrents (ps_db s') h \<in> {td_torrents (ps_db s) h, None})"
proof -
  obtain retryable pauseErr where f: "splitClassifyFailures fs = (retryable, pauseErr)" by fastforce
  let ?s1 = "if retryable = [] then s else enqueueClassifyRetries pe retryable params s"
  have s1: "ps_recent ?s1 = ps_recent s \<and> ps_filter ?s1 = ps_filter s \<and>
      (\<forall>h. td_torrents (ps_db ?s1) h \<in> {td_torrents (ps_db s) h, None})"
    using enqueueClassifyRetries_frame [of pe retryable params s] by simp
  show ?thesis
  proof (cases pauseErr)
    case (Some x)
    then show ?thesis using assms f s1 by (simp add: handleClassified_def Let_def split: if_splits)
  next
    case None
    then have pc: "persistClassified pe now tcs ?s1 = (ProcErr e, s')"
      using assms by (simp add: handleClassified_def f Let_def)
    obtain e' db where p: "persistPayload now tcs (ps_db ?s1) = (e', db)" by fastforce
    have "tcs \<noteq> []" "e' \<noteq> None" "s' = ?s1\<lparr>ps_db := db\<rparr>"
      using pc p by (auto simp: persistClassified_def split: if_splits option.splits)
    moreover from this have "same_tables db (ps_db ?s1)"
      using program_query_failed [OF persist_program] p by fastforce
    ultimately show ?thesis using s1 by (simp add: same_tables_def)
  qed
qed

lemma loadAll_complete:
  "loadAll u rows found db = Some (Inr found', db') \<Longrightarrow> h \<in> fst ` set rows \<or> map_of found h \<noteq> None \<Longrightarrow>
   map_of found' h \<noteq> None"
proof (induction rows arbitrary: found db)
  case (Cons row rows)
  obtain k rs where row: "row = (k, rs)" by (cases row)
  obtain u1 db1 where 1: "TorrentWithFiles u k rs db = Some (Inr u1, db1)"
    "loadAll u rows (AList.update k u1 found) db1 = Some (Inr found', db')"
    using Cons.prems(1) row by (auto split: option.splits prod.splits sum.splits)
  show ?case using Cons.IH [OF 1(2)] Cons.prems(2) row by (auto simp: update_conv)
qed simp

lemma TorrentsWithMissing_complete:
  assumes load: "TorrentsWithMissingInfoHashes u (map id_String is) db = Some (Inr (ts, missing), db')"
    and wf: "\<forall>i \<in> set is. wf_id i" and i: "i \<in> set is" "td_torrents db (id_String i) \<noteq> None"
  shows "\<exists>t \<in> set ts. to_InfoHash t = i"
proof -
  let ?hs = "map id_String is"
  obtain rows db1 found where 1: "ListTorrentsByInfoHashes ?hs db = (Inr rows, db1)"
    "loadAll u rows [] db1 = Some (Inr found, db')" "ts = List.map_filter (map_of found) ?hs"
    using load by (auto simp: TorrentsWithMissingInfoHashes_def split: prod.splits sum.splits option.splits)
  have rows: "fst ` set rows = {h \<in> set ?hs. td_torrents db h \<noteq> None}" using loaded_from [OF 1(1)] .
  have known: "\<forall>h \<in> fst ` set rows. \<exists>i. wf_id i \<and> h = id_String i" using rows wf by auto
  obtain t where t: "map_of found (id_String i) = Some t" using loadAll_complete [OF 1(2)] rows i by fastforce
  have "id_String i = id_String (to_InfoHash t)" using loadAll_found [OF 1(2) known t] by auto
  moreover have "t \<in> set ts" using t i(1) 1(3) by (force simp: List.map_filter_def)
  ultimately show ?thesis by auto
qed


section \<open>An override of the content type\<close>

lemma runAll_fails:
  "q \<in> set qs \<Longrightarrow> \<forall>p \<in> set qs. \<forall>db db'. p db = (None, db') \<longrightarrow> P db \<longrightarrow> P db' \<Longrightarrow>
   \<forall>db. P db \<longrightarrow> fst (q db) \<noteq> None \<Longrightarrow> P db \<Longrightarrow> fst (runAll qs db) \<noteq> None"
proof (induction qs arbitrary: db)
  case (Cons q' qs)
  obtain f db1 where f: "q' db = (f, db1)" by (cases "q' db")
  show ?case
  proof (cases f)
    case None
    then have "q \<noteq> q'" using Cons.prems(3,4) f by fastforce
    moreover have "P db1" using Cons.prems(2,4) f None by auto
    ultimately have "fst (runAll qs db1) \<noteq> None" using Cons.IH [of db1] Cons.prems(1-3) by simp
    then show ?thesis using f None by simp
  qed (use f in simp)
qed simp

lemma contentQuery_content:
  "contentQuery c db = (None, db') \<Longrightarrow> ref \<noteq> content_Ref (fst c) \<Longrightarrow> td_content db' ref = td_content db ref"
  by (auto simp: contentQuery_def UpsertContent_def exec_def split: prod.splits option.splits)

lemma torrentQuery_frame:
  assumes "torrentQuery now tc db = (None, db')"
  shows "td_content db' = td_content db" "(td_torrents db' h = None) = (td_torrents db h = None)"
  using assms by (auto simp: torrentQuery_def UpdateTorrentContent_def exec_def TorrentToUpdateContentParams_def Let_def
      split: prod.splits option.splits if_splits)

text \<open>The type a message asks for replaces the type of a torrent, but not the reference to the
  content that was attached to it.  Unless a content of that type has the same source and the same
  identifier, the foreign key fails, and nothing of the whole batch is stored.\<close>

theorem override_loses_batch:
  fixes s :: "('p, 'j) proc_state"
  assumes tc: "overrideType (Some ct) (t, Some (x, tsv)) \<in> set tcs"
    and ref: "to_ContentSource t = Some (ct_Source x)" "to_ContentID t = Some (ct_ID x)"
    and row: "td_torrents (ps_db s) (id_String (to_InfoHash t)) \<noteq> None"
    and none: "td_content (ps_db s) (ct, ct_Source x, ct_ID x) = None"
      "\<forall>c \<in> set (newContents tcs {}). content_Ref (fst c) \<noteq> (ct, ct_Source x, ct_ID x)"
  shows "\<exists>e db. persistClassified pe now tcs s = (ProcErr (ProcPersist e), s\<lparr>ps_db := db\<rparr>) \<and> same_tables db (ps_db s)"
proof -
  let ?tc = "overrideType (Some ct) (t, Some (x, tsv))" and ?h = "id_String (to_InfoHash t)"
  let ?P = "\<lambda>db. td_content db (ct, ct_Source x, ct_ID x) = None \<and> td_torrents db ?h \<noteq> None"
  let ?qs = "map contentQuery (newContents tcs {}) @ map (torrentQuery now) tcs"
  have kept: "\<forall>p \<in> set ?qs. \<forall>db db'. p db = (None, db') \<longrightarrow> ?P db \<longrightarrow> ?P db'"
  proof (intro ballI allI impI)
    fix p db db'
    assume p: "p \<in> set ?qs" "p db = (None, db')" "?P db"
    then consider c where "c \<in> set (newContents tcs {})" "p = contentQuery c" | tc where "p = torrentQuery now tc" by auto
    then show "?P db'"
    proof cases
      case 1
      then show ?thesis using contentQuery_content [of c db db'] contentQuery_torrents [of c db None db'] p none(2) by metis
    next
      case 2
      then show ?thesis using torrentQuery_frame [of now tc db db'] p by metis
    qed
  qed
  have fails: "\<forall>db. ?P db \<longrightarrow> fst (torrentQuery now ?tc db) \<noteq> None"
    by (auto simp: torrentQuery_def UpdateTorrentContent_def exec_def TorrentToUpdateContentParams_def Let_def
        overrideType_def contentKeyOk_def ref split: option.splits prod.splits)
  obtain e db where p: "persistPayload now tcs (ps_db s) = (e, db)" by fastforce
  have "e \<noteq> None"
  proof
    assume "e = None"
    then obtain db1 db2 where 1: "nextFault (ps_db s) = (None, db1)" "runAll ?qs db1 = (None, db2)"
      using p by (auto simp: persistPayload_def transaction_def split: prod.splits option.splits)
    have "?P db1" using 1(1) none(1) row by simp
    then have "fst (runAll ?qs db1) \<noteq> None" using runAll_fails [OF _ kept fails] tc by simp
    then show False using 1(2) by simp
  qed
  then obtain e' where e': "e = Some e'" by auto
  have "same_tables db (ps_db s)" using program_query_failed [OF persist_program] p e' by simp
  then show ?thesis using p e' tc by (auto simp: persistClassified_def)
qed

section \<open>Witnesses\<close>

definition sampleRow :: torrents_row where
  "sampleRow = \<lparr>tw_name = [], tw_size = 10, tw_private = False, tw_files_count = Some 1, tw_content_type = None,
     tw_content_source = None, tw_content_id = None, tw_languages = None, tw_tsv = [], tw_created_at = 1, tw_updated_at = 1\<rparr>"

definition sampleProcDb :: "string option list \<Rightarrow> torrent_db" where
  "sampleProcDb fs = emptyDb\<lparr>td_torrents := [id_String (sampleHash 1) \<mapsto> sampleRow], td_faults := fs\<rparr>"

definition sampleExec :: "unit exec_env" where
  "sampleExec = \<lparr>xe_unicode = asciiOnly, xe_tables = (\<lambda>_. None), xe_video = sampleVideo,
     xe_content = \<lparr>cn_rows = (\<lambda>_ _ _. Inr []), cn_norm = (\<lambda>s. s), cn_distance = (\<lambda>_ _. 0),
       cn_SearchMovie = (\<lambda>_ _. Inr []), cn_SearchTv = (\<lambda>_ _. Inr []),
       cn_MovieDetails = (\<lambda>_. Inl ErrNotFound), cn_TvDetails = (\<lambda>_. Inl ErrNotFound)\<rparr>,
     xe_name = [], xe_Eval = (\<lambda>_ _ _ _. Inr VNull), xe_ToLower = (\<lambda>s. s), xe_ParseLanguage = (\<lambda>_. None),
     xe_llmEnabled = False, xe_MaxRetries = 0, xe_tryClassify = (\<lambda>_. Inl ErrUnmatched), xe_StrictLLM = False\<rparr>"

definition sampleProcEnv :: "(unit, string, unit) proc_env" where
  "sampleProcEnv = \<lparr>pr_exec = (\<lambda>_. sampleExec), pr_fuel = 1, pr_unicode = asciiOnly, pr_tables = (\<lambda>_. None),
     pr_maxSearchFiles = 0, pr_retry = None, pr_errText = (\<lambda>_. ''''), pr_webhook = None, pr_order = (\<lambda>ts. ts)\<rparr>"

text \<open>A classifier that takes everything for a film.\<close>

definition sampleProc :: "string option list \<Rightarrow> (unit, string) proc_state" where
  "sampleProc fs = \<lparr>ps_db = sampleProcDb fs, ps_retry = sampleDb, ps_recent = (\<lambda>_. None),
     ps_filter = \<lparr>fs_mode = TorrentFilterOff, fs_titlePatterns = [], fs_filenamePatterns = []\<rparr>,
     ps_runner = \<lparr>rn_flagDefinitions = [], rn_defaultFlags = [],
       rn_exprEnv = \<lparr>ee_Keywords = [], ee_Extensions = [], ee_ContentType = [], ee_FileType = [], ee_KB = 1000, ee_MB = 1000000, ee_GB = 1000000000\<rparr>,
       rn_workflows = [(''default'', SetContentType (Some ContentTypeMovie))]\<rparr>,
     ps_webhook = samplePublisher, ps_out = []\<rparr>"

definition sampleParamsOf :: "content_type option \<Rightarrow> message_params" where
  "sampleParamsOf ct = \<lparr>mp_ClassifyMode = ClassifyModeDefault, mp_ContentType = ct, mp_InfoHashes = [sampleHash 1]\<rparr>"

definition sampleLoaded :: torrent where
  "sampleLoaded = \<lparr>to_InfoHash = sampleHash 1, to_Name = [], to_Size = 10, to_Private = False,
     to_FilesCount = Some 1, to_ContentType = None, to_ContentSource = None, to_ContentID = None,
     to_Languages = None, to_Tsv = fmempty, to_Seeders = None, to_Leechers = None, to_Files = []\<rparr>"

lemma parseTsv_Nil: "parseTsv asciiOnly [] = Some fmempty"
  by code_simp

lemma sampleLoads:
  "TorrentsWithMissingInfoHashes asciiOnly [id_String (sampleHash 1)] (sampleProcDb (None # None # fs)) =
     Some (Inr ([sampleLoaded], []), sampleProcDb fs)"
  "TorrentsWithMissingInfoHashes asciiOnly [id_String (sampleHash 1)] (sampleProcDb []) =
     Some (Inr ([sampleLoaded], []), sampleProcDb [])"
  by (simp_all add: TorrentsWithMissingInfoHashes_def ListTorrentsByInfoHashes_def nextFault_def sampleProcDb_def
      List.map_filter_def TorrentWithFiles_def TorrentToModel_def ToProtocolID_def ParseID_sampleHash
      parseTsv_Nil sampleRow_def sampleLoaded_def toNullUint_def ListTorrentFiles_def emptyDb_def)

lemma sampleTsv: "newTorrentContent sampleProcEnv sampleLoaded [] (emptyResult\<lparr>ca_ContentType := Some ContentTypeMovie\<rparr>) =
    Some (sampleLoaded\<lparr>to_ContentType := Some ContentTypeMovie\<rparr>, None)"
proof -
  have "AddText asciiOnly (\<lambda>_. None) [] TsvectorWeightA fmempty = Some fmempty" by code_simp
  then show ?thesis
    by (simp add: newTorrentContent_def sampleProcEnv_def sampleLoaded_def emptyResult_def Torrent_UpdateTsv_def
        fileSearchStrings_def)
qed

lemma sampleRuns:
  "Run (Suc 0) sampleExec (ps_runner (sampleProc fs)) ''default'' [] [] =
     Some ([], Returned (emptyResult\<lparr>ca_ContentType := Some ContentTypeMovie\<rparr>) None)"
  by (simp add: Run_def sampleProc_def returned_def withResult_def)

lemma sampleStep:
  "processTorrent sampleProcEnv now (sampleParamsOf None) sampleLoaded ([], [], sampleProc fs) =
     Some ([(sampleLoaded\<lparr>to_ContentType := Some ContentTypeMovie\<rparr>, None)], [],
       markRecentlyClassified now (sampleHash 1) (sampleProc fs))"
proof -
  have "to_InfoHash sampleLoaded = sampleHash 1" by (simp add: sampleLoaded_def)
  moreover have "\<not> wasRecentlyClassified now (sampleHash 1) (sampleProc fs)"
    "\<not> filteredByTorrentFilter (ps_filter (sampleProc fs)) sampleLoaded"
    by (simp_all add: wasRecentlyClassified_def sampleProc_def filteredByTorrentFilter_def)
  moreover have "pr_fuel sampleProcEnv = Suc 0" "pr_exec sampleProcEnv sampleLoaded = sampleExec"
    "mp_ContentType (sampleParamsOf None) = None" by (simp_all add: sampleProcEnv_def sampleParamsOf_def)
  ultimately show ?thesis by (simp add: processTorrent_def sampleRuns sampleTsv overrideType_def Let_def)
qed

lemma sampleEnv_simps:
  "pr_order sampleProcEnv = (\<lambda>ts. ts)" "pr_unicode sampleProcEnv = asciiOnly" "mp_InfoHashes (sampleParamsOf ct) = [sampleHash 1]"
  "pr_webhook sampleProcEnv = None" "pr_retry sampleProcEnv = None"
  "mp_ClassifyMode (sampleParamsOf ct) = ClassifyModeDefault"
  "ps_db (sampleProc fs) = sampleProcDb fs" "(sampleProc fs)\<lparr>ps_db := sampleProcDb gs\<rparr> = sampleProc gs"
  "to_InfoHash sampleLoaded = sampleHash 1" "ps_db (markRecentlyClassified now i s) = ps_db s"
  "ps_recent (sampleProc fs) i = None" "fs_mode (ps_filter (sampleProc fs)) = TorrentFilterOff"
  "pr_fuel sampleProcEnv = Suc 0" "pr_exec sampleProcEnv t = sampleExec"
  by (simp_all add: sampleProcEnv_def sampleParamsOf_def sampleProc_def sampleLoaded_def markRecentlyClassified_def)

lemma sampleFirst:
  "Process sampleProcEnv 0 (sampleParamsOf None) (sampleProc [None, None, Some ''lost'']) =
     Some (ProcErr (ProcPersist (DbFault ''lost'')), markRecentlyClassified 0 (sampleHash 1) (sampleProc []))"
proof -
  have p: "persistPayload 0 tcs (sampleProcDb [Some ''lost'']) = (Some (DbFault ''lost''), sampleProcDb [])" for tcs
    by (simp add: persistPayload_def transaction_def nextFault_def sampleProcDb_def)
  have m: "(markRecentlyClassified 0 i (sampleProc fs))\<lparr>ps_db := sampleProcDb gs\<rparr> = markRecentlyClassified 0 i (sampleProc gs)" for i fs gs
    by (simp add: markRecentlyClassified_def sampleProc_def)
  show ?thesis
    by (simp add: Process_def sampleEnv_simps sampleLoads sampleStep handleClassified_def splitClassifyFailures_def
        List.map_filter_def persistClassified_def p m)
qed

lemma sampleOk: "\<exists>s'. Process sampleProcEnv 0 (sampleParamsOf None) (sampleProc []) = Some (ProcOk, s')"
proof -
  let ?tcs = "[(sampleLoaded\<lparr>to_ContentType := Some ContentTypeMovie\<rparr>, None)] :: classified list"
  have "fst (persistPayload 0 ?tcs (sampleProcDb [])) = None"
    by (simp add: persistPayload_def transaction_def nextFault_def sampleProcDb_def torrentQuery_def UpdateTorrentContent_def
        exec_def TorrentToUpdateContentParams_def sampleLoaded_def contentChecksOk_def contentKeyOk_def
        emptyDb_def sampleRow_def Let_def)
  then obtain db where "persistPayload 0 ?tcs (sampleProcDb []) = (None, db)" by (metis prod.collapse)
  then show ?thesis
    by (simp add: Process_def sampleEnv_simps sampleLoads sampleStep handleClassified_def splitClassifyFailures_def
        List.map_filter_def persistClassified_def)
qed

lemma sampleProc_ok: "proc_ok (sampleProc fs)"
proof -
  have "db_ok (sampleProcDb fs)"
    by (auto simp: db_ok_def sampleProcDb_def emptyDb_def sampleRow_def contentChecksOk_def contentKeyOk_def)
  then show ?thesis by (simp add: proc_ok_def sampleProc_def sampleDb_def keyed_def queue_ok_def samplePublisher_def)
qed


theorem Process_stores_witness:
  "\<exists>s' r k ids. Process sampleProcEnv 0 (sampleParamsOf None) (sampleProc []) = Some (ProcOk, s') \<and>
     td_torrents (ps_db s') (id_String (sampleHash 1)) = Some r \<and> tw_content_type r = Some ContentTypeMovie \<and>
     EnrichedMsg k ids \<in> set (ps_out s')"
proof -
  obtain s' where s': "Process sampleProcEnv 0 (sampleParamsOf None) (sampleProc []) = Some (ProcOk, s')"
    using sampleOk by blast
  have "\<exists>r k ids. td_torrents (ps_db s') (id_String (to_InfoHash sampleLoaded)) = Some r \<and>
     holds_classified 0 (fst (overrideType (mp_ContentType (sampleParamsOf None))
       (sampleLoaded\<lparr>to_ContentType := Some ContentTypeMovie\<rparr>, None))) r \<and>
     EnrichedMsg k ids \<in> set (ps_out s') \<and> InferID (fst (overrideType (mp_ContentType (sampleParamsOf None))
       (sampleLoaded\<lparr>to_ContentType := Some ContentTypeMovie\<rparr>, None))) \<in> set ids"
    by (rule Process_stores [OF s', where torrents = "[sampleLoaded]" and missing = "[]" and db = "sampleProcDb []"
          and st = "[]" and c = "emptyResult\<lparr>ca_ContentType := Some ContentTypeMovie\<rparr>"])
       (simp_all add: sampleEnv_simps sampleLoads wasRecentlyClassified_def filteredByTorrentFilter_def sampleTsv
         sampleRuns)
  then show ?thesis using s'
    by (auto simp: sampleEnv_simps holds_classified_def overrideType_def sampleParamsOf_def)
qed


theorem override_loses_batch_witness:
  "\<exists>x t e db. ct_Type x = ContentTypeMovie \<and> persistClassified sampleProcEnv 0
     [overrideType (Some ContentTypeTvShow) (t, Some (x, fmempty))] (sampleProc []) =
       (ProcErr (ProcPersist e), (sampleProc [])\<lparr>ps_db := db\<rparr>)"
proof -
  let ?x = "\<lparr>ct_Type = ContentTypeMovie, ct_Source = [5], ct_ID = [2], ct_Title = [], ct_ReleaseDate = nilDate,
    ct_Adult = None, ct_CreatedAt = zeroTime\<rparr>"
  let ?t = "sampleLoaded\<lparr>to_ContentType := Some ContentTypeMovie, to_ContentSource := Some [5], to_ContentID := Some [2]\<rparr>"
  have new: "newContents [overrideType (Some ContentTypeTvShow) (?t, Some (?x, fmempty))] {} = [(?x, fmempty)]"
    by (simp add: overrideType_def)
  have "\<exists>e db. persistClassified sampleProcEnv 0 [overrideType (Some ContentTypeTvShow) (?t, Some (?x, fmempty))] (sampleProc []) =
       (ProcErr (ProcPersist e), (sampleProc [])\<lparr>ps_db := db\<rparr>) \<and> same_tables db (ps_db (sampleProc []))"
  proof (rule override_loses_batch [of _ ?t ?x fmempty])
    show "\<forall>c \<in> set (newContents [overrideType (Some ContentTypeTvShow) (?t, Some (?x, fmempty))] {}).
        content_Ref (fst c) \<noteq> (ContentTypeTvShow, ct_Source ?x, ct_ID ?x)"
      unfolding new by (simp add: content_Ref_def)
  qed (simp_all add: sampleEnv_simps sampleProcDb_def emptyDb_def)
  then show ?thesis by (intro exI [of _ ?x] exI [of _ ?t]) auto
qed

end
