(* ===== verification/Health.thy ===== *)
theory Health
  imports PgTypes "HOL-Library.AList" "HOL-Library.Word"
begin

text \<open>
  The health checks of the services the program uses, \<open>src/internal/health\<close> (\<open>check.go\<close>, \<open>config.go\<close>,
  the status logger of \<open>factory.go\<close> and the status code of \<open>handler.go\<close>) and the check of the DHT
  (\<open>dhtcrawler/healthcheck.go\<close>) over what the server recorded (\<open>protocol/dht/server/health_collector.go\<close>).

  \<^item> What a check function does when it is called, and the readings of the clock, are an \<open>execution\<close>: whether
    the service is active, the times and the outcome.  A panic that is not recovered ends the
    program, the value \<open>None\<close>.
  \<^item> A check that runs periodically copies its state, runs without the lock and writes the state back.
    No other code writes the state of that check, so that copy and update are one step here.
  \<^item> The program has one listener, the logger; checks have none, and no option sets an interceptor.
    Contexts, waiting and the JSON of a result are not modelled.
\<close>

section \<open>States\<close>

datatype availability = StatusUnknown | StatusUp | StatusDown | StatusInactive

fun criticality :: "availability \<Rightarrow> nat" where
  "criticality StatusDown = 2"
| "criticality StatusUnknown = 1"
| "criticality StatusUp = 0"
| "criticality StatusInactive = 0"

record check_state =
  cs_LastCheckedAt :: int
  cs_LastSuccessAt :: int
  cs_LastFailureAt :: int
  cs_FirstCheckStartedAt :: int
  cs_ContiguousFails :: "64 word"
  cs_Result :: "string option"
  cs_Status :: availability

type_synonym interceptor_func = "string \<Rightarrow> check_state \<Rightarrow> check_state option"

record health_check =
  hc_Name :: string
  hc_IsActive :: bool
  hc_MaxTimeInError :: int
  hc_MaxContiguousFails :: "64 word"
  hc_Interceptors :: "(interceptor_func \<Rightarrow> interceptor_func) list"
  hc_DisablePanicRecovery :: bool
  hc_updateInterval :: int
  hc_initialDelay :: int

record checker_config =
  ch_checks :: "(string \<times> health_check) list"
  ch_cacheTTL :: int
  ch_interceptors :: "(interceptor_func \<Rightarrow> interceptor_func) list"
  ch_detailsDisabled :: bool

datatype check_outcome = CheckReturned "string option" | CheckPanicked string | CheckTimedOut

text \<open>\<open>hc_IsActive\<close> says whether the check has a function for it; \<open>ex_active\<close> is what that returns.\<close>

record execution =
  ex_active :: bool
  ex_start :: int
  ex_outcome :: check_outcome
  ex_end :: int
  ex_eval :: int

datatype health_log = LogRecovered | LogDegraded "(string \<times> string option) list" | LogUnknown "(string \<times> string option) list"

record defaultChecker =
  hk_started :: bool
  hk_startedAt :: "int option"
  hk_status :: availability
  hk_checks :: "(string \<times> check_state) list"
  hk_periodic :: nat
  hk_cancel :: bool
  hk_previous :: "availability option"
  hk_log :: "health_log list"

section \<open>One check\<close>

definition unknownState :: check_state where
  "unknownState = \<lparr>cs_LastCheckedAt = zeroTime, cs_LastSuccessAt = zeroTime, cs_LastFailureAt = zeroTime,
     cs_FirstCheckStartedAt = zeroTime, cs_ContiguousFails = 0, cs_Result = None, cs_Status = StatusUnknown\<rparr>"

definition isActiveCheck :: "health_check \<Rightarrow> execution \<Rightarrow> bool" where
  "isActiveCheck c e \<longleftrightarrow> \<not> hc_IsActive c \<or> ex_active e"

definition isPeriodicCheck :: "health_check \<Rightarrow> bool" where
  "isPeriodicCheck c \<longleftrightarrow> 0 < hc_updateInterval c"

definition isCacheExpired :: "int \<Rightarrow> int \<Rightarrow> check_state \<Rightarrow> bool" where
  "isCacheExpired now ttl st \<longleftrightarrow> cs_LastCheckedAt st = zeroTime \<or> cs_LastCheckedAt st < now - ttl"

definition ErrTimeout :: string where "ErrTimeout = ''check timed out''"

definition executeCheckFunc :: "health_check \<Rightarrow> execution \<Rightarrow> string option option" where
  "executeCheckFunc c e = (case ex_outcome e of
     CheckReturned r \<Rightarrow> Some r
   | CheckPanicked msg \<Rightarrow> if hc_DisablePanicRecovery c then None else Some (Some msg)
   | CheckTimedOut \<Rightarrow> Some (Some ErrTimeout))"

definition evaluateCheckStatus :: "int \<Rightarrow> check_state \<Rightarrow> int \<Rightarrow> 64 word \<Rightarrow> availability" where
  "evaluateCheckStatus now st maxTimeInError maxFails =
     (if cs_LastCheckedAt st = zeroTime then StatusUnknown
      else if cs_Result st \<noteq> None then
        (let maxTimeInErrorSinceStartPassed = (cs_FirstCheckStartedAt st + maxTimeInError \<le> now);
             maxTimeInErrorSinceLastSuccessPassed =
               (cs_LastSuccessAt st = zeroTime \<or> cs_LastSuccessAt st + maxTimeInError \<le> now) in
         if cs_ContiguousFails st \<ge> maxFails \<and>
            maxTimeInErrorSinceStartPassed \<and> maxTimeInErrorSinceLastSuccessPassed
         then StatusDown else StatusUp)
      else StatusUp)"

definition createNextCheckState :: "string option \<Rightarrow> health_check \<Rightarrow> execution \<Rightarrow> check_state \<Rightarrow> check_state" where
  "createNextCheckState result c e st0 =
     (let st1 = st0\<lparr>cs_Result := result, cs_LastCheckedAt := ex_end e\<rparr>;
          st2 = (if result = None then st1\<lparr>cs_ContiguousFails := 0, cs_LastSuccessAt := ex_end e\<rparr>
                 else st1\<lparr>cs_ContiguousFails := cs_ContiguousFails st1 + 1, cs_LastFailureAt := ex_end e\<rparr>) in
      st2\<lparr>cs_Status := evaluateCheckStatus (ex_eval e) st2 (hc_MaxTimeInError c) (hc_MaxContiguousFails c)\<rparr>)"

definition BuildChain :: "('a \<Rightarrow> 'a) list \<Rightarrow> 'a \<Rightarrow> 'a" where
  "BuildChain items target = foldr (\<lambda>f t. f t) items target"

definition executeCheck :: "checker_config \<Rightarrow> health_check \<Rightarrow> execution \<Rightarrow> check_state \<Rightarrow> check_state option" where
  "executeCheck cfg c e old =
     (let st = (if cs_FirstCheckStartedAt old = zeroTime then old\<lparr>cs_FirstCheckStartedAt := ex_start e\<rparr> else old) in
      if isActiveCheck c e
      then BuildChain (ch_interceptors cfg @ hc_Interceptors c)
        (\<lambda>_ s. map_option (\<lambda>r. createNextCheckState r c e s) (executeCheckFunc c e)) (hc_Name c) st
      else Some (st\<lparr>cs_Status := StatusInactive\<rparr>))"

section \<open>The checker\<close>

text \<open>\<open>WithPeriodicCheck\<close>, on the map of a configuration.\<close>

definition WithPeriodicCheck :: "int \<Rightarrow> int \<Rightarrow> health_check \<Rightarrow> checker_config \<Rightarrow> checker_config" where
  "WithPeriodicCheck refreshPeriod initialDelay c cfg = cfg\<lparr>ch_checks := AList.update (hc_Name c)
     (c\<lparr>hc_updateInterval := refreshPeriod, hc_initialDelay := initialDelay\<rparr>) (ch_checks cfg)\<rparr>"

definition newChecker :: "checker_config \<Rightarrow> defaultChecker" where
  "newChecker cfg = \<lparr>hk_started = False, hk_startedAt = None, hk_status = StatusUnknown,
     hk_checks = map (\<lambda>p. (hc_Name (snd p), unknownState)) (ch_checks cfg),
     hk_periodic = 0, hk_cancel = False, hk_previous = None, hk_log = []\<rparr>"

definition checkStateOf :: "string \<Rightarrow> defaultChecker \<Rightarrow> check_state" where
  "checkStateOf name ck = (case map_of (hk_checks ck) name of None \<Rightarrow> unknownState | Some st \<Rightarrow> st)"

definition aggregateStatus :: "availability list \<Rightarrow> availability" where
  "aggregateStatus results =
     foldl (\<lambda>status r. if criticality r > criticality status then r else status) StatusUp results"

text \<open>The messages of the failing checks; the code prints and sorts them.\<close>

definition failingChecks :: "(string \<times> check_state) list \<Rightarrow> (string \<times> string option) list" where
  "failingChecks states =
     map (\<lambda>p. (fst p, cs_Result (snd p))) (filter (\<lambda>p. cs_Status (snd p) = StatusDown) states)"

definition statusLogger :: "defaultChecker \<Rightarrow> defaultChecker" where
  "statusLogger ck =
     (let wasDown = (hk_previous ck = Some StatusDown);
          entry = (case hk_status ck of
              StatusUp \<Rightarrow> if wasDown then [LogRecovered] else []
            | StatusDown \<Rightarrow> [LogDegraded (failingChecks (hk_checks ck))]
            | _ \<Rightarrow> [LogUnknown (failingChecks (hk_checks ck))]) in
      ck\<lparr>hk_previous := Some (hk_status ck), hk_log := hk_log ck @ entry\<rparr>)"

definition updateState :: "(string \<times> check_state) list \<Rightarrow> defaultChecker \<Rightarrow> defaultChecker" where
  "updateState updates ck =
     (let ck1 = ck\<lparr>hk_checks := fold (\<lambda>u. AList.update (fst u) (snd u)) updates (hk_checks ck)\<rparr>;
          ck2 = ck1\<lparr>hk_status := aggregateStatus (map (cs_Status \<circ> snd) (hk_checks ck1))\<rparr> in
      if hk_status ck \<noteq> hk_status ck2 then statusLogger ck2 else ck2)"

text \<open>The checks that run when the checker is asked, and when a timer fires.\<close>

definition dueChecks :: "checker_config \<Rightarrow> int \<Rightarrow> defaultChecker \<Rightarrow> health_check list" where
  "dueChecks cfg now ck = filter (\<lambda>c. \<not> isPeriodicCheck c \<and>
     isCacheExpired now (ch_cacheTTL cfg) (checkStateOf (hc_Name c) ck)) (map snd (ch_checks cfg))"

fun executeAll :: "checker_config \<Rightarrow> (string \<Rightarrow> execution) \<Rightarrow> defaultChecker \<Rightarrow> health_check list \<Rightarrow> (string \<times> check_state) list option" where
  "executeAll cfg ex ck [] = Some []"
| "executeAll cfg ex ck (c # cs) =
     (case (executeCheck cfg c (ex (hc_Name c)) (checkStateOf (hc_Name c) ck), executeAll cfg ex ck cs) of
        (Some st, Some rest) \<Rightarrow> Some ((hc_Name c, st) # rest) | _ \<Rightarrow> None)"

definition runChecks :: "checker_config \<Rightarrow> (string \<Rightarrow> execution) \<Rightarrow> health_check list \<Rightarrow> defaultChecker \<Rightarrow> defaultChecker option" where
  "runChecks cfg ex cs ck = map_option (\<lambda>updates. updateState updates ck) (executeAll cfg ex ck cs)"

definition runSynchronousChecks :: "checker_config \<Rightarrow> int \<Rightarrow> (string \<Rightarrow> execution) \<Rightarrow> defaultChecker \<Rightarrow> defaultChecker option" where
  "runSynchronousChecks cfg now ex ck = runChecks cfg ex (dueChecks cfg now ck) ck"

definition tickChecks :: "checker_config \<Rightarrow> string \<Rightarrow> defaultChecker \<Rightarrow> health_check list" where
  "tickChecks cfg name ck = (case map_of (ch_checks cfg) name of
     None \<Rightarrow> [] | Some c \<Rightarrow> if isPeriodicCheck c \<and> hk_started ck then [c] else [])"

record health_result =
  hr_Status :: availability
  hr_Details :: "(string \<times> availability \<times> string option \<times> int option) list"

definition mapStateToCheckerResult :: "checker_config \<Rightarrow> defaultChecker \<Rightarrow> health_result" where
  "mapStateToCheckerResult cfg ck = \<lparr>hr_Status = hk_status ck,
     hr_Details = (if ch_detailsDisabled cfg then [] else map (\<lambda>p.
       (let st = checkStateOf (hc_Name (snd p)) ck in
        (hc_Name (snd p), cs_Status st, cs_Result st,
         if cs_LastCheckedAt st = zeroTime then hk_startedAt ck else Some (cs_LastCheckedAt st)))) (ch_checks cfg))\<rparr>"

definition health_Check :: "checker_config \<Rightarrow> int \<Rightarrow> (string \<Rightarrow> execution) \<Rightarrow> defaultChecker \<Rightarrow> (health_result \<times> defaultChecker) option" where
  "health_Check cfg now ex ck =
     map_option (\<lambda>ck'. (mapStateToCheckerResult cfg ck', ck')) (runSynchronousChecks cfg now ex ck)"

definition health_Start :: "checker_config \<Rightarrow> int \<Rightarrow> defaultChecker \<Rightarrow> defaultChecker" where
  "health_Start cfg now ck = (if hk_started ck then ck
     else ck\<lparr>hk_started := True, hk_startedAt := Some now, hk_cancel := True,
       hk_periodic := hk_periodic ck + length (filter isPeriodicCheck (map snd (ch_checks cfg)))\<rparr>)"

text \<open>Stopping a checker that was never started calls a nil function.\<close>

definition health_Stop :: "defaultChecker \<Rightarrow> defaultChecker option" where
  "health_Stop ck = (if hk_cancel ck then Some (ck\<lparr>hk_started := False, hk_periodic := 0\<rparr>) else None)"

definition mapHTTPStatusCode :: "availability \<Rightarrow> int \<Rightarrow> int \<Rightarrow> int" where
  "mapHTTPStatusCode status up down = (if status = StatusDown \<or> status = StatusUnknown then down else up)"

section \<open>The check of the DHT\<close>

record last_responses =
  la_StartTime :: int
  la_LastSuccess :: int
  la_LastResponse :: int

definition dhtCheck :: "int \<Rightarrow> last_responses \<Rightarrow> string option" where
  "dhtCheck now lr =
     (if la_StartTime lr = zeroTime then None
      else if la_LastSuccess lr = zeroTime then
        (if now - la_StartTime lr < 30 * 1000000000 then None else Some ''no response within 30 seconds'')
      else if now - la_LastSuccess lr > 60 * 1000000000 then Some ''no successful responses within last minute''
      else None)"

text \<open>The server wrapped by \<open>healthCollector\<close> records when it started and when it was answered.\<close>

definition noResponses :: last_responses where
  "noResponses = \<lparr>la_StartTime = zeroTime, la_LastSuccess = zeroTime, la_LastResponse = zeroTime\<rparr>"

definition collector_start :: "string option \<Rightarrow> int \<Rightarrow> last_responses \<Rightarrow> last_responses" where
  "collector_start err now lr = (if err = None then lr\<lparr>la_StartTime := now\<rparr> else lr)"

definition collector_stop :: "last_responses \<Rightarrow> last_responses" where
  "collector_stop lr = noResponses"

definition collector_Query :: "string option \<Rightarrow> int \<Rightarrow> last_responses \<Rightarrow> last_responses" where
  "collector_Query err now lr =
     (let lr1 = lr\<lparr>la_LastResponse := now\<rparr> in if err = None then lr1\<lparr>la_LastSuccess := now\<rparr> else lr1)"

definition afterQueries :: "int \<Rightarrow> (string option \<times> int) list \<Rightarrow> last_responses" where
  "afterQueries started qs = fold (\<lambda>(err, t). collector_Query err t) qs (collector_start None started noResponses)"

lemma afterQueries_times:
  "la_StartTime (afterQueries started qs) = started \<and>
   la_LastSuccess (afterQueries started qs) = (case find (\<lambda>q. fst q = None) (rev qs) of None \<Rightarrow> zeroTime | Some q \<Rightarrow> snd q)"
  by (induction qs rule: rev_induct)
     (auto simp: afterQueries_def collector_start_def collector_Query_def noResponses_def Let_def)

text \<open>The check passes for half a minute after the start, and for a minute after the last answer.\<close>

lemma dht_health:
  assumes "started \<noteq> zeroTime" "\<forall>q \<in> set qs. snd q \<noteq> zeroTime"
  shows "dhtCheck now (afterQueries started qs) = None \<longleftrightarrow>
    (case find (\<lambda>q. fst q = None) (rev qs) of
       None \<Rightarrow> now - started < 30 * 1000000000 | Some q \<Rightarrow> now - snd q \<le> 60 * 1000000000)"
proof (cases "find (\<lambda>q. fst q = None) (rev qs)")
  case None
  then show ?thesis using assms(1) by (simp add: dhtCheck_def afterQueries_times)
next
  case (Some q)
  then have "q \<in> set (rev qs)" by (metis find_Some_iff nth_mem)
  then have "snd q \<noteq> zeroTime" using assms(2) by simp
  then show ?thesis using assms(1) Some by (simp add: dhtCheck_def afterQueries_times)
qed

section \<open>Runs\<close>

datatype health_step = HStart int | HStop | HCheck int "string \<Rightarrow> execution" | HTick string execution

text \<open>The executions of a step.\<close>

fun stepExecs :: "checker_config \<Rightarrow> health_step \<Rightarrow> defaultChecker \<Rightarrow> (health_check \<times> execution) list" where
  "stepExecs cfg (HCheck now ex) ck = map (\<lambda>c. (c, ex (hc_Name c))) (dueChecks cfg now ck)"
| "stepExecs cfg (HTick name e) ck = map (\<lambda>c. (c, e)) (tickChecks cfg name ck)"
| "stepExecs cfg s ck = []"

fun health_exec :: "checker_config \<Rightarrow> health_step \<Rightarrow> defaultChecker \<Rightarrow> defaultChecker option" where
  "health_exec cfg (HStart now) ck = Some (health_Start cfg now ck)"
| "health_exec cfg HStop ck = health_Stop ck"
| "health_exec cfg (HCheck now ex) ck = map_option snd (health_Check cfg now ex ck)"
| "health_exec cfg (HTick name e) ck =
     (if tickChecks cfg name ck = [] then Some ck else runChecks cfg (\<lambda>_. e) (tickChecks cfg name ck) ck)"

fun health_runs :: "checker_config \<Rightarrow> health_step list \<Rightarrow> defaultChecker \<Rightarrow> defaultChecker option" where
  "health_runs cfg [] ck = Some ck"
| "health_runs cfg (s # ss) ck = (case health_exec cfg s ck of None \<Rightarrow> None | Some ck' \<Rightarrow> health_runs cfg ss ck')"

section \<open>What the history of a check says\<close>

text \<open>The executions of one check in a run.\<close>

fun executions :: "checker_config \<Rightarrow> string \<Rightarrow> health_step list \<Rightarrow> defaultChecker \<Rightarrow> execution list" where
  "executions cfg n [] ck = []"
| "executions cfg n (s # ss) ck =
     map snd (filter (\<lambda>p. hc_Name (fst p) = n) (stepExecs cfg s ck)) @
     (case health_exec cfg s ck of None \<Rightarrow> [] | Some ck' \<Rightarrow> executions cfg n ss ck')"

definition resultOf :: "health_check \<Rightarrow> execution \<Rightarrow> string option" where
  "resultOf c e = (case executeCheckFunc c e of None \<Rightarrow> None | Some r \<Rightarrow> r)"

definition ranOf :: "health_check \<Rightarrow> execution list \<Rightarrow> execution list" where
  "ranOf c h = filter (isActiveCheck c) h"

definition failsOf :: "health_check \<Rightarrow> execution list \<Rightarrow> nat" where
  "failsOf c h = length (takeWhile (\<lambda>e. resultOf c e \<noteq> None) (rev (ranOf c h)))"

definition successOf :: "health_check \<Rightarrow> execution list \<Rightarrow> int option" where
  "successOf c h = map_option ex_end (find (\<lambda>e. resultOf c e = None) (rev (ranOf c h)))"

text \<open>What a status means: down after enough failures in a row and enough time without success.\<close>

definition statusOf :: "health_check \<Rightarrow> execution list \<Rightarrow> availability" where
  "statusOf c h =
     (if h = [] then StatusUnknown
      else if \<not> isActiveCheck c (last h) then StatusInactive
      else if resultOf c (last h) \<noteq> None \<and> of_nat (failsOf c h) \<ge> hc_MaxContiguousFails c \<and>
        ex_start (hd h) + hc_MaxTimeInError c \<le> ex_eval (last h) \<and>
        (case successOf c h of None \<Rightarrow> True | Some t \<Rightarrow> t + hc_MaxTimeInError c \<le> ex_eval (last h))
      then StatusDown else StatusUp)"

definition follows :: "health_check \<Rightarrow> execution list \<Rightarrow> check_state \<Rightarrow> bool" where
  "follows c h st \<longleftrightarrow>
     cs_FirstCheckStartedAt st = (if h = [] then zeroTime else ex_start (hd h)) \<and>
     cs_LastSuccessAt st = (case successOf c h of None \<Rightarrow> zeroTime | Some t \<Rightarrow> t) \<and>
     cs_ContiguousFails st = of_nat (failsOf c h) \<and> cs_Status st = statusOf c h"

definition timed :: "execution \<Rightarrow> bool" where
  "timed e \<longleftrightarrow> ex_start e \<noteq> zeroTime \<and> ex_end e \<noteq> zeroTime"

lemma follows_unknown: "follows c [] unknownState"
  by (simp add: follows_def unknownState_def successOf_def failsOf_def ranOf_def statusOf_def)

lemma successOf_timed: "\<forall>e \<in> set h. timed e \<Longrightarrow> successOf c h = Some t \<Longrightarrow> t \<noteq> zeroTime"
proof -
  assume h: "\<forall>e \<in> set h. timed e" and t: "successOf c h = Some t"
  obtain e where e: "find (\<lambda>e. resultOf c e = None) (rev (ranOf c h)) = Some e" "t = ex_end e"
    using t by (auto simp: successOf_def)
  have "e \<in> set (rev (ranOf c h))" using e(1) by (metis find_Some_iff nth_mem)
  then show "t \<noteq> zeroTime" using h e(2) by (auto simp: ranOf_def timed_def)
qed

lemma executeCheck_follows:
  assumes "follows c h old" "executeCheck cfg c e old = Some st" "timed e" "\<forall>e \<in> set h. timed e"
    "ch_interceptors cfg = []" "hc_Interceptors c = []"
  shows "follows c (h @ [e]) st"
proof -
  let ?st = "if cs_FirstCheckStartedAt old = zeroTime then old\<lparr>cs_FirstCheckStartedAt := ex_start e\<rparr> else old"
  have hd: "h \<noteq> [] \<Longrightarrow> ex_start (hd h) \<noteq> zeroTime" using assms(4) by (simp add: timed_def)
  have first: "cs_FirstCheckStartedAt ?st = ex_start (hd (h @ [e]))"
    using assms(1) hd by (auto simp: follows_def)
  have same: "cs_LastSuccessAt ?st = cs_LastSuccessAt old" "cs_ContiguousFails ?st = cs_ContiguousFails old" by simp_all
  show ?thesis
  proof (cases "isActiveCheck c e")
    case False
    then have "st = ?st\<lparr>cs_Status := StatusInactive\<rparr>" using assms(2) by (simp add: executeCheck_def Let_def)
    then show ?thesis using first same assms(1) False
      by (simp add: follows_def successOf_def failsOf_def ranOf_def statusOf_def)
  next
    case True
    then obtain r where r: "executeCheckFunc c e = Some r" "st = createNextCheckState r c e ?st"
      using assms(2,5,6) by (auto simp: executeCheck_def BuildChain_def Let_def)
    have res: "resultOf c e = r" by (simp add: resultOf_def r(1))
    have ran: "ranOf c (h @ [e]) = ranOf c h @ [e]" using True by (simp add: ranOf_def)
    have end_ok: "ex_end e \<noteq> zeroTime" using assms(3) by (simp add: timed_def)
    have success: "successOf c (h @ [e]) = (if r = None then Some (ex_end e) else successOf c h)"
      by (simp add: successOf_def ran res)
    have fails: "failsOf c (h @ [e]) = (if r = None then 0 else Suc (failsOf c h))"
      by (simp add: failsOf_def ran res)
    have "cs_FirstCheckStartedAt st = ex_start (hd (h @ [e]))" "cs_LastSuccessAt st = (case successOf c (h @ [e]) of None \<Rightarrow> zeroTime | Some t \<Rightarrow> t)"
      "cs_ContiguousFails st = of_nat (failsOf c (h @ [e]))"
      using first same assms(1) by (auto simp: r(2) createNextCheckState_def Let_def success fails follows_def)
    moreover have "cs_Status st = evaluateCheckStatus (ex_eval e) (st\<lparr>cs_Status := cs_Status ?st\<rparr>) (hc_MaxTimeInError c) (hc_MaxContiguousFails c)"
      by (simp add: r(2) createNextCheckState_def Let_def)
    moreover have "cs_LastCheckedAt st = ex_end e" "cs_Result st = r" by (simp_all add: r(2) createNextCheckState_def Let_def)
    moreover have "successOf c (h @ [e]) = Some t \<Longrightarrow> t \<noteq> zeroTime" for t
      by (rule successOf_timed [of "h @ [e]"]) (use assms(3,4) in auto)
    moreover have "statusOf c (h @ [e]) =
      (if r \<noteq> None \<and> of_nat (failsOf c (h @ [e])) \<ge> hc_MaxContiguousFails c \<and>
          ex_start (hd (h @ [e])) + hc_MaxTimeInError c \<le> ex_eval e \<and>
          (case successOf c (h @ [e]) of None \<Rightarrow> True | Some t \<Rightarrow> t + hc_MaxTimeInError c \<le> ex_eval e)
       then StatusDown else StatusUp)"
      unfolding statusOf_def last_snoc res using True by simp
    ultimately show ?thesis using end_ok
      by (simp add: follows_def evaluateCheckStatus_def split: option.split)
  qed
qed

section \<open>Aggregation\<close>

lemma aggregate_down: "foldl (\<lambda>status r. if criticality r > criticality status then r else status) s0 rs = StatusDown \<longleftrightarrow>
    s0 = StatusDown \<or> StatusDown \<in> set rs"
proof (induction rs arbitrary: s0)
  case (Cons r rs)
  have "(if criticality r > criticality s0 then r else s0) = StatusDown \<longleftrightarrow> s0 = StatusDown \<or> r = StatusDown"
    by (cases r; cases s0) simp_all
  then show ?case using Cons.IH by auto
qed simp

lemma aggregateStatus_down: "aggregateStatus rs = StatusDown \<longleftrightarrow> StatusDown \<in> set rs"
  by (simp add: aggregateStatus_def aggregate_down)

section \<open>Runs follow their histories\<close>

definition config_ok :: "checker_config \<Rightarrow> bool" where
  "config_ok cfg \<longleftrightarrow> distinct (map fst (ch_checks cfg)) \<and> (\<forall>p \<in> set (ch_checks cfg). hc_Name (snd p) = fst p) \<and>
     ch_interceptors cfg = [] \<and> (\<forall>p \<in> set (ch_checks cfg). hc_Interceptors (snd p) = [])"

lemma update_mem: "p \<in> set (AList.update k v xs) \<Longrightarrow> p = (k, v) \<or> p \<in> set xs"
  by (induction xs) (auto split: if_splits)

lemma WithPeriodicCheck_ok:
  "config_ok cfg \<Longrightarrow> hc_Interceptors c = [] \<Longrightarrow> config_ok (WithPeriodicCheck r d c cfg)"
  by (auto simp: config_ok_def WithPeriodicCheck_def distinct_update dest!: update_mem)

definition tracks :: "checker_config \<Rightarrow> (string \<Rightarrow> execution list) \<Rightarrow> defaultChecker \<Rightarrow> bool" where
  "tracks cfg h ck \<longleftrightarrow> map fst (hk_checks ck) = map fst (ch_checks cfg) \<and>
     (\<forall>(n, c) \<in> set (ch_checks cfg). follows c (h n) (checkStateOf n ck)) \<and>
     (hk_status ck = StatusDown \<longleftrightarrow> StatusDown \<in> (cs_Status \<circ> snd) ` set (hk_checks ck))"

lemma fold_update:
  "distinct (map fst us) \<Longrightarrow>
   map_of (fold (\<lambda>u. AList.update (fst u) (snd u)) us xs) n = (case map_of us n of None \<Rightarrow> map_of xs n | Some v \<Rightarrow> Some v)"
proof (induction us arbitrary: xs)
  case (Cons u us)
  have "map_of us (fst u) = None" using Cons.prems by (simp add: map_of_eq_None_iff)
  then show ?case using Cons by (auto simp: update_conv split: option.split)
qed simp

lemma fold_update_keys:
  "fst ` set us \<subseteq> fst ` set xs \<Longrightarrow> map fst (fold (\<lambda>u. AList.update (fst u) (snd u)) us xs) = map fst xs"
proof (induction us arbitrary: xs)
  case (Cons u us)
  have keys: "map fst (AList.update (fst u) (snd u) xs) = map fst xs"
    using Cons.prems by (simp add: update_keys)
  then have "fst ` set us \<subseteq> fst ` set (AList.update (fst u) (snd u) xs)"
    using Cons.prems by (metis insert_subset image_insert list.simps(15) list.set_map)
  then show ?case using Cons.IH keys by simp
qed simp

lemma statusLogger_frame [simp]:
  "hk_checks (statusLogger ck) = hk_checks ck" "hk_status (statusLogger ck) = hk_status ck"
  "hk_started (statusLogger ck) = hk_started ck"
  by (simp_all add: statusLogger_def Let_def)

lemma updateState_frame:
  "hk_checks (updateState us ck) = fold (\<lambda>u. AList.update (fst u) (snd u)) us (hk_checks ck)"
  "hk_status (updateState us ck) = aggregateStatus (map (cs_Status \<circ> snd) (hk_checks (updateState us ck)))"
  by (simp_all add: updateState_def Let_def)

lemma executeAll_names: "executeAll cfg ex ck cs = Some us \<Longrightarrow> map fst us = map hc_Name cs"
  by (induction cs arbitrary: us) (auto split: option.splits)

lemma executeAll_state:
  "executeAll cfg ex ck cs = Some us \<Longrightarrow> distinct (map hc_Name cs) \<Longrightarrow> c \<in> set cs \<Longrightarrow>
   \<exists>st. executeCheck cfg c (ex (hc_Name c)) (checkStateOf (hc_Name c) ck) = Some st \<and> map_of us (hc_Name c) = Some st"
proof (induction cs arbitrary: us)
  case (Cons d cs)
  obtain st rest where 1: "executeCheck cfg d (ex (hc_Name d)) (checkStateOf (hc_Name d) ck) = Some st"
    "executeAll cfg ex ck cs = Some rest" "us = (hc_Name d, st) # rest"
    using Cons.prems(1) by (auto split: option.splits)
  show ?case
  proof (cases "c = d")
    case False
    then have c: "c \<in> set cs" using Cons.prems(3) by simp
    have "hc_Name d \<notin> hc_Name ` set cs" using Cons.prems(2) by simp
    then have "hc_Name c \<noteq> hc_Name d" using c by (metis imageI)
    note c this
    then show ?thesis using Cons.IH [OF 1(2)] Cons.prems(2) 1(3) by auto
  qed (use 1 in simp)
qed simp

lemma filter_named: "distinct (map hc_Name cs) \<Longrightarrow> c \<in> set cs \<Longrightarrow> hc_Name c = n \<Longrightarrow> filter (\<lambda>d. hc_Name d = n) cs = [c]"
proof (induction cs)
  case (Cons d cs)
  show ?case
  proof (cases "d = c")
    case True
    then have "n \<notin> hc_Name ` set cs" using Cons.prems(1,3) by simp
    then have "filter (\<lambda>d. hc_Name d = n) cs = []" by (auto simp: filter_empty_conv)
    then show ?thesis using True Cons.prems(3) by simp
  next
    case False
    then have c: "c \<in> set cs" using Cons.prems(2) by simp
    have "hc_Name d \<notin> hc_Name ` set cs" using Cons.prems(1) by simp
    then have "hc_Name d \<noteq> n" using c Cons.prems(3) by (metis imageI)
    then show ?thesis using Cons.IH Cons.prems c by simp
  qed
qed simp

text \<open>What a group of checks of the configuration does to the histories.\<close>

lemma runChecks_tracks:
  assumes t: "tracks cfg h ck" and ok: "config_ok cfg" and run: "runChecks cfg ex cs ck = Some ck'"
    and cs: "set cs \<subseteq> snd ` set (ch_checks cfg)" "distinct (map hc_Name cs)"
    and times: "\<forall>c \<in> set cs. timed (ex (hc_Name c))" "\<forall>n. \<forall>e \<in> set (h n). timed e"
  shows "tracks cfg (\<lambda>n. h n @ map snd (filter (\<lambda>p. hc_Name (fst p) = n) (map (\<lambda>c. (c, ex (hc_Name c))) cs))) ck'"
proof -
  obtain us where us: "executeAll cfg ex ck cs = Some us" "ck' = updateState us ck"
    using run by (auto simp: runChecks_def)
  have names: "map fst us = map hc_Name cs" using executeAll_names [OF us(1)] .
  have sub: "fst ` set us \<subseteq> fst ` set (hk_checks ck)"
  proof -
    have "hc_Name ` set cs \<subseteq> fst ` set (ch_checks cfg)" using cs(1) ok by (force simp: config_ok_def)
    moreover have "fst ` set us = hc_Name ` set cs" using names by (metis list.set_map)
    moreover have "fst ` set (hk_checks ck) = fst ` set (ch_checks cfg)" using t unfolding tracks_def by (metis list.set_map)
    ultimately show ?thesis by simp
  qed
  have keys: "map fst (hk_checks ck') = map fst (ch_checks cfg)"
    using fold_update_keys [OF sub] t by (simp add: us(2) updateState_frame tracks_def)
  have dus: "distinct (map fst us)" using names cs(2) by simp
  have state: "checkStateOf n ck' = (case map_of us n of None \<Rightarrow> checkStateOf n ck | Some st \<Rightarrow> st)" for n
    using fold_update [OF dus] by (simp add: checkStateOf_def us(2) updateState_frame split: option.split)
  have each: "follows c (h n @ map snd (filter (\<lambda>p. hc_Name (fst p) = n) (map (\<lambda>c. (c, ex (hc_Name c))) cs))) (checkStateOf n ck')"
    if nc: "(n, c) \<in> set (ch_checks cfg)" for n c
  proof -
    have name: "hc_Name c = n" "hc_Interceptors c = []" "ch_interceptors cfg = []" using ok nc by (auto simp: config_ok_def)
    have old: "follows c (h n) (checkStateOf n ck)" using t nc by (auto simp: tracks_def)
    show ?thesis
    proof (cases "c \<in> set cs")
      case True
      obtain st where st: "executeCheck cfg c (ex n) (checkStateOf n ck) = Some st" "map_of us n = Some st"
        using executeAll_state [OF us(1) cs(2) True] name by auto
      have "filter (\<lambda>d. hc_Name d = n) cs = [c]" by (rule filter_named [OF cs(2) True name(1)])
      then have "map snd (filter (\<lambda>p. hc_Name (fst p) = n) (map (\<lambda>c. (c, ex (hc_Name c))) cs)) = [ex n]"
        using name(1) by (simp add: filter_map comp_def)
      then show ?thesis
        using executeCheck_follows [OF old st(1)] times True name state st(2) by auto
    next
      case False
      have nn: "n \<notin> set (map hc_Name cs)"
      proof
        assume "n \<in> set (map hc_Name cs)"
        then obtain d where d: "d \<in> set cs" "hc_Name d = n" by auto
        then have "(n, d) \<in> set (ch_checks cfg)" using cs(1) ok by (force simp: config_ok_def)
        then have "d = c" using nc ok by (auto simp: config_ok_def dest: eq_key_imp_eq_value)
        then show False using d False by simp
      qed
      have "n \<notin> fst ` set us" using nn unfolding names [symmetric] by simp
      then have "map_of us n = None" by (simp add: map_of_eq_None_iff)
      moreover have "filter (\<lambda>d. hc_Name d = n) cs = []" using nn by (auto simp: filter_empty_conv)
      ultimately show ?thesis using old state by (simp add: filter_map comp_def)
    qed
  qed
  show ?thesis unfolding tracks_def
  proof (intro conjI)
    show "map fst (hk_checks ck') = map fst (ch_checks cfg)" by (rule keys)
    show "hk_status ck' = StatusDown \<longleftrightarrow> StatusDown \<in> (cs_Status \<circ> snd) ` set (hk_checks ck')"
      unfolding us(2) updateState_frame(2) aggregateStatus_down set_map ..
  qed (use each in blast)
qed

fun step_timed :: "health_step \<Rightarrow> bool" where
  "step_timed (HCheck now ex) \<longleftrightarrow> (\<forall>n. timed (ex n))"
| "step_timed (HTick n e) \<longleftrightarrow> timed e"
| "step_timed s \<longleftrightarrow> True"

lemma dueChecks_ok:
  assumes "config_ok cfg"
  shows "set (dueChecks cfg now ck) \<subseteq> snd ` set (ch_checks cfg)" "distinct (map hc_Name (dueChecks cfg now ck))"
proof -
  have "map hc_Name (map snd (ch_checks cfg)) = map fst (ch_checks cfg)" using assms by (simp add: config_ok_def)
  then have "distinct (map hc_Name (map snd (ch_checks cfg)))" using assms unfolding config_ok_def by metis
  then show "distinct (map hc_Name (dueChecks cfg now ck))" unfolding dueChecks_def by (rule distinct_map_filter)
  show "set (dueChecks cfg now ck) \<subseteq> snd ` set (ch_checks cfg)" by (auto simp: dueChecks_def)
qed

lemma tickChecks_ok:
  "set (tickChecks cfg n ck) \<subseteq> snd ` set (ch_checks cfg)" "distinct (map hc_Name (tickChecks cfg n ck))"
  by (auto simp: tickChecks_def image_iff split: option.splits dest!: map_of_SomeD [OF sym]) (metis map_of_SomeD snd_conv)?

lemma stepExecs_timed: "step_timed s \<Longrightarrow> \<forall>p \<in> set (stepExecs cfg s ck). timed (snd p)"
  by (cases s) auto

lemma exec_tracks:
  assumes t: "tracks cfg h ck" and ok: "config_ok cfg" and run: "health_exec cfg s ck = Some ck'"
    and times: "step_timed s" "\<forall>n. \<forall>e \<in> set (h n). timed e"
  shows "tracks cfg (\<lambda>n. h n @ map snd (filter (\<lambda>p. hc_Name (fst p) = n) (stepExecs cfg s ck))) ck'"
proof (cases s)
  case (HStart now)
  then have "hk_checks ck' = hk_checks ck" "hk_status ck' = hk_status ck" using run by (auto simp: health_Start_def)
  then show ?thesis using t HStart by (simp add: tracks_def checkStateOf_def)
next
  case HStop
  then have "hk_checks ck' = hk_checks ck" "hk_status ck' = hk_status ck"
    using run by (auto simp: health_Stop_def split: if_splits)
  then show ?thesis using t HStop by (simp add: tracks_def checkStateOf_def)
next
  case (HCheck now ex)
  then have "runChecks cfg ex (dueChecks cfg now ck) ck = Some ck'"
    using run by (auto simp: health_Check_def runSynchronousChecks_def)
  from runChecks_tracks [OF t ok this dueChecks_ok [OF ok]] times HCheck show ?thesis by simp
next
  case (HTick n e)
  show ?thesis
  proof (cases "tickChecks cfg n ck = []")
    case True
    then show ?thesis using t run HTick by simp
  next
    case False
    then have "runChecks cfg (\<lambda>_. e) (tickChecks cfg n ck) ck = Some ck'" using run HTick by simp
    from runChecks_tracks [OF t ok this tickChecks_ok] times HTick show ?thesis by simp
  qed
qed

lemma runs_track:
  "health_runs cfg steps ck = Some ck' \<Longrightarrow> config_ok cfg \<Longrightarrow> \<forall>s \<in> set steps. step_timed s \<Longrightarrow>
   tracks cfg h ck \<Longrightarrow> \<forall>n. \<forall>e \<in> set (h n). timed e \<Longrightarrow> tracks cfg (\<lambda>n. h n @ executions cfg n steps ck) ck'"
proof (induction steps arbitrary: ck h)
  case (Cons s steps)
  obtain ck1 where 1: "health_exec cfg s ck = Some ck1" "health_runs cfg steps ck1 = Some ck'"
    using Cons.prems(1) by (auto split: option.splits)
  let ?h = "\<lambda>n. h n @ map snd (filter (\<lambda>p. hc_Name (fst p) = n) (stepExecs cfg s ck))"
  have st: "step_timed s" using Cons.prems(3) by simp
  have "tracks cfg ?h ck1" by (rule exec_tracks [OF Cons.prems(4,2) 1(1) st Cons.prems(5)])
  moreover have "\<forall>n. \<forall>e \<in> set (?h n). timed e" using Cons.prems(5) stepExecs_timed [OF st] by fastforce
  moreover have "\<forall>s \<in> set steps. step_timed s" using Cons.prems(3) by simp
  ultimately have "tracks cfg (\<lambda>n. ?h n @ executions cfg n steps ck1) ck'"
    by (intro Cons.IH [OF 1(2) Cons.prems(2)])
  then show ?case by (simp add: 1(1))
qed simp

lemma new_tracks: "config_ok cfg \<Longrightarrow> tracks cfg (\<lambda>_. []) (newChecker cfg)"
proof -
  assume ok: "config_ok cfg"
  have "checkStateOf n (newChecker cfg) = unknownState" for n
    by (auto simp: checkStateOf_def newChecker_def split: option.split dest!: map_of_SomeD)
  moreover have "map fst (hk_checks (newChecker cfg)) = map fst (ch_checks cfg)"
    using ok by (simp add: newChecker_def config_ok_def)
  moreover have "StatusDown \<notin> (cs_Status \<circ> snd) ` set (hk_checks (newChecker cfg))"
    by (auto simp: newChecker_def unknownState_def)
  ultimately show "tracks cfg (\<lambda>_. []) (newChecker cfg)"
    by (auto simp: tracks_def follows_unknown newChecker_def)
qed

text \<open>C18. The status of a check is what its history says: unknown before it ran, inactive when its service
  is, and down when it failed, failed often enough in a row, and has been without success long enough,
  counted from its first start too; else it is up.  The whole is down exactly when some check is.  So it
  is after any run: start and stop, requests, timers, time-outs and panics of check functions.\<close>

theorem health_status_history:
  assumes "health_runs cfg steps (newChecker cfg) = Some ck" "config_ok cfg" "\<forall>s \<in> set steps. step_timed s"
  shows "(\<forall>(n, c) \<in> set (ch_checks cfg). cs_Status (checkStateOf n ck) = statusOf c (executions cfg n steps (newChecker cfg))) \<and>
    (hk_status ck = StatusDown \<longleftrightarrow>
      (\<exists>(n, c) \<in> set (ch_checks cfg). statusOf c (executions cfg n steps (newChecker cfg)) = StatusDown))"
proof -
  have t: "tracks cfg (\<lambda>n. executions cfg n steps (newChecker cfg)) ck"
    using runs_track [OF assms new_tracks [OF assms(2)]] by simp
  then have each: "\<forall>(n, c) \<in> set (ch_checks cfg). cs_Status (checkStateOf n ck) = statusOf c (executions cfg n steps (newChecker cfg))"
    by (auto simp: tracks_def follows_def)
  have keys: "map fst (hk_checks ck) = map fst (ch_checks cfg)" using t by (simp add: tracks_def)
  then have d: "distinct (map fst (hk_checks ck))" using assms(2) by (simp add: config_ok_def)
  have "(StatusDown \<in> (cs_Status \<circ> snd) ` set (hk_checks ck)) = (\<exists>n \<in> fst ` set (hk_checks ck). cs_Status (checkStateOf n ck) = StatusDown)"
    using d by (force simp: checkStateOf_def image_iff)
  also have "fst ` set (hk_checks ck) = fst ` set (ch_checks cfg)" using keys by (metis list.set_map)
  finally have "(StatusDown \<in> (cs_Status \<circ> snd) ` set (hk_checks ck)) =
    (\<exists>(n, c) \<in> set (ch_checks cfg). statusOf c (executions cfg n steps (newChecker cfg)) = StatusDown)"
    using each by fastforce
  then show ?thesis using each t by (simp add: tracks_def)
qed

definition sampleCheck :: health_check where
  "sampleCheck = \<lparr>hc_Name = ''postgres'', hc_IsActive = False, hc_MaxTimeInError = 0, hc_MaxContiguousFails = 2,
     hc_Interceptors = [], hc_DisablePanicRecovery = False, hc_updateInterval = 30, hc_initialDelay = 1\<rparr>"

definition sampleChecks :: checker_config where
  "sampleChecks = WithPeriodicCheck 30 1 sampleCheck
     \<lparr>ch_checks = [], ch_cacheTTL = 1, ch_interceptors = [], ch_detailsDisabled = False\<rparr>"

definition failsAt :: "int \<Rightarrow> execution" where
  "failsAt t = \<lparr>ex_active = True, ex_start = t, ex_outcome = CheckTimedOut, ex_end = t, ex_eval = t\<rparr>"

theorem health_status_history_witness:
  "\<exists>ck. health_runs sampleChecks [HStart 0, HTick ''postgres'' (failsAt 1), HTick ''postgres'' (failsAt 2)]
      (newChecker sampleChecks) = Some ck \<and> hk_status ck = StatusDown"
proof -
  let ?steps = "[HStart 0, HTick ''postgres'' (failsAt 1), HTick ''postgres'' (failsAt 2)]"
  let ?c = "sampleCheck\<lparr>hc_updateInterval := 30, hc_initialDelay := 1\<rparr>"
  have cfg: "ch_checks sampleChecks = [(''postgres'', ?c)]" "ch_interceptors sampleChecks = []"
    by (simp_all add: sampleChecks_def WithPeriodicCheck_def sampleCheck_def)
  have ok: "config_ok sampleChecks" by (simp add: config_ok_def cfg sampleCheck_def)
  have per: "isPeriodicCheck ?c" by (simp add: isPeriodicCheck_def)
  have some: "health_runs sampleChecks ?steps (newChecker sampleChecks) \<noteq> None"
    by code_simp
  then obtain ck where ck: "health_runs sampleChecks ?steps (newChecker sampleChecks) = Some ck" by auto
  have "executions sampleChecks ''postgres'' ?steps (newChecker sampleChecks) = [failsAt 1, failsAt 2]" by code_simp
  moreover have "statusOf ?c [failsAt 1, failsAt 2] = StatusDown" by code_simp
  ultimately have "statusOf ?c (executions sampleChecks ''postgres'' ?steps (newChecker sampleChecks)) = StatusDown"
    by (simp only:)
  moreover have "\<forall>s \<in> set ?steps. step_timed s" by (simp add: timed_def failsAt_def zeroTime_def)
  ultimately have "hk_status ck = StatusDown"
    using health_status_history [OF ck ok] unfolding cfg(1) by (simp del: executions.simps)
  then show ?thesis using ck by blast
qed

end
