(* ===== verification/ConfigManager.thy ===== *)
theory ConfigManager
  imports Prelude
begin

text \<open>
  The configuration at run time, \<open>src/internal/configmgr/manager.go\<close>: a snapshot, subscribers that take
  a new one before it counts, and subscribers that take it later, each from a channel that holds one.

  \<^item> A snapshot is a pointer, of any type \<open>'c\<close>.  What a subscriber's function returns is a parameter; the
    configuration that a subscriber runs on is the one its function took last, \<open>sb_last\<close>.
  \<^item> \<open>Apply\<close> holds the lock only while it copies the list of subscribers.  Its calls may overlap, so that it
    is a thread of steps: the synchronous subscribers, the store, and the sends in their order.
  \<^item> An asynchronous subscriber does not call its function for the snapshot it took last; the code compares with the last one
    it tried, here \<open>sb_tried\<close>.
\<close>

section \<open>State\<close>

datatype apply_mode = ApplySync | ApplyAsync

record 'c subscriber =
  sb_name :: string
  sb_mode :: apply_mode
  sb_ch :: "'c option"
  sb_tried :: "'c option"
  sb_last :: "'c option"
  sb_ended :: bool

datatype apply_phase = APhaseStore | APhasePush | APhaseDone

record 'c apply_thread =
  at_snap :: 'c
  at_phase :: apply_phase
  at_rest :: "nat list"
  at_errors :: "(string \<times> string) list"

record 'c manager =
  cm_snapshot :: 'c
  cm_subs :: "'c subscriber list"
  cm_threads :: "'c apply_thread list"
  cm_stopped :: bool

definition NewManager :: "'c \<Rightarrow> 'c manager" where
  "NewManager initial = \<lparr>cm_snapshot = initial, cm_subs = [], cm_threads = [], cm_stopped = False\<rparr>"

section \<open>Operations\<close>

definition cm_Subscribe :: "string \<Rightarrow> apply_mode \<Rightarrow> 'c manager \<Rightarrow> 'c manager" where
  "cm_Subscribe name mode m = m\<lparr>cm_subs := cm_subs m @
     [\<lparr>sb_name = name, sb_mode = mode, sb_ch = None, sb_tried = None, sb_last = None, sb_ended = False\<rparr>]\<rparr>"

text \<open>The synchronous subscribers are all called; their errors are joined.\<close>

fun runSync :: "(string \<Rightarrow> 'c \<Rightarrow> string option) \<Rightarrow> 'c \<Rightarrow> 'c subscriber list \<Rightarrow> 'c subscriber list \<times> (string \<times> string) list" where
  "runSync fn snap [] = ([], [])"
| "runSync fn snap (s # ss) =
     (let (ss', errs) = runSync fn snap ss in
      if sb_mode s = ApplySync
      then (case fn (sb_name s) snap of
          Some e \<Rightarrow> (s # ss', (sb_name s, e) # errs)
        | None \<Rightarrow> (s\<lparr>sb_last := Some snap\<rparr> # ss', errs))
      else (s # ss', errs))"

definition asyncSubs :: "'c subscriber list \<Rightarrow> nat list" where
  "asyncSubs subs = filter (\<lambda>i. sb_mode (subs ! i) = ApplyAsync) [0..<length subs]"

definition applyStart :: "(string \<Rightarrow> 'c \<Rightarrow> string option) \<Rightarrow> 'c \<Rightarrow> 'c manager \<Rightarrow> 'c manager" where
  "applyStart fn snap m =
     (let (subs, errs) = runSync fn snap (cm_subs m) in
      m\<lparr>cm_subs := subs, cm_threads := cm_threads m @
        [\<lparr>at_snap = snap, at_phase = if errs = [] then APhaseStore else APhaseDone,
          at_rest = asyncSubs (cm_subs m), at_errors = errs\<rparr>]\<rparr>)"

definition applyStore :: "nat \<Rightarrow> 'c manager \<Rightarrow> 'c manager" where
  "applyStore k m =
     (if k < length (cm_threads m) \<and> at_phase (cm_threads m ! k) = APhaseStore
      then m\<lparr>cm_snapshot := at_snap (cm_threads m ! k),
        cm_threads := (cm_threads m)[k := (cm_threads m ! k)\<lparr>at_phase := APhasePush\<rparr>]\<rparr>
      else m)"

text \<open>A send replaces what is pending, since the channel holds one snapshot.\<close>

definition applyPush :: "nat \<Rightarrow> 'c manager \<Rightarrow> 'c manager" where
  "applyPush k m =
     (if k < length (cm_threads m) \<and> at_phase (cm_threads m ! k) = APhasePush
      then (let t = cm_threads m ! k in
        case at_rest t of
          [] \<Rightarrow> m\<lparr>cm_threads := (cm_threads m)[k := t\<lparr>at_phase := APhaseDone\<rparr>]\<rparr>
        | i # is \<Rightarrow> m\<lparr>cm_subs := (cm_subs m)[i := (cm_subs m ! i)\<lparr>sb_ch := Some (at_snap t)\<rparr>],
            cm_threads := (cm_threads m)[k := t\<lparr>at_rest := is\<rparr>]\<rparr>)
      else m)"

text \<open>An iteration of the loop of an asynchronous subscriber.\<close>

definition asyncRecv :: "(string \<Rightarrow> 'c \<Rightarrow> string option) \<Rightarrow> 'c subscriber \<Rightarrow> 'c subscriber" where
  "asyncRecv fn s = (case sb_ch s of
     None \<Rightarrow> s
   | Some snap \<Rightarrow>
       if sb_tried s = Some snap then s\<lparr>sb_ch := None\<rparr>
       else (case fn (sb_name s) snap of
           Some e \<Rightarrow> s\<lparr>sb_ch := None, sb_tried := Some snap\<rparr>
         | None \<Rightarrow> s\<lparr>sb_ch := None, sb_tried := Some snap, sb_last := Some snap\<rparr>))"

definition asyncSubLoop :: "(string \<Rightarrow> 'c \<Rightarrow> string option) \<Rightarrow> nat \<Rightarrow> 'c manager \<Rightarrow> 'c manager" where
  "asyncSubLoop fn i m =
     (if i < length (cm_subs m) \<and> sb_mode (cm_subs m ! i) = ApplyAsync \<and> \<not> sb_ended (cm_subs m ! i)
      then m\<lparr>cm_subs := (cm_subs m)[i := asyncRecv fn (cm_subs m ! i)]\<rparr> else m)"

text \<open>After a stop the loop ends, at once or after it took what was pending: a select that finds both ready picks either.\<close>

definition asyncSubEnd :: "nat \<Rightarrow> 'c manager \<Rightarrow> 'c manager" where
  "asyncSubEnd i m =
     (if i < length (cm_subs m) \<and> sb_mode (cm_subs m ! i) = ApplyAsync \<and> cm_stopped m
      then m\<lparr>cm_subs := (cm_subs m)[i := (cm_subs m ! i)\<lparr>sb_ended := True\<rparr>]\<rparr> else m)"

definition cm_Stop :: "'c manager \<Rightarrow> 'c manager" where
  "cm_Stop m = m\<lparr>cm_stopped := True\<rparr>"

datatype 'c cm_step = CSubscribe string apply_mode | CStart 'c | CStore nat | CPush nat | CRecv nat | CEnd nat | CStop

fun cm_exec :: "(string \<Rightarrow> 'c \<Rightarrow> string option) \<Rightarrow> 'c cm_step \<Rightarrow> 'c manager \<Rightarrow> 'c manager" where
  "cm_exec fn (CSubscribe name mode) m = cm_Subscribe name mode m"
| "cm_exec fn (CStart snap) m = applyStart fn snap m"
| "cm_exec fn (CStore k) m = applyStore k m"
| "cm_exec fn (CPush k) m = applyPush k m"
| "cm_exec fn (CRecv i) m = asyncSubLoop fn i m"
| "cm_exec fn (CEnd i) m = asyncSubEnd i m"
| "cm_exec fn CStop m = cm_Stop m"

definition cm_runs :: "(string \<Rightarrow> 'c \<Rightarrow> string option) \<Rightarrow> 'c cm_step list \<Rightarrow> 'c manager \<Rightarrow> 'c manager" where
  "cm_runs fn steps m = fold (cm_exec fn) steps m"

section \<open>Calls that do not overlap\<close>

definition idle :: "'c manager \<Rightarrow> bool" where
  "idle m \<longleftrightarrow> (\<forall>t \<in> set (cm_threads m). at_phase t = APhaseDone)"

fun serial :: "(string \<Rightarrow> 'c \<Rightarrow> string option) \<Rightarrow> 'c cm_step list \<Rightarrow> 'c manager \<Rightarrow> bool" where
  "serial fn [] m = True"
| "serial fn (s # ss) m = ((case s of CStart snap \<Rightarrow> idle m | _ \<Rightarrow> True) \<and> serial fn ss (cm_exec fn s m))"

text \<open>A subscriber is current when the snapshot is pending, was taken, or nothing was ever sent to it.\<close>

definition current :: "'c \<Rightarrow> 'c subscriber \<Rightarrow> bool" where
  "current snap s \<longleftrightarrow> (case sb_ch s of Some p \<Rightarrow> p = snap | None \<Rightarrow> sb_tried s = None \<or> sb_tried s = Some snap)"

definition fresh :: "'c subscriber \<Rightarrow> bool" where
  "fresh s \<longleftrightarrow> sb_ch s = None \<and> sb_tried s = None"

definition others_done :: "nat \<Rightarrow> 'c manager \<Rightarrow> bool" where
  "others_done k m \<longleftrightarrow> k < length (cm_threads m) \<and>
     (\<forall>j < length (cm_threads m). j \<noteq> k \<longrightarrow> at_phase (cm_threads m ! j) = APhaseDone) \<and>
     (\<forall>i \<in> set (at_rest (cm_threads m ! k)). i < length (cm_subs m))"

definition async_all :: "'c manager \<Rightarrow> (nat \<Rightarrow> bool) \<Rightarrow> bool" where
  "async_all m P \<longleftrightarrow> (\<forall>i < length (cm_subs m). sb_mode (cm_subs m ! i) = ApplyAsync \<longrightarrow> P i)"

definition isCurrent :: "'c manager \<Rightarrow> nat \<Rightarrow> bool" where
  "isCurrent m i \<longleftrightarrow> current (cm_snapshot m) (cm_subs m ! i)"

text \<open>Nothing runs; a thread is before its store; a thread sends.\<close>

definition inv_idle :: "'c manager \<Rightarrow> bool" where
  "inv_idle m \<longleftrightarrow> idle m \<and> async_all m (isCurrent m)"

definition inv_store :: "nat \<Rightarrow> 'c manager \<Rightarrow> bool" where
  "inv_store k m \<longleftrightarrow> others_done k m \<and> at_phase (cm_threads m ! k) = APhaseStore \<and>
     async_all m (\<lambda>i. isCurrent m i \<and> (i \<in> set (at_rest (cm_threads m ! k)) \<or> fresh (cm_subs m ! i)))"

definition inv_push :: "nat \<Rightarrow> 'c manager \<Rightarrow> bool" where
  "inv_push k m \<longleftrightarrow> others_done k m \<and> at_phase (cm_threads m ! k) = APhasePush \<and>
     at_snap (cm_threads m ! k) = cm_snapshot m \<and>
     async_all m (\<lambda>i. isCurrent m i \<or> i \<in> set (at_rest (cm_threads m ! k)))"

definition cm_inv :: "'c manager \<Rightarrow> bool" where
  "cm_inv m \<longleftrightarrow> inv_idle m \<or> (\<exists>k. inv_store k m) \<or> (\<exists>k. inv_push k m)"

lemma fresh_current: "fresh s \<Longrightarrow> current snap s"
  by (simp add: fresh_def current_def)

lemma asyncRecv_current: "current snap s \<Longrightarrow> current snap (asyncRecv fn s)"
  by (auto simp: asyncRecv_def current_def split: option.splits if_splits)

lemma asyncRecv_fresh: "fresh s \<Longrightarrow> fresh (asyncRecv fn s)"
  by (simp add: asyncRecv_def fresh_def)

lemma asyncRecv_mode [simp]: "sb_mode (asyncRecv fn s) = sb_mode s"
  by (simp add: asyncRecv_def split: option.split)

text \<open>A step that keeps the threads and the snapshot, and whose subscribers stay current.\<close>

lemma subs_step_inv:
  fixes m m' :: "'c manager"
  assumes inv: "cm_inv m" and same: "cm_threads m' = cm_threads m" "cm_snapshot m' = cm_snapshot m"
    and len: "length (cm_subs m) \<le> length (cm_subs m')"
    and old: "\<And>i. i < length (cm_subs m) \<Longrightarrow> sb_mode (cm_subs m' ! i) = sb_mode (cm_subs m ! i) \<and>
      (fresh (cm_subs m ! i) \<longrightarrow> fresh (cm_subs m' ! i)) \<and>
      (current (cm_snapshot m) (cm_subs m ! i) \<longrightarrow> current (cm_snapshot m) (cm_subs m' ! i))"
    and new: "\<And>i. length (cm_subs m) \<le> i \<Longrightarrow> i < length (cm_subs m') \<Longrightarrow> fresh (cm_subs m' ! i)"
  shows "cm_inv m'"
proof -
  have all: "async_all m' Q" if P: "async_all m P" and PQ: "\<And>i. i < length (cm_subs m) \<Longrightarrow> P i \<Longrightarrow> Q i"
    and Q: "\<And>i. length (cm_subs m) \<le> i \<Longrightarrow> i < length (cm_subs m') \<Longrightarrow> Q i" for P Q
    unfolding async_all_def
  proof (intro allI impI)
    fix i assume i: "i < length (cm_subs m')" "sb_mode (cm_subs m' ! i) = ApplyAsync"
    show "Q i"
    proof (cases "i < length (cm_subs m)")
      case True
      then show ?thesis using P PQ i(2) old unfolding async_all_def by metis
    qed (use Q i(1) in simp)
  qed
  have cur: "isCurrent m i \<Longrightarrow> isCurrent m' i" if "i < length (cm_subs m)" for i
    using old [OF that] by (simp add: isCurrent_def same)
  have nc: "isCurrent m' i" if "length (cm_subs m) \<le> i" "i < length (cm_subs m')" for i
    using fresh_current [OF new [OF that]] by (simp add: isCurrent_def)
  have od: "others_done k m \<Longrightarrow> others_done k m'" for k using len by (auto simp: others_done_def same)
  consider "inv_idle m" | k where "inv_store k m" | k where "inv_push k m" using inv by (auto simp: cm_inv_def)
  then show ?thesis
  proof cases
    case 1
    then have "async_all m' (isCurrent m')" unfolding inv_idle_def by (intro all [of "isCurrent m"]) (use cur nc in auto)
    then show ?thesis using 1 by (simp add: cm_inv_def inv_idle_def idle_def same)
  next
    case (2 k)
    then have "async_all m' (\<lambda>i. isCurrent m' i \<and> (i \<in> set (at_rest (cm_threads m ! k)) \<or> fresh (cm_subs m' ! i)))"
      unfolding inv_store_def by (elim conjE) (erule all, use cur nc old new in auto)
    then have "inv_store k m'" using 2 od by (simp add: inv_store_def same)
    then show ?thesis by (auto simp: cm_inv_def)
  next
    case (3 k)
    then have "async_all m' (\<lambda>i. isCurrent m' i \<or> i \<in> set (at_rest (cm_threads m ! k)))"
      unfolding inv_push_def by (elim conjE) (erule all, use cur nc in auto)
    then have "inv_push k m'" using 3 od by (simp add: inv_push_def same)
    then show ?thesis by (auto simp: cm_inv_def)
  qed
qed

lemma subscribe_inv: "cm_inv m \<Longrightarrow> cm_inv (cm_Subscribe name mode m)"
  by (erule subs_step_inv) (auto simp: cm_Subscribe_def nth_append fresh_def)

lemma recv_inv: "cm_inv m \<Longrightarrow> cm_inv (asyncSubLoop fn i m)"
  by (erule subs_step_inv)
     (auto simp: asyncSubLoop_def nth_list_update asyncRecv_fresh asyncRecv_current)

lemma ended_same [simp]:
  "fresh (s\<lparr>sb_ended := b\<rparr>) = fresh s" "current snap (s\<lparr>sb_ended := b\<rparr>) = current snap s"
  by (simp_all add: fresh_def current_def split: option.split)

lemma end_inv: "cm_inv m \<Longrightarrow> cm_inv (asyncSubEnd i m)"
  by (erule subs_step_inv) (auto simp: asyncSubEnd_def nth_list_update)

lemma stop_inv: "cm_inv m \<Longrightarrow> cm_inv (cm_Stop m)"
  by (erule subs_step_inv) (simp_all add: cm_Stop_def)

lemma runSync_frame:
  "runSync fn snap subs = (subs', errs) \<Longrightarrow> length subs' = length subs \<and>
   (\<forall>i < length subs. sb_mode (subs' ! i) = sb_mode (subs ! i) \<and> sb_ch (subs' ! i) = sb_ch (subs ! i) \<and>
      sb_tried (subs' ! i) = sb_tried (subs ! i))"
proof (induction subs arbitrary: subs' errs)
  case (Cons s ss)
  obtain ss' es where r: "runSync fn snap ss = (ss', es)" by fastforce
  then obtain t where t: "subs' = t # ss'" "sb_mode t = sb_mode s" "sb_ch t = sb_ch s" "sb_tried t = sb_tried s"
    using Cons.prems by (auto split: if_splits option.splits)
  show ?case using Cons.IH [OF r] t by (auto simp: nth_Cons split: nat.split)
qed simp

lemma start_inv:
  assumes "inv_idle m"
  shows "cm_inv (applyStart fn snap m)"
proof -
  obtain subs errs where r: "runSync fn snap (cm_subs m) = (subs, errs)" by fastforce
  note fr = runSync_frame [OF r]
  let ?m = "applyStart fn snap m" and ?k = "length (cm_threads m)"
  let ?t = "\<lparr>at_snap = snap, at_phase = if errs = [] then APhaseStore else APhaseDone,
    at_rest = asyncSubs (cm_subs m), at_errors = errs\<rparr>"
  have m: "cm_subs ?m = subs" "cm_threads ?m = cm_threads m @ [?t]" "cm_snapshot ?m = cm_snapshot m"
    by (simp_all add: applyStart_def r)
  have "isCurrent ?m i = isCurrent m i" if "i < length (cm_subs m)" for i
    using fr that by (simp add: isCurrent_def current_def m split: option.split)
  then have cur: "async_all ?m (isCurrent ?m)"
    using assms fr by (auto simp: inv_idle_def async_all_def m)
  show ?thesis
  proof (cases "errs = []")
    case True
    have "others_done ?k ?m"
      using assms fr by (auto simp: others_done_def m inv_idle_def idle_def nth_append asyncSubs_def)
    moreover have "i \<in> set (asyncSubs (cm_subs m))" if "i < length subs" "sb_mode (subs ! i) = ApplyAsync" for i
      using that fr by (auto simp: asyncSubs_def)
    ultimately have "inv_store ?k ?m" using cur True by (auto simp: inv_store_def m async_all_def)
    then show ?thesis by (auto simp: cm_inv_def)
  next
    case False
    then have "inv_idle ?m" using assms cur by (auto simp: inv_idle_def idle_def m)
    then show ?thesis by (simp add: cm_inv_def)
  qed
qed

lemma idle_no_phase: "idle m \<Longrightarrow> k < length (cm_threads m) \<Longrightarrow> at_phase (cm_threads m ! k) = APhaseDone"
  by (simp add: idle_def)

lemma busy_thread:
  assumes "cm_inv m" "k < length (cm_threads m)"
  shows "at_phase (cm_threads m ! k) = APhaseStore \<Longrightarrow> inv_store k m" "at_phase (cm_threads m ! k) = APhasePush \<Longrightarrow> inv_push k m"
proof -
  have *: "\<not> inv_idle m \<and> (\<forall>j. inv_store j m \<or> inv_push j m \<longrightarrow> j = k)" if "at_phase (cm_threads m ! k) \<noteq> APhaseDone"
  proof (intro conjI allI impI)
    show "\<not> inv_idle m" using that assms(2) by (auto simp: inv_idle_def idle_def)
    fix j assume "inv_store j m \<or> inv_push j m"
    then have "others_done j m" by (auto simp: inv_store_def inv_push_def)
    then show "j = k" using that assms(2) unfolding others_done_def by metis
  qed
  show "inv_store k m" if "at_phase (cm_threads m ! k) = APhaseStore"
    using * that assms(1) by (auto simp: cm_inv_def inv_push_def)
  show "inv_push k m" if "at_phase (cm_threads m ! k) = APhasePush"
    using * that assms(1) by (auto simp: cm_inv_def inv_store_def)
qed

lemma store_inv:
  assumes "cm_inv m"
  shows "cm_inv (applyStore k m)"
proof (cases "k < length (cm_threads m) \<and> at_phase (cm_threads m ! k) = APhaseStore")
  case True
  then have k: "inv_store k m" using busy_thread [OF assms] by simp
  have fc: "fresh s \<Longrightarrow> current snap s" for s :: "'a subscriber" and snap by (rule fresh_current)
  have "inv_push k (applyStore k m)"
    using k True
    by (auto intro!: fc simp: applyStore_def inv_store_def inv_push_def others_done_def async_all_def isCurrent_def nth_list_update)
  then show ?thesis by (auto simp: cm_inv_def)
next
  case False
  then show ?thesis unfolding applyStore_def using assms by (simp only: if_False)
qed

lemma push_inv:
  assumes "cm_inv m"
  shows "cm_inv (applyPush k m)"
proof (cases "k < length (cm_threads m) \<and> at_phase (cm_threads m ! k) = APhasePush")
  case True
  then have k: "inv_push k m" using busy_thread [OF assms] by simp
  show ?thesis
  proof (cases "at_rest (cm_threads m ! k)")
    case Nil
    then have "inv_idle (applyPush k m)"
      using k True by (auto simp: applyPush_def inv_push_def inv_idle_def idle_def others_done_def async_all_def
          isCurrent_def in_set_conv_nth nth_list_update)
    then show ?thesis by (simp add: cm_inv_def)
  next
    case (Cons i "is")
    then have "inv_push k (applyPush k m)"
      using k True by (auto simp: applyPush_def inv_push_def others_done_def async_all_def
          isCurrent_def nth_list_update current_def split: if_splits)
    then show ?thesis by (auto simp: cm_inv_def)
  qed
next
  case False
  then show ?thesis unfolding applyPush_def using assms by (simp only: if_False)
qed

lemma idle_inv: "cm_inv m \<Longrightarrow> idle m \<Longrightarrow> inv_idle m"
  by (auto simp: cm_inv_def inv_store_def inv_push_def others_done_def dest: idle_no_phase)

lemma serial_inv: "serial fn steps m \<Longrightarrow> cm_inv m \<Longrightarrow> cm_inv (cm_runs fn steps m)"
proof (induction steps arbitrary: m)
  case (Cons s ss)
  have "cm_inv (cm_exec fn s m)"
    using Cons.prems by (cases s) (auto intro: subscribe_inv recv_inv end_inv stop_inv store_inv push_inv start_inv idle_inv)
  then show ?case using Cons by (simp add: cm_runs_def)
qed (simp add: cm_runs_def)



text \<open>Two calls that overlap: the snapshot is the second one, and the subscriber stays on the first.\<close>

lemma overlap_leaves_stale:
  "let m = cm_runs (\<lambda>_ _. None) [CSubscribe ''search'' ApplyAsync, CStart 1, CStart 2, CStore 0, CStore 1,
       CPush 1, CPush 1, CPush 0, CPush 0, CRecv 0] (NewManager (0 :: nat)) in
   idle m \<and> cm_snapshot m = 2 \<and> map sb_last (cm_subs m) = [Some 1] \<and> map sb_ch (cm_subs m) = [None]"
  by code_simp

text \<open>A call that fails: the snapshot stays, but a subscriber that took the new one runs on it.\<close>

lemma failed_apply_is_partial:
  "let m = cm_runs (\<lambda>name _. if name = ''b'' then Some ''refused'' else None)
       [CSubscribe ''a'' ApplySync, CSubscribe ''b'' ApplySync, CStart 1] (NewManager (0 :: nat)) in
   idle m \<and> cm_snapshot m = 0 \<and> map sb_last (cm_subs m) = [Some 1, None]"
  by code_simp

end
