(* ===== verification/Torznab.thy ===== *)
theory Torznab
  imports Webhook ClassifierRun
begin

text \<open>
  The Torznab interface for other programs, \<open>src/internal/torznab\<close>: reading a request (\<open>query.go\<close>), its
  categories (\<open>categories.go\<close>), the search and the answers (\<open>httpserver.go\<close>, \<open>xml.go\<close>).

  \<^item> Parameters of a request are lists of runes; a parameter that is absent is the empty text, as
    \<open>url.Values.Get\<close> has it.  An answer is a value of \<open>tz_response\<close>: its rendering as XML, the texts of errors
    and the dates of the items are not modelled.
  \<^item> The search service and the printing of a URL with an escaped path are parameters.
\<close>

section \<open>Categories\<close>

definition catConsole :: int where "catConsole = 1000"
definition catMovies :: int where "catMovies = 2000"
definition catAudio :: int where "catAudio = 3000"
definition catSoftware :: int where "catSoftware = 4000"
definition catTV :: int where "catTV = 5000"
definition catXXX :: int where "catXXX = 6000"
definition catBooks :: int where "catBooks = 7000"
definition catOther :: int where "catOther = 8000"
definition catBooksComics :: int where "catBooksComics = 7020"
definition catBooksAudiobook :: int where "catBooksAudiobook = 7030"

definition baseCategories :: "int list" where
  "baseCategories = [catConsole, catMovies, catAudio, catSoftware, catTV, catXXX, catBooks, catOther]"

fun categoryForContentType :: "content_type \<Rightarrow> int" where
  "categoryForContentType ContentTypeMovie = catMovies"
| "categoryForContentType ContentTypeTvShow = catTV"
| "categoryForContentType ContentTypeMusic = catAudio"
| "categoryForContentType ContentTypeEbook = catBooks"
| "categoryForContentType ContentTypeComic = catBooksComics"
| "categoryForContentType ContentTypeAudiobook = catBooksAudiobook"
| "categoryForContentType ContentTypeGame = catConsole"
| "categoryForContentType ContentTypeSoftware = catSoftware"
| "categoryForContentType ContentTypeAdult = catXXX"
| "categoryForContentType ct = catOther"

text \<open>Division in Go truncates towards zero.\<close>

definition thousands :: "int \<Rightarrow> int" where "thousands n = (if n < 0 then - (- n div 1000) else n div 1000)"

definition contentTypesForCategory :: "int \<Rightarrow> content_type list" where
  "contentTypesForCategory cat =
     (let k = thousands cat in
      if k = 1 then [ContentTypeGame]
      else if k = 2 then [ContentTypeMovie]
      else if k = 3 then [ContentTypeMusic]
      else if k = 4 then [ContentTypeSoftware]
      else if k = 5 then [ContentTypeTvShow]
      else if k = 6 then [ContentTypeAdult]
      else if k = 7 then
        (if cat = catBooksComics then [ContentTypeComic]
         else if cat = catBooksAudiobook then [ContentTypeAudiobook] else [ContentTypeEbook])
      else [ContentTypeOther, ContentTypeUnknown])"

fun splitCSVLoop :: "runes \<Rightarrow> runes \<Rightarrow> runes list" where
  "splitCSVLoop part [] = (if part = [] then [] else [part])"
| "splitCSVLoop part (r # rs) =
     (if r = 44 then (if part = [] then [] else [part]) @ splitCSVLoop [] rs else splitCSVLoop (part @ [r]) rs)"

definition splitCSV :: "runes \<Rightarrow> runes list" where
  "splitCSV s = splitCSVLoop [] s"

fun addTypes :: "content_type list \<Rightarrow> content_type list \<Rightarrow> content_type list" where
  "addTypes [] types = types"
| "addTypes (ct # cts) types = addTypes cts (if ct \<in> set types then types else types @ [ct])"

datatype tz_error = MissingParameter string | InvalidLimit runes | InvalidOffset runes | InvalidImdbID runes
  | InvalidCategory runes | UnsupportedType runes

fun parseCategoryList :: "runes list \<Rightarrow> content_type list \<Rightarrow> tz_error + content_type list" where
  "parseCategoryList [] types = Inr types"
| "parseCategoryList (part # parts) types = (case AtoiSigned part of
     None \<Rightarrow> Inl (InvalidCategory part)
   | Some cat \<Rightarrow> parseCategoryList parts (addTypes (contentTypesForCategory cat) types))"

definition parseCategories :: "runes \<Rightarrow> tz_error + content_type list" where
  "parseCategories catParam = (if catParam = [] then Inr [] else parseCategoryList (splitCSV catParam) [])"

definition starCategory :: runes where "starCategory = [42]"

fun allowedCategories :: "runes list \<Rightarrow> int \<Rightarrow> bool" where
  "allowedCategories [] category = False"
| "allowedCategories (c # cs) category =
     (if c = starCategory then True
      else (case AtoiSigned c of
          None \<Rightarrow> allowedCategories cs category
        | Some parsed \<Rightarrow>
            if parsed = category then True
            else if parsed mod 1000 = 0 \<and> thousands parsed = thousands category then True
            else allowedCategories cs category))"

section \<open>Requests\<close>

record tz_config =
  tz_Enabled :: bool
  tz_APIKey :: runes
  tz_Path :: string
  tz_MaxResults :: int
  tz_Categories :: "runes list"
  tz_TrustProxyHeaders :: bool

definition defaultPath :: string where "defaultPath = ''/torznab''"
definition defaultMaxResults :: int where "defaultMaxResults = 100"

definition tz_NewDefaultConfig :: tz_config where
  "tz_NewDefaultConfig = \<lparr>tz_Enabled = False, tz_APIKey = [], tz_Path = defaultPath,
     tz_MaxResults = defaultMaxResults, tz_Categories = [starCategory], tz_TrustProxyHeaders = True\<rparr>"

record tz_query =
  tq_T :: runes
  tq_Q :: runes
  tq_ImdbID :: runes
  tq_TmdbID :: runes
  tq_TvdbID :: runes
  tq_Season :: runes
  tq_Ep :: runes
  tq_Artist :: runes
  tq_Album :: runes
  tq_Label :: runes
  tq_Title :: runes
  tq_Author :: runes
  tq_Cat :: runes
  tq_Limit :: int
  tq_Offset :: int
  tq_ID :: runes
  tq_APIKey :: runes

definition parseQuery :: "unicode \<Rightarrow> (string \<Rightarrow> runes) \<Rightarrow> tz_error + tz_query" where
  "parseQuery u get =
     (let q = \<lparr>tq_T = map (ToLower u) (get ''t''), tq_Q = get ''q'', tq_ImdbID = get ''imdbid'', tq_TmdbID = get ''tmdbid'',
            tq_TvdbID = get ''tvdbid'', tq_Season = get ''season'', tq_Ep = get ''ep'', tq_Artist = get ''artist'',
            tq_Album = get ''album'', tq_Label = get ''label'', tq_Title = get ''title'', tq_Author = get ''author'',
            tq_Cat = get ''cat'', tq_Limit = 0, tq_Offset = 0, tq_ID = get ''id'', tq_APIKey = get ''apikey''\<rparr> in
      if tq_T q = [] then Inl (MissingParameter ''t'')
      else bind_sum
        (let raw = get ''limit'' in
         if raw = [] then Inr q
         else (case AtoiSigned raw of
             Some n \<Rightarrow> if n < 1 then Inl (InvalidLimit raw) else Inr (q\<lparr>tq_Limit := n\<rparr>)
           | None \<Rightarrow> Inl (InvalidLimit raw))) (\<lambda>q1. bind_sum
        (let raw = get ''offset'' in
         if raw = [] then Inr q1
         else (case AtoiSigned raw of
             Some n \<Rightarrow> if n < 0 then Inl (InvalidOffset raw) else Inr (q1\<lparr>tq_Offset := n\<rparr>)
           | None \<Rightarrow> Inl (InvalidOffset raw))) (\<lambda>q2.
        if tq_ImdbID q2 \<noteq> [] \<and> take 2 (tq_ImdbID q2) \<noteq> runes_of ''tt'' then Inl (InvalidImdbID (tq_ImdbID q2))
        else Inr q2)))"

definition capResults :: "int \<Rightarrow> int \<Rightarrow> int" where
  "capResults requested maxResults0 =
     (let maxResults = (if maxResults0 \<le> 0 then defaultMaxResults else maxResults0) in
      if 0 < requested \<and> requested < maxResults then requested else maxResults)"

definition nonEmpty :: "runes list \<Rightarrow> runes list" where
  "nonEmpty parts = filter (\<lambda>p. p \<noteq> []) (map TrimSpace parts)"

type_synonym tz_ref = "content_type \<times> string \<times> runes"

definition contentRef :: "content_type \<Rightarrow> tz_query \<Rightarrow> tz_ref option" where
  "contentRef ct q =
     (if tq_ImdbID q \<noteq> [] then Some (ct, ''imdb'', tq_ImdbID q)
      else if tq_TmdbID q \<noteq> [] then Some (ct, ''tmdb'', tq_TmdbID q)
      else if tq_TvdbID q \<noteq> [] then Some (ct, ''tvdb'', tq_TvdbID q)
      else None)"

text \<open>The verb \<open>%02d\<close>.\<close>

definition twoDigits :: "int \<Rightarrow> runes" where
  "twoDigits n = (let s = showInt n in replicate (2 - length s) 48 @ s)"

definition withSeasonEpisode :: "runes \<Rightarrow> tz_query \<Rightarrow> runes" where
  "withSeasonEpisode queryString q =
     (case (AtoiSigned (tq_Season q), AtoiSigned (tq_Ep q)) of
        (None, None) \<Rightarrow> queryString
      | (season, ep) \<Rightarrow>
          (let token = (case season of Some s \<Rightarrow> runes_of ''S'' @ twoDigits s | None \<Rightarrow> []) @
             (case ep of Some e \<Rightarrow> runes_of ''E'' @ twoDigits e | None \<Rightarrow> []) in
           JoinRunes (nonEmpty [queryString, token]) [32]))"

record search_params =
  sp_QueryString :: runes
  sp_Limit :: int
  sp_Offset :: int
  sp_InfoHashes :: "runes list"
  sp_ContentTypes :: "content_type list"
  sp_ContentRefs :: "tz_ref list"

definition joinedQuery :: "runes list \<Rightarrow> tz_query \<Rightarrow> runes" where
  "joinedQuery parts q = JoinRunes (nonEmpty (if tq_Q q \<noteq> [] then parts @ [tq_Q q] else parts)) [32]"

definition refList :: "tz_ref option \<Rightarrow> tz_ref list" where
  "refList r = (case r of None \<Rightarrow> [] | Some x \<Rightarrow> [x])"

definition toSearchParams :: "unicode \<Rightarrow> tz_config \<Rightarrow> tz_query \<Rightarrow> tz_error + search_params" where
  "toSearchParams u cfg q =
     (let params = \<lparr>sp_QueryString = [], sp_Limit = capResults (tq_Limit q) (tz_MaxResults cfg), sp_Offset = tq_Offset q,
            sp_InfoHashes = [], sp_ContentTypes = [], sp_ContentRefs = []\<rparr>;
          t = tq_T q in
      if t = runes_of ''search'' then
        bind_sum (parseCategories (tq_Cat q)) (\<lambda>types.
          Inr (params\<lparr>sp_QueryString := tq_Q q, sp_ContentTypes := types\<rparr>))
      else if t = runes_of ''movie'' then
        Inr (params\<lparr>sp_QueryString := tq_Q q, sp_ContentTypes := [ContentTypeMovie],
          sp_ContentRefs := refList (contentRef ContentTypeMovie q)\<rparr>)
      else if t = runes_of ''tvsearch'' then
        Inr (params\<lparr>sp_QueryString := withSeasonEpisode (tq_Q q) q, sp_ContentTypes := [ContentTypeTvShow],
          sp_ContentRefs := refList (contentRef ContentTypeTvShow q)\<rparr>)
      else if t = runes_of ''music'' then
        Inr (params\<lparr>sp_QueryString := joinedQuery [tq_Artist q, tq_Album q, tq_Label q] q,
          sp_ContentTypes := [ContentTypeMusic]\<rparr>)
      else if t = runes_of ''book'' then
        Inr (params\<lparr>sp_QueryString := joinedQuery [tq_Title q, tq_Author q] q,
          sp_ContentTypes := [ContentTypeEbook, ContentTypeComic, ContentTypeAudiobook]\<rparr>)
      else if t = runes_of ''get'' \<or> t = runes_of ''details'' then
        (if tq_ID q = [] then Inl (MissingParameter ''id'')
         else Inr (params\<lparr>sp_InfoHashes := [map (ToLower u) (tq_ID q)]\<rparr>))
      else Inl (UnsupportedType t))"

section \<open>Answers\<close>

record search_row =
  sr_InfoHash :: runes
  sr_TorrentName :: runes
  sr_Size :: int
  sr_Seeders :: "int option"
  sr_Leechers :: "int option"
  sr_ContentType :: "string option"
  sr_ContentSource :: "runes option"
  sr_ContentID :: "runes option"

record rss_item =
  rs_Title :: runes
  rs_GUID :: runes
  rs_Link :: string
  rs_Size :: int
  rs_Category :: string
  rs_Enclosure :: runes
  rs_Attrs :: "(runes \<times> runes) list"

datatype tz_response =
  TzError nat nat
| TzCaps int "(int \<times> string) list"
| TzRedirect runes
| TzFeed "rss_item list"

definition errCodeParameterMissing :: nat where "errCodeParameterMissing = 100"
definition errCodeParameterInvalid :: nat where "errCodeParameterInvalid = 101"
definition errCodeNoSuchFunction :: nat where "errCodeNoSuchFunction = 200"
definition errCodeServerError :: nat where "errCodeServerError = 500"
definition errCodeUnauthorized :: nat where "errCodeUnauthorized = 100"

definition newznabCategoryName :: "int \<Rightarrow> string" where
  "newznabCategoryName cat =
     (if cat = catMovies then ''Movies'' else if cat = catTV then ''TV'' else if cat = catAudio then ''Audio''
      else if cat = catBooks then ''Books'' else if cat = catBooksComics then ''Books > Comics''
      else if cat = catBooksAudiobook then ''Books > Audiobook'' else if cat = catConsole then ''Console''
      else if cat = catSoftware then ''PC'' else if cat = catXXX then ''XXX'' else ''Other'')"

definition capabilitiesFor :: "tz_config \<Rightarrow> tz_response" where
  "capabilitiesFor cfg = TzCaps (capResults 0 (tz_MaxResults cfg))
     (map (\<lambda>cat. (cat, newznabCategoryName cat)) (filter (allowedCategories (tz_Categories cfg)) baseCategories))"

text \<open>\<open>url.Values.Encode\<close> sorts by key and escapes.\<close>

definition tz_magnetURI :: "search_row \<Rightarrow> string" where
  "tz_magnetURI r = ''magnet:?dn='' @ QueryEscape (sr_TorrentName r) @
     (if sr_Size r > 0 then ''&xl='' @ map char_of (showInt (sr_Size r)) else []) @
     ''&xt='' @ QueryEscape (runes_of ''urn:btih:'' @ sr_InfoHash r)"

definition contentAttrName :: "runes \<Rightarrow> runes" where
  "contentAttrName src =
     (if src = runes_of ''imdb'' then runes_of ''imdbid'' else if src = runes_of ''tmdb'' then runes_of ''tmdbid''
      else if src = runes_of ''tvdb'' then runes_of ''tvdbid'' else src)"

record tz_env =
  tv_unicode :: unicode
  tv_search :: "(search_params \<Rightarrow> string + search_row list) option"
  tv_url :: "runes \<times> runes \<Rightarrow> runes \<Rightarrow> runes"

definition downloadURLFor :: "tz_env \<Rightarrow> runes \<times> runes \<Rightarrow> runes \<Rightarrow> string + runes" where
  "downloadURLFor te base infoHash =
     (if infoHash = [] then Inl ''empty info hash''
      else Inr (tv_url te base (runes_of ''/api/torrents/'' @ infoHash @ runes_of ''/download'')))"

definition itemCategory :: "tz_env \<Rightarrow> search_row \<Rightarrow> int" where
  "itemCategory te r = (case sr_ContentType r of
     None \<Rightarrow> catOther
   | Some name \<Rightarrow> (case ParseContentType (\<lambda>s. utf8_string (map (ToLower (tv_unicode te)) (runes_of s))) name of
       None \<Rightarrow> catOther | Some ct \<Rightarrow> categoryForContentType ct))"

definition itemFor :: "tz_env \<Rightarrow> runes \<times> runes \<Rightarrow> search_row \<Rightarrow> string + rss_item" where
  "itemFor te base r = bind_sum (downloadURLFor te base (sr_InfoHash r)) (\<lambda>downloadURL.
     (let seeders = (case sr_Seeders r of None \<Rightarrow> 0 | Some n \<Rightarrow> n);
          leechers = (case sr_Leechers r of None \<Rightarrow> 0 | Some n \<Rightarrow> n);
          category = itemCategory te r;
          attrs = [(runes_of ''infohash'', sr_InfoHash r), (runes_of ''magneturl'', runes_of (tz_magnetURI r)),
            (runes_of ''seeders'', showInt seeders), (runes_of ''leechers'', showInt leechers),
            (runes_of ''peers'', showInt (int32 (seeders + leechers))), (runes_of ''size'', showInt (sr_Size r)),
            (runes_of ''category'', showInt category)];
          more = (case (sr_ContentSource r, sr_ContentID r) of
            (Some src, Some i) \<Rightarrow> [(contentAttrName src, i)] | _ \<Rightarrow> []) in
      Inr \<lparr>rs_Title = sr_TorrentName r, rs_GUID = sr_InfoHash r, rs_Link = tz_magnetURI r, rs_Size = sr_Size r,
        rs_Category = newznabCategoryName category, rs_Enclosure = downloadURL, rs_Attrs = attrs @ more\<rparr>))"

fun feedFor :: "tz_env \<Rightarrow> runes \<times> runes \<Rightarrow> search_row list \<Rightarrow> string + rss_item list" where
  "feedFor te base [] = Inr []"
| "feedFor te base (r # rs) = bind_sum (itemFor te base r) (\<lambda>item.
     bind_sum (feedFor te base rs) (\<lambda>items. Inr (item # items)))"

section \<open>The handler\<close>

record tz_handler =
  th_config :: tz_config
  th_allowedTypes :: "content_type set option"

definition compileAllowedTypes :: "runes list \<Rightarrow> content_type set option" where
  "compileAllowedTypes categories =
     (if starCategory \<in> set categories then None
      else if categories = [] then None
      else Some (set (concat (map (\<lambda>c. case AtoiSigned c of None \<Rightarrow> [] | Some n \<Rightarrow> contentTypesForCategory n) categories))))"

definition applyConfig :: "tz_config \<Rightarrow> tz_handler" where
  "applyConfig cfg = \<lparr>th_config = cfg, th_allowedTypes = compileAllowedTypes (tz_Categories cfg)\<rparr>"

definition matchesMount :: "tz_handler \<Rightarrow> string \<Rightarrow> bool" where
  "matchesMount h reqPath =
     (let p = trimRightSlash (tz_Path (th_config h));
          apiPath = (if p \<noteq> [] then p else defaultPath) @ ''/api'' in
      reqPath = apiPath \<or> prefix (apiPath @ ''/'') reqPath)"

record tz_request =
  tr_get :: "string \<Rightarrow> runes"
  tr_tls :: bool
  tr_forwardedProto :: runes
  tr_forwardedHost :: runes
  tr_host :: runes

text \<open>\<open>strings.Split(s, ",")[0]\<close>, trimmed.\<close>

definition firstForwarded :: "runes \<Rightarrow> runes" where
  "firstForwarded s = TrimSpace (takeWhile (\<lambda>r. r \<noteq> 44) s)"

definition requestBaseURL :: "tz_handler \<Rightarrow> tz_request \<Rightarrow> runes \<times> runes" where
  "requestBaseURL h req =
     (let trust = tz_TrustProxyHeaders (th_config h) in
      (if trust \<and> tr_forwardedProto req \<noteq> [] then firstForwarded (tr_forwardedProto req)
       else if tr_tls req then runes_of ''https'' else runes_of ''http'',
       if trust \<and> tr_forwardedHost req \<noteq> [] then firstForwarded (tr_forwardedHost req) else tr_host req))"

definition handleDownload :: "tz_env \<Rightarrow> tz_handler \<Rightarrow> tz_request \<Rightarrow> tz_query \<Rightarrow> tz_response" where
  "handleDownload te h req q =
     (if tq_ID q = [] then TzError 400 errCodeParameterMissing
      else (case downloadURLFor te (requestBaseURL h req) (map (ToLower (tv_unicode te)) (tq_ID q)) of
          Inl e \<Rightarrow> TzError 400 errCodeParameterInvalid | Inr url \<Rightarrow> TzRedirect url))"

definition writeFeed :: "tz_env \<Rightarrow> tz_handler \<Rightarrow> tz_request \<Rightarrow> search_row list \<Rightarrow> tz_response" where
  "writeFeed te h req rows = (case feedFor te (requestBaseURL h req) rows of
     Inl e \<Rightarrow> TzError 500 errCodeServerError | Inr items \<Rightarrow> TzFeed items)"

text \<open>What the allow-list leaves of a search; \<open>None\<close> is the empty feed.\<close>

definition enforceTypes :: "content_type set option \<Rightarrow> search_params \<Rightarrow> search_params option" where
  "enforceTypes allowed params = (case allowed of
     Some restricted \<Rightarrow>
       if sp_ContentTypes params \<noteq> [] then
         (let permitted = filter (\<lambda>t. t \<in> restricted) (sp_ContentTypes params) in
          if permitted = [] then None else Some (params\<lparr>sp_ContentTypes := permitted\<rparr>))
       else Some params
   | None \<Rightarrow> Some params)"

definition handleSearch :: "tz_env \<Rightarrow> tz_handler \<Rightarrow> tz_request \<Rightarrow> tz_query \<Rightarrow> tz_response" where
  "handleSearch te h req q = (case toSearchParams (tv_unicode te) (th_config h) q of
     Inl e \<Rightarrow> TzError 400 errCodeParameterInvalid
   | Inr params0 \<Rightarrow> (case enforceTypes (th_allowedTypes h) params0 of
       None \<Rightarrow> writeFeed te h req []
     | Some params \<Rightarrow> (case tv_search te of
         None \<Rightarrow> TzError 500 errCodeServerError
       | Some svc \<Rightarrow> (case svc params of
           Inl e \<Rightarrow> TzError 500 errCodeServerError
         | Inr rows \<Rightarrow> writeFeed te h req rows))))"

definition searchTypes :: "runes list" where
  "searchTypes = map runes_of [''search'', ''movie'', ''tvsearch'', ''tv'', ''music'', ''book'', ''get'', ''details'']"

definition torznab_handle :: "tz_env \<Rightarrow> tz_handler \<Rightarrow> tz_request \<Rightarrow> tz_response" where
  "torznab_handle te h req =
     (let cfg = th_config h in
      if \<not> tz_Enabled cfg then TzError 404 errCodeNoSuchFunction
      else (case parseQuery (tv_unicode te) (tr_get req) of
          Inl e \<Rightarrow> TzError 400 errCodeParameterMissing
        | Inr q \<Rightarrow>
            if tz_APIKey cfg \<noteq> [] \<and> tq_APIKey q \<noteq> tz_APIKey cfg then TzError 401 errCodeUnauthorized
            else if tq_T q = runes_of ''capabilities'' then capabilitiesFor cfg
            else if tq_T q = runes_of ''download'' then handleDownload te h req q
            else if tq_T q \<in> set searchTypes then handleSearch te h req q
            else TzError 400 errCodeNoSuchFunction))"

section \<open>What is searched\<close>

lemma category_types: "ct \<in> set (contentTypesForCategory (categoryForContentType ct))"
  by (cases ct) (simp_all add: contentTypesForCategory_def thousands_def catConsole_def catMovies_def catAudio_def catSoftware_def
      catTV_def catXXX_def catBooks_def catOther_def catBooksComics_def catBooksAudiobook_def)

lemma parseQuery_ranges:
  "parseQuery u get = Inr q \<Longrightarrow> 0 \<le> tq_Limit q \<and> 0 \<le> tq_Offset q \<and> tq_T q = map (ToLower u) (get ''t'') \<and>
     tq_Cat q = get ''cat'' \<and> tq_Q q = get ''q''"
  by (auto simp: parseQuery_def Let_def bind_sum_Inr_iff split: if_splits option.splits)

definition resultCap :: "tz_config \<Rightarrow> int" where
  "resultCap cfg = (if tz_MaxResults cfg \<le> 0 then 100 else tz_MaxResults cfg)"

definition permitted :: "tz_config \<Rightarrow> search_params \<Rightarrow> bool" where
  "permitted cfg p \<longleftrightarrow> 1 \<le> sp_Limit p \<and> sp_Limit p \<le> resultCap cfg \<and> 0 \<le> sp_Offset p \<and>
     (\<forall>S. compileAllowedTypes (tz_Categories cfg) = Some S \<longrightarrow> set (sp_ContentTypes p) \<subseteq> S)"

lemma toSearchParams_page:
  "toSearchParams u cfg q = Inr p \<Longrightarrow> sp_Limit p = capResults (tq_Limit q) (tz_MaxResults cfg) \<and> sp_Offset p = tq_Offset q"
  by (auto simp: toSearchParams_def Let_def bind_sum_Inr_iff split: if_splits)

lemma capResults_bounds: "1 \<le> capResults n (tz_MaxResults cfg) \<and> capResults n (tz_MaxResults cfg) \<le> resultCap cfg"
  by (auto simp: capResults_def resultCap_def defaultMaxResults_def Let_def)

lemma enforceTypes_sub:
  assumes "enforceTypes allowed p0 = Some p"
  shows "sp_Limit p = sp_Limit p0 \<and> sp_Offset p = sp_Offset p0 \<and> (\<forall>S. allowed = Some S \<longrightarrow> set (sp_ContentTypes p) \<subseteq> S)"
  using assms by (auto simp: enforceTypes_def Let_def split: option.splits if_splits)

lemma searched_permitted:
  assumes "toSearchParams u cfg q = Inr p0" "enforceTypes (compileAllowedTypes (tz_Categories cfg)) p0 = Some p" "0 \<le> tq_Offset q"
  shows "permitted cfg p"
  using toSearchParams_page [OF assms(1)] enforceTypes_sub [OF assms(2)] capResults_bounds [of "tq_Limit q" cfg] assms(3)
  by (simp add: permitted_def)

lemma writeFeed_service [simp]: "writeFeed (te\<lparr>tv_search := svc\<rparr>) h req rows = writeFeed te h req rows"
proof -
  have u: "tv_unicode (te\<lparr>tv_search := svc\<rparr>) = tv_unicode te" "tv_url (te\<lparr>tv_search := svc\<rparr>) = tv_url te" by simp_all
  have "itemFor (te\<lparr>tv_search := svc\<rparr>) base r = itemFor te base r" for base r
    unfolding itemFor_def downloadURLFor_def itemCategory_def u ..
  then have "feedFor (te\<lparr>tv_search := svc\<rparr>) base rows = feedFor te base rows" for base
    by (induction rows) simp_all
  then show ?thesis by (simp add: writeFeed_def)
qed


text \<open>C21. The list of categories does not hold for a search that names none: it is answered with whatever
  the service finds for the text among torrents of every type, whatever the configuration lists.\<close>

theorem allow_list_skipped:
  assumes "tz_Enabled cfg" "parseQuery (tv_unicode te) (tr_get req) = Inr q"
    "tz_APIKey cfg = [] \<or> tq_APIKey q = tz_APIKey cfg"
    "tq_T q = runes_of ''search''" "tq_Cat q = []" "tv_search te = Some svc"
    "svc \<lparr>sp_QueryString = tq_Q q, sp_Limit = capResults (tq_Limit q) (tz_MaxResults cfg), sp_Offset = tq_Offset q,
       sp_InfoHashes = [], sp_ContentTypes = [], sp_ContentRefs = []\<rparr> = Inr rows"
  shows "torznab_handle te (applyConfig cfg) req = writeFeed te (applyConfig cfg) req rows"
proof -
  have "enforceTypes allowed p = Some p" if "sp_ContentTypes p = []" for allowed p
    using that by (simp add: enforceTypes_def split: option.split)
  then have "handleSearch te (applyConfig cfg) req q = writeFeed te (applyConfig cfg) req rows"
    using assms(4-7) by (simp add: handleSearch_def toSearchParams_def parseCategories_def applyConfig_def)
  moreover have "tq_T q \<noteq> runes_of ''capabilities''" "tq_T q \<noteq> runes_of ''download''" "tq_T q \<in> set searchTypes"
    unfolding assms(4) by (simp_all add: runes_of_def searchTypes_def)
  ultimately show ?thesis using assms(1,2,3) by (auto simp: torznab_handle_def applyConfig_def)
qed

text \<open>The alias of television searches is let through to the search, which does not know it.\<close>

lemma legacy_tv_fails:
  assumes "tz_Enabled cfg" "parseQuery (tv_unicode te) (tr_get req) = Inr q" "tq_T q = runes_of ''tv''"
  shows "torznab_handle te (applyConfig cfg) req \<in> {TzError 400 errCodeParameterInvalid, TzError 401 errCodeUnauthorized}"
proof -
  have "toSearchParams (tv_unicode te) cfg q = Inl (UnsupportedType (runes_of ''tv''))"
    using assms(3) by (simp add: toSearchParams_def runes_of_def)
  then have "handleSearch te (applyConfig cfg) req q = TzError 400 errCodeParameterInvalid"
    by (simp add: handleSearch_def applyConfig_def)
  moreover have "tq_T q \<noteq> runes_of ''capabilities''" "tq_T q \<noteq> runes_of ''download''" "tq_T q \<in> set searchTypes"
    unfolding assms(3) by (simp_all add: runes_of_def searchTypes_def)
  ultimately show ?thesis using assms(1,2) by (simp add: torznab_handle_def applyConfig_def)
qed

section \<open>Witnesses\<close>

definition sampleRequest :: tz_request where
  "sampleRequest = \<lparr>tr_get = (\<lambda>k. if k = ''t'' then runes_of ''search'' else if k = ''q'' then runes_of ''dune'' else []),
     tr_tls = False, tr_forwardedProto = [], tr_forwardedHost = [], tr_host = runes_of ''localhost''\<rparr>"

definition sampleFound :: search_row where
  "sampleFound = \<lparr>sr_InfoHash = runes_of ''00ff'', sr_TorrentName = runes_of ''dune'', sr_Size = 10, sr_Seeders = None,
     sr_Leechers = None, sr_ContentType = Some ''adult'', sr_ContentSource = None, sr_ContentID = None\<rparr>"

definition sampleTzEnv :: tz_env where
  "sampleTzEnv = \<lparr>tv_unicode = asciiOnly, tv_search = Some (\<lambda>p. Inr [sampleFound]), tv_url = (\<lambda>b path. snd b @ path)\<rparr>"

definition moviesOnly :: tz_config where
  "moviesOnly = tz_NewDefaultConfig\<lparr>tz_Enabled := True, tz_Categories := [runes_of ''2000'']\<rparr>"


lemma sampleQuery:
  "\<exists>q. parseQuery asciiOnly (tr_get sampleRequest) = Inr q \<and> tq_T q = runes_of ''search'' \<and> tq_Cat q = []"
proof -
  have t: "map (ToLower asciiOnly) (runes_of ''search'') = runes_of ''search''"
    by (simp add: runes_of_def ToLower_def)
  have "runes_of ''search'' \<noteq> []" by (simp add: runes_of_def)
  then show ?thesis using t by (simp add: parseQuery_def sampleRequest_def Let_def)
qed

theorem allow_list_skipped_witness:
  "compileAllowedTypes (tz_Categories moviesOnly) = Some {ContentTypeMovie} \<and>
   torznab_handle sampleTzEnv (applyConfig moviesOnly) sampleRequest =
     writeFeed sampleTzEnv (applyConfig moviesOnly) sampleRequest [sampleFound]"
proof
  show "compileAllowedTypes (tz_Categories moviesOnly) = Some {ContentTypeMovie}" by code_simp
  obtain q where q: "parseQuery asciiOnly (tr_get sampleRequest) = Inr q" "tq_T q = runes_of ''search''" "tq_Cat q = []"
    using sampleQuery by blast
  show "torznab_handle sampleTzEnv (applyConfig moviesOnly) sampleRequest =
     writeFeed sampleTzEnv (applyConfig moviesOnly) sampleRequest [sampleFound]"
    by (rule allow_list_skipped [of _ _ _ q "\<lambda>p. Inr [sampleFound]"])
       (simp_all add: moviesOnly_def tz_NewDefaultConfig_def sampleTzEnv_def q)
qed

end
