(* ===== verification/SearchSql.thy ===== *)
theory SearchSql
  imports Tsquery RetryQueue "HOL-Library.Sublist"
begin

text \<open>
  The search in PostgreSQL, \<open>src/internal/database/search/search_torrent_content.go\<close>, with its parameters
  (\<open>search/search.go\<close>), the barrier of a walk through pages (\<open>search/barrier.go\<close>), the router of searches
  (\<open>search/router.go\<close>) and the file types (\<open>model/file_type.go\<close>).

  \<^item> The code writes conditions as text with numbered placeholders and collects the arguments beside it.  A
    condition is a value of \<open>sql_clause\<close> with its numbers; \<open>clauseText\<close> is the text of the code.
  \<^item> The database executes a statement on a list of \<open>search_doc\<close>, a torrent with its files, its content and its
    seeders: it rejects numbers that do not fit the arguments, tables that are not joined, timestamps that
    cannot be read and offsets below zero, as PostgreSQL does.  Matching and ranking of a search vector,
    the collation and the text of a time are parameters.
\<close>

section \<open>File types\<close>

datatype file_type = FileTypeArchive | FileTypeAudio | FileTypeData | FileTypeDocument | FileTypeImage
  | FileTypeSoftware | FileTypeSubtitles | FileTypeVideo

definition fileTypeNames :: "(file_type \<times> string) list" where
  "fileTypeNames = [(FileTypeArchive, ''archive''), (FileTypeAudio, ''audio''), (FileTypeData, ''data''),
     (FileTypeDocument, ''document''), (FileTypeImage, ''image''), (FileTypeSoftware, ''software''),
     (FileTypeSubtitles, ''subtitles''), (FileTypeVideo, ''video'')]"

text \<open>The extensions of a type, sorted.\<close>

fun fileTypeExtensions :: "file_type \<Rightarrow> string list" where
  "fileTypeExtensions FileTypeArchive = [''7z'', ''bz2'', ''gz'', ''iso'', ''rar'', ''tar'', ''zip'']"
| "fileTypeExtensions FileTypeAudio = [''aac'', ''dsf'', ''flac'', ''m4a'', ''m4b'', ''mid'', ''mp3'', ''ogg'', ''wav'']"
| "fileTypeExtensions FileTypeData = [''csv'', ''json'', ''xls'', ''xlsx'', ''xml'']"
| "fileTypeExtensions FileTypeDocument = [''azw'', ''azw3'', ''djvu'', ''doc'', ''docx'', ''epub'', ''htm'', ''html'', ''md'',
     ''mobi'', ''nfo'', ''otf'', ''pdf'', ''ppt'', ''pptx'', ''rtf'', ''txt'']"
| "fileTypeExtensions FileTypeImage = [''bmp'', ''dds'', ''gif'', ''ico'', ''jpeg'', ''jpg'', ''png'', ''psd'', ''svg'', ''tif'', ''tiff'']"
| "fileTypeExtensions FileTypeSoftware = [''apk'', ''bat'', ''bin'', ''deb'', ''dll'', ''dmg'', ''exe'', ''jar'', ''lua'', ''msi'',
     ''package'', ''pkg'', ''rpm'', ''sh'']"
| "fileTypeExtensions FileTypeSubtitles = [''srt'', ''sub'', ''vtt'']"
| "fileTypeExtensions FileTypeVideo = [''avi'', ''flv'', ''m4v'', ''mkv'', ''mov'', ''mp4'', ''mpeg'', ''mpg'', ''ts'', ''vob'', ''wmv'']"

text \<open>\<open>model.FileType(ft).Extensions()\<close> for a text that need not name a type.\<close>

definition Extensions :: "runes \<Rightarrow> runes list" where
  "Extensions ft = (case find (\<lambda>p. runes_of (snd p) = ft) fileTypeNames of
     None \<Rightarrow> [] | Some p \<Rightarrow> map runes_of (fileTypeExtensions (fst p)))"

section \<open>Parameters\<close>

datatype search_field = FieldCreatedAt | FieldUpdatedAt | FieldSize | FieldFilesCount | FieldSeeders | FieldLeechers
  | FieldName | FieldInfoHash | FieldRelevance

datatype sort_direction = SortAsc | SortDesc

record search_content_ref =
  cr_Type :: runes
  cr_Source :: runes
  cr_ID :: runes

record facet_config =
  fa_ContentType :: bool
  fa_FileType :: bool
  fa_Language :: bool
  fa_ReleaseYear :: bool

record torrent_search_params =
  ts_QueryString :: runes
  ts_Limit :: int
  ts_Offset :: int
  ts_TotalCount :: bool
  ts_HasNextPage :: bool
  ts_Barrier :: string
  ts_InfoHashes :: "runes list"
  ts_ContentTypes :: "runes list"
  ts_FileTypes :: "runes list"
  ts_Languages :: "runes list"
  ts_ReleaseYears :: "int list"
  ts_ContentRefs :: "search_content_ref list"
  ts_OrderBy :: "(search_field \<times> sort_direction) list"
  ts_FacetAggregate :: facet_config

section \<open>The barrier\<close>

text \<open>\<open>base64.RawURLEncoding\<close>: six bits a character, no padding; decoding skips line ends.\<close>

definition base64Alphabet :: string where
  "base64Alphabet = ''ABCDEFGHIJKLMNOPQRSTUVWXYZabcdefghijklmnopqrstuvwxyz0123456789-_''"

fun sextets :: "nat list \<Rightarrow> nat list" where
  "sextets [] = []"
| "sextets [x] = [x div 4, (x mod 4) * 16]"
| "sextets [x, y] = [x div 4, (x mod 4) * 16 + y div 16, (y mod 16) * 4]"
| "sextets (x # y # z # r) = [x div 4, (x mod 4) * 16 + y div 16, (y mod 16) * 4 + z div 64, z mod 64] @ sextets r"

fun octets :: "nat list \<Rightarrow> nat list option" where
  "octets [] = Some []"
| "octets [a] = None"
| "octets [a, b] = Some [a * 4 + b div 16]"
| "octets [a, b, c] = Some [a * 4 + b div 16, (b mod 16) * 16 + c div 4]"
| "octets (a # b # c # d # r) =
     map_option (\<lambda>t. [a * 4 + b div 16, (b mod 16) * 16 + c div 4, (c mod 4) * 64 + d] @ t) (octets r)"

definition EncodeBarrier :: "string \<Rightarrow> string" where
  "EncodeBarrier raw = map (nth base64Alphabet) (sextets (map of_char raw))"

definition sextetOf :: "char \<Rightarrow> nat option" where
  "sextetOf c = map_of (zip base64Alphabet [0..<64]) c"

definition DecodeBarrier :: "string \<Rightarrow> string option" where
  "DecodeBarrier encoded =
     (let cs = filter (\<lambda>c. c \<notin> {CHR 0x0A, CHR 0x0D}) encoded in
      if list_all (\<lambda>c. sextetOf c \<noteq> None) cs
      then map_option (map char_of) (octets (map (\<lambda>c. the (sextetOf c)) cs))
      else None)"

lemma octets_sextets: "\<forall>x \<in> set xs. x < 256 \<Longrightarrow> octets (sextets xs) = Some xs"
proof (induction xs rule: sextets.induct)
  case (4 x y z r)
  then have b: "x < 256" "y < 256" "z < 256" by simp_all
  have "((x mod 4) * 16 + y div 16) div 16 = x mod 4" "((x mod 4) * 16 + y div 16) mod 16 = y div 16"
    "((y mod 16) * 4 + z div 64) div 4 = y mod 16" "((y mod 16) * 4 + z div 64) mod 4 = z div 64"
    using b by auto
  then show ?case using 4 by simp
qed auto

lemma sextets_bound: "\<forall>x \<in> set xs. x < 256 \<Longrightarrow> s \<in> set (sextets xs) \<Longrightarrow> s < 64"
  by (induction xs rule: sextets.induct) (auto simp: less_mult_imp_div_less)

lemma alphabet_sextet: "s < 64 \<Longrightarrow> sextetOf (base64Alphabet ! s) = Some s \<and> base64Alphabet ! s \<notin> {CHR 0x0A, CHR 0x0D}"
proof -
  assume s: "s < 64"
  have "\<forall>s \<in> set [0..<64]. sextetOf (base64Alphabet ! s) = Some s \<and> base64Alphabet ! s \<notin> {CHR 0x0A, CHR 0x0D}"
    by code_simp
  then show ?thesis using s by simp
qed

lemma barrier_decodes: "DecodeBarrier (EncodeBarrier raw) = Some raw"
proof -
  define xs where "xs = map (of_char :: char \<Rightarrow> nat) raw"
  have b: "\<forall>x \<in> set xs. x < 256" by (auto simp: xs_def)
  note each = alphabet_sextet [OF sextets_bound [OF b]]
  have "filter (\<lambda>c. c \<notin> {CHR 0x0A, CHR 0x0D}) (map (nth base64Alphabet) (sextets xs)) = map (nth base64Alphabet) (sextets xs)"
    using each by (auto simp: filter_id_conv)
  moreover have "map (\<lambda>c. the (sextetOf c)) (map (nth base64Alphabet) (sextets xs)) = sextets xs"
    using each by (auto simp: map_idI)
  moreover have "list_all (\<lambda>c. sextetOf c \<noteq> None) (map (nth base64Alphabet) (sextets xs))"
    using each by (auto simp: list_all_iff)
  moreover have "map char_of xs = raw" by (simp add: xs_def map_idI)
  ultimately show ?thesis unfolding DecodeBarrier_def EncodeBarrier_def Let_def xs_def [symmetric]
    using octets_sextets [OF b] by simp
qed

section \<open>Conditions\<close>

datatype sql_arg = AText runes | ABytes string | AInt int

datatype sql_column = ColInfoHash | ColContentType | ColReleaseYear

fun columnText :: "sql_column \<Rightarrow> string" where
  "columnText ColInfoHash = ''t.info_hash''"
| "columnText ColContentType = ''t.content_type''"
| "columnText ColReleaseYear = ''EXTRACT(YEAR FROM c.release_date)::int''"

text \<open>A condition with the numbers of its placeholders.\<close>

datatype sql_clause =
  ClTsv nat
| ClIn sql_column "nat list"
| ClFiles "nat list list"
| ClLanguages "nat list"
| ClRefs "(nat \<times> nat \<times> nat) list"
| ClBefore nat

definition placeholderText :: "nat \<Rightarrow> string" where
  "placeholderText n = CHR ''$'' # map char_of (showNat n)"

fun joinTexts :: "string list \<Rightarrow> string \<Rightarrow> string" where
  "joinTexts [] sep = []"
| "joinTexts [x] sep = x"
| "joinTexts (x # y # xs) sep = x @ sep @ joinTexts (y # xs) sep"

definition filesText :: "nat list \<Rightarrow> string" where
  "filesText ns = ''EXISTS (SELECT 1 FROM torrent_files tf WHERE tf.info_hash = t.info_hash AND tf.extension IN ('' @
     joinTexts (map placeholderText ns) '', '' @ ''))''"

definition tupleText :: "nat \<times> nat \<times> nat \<Rightarrow> string" where
  "tupleText t = (case t of (i, j, k) \<Rightarrow> ''('' @ joinTexts [placeholderText i, placeholderText j, placeholderText k] '', '' @ '')'')"

fun clauseText :: "sql_clause \<Rightarrow> string" where
  "clauseText (ClTsv n) = ''t.tsv @@ '' @ placeholderText n @ ''::tsquery''"
| "clauseText (ClIn col ns) = columnText col @ '' IN ('' @ joinTexts (map placeholderText ns) '', '' @ '')''"
| "clauseText (ClFiles nss) = ''('' @ joinTexts (map filesText nss) '' OR '' @ '')''"
| "clauseText (ClLanguages ns) = ''t.languages ?| ARRAY['' @ joinTexts (map placeholderText ns) '', '' @ '']''"
| "clauseText (ClRefs ts) = ''(t.content_type, t.content_source, t.content_id) IN ('' @ joinTexts (map tupleText ts) '', '' @ '')''"
| "clauseText (ClBefore n) = ''t.created_at <= '' @ placeholderText n @ ''::timestamptz''"

text \<open>The conditions, the arguments and the next number.\<close>

record sql_build =
  sb_where :: "sql_clause list"
  sb_args :: "sql_arg list"
  sb_argIdx :: nat

fun placeholderLoop :: "sql_arg list \<Rightarrow> sql_build \<Rightarrow> nat list \<times> sql_build" where
  "placeholderLoop [] b = ([], b)"
| "placeholderLoop (item # items) b =
     (let n = sb_argIdx b;
          (ns, b') = placeholderLoop items (b\<lparr>sb_args := sb_args b @ [item], sb_argIdx := n + 1\<rparr>) in (n # ns, b'))"

definition addClause :: "sql_clause \<Rightarrow> sql_build \<Rightarrow> sql_build" where
  "addClause c b = b\<lparr>sb_where := sb_where b @ [c]\<rparr>"

definition appendINClause :: "sql_column \<Rightarrow> sql_arg list \<Rightarrow> sql_build \<Rightarrow> sql_build" where
  "appendINClause col items b =
     (if items = [] then b else (let (ns, b') = placeholderLoop items b in addClause (ClIn col ns) b'))"

definition addTsquery :: "(runes \<Rightarrow> runes) \<Rightarrow> torrent_search_params \<Rightarrow> sql_build \<Rightarrow> sql_build" where
  "addTsquery tsq p b =
     (if ts_QueryString p \<noteq> []
      then (addClause (ClTsv (sb_argIdx b)) b)\<lparr>sb_args := sb_args b @ [AText (tsq (ts_QueryString p))], sb_argIdx := sb_argIdx b + 1\<rparr>
      else b)"

fun fileClauses :: "runes list \<Rightarrow> sql_build \<Rightarrow> nat list list \<times> sql_build" where
  "fileClauses [] b = ([], b)"
| "fileClauses (ft # fts) b =
     (let exts = Extensions ft in
      if exts = [] then fileClauses fts b
      else (let (ns, b1) = placeholderLoop (map AText exts) b; (nss, b2) = fileClauses fts b1 in (ns # nss, b2)))"

definition addFileTypes :: "torrent_search_params \<Rightarrow> sql_build \<Rightarrow> sql_build" where
  "addFileTypes p b = (let (nss, b') = fileClauses (ts_FileTypes p) b in if nss = [] then b' else addClause (ClFiles nss) b')"

definition addLanguages_sb :: "torrent_search_params \<Rightarrow> sql_build \<Rightarrow> sql_build" where
  "addLanguages_sb p b =
     (if ts_Languages p = [] then b
      else (let (ns, b') = placeholderLoop (map AText (ts_Languages p)) b in addClause (ClLanguages ns) b'))"

fun refTuples :: "search_content_ref list \<Rightarrow> sql_build \<Rightarrow> (nat \<times> nat \<times> nat) list \<times> sql_build" where
  "refTuples [] b = ([], b)"
| "refTuples (r # rs) b =
     (let n = sb_argIdx b;
          (ts, b') = refTuples rs (b\<lparr>sb_args := sb_args b @ [AText (cr_Type r), AText (cr_Source r), AText (cr_ID r)],
            sb_argIdx := n + 3\<rparr>) in ((n, n + 1, n + 2) # ts, b'))"

definition addContentRefs :: "torrent_search_params \<Rightarrow> sql_build \<Rightarrow> sql_build" where
  "addContentRefs p b =
     (if ts_ContentRefs p = [] then b
      else (let (ts, b') = refTuples (ts_ContentRefs p) b in addClause (ClRefs ts) b'))"

definition addBarrier :: "torrent_search_params \<Rightarrow> sql_build \<Rightarrow> sql_build" where
  "addBarrier p b =
     (if ts_Barrier p \<noteq> []
      then (addClause (ClBefore (sb_argIdx b)) b)\<lparr>sb_args := sb_args b @ [ABytes (ts_Barrier p)], sb_argIdx := sb_argIdx b + 1\<rparr>
      else b)"

text \<open>Up to the condition on content types, and all of it.\<close>

definition buildHead :: "(runes \<Rightarrow> runes) \<Rightarrow> torrent_search_params \<Rightarrow> sql_build" where
  "buildHead tsq p = appendINClause ColInfoHash (map AText (ts_InfoHashes p))
     (addTsquery tsq p \<lparr>sb_where = [], sb_args = [], sb_argIdx = 1\<rparr>)"

definition buildTail :: "torrent_search_params \<Rightarrow> sql_build \<Rightarrow> sql_build" where
  "buildTail p b = addBarrier p (addContentRefs p
     (appendINClause ColReleaseYear (map AInt (ts_ReleaseYears p)) (addLanguages_sb p (addFileTypes p b))))"

definition buildWhere :: "(runes \<Rightarrow> runes) \<Rightarrow> torrent_search_params \<Rightarrow> sql_build" where
  "buildWhere tsq p = buildTail p (appendINClause ColContentType (map AText (ts_ContentTypes p)) (buildHead tsq p))"

section \<open>The conditions of the facets\<close>

fun mapClause :: "(nat \<Rightarrow> nat) \<Rightarrow> sql_clause \<Rightarrow> sql_clause" where
  "mapClause f (ClTsv n) = ClTsv (f n)"
| "mapClause f (ClIn col ns) = ClIn col (map f ns)"
| "mapClause f (ClFiles nss) = ClFiles (map (map f) nss)"
| "mapClause f (ClLanguages ns) = ClLanguages (map f ns)"
| "mapClause f (ClRefs ts) = ClRefs (map (\<lambda>(i, j, k). (f i, f j, f k)) ts)"
| "mapClause f (ClBefore n) = ClBefore (f n)"

definition renumber :: "nat \<Rightarrow> nat \<Rightarrow> nat \<Rightarrow> nat" where
  "renumber ctArgStart ctArgCount num = (if num > ctArgStart then num - ctArgCount else num)"

text \<open>The facets leave out the condition on content types; the numbers behind it move down.\<close>

definition facetBuild :: "(runes \<Rightarrow> runes) \<Rightarrow> torrent_search_params \<Rightarrow> sql_clause list \<times> sql_arg list" where
  "facetBuild tsq p =
     (let b = buildWhere tsq p; ctWhereIdx = length (sb_where (buildHead tsq p));
          ctArgStart = sb_argIdx (buildHead tsq p); ctArgCount = length (ts_ContentTypes p) in
      if ctArgCount > 0
      then (map (mapClause (renumber ctArgStart ctArgCount)) (take ctWhereIdx (sb_where b) @ drop (ctWhereIdx + 1) (sb_where b)),
        take (ctArgStart - 1) (sb_args b) @ drop (ctArgStart - 1 + ctArgCount) (sb_args b))
      else (sb_where b, sb_args b))"

text \<open>The code finds the numbers with the regular expression \<open>\$(\d+)\<close>.  In the text of a condition
  these are its placeholders.\<close>

definition isDigitChar :: "char \<Rightarrow> bool" where
  "isDigitChar c \<longleftrightarrow> 48 \<le> (of_char c :: nat) \<and> (of_char c :: nat) \<le> 57"

function replaceDollars :: "(nat \<Rightarrow> string) \<Rightarrow> string \<Rightarrow> string" where
  "replaceDollars f [] = []"
| "replaceDollars f (c # cs) =
     (if c = CHR ''$'' \<and> takeWhile isDigitChar cs \<noteq> []
      then f (foldl (\<lambda>n d. 10 * n + (of_char d - 48)) 0 (takeWhile isDigitChar cs)) @ replaceDollars f (dropWhile isDigitChar cs)
      else c # replaceDollars f cs)"
  by pat_completeness auto
termination by (relation "measure (\<lambda>(f, s). length s)") (auto simp: le_imp_less_Suc length_dropWhile_le)

declare replaceDollars.simps(2) [simp del]

lemma replaceDollars_plain:
  "CHR ''$'' \<notin> set s \<Longrightarrow> replaceDollars f (s @ t) = s @ replaceDollars f t"
  by (induction s) (auto simp: replaceDollars.simps(2))

lemma foldl_digits:
  "foldl (\<lambda>n d. 10 * n + (of_char d - 48)) (0 :: nat) (map char_of (showNat n)) = n"
proof (induction n rule: showNat.induct)
  case (1 n)
  show ?case
  proof (cases "n < 10")
    case True
    then show ?thesis by (subst showNat.simps) simp
  next
    case False
    then show ?thesis using 1 by (subst showNat.simps) (simp add: foldl_append)
  qed
qed

lemma digits_showNat: "c \<in> set (map char_of (showNat n)) \<Longrightarrow> isDigitChar c"
proof -
  assume "c \<in> set (map char_of (showNat n))"
  then obtain r where r: "r \<in> set (showNat n)" "c = char_of r" by auto
  then have "IsInt r" using showNat_digits by blast
  then show ?thesis using r(2) by (simp add: IsInt_def isDigitChar_def)
qed

definition noDigit :: "string \<Rightarrow> bool" where "noDigit t \<longleftrightarrow> t = [] \<or> \<not> isDigitChar (hd t)"

lemma replaceDollars_placeholder:
  assumes "noDigit t"
  shows "replaceDollars f (placeholderText n @ t) = f n @ replaceDollars f t"
proof -
  let ?ds = "map char_of (showNat n) :: string"
  have t: "takeWhile isDigitChar t = []" "dropWhile isDigitChar t = t" using assms by (cases t; simp add: noDigit_def)+
  have "takeWhile isDigitChar (?ds @ t) = ?ds" using digits_showNat [of _ n] t
    by (subst takeWhile_append2) auto
  moreover have "dropWhile isDigitChar (?ds @ t) = t" using digits_showNat [of _ n] t
    by (subst dropWhile_append2) auto
  moreover have "?ds \<noteq> []" by simp
  ultimately show ?thesis by (simp add: placeholderText_def replaceDollars.simps(2) foldl_digits)
qed

definition replacesTo :: "(nat \<Rightarrow> string) \<Rightarrow> string \<Rightarrow> string \<Rightarrow> bool" where
  "replacesTo f s s' \<longleftrightarrow> (\<forall>t. noDigit t \<longrightarrow> replaceDollars f (s @ t) = s' @ replaceDollars f t)"

lemma replacesTo_placeholder: "replacesTo f (placeholderText n) (f n)"
  by (simp add: replacesTo_def replaceDollars_placeholder)

lemma replacesTo_plain: "CHR ''$'' \<notin> set s \<Longrightarrow> replacesTo f s s"
  by (simp add: replacesTo_def replaceDollars_plain)

lemma replacesTo_append:
  "replacesTo f a a' \<Longrightarrow> replacesTo f b b' \<Longrightarrow> b \<noteq> [] \<Longrightarrow> noDigit b \<Longrightarrow> replacesTo f (a @ b) (a' @ b')"
  by (auto simp: replacesTo_def noDigit_def)

lemma replacesTo_join:
  assumes "xs \<noteq> []" "\<forall>x \<in> set xs. replacesTo f (g x) (h x)" "CHR ''$'' \<notin> set sep" "sep \<noteq> []" "noDigit sep"
  shows "replacesTo f (joinTexts (map g xs) sep) (joinTexts (map h xs) sep)"
  using assms(1,2)
proof (induction xs rule: induct_list012)
  case (3 x y zs)
  have "noDigit (sep @ t)" for t using assms(4,5) by (cases sep) (auto simp: noDigit_def)
  then show ?case using 3 replaceDollars_plain [OF assms(3)] by (simp add: replacesTo_def)
qed simp_all

definition clauseFull :: "sql_clause \<Rightarrow> bool" where
  "clauseFull c \<longleftrightarrow> (case c of ClIn col ns \<Rightarrow> ns \<noteq> [] | ClFiles nss \<Rightarrow> nss \<noteq> [] \<and> [] \<notin> set nss
     | ClLanguages ns \<Rightarrow> ns \<noteq> [] | ClRefs ts \<Rightarrow> ts \<noteq> [] | _ \<Rightarrow> True)"

lemma replacesTo_list:
  "ns \<noteq> [] \<Longrightarrow> replacesTo (\<lambda>n. placeholderText (f n)) (joinTexts (map placeholderText ns) '', '')
     (joinTexts (map placeholderText (map f ns)) '', '')"
proof -
  let ?f = "\<lambda>n. placeholderText (f n)"
  assume "ns \<noteq> []"
  moreover have "\<forall>n \<in> set ns. replacesTo ?f (placeholderText n) (?f n)" by (intro ballI replacesTo_placeholder)
  ultimately show ?thesis
    using replacesTo_join [of ns ?f placeholderText ?f "'', ''"] by (simp add: noDigit_def isDigitChar_def comp_def)
qed

text \<open>A list between two texts without placeholders.\<close>

lemma replacesTo_between:
  assumes "replacesTo f m m'" "CHR ''$'' \<notin> set a" "CHR ''$'' \<notin> set b" "b \<noteq> []" "noDigit b"
  shows "replacesTo f (a @ m @ b) (a @ m' @ b)"
proof -
  have "noDigit (b @ t)" for t using assms(4,5) by (cases b) (auto simp: noDigit_def)
  then show ?thesis using assms(1) replaceDollars_plain [OF assms(2)] replaceDollars_plain [OF assms(3)]
    by (simp add: replacesTo_def)
qed

lemma replacesTo_files:
  "ns \<noteq> [] \<Longrightarrow> replacesTo (\<lambda>n. placeholderText (f n)) (filesText ns) (filesText (map f ns))"
  unfolding filesText_def by (intro replacesTo_between replacesTo_list) (simp_all add: noDigit_def isDigitChar_def)

lemma replacesTo_tuple:
  "replacesTo (\<lambda>n. placeholderText (f n)) (tupleText t) (tupleText (case t of (i, j, k) \<Rightarrow> (f i, f j, f k)))"
proof (cases t)
  case (fields i j k)
  show ?thesis using replacesTo_between [OF replacesTo_list [of "[i, j, k]" f], of "''(''" "'')''"]
    by (simp add: fields tupleText_def noDigit_def isDigitChar_def)
qed

lemma replaceDollars_clause:
  assumes "clauseFull c"
  shows "replaceDollars (\<lambda>n. placeholderText (f n)) (clauseText c) = clauseText (mapClause f c)"
proof -
  let ?f = "\<lambda>n. placeholderText (f n)"
  have "replacesTo ?f (clauseText c) (clauseText (mapClause f c))"
  proof (cases c)
    case (ClTsv n)
    show ?thesis unfolding ClTsv clauseText.simps mapClause.simps
      by (intro replacesTo_between replacesTo_placeholder) (simp_all add: noDigit_def isDigitChar_def)
  next
    case (ClIn col ns)
    have "CHR ''$'' \<notin> set (columnText col)" by (cases col) simp_all
    then have "replacesTo ?f ((columnText col @ '' IN ('') @ joinTexts (map placeholderText ns) '', '' @ '')'')
        ((columnText col @ '' IN ('') @ joinTexts (map placeholderText (map f ns)) '', '' @ '')'')"
      using assms by (intro replacesTo_between replacesTo_list) (simp_all add: ClIn clauseFull_def noDigit_def isDigitChar_def)
    then show ?thesis by (simp add: ClIn)
  next
    case (ClFiles nss)
    have "replacesTo ?f (joinTexts (map filesText nss) '' OR '') (joinTexts (map (\<lambda>ns. filesText (map f ns)) nss) '' OR '')"
      using assms by (intro replacesTo_join) (auto simp: ClFiles clauseFull_def noDigit_def isDigitChar_def intro!: replacesTo_files)
    then show ?thesis unfolding ClFiles clauseText.simps mapClause.simps map_map comp_def
      by (intro replacesTo_between) (simp_all add: noDigit_def isDigitChar_def)
  next
    case (ClLanguages ns)
    show ?thesis unfolding ClLanguages clauseText.simps mapClause.simps using assms
      by (intro replacesTo_between replacesTo_list) (simp_all add: ClLanguages clauseFull_def noDigit_def isDigitChar_def)
  next
    case (ClRefs ts)
    have "replacesTo ?f (joinTexts (map tupleText ts) '', '')
        (joinTexts (map (\<lambda>t. tupleText (case t of (i, j, k) \<Rightarrow> (f i, f j, f k))) ts) '', '')"
      using assms by (intro replacesTo_join ballI replacesTo_tuple) (simp_all add: ClRefs clauseFull_def noDigit_def isDigitChar_def)
    then show ?thesis unfolding ClRefs clauseText.simps mapClause.simps map_map comp_def
      by (intro replacesTo_between) (simp_all add: noDigit_def isDigitChar_def)
  next
    case (ClBefore n)
    show ?thesis unfolding ClBefore clauseText.simps mapClause.simps
      by (intro replacesTo_between replacesTo_placeholder) (simp_all add: noDigit_def isDigitChar_def)
  qed
  then have "replaceDollars ?f (clauseText c @ []) = clauseText (mapClause f c) @ replaceDollars ?f []"
    unfolding replacesTo_def using noDigit_def by blast
  then show ?thesis by simp
qed

section \<open>Statements\<close>

datatype order_key = OrdRank nat | OrdField search_field

fun keyText :: "order_key \<Rightarrow> string" where
  "keyText (OrdRank n) = ''ts_rank(t.tsv, '' @ placeholderText n @ ''::tsquery)''"
| "keyText (OrdField FieldUpdatedAt) = ''t.updated_at''"
| "keyText (OrdField FieldSize) = ''t.size''"
| "keyText (OrdField FieldFilesCount) = ''COALESCE(t.files_count, 0)''"
| "keyText (OrdField FieldSeeders) = ''COALESCE(s.seeders, -1)''"
| "keyText (OrdField FieldLeechers) = ''COALESCE(s.leechers, -1)''"
| "keyText (OrdField FieldName) = ''t.name''"
| "keyText (OrdField FieldInfoHash) = ''t.info_hash''"
| "keyText (OrdField _) = ''t.created_at''"

fun directionText :: "sort_direction \<Rightarrow> string" where
  "directionText SortAsc = ''ASC''"
| "directionText SortDesc = ''DESC''"

definition orderByText :: "(order_key \<times> sort_direction) list \<Rightarrow> string" where
  "orderByText os = ''ORDER BY '' @ joinTexts (map (\<lambda>(k, d). keyText k @ '' '' @ directionText d) os) '', ''"

type_synonym order_build = "(order_key \<times> sort_direction) list \<times> sql_arg list \<times> nat"

definition orderKeyFor :: "(runes \<Rightarrow> runes) \<Rightarrow> torrent_search_params \<Rightarrow> search_field \<Rightarrow> sql_arg list \<Rightarrow> nat \<Rightarrow> order_key \<times> sql_arg list \<times> nat" where
  "orderKeyFor tsq p field args argIdx =
     (if field = FieldRelevance then
        (if ts_QueryString p \<noteq> [] then (OrdRank argIdx, args @ [AText (tsq (ts_QueryString p))], argIdx + 1)
         else (OrdField FieldCreatedAt, args, argIdx))
      else (OrdField field, args, argIdx))"

fun orderLoop :: "(runes \<Rightarrow> runes) \<Rightarrow> torrent_search_params \<Rightarrow> (search_field \<times> sort_direction) list \<Rightarrow> sql_arg list \<Rightarrow> nat \<Rightarrow> order_build" where
  "orderLoop tsq p [] args argIdx = ([], args, argIdx)"
| "orderLoop tsq p ((field, dir) # rest) args argIdx =
     (let (key, args1, argIdx1) = orderKeyFor tsq p field args argIdx;
          (os, args2, argIdx2) = orderLoop tsq p rest args1 argIdx1 in
      ((key, dir) # (if rest = [] then [(OrdField FieldInfoHash, dir)] else []) @ os, args2, argIdx2))"

definition defaultTorrentContentOrderBy :: "(runes \<Rightarrow> runes) \<Rightarrow> torrent_search_params \<Rightarrow> sql_arg list \<Rightarrow> nat \<Rightarrow> order_build" where
  "defaultTorrentContentOrderBy tsq p args argIdx =
     (if ts_QueryString p \<noteq> []
      then ([(OrdRank argIdx, SortDesc), (OrdField FieldInfoHash, SortDesc)], args @ [AText (tsq (ts_QueryString p))], argIdx + 1)
      else ([(OrdField FieldCreatedAt, SortDesc), (OrdField FieldInfoHash, SortDesc)], args, argIdx))"

definition buildTorrentContentOrderBy :: "(runes \<Rightarrow> runes) \<Rightarrow> torrent_search_params \<Rightarrow> sql_arg list \<Rightarrow> nat \<Rightarrow> order_build" where
  "buildTorrentContentOrderBy tsq p args argIdx =
     (if ts_OrderBy p = [] then defaultTorrentContentOrderBy tsq p args argIdx
      else (let r = orderLoop tsq p (ts_OrderBy p) args argIdx in
        if fst r = [] then defaultTorrentContentOrderBy tsq p args argIdx else r))"

datatype search_facet = FacetContentType | FacetFileType | FacetLanguage | FacetReleaseYear

datatype sql_select = SelectPage | SelectCount | SelectExists | SelectFacet search_facet

record sql_statement =
  sq_select :: sql_select
  sq_where :: "sql_clause list"
  sq_order :: "(order_key \<times> sort_direction) list"
  sq_limit :: "nat option"
  sq_offset :: "nat option"
  sq_args :: "sql_arg list"

text \<open>A facet over a column joins the content when the text of the column names it.\<close>

definition containsText :: "string \<Rightarrow> string \<Rightarrow> bool" where
  "containsText s part = list_ex (prefix part) (suffixes s)"

fun facetColumn :: "search_facet \<Rightarrow> sql_column" where
  "facetColumn FacetReleaseYear = ColReleaseYear"
| "facetColumn _ = ColContentType"

fun joinsContent :: "sql_select \<Rightarrow> bool" where
  "joinsContent (SelectFacet FacetFileType) = False"
| "joinsContent (SelectFacet FacetLanguage) = False"
| "joinsContent (SelectFacet f) = containsText (columnText (facetColumn f)) ''c.''"
| "joinsContent _ = True"

definition joinsSeeders :: "sql_select \<Rightarrow> bool" where
  "joinsSeeders sel \<longleftrightarrow> sel = SelectPage \<or> sel = SelectExists"

text \<open>The texts after \<open>FROM\<close>; white space is one blank.\<close>

definition fromText :: "sql_select \<Rightarrow> string" where
  "fromText sel = ''torrents t'' @
     (if joinsContent sel then '' LEFT JOIN content c ON t.content_type = c.type AND t.content_source = c.source AND t.content_id = c.id'' else []) @
     (if joinsSeeders sel then '' LEFT JOIN torrent_seeders s ON s.info_hash = t.info_hash'' else [])"

definition whereText :: "sql_clause list \<Rightarrow> string" where
  "whereText cs = (if cs = [] then [] else ''WHERE '' @ joinTexts (map clauseText cs) '' AND '')"

record torrent_content_query =
  qq_query :: sql_statement
  qq_countQuery :: "sql_statement option"
  qq_hasNextQuery :: "sql_statement option"

definition pageLimit :: "torrent_search_params \<Rightarrow> int" where
  "pageLimit p = (let limit = ClampInt32 (ts_Limit p) in if limit \<le> 0 then 10 else limit)"

definition buildTorrentContentQueries :: "(runes \<Rightarrow> runes) \<Rightarrow> torrent_search_params \<Rightarrow> sql_clause list \<Rightarrow> sql_arg list \<Rightarrow> nat \<Rightarrow> int \<Rightarrow> torrent_content_query" where
  "buildTorrentContentQueries tsq p whereClause whereArgs inputArgIdx offset =
     (let (orderBy, args, argIdx) = buildTorrentContentOrderBy tsq p whereArgs inputArgIdx;
          limit = pageLimit p;
          args' = args @ [AInt limit, AInt offset] in
      \<lparr>qq_query = \<lparr>sq_select = SelectPage, sq_where = whereClause, sq_order = orderBy, sq_limit = Some argIdx,
         sq_offset = Some (argIdx + 1), sq_args = args'\<rparr>,
       qq_countQuery = (if ts_TotalCount p
         then Some \<lparr>sq_select = SelectCount, sq_where = whereClause, sq_order = [], sq_limit = None, sq_offset = None,
           sq_args = take (length whereArgs) args'\<rparr> else None),
       qq_hasNextQuery = (if ts_HasNextPage p
         then Some \<lparr>sq_select = SelectExists, sq_where = whereClause, sq_order = orderBy, sq_limit = None,
           sq_offset = Some argIdx, sq_args = take (length args' - 2) args' @ [AInt (int32 (offset + limit))]\<rparr> else None)\<rparr>)"

definition facetStatement :: "sql_clause list \<Rightarrow> sql_arg list \<Rightarrow> search_facet \<Rightarrow> sql_statement" where
  "facetStatement cs args f =
     \<lparr>sq_select = SelectFacet f, sq_where = cs, sq_order = [], sq_limit = None, sq_offset = None, sq_args = args\<rparr>"

text \<open>The facets that are asked for, in the order of \<open>computeTorrentContentFacets\<close>.\<close>

definition facetsAsked :: "facet_config \<Rightarrow> search_facet list" where
  "facetsAsked fc = (if fa_ContentType fc then [FacetContentType] else []) @ (if fa_FileType fc then [FacetFileType] else []) @
     (if fa_Language fc then [FacetLanguage] else []) @ (if fa_ReleaseYear fc then [FacetReleaseYear] else [])"

section \<open>The database\<close>

record search_doc =
  sd_info_hash :: runes
  sd_type :: "runes option"
  sd_source :: "runes option"
  sd_id :: "runes option"
  sd_year :: "int option"
  sd_languages :: "runes list"
  sd_exts :: "runes list"
  sd_created :: int
  sd_updated :: int
  sd_size :: int
  sd_files_count :: "int option"
  sd_seeders :: "int option"
  sd_leechers :: "int option"
  sd_name :: runes

record sql_env =
  se_tsquery :: "runes \<Rightarrow> runes option"
  se_matches :: "runes \<Rightarrow> search_doc \<Rightarrow> bool"
  se_rank :: "runes \<Rightarrow> search_doc \<Rightarrow> int"
  se_less :: "runes \<Rightarrow> runes \<Rightarrow> bool"
  se_time :: "string \<Rightarrow> int option"
  se_format :: "int \<Rightarrow> string"

definition argAt :: "sql_arg list \<Rightarrow> nat \<Rightarrow> sql_arg" where
  "argAt args n = args ! (n - 1)"

definition argText :: "sql_arg \<Rightarrow> runes" where
  "argText a = (case a of AText t \<Rightarrow> t | ABytes s \<Rightarrow> runes_of s | AInt i \<Rightarrow> showInt i)"

definition argTime :: "sql_env \<Rightarrow> sql_arg \<Rightarrow> int option" where
  "argTime se a = (case a of ABytes s \<Rightarrow> se_time se s | _ \<Rightarrow> None)"

definition argInt :: "sql_arg \<Rightarrow> int" where
  "argInt a = (case a of AInt i \<Rightarrow> i | _ \<Rightarrow> 0)"

fun columnValue :: "sql_column \<Rightarrow> search_doc \<Rightarrow> sql_arg option" where
  "columnValue ColInfoHash d = Some (AText (sd_info_hash d))"
| "columnValue ColContentType d = map_option AText (sd_type d)"
| "columnValue ColReleaseYear d = map_option AInt (sd_year d)"

definition docRef :: "search_doc \<Rightarrow> (runes \<times> runes \<times> runes) option" where
  "docRef d = (case (sd_type d, sd_source d, sd_id d) of (Some t, Some s, Some i) \<Rightarrow> Some (t, s, i) | _ \<Rightarrow> None)"

fun clauseHolds :: "sql_env \<Rightarrow> sql_arg list \<Rightarrow> search_doc \<Rightarrow> sql_clause \<Rightarrow> bool" where
  "clauseHolds se args d (ClTsv n) = se_matches se (argText (argAt args n)) d"
| "clauseHolds se args d (ClIn col ns) = (case columnValue col d of None \<Rightarrow> False | Some v \<Rightarrow> v \<in> argAt args ` set ns)"
| "clauseHolds se args d (ClFiles nss) = (\<exists>ns \<in> set nss. \<exists>e \<in> set (sd_exts d). AText e \<in> argAt args ` set ns)"
| "clauseHolds se args d (ClLanguages ns) = (\<exists>l \<in> set (sd_languages d). AText l \<in> argAt args ` set ns)"
| "clauseHolds se args d (ClRefs ts) = (case docRef d of None \<Rightarrow> False | Some (t, s, i) \<Rightarrow>
     (AText t, AText s, AText i) \<in> (\<lambda>(x, y, z). (argAt args x, argAt args y, argAt args z)) ` set ts)"
| "clauseHolds se args d (ClBefore n) = (case argTime se (argAt args n) of None \<Rightarrow> False | Some t \<Rightarrow> sd_created d \<le> t)"

fun keyLess :: "sql_env \<Rightarrow> sql_arg list \<Rightarrow> order_key \<Rightarrow> search_doc \<Rightarrow> search_doc \<Rightarrow> bool" where
  "keyLess se args (OrdRank n) a b = (se_rank se (argText (argAt args n)) a < se_rank se (argText (argAt args n)) b)"
| "keyLess se args (OrdField FieldUpdatedAt) a b = (sd_updated a < sd_updated b)"
| "keyLess se args (OrdField FieldSize) a b = (sd_size a < sd_size b)"
| "keyLess se args (OrdField FieldFilesCount) a b = ((case sd_files_count a of None \<Rightarrow> 0 | Some n \<Rightarrow> n) < (case sd_files_count b of None \<Rightarrow> 0 | Some n \<Rightarrow> n))"
| "keyLess se args (OrdField FieldSeeders) a b = ((case sd_seeders a of None \<Rightarrow> - 1 | Some n \<Rightarrow> n) < (case sd_seeders b of None \<Rightarrow> - 1 | Some n \<Rightarrow> n))"
| "keyLess se args (OrdField FieldLeechers) a b = ((case sd_leechers a of None \<Rightarrow> - 1 | Some n \<Rightarrow> n) < (case sd_leechers b of None \<Rightarrow> - 1 | Some n \<Rightarrow> n))"
| "keyLess se args (OrdField FieldName) a b = se_less se (sd_name a) (sd_name b)"
| "keyLess se args (OrdField FieldInfoHash) a b = se_less se (sd_info_hash a) (sd_info_hash b)"
| "keyLess se args (OrdField _) a b = (sd_created a < sd_created b)"

fun docBefore :: "sql_env \<Rightarrow> sql_arg list \<Rightarrow> (order_key \<times> sort_direction) list \<Rightarrow> search_doc \<Rightarrow> search_doc \<Rightarrow> bool" where
  "docBefore se args [] a b = True"
| "docBefore se args ((k, dir) # os) a b =
     (if (if dir = SortAsc then keyLess se args k a b else keyLess se args k b a) then True
      else if (if dir = SortAsc then keyLess se args k b a else keyLess se args k a b) then False
      else docBefore se args os a b)"

fun insertDoc :: "(search_doc \<Rightarrow> search_doc \<Rightarrow> bool) \<Rightarrow> search_doc \<Rightarrow> search_doc list \<Rightarrow> search_doc list" where
  "insertDoc le d [] = [d]"
| "insertDoc le d (x # xs) = (if le d x then d # x # xs else x # insertDoc le d xs)"

definition sortDocs :: "(search_doc \<Rightarrow> search_doc \<Rightarrow> bool) \<Rightarrow> search_doc list \<Rightarrow> search_doc list" where
  "sortDocs le ds = foldr (insertDoc le) ds []"

fun facetValues :: "search_facet \<Rightarrow> search_doc \<Rightarrow> runes option list" where
  "facetValues FacetContentType d = [sd_type d]"
| "facetValues FacetReleaseYear d = [map_option showInt (sd_year d)]"
| "facetValues FacetLanguage d = (if sd_languages d = [] then [None] else map Some (sd_languages d))"
| "facetValues FacetFileType d = map (\<lambda>p. Some (runes_of (snd p)))
     (filter (\<lambda>p. list_ex (\<lambda>e. e \<in> set (map runes_of (fileTypeExtensions (fst p)))) (sd_exts d)) fileTypeNames)"

datatype sql_error = SqlParameters | SqlMissingTable | SqlTimestamp | SqlNegative

datatype sql_rows = RowsDocs "search_doc list" | RowsCount nat | RowsExists bool | RowsGroups "(runes option \<times> nat) list"

fun clauseNumbers :: "sql_clause \<Rightarrow> nat list" where
  "clauseNumbers (ClTsv n) = [n]"
| "clauseNumbers (ClIn col ns) = ns"
| "clauseNumbers (ClFiles nss) = concat nss"
| "clauseNumbers (ClLanguages ns) = ns"
| "clauseNumbers (ClRefs ts) = concat (map (\<lambda>(i, j, k). [i, j, k]) ts)"
| "clauseNumbers (ClBefore n) = [n]"

fun keyNumbers :: "order_key \<Rightarrow> nat list" where
  "keyNumbers (OrdRank n) = [n]"
| "keyNumbers (OrdField f) = []"

definition optionList :: "'a option \<Rightarrow> 'a list" where
  "optionList o' = (case o' of None \<Rightarrow> [] | Some x \<Rightarrow> [x])"

definition statementNumbers :: "sql_statement \<Rightarrow> nat list" where
  "statementNumbers st = concat (map clauseNumbers (sq_where st)) @ concat (map (keyNumbers \<circ> fst) (sq_order st)) @
     optionList (sq_limit st) @ optionList (sq_offset st)"

definition usesContent :: "sql_statement \<Rightarrow> bool" where
  "usesContent st \<longleftrightarrow> list_ex (\<lambda>c. case c of ClIn col ns \<Rightarrow> col = ColReleaseYear | _ \<Rightarrow> False) (sq_where st)"

definition usesSeeders :: "sql_statement \<Rightarrow> bool" where
  "usesSeeders st \<longleftrightarrow> list_ex (\<lambda>o'. fst o' \<in> {OrdField FieldSeeders, OrdField FieldLeechers}) (sq_order st)"

definition checkStatement :: "sql_env \<Rightarrow> sql_statement \<Rightarrow> sql_error option" where
  "checkStatement se st =
     (if set (statementNumbers st) \<noteq> set [1..<Suc (length (sq_args st))] then Some SqlParameters
      else if usesContent st \<and> \<not> joinsContent (sq_select st) \<or> usesSeeders st \<and> \<not> joinsSeeders (sq_select st)
        then Some SqlMissingTable
      else if list_ex (\<lambda>c. case c of ClBefore n \<Rightarrow> argTime se (argAt (sq_args st) n) = None | _ \<Rightarrow> False) (sq_where st)
        then Some SqlTimestamp
      else if list_ex (\<lambda>n. argInt (argAt (sq_args st) n) < 0) (optionList (sq_limit st) @ optionList (sq_offset st))
        then Some SqlNegative
      else None)"

definition foundDocs :: "sql_env \<Rightarrow> search_doc list \<Rightarrow> sql_statement \<Rightarrow> search_doc list" where
  "foundDocs se docs st = filter (\<lambda>d. list_all (clauseHolds se (sq_args st) d) (sq_where st)) docs"

definition skipped :: "sql_statement \<Rightarrow> 'a list \<Rightarrow> 'a list" where
  "skipped st xs = (case sq_offset st of None \<Rightarrow> xs | Some n \<Rightarrow> drop (nat (argInt (argAt (sq_args st) n))) xs)"

definition limited :: "sql_statement \<Rightarrow> 'a list \<Rightarrow> 'a list" where
  "limited st xs = (case sq_limit st of None \<Rightarrow> xs | Some n \<Rightarrow> take (nat (argInt (argAt (sq_args st) n))) xs)"

definition execStatement :: "sql_env \<Rightarrow> search_doc list \<Rightarrow> sql_statement \<Rightarrow> sql_error + sql_rows" where
  "execStatement se docs st = (case checkStatement se st of Some e \<Rightarrow> Inl e | None \<Rightarrow>
     (let found = foundDocs se docs st in
      Inr (case sq_select st of
          SelectPage \<Rightarrow> RowsDocs (limited st (skipped st (sortDocs (docBefore se (sq_args st) (sq_order st)) found)))
        | SelectCount \<Rightarrow> RowsCount (length found)
        | SelectExists \<Rightarrow> RowsExists (skipped st found \<noteq> [])
        | SelectFacet f \<Rightarrow> (let vs = concat (map (facetValues f) found) in
            RowsGroups (map (\<lambda>v. (v, count_list vs v)) (remdups vs))))))"

section \<open>The search\<close>

record torrent_search_result =
  tr_Items :: "search_doc list"
  tr_TotalCount :: nat
  tr_HasNextPage :: bool
  tr_Barrier :: string
  tr_Aggregations :: "(search_facet \<times> (runes \<times> nat) list) list"

text \<open>A barrier that cannot be decoded is taken as it is; without one the search ends two seconds ago.\<close>

definition resolveBarrier :: "sql_env \<Rightarrow> int \<Rightarrow> torrent_search_params \<Rightarrow> torrent_search_params" where
  "resolveBarrier se now p =
     (let b0 = (if ts_Barrier p \<noteq> [] then (case DecodeBarrier (ts_Barrier p) of Some d \<Rightarrow> d | None \<Rightarrow> ts_Barrier p) else []);
          b1 = (if b0 = [] then se_format se (now - 2000000000) else b0) in
      p\<lparr>ts_Barrier := b1\<rparr>)"

definition queryFacet :: "sql_env \<Rightarrow> search_doc list \<Rightarrow> sql_statement \<Rightarrow> sql_error + (runes \<times> nat) list" where
  "queryFacet se docs st = bind_sum (execStatement se docs st) (\<lambda>r. Inr (case r of
     RowsGroups gs \<Rightarrow> List.map_filter (\<lambda>(v, n). map_option (\<lambda>w. (w, n)) v) gs | _ \<Rightarrow> []))"

fun computeFacets :: "sql_env \<Rightarrow> search_doc list \<Rightarrow> sql_clause list \<Rightarrow> sql_arg list \<Rightarrow> search_facet list \<Rightarrow>
    sql_error + (search_facet \<times> (runes \<times> nat) list) list" where
  "computeFacets se docs cs args [] = Inr []"
| "computeFacets se docs cs args (f # fs) = bind_sum (queryFacet se docs (facetStatement cs args f)) (\<lambda>bucket.
     bind_sum (computeFacets se docs cs args fs) (\<lambda>rest. Inr ((f, bucket) # rest)))"

definition computeTorrentContentFacets :: "sql_env \<Rightarrow> search_doc list \<Rightarrow> sql_clause list \<Rightarrow> sql_arg list \<Rightarrow> torrent_search_params \<Rightarrow>
    sql_error + (search_facet \<times> (runes \<times> nat) list) list" where
  "computeTorrentContentFacets se docs cs args p = computeFacets se docs cs args (facetsAsked (ts_FacetAggregate p))"

definition tsqueryOrEmpty :: "sql_env \<Rightarrow> runes \<Rightarrow> runes" where
  "tsqueryOrEmpty se s = (case se_tsquery se s of Some q \<Rightarrow> q | None \<Rightarrow> [])"

definition pageItems :: "sql_env \<Rightarrow> search_doc list \<Rightarrow> sql_statement \<Rightarrow> sql_error + search_doc list" where
  "pageItems se docs st = bind_sum (execStatement se docs st) (\<lambda>r. Inr (case r of RowsDocs ds \<Rightarrow> ds | _ \<Rightarrow> []))"

definition countItems :: "sql_env \<Rightarrow> search_doc list \<Rightarrow> sql_statement option \<Rightarrow> sql_error + nat" where
  "countItems se docs st = (case st of None \<Rightarrow> Inr 0
     | Some st' \<Rightarrow> bind_sum (execStatement se docs st') (\<lambda>r. Inr (case r of RowsCount n \<Rightarrow> n | _ \<Rightarrow> 0)))"

text \<open>An error of this statement is passed over.\<close>

definition nextExists :: "sql_env \<Rightarrow> search_doc list \<Rightarrow> sql_statement option \<Rightarrow> search_doc list \<Rightarrow> bool" where
  "nextExists se docs st items = (case st of None \<Rightarrow> False
     | Some st' \<Rightarrow> items \<noteq> [] \<and> (case execStatement se docs st' of Inr (RowsExists b) \<Rightarrow> b | _ \<Rightarrow> False))"

definition runSearch :: "sql_env \<Rightarrow> search_doc list \<Rightarrow> torrent_search_params \<Rightarrow> sql_error + torrent_search_result" where
  "runSearch se docs p =
     (let tsq = tsqueryOrEmpty se; b = buildWhere tsq p; (facetWhere, facetArgs) = facetBuild tsq p;
          q = buildTorrentContentQueries tsq p (sb_where b) (sb_args b) (sb_argIdx b) (ClampInt32 (ts_Offset p)) in
      bind_sum (pageItems se docs (qq_query q)) (\<lambda>items.
      bind_sum (countItems se docs (qq_countQuery q)) (\<lambda>count.
      bind_sum (computeTorrentContentFacets se docs facetWhere facetArgs p) (\<lambda>aggs.
      Inr \<lparr>tr_Items = items, tr_TotalCount = count, tr_HasNextPage = nextExists se docs (qq_hasNextQuery q) items,
        tr_Barrier = EncodeBarrier (ts_Barrier p), tr_Aggregations = aggs\<rparr>))))"

definition pg_TorrentSearch :: "sql_env \<Rightarrow> int \<Rightarrow> search_doc list \<Rightarrow> torrent_search_params \<Rightarrow> (sql_error + torrent_search_result) option" where
  "pg_TorrentSearch se now docs p =
     (if ts_QueryString p \<noteq> [] \<and> se_tsquery se (ts_QueryString p) = None then None
      else Some (runSearch se docs (resolveBarrier se now p)))"

text \<open>The statements that a search sends.\<close>

definition searchStatements :: "(runes \<Rightarrow> runes) \<Rightarrow> torrent_search_params \<Rightarrow> sql_statement list" where
  "searchStatements tsq p =
     (let b = buildWhere tsq p; (facetWhere, facetArgs) = facetBuild tsq p;
          q = buildTorrentContentQueries tsq p (sb_where b) (sb_args b) (sb_argIdx b) (ClampInt32 (ts_Offset p)) in
      [qq_query q] @ optionList (qq_countQuery q) @ optionList (qq_hasNextQuery q) @
      map (facetStatement facetWhere facetArgs) (facetsAsked (ts_FacetAggregate p)))"

text \<open>Text searches go to Elasticsearch where it is used.\<close>

definition router_TorrentSearch :: "(torrent_search_params \<Rightarrow> 'r) \<Rightarrow> (torrent_search_params \<Rightarrow> 'r) \<Rightarrow> torrent_search_params \<Rightarrow> 'r" where
  "router_TorrentSearch es pg p = (if ts_QueryString p \<noteq> [] then es p else pg p)"

section \<open>What a build adds\<close>

text \<open>A step adds conditions whose numbers start at the next one, and arguments; its conditions hold of a
  torrent exactly when \<open>P\<close> does, whatever arguments are before and after its own.\<close>

definition adds :: "sql_env \<Rightarrow> (sql_build \<Rightarrow> sql_build) \<Rightarrow> (nat \<Rightarrow> sql_clause list) \<Rightarrow> sql_arg list \<Rightarrow> (search_doc \<Rightarrow> bool) \<Rightarrow> bool" where
  "adds se f W X P \<longleftrightarrow>
     (\<forall>b. f b = b\<lparr>sb_where := sb_where b @ W (sb_argIdx b), sb_args := sb_args b @ X, sb_argIdx := sb_argIdx b + length X\<rparr>) \<and>
     (\<forall>n k. W (n + k) = map (mapClause (\<lambda>i. i + k)) (W n)) \<and>
     (\<forall>n. concat (map clauseNumbers (W n)) = [n..<n + length X]) \<and> (\<forall>n. \<forall>c \<in> set (W n). clauseFull c) \<and>
     (\<forall>pre ext d. list_all (clauseHolds se (pre @ X @ ext) d) (W (Suc (length pre))) \<longleftrightarrow> P d)"

lemma adds_comp:
  assumes "adds se f W X P" "adds se g V Y Q"
  shows "adds se (\<lambda>b. g (f b)) (\<lambda>n. W n @ V (n + length X)) (X @ Y) (\<lambda>d. P d \<and> Q d)"
  unfolding adds_def
proof (intro conjI allI)
  fix b show "g (f b) = b\<lparr>sb_where := sb_where b @ W (sb_argIdx b) @ V (sb_argIdx b + length X), sb_args := sb_args b @ X @ Y,
      sb_argIdx := sb_argIdx b + length (X @ Y)\<rparr>"
    using assms by (simp add: adds_def)
next
  fix n k
  have "V (n + k + length X) = V ((n + length X) + k)" by (simp add: add.commute add.left_commute)
  also have "\<dots> = map (mapClause (\<lambda>i. i + k)) (V (n + length X))" using assms(2) unfolding adds_def by blast
  finally show "W (n + k) @ V (n + k + length X) = map (mapClause (\<lambda>i. i + k)) (W n @ V (n + length X))"
    using assms(1) by (simp add: adds_def)
next
  fix n show "concat (map clauseNumbers (W n @ V (n + length X))) = [n..<n + length (X @ Y)]"
  proof -
    have "concat (map clauseNumbers (W n)) = [n..<n + length X]" using assms(1) unfolding adds_def by blast
    moreover have "concat (map clauseNumbers (V (n + length X))) = [n + length X..<n + length X + length Y]"
      using assms(2) unfolding adds_def by blast
    moreover have "[n..<n + length (X @ Y)] = [n..<n + length X] @ [n + length X..<n + length X + length Y]"
      using upt_add_eq_append [of n "n + length X" "length Y"] by (simp add: add.assoc)
    ultimately show ?thesis by simp
  qed
next
  fix n show "\<forall>c \<in> set (W n @ V (n + length X)). clauseFull c" using assms unfolding adds_def set_append by blast
next
  fix pre ext d
  have "list_all (clauseHolds se (pre @ X @ (Y @ ext)) d) (W (Suc (length pre))) \<longleftrightarrow> P d"
    using assms(1) unfolding adds_def by blast
  moreover have "list_all (clauseHolds se ((pre @ X) @ Y @ ext) d) (V (Suc (length (pre @ X)))) \<longleftrightarrow> Q d"
    using assms(2) unfolding adds_def by blast
  ultimately show "list_all (clauseHolds se (pre @ (X @ Y) @ ext) d) (W (Suc (length pre)) @ V (Suc (length pre) + length X)) \<longleftrightarrow> P d \<and> Q d"
    by simp
qed

lemma adds_nothing: "adds se (\<lambda>b. b) (\<lambda>n. []) [] (\<lambda>d. True)"
  by (simp add: adds_def)

lemma placeholderLoop_eq:
  "placeholderLoop items b = ([sb_argIdx b..<sb_argIdx b + length items],
     b\<lparr>sb_args := sb_args b @ items, sb_argIdx := sb_argIdx b + length items\<rparr>)"
  by (induction items arbitrary: b) (simp_all add: Let_def upt_conv_Cons del: upt_Suc)

lemma map_shift_upt: "map (\<lambda>i. i + k) [a..<b] = [a + k..<b + (k :: nat)]"
  by (induction b) auto

lemma map_shift_len: "map (\<lambda>i. i + k) [n..<n + l] = [n + k..<n + k + (l :: nat)]"
  using map_shift_upt [of k n "n + l"] by (simp add: add.assoc add.commute [of l])

lemma argAt_range:
  "argAt (pre @ items @ ext) ` set [Suc (length pre)..<Suc (length pre + length items)] = set items"
proof -
  have "argAt (pre @ items @ ext) (Suc (length pre + i)) = items ! i" if "i < length items" for i
    using that by (simp add: argAt_def nth_append)
  then have "map (argAt (pre @ items @ ext)) [Suc (length pre)..<Suc (length pre + length items)] = items"
    by (intro nth_equalityI) (simp_all del: upt_Suc)
  then show ?thesis by (metis list.set_map)
qed

definition step :: "sql_env \<Rightarrow> (sql_build \<Rightarrow> sql_build) \<Rightarrow> (search_doc \<Rightarrow> bool) \<Rightarrow> bool" where
  "step se f P \<longleftrightarrow> (\<exists>W X. adds se f W X P)"

lemma step_comp: "step se f P \<Longrightarrow> step se g Q \<Longrightarrow> step se (\<lambda>b. g (f b)) (\<lambda>d. P d \<and> Q d)"
  unfolding step_def using adds_comp by blast

lemma step_nothing: "(\<And>b. f b = b) \<Longrightarrow> (\<And>d. P d) \<Longrightarrow> step se f P"
proof -
  assume f: "\<And>b. f b = b" and P: "\<And>d. P d"
  have "f = (\<lambda>b. b)" "P = (\<lambda>d. True)" using f P by (simp_all add: fun_eq_iff)
  then show ?thesis using adds_nothing unfolding step_def by blast
qed

lemma addsI:
  assumes "\<And>b. f b = b\<lparr>sb_where := sb_where b @ [C (sb_argIdx b)], sb_args := sb_args b @ X, sb_argIdx := sb_argIdx b + length X\<rparr>"
    "\<And>n k. C (n + k) = mapClause (\<lambda>i. i + k) (C n)" "\<And>n. clauseNumbers (C n) = [n..<n + length X]" "\<And>n. clauseFull (C n)"
    "\<And>pre ext d. clauseHolds se (pre @ X @ ext) d (C (Suc (length pre))) \<longleftrightarrow> P d"
  shows "step se f P"
proof -
  have "adds se f (\<lambda>n. [C n]) X P"
    unfolding adds_def
  proof (intro conjI allI ballI)
    fix n c assume "c \<in> set [C n]"
    then show "clauseFull c" using assms(4) by simp
  qed (use assms(1,2,3,5) in simp_all)
  then show ?thesis unfolding step_def by blast
qed

lemma step_tsquery: "step se (addTsquery tsq p) (\<lambda>d. ts_QueryString p = [] \<or> se_matches se (tsq (ts_QueryString p)) d)"
proof (cases "ts_QueryString p = []")
  case False
  show ?thesis
    by (rule addsI [where C = ClTsv and X = "[AText (tsq (ts_QueryString p))]"])
       (simp_all add: addTsquery_def addClause_def False clauseFull_def argAt_def argText_def nth_append)
qed (rule step_nothing, simp_all add: addTsquery_def)

lemma step_IN:
  "step se (appendINClause col items) (\<lambda>d. items = [] \<or> (case columnValue col d of None \<Rightarrow> False | Some v \<Rightarrow> v \<in> set items))"
proof (cases "items = []")
  case False
  show ?thesis
    by (rule addsI [where C = "\<lambda>n. ClIn col [n..<n + length items]" and X = items])
       (simp_all add: appendINClause_def addClause_def placeholderLoop_eq False clauseFull_def argAt_range map_shift_len
          del: upt_Suc set_upt split: option.split)
qed (rule step_nothing, simp_all add: appendINClause_def)

lemma AText_image [simp]: "AText x \<in> AText ` S \<longleftrightarrow> x \<in> S"
  by auto

lemma step_languages:
  "step se (addLanguages_sb p) (\<lambda>d. ts_Languages p = [] \<or> (\<exists>l \<in> set (sd_languages d). l \<in> set (ts_Languages p)))"
proof (cases "ts_Languages p = []")
  case False
  show ?thesis
    by (rule addsI [where C = "\<lambda>n. ClLanguages [n..<n + length (ts_Languages p)]" and X = "map AText (ts_Languages p)"])
       (use argAt_range [of _ "map AText (ts_Languages p)"] in
        \<open>simp_all add: addLanguages_sb_def addClause_def placeholderLoop_eq False clauseFull_def map_shift_len
          del: upt_Suc set_upt\<close>)
qed (rule step_nothing, simp_all add: addLanguages_sb_def)

fun fileChunks :: "nat \<Rightarrow> runes list \<Rightarrow> nat list list" where
  "fileChunks n [] = []"
| "fileChunks n (ft # fts) = (let k = length (Extensions ft) in
     if Extensions ft = [] then fileChunks n fts else [n..<n + k] # fileChunks (n + k) fts)"

definition extensionsOf :: "runes list \<Rightarrow> runes list" where
  "extensionsOf fts = concat (map Extensions fts)"

lemma fileClauses_eq:
  "fileClauses fts b = (fileChunks (sb_argIdx b) fts,
     b\<lparr>sb_args := sb_args b @ map AText (extensionsOf fts), sb_argIdx := sb_argIdx b + length (extensionsOf fts)\<rparr>)"
  by (induction fts arbitrary: b) (simp_all add: Let_def placeholderLoop_eq extensionsOf_def add.assoc)

lemma fileChunks_concat: "concat (fileChunks n fts) = [n..<n + length (extensionsOf fts)]"
proof (induction fts arbitrary: n)
  case (Cons ft fts)
  then show ?case using upt_add_eq_append [of n "n + length (Extensions ft)" "length (extensionsOf fts)"]
    by (simp add: Let_def extensionsOf_def add.assoc)
qed (simp add: extensionsOf_def)

lemma fileChunks_shift: "fileChunks (n + k) fts = map (map (\<lambda>i. i + k)) (fileChunks n fts)"
proof (induction fts arbitrary: n)
  case (Cons ft fts)
  have "n + k + length (Extensions ft) = n + length (Extensions ft) + k" by simp
  then show ?case using Cons.IH [of n] Cons.IH [of "n + length (Extensions ft)"]
    by (simp only: fileChunks.simps Let_def if_distrib list.map map_shift_len split: if_split) simp
qed simp

lemma fileChunks_full: "[] \<notin> set (fileChunks n fts)" "fileChunks n fts = [] \<longleftrightarrow> extensionsOf fts = []"
  by (induction fts arbitrary: n) (auto simp: Let_def extensionsOf_def dest!: sym [of "[]"])

lemma step_files:
  "step se (addFileTypes p) (\<lambda>d. extensionsOf (ts_FileTypes p) = [] \<or> (\<exists>e \<in> set (sd_exts d). e \<in> set (extensionsOf (ts_FileTypes p))))"
proof (cases "extensionsOf (ts_FileTypes p) = []")
  case True
  then show ?thesis by (intro step_nothing) (simp_all add: addFileTypes_def fileClauses_eq fileChunks_full)
next
  case False
  let ?es = "extensionsOf (ts_FileTypes p)"
  have some: "(\<exists>ns \<in> set nss. \<exists>e \<in> E. AText e \<in> g ` set ns) \<longleftrightarrow> (\<exists>e \<in> E. AText e \<in> g ` set (concat nss))" for nss E and g :: "nat \<Rightarrow> sql_arg"
    by auto
  show ?thesis
    by (rule addsI [where C = "\<lambda>n. ClFiles (fileChunks n (ts_FileTypes p))" and X = "map AText ?es"])
       (use argAt_range [of _ "map AText ?es"] in
        \<open>simp_all add: addFileTypes_def addClause_def fileClauses_eq False clauseFull_def fileChunks_full fileChunks_shift some
           fileChunks_concat del: upt_Suc set_upt set_concat\<close>)
qed

fun refRows :: "nat \<Rightarrow> search_content_ref list \<Rightarrow> (nat \<times> nat \<times> nat) list" where
  "refRows n [] = []"
| "refRows n (r # rs) = (n, n + 1, n + 2) # refRows (n + 3) rs"

definition refArgs :: "search_content_ref list \<Rightarrow> sql_arg list" where
  "refArgs rs = concat (map (\<lambda>r. [AText (cr_Type r), AText (cr_Source r), AText (cr_ID r)]) rs)"

lemma refTuples_eq:
  "refTuples rs b = (refRows (sb_argIdx b) rs, b\<lparr>sb_args := sb_args b @ refArgs rs, sb_argIdx := sb_argIdx b + length (refArgs rs)\<rparr>)"
  by (induction rs arbitrary: b) (simp_all add: Let_def refArgs_def eval_nat_numeral)

lemma refRows_shift: "refRows (n + k) rs = map (\<lambda>(i, j, l). (i + k, j + k, l + k)) (refRows n rs)"
proof (induction rs arbitrary: n)
  case (Cons r rs)
  have "n + k + 3 = n + 3 + k" by simp
  then show ?case using Cons.IH [of "n + 3"] by (simp only: refRows.simps list.map split_conv) simp
qed simp

lemma refRows_numbers: "concat (map (\<lambda>(i, j, k). [i, j, k]) (refRows n rs)) = [n..<n + length (refArgs rs)]"
proof (induction rs arbitrary: n)
  case (Cons r rs)
  have "[n..<n + length (refArgs (r # rs))] = [n, n + 1, n + 2] @ [n + 3..<n + 3 + length (refArgs rs)]"
    using upt_add_eq_append [of n "n + 3" "length (refArgs rs)"] by (simp add: refArgs_def eval_nat_numeral upt_rec)
  then show ?case using Cons by simp
qed (simp add: refArgs_def)

lemma refRows_args:
  "(\<lambda>(x, y, z). (argAt (pre @ refArgs rs @ ext) x, argAt (pre @ refArgs rs @ ext) y, argAt (pre @ refArgs rs @ ext) z)) `
     set (refRows (Suc (length pre)) rs) = (\<lambda>r. (AText (cr_Type r), AText (cr_Source r), AText (cr_ID r))) ` set rs"
proof (induction rs arbitrary: pre)
  case (Cons r rs)
  let ?three = "[AText (cr_Type r), AText (cr_Source r), AText (cr_ID r)]"
  have split: "pre @ refArgs (r # rs) @ ext = (pre @ ?three) @ refArgs rs @ ext" by (simp add: refArgs_def)
  have next3: "Suc (length pre) + 3 = Suc (length (pre @ ?three))" by simp
  have "argAt (pre @ refArgs (r # rs) @ ext) (Suc (length pre) + i) = ?three ! i" if "i < 3" for i
    using that unfolding split by (auto simp: argAt_def nth_append nth_Cons' eval_nat_numeral)
  from this [of 0] this [of 1] this [of 2] show ?case
    using Cons.IH [of "pre @ ?three"] unfolding refRows.simps next3 split [symmetric] by simp
qed simp

definition refWanted :: "search_content_ref list \<Rightarrow> search_doc \<Rightarrow> bool" where
  "refWanted rs d \<longleftrightarrow> (case docRef d of None \<Rightarrow> False | Some t \<Rightarrow> t \<in> (\<lambda>r. (cr_Type r, cr_Source r, cr_ID r)) ` set rs)"

lemma step_refs: "step se (addContentRefs p) (\<lambda>d. ts_ContentRefs p = [] \<or> refWanted (ts_ContentRefs p) d)"
proof (cases "ts_ContentRefs p = []")
  case False
  let ?rs = "ts_ContentRefs p"
  have full: "(refRows n ?rs = []) = False" for n using False by (cases ?rs) simp_all
  have image: "(AText t, AText s, AText i) \<in> (\<lambda>r. (AText (cr_Type r), AText (cr_Source r), AText (cr_ID r))) ` set ?rs \<longleftrightarrow>
      (t, s, i) \<in> (\<lambda>r. (cr_Type r, cr_Source r, cr_ID r)) ` set ?rs" for t s i by auto
  show ?thesis
    by (rule addsI [where C = "\<lambda>n. ClRefs (refRows n ?rs)" and X = "refArgs ?rs"])
       (simp_all only: addContentRefs_def addClause_def refTuples_eq False refRows_numbers refRows_args clauseFull_def full
          clauseNumbers.simps clauseHolds.simps mapClause.simps refRows_shift refWanted_def image,
        simp_all add: full split: option.split)
qed (rule step_nothing, simp_all add: addContentRefs_def)

definition created :: "sql_env \<Rightarrow> string \<Rightarrow> search_doc \<Rightarrow> bool" where
  "created se barrier d \<longleftrightarrow> (case se_time se barrier of None \<Rightarrow> False | Some t \<Rightarrow> sd_created d \<le> t)"

lemma step_barrier: "step se (addBarrier p) (\<lambda>d. ts_Barrier p = [] \<or> created se (ts_Barrier p) d)"
proof (cases "ts_Barrier p = []")
  case False
  show ?thesis
    by (rule addsI [where C = ClBefore and X = "[ABytes (ts_Barrier p)]"])
       (simp_all add: addBarrier_def addClause_def False clauseFull_def argAt_def argTime_def nth_append created_def)
qed (rule step_nothing, simp_all add: addBarrier_def)

section \<open>What is wanted\<close>

definition wanted :: "sql_env \<Rightarrow> torrent_search_params \<Rightarrow> search_doc \<Rightarrow> bool" where
  "wanted se p d \<longleftrightarrow>
     (ts_QueryString p = [] \<or> se_matches se (tsqueryOrEmpty se (ts_QueryString p)) d) \<and>
     (ts_InfoHashes p = [] \<or> sd_info_hash d \<in> set (ts_InfoHashes p)) \<and>
     (ts_ContentTypes p = [] \<or> (case sd_type d of None \<Rightarrow> False | Some t \<Rightarrow> t \<in> set (ts_ContentTypes p))) \<and>
     (extensionsOf (ts_FileTypes p) = [] \<or> (\<exists>e \<in> set (sd_exts d). e \<in> set (extensionsOf (ts_FileTypes p)))) \<and>
     (ts_Languages p = [] \<or> (\<exists>l \<in> set (sd_languages d). l \<in> set (ts_Languages p))) \<and>
     (ts_ReleaseYears p = [] \<or> (case sd_year d of None \<Rightarrow> False | Some y \<Rightarrow> y \<in> set (ts_ReleaseYears p))) \<and>
     (ts_ContentRefs p = [] \<or> refWanted (ts_ContentRefs p) d) \<and>
     (ts_Barrier p = [] \<or> created se (ts_Barrier p) d)"

definition wantedTail :: "sql_env \<Rightarrow> torrent_search_params \<Rightarrow> search_doc \<Rightarrow> bool" where
  "wantedTail se p d \<longleftrightarrow> wanted se (p\<lparr>ts_QueryString := [], ts_InfoHashes := [], ts_ContentTypes := []\<rparr>) d"

lemma step_cong: "step se f P \<Longrightarrow> (\<And>b. f b = g b) \<Longrightarrow> (\<And>d. P d = Q d) \<Longrightarrow> step se g Q"
proof -
  assume 1: "step se f P" and "\<And>b. f b = g b" "\<And>d. P d = Q d"
  then have "f = g" "P = Q" by (simp_all add: fun_eq_iff)
  then show ?thesis using 1 by simp
qed

lemma step_tail: "step se (buildTail p) (wantedTail se p)"
  by (rule step_cong [OF step_comp [OF step_comp [OF step_comp [OF step_comp [OF step_files step_languages] step_IN] step_refs] step_barrier]])
     (auto simp: buildTail_def wantedTail_def wanted_def split: option.split)

definition emptyBuild :: sql_build where
  "emptyBuild = \<lparr>sb_where = [], sb_args = [], sb_argIdx = 1\<rparr>"

definition headSteps :: "(runes \<Rightarrow> runes) \<Rightarrow> torrent_search_params \<Rightarrow> sql_build \<Rightarrow> sql_build" where
  "headSteps tsq p b = appendINClause ColInfoHash (map AText (ts_InfoHashes p)) (addTsquery tsq p b)"

definition wantedHead :: "sql_env \<Rightarrow> (runes \<Rightarrow> runes) \<Rightarrow> torrent_search_params \<Rightarrow> search_doc \<Rightarrow> bool" where
  "wantedHead se tsq p d \<longleftrightarrow> (ts_QueryString p = [] \<or> se_matches se (tsq (ts_QueryString p)) d) \<and>
     (ts_InfoHashes p = [] \<or> sd_info_hash d \<in> set (ts_InfoHashes p))"

lemma step_head: "step se (headSteps tsq p) (wantedHead se tsq p)"
  by (rule step_cong [OF step_comp [OF step_tsquery step_IN]]) (auto simp: headSteps_def wantedHead_def)

lemma buildHead_steps: "buildHead tsq p = headSteps tsq p emptyBuild"
  by (simp add: buildHead_def headSteps_def emptyBuild_def)

lemma step_all:
  "step se (\<lambda>b. buildTail p (appendINClause ColContentType (map AText (ts_ContentTypes p)) (headSteps tsq p b)))
     (\<lambda>d. (wantedHead se tsq p d \<and> (ts_ContentTypes p = [] \<or> (\<exists>t. sd_type d = Some t \<and> t \<in> set (ts_ContentTypes p)))) \<and> wantedTail se p d)"
  by (rule step_cong [OF step_comp [OF step_comp [OF step_head step_IN] step_tail]]) (auto split: option.split)

text \<open>What a whole build is.\<close>

definition built :: "sql_env \<Rightarrow> sql_build \<Rightarrow> (search_doc \<Rightarrow> bool) \<Rightarrow> bool" where
  "built se b P \<longleftrightarrow> sb_argIdx b = Suc (length (sb_args b)) \<and>
     concat (map clauseNumbers (sb_where b)) = [1..<Suc (length (sb_args b))] \<and> (\<forall>c \<in> set (sb_where b). clauseFull c) \<and>
     (\<forall>ext d. list_all (clauseHolds se (sb_args b @ ext) d) (sb_where b) \<longleftrightarrow> P d)"

lemma step_built: "step se f P \<Longrightarrow> built se (f emptyBuild) P"
proof -
  assume "step se f P"
  then obtain W X where a: "adds se f W X P" by (auto simp: step_def)
  have f: "f emptyBuild = \<lparr>sb_where = W 1, sb_args = X, sb_argIdx = Suc (length X)\<rparr>"
    using a by (simp add: adds_def emptyBuild_def)
  have "list_all (clauseHolds se ([] @ X @ ext) d) (W (Suc (length ([] :: sql_arg list)))) \<longleftrightarrow> P d" for ext d
    using a unfolding adds_def by blast
  moreover have "concat (map clauseNumbers (W 1)) = [1..<1 + length X]" "\<forall>c \<in> set (W 1). clauseFull c"
    using a unfolding adds_def by blast+
  ultimately show ?thesis by (simp add: built_def f)
qed

lemma buildWhere_built: "built se (buildWhere (tsqueryOrEmpty se) p) (wanted se p)"
proof -
  have "wanted se p = (\<lambda>d. (wantedHead se (tsqueryOrEmpty se) p d \<and>
      (ts_ContentTypes p = [] \<or> (\<exists>t. sd_type d = Some t \<and> t \<in> set (ts_ContentTypes p)))) \<and> wantedTail se p d)"
    by (auto simp: fun_eq_iff wantedHead_def wantedTail_def wanted_def split: option.splits)
  then show ?thesis
    using step_built [OF step_all [of se p "tsqueryOrEmpty se"]] by (simp add: buildWhere_def buildHead_steps)
qed

text \<open>The same without an environment: numbers do not depend on it.\<close>

lemma buildWhere_numbers: "\<exists>se P. built se (buildWhere tsq p) P"
  unfolding buildWhere_def buildHead_steps by (intro exI) (rule step_built [OF step_all])

section \<open>The facets leave out the content types\<close>

lemma mapClause_mapClause: "mapClause f (mapClause g c) = mapClause (\<lambda>n. f (g n)) c"
  by (cases c) (auto simp: case_prod_beta)

lemma mapClause_same: "(\<And>n. n \<in> set (clauseNumbers c) \<Longrightarrow> f n = n) \<Longrightarrow> mapClause f c = c"
  by (cases c) (fastforce intro!: map_idI)+

lemma numbers_between:
  assumes "concat (map clauseNumbers cs) = [a..<b]" "c \<in> set cs" "n \<in> set (clauseNumbers c)"
  shows "a \<le> n" "n < b"
proof -
  have "n \<in> set (concat (map clauseNumbers cs))" using assms(2,3) by auto
  then show "a \<le> n" "n < b" unfolding assms(1) by simp_all
qed

lemma facetBuild_eq:
  "facetBuild tsq p = (let b = buildWhere tsq (p\<lparr>ts_ContentTypes := []\<rparr>) in (sb_where b, sb_args b))"
proof (cases "ts_ContentTypes p = []")
  case False
  define h where "h = buildHead tsq p"
  define k where "k = length (ts_ContentTypes p)"
  have k: "0 < k" using False by (simp add: k_def)
  have same: "buildHead tsq (p\<lparr>ts_ContentTypes := []\<rparr>) = h" "buildTail (p\<lparr>ts_ContentTypes := []\<rparr>) = buildTail p"
    by (simp_all add: h_def buildHead_def addTsquery_def fun_eq_iff buildTail_def addBarrier_def addContentRefs_def addLanguages_sb_def addFileTypes_def)
  obtain W X P where t: "adds undefined (buildTail p) W X P" using step_tail unfolding step_def by blast
  obtain V Y Q where hd: "adds undefined (headSteps tsq p) V Y Q" using step_head unfolding step_def by blast
  have h: "h = \<lparr>sb_where = V 1, sb_args = Y, sb_argIdx = Suc (length Y)\<rparr>"
    using hd by (simp add: h_def buildHead_steps adds_def emptyBuild_def)
  let ?s = "Suc (length Y)"
  have none: "buildWhere tsq (p\<lparr>ts_ContentTypes := []\<rparr>) = \<lparr>sb_where = V 1 @ W ?s, sb_args = Y @ X, sb_argIdx = ?s + length X\<rparr>"
    using t by (simp add: buildWhere_def same h appendINClause_def adds_def)
  have full: "buildWhere tsq p = \<lparr>sb_where = V 1 @ ClIn ColContentType [?s..<?s + k] # W (?s + k),
      sb_args = Y @ map AText (ts_ContentTypes p) @ X, sb_argIdx = ?s + k + length X\<rparr>"
    using t False by (simp add: buildWhere_def h_def [symmetric] h appendINClause_def addClause_def placeholderLoop_eq adds_def k_def del: upt_Suc)
  have tail: "W (?s + k) = map (mapClause (\<lambda>i. i + k)) (W ?s)" using t unfolding adds_def by blast
  have W: "concat (map clauseNumbers (W ?s)) = [?s..<?s + length X]" using t unfolding adds_def by blast
  have "mapClause (renumber ?s k) (mapClause (\<lambda>i. i + k) c) = c" if "c \<in> set (W ?s)" for c
    unfolding mapClause_mapClause
  proof (rule mapClause_same)
    fix n assume "n \<in> set (clauseNumbers c)"
    then have "?s \<le> n" using numbers_between(1) [OF W that] by blast
    then show "renumber ?s k (n + k) = n" using k by (simp add: renumber_def)
  qed
  then have 1: "map (mapClause (renumber ?s k)) (W (?s + k)) = W ?s" unfolding tail by (simp add: map_idI)
  have V: "concat (map clauseNumbers (V 1)) = [1..<1 + length Y]" using hd unfolding adds_def by blast
  have "mapClause (renumber ?s k) c = c" if "c \<in> set (V 1)" for c
  proof (rule mapClause_same)
    fix n assume "n \<in> set (clauseNumbers c)"
    then have "n < ?s" using numbers_between(2) [OF V that] by simp
    then show "renumber ?s k n = n" by (simp add: renumber_def)
  qed
  then have 2: "map (mapClause (renumber ?s k)) (V 1) = V 1" by (simp add: map_idI)
  show ?thesis using k 1 2
    by (simp add: facetBuild_def Let_def full none h_def [symmetric] h k_def [symmetric])
next
  case True
  then have p: "p\<lparr>ts_ContentTypes := []\<rparr> = p" by (cases p) simp
  show ?thesis unfolding p using True by (simp add: facetBuild_def Let_def)
qed

text \<open>In the text, this is what the regular expression does.\<close>

lemma facet_text:
  assumes "ts_ContentTypes p \<noteq> []"
  shows "map clauseText (fst (facetBuild tsq p)) =
    (let b = buildWhere tsq p; i = length (sb_where (buildHead tsq p)) in
     map (\<lambda>c. replaceDollars (\<lambda>n. placeholderText (renumber (sb_argIdx (buildHead tsq p)) (length (ts_ContentTypes p)) n)) (clauseText c))
       (take i (sb_where b) @ drop (i + 1) (sb_where b)))"
proof -
  obtain se P where "built se (buildWhere tsq p) P" using buildWhere_numbers by blast
  then have full: "clauseFull c" if "c \<in> set (sb_where (buildWhere tsq p))" for c using that by (simp add: built_def)
  let ?b = "buildWhere tsq p"
  let ?i = "length (sb_where (buildHead tsq p))"
  let ?xs = "take ?i (sb_where ?b) @ drop (?i + 1) (sb_where ?b)"
  let ?r = "renumber (sb_argIdx (buildHead tsq p)) (length (ts_ContentTypes p))"
  have "fst (facetBuild tsq p) = map (mapClause ?r) ?xs" using assms by (simp add: facetBuild_def Let_def)
  moreover have "clauseText (mapClause ?r c) = replaceDollars (\<lambda>n. placeholderText (?r n)) (clauseText c)" if "c \<in> set ?xs" for c
  proof -
    have "c \<in> set (sb_where ?b)" using that by (auto dest: in_set_takeD in_set_dropD)
    then show ?thesis using replaceDollars_clause [OF full] by simp
  qed
  ultimately show ?thesis by (simp add: Let_def)
qed

section \<open>Every placeholder has its argument\<close>

lemma orderLoop_numbers:
  "orderLoop tsq p fs args i = (os, args', i') \<Longrightarrow>
   \<exists>Y. args' = args @ Y \<and> i' = i + length Y \<and> concat (map (keyNumbers \<circ> fst) os) = [i..<i + length Y]"
proof (induction fs arbitrary: args i os args' i')
  case (Cons f fs)
  obtain field dir where f: "f = (field, dir)" by (cases f)
  obtain key args1 i1 where k: "orderKeyFor tsq p field args i = (key, args1, i1)" by (cases "orderKeyFor tsq p field args i")
  obtain os2 args2 i2 where r: "orderLoop tsq p fs args1 i1 = (os2, args2, i2)" by (cases "orderLoop tsq p fs args1 i1")
  obtain Y1 where 1: "args1 = args @ Y1" "i1 = i + length Y1" "keyNumbers key = [i..<i + length Y1]"
    using k by (auto simp: orderKeyFor_def split: if_splits)
  obtain Y2 where 2: "args2 = args1 @ Y2" "i2 = i1 + length Y2" "concat (map (keyNumbers \<circ> fst) os2) = [i1..<i1 + length Y2]"
    using Cons.IH [OF r] by blast
  have "[i..<i + length (Y1 @ Y2)] = [i..<i1] @ [i1..<i1 + length Y2]"
    using upt_add_eq_append [of i i1 "length Y2"] 1(2) by (simp add: add.assoc)
  moreover have "os = (key, dir) # (if fs = [] then [(OrdField FieldInfoHash, dir)] else []) @ os2" "args' = args2" "i' = i2"
    using Cons.prems by (simp_all add: f k r Let_def)
  ultimately show ?case using 1 2 by (intro exI [of _ "Y1 @ Y2"]) (simp add: add.assoc comp_def)
qed simp

lemma orderBy_numbers:
  assumes "buildTorrentContentOrderBy tsq p args i = (os, args', i')"
  shows "\<exists>Y. args' = args @ Y \<and> i' = i + length Y \<and> concat (map (keyNumbers \<circ> fst) os) = [i..<i + length Y]"
proof -
  have "\<exists>Y. args' = args @ Y \<and> i' = i + length Y \<and> concat (map (keyNumbers \<circ> fst) os) = [i..<i + length Y]"
    if "defaultTorrentContentOrderBy tsq p args i = (os, args', i')"
    using that by (auto simp: defaultTorrentContentOrderBy_def split: if_splits)
  then show ?thesis using assms orderLoop_numbers [of tsq p "ts_OrderBy p" args i]
    by (auto simp: buildTorrentContentOrderBy_def Let_def split: if_splits)
qed

definition bound :: "sql_statement \<Rightarrow> bool" where
  "bound st \<longleftrightarrow> statementNumbers st = [1..<Suc (length (sq_args st))]"

lemma queries_bound:
  assumes "built se b P"
    "q = buildTorrentContentQueries tsq p (sb_where b) (sb_args b) (sb_argIdx b) offset"
  shows "bound (qq_query q)" "\<forall>st \<in> set (optionList (qq_countQuery q) @ optionList (qq_hasNextQuery q)). bound st"
proof -
  obtain os args' i' where o': "buildTorrentContentOrderBy tsq p (sb_args b) (sb_argIdx b) = (os, args', i')"
    by (cases "buildTorrentContentOrderBy tsq p (sb_args b) (sb_argIdx b)")
  obtain Y where Y: "args' = sb_args b @ Y" "i' = sb_argIdx b + length Y"
    "concat (map (keyNumbers \<circ> fst) os) = [sb_argIdx b..<sb_argIdx b + length Y]"
    using orderBy_numbers [OF o'] by blast
  have b: "sb_argIdx b = Suc (length (sb_args b))" "concat (map clauseNumbers (sb_where b)) = [1..<Suc (length (sb_args b))]"
    using assms(1) by (simp_all add: built_def)
  let ?n = "Suc (length (sb_args b))"
  have upto: "[1..<?n] @ [?n..<?n + length Y] = [1..<?n + length Y]" using upt_add_eq_append [of 1 ?n "length Y"] by simp
  have "[1..<?n] @ [?n..<?n + length Y] @ [?n + length Y] = [1..<Suc (?n + length Y)]"
    using upto by (simp only: append_assoc [symmetric] upt_Suc) simp
  moreover have "[1..<?n] @ [?n..<?n + length Y] @ [?n + length Y, Suc (?n + length Y)] = [1..<Suc (Suc (?n + length Y))]"
    using calculation by (simp only: append_assoc [symmetric] upt_Suc) simp
  ultimately show "bound (qq_query q)"
    "\<forall>st \<in> set (optionList (qq_countQuery q) @ optionList (qq_hasNextQuery q)). bound st"
    using b Y by (simp_all add: assms(2) buildTorrentContentQueries_def o' [unfolded b(1)] Let_def bound_def statementNumbers_def
        optionList_def del: upt_Suc split: if_splits)
qed

text \<open>C15. Every statement that a search sends has its placeholders numbered from one to the number of its
  arguments, each once and in order: the page, the count, the look for a next page and the facets, in
  which the condition on content types and its arguments are left out.\<close>

theorem search_binds:
  "list_all bound (searchStatements tsq p)"
proof -
  obtain se P where b: "built se (buildWhere tsq p) P" using buildWhere_numbers by blast
  obtain se' P' where f: "built se' (buildWhere tsq (p\<lparr>ts_ContentTypes := []\<rparr>)) P'" using buildWhere_numbers by blast
  have "bound (facetStatement (fst (facetBuild tsq p)) (snd (facetBuild tsq p)) x)" for x
    using f by (simp add: bound_def facetStatement_def statementNumbers_def optionList_def facetBuild_eq Let_def built_def)
  then show ?thesis using queries_bound [OF b refl, of tsq p "ClampInt32 (ts_Offset p)"]
    by (auto simp: searchStatements_def Let_def list_all_iff case_prod_beta)
qed

section \<open>The order that is asked for\<close>

definition fieldLess :: "sql_env \<Rightarrow> torrent_search_params \<Rightarrow> search_field \<Rightarrow> search_doc \<Rightarrow> search_doc \<Rightarrow> bool" where
  "fieldLess se p f a b =
     (if f = FieldRelevance \<and> ts_QueryString p \<noteq> []
      then (let q = tsqueryOrEmpty se (ts_QueryString p) in se_rank se q a < se_rank se q b)
      else keyLess se [] (OrdField f) a b)"

fun orderedBy :: "sql_env \<Rightarrow> torrent_search_params \<Rightarrow> (search_field \<times> sort_direction) list \<Rightarrow> search_doc \<Rightarrow> search_doc \<Rightarrow> bool" where
  "orderedBy se p [] a b = True"
| "orderedBy se p ((f, dir) # fs) a b =
     (if (if dir = SortAsc then fieldLess se p f a b else fieldLess se p f b a) then True
      else if (if dir = SortAsc then fieldLess se p f b a else fieldLess se p f a b) then False
      else orderedBy se p fs a b)"

definition wantedOrder :: "torrent_search_params \<Rightarrow> (search_field \<times> sort_direction) list" where
  "wantedOrder p =
     (if ts_OrderBy p = []
      then [(if ts_QueryString p \<noteq> [] then FieldRelevance else FieldCreatedAt, SortDesc), (FieldInfoHash, SortDesc)]
      else ts_OrderBy p @ [(FieldInfoHash, snd (last (ts_OrderBy p)))])"

lemma keyLess_field: "keyLess se args (OrdField f) = keyLess se [] (OrdField f)"
  by (cases f) (simp_all add: fun_eq_iff)

lemma argAt_next: "argAt (args @ x # ext) (Suc (length args)) = x"
  by (simp add: argAt_def nth_append)

lemma docBefore_cong:
  "(\<And>a b. keyLess se args k a b = fieldLess se p f a b) \<Longrightarrow> docBefore se args os = orderedBy se p fs \<Longrightarrow>
   docBefore se args ((k, dir) # os) = orderedBy se p ((f, dir) # fs)"
  by (simp add: fun_eq_iff)

lemma key_field:
  assumes "orderKeyFor (tsqueryOrEmpty se) p f args i = (k, args', i')" "i = Suc (length args)"
  shows "keyLess se (args' @ ext) k a b = fieldLess se p f a b"
proof (cases "f = FieldRelevance \<and> ts_QueryString p \<noteq> []")
  case True
  then show ?thesis using assms by (auto simp: orderKeyFor_def fieldLess_def argAt_next argText_def Let_def)
next
  case False
  then have "k = OrdField (if f = FieldRelevance then FieldCreatedAt else f)" using assms(1) by (auto simp: orderKeyFor_def split: if_splits)
  moreover have "keyLess se (args' @ ext) (OrdField g) a b = keyLess se [] (OrdField g) a b" for g by (metis keyLess_field)
  ultimately show ?thesis using False by (auto simp: fieldLess_def)
qed

lemma infohash_field: "keyLess se args (OrdField FieldInfoHash) a b = fieldLess se p FieldInfoHash a b"
  by (simp add: fieldLess_def)

lemma orderLoop_orders:
  assumes "orderLoop (tsqueryOrEmpty se) p fs args i = (os, args', i')" "i = Suc (length args)" "fs \<noteq> []"
  shows "docBefore se (args' @ ext) os = orderedBy se p (fs @ [(FieldInfoHash, snd (last fs))])"
  using assms
proof (induction fs arbitrary: args i os args' i')
  case (Cons f fs)
  obtain field dir where f: "f = (field, dir)" by (cases f)
  let ?t = "tsqueryOrEmpty se"
  obtain key args1 i1 where k: "orderKeyFor ?t p field args i = (key, args1, i1)" by (cases "orderKeyFor ?t p field args i")
  obtain os2 args2 i2 where r: "orderLoop ?t p fs args1 i1 = (os2, args2, i2)" by (cases "orderLoop ?t p fs args1 i1")
  obtain Y2 where Y: "args2 = args1 @ Y2" using orderLoop_numbers [OF r] by blast
  have i1: "i1 = Suc (length args1)" using k Cons.prems(2) by (auto simp: orderKeyFor_def split: if_splits)
  have os: "os = (key, dir) # (if fs = [] then [(OrdField FieldInfoHash, dir)] else []) @ os2" "args' = args2"
    using Cons.prems(1) by (simp_all add: f k r Let_def)
  have first: "keyLess se (args2 @ ext) key a b = fieldLess se p field a b" for a b
    using key_field [OF k Cons.prems(2), of "Y2 @ ext"] by (simp add: Y)
  show ?case
  proof (cases "fs = []")
    case True
    have "docBefore se (args2 @ ext) [(OrdField FieldInfoHash, dir)] = orderedBy se p [(FieldInfoHash, dir)]"
      by (intro docBefore_cong infohash_field) (simp add: fun_eq_iff)
    then show ?thesis unfolding os using True r by (simp add: f docBefore_cong [OF first])
  next
    case False
    have "docBefore se (args2 @ ext) os2 = orderedBy se p (fs @ [(FieldInfoHash, snd (last fs))])"
      by (rule Cons.IH [OF r i1 False])
    then show ?thesis unfolding os using False by (simp add: f docBefore_cong [OF first])
  qed
qed simp

lemma orderBy_orders:
  assumes "buildTorrentContentOrderBy (tsqueryOrEmpty se) p args i = (os, args', i')" "i = Suc (length args)"
  shows "docBefore se (args' @ ext) os = orderedBy se p (wantedOrder p)"
proof (cases "ts_OrderBy p = []")
  case True
  have "docBefore se as [(OrdField FieldInfoHash, SortDesc)] = orderedBy se p [(FieldInfoHash, SortDesc)]" for as
    by (intro docBefore_cong infohash_field) (simp add: fun_eq_iff)
  note last = docBefore_cong [OF _ this]
  show ?thesis
  proof (cases "ts_QueryString p = []")
    case q: True
    have "keyLess se as (OrdField FieldCreatedAt) a b = fieldLess se p FieldCreatedAt a b" for as a b by (simp add: fieldLess_def)
    from last [OF this] show ?thesis using assms True q
      by (auto simp del: docBefore.simps orderedBy.simps simp add: buildTorrentContentOrderBy_def defaultTorrentContentOrderBy_def wantedOrder_def)
  next
    case q: False
    have "orderKeyFor (tsqueryOrEmpty se) p FieldRelevance args i = (OrdRank i, args @ [AText (tsqueryOrEmpty se (ts_QueryString p))], i + 1)"
      using q by (simp add: orderKeyFor_def)
    from last [OF key_field [OF this assms(2)]] show ?thesis using assms True q
      by (auto simp del: docBefore.simps orderedBy.simps simp add: buildTorrentContentOrderBy_def defaultTorrentContentOrderBy_def wantedOrder_def)
  qed
next
  case False
  obtain os1 args1 i1 where l: "orderLoop (tsqueryOrEmpty se) p (ts_OrderBy p) args i = (os1, args1, i1)"
    by (cases "orderLoop (tsqueryOrEmpty se) p (ts_OrderBy p) args i")
  then have "os1 \<noteq> []" using False by (cases "ts_OrderBy p") (auto simp: Let_def case_prod_beta)
  then have "os = os1" "args' = args1" using assms(1) False l by (simp_all add: buildTorrentContentOrderBy_def Let_def)
  then show ?thesis using orderLoop_orders [OF l assms(2) False] False by (simp add: wantedOrder_def)
qed

text \<open>The statements over the arguments of the conditions.\<close>

lemma queries_eq:
  assumes "built se b P"
  obtains os Y n where
    "buildTorrentContentQueries (tsqueryOrEmpty se) p (sb_where b) (sb_args b) (sb_argIdx b) off =
       \<lparr>qq_query = \<lparr>sq_select = SelectPage, sq_where = sb_where b, sq_order = os, sq_limit = Some n, sq_offset = Some (Suc n),
          sq_args = sb_args b @ Y @ [AInt (pageLimit p), AInt off]\<rparr>,
        qq_countQuery = (if ts_TotalCount p then Some \<lparr>sq_select = SelectCount, sq_where = sb_where b, sq_order = [],
          sq_limit = None, sq_offset = None, sq_args = sb_args b\<rparr> else None),
        qq_hasNextQuery = (if ts_HasNextPage p then Some \<lparr>sq_select = SelectExists, sq_where = sb_where b, sq_order = os,
          sq_limit = None, sq_offset = Some n, sq_args = sb_args b @ Y @ [AInt (int32 (off + pageLimit p))]\<rparr> else None)\<rparr>"
    "n = Suc (length (sb_args b @ Y))"
    "\<And>ext. docBefore se (sb_args b @ Y @ ext) os = orderedBy se p (wantedOrder p)"
proof -
  obtain os args' i' where o': "buildTorrentContentOrderBy (tsqueryOrEmpty se) p (sb_args b) (sb_argIdx b) = (os, args', i')"
    by (cases "buildTorrentContentOrderBy (tsqueryOrEmpty se) p (sb_args b) (sb_argIdx b)")
  have b: "sb_argIdx b = Suc (length (sb_args b))" using assms by (simp add: built_def)
  obtain Y where Y: "args' = sb_args b @ Y" "i' = sb_argIdx b + length Y" using orderBy_numbers [OF o'] by blast
  show ?thesis
    by (rule that [of os i' Y])
       (use orderBy_orders [OF o' b] Y b in \<open>simp_all add: buildTorrentContentQueries_def o' [unfolded b] Let_def\<close>)
qed

section \<open>What a search returns\<close>

lemma length_sortDocs [simp]: "length (sortDocs le ds) = length ds"
proof -
  have "length (insertDoc le d xs) = Suc (length xs)" for d xs by (induction xs) simp_all
  then show ?thesis unfolding sortDocs_def by (induction ds) simp_all
qed

definition facetCounts :: "search_facet \<Rightarrow> search_doc list \<Rightarrow> (runes \<times> nat) list" where
  "facetCounts f ds = (let vs = concat (map (facetValues f) ds) in
     List.map_filter (\<lambda>v. map_option (\<lambda>w. (w, count_list vs v)) v) (remdups vs))"

lemma map_filter_map: "List.map_filter f (map g xs) = List.map_filter (\<lambda>x. f (g x)) xs"
  by (induction xs) (simp_all add: List.map_filter_simps split: option.split)

lemma execStatement_Inr:
  "execStatement se docs st = Inr rows \<Longrightarrow> checkStatement se st = None"
  by (simp add: execStatement_def split: option.splits)

lemma found_wanted:
  assumes "built se b P" "sq_where st = sb_where b" "sq_args st = sb_args b @ ext"
  shows "foundDocs se docs st = filter P docs"
  using assms by (simp add: foundDocs_def built_def)

lemma pageLimit_bounds: "1 \<le> pageLimit p" "pageLimit p < 2 ^ 31"
  by (auto simp: pageLimit_def ClampInt32_def Let_def)

lemma int32_wraps: "2 ^ 31 \<le> n \<Longrightarrow> n < 2 ^ 32 \<Longrightarrow> int32 n < 0"
proof -
  assume n: "2 ^ 31 \<le> n" "n < 2 ^ 32"
  have "int32 n = n - 2 ^ 32" unfolding int32_def using n
    by (subst signed_take_bit_eq_take_bit_minus) (simp add: bit_iff_odd take_bit_eq_mod div_pos_geq)
  then show ?thesis using n by simp
qed

text \<open>A statement over the same conditions passes the same check, but for its own offset.\<close>

lemma check_same:
  assumes "built se b P" "checkStatement se st = None" "sq_where st = sb_where b" "sq_args st = sb_args b @ ext"
    "sq_where st' = sb_where b" "sq_args st' = sb_args b @ ext'" "bound st'" "joinsContent (sq_select st')"
    "usesSeeders st' \<Longrightarrow> joinsSeeders (sq_select st')"
  shows "checkStatement se st' =
    (if list_ex (\<lambda>n. argInt (argAt (sq_args st') n) < 0) (optionList (sq_limit st') @ optionList (sq_offset st'))
     then Some SqlNegative else None)"
proof -
  have same: "argAt (sb_args b @ ext) n = argAt (sb_args b @ ext') n" if "ClBefore n \<in> set (sb_where b)" for n
  proof -
    have w: "concat (map clauseNumbers (sb_where b)) = [1..<Suc (length (sb_args b))]" using assms(1) by (simp add: built_def)
    have "1 \<le> n" "n < Suc (length (sb_args b))" using numbers_between [OF w that, of n] by simp_all
    then show ?thesis by (auto simp: argAt_def nth_append)
  qed
  let ?late = "\<lambda>as c. case c of ClBefore n \<Rightarrow> argTime se (argAt as n) = None | _ \<Rightarrow> False"
  have "?late (sq_args st) c = ?late (sq_args st') c" if "c \<in> set (sb_where b)" for c
    unfolding assms(4,6) by (cases c) (use same that in simp_all)
  then have "list_ex (?late (sq_args st')) (sb_where b) = list_ex (?late (sq_args st)) (sb_where b)"
    unfolding list_ex_iff by blast
  moreover have "\<not> list_ex (?late (sq_args st)) (sb_where b)"
    using assms(2,3) by (simp add: checkStatement_def split: if_splits)
  ultimately have "\<not> list_ex (?late (sq_args st')) (sb_where b)" by blast
  moreover have "set (statementNumbers st') = set [1..<Suc (length (sq_args st'))]" using assms(7) by (simp add: bound_def)
  ultimately show ?thesis using assms(8,9) by (auto simp: checkStatement_def assms(5) simp del: set_upt upt_Suc)
qed

lemma runSearch_parts:
  assumes "runSearch se docs p = Inr r"
  shows "\<exists>b q. built se b (wanted se p) \<and>
    q = buildTorrentContentQueries (tsqueryOrEmpty se) p (sb_where b) (sb_args b) (sb_argIdx b) (ClampInt32 (ts_Offset p)) \<and>
    pageItems se docs (qq_query q) = Inr (tr_Items r) \<and> countItems se docs (qq_countQuery q) = Inr (tr_TotalCount r) \<and>
    tr_HasNextPage r = nextExists se docs (qq_hasNextQuery q) (tr_Items r) \<and>
    computeFacets se docs (fst (facetBuild (tsqueryOrEmpty se) p)) (snd (facetBuild (tsqueryOrEmpty se) p))
      (facetsAsked (ts_FacetAggregate p)) = Inr (tr_Aggregations r) \<and> tr_Barrier r = EncodeBarrier (ts_Barrier p)"
  using assms buildWhere_built [of se p]
  by (intro exI [of _ "buildWhere (tsqueryOrEmpty se) p"] exI)
     (auto simp: runSearch_def computeTorrentContentFacets_def Let_def bind_sum_Inr_iff case_prod_beta)

lemma two_args:
  "n = Suc (length (as @ Y)) \<Longrightarrow> argAt (as @ Y @ [x, y]) n = x \<and> argAt (as @ Y @ [x, y]) (Suc n) = y \<and> argAt (as @ Y @ [z]) n = z"
  by (simp add: argAt_def nth_append)

text \<open>The three statements over the conditions, once the first one went through.\<close>

lemma queries_run:
  assumes b: "built se b P" and q: "q = buildTorrentContentQueries (tsqueryOrEmpty se) p (sb_where b) (sb_args b) (sb_argIdx b) off"
    and page: "pageItems se docs (qq_query q) = Inr items" and off: "off < 2 ^ 31"
  defines "found \<equiv> sortDocs (orderedBy se p (wantedOrder p)) (filter P docs)"
  shows "0 \<le> off" "items = take (nat (pageLimit p)) (drop (nat off) found)"
    "countItems se docs (qq_countQuery q) = Inr (if ts_TotalCount p then length found else 0)"
    "nextExists se docs (qq_hasNextQuery q) items \<longleftrightarrow>
       ts_HasNextPage p \<and> nat off + nat (pageLimit p) < length found \<and> nat off + nat (pageLimit p) < 2 ^ 31"
proof -
  obtain os Y n where eq: "q = \<lparr>qq_query = \<lparr>sq_select = SelectPage, sq_where = sb_where b, sq_order = os, sq_limit = Some n, sq_offset = Some (Suc n),
          sq_args = sb_args b @ Y @ [AInt (pageLimit p), AInt off]\<rparr>,
        qq_countQuery = (if ts_TotalCount p then Some \<lparr>sq_select = SelectCount, sq_where = sb_where b, sq_order = [],
          sq_limit = None, sq_offset = None, sq_args = sb_args b\<rparr> else None),
        qq_hasNextQuery = (if ts_HasNextPage p then Some \<lparr>sq_select = SelectExists, sq_where = sb_where b, sq_order = os,
          sq_limit = None, sq_offset = Some n, sq_args = sb_args b @ Y @ [AInt (int32 (off + pageLimit p))]\<rparr> else None)\<rparr>"
    and n: "n = Suc (length (sb_args b @ Y))"
    and ord: "\<And>ext. docBefore se (sb_args b @ Y @ ext) os = orderedBy se p (wantedOrder p)"
    using queries_eq [OF b, of p off] q by metis
  note bounds = pageLimit_bounds [of p]
  let ?page = "qq_query q"
  have st: "sq_where ?page = sb_where b" "sq_args ?page = sb_args b @ (Y @ [AInt (pageLimit p), AInt off])" "sq_select ?page = SelectPage"
    by (simp_all add: eq)
  note at = two_args [OF n]
  obtain rows where rows: "execStatement se docs ?page = Inr rows" "items = (case rows of RowsDocs ds \<Rightarrow> ds | _ \<Rightarrow> [])"
    using page by (auto simp: pageItems_def bind_sum_Inr_iff)
  have ok: "checkStatement se ?page = None" by (rule execStatement_Inr [OF rows(1)])
  have "\<not> list_ex (\<lambda>k. argInt (argAt (sq_args ?page) k) < 0) (optionList (sq_limit ?page) @ optionList (sq_offset ?page))"
    using ok by (simp add: checkStatement_def split: if_splits)
  then show pos: "0 \<le> off" using at by (simp add: eq optionList_def argInt_def)
  have "rows = RowsDocs (take (nat (pageLimit p)) (drop (nat off) found))"
    using rows(1) ok found_wanted [OF b st(1,2)] at ord
    by (simp add: execStatement_def eq limited_def skipped_def argInt_def found_def)
  then show items: "items = take (nat (pageLimit p)) (drop (nat off) found)" using rows(2) by simp
  note bounds' = queries_bound [OF b q]
  have count: "execStatement se docs \<lparr>sq_select = SelectCount, sq_where = sb_where b, sq_order = [], sq_limit = None, sq_offset = None,
      sq_args = sb_args b\<rparr> = Inr (RowsCount (length found))" (is "execStatement se docs ?c = _") if "ts_TotalCount p"
  proof -
    have "bound ?c" using bounds'(2) that by (simp add: eq optionList_def)
    then have "checkStatement se ?c = None"
      using check_same [OF b ok st(1,2), of ?c "[]"] by (simp add: optionList_def usesSeeders_def)
    then show ?thesis using found_wanted [OF b, of ?c "[]"] by (simp add: execStatement_def found_def)
  qed
  then show "countItems se docs (qq_countQuery q) = Inr (if ts_TotalCount p then length found else 0)"
    by (simp add: countItems_def eq)
  show "nextExists se docs (qq_hasNextQuery q) items \<longleftrightarrow>
       ts_HasNextPage p \<and> nat off + nat (pageLimit p) < length found \<and> nat off + nat (pageLimit p) < 2 ^ 31"
  proof (cases "ts_HasNextPage p")
    case True
    let ?h = "\<lparr>sq_select = SelectExists, sq_where = sb_where b, sq_order = os, sq_limit = None, sq_offset = Some n,
      sq_args = sb_args b @ Y @ [AInt (int32 (off + pageLimit p))]\<rparr>"
    have "bound ?h" using bounds'(2) True by (simp add: eq optionList_def)
    then have check: "checkStatement se ?h = (if int32 (off + pageLimit p) < 0 then Some SqlNegative else None)"
      using check_same [OF b ok st(1,2), of ?h "Y @ [AInt (int32 (off + pageLimit p))]"] at
      by (simp add: optionList_def argInt_def joinsSeeders_def)
    have next': "nextExists se docs (qq_hasNextQuery q) items \<longleftrightarrow> items \<noteq> [] \<and>
        (case execStatement se docs ?h of Inr (RowsExists b) \<Rightarrow> b | _ \<Rightarrow> False)"
      by (simp add: nextExists_def eq True)
    show ?thesis
    proof (cases "off + pageLimit p < 2 ^ 31")
      case small: True
      have "int32 (off + pageLimit p) = off + pageLimit p" using pos bounds small by (intro int32_id) auto
      moreover from this have "execStatement se docs ?h = Inr (RowsExists (drop (nat (off + pageLimit p)) (filter P docs) \<noteq> []))"
        using check pos bounds found_wanted [OF b, of ?h "Y @ [AInt (int32 (off + pageLimit p))]"] at
        by (simp add: execStatement_def skipped_def argInt_def)
      ultimately show ?thesis using True pos bounds small next' items
        by (auto simp: found_def nat_add_distrib)
    next
      case False
      then have "int32 (off + pageLimit p) < 0" using bounds off by (intro int32_wraps) auto
      then have "execStatement se docs ?h = Inl SqlNegative" using check by (simp add: execStatement_def)
      moreover have "\<not> nat off + nat (pageLimit p) < 2 ^ 31" using False pos bounds by (simp flip: nat_add_distrib)
      ultimately show ?thesis using next' by simp
    qed
  qed (simp add: nextExists_def eq)
qed

lemma facet_run:
  assumes "queryFacet se docs (facetStatement cs args f) = Inr bucket" "\<And>d. list_all (clauseHolds se args d) cs \<longleftrightarrow> P d"
  shows "bucket = facetCounts f (filter P docs)"
proof -
  obtain rows where rows: "execStatement se docs (facetStatement cs args f) = Inr rows"
    "bucket = (case rows of RowsGroups gs \<Rightarrow> List.map_filter (\<lambda>(v, n). map_option (\<lambda>w. (w, n)) v) gs | _ \<Rightarrow> [])"
    using assms(1) by (auto simp: queryFacet_def bind_sum_Inr_iff)
  have "foundDocs se docs (facetStatement cs args f) = filter P docs" by (simp add: foundDocs_def facetStatement_def assms(2))
  then show ?thesis using rows execStatement_Inr [OF rows(1)]
    by (auto simp: execStatement_def facetStatement_def facetCounts_def Let_def map_filter_map)
qed

lemma facets_run:
  "computeFacets se docs cs args fs = Inr aggs \<Longrightarrow> (\<And>d. list_all (clauseHolds se args d) cs \<longleftrightarrow> P d) \<Longrightarrow>
   aggs = map (\<lambda>f. (f, facetCounts f (filter P docs))) fs"
  by (induction fs arbitrary: aggs) (auto simp: bind_sum_Inr_iff dest: facet_run)

lemma ClampInt32_less: "ClampInt32 n < 2 ^ 31"
  by (simp add: ClampInt32_def)

lemma search_result:
  assumes "pg_TorrentSearch se now docs p = Some (Inr r)"
  shows "let p' = resolveBarrier se now p;
      found = sortDocs (orderedBy se p' (wantedOrder p)) (filter (wanted se p') docs);
      skip = nat (ClampInt32 (ts_Offset p)); limit = nat (pageLimit p) in
    tr_Items r = take limit (drop skip found) \<and> tr_TotalCount r = (if ts_TotalCount p then length found else 0) \<and>
    tr_HasNextPage r = (ts_HasNextPage p \<and> skip + limit < length found \<and> skip + limit < 2 ^ 31) \<and>
    tr_Aggregations r = map (\<lambda>f. (f, facetCounts f (filter (wanted se (p'\<lparr>ts_ContentTypes := []\<rparr>)) docs))) (facetsAsked (ts_FacetAggregate p)) \<and>
    tr_Barrier r = EncodeBarrier (ts_Barrier p')"
proof -
  let ?p = "resolveBarrier se now p"
  have fields: "wantedOrder ?p = wantedOrder p" "ts_Offset ?p = ts_Offset p" "pageLimit ?p = pageLimit p" "ts_TotalCount ?p = ts_TotalCount p"
    "ts_HasNextPage ?p = ts_HasNextPage p" "ts_FacetAggregate ?p = ts_FacetAggregate p"
    by (simp_all add: resolveBarrier_def Let_def wantedOrder_def pageLimit_def)
  have run: "runSearch se docs ?p = Inr r" using assms by (simp add: pg_TorrentSearch_def split: if_splits)
  obtain b q where b: "built se b (wanted se ?p)"
    and q: "q = buildTorrentContentQueries (tsqueryOrEmpty se) ?p (sb_where b) (sb_args b) (sb_argIdx b) (ClampInt32 (ts_Offset ?p))"
    and parts: "pageItems se docs (qq_query q) = Inr (tr_Items r)" "countItems se docs (qq_countQuery q) = Inr (tr_TotalCount r)"
      "tr_HasNextPage r = nextExists se docs (qq_hasNextQuery q) (tr_Items r)"
      "computeFacets se docs (fst (facetBuild (tsqueryOrEmpty se) ?p)) (snd (facetBuild (tsqueryOrEmpty se) ?p))
        (facetsAsked (ts_FacetAggregate ?p)) = Inr (tr_Aggregations r)" "tr_Barrier r = EncodeBarrier (ts_Barrier ?p)"
    using runSearch_parts [OF run] by blast
  have "list_all (clauseHolds se (snd (facetBuild (tsqueryOrEmpty se) ?p)) d) (fst (facetBuild (tsqueryOrEmpty se) ?p)) \<longleftrightarrow>
      wanted se (?p\<lparr>ts_ContentTypes := []\<rparr>) d" for d
    using buildWhere_built [of se "?p\<lparr>ts_ContentTypes := []\<rparr>"] unfolding built_def facetBuild_eq Let_def
    by (metis append_Nil2 fst_conv snd_conv)
  from facets_run [OF parts(4) this] queries_run [OF b q parts(1) ClampInt32_less] parts(2,3,5)
  show ?thesis unfolding fields Let_def by simp
qed

text \<open>C14. What a search returns is what its parameters say, computed by the statements it sends: the items are a page
  of the torrents that pass every filter, in the order asked for with the info hash last; the count is
  their number; there is a next page when there are more; and the facets count over the torrents that
  pass the filters other than the one on content types.\<close>

theorem search_finds_wanted:
  assumes "pg_TorrentSearch se now docs p = Some (Inr r)"
  shows "let p' = resolveBarrier se now p;
      found = sortDocs (orderedBy se p' (wantedOrder p)) (filter (wanted se p') docs);
      skip = nat (ClampInt32 (ts_Offset p)); limit = nat (pageLimit p) in
    tr_Items r = take limit (drop skip found) \<and> tr_TotalCount r = (if ts_TotalCount p then length found else 0) \<and>
    tr_HasNextPage r = (ts_HasNextPage p \<and> skip + limit < length found \<and> skip + limit < 2 ^ 31) \<and>
    tr_Aggregations r = map (\<lambda>f. (f, facetCounts f (filter (wanted se (p'\<lparr>ts_ContentTypes := []\<rparr>)) docs))) (facetsAsked (ts_FacetAggregate p)) \<and>
    tr_Barrier r = EncodeBarrier (ts_Barrier p')"
  by (rule search_result [OF assms])

section \<open>When a search fails\<close>

lemma where_simps:
  "sb_where (addTsquery tsq p b) = sb_where b @ (if ts_QueryString p = [] then [] else [ClTsv (sb_argIdx b)])"
  "sb_where (appendINClause col items b) = sb_where b @ (if items = [] then [] else [ClIn col [sb_argIdx b..<sb_argIdx b + length items]])"
  "sb_where (addFileTypes p b) = sb_where b @
     (if fileChunks (sb_argIdx b) (ts_FileTypes p) = [] then [] else [ClFiles (fileChunks (sb_argIdx b) (ts_FileTypes p))])"
  "sb_where (addLanguages_sb p b) = sb_where b @
     (if ts_Languages p = [] then [] else [ClLanguages [sb_argIdx b..<sb_argIdx b + length (ts_Languages p)]])"
  "sb_where (addContentRefs p b) = sb_where b @ (if ts_ContentRefs p = [] then [] else [ClRefs (refRows (sb_argIdx b) (ts_ContentRefs p))])"
  "sb_where (addBarrier p b) = sb_where b @ (if ts_Barrier p = [] then [] else [ClBefore (sb_argIdx b)])"
  by (simp_all add: addTsquery_def addClause_def appendINClause_def placeholderLoop_eq addFileTypes_def fileClauses_eq
      addLanguages_sb_def addContentRefs_def refTuples_eq addBarrier_def)

lemma buildWhere_years:
  "list_ex (\<lambda>c. case c of ClIn col ns \<Rightarrow> col = ColReleaseYear | _ \<Rightarrow> False) (sb_where (buildWhere tsq p)) \<longleftrightarrow> ts_ReleaseYears p \<noteq> []"
  by (simp add: buildWhere_def buildTail_def buildHead_def where_simps)

lemma buildWhere_barrier:
  assumes "ClBefore n \<in> set (sb_where (buildWhere tsq p))"
  shows "argAt (sb_args (buildWhere tsq p) @ ext) n = ABytes (ts_Barrier p)"
proof -
  define b where "b = buildWhere tsq (p\<lparr>ts_Barrier := []\<rparr>)"
  have same: "buildTail (p\<lparr>ts_Barrier := []\<rparr>) x = addContentRefs p (appendINClause ColReleaseYear (map AInt (ts_ReleaseYears p)) (addLanguages_sb p (addFileTypes p x)))"
    "buildHead tsq (p\<lparr>ts_Barrier := []\<rparr>) = buildHead tsq p" for x
    by (simp_all add: buildTail_def buildHead_def addTsquery_def addBarrier_def addContentRefs_def addLanguages_sb_def addFileTypes_def)
  have b: "buildWhere tsq p = addBarrier p b" by (simp add: b_def buildWhere_def same buildTail_def [of p])
  have none: "ClBefore n \<notin> set (sb_where b)" for n
    by (simp add: b_def buildWhere_def same buildHead_def where_simps)
  obtain se P where "built se b P" using buildWhere_numbers unfolding b_def by blast
  then have "sb_argIdx b = Suc (length (sb_args b))" by (simp add: built_def)
  moreover have "ts_Barrier p \<noteq> []" "n = sb_argIdx b" using assms none unfolding b by (auto simp: where_simps split: if_splits)
  ultimately show ?thesis by (simp add: b addBarrier_def addClause_def argAt_next)
qed

lemma check_passes:
  assumes "sq_where st = sb_where (buildWhere tsq p)" "sq_args st = sb_args (buildWhere tsq p) @ ext" "bound st"
    "se_time se (ts_Barrier p) \<noteq> None" "usesSeeders st \<Longrightarrow> joinsSeeders (sq_select st)"
    "\<not> list_ex (\<lambda>n. argInt (argAt (sq_args st) n) < 0) (optionList (sq_limit st) @ optionList (sq_offset st))"
  shows "checkStatement se st = (if ts_ReleaseYears p \<noteq> [] \<and> \<not> joinsContent (sq_select st) then Some SqlMissingTable else None)"
proof -
  have "argTime se (argAt (sq_args st) n) \<noteq> None" if "ClBefore n \<in> set (sq_where st)" for n
    using buildWhere_barrier [of n tsq p ext] that assms(1,2,4) by (simp add: argTime_def)
  then have "\<not> list_ex (\<lambda>c. case c of ClBefore n \<Rightarrow> argTime se (argAt (sq_args st) n) = None | _ \<Rightarrow> False) (sq_where st)"
    unfolding list_ex_iff by (auto split: sql_clause.splits)
  moreover have "usesContent st \<longleftrightarrow> ts_ReleaseYears p \<noteq> []" by (simp add: usesContent_def assms(1) buildWhere_years)
  moreover have "set (statementNumbers st) = set [1..<Suc (length (sq_args st))]" using assms(3) by (simp add: bound_def)
  ultimately show ?thesis using assms(5,6) by (auto simp: checkStatement_def simp del: set_upt upt_Suc)
qed

lemma facet_joins: "joinsContent (SelectFacet f) \<longleftrightarrow> f = FacetReleaseYear"
proof -
  have "\<not> containsText (columnText ColContentType) ''c.''" "containsText (columnText ColReleaseYear) ''c.''" by code_simp+
  then show ?thesis by (cases f) simp_all
qed

lemma facets_fail: "(\<exists>e. computeFacets se docs cs args fs = Inl e) \<longleftrightarrow> (\<exists>f \<in> set fs. \<exists>e. queryFacet se docs (facetStatement cs args f) = Inl e)"
proof (induction fs)
  case (Cons f fs)
  show ?case
  proof (cases "queryFacet se docs (facetStatement cs args f)")
    case (Inr bucket)
    then show ?thesis using Cons.IH by (cases "computeFacets se docs cs args fs") auto
  qed auto
qed simp


section \<open>Walking through the pages\<close>

lemma resolve_encoded:
  "b \<noteq> [] \<Longrightarrow> resolveBarrier se now (p\<lparr>ts_Barrier := EncodeBarrier b\<rparr>) = p\<lparr>ts_Barrier := b\<rparr>"
proof -
  assume b: "b \<noteq> []"
  then have "EncodeBarrier b \<noteq> []" using barrier_decodes [of b] by (auto simp: DecodeBarrier_def)
  then show ?thesis using b by (simp add: resolveBarrier_def barrier_decodes)
qed

text \<open>Only torrents up to the barrier count.\<close>

lemma wanted_upto:
  assumes "ts_Barrier p \<noteq> []" "filter (created se (ts_Barrier p)) ds = filter (created se (ts_Barrier p)) ds'"
  shows "filter (wanted se p) ds = filter (wanted se p) ds'"
proof -
  have "wanted se p d \<longleftrightarrow> created se (ts_Barrier p) d \<and> wanted se p d" for d using assms(1) by (auto simp: wanted_def)
  then have "filter (wanted se p) xs = filter (wanted se p) (filter (created se (ts_Barrier p)) xs)" for xs
    unfolding filter_filter by (metis (no_types, lifting))
  then show ?thesis using assms(2) by metis
qed

lemma chunks_take: "concat (map (\<lambda>k. take l (drop (k * l) xs)) [0..<n]) = take (n * l) xs"
proof (induction n)
  case (Suc n)
  have "take (n * l + l) xs = take (n * l) xs @ take l (drop (n * l) xs)" by (rule take_add)
  then show ?case using Suc by (simp add: add.commute)
qed simp

text \<open>C17. Who walks through the pages with the barrier of the first one gets each torrent that passes the filters once and
  in order, though torrents arrive all the while: only those from before the barrier have to stay as
  they are from page to page, and every page returns the same barrier.\<close>

theorem pages_cover:
  assumes "b \<noteq> []" "pageLimit p = int l" "int (n * l) < 2 ^ 31"
    "\<And>k. k < n \<Longrightarrow> filter (created se b) (docs k) = filter (created se b) (docs 0)"
    "\<And>k. k < n \<Longrightarrow> pg_TorrentSearch se (now k) (docs k)
      (p\<lparr>ts_Offset := int (k * l), ts_Barrier := EncodeBarrier b\<rparr>) = Some (Inr (r k))"
  shows "concat (map (\<lambda>k. tr_Items (r k)) [0..<n]) =
      take (n * l) (sortDocs (orderedBy se p (wantedOrder p)) (filter (wanted se (p\<lparr>ts_Barrier := b\<rparr>)) (docs 0))) \<and>
    (\<forall>k < n. tr_Barrier (r k) = EncodeBarrier b)"
proof -
  let ?all = "sortDocs (orderedBy se p (wantedOrder p)) (filter (wanted se (p\<lparr>ts_Barrier := b\<rparr>)) (docs 0))"
  have order: "orderedBy se (p\<lparr>ts_Offset := i, ts_Barrier := b\<rparr>) fs = orderedBy se p fs" for i fs
  proof -
    have field: "fieldLess se (p\<lparr>ts_Offset := i, ts_Barrier := b\<rparr>) = fieldLess se p" by (simp add: fun_eq_iff fieldLess_def)
    have "orderedBy se (p\<lparr>ts_Offset := i, ts_Barrier := b\<rparr>) fs x y = orderedBy se p fs x y" for x y
    proof (induction fs)
      case (Cons f fs)
      obtain g dir where f: "f = (g, dir)" by (cases f)
      show ?case unfolding f orderedBy.simps field Cons.IH by (rule refl)
    qed simp
    then show ?thesis by (simp add: fun_eq_iff)
  qed
  have want: "wanted se (p\<lparr>ts_Offset := i, ts_Barrier := b\<rparr>) = wanted se (p\<lparr>ts_Barrier := b\<rparr>)" for i
    by (simp add: fun_eq_iff wanted_def split: option.split)
  have each: "tr_Items (r k) = take l (drop (k * l) ?all) \<and> tr_Barrier (r k) = EncodeBarrier b" if k: "k < n" for k
  proof -
    have "k * l \<le> n * l" using k by simp
    then have "int (k * l) < 2 ^ 31" using assms(3) by linarith
    then have clamp: "nat (ClampInt32 (int (k * l))) = k * l" by (simp add: ClampInt32_def del: of_nat_mult)
    have same: "filter (wanted se (p\<lparr>ts_Barrier := b\<rparr>)) (docs k) = filter (wanted se (p\<lparr>ts_Barrier := b\<rparr>)) (docs 0)"
    proof (rule wanted_upto)
      have b: "ts_Barrier (p\<lparr>ts_Barrier := b\<rparr>) = b" by simp
      show "ts_Barrier (p\<lparr>ts_Barrier := b\<rparr>) \<noteq> []" using assms(1) by simp
      show "filter (created se (ts_Barrier (p\<lparr>ts_Barrier := b\<rparr>))) (docs k) = filter (created se (ts_Barrier (p\<lparr>ts_Barrier := b\<rparr>))) (docs 0)"
        unfolding b by (rule assms(4) [OF k])
    qed
    let ?p = "p\<lparr>ts_Offset := int (k * l), ts_Barrier := EncodeBarrier b\<rparr>"
    have p: "wantedOrder ?p = wantedOrder p" "pageLimit ?p = pageLimit p" "ts_Offset ?p = int (k * l)"
      by (simp_all add: wantedOrder_def pageLimit_def)
    have res: "resolveBarrier se (now k) ?p = p\<lparr>ts_Offset := int (k * l), ts_Barrier := b\<rparr>"
      using resolve_encoded [OF assms(1), of se "now k" "p\<lparr>ts_Offset := int (k * l)\<rparr>"] by simp
    have "tr_Items (r k) = take (nat (pageLimit ?p)) (drop (nat (ClampInt32 (ts_Offset ?p)))
        (sortDocs (orderedBy se (resolveBarrier se (now k) ?p) (wantedOrder ?p)) (filter (wanted se (resolveBarrier se (now k) ?p)) (docs k))))"
      "tr_Barrier (r k) = EncodeBarrier (ts_Barrier (resolveBarrier se (now k) ?p))"
      using search_result [OF assms(5) [OF k]] unfolding Let_def by blast+
    then show ?thesis unfolding p res order want same clamp assms(2) by simp
  qed
  have "concat (map (\<lambda>k. tr_Items (r k)) [0..<n]) = take (n * l) ?all"
    unfolding chunks_take [symmetric] using each by (intro arg_cong [of _ _ concat] map_cong) simp_all
  then show ?thesis using each by simp
qed

section \<open>Witnesses\<close>

text \<open>The environment of the program: queries are translated by \<open>fts.AppQueryToTsquery\<close>.\<close>

definition ftsEnv :: "unicode \<Rightarrow> xlit \<Rightarrow> sql_env \<Rightarrow> sql_env" where
  "ftsEnv u tables se = se\<lparr>se_tsquery := AppQueryToTsquery u tables\<rparr>"

text \<open>Times are single letters.\<close>

definition sampleSearchEnv :: sql_env where
  "sampleSearchEnv = ftsEnv asciiOnly (\<lambda>_. None)
     \<lparr>se_tsquery = (\<lambda>_. None), se_matches = (\<lambda>q d. sd_name d = q), se_rank = (\<lambda>q d. 0), se_less = (\<lambda>a b. hd a < hd b),
       se_time = (\<lambda>s. case s of [c] \<Rightarrow> Some (of_char c) | _ \<Rightarrow> None), se_format = (\<lambda>t. ''z'')\<rparr>"

definition sampleDoc :: "string \<Rightarrow> string \<Rightarrow> int \<Rightarrow> search_doc" where
  "sampleDoc h t at = \<lparr>sd_info_hash = runes_of h, sd_type = Some (runes_of t), sd_source = None, sd_id = None, sd_year = None,
     sd_languages = [], sd_exts = [], sd_created = at, sd_updated = at, sd_size = 0, sd_files_count = None, sd_seeders = None,
     sd_leechers = None, sd_name = runes_of h\<rparr>"

definition sampleDocs :: "search_doc list" where
  "sampleDocs = [sampleDoc ''a'' ''movie'' 1, sampleDoc ''b'' ''music'' 2, sampleDoc ''c'' ''movie'' 3]"

definition searchSample :: torrent_search_params where
  "searchSample = \<lparr>ts_QueryString = [], ts_Limit = 1, ts_Offset = 0, ts_TotalCount = True, ts_HasNextPage = True, ts_Barrier = [],
     ts_InfoHashes = [], ts_ContentTypes = [runes_of ''movie''], ts_FileTypes = [], ts_Languages = [], ts_ReleaseYears = [],
     ts_ContentRefs = [], ts_OrderBy = [],
     ts_FacetAggregate = \<lparr>fa_ContentType = True, fa_FileType = False, fa_Language = False, fa_ReleaseYear = False\<rparr>\<rparr>"

lemma returns_case:
  "(case res of Some (Inr r) \<Rightarrow> P r | _ \<Rightarrow> False) \<longleftrightarrow> (\<exists>r. res = Some (Inr r) \<and> P r)"
  by (auto split: option.split sum.split)

text \<open>Two films, of which the first page has one.\<close>

theorem search_finds_wanted_witness:
  "\<exists>r. pg_TorrentSearch sampleSearchEnv 0 sampleDocs searchSample = Some (Inr r) \<and> tr_TotalCount r = 2 \<and> tr_HasNextPage r"
proof -
  have "case pg_TorrentSearch sampleSearchEnv 0 sampleDocs searchSample of Some (Inr r) \<Rightarrow> True | _ \<Rightarrow> False" by code_simp
  then obtain r where r: "pg_TorrentSearch sampleSearchEnv 0 sampleDocs searchSample = Some (Inr r)"
    unfolding returns_case by blast
  have "length (filter (wanted sampleSearchEnv (resolveBarrier sampleSearchEnv 0 searchSample)) sampleDocs) = 2" by code_simp
  moreover have "ts_TotalCount searchSample" "ts_HasNextPage searchSample" "nat (ClampInt32 (ts_Offset searchSample)) = 0"
    "nat (pageLimit searchSample) = 1" by code_simp+
  ultimately show ?thesis using search_finds_wanted [OF r] r by (auto simp: Let_def)
qed


text \<open>Two pages of one film each, though a third film arrives in between.\<close>

theorem pages_cover_witness:
  "\<exists>r0 r1. pg_TorrentSearch sampleSearchEnv 0 sampleDocs (searchSample\<lparr>ts_Barrier := EncodeBarrier ''d''\<rparr>) = Some (Inr r0) \<and>
    pg_TorrentSearch sampleSearchEnv 1 (sampleDoc ''d'' ''movie'' 200 # sampleDocs)
      (searchSample\<lparr>ts_Offset := 1, ts_Barrier := EncodeBarrier ''d''\<rparr>) = Some (Inr r1) \<and>
    map sd_info_hash (tr_Items r0 @ tr_Items r1) = [runes_of ''c'', runes_of ''a'']"
proof -
  let ?p = "\<lambda>i :: nat. searchSample\<lparr>ts_Offset := int (i * 1), ts_Barrier := EncodeBarrier ''d''\<rparr>"
  let ?docs = "\<lambda>i :: nat. if i = 0 then sampleDocs else sampleDoc ''d'' ''movie'' 200 # sampleDocs"
  have "case pg_TorrentSearch sampleSearchEnv 0 sampleDocs (searchSample\<lparr>ts_Offset := 0, ts_Barrier := EncodeBarrier ''d''\<rparr>) of Some (Inr r) \<Rightarrow> True | _ \<Rightarrow> False"
    by code_simp
  then obtain r0 where r0: "pg_TorrentSearch sampleSearchEnv 0 sampleDocs (searchSample\<lparr>ts_Offset := 0, ts_Barrier := EncodeBarrier ''d''\<rparr>) = Some (Inr r0)"
    unfolding returns_case by blast
  have "case pg_TorrentSearch sampleSearchEnv 1 (sampleDoc ''d'' ''movie'' 200 # sampleDocs)
      (searchSample\<lparr>ts_Offset := 1, ts_Barrier := EncodeBarrier ''d''\<rparr>) of Some (Inr r) \<Rightarrow> True | _ \<Rightarrow> False"
    by code_simp
  then obtain r1 where r1: "pg_TorrentSearch sampleSearchEnv 1 (sampleDoc ''d'' ''movie'' 200 # sampleDocs)
      (searchSample\<lparr>ts_Offset := 1, ts_Barrier := EncodeBarrier ''d''\<rparr>) = Some (Inr r1)"
    unfolding returns_case by blast
  let ?r = "\<lambda>i :: nat. if i = 0 then r0 else r1"
  have old: "filter (created sampleSearchEnv ''d'') (sampleDoc ''d'' ''movie'' 200 # sampleDocs) = filter (created sampleSearchEnv ''d'') sampleDocs"
    by code_simp
  have "concat (map (\<lambda>k. tr_Items (?r k)) [0..<2]) = take (2 * 1) (sortDocs (orderedBy sampleSearchEnv searchSample (wantedOrder searchSample))
      (filter (wanted sampleSearchEnv (searchSample\<lparr>ts_Barrier := ''d''\<rparr>)) (?docs 0))) \<and>
    (\<forall>k < 2. tr_Barrier (?r k) = EncodeBarrier ''d'')"
  proof (rule pages_cover [where docs = ?docs and now = int and r = ?r])
    show "pageLimit searchSample = int 1" by (simp add: pageLimit_def searchSample_def ClampInt32_def)
    show "k < 2 \<Longrightarrow> filter (created sampleSearchEnv ''d'') (?docs k) = filter (created sampleSearchEnv ''d'') (?docs 0)" for k
      using old by simp
    show "k < 2 \<Longrightarrow> pg_TorrentSearch sampleSearchEnv (int k) (?docs k) (?p k) = Some (Inr (?r k))" for k
      using r0 r1 by (cases "k = 0") (auto simp: less_2_cases_iff)
  qed simp_all
  moreover have "map sd_info_hash (take 2 (sortDocs (orderedBy sampleSearchEnv searchSample (wantedOrder searchSample))
      (filter (wanted sampleSearchEnv (searchSample\<lparr>ts_Barrier := ''d''\<rparr>)) sampleDocs))) = [runes_of ''c'', runes_of ''a'']"
    by code_simp
  moreover have "[0..<2] = [0, 1 :: nat]" by (simp add: upt_rec)
  ultimately have "map sd_info_hash (tr_Items r0 @ tr_Items r1) = [runes_of ''c'', runes_of ''a'']" by simp
  moreover have "searchSample\<lparr>ts_Offset := 0, ts_Barrier := EncodeBarrier ''d''\<rparr> = searchSample\<lparr>ts_Barrier := EncodeBarrier ''d''\<rparr>"
    by (simp add: searchSample_def)
  ultimately show ?thesis using r0 r1 by metis
qed

end
